(* ===== verification/Prelude.thy ===== *)
theory Prelude
  imports Main "HOL-Library.Monad_Syntax"
begin

text \<open>
  Shared vocabulary of the development: the Rust integer types and the checked, saturating
  and truncating operations the sources use on them, results as sums, the two orderings of
  \<open>std::cmp::Ordering\<close> combinators, and generic lemmas on lists and options.

  Unsigned machine integers are natural numbers with their width written out: \<open>u16\<close>,
  \<open>u32\<close>, \<open>u64\<close> and \<open>usize\<close> are names for \<open>nat\<close>, every operation that can leave the width
  is one of the functions below, and the well-formedness predicates of the components state
  the bound of each stored field.
\<close>

named_theorems splitting "case splits of result-valued operations"
named_theorems wf_intros "well-formedness facts of values built by the model"

type_synonym u8 = nat
type_synonym u16 = nat
type_synonym u32 = nat
type_synonym u64 = nat
type_synonym usize = nat
type_synonym i64 = int

section \<open>Machine arithmetic\<close>

definition checked_add_u32 :: "u32 \<Rightarrow> u32 \<Rightarrow> u32 option" where
  "checked_add_u32 a b = (if a + b < 2 ^ 32 then Some (a + b) else None)"

definition checked_mul_u32 :: "u32 \<Rightarrow> u32 \<Rightarrow> u32 option" where
  "checked_mul_u32 a b = (if a * b < 2 ^ 32 then Some (a * b) else None)"

definition saturating_add_u32 :: "u32 \<Rightarrow> u32 \<Rightarrow> u32" where
  "saturating_add_u32 a b = min (a + b) (2 ^ 32 - 1)"

definition checked_add_u64 :: "u64 \<Rightarrow> u64 \<Rightarrow> u64 option" where
  "checked_add_u64 a b = (if a + b < 2 ^ 64 then Some (a + b) else None)"

definition saturating_add_u64 :: "u64 \<Rightarrow> u64 \<Rightarrow> u64" where
  "saturating_add_u64 a b = min (a + b) (2 ^ 64 - 1)"

definition saturating_mul_u64 :: "u64 \<Rightarrow> u64 \<Rightarrow> u64" where
  "saturating_mul_u64 a b = min (a * b) (2 ^ 64 - 1)"

definition saturating_add_u8 :: "u8 \<Rightarrow> u8 \<Rightarrow> u8" where
  "saturating_add_u8 a b = min (a + b) (2 ^ 8 - 1)"

definition as_u16 :: "nat \<Rightarrow> u16" where
  "as_u16 n = n mod 2 ^ 16"

definition div_ceil :: "nat \<Rightarrow> nat \<Rightarrow> nat" where
  "div_ceil a b = (a + b - 1) div b"

lemma checked_add_u32_Some [simp]:
  "checked_add_u32 a b = Some c \<longleftrightarrow> c = a + b \<and> a + b < 2 ^ 32"
  by (auto simp: checked_add_u32_def)

lemma checked_add_u32_None [simp]:
  "checked_add_u32 a b = None \<longleftrightarrow> 2 ^ 32 \<le> a + b"
  by (auto simp: checked_add_u32_def)

lemma checked_mul_u32_one [simp]:
  "checked_mul_u32 a (Suc 0) = (if a < 2 ^ 32 then Some a else None)"
  by (simp add: checked_mul_u32_def)

lemma checked_add_u64_Some [simp]:
  "checked_add_u64 a b = Some c \<longleftrightarrow> c = a + b \<and> a + b < 2 ^ 64"
  by (auto simp: checked_add_u64_def)

lemma saturating_add_u32_exact [simp]:
  "a + b < 2 ^ 32 \<Longrightarrow> saturating_add_u32 a b = a + b"
  by (simp add: saturating_add_u32_def)

lemma as_u16_id [simp]: "n < 65536 \<Longrightarrow> as_u16 n = n"
  by (simp add: as_u16_def)

lemma div_ceil_one [simp]: "div_ceil a (Suc 0) = a"
  by (simp add: div_ceil_def)

lemma div_ceil_two: "div_ceil a 2 = (a + 1) div 2"
  by (simp add: div_ceil_def)

section \<open>Results\<close>

text \<open>A Rust \<open>Result<T, E>\<close> is a sum with the error on the left.\<close>

definition ok_or :: "'e \<Rightarrow> 'a option \<Rightarrow> 'e + 'a" where
  "ok_or e x = (case x of None \<Rightarrow> Inl e | Some v \<Rightarrow> Inr v)"

definition bind_result :: "'e + 'a \<Rightarrow> ('a \<Rightarrow> 'e + 'b) \<Rightarrow> 'e + 'b" where
  "bind_result r f = (case r of Inl e \<Rightarrow> Inl e | Inr v \<Rightarrow> f v)"

definition is_ok :: "'e + 'a \<Rightarrow> bool" where
  "is_ok r = (case r of Inl _ \<Rightarrow> False | Inr _ \<Rightarrow> True)"

lemma ok_or_simps [simp]: "ok_or e None = Inl e" "ok_or e (Some v) = Inr v"
  by (simp_all add: ok_or_def)

lemma ok_or_Inr [simp]: "ok_or e x = Inr v \<longleftrightarrow> x = Some v"
  by (cases x) auto

lemma ok_or_Inl [simp]: "ok_or e x = Inl e' \<longleftrightarrow> x = None \<and> e' = e"
  by (cases x) auto

lemma bind_result_simps [simp]:
  "bind_result (Inl e) f = Inl e" "bind_result (Inr v) f = f v"
  by (simp_all add: bind_result_def)

lemma bind_result_Inr:
  "bind_result r f = Inr b \<longleftrightarrow> (\<exists>a. r = Inr a \<and> f a = Inr b)"
  by (cases r) auto

lemma bind_result_Inl:
  "bind_result r f = Inl e \<longleftrightarrow> r = Inl e \<or> (\<exists>a. r = Inr a \<and> f a = Inl e)"
  by (cases r) auto

lemma is_ok_simps [simp]: "is_ok (Inr v)" "\<not> is_ok (Inl e)"
  by (simp_all add: is_ok_def)

lemma is_ok_iff: "is_ok r \<longleftrightarrow> (\<exists>v. r = Inr v)"
  by (cases r) auto

section \<open>Orderings\<close>

text \<open>
  \<open>std::cmp::Ordering\<close>, \<open>Ord::cmp\<close> and \<open>Ordering::then\<close>. \<open>Iterator::min_by\<close> keeps the
  first of several minimal elements.
\<close>

datatype ordering = Less | Equal | Greater

definition cmp :: "'a::linorder \<Rightarrow> 'a \<Rightarrow> ordering" where
  "cmp a b = (if a < b then Less else if a = b then Equal else Greater)"

fun then_ordering :: "ordering \<Rightarrow> ordering \<Rightarrow> ordering" where
  "then_ordering Equal o2 = o2"
| "then_ordering o1 _ = o1"

fun reverse_ordering :: "ordering \<Rightarrow> ordering" where
  "reverse_ordering Less = Greater"
| "reverse_ordering Equal = Equal"
| "reverse_ordering Greater = Less"

fun min_by :: "('a \<Rightarrow> 'a \<Rightarrow> ordering) \<Rightarrow> 'a list \<Rightarrow> 'a option" where
  "min_by c [] = None"
| "min_by c (x # xs) = Some (foldl (\<lambda>best y. if c best y = Greater then y else best) x xs)"

lemma cmp_simps [simp]:
  "cmp a b = Less \<longleftrightarrow> a < b" "cmp a b = Equal \<longleftrightarrow> a = b" "cmp a b = Greater \<longleftrightarrow> b < a"
  by (auto simp: cmp_def)

lemma cmp_refl [simp]: "cmp a a = Equal"
  by simp

lemma then_ordering_simps [simp]:
  "then_ordering o1 o2 = Less \<longleftrightarrow> o1 = Less \<or> (o1 = Equal \<and> o2 = Less)"
  "then_ordering o1 o2 = Equal \<longleftrightarrow> o1 = Equal \<and> o2 = Equal"
  "then_ordering o1 o2 = Greater \<longleftrightarrow> o1 = Greater \<or> (o1 = Equal \<and> o2 = Greater)"
  by (cases o1; auto)+

lemma not_Greater_iff: "o1 \<noteq> Greater \<longleftrightarrow> o1 = Less \<or> o1 = Equal"
  by (cases o1) auto

lemma min_by_fold_mem:
  "foldl (\<lambda>best y. if c best y = Greater then y else best) x xs \<in> insert x (set xs)"
proof (induction xs arbitrary: x)
  case (Cons y ys)
  show ?case using Cons.IH [of "if c x y = Greater then y else x"] by (auto split: if_splits)
qed simp

lemma min_by_mem: "min_by c xs = Some m \<Longrightarrow> m \<in> set xs"
  using min_by_fold_mem [of c] by (cases xs) fastforce+

lemma min_by_None [simp]: "min_by c xs = None \<longleftrightarrow> xs = []"
  by (cases xs) auto

text \<open>\<open>slice::sort_by\<close> is stable: an element goes before the first one that is not less than it.\<close>

fun insert_by :: "('a \<Rightarrow> 'a \<Rightarrow> ordering) \<Rightarrow> 'a \<Rightarrow> 'a list \<Rightarrow> 'a list" where
  "insert_by c x [] = [x]"
| "insert_by c x (y # ys) = (if c x y = Greater then y # insert_by c x ys else x # y # ys)"

definition sort_by :: "('a \<Rightarrow> 'a \<Rightarrow> ordering) \<Rightarrow> 'a list \<Rightarrow> 'a list" where
  "sort_by c xs = foldr (insert_by c) xs []"

lemma set_insert_by [simp]: "set (insert_by c x xs) = insert x (set xs)"
  by (induction xs) auto

lemma sort_by_simps [simp]: "sort_by c [] = []" "sort_by c (x # xs) = insert_by c x (sort_by c xs)"
  by (simp_all add: sort_by_def)

lemma set_sort_by [simp]: "set (sort_by c xs) = set xs"
  by (induction xs) auto

lemma length_insert_by [simp]: "length (insert_by c x xs) = Suc (length xs)"
  by (induction xs) auto

lemma length_sort_by [simp]: "length (sort_by c xs) = length xs"
  by (induction xs) auto

lemma distinct_insert_by [simp]: "distinct (insert_by c x xs) \<longleftrightarrow> x \<notin> set xs \<and> distinct xs"
  by (induction xs) auto

lemma distinct_sort_by [simp]: "distinct (sort_by c xs) \<longleftrightarrow> distinct xs"
  by (induction xs) auto

lemma hd_insert_by:
  "hd (insert_by c x xs) = (if xs = [] then x else if c x (hd xs) = Greater then hd xs else x)"
  by (cases xs) auto

lemma insert_by_not_Nil [simp]: "insert_by c x xs \<noteq> []"
  by (cases xs) auto

lemma sort_by_Nil [simp]: "sort_by c xs = [] \<longleftrightarrow> xs = []"
  by (cases xs) auto

text \<open>A comparison is a total preorder when it is reflexive, antisymmetric in its result and transitive.\<close>

locale comparison =
  fixes c :: "'a \<Rightarrow> 'a \<Rightarrow> ordering"
    and carrier :: "'a \<Rightarrow> bool"
  assumes refl: "carrier x \<Longrightarrow> c x x = Equal"
    and flip: "carrier x \<Longrightarrow> carrier y \<Longrightarrow> c x y = Greater \<longleftrightarrow> c y x = Less"
    and trans: "carrier x \<Longrightarrow> carrier y \<Longrightarrow> carrier z \<Longrightarrow>
      c x y \<noteq> Greater \<Longrightarrow> c y z \<noteq> Greater \<Longrightarrow> c x z \<noteq> Greater"
begin

lemma fold_least:
  assumes "carrier x" and "\<forall>y\<in>set xs. carrier y"
    and "z \<in> insert x (set xs)"
  shows "c (foldl (\<lambda>best y. if c best y = Greater then y else best) x xs) z \<noteq> Greater"
  using assms
proof (induction xs arbitrary: x z)
  case Nil
  then show ?case by (simp add: refl)
next
  case (Cons y ys)
  let ?b = "if c x y = Greater then y else x"
  let ?r = "foldl (\<lambda>best y. if c best y = Greater then y else best) ?b ys"
  have b: "carrier ?b" using Cons.prems by simp
  have r: "carrier ?r"
    using min_by_fold_mem [of c ?b ys] b Cons.prems(2) by auto
  have rb: "c ?r ?b \<noteq> Greater" using Cons.IH [OF b] Cons.prems(2) by simp
  have bx: "c ?b x \<noteq> Greater" and by': "c ?b y \<noteq> Greater"
    using Cons.prems refl [of x] refl [of y] flip [of x y] by auto
  show ?case
  proof (cases "z \<in> set ys")
    case True
    then show ?thesis using Cons.IH [OF b] Cons.prems(2) by simp
  next
    case False
    then have "z = x \<or> z = y" using Cons.prems(3) by auto
    then have "c ?b z \<noteq> Greater" and "carrier z" using bx by' Cons.prems by auto
    then show ?thesis using trans [OF r b _ rb] by simp
  qed
qed

lemma min_by_least:
  assumes "min_by c xs = Some m" and "\<forall>y\<in>set xs. carrier y" and "z \<in> set xs"
  shows "c m z \<noteq> Greater"
  using assms fold_least by (cases xs) auto

lemma greater_trans:
  assumes "carrier x" and "carrier y" and "carrier z"
  shows "c x y = Greater \<Longrightarrow> c y z \<noteq> Less \<Longrightarrow> c x z = Greater"
    and "c x y \<noteq> Less \<Longrightarrow> c y z = Greater \<Longrightarrow> c x z = Greater"
  using assms flip trans by (metis ordering.distinct(3))+

lemma sorted_insert_by:
  assumes "carrier x" and "\<forall>y\<in>set xs. carrier y" and "sorted_wrt (\<lambda>a b. c a b \<noteq> Greater) xs"
  shows "sorted_wrt (\<lambda>a b. c a b \<noteq> Greater) (insert_by c x xs)"
  using assms
proof (induction xs)
  case (Cons y ys)
  show ?case
  proof (cases "c x y = Greater")
    case True
    then have "c y x \<noteq> Greater" using flip [of x y] Cons.prems by auto
    then show ?thesis using True Cons by auto
  next
    case False
    have "c x z \<noteq> Greater" if "z \<in> set ys" for z
      using trans [of x y z] False Cons.prems that by auto
    then show ?thesis using False Cons.prems by auto
  qed
qed simp

lemma sorted_sort_by:
  "\<forall>y\<in>set xs. carrier y \<Longrightarrow> sorted_wrt (\<lambda>a b. c a b \<noteq> Greater) (sort_by c xs)"
  by (induction xs) (auto intro: sorted_insert_by)

text \<open>The head of the sorted list is the element \<open>min_by\<close> keeps, the first of the least.\<close>

lemma min_by_Cons:
  assumes "carrier x" and "\<forall>y\<in>set xs. carrier y"
  shows "min_by c (x # xs) =
    (case min_by c xs of None \<Rightarrow> Some x | Some m \<Rightarrow> Some (if c x m = Greater then m else x))"
  using assms
proof (induction xs arbitrary: x)
  case (Cons y ys)
  let ?f = "\<lambda>best y. if c best y = Greater then y else best"
  show ?case
  proof (cases ys)
    case (Cons z zs)
    obtain m where m: "min_by c ys = Some m" using Cons by simp
    have cm: "carrier m" using min_by_mem [OF m] Cons.prems by auto
    have "min_by c (x # y # ys) = min_by c (?f x y # ys)" by simp
    also have "\<dots> = Some (?f (?f x y) m)" using Cons.IH [of "?f x y"] Cons.prems m by auto
    also have "?f (?f x y) m = ?f x (?f y m)"
      using greater_trans(1) [of x y m] trans [of x y m] Cons.prems cm by auto
    finally show ?thesis using Cons.IH [of y] Cons.prems m by simp
  qed simp
qed simp

lemma hd_sort_by:
  assumes "\<forall>y\<in>set xs. carrier y" and "xs \<noteq> []"
  shows "min_by c xs = Some (hd (sort_by c xs))"
  using assms
proof (induction xs)
  case (Cons x xs)
  show ?case
  proof (cases "xs = []")
    case False
    then show ?thesis using Cons min_by_Cons [of x xs] by (auto simp: hd_insert_by simp del: min_by.simps)
  qed simp
qed simp

end

section \<open>Binary search for the latest acceptable slot\<close>

text \<open>
  Three routines of the solver look for the largest slot of \<open>[low, high]\<close> that passes a
  test, with the same loop. The test is a parameter of the loop; the loop is total because
  the distance between its bounds shrinks.
\<close>

function latest_slot :: "(nat \<Rightarrow> bool) \<Rightarrow> nat \<Rightarrow> nat \<Rightarrow> nat" where
  "latest_slot ok low high =
     (if low < high
      then let middle = low + div_ceil (high - low) 2
           in if ok middle then latest_slot ok middle high
              else latest_slot ok low (middle - 1)
      else low)"
  by pat_completeness auto
termination
  by (relation "measure (\<lambda>(ok, low, high). high - low)") (auto simp: div_ceil_two)

declare latest_slot.simps [simp del]

text \<open>The same loop with a test that may fail: the first error ends the search.\<close>

function try_latest_slot :: "(nat \<Rightarrow> 'e + bool) \<Rightarrow> nat \<Rightarrow> nat \<Rightarrow> 'e + nat" where
  "try_latest_slot ok low high =
     (if low < high
      then let middle = low + div_ceil (high - low) 2
           in case ok middle of
                Inl e \<Rightarrow> Inl e
              | Inr True \<Rightarrow> try_latest_slot ok middle high
              | Inr False \<Rightarrow> try_latest_slot ok low (middle - 1)
      else Inr low)"
  by pat_completeness auto
termination
  by (relation "measure (\<lambda>(ok, low, high). high - low)") (auto simp: div_ceil_two)

declare try_latest_slot.simps [simp del]

lemma try_latest_slot_total:
  assumes "\<And>s. low < s \<Longrightarrow> s \<le> high \<Longrightarrow> test s = Inr (ok s)"
  shows "try_latest_slot test low high = Inr (latest_slot ok low high)"
  using assms
proof (induction "high - low" arbitrary: low high rule: less_induct)
  case less
  show ?case
  proof (cases "low < high")
    case False
    then show ?thesis by (simp add: latest_slot.simps [of ok low high] try_latest_slot.simps)
  next
    case True
    define m where "m = low + div_ceil (high - low) 2"
    have m: "low < m" "m \<le> high" using True by (auto simp: m_def div_ceil_two)
    have "try_latest_slot test m high = Inr (latest_slot ok m high)"
      and "try_latest_slot test low (m - 1) = Inr (latest_slot ok low (m - 1))"
      using less m by auto
    then show ?thesis using True m less.prems [of m]
      by (simp add: latest_slot.simps [of ok low high] try_latest_slot.simps [of test low high]
          m_def [symmetric] Let_def)
  qed
qed

locale antitone_test =
  fixes ok :: "nat \<Rightarrow> bool"
  assumes antitone: "a \<le> b \<Longrightarrow> ok b \<Longrightarrow> ok a"
begin

lemma latest_slot_spec:
  assumes "ok low" and "low \<le> high"
  shows "ok (latest_slot ok low high) \<and> low \<le> latest_slot ok low high \<and>
    latest_slot ok low high \<le> high \<and>
    (\<forall>s. s \<le> high \<longrightarrow> ok s \<longrightarrow> s \<le> latest_slot ok low high)"
  using assms
proof (induction "high - low" arbitrary: low high rule: less_induct)
  case less
  show ?case
  proof (cases "low < high")
    case False
    then have "latest_slot ok low high = low" by (simp add: latest_slot.simps [of ok low high])
    then show ?thesis using False less.prems by auto
  next
    case True
    define m where "m = low + div_ceil (high - low) 2"
    have m: "low < m" "m \<le> high" using True by (auto simp: m_def div_ceil_two)
    have step: "latest_slot ok low high =
        (if ok m then latest_slot ok m high else latest_slot ok low (m - 1))"
      using True by (simp add: latest_slot.simps [of ok low high] m_def Let_def)
    show ?thesis
    proof (cases "ok m")
      case True
      then show ?thesis using less.hyps [of high m] less.prems m step by auto
    next
      case False
      then have up: "s < m" if "ok s" for s using that antitone [of m s] by (cases "m \<le> s") auto
      have L: "ok (latest_slot ok low (m - 1)) \<and> low \<le> latest_slot ok low (m - 1) \<and>
          latest_slot ok low (m - 1) \<le> m - 1 \<and>
          (\<forall>s. s \<le> m - 1 \<longrightarrow> ok s \<longrightarrow> s \<le> latest_slot ok low (m - 1))"
        using less.hyps [of "m - 1" low] less.prems m by auto
      then have "latest_slot ok low (m - 1) \<le> high" using m by linarith
      moreover have "s \<le> m - 1" if "ok s" for s using up [OF that] by simp
      ultimately show ?thesis using L False step m by auto
    qed
  qed
qed

end

end
