(* ===== verification/Domain.thy ===== *)
theory Domain
  imports Prelude
begin

text \<open>
  \<open>src/domain.rs\<close>: wall-clock times with their textual form, time windows, locations, the
  optimization problem, and the plan a schedule produces. Private fields that the
  constructors constrain (a time below 24:00, a window that opens before it closes, a
  non-empty list of locations) are plain fields here, and the constraint is the
  well-formedness predicate of the type.
\<close>

section \<open>Policies\<close>

datatype start_policy = Fixed | Earliest | Latest

datatype visit_policy = AllRequired | BestEffortOnFailure

section \<open>Time of day\<close>

definition minutes_per_day :: u32 where
  "minutes_per_day = 24 * 60"

datatype time_of_day = TimeOfDay (minutes: u16)

datatype time_parse_error = InvalidFormat | OutOfRange

fun time_parse_error_str :: "time_parse_error \<Rightarrow> string" where
  "time_parse_error_str InvalidFormat = ''time must use the HH:MM format''"
| "time_parse_error_str OutOfRange = ''time must be between 00:00 and 23:59''"

definition wf_time :: "time_of_day \<Rightarrow> bool" where
  "wf_time t \<longleftrightarrow> minutes t < minutes_per_day"

text \<open>The derived \<open>PartialOrd\<close>/\<open>Ord\<close> compares the minutes; \<open>max\<close> below is \<open>Ord::max\<close>.\<close>

instantiation time_of_day :: linorder
begin

definition less_eq_time_of_day :: "time_of_day \<Rightarrow> time_of_day \<Rightarrow> bool" where
  "less_eq_time_of_day a b \<longleftrightarrow> minutes a \<le> minutes b"

definition less_time_of_day :: "time_of_day \<Rightarrow> time_of_day \<Rightarrow> bool" where
  "less_time_of_day a b \<longleftrightarrow> minutes a < minutes b"

instance
  by standard (auto simp: less_eq_time_of_day_def less_time_of_day_def intro: time_of_day.expand)

end

lemmas time_order_defs = less_eq_time_of_day_def less_time_of_day_def

lemma minutes_max [simp]: "minutes (max a b) = max (minutes a) (minutes b)"
  by (simp add: max_def time_order_defs)

lemma wf_time_max [wf_intros]: "wf_time a \<Longrightarrow> wf_time b \<Longrightarrow> wf_time (max a b)"
  by (simp add: wf_time_def)

definition from_minutes :: "u16 \<Rightarrow> time_parse_error + time_of_day" where
  "from_minutes m = (if m \<ge> minutes_per_day then Inl OutOfRange else Inr (TimeOfDay m))"

definition time_checked_add :: "time_of_day \<Rightarrow> u32 \<Rightarrow> time_of_day option" where
  "time_checked_add t m = do {
     result \<leftarrow> checked_add_u32 (minutes t) m;
     if result \<ge> minutes_per_day then None else Some (TimeOfDay (as_u16 result))
   }"

lemma from_minutes_Inr [simp]:
  "from_minutes m = Inr t \<longleftrightarrow> t = TimeOfDay m \<and> m < minutes_per_day"
  by (auto simp: from_minutes_def)

lemma time_checked_add_Some:
  "time_checked_add t m = Some t' \<longleftrightarrow>
    minutes t + m < minutes_per_day \<and> t' = TimeOfDay (minutes t + m)"
  by (auto simp: time_checked_add_def bind_eq_Some_conv minutes_per_day_def)

lemma time_checked_add_wf [wf_intros]: "time_checked_add t m = Some t' \<Longrightarrow> wf_time t'"
  by (auto simp: time_checked_add_Some wf_time_def)

section \<open>Textual form of a time\<close>

text \<open>
  Strings are lists of bytes, so \<open>length\<close> is \<open>str::len\<close>. \<open>u16::from_str\<close> of the standard
  library accepts an optional leading \<open>+\<close>, then at least one decimal digit, and rejects a
  value that does not fit.
\<close>

definition digit_char :: "nat \<Rightarrow> char" where
  "digit_char d = char_of (48 + d)"

definition to_digit :: "char \<Rightarrow> nat option" where
  "to_digit c = (let n = of_char c in if 48 \<le> n \<and> n \<le> 57 then Some (n - 48) else None)"

fun digits_value :: "nat \<Rightarrow> nat \<Rightarrow> string \<Rightarrow> nat option" where
  "digits_value limit acc [] = Some acc"
| "digits_value limit acc (c # cs) =
     (case to_digit c of
        None \<Rightarrow> None
      | Some d \<Rightarrow> if acc * 10 + d < limit then digits_value limit (acc * 10 + d) cs else None)"

definition parse_u16 :: "string \<Rightarrow> u16 option" where
  "parse_u16 s =
     (if s = [] \<or> s = ''+'' \<or> s = ''-'' then None
      else digits_value (2 ^ 16) 0 (if hd s = CHR ''+'' then tl s else s))"

fun split_once :: "char \<Rightarrow> string \<Rightarrow> (string \<times> string) option" where
  "split_once sep [] = None"
| "split_once sep (c # cs) =
     (if c = sep then Some ([], cs)
      else map_option (\<lambda>(l, r). (c # l, r)) (split_once sep cs))"

definition time_from_str :: "string \<Rightarrow> time_parse_error + time_of_day" where
  "time_from_str value =
     (case split_once (CHR '':'') value of
        None \<Rightarrow> Inl InvalidFormat
      | Some (hours, mins) \<Rightarrow>
          if length hours \<noteq> 2 \<or> length mins \<noteq> 2 then Inl InvalidFormat
          else (case parse_u16 hours of
              None \<Rightarrow> Inl InvalidFormat
            | Some h \<Rightarrow> (case parse_u16 mins of
                  None \<Rightarrow> Inl InvalidFormat
                | Some m \<Rightarrow>
                    if h \<ge> 24 \<or> m \<ge> 60 then Inl OutOfRange
                    else Inr (TimeOfDay (h * 60 + m)))))"

fun nat_to_string :: "nat \<Rightarrow> string" where
  "nat_to_string n =
     (if n < 10 then [digit_char n] else nat_to_string (n div 10) @ [digit_char (n mod 10)])"

declare nat_to_string.simps [simp del]

definition pad2 :: "nat \<Rightarrow> string" where
  "pad2 n = (let s = nat_to_string n in replicate (2 - length s) (CHR ''0'') @ s)"

definition time_to_string :: "time_of_day \<Rightarrow> string" where
  "time_to_string t = pad2 (minutes t div 60) @ '':'' @ pad2 (minutes t mod 60)"

lemma of_char_digit: "d < 10 \<Longrightarrow> of_char (digit_char d) = 48 + d"
  by (simp add: digit_char_def)

lemma to_digit_digit [simp]: "d < 10 \<Longrightarrow> to_digit (digit_char d) = Some d"
  by (simp add: to_digit_def of_char_digit)

lemma digit_char_neq:
  "d < 10 \<Longrightarrow> digit_char d \<noteq> CHR ''+''" "d < 10 \<Longrightarrow> digit_char d \<noteq> CHR '':''"
  "d < 10 \<Longrightarrow> digit_char d \<noteq> CHR ''-''"
  using of_char_digit [of d] by auto

lemma digit_char_0: "CHR ''0'' = digit_char 0"
  by code_simp

lemma pad2_digits:
  assumes "n < 100"
  shows "pad2 n = [digit_char (n div 10), digit_char (n mod 10)]"
proof (cases "n < 10")
  case True
  then show ?thesis by (simp add: pad2_def nat_to_string.simps [of n] digit_char_0 Let_def)
next
  case False
  then have "n div 10 < 10" using assms by simp
  with False show ?thesis
    by (simp add: pad2_def nat_to_string.simps [of n] nat_to_string.simps [of "n div 10"] Let_def)
qed

lemma length_pad2: "n < 100 \<Longrightarrow> length (pad2 n) = 2"
  by (simp add: pad2_digits)

lemma parse_u16_pad2: "n < 100 \<Longrightarrow> parse_u16 (pad2 n) = Some n"
  by (simp add: pad2_digits parse_u16_def digit_char_neq Let_def)

lemma split_once_pad2:
  "n < 100 \<Longrightarrow> split_once (CHR '':'') (pad2 n @ '':'' @ r) = Some (pad2 n, r)"
  by (simp add: pad2_digits digit_char_neq)

lemma time_from_str_to_string:
  assumes "wf_time t"
  shows "time_from_str (time_to_string t) = Inr t"
proof -
  define h m where "h = minutes t div 60" and "m = minutes t mod 60"
  have "h < 24" "m < 60" "t = TimeOfDay (h * 60 + m)"
    using assms by (cases t; auto simp: h_def m_def wf_time_def minutes_per_day_def)+
  then show ?thesis
    by (simp add: time_from_str_def time_to_string_def split_once_pad2 [simplified]
        parse_u16_pad2 length_pad2)
qed

lemma time_from_str_wf [wf_intros]: "time_from_str s = Inr t \<Longrightarrow> wf_time t"
  by (auto simp: time_from_str_def wf_time_def minutes_per_day_def
      split: option.splits if_splits prod.splits)

section \<open>Locations and problems\<close>

datatype domain_error = InvalidTimeWindow

fun domain_error_str :: "domain_error \<Rightarrow> string" where
  "domain_error_str InvalidTimeWindow = ''opening time must not be later than closing time in v0''"

datatype routing_reference = GooglePlaceId string

record time_window =
  window_open :: time_of_day
  window_close :: time_of_day

definition new_time_window :: "time_of_day \<Rightarrow> time_of_day \<Rightarrow> domain_error + time_window" where
  "new_time_window op cl =
     (if op > cl then Inl InvalidTimeWindow
      else Inr \<lparr>window_open = op, window_close = cl\<rparr>)"

record location =
  location_id :: string
  routing_reference :: routing_reference
  time_window :: time_window
  stay_minutes :: u32
  required :: bool
  priority :: u8

definition new_location ::
  "string \<Rightarrow> routing_reference \<Rightarrow> time_window \<Rightarrow> u32 \<Rightarrow> location" where
  "new_location i r w stay =
     \<lparr>location_id = i, routing_reference = r, time_window = w, stay_minutes = stay,
      required = True, priority = 1\<rparr>"

definition with_visit_metadata :: "location \<Rightarrow> bool \<Rightarrow> u8 \<Rightarrow> location" where
  "with_visit_metadata l req prio = l\<lparr>required := req, priority := prio\<rparr>"

record optimization_problem =
  locations :: "location list"
  start_time :: time_of_day
  start_policy :: start_policy
  visit_policy :: visit_policy

definition with_policies ::
  "location list \<Rightarrow> time_of_day \<Rightarrow> start_policy \<Rightarrow> visit_policy \<Rightarrow> optimization_problem" where
  "with_policies ls t sp vp =
     \<lparr>locations = ls, start_time = t, start_policy = sp, visit_policy = vp\<rparr>"

definition with_start_policy ::
  "location list \<Rightarrow> time_of_day \<Rightarrow> start_policy \<Rightarrow> optimization_problem" where
  "with_start_policy ls t sp = with_policies ls t sp AllRequired"

text \<open>
  The constructor asserts that the list of locations is not empty, which is what makes the
  endpoint accessors total in the code; \<open>wf_problem\<close> carries that assertion.
\<close>

definition start_location :: "optimization_problem \<Rightarrow> location" where
  "start_location p = hd (locations p)"

definition end_location :: "optimization_problem \<Rightarrow> location" where
  "end_location p = last (locations p)"

definition intermediate_locations :: "optimization_problem \<Rightarrow> location list" where
  "intermediate_locations p =
     (if length (locations p) \<le> 2 then []
      else take (length (locations p) - 2) (drop 1 (locations p)))"

definition start_location_index :: "optimization_problem \<Rightarrow> usize" where
  "start_location_index p = 0"

definition end_location_index :: "optimization_problem \<Rightarrow> usize" where
  "end_location_index p = length (locations p) - 1"

definition wf_window :: "time_window \<Rightarrow> bool" where
  "wf_window w \<longleftrightarrow> window_open w \<le> window_close w \<and> wf_time (window_close w)"

definition wf_location :: "location \<Rightarrow> bool" where
  "wf_location l \<longleftrightarrow>
     wf_window (time_window l) \<and> stay_minutes l < 2 ^ 32 \<and> priority l < 2 ^ 8"

definition wf_problem :: "optimization_problem \<Rightarrow> bool" where
  "wf_problem p \<longleftrightarrow>
     locations p \<noteq> [] \<and> (\<forall>l\<in>set (locations p). wf_location l) \<and> wf_time (start_time p)"

lemma new_time_window_wf [wf_intros]:
  "new_time_window op cl = Inr w \<Longrightarrow> wf_time cl \<Longrightarrow> wf_window w"
  by (auto simp: new_time_window_def wf_window_def split: if_splits)

lemma wf_window_open: "wf_window w \<Longrightarrow> wf_time (window_open w)"
  by (simp add: wf_window_def wf_time_def less_eq_time_of_day_def)

lemma wf_problem_nth: "wf_problem p \<Longrightarrow> i < length (locations p) \<Longrightarrow> wf_location (locations p ! i)"
  by (simp add: wf_problem_def)

lemma wf_problem_length: "wf_problem p \<Longrightarrow> 0 < length (locations p)"
  by (simp add: wf_problem_def)

lemma start_location_nth: "wf_problem p \<Longrightarrow> start_location p = locations p ! 0"
  by (simp add: wf_problem_def start_location_def hd_conv_nth)

lemma end_location_nth: "wf_problem p \<Longrightarrow> end_location p = locations p ! end_location_index p"
  by (simp add: wf_problem_def end_location_def end_location_index_def last_conv_nth)

lemma endpoints_split:
  "2 \<le> length (locations p) \<Longrightarrow>
    locations p = start_location p # intermediate_locations p @ [end_location p]"
  by (cases "locations p" rule: rev_cases; cases "butlast (locations p)")
    (auto simp: start_location_def end_location_def intermediate_locations_def)

section \<open>Route plans\<close>

record scheduled_stop =
  location_index :: usize
  arrival_time :: time_of_day
  service_start_time :: time_of_day
  departure_time :: "time_of_day option"
  stop_wait_minutes :: u32
  stop_stay_minutes :: u32

record route_plan =
  stops :: "scheduled_stop list"
  total_travel_minutes :: u32

end
