(* ===== verification/Matrix.thy ===== *)
theory Matrix
  imports Domain
begin

text \<open>
  \<open>src/matrix.rs\<close>: the row-major directed travel-time matrix. \<open>None\<close> marks a known
  unreachable arc; zero is a valid travel time on every arc.
\<close>

record travel_time_matrix =
  rows :: "u32 option list list"

datatype matrix_error =
    MatrixEmpty
  | NotSquare (ns_row: usize) (ns_expected: usize) (ns_actual: usize)
  | InvalidDiagonal (id_index: usize) (id_actual: "u32 option")

definition show_option_nat :: "nat option \<Rightarrow> string" where
  "show_option_nat x = (case x of None \<Rightarrow> ''None'' | Some v \<Rightarrow> ''Some('' @ nat_to_string v @ '')'')"

fun matrix_error_str :: "matrix_error \<Rightarrow> string" where
  "matrix_error_str MatrixEmpty = ''travel time matrix must not be empty''"
| "matrix_error_str (NotSquare row expected actual) =
     ''travel time matrix row '' @ nat_to_string row @ '' has length '' @ nat_to_string actual @
     ''; expected '' @ nat_to_string expected"
| "matrix_error_str (InvalidDiagonal index actual) =
     ''travel time matrix diagonal entry ['' @ nat_to_string index @ ''][''  @ nat_to_string index @
     ''] must be 0; actual '' @ show_option_nat actual"

text \<open>\<open>enumerate().find_map\<close> of the square check, and the diagonal loop.\<close>

fun find_bad_row :: "usize \<Rightarrow> usize \<Rightarrow> u32 option list list \<Rightarrow> (usize \<times> usize) option" where
  "find_bad_row sz row [] = None"
| "find_bad_row sz row (r # rs) =
     (if length r \<noteq> sz then Some (row, length r) else find_bad_row sz (Suc row) rs)"

fun check_diagonal :: "usize \<Rightarrow> u32 option list list \<Rightarrow> matrix_error + unit" where
  "check_diagonal i [] = Inr ()"
| "check_diagonal i (r # rs) =
     (if r ! i \<noteq> Some 0 then Inl (InvalidDiagonal i (r ! i)) else check_diagonal (Suc i) rs)"

definition new_sparse :: "u32 option list list \<Rightarrow> matrix_error + travel_time_matrix" where
  "new_sparse rs =
     (if rs = [] then Inl MatrixEmpty
      else let sz = length rs in
        case find_bad_row sz 0 rs of
          Some (row, actual) \<Rightarrow> Inl (NotSquare row sz actual)
        | None \<Rightarrow> bind_result (check_diagonal 0 rs) (\<lambda>_. Inr \<lparr>rows = rs\<rparr>))"

definition new_matrix :: "u32 list list \<Rightarrow> matrix_error + travel_time_matrix" where
  "new_matrix rs = new_sparse (map (map Some) rs)"

definition matrix_size :: "travel_time_matrix \<Rightarrow> usize" where
  "matrix_size m = length (rows m)"

definition get :: "'a list \<Rightarrow> nat \<Rightarrow> 'a option" where
  "get xs i = (if i < length xs then Some (xs ! i) else None)"

definition travel_minutes :: "travel_time_matrix \<Rightarrow> usize \<Rightarrow> usize \<Rightarrow> u32 option" where
  "travel_minutes m from to = do { row \<leftarrow> get (rows m) from; cell \<leftarrow> get row to; cell }"

definition into_rows :: "travel_time_matrix \<Rightarrow> u32 option list list" where
  "into_rows m = rows m"

text \<open>What the constructor establishes.\<close>

definition wf_matrix :: "travel_time_matrix \<Rightarrow> bool" where
  "wf_matrix m \<longleftrightarrow>
     rows m \<noteq> [] \<and> (\<forall>r\<in>set (rows m). length r = matrix_size m) \<and>
     (\<forall>i<matrix_size m. rows m ! i ! i = Some 0)"

definition u32_cells :: "travel_time_matrix \<Rightarrow> bool" where
  "u32_cells m \<longleftrightarrow> (\<forall>r\<in>set (rows m). \<forall>c\<in>set r. case c of None \<Rightarrow> True | Some t \<Rightarrow> t < 2 ^ 32)"

lemma find_bad_row_None:
  "find_bad_row sz row rs = None \<longleftrightarrow> (\<forall>r\<in>set rs. length r = sz)"
  by (induction rs arbitrary: row) auto

lemma find_bad_row_Some:
  "find_bad_row sz row rs = Some (k, actual) \<Longrightarrow>
    row \<le> k \<and> k - row < length rs \<and> actual = length (rs ! (k - row)) \<and> actual \<noteq> sz \<and>
    (\<forall>j<k - row. length (rs ! j) = sz)"
proof (induction rs arbitrary: row)
  case (Cons r rs)
  show ?case
  proof (cases "length r = sz")
    case True
    then have *: "find_bad_row sz (Suc row) rs = Some (k, actual)" using Cons.prems by simp
    from Cons.IH [OF *] have "Suc row \<le> k" by simp
    then obtain d where "k = Suc row + d" by (auto simp: le_iff_add)
    then show ?thesis using Cons.IH [OF *] True by (auto simp: less_Suc_eq_0_disj)
  next
    case False
    then show ?thesis using Cons.prems by auto
  qed
qed simp

lemma check_diagonal_Inr:
  "check_diagonal i rs = Inr () \<longleftrightarrow> (\<forall>k<length rs. rs ! k ! (i + k) = Some 0)"
proof (induction rs arbitrary: i)
  case (Cons r rs)
  show ?case by (auto simp: Cons.IH less_Suc_eq_0_disj)
qed simp

lemma check_diagonal_Inl:
  "check_diagonal i rs = Inl e \<Longrightarrow>
    \<exists>k<length rs. e = InvalidDiagonal (i + k) (rs ! k ! (i + k)) \<and> rs ! k ! (i + k) \<noteq> Some 0"
proof (induction rs arbitrary: i)
  case (Cons r rs)
  then show ?case
    by (cases "r ! i = Some 0") (fastforce split: if_splits)+
qed simp

lemma new_sparse_Inr:
  "new_sparse rs = Inr m \<longleftrightarrow> m = \<lparr>rows = rs\<rparr> \<and> wf_matrix \<lparr>rows = rs\<rparr>"
  by (auto simp: new_sparse_def wf_matrix_def matrix_size_def bind_result_Inr Let_def
      find_bad_row_None check_diagonal_Inr split: option.splits)
     (metis find_bad_row_None not_None_eq)+

lemma wf_matrix_cell:
  "wf_matrix m \<Longrightarrow> i < matrix_size m \<Longrightarrow> j < matrix_size m \<Longrightarrow>
    travel_minutes m i j = rows m ! i ! j"
  by (simp add: wf_matrix_def travel_minutes_def get_def matrix_size_def)

lemma travel_minutes_bound:
  "u32_cells m \<Longrightarrow> travel_minutes m i j = Some t \<Longrightarrow> t < 2 ^ 32"
  by (fastforce simp: travel_minutes_def get_def u32_cells_def bind_eq_Some_conv
      dest!: nth_mem split: if_splits)

end
