(* ===== verification/Solver_Core.thy ===== *)
theory Solver_Core
  imports Matrix
begin

text \<open>
  \<open>src/solver/core/\<close>: the vocabulary every solver shares. The trait \<open>ObjectivePolicy\<close> is a
  record of its three methods, so that the solvers below take the policy as an argument as
  the code does. A cancellation token is a flag other threads may set at any time, so each
  place that reads it has a name of its own and the input carries the value every such read
  returns.
\<close>

record solver_solution =
  visit_order :: "usize list"

datatype solver_error =
    Cancelled
  | NoFeasibleRoute
  | ProvenInfeasible
  | Unsupported string
  | TimedOut
  | UnsupportedLocationCount (ulc_maximum: usize) (ulc_actual: usize)
  | UnsupportedMatchingVertexCount (umv_maximum: usize) (umv_actual: usize)
  | PerfectMatchingFailed string
  | MatrixSizeMismatch (msm_matrix: usize) (msm_locations: usize)
  | InvalidVisitOrder
  | InvalidConfiguration string
  | Failed string

record solution_metrics =
  metric_start_policy :: start_policy
  visited_optional_count :: usize
  visited_optional_priority :: u32
  start_time_slot :: u16
  finish_time_slot :: u16
  metric_travel_minutes :: u32
  metric_wait_minutes :: u32
  metric_score :: u64

record objective_policy =
  score :: "u32 \<Rightarrow> u32 \<Rightarrow> u64"
  frontier_cost :: "u32 \<Rightarrow> u32 \<Rightarrow> u64"
  compare :: "solution_metrics \<Rightarrow> solution_metrics \<Rightarrow> ordering"

text \<open>
  The sites that read the cancellation flag, with the loop counters that tell reads apart; the
  sites of a run inside another one carry its number there.
\<close>

datatype poll =
    PollEvaluate
  | PollEvaluateReport
  | PollExactValidate
  | PollFeasible u16 nat
  | PollSearch u16 nat
  | PollGenerate
  | PollDistance usize usize
  | PollLoop nat
  | PollPenalties
  | PollStart
  | PollEnd
  | PollWithin nat poll

record solver_input =
  input_matrix :: travel_time_matrix
  input_problem :: optimization_problem
  is_cancelled :: "poll \<Rightarrow> bool"

text \<open>The input of the run number \<open>k\<close> inside another one.\<close>

definition inner_input :: "nat \<Rightarrow> solver_input \<Rightarrow> solver_input" where
  "inner_input k i = i\<lparr>is_cancelled := (\<lambda>q. is_cancelled i (PollWithin k q))\<rparr>"

datatype solver_progress_event =
    StrategyStarted string
  | StrategyCompleted string
  | AnnealingRunStarted u64
  | SelectionStarted usize

datatype solver_outcome_kind =
    OutcomeCompleted | OutcomeTimeout | OutcomeCancelled | OutcomeUnsupported
  | OutcomeFailed | OutcomeInfeasible

datatype solver_proof_status =
    ProofOptimal | ProofInfeasible | ProofFeasible | ProofUnknown

definition wf_input :: "solver_input \<Rightarrow> bool" where
  "wf_input i \<longleftrightarrow>
     wf_problem (input_problem i) \<and> wf_matrix (input_matrix i) \<and> u32_cells (input_matrix i)"

definition never_cancelled :: "solver_input \<Rightarrow> bool" where
  "never_cancelled i \<longleftrightarrow> (\<forall>q. \<not> is_cancelled i q)"

section \<open>The default objective\<close>

definition default_score :: "u32 \<Rightarrow> u32 \<Rightarrow> u64" where
  "default_score travel wait = travel + wait"

definition default_frontier_cost :: "u32 \<Rightarrow> u32 \<Rightarrow> u64" where
  "default_frontier_cost travel wait = Bit_Operations.or (push_bit 32 travel) wait"

definition default_compare :: "solution_metrics \<Rightarrow> solution_metrics \<Rightarrow> ordering" where
  "default_compare l r =
     (let start_order = (case metric_start_policy l of
            Fixed \<Rightarrow> Equal
          | Earliest \<Rightarrow> cmp (start_time_slot l) (start_time_slot r)
          | Latest \<Rightarrow> cmp (start_time_slot r) (start_time_slot l))
      in then_ordering (cmp (visited_optional_count r) (visited_optional_count l))
         (then_ordering (cmp (visited_optional_priority r) (visited_optional_priority l))
         (then_ordering start_order
         (then_ordering (cmp (finish_time_slot l) (finish_time_slot r))
         (then_ordering (cmp (metric_travel_minutes l) (metric_travel_minutes r))
         (then_ordering (cmp (metric_wait_minutes l) (metric_wait_minutes r))
           (cmp (metric_score l) (metric_score r))))))))"

definition default_objective :: objective_policy where
  "default_objective =
     \<lparr>score = default_score, frontier_cost = default_frontier_cost, compare = default_compare\<rparr>"

lemma default_objective_simps [simp]:
  "score default_objective = default_score"
  "frontier_cost default_objective = default_frontier_cost"
  "compare default_objective = default_compare"
  by (simp_all add: default_objective_def)

text \<open>Packing two 32-bit numbers keeps their lexicographic order.\<close>

lemma default_frontier_cost_eq:
  assumes "wait < 2 ^ 32"
  shows "default_frontier_cost travel wait = travel * 2 ^ 32 + wait"
proof -
  have "bit (push_bit 32 travel) n \<Longrightarrow> bit wait n \<Longrightarrow> False" for n
  proof -
    assume *: "bit (push_bit 32 travel) n" "bit wait n"
    then have "32 \<le> n" by (simp add: bit_push_bit_iff)
    moreover have "bit (take_bit 32 wait) n" using * assms by (simp add: take_bit_nat_eq_self)
    ultimately show False by (simp add: bit_take_bit_iff)
  qed
  then have "Bit_Operations.or (push_bit 32 travel) wait = push_bit 32 travel + wait"
    by (intro disjunctive_add_eq_or [symmetric] bit_eqI) (auto simp: bit_and_iff)
  then show ?thesis
    by (simp add: default_frontier_cost_def push_bit_eq_mult)
qed

text \<open>
  Metrics of one policy are totally preordered, and the comparison is the lexicographic order
  of a key: more optional visits, more optional priority, the start the policy prefers, an
  earlier finish, less travel, less wait, a lower score.
\<close>

definition start_key :: "start_policy \<Rightarrow> nat \<Rightarrow> int" where
  "start_key sp s = (case sp of Fixed \<Rightarrow> 0 | Earliest \<Rightarrow> int s | Latest \<Rightarrow> - int s)"

definition metrics_key :: "solution_metrics \<Rightarrow> int list" where
  "metrics_key m =
     [- int (visited_optional_count m), - int (visited_optional_priority m),
      start_key (metric_start_policy m) (start_time_slot m), int (finish_time_slot m),
      int (metric_travel_minutes m), int (metric_wait_minutes m), int (metric_score m)]"

fun lex_cmp :: "'a::linorder list \<Rightarrow> 'a list \<Rightarrow> ordering" where
  "lex_cmp (x # xs) (y # ys) = then_ordering (cmp x y) (lex_cmp xs ys)"
| "lex_cmp [] [] = Equal"
| "lex_cmp [] (y # ys) = Less"
| "lex_cmp (x # xs) [] = Greater"

lemma lex_cmp_refl: "lex_cmp xs xs = Equal"
  by (induction xs) auto

lemma lex_cmp_flip: "lex_cmp xs ys = Greater \<longleftrightarrow> lex_cmp ys xs = Less"
  by (induction xs ys rule: lex_cmp.induct) auto

lemma lex_cmp_trans:
  "lex_cmp xs ys \<noteq> Greater \<Longrightarrow> lex_cmp ys zs \<noteq> Greater \<Longrightarrow> lex_cmp xs zs \<noteq> Greater"
proof (induction xs ys arbitrary: zs rule: lex_cmp.induct)
  case (1 x xs y ys)
  then show ?case by (cases zs) (auto simp: not_Greater_iff)
next
  case (3 y ys)
  then show ?case by (cases zs) auto
qed auto

lemma default_compare_lex:
  "metric_start_policy l = metric_start_policy r \<Longrightarrow>
    default_compare l r = lex_cmp (metrics_key l) (metrics_key r)"
  by (cases "metric_start_policy r")
    (simp_all add: default_compare_def metrics_key_def start_key_def cmp_def Let_def)

interpretation default_order: comparison default_compare "\<lambda>m. metric_start_policy m = sp" for sp
proof unfold_locales
  fix x y z :: solution_metrics
  assume x: "metric_start_policy x = sp"
  show "default_compare x x = Equal" by (simp add: default_compare_lex lex_cmp_refl)
  assume y: "metric_start_policy y = sp"
  show "default_compare x y = Greater \<longleftrightarrow> default_compare y x = Less"
    using x y by (simp add: default_compare_lex lex_cmp_flip)
  assume z: "metric_start_policy z = sp"
  show "default_compare x y \<noteq> Greater \<Longrightarrow> default_compare y z \<noteq> Greater \<Longrightarrow>
      default_compare x z \<noteq> Greater"
    using x y z lex_cmp_trans by (simp add: default_compare_lex) blast
qed

end
