(* ===== verification/Route_Spec.thy ===== *)
theory Route_Spec
  imports Solver_Core
begin

text \<open>
  What it means, independently of any solver, to walk a route: from the departure minute at
  the first stop, add the travel time of each arc, wait for the opening time, stay, and
  leave by the closing time. The solvers, the evaluator and the scheduler all recompute
  this walk with machine integers; their agreement is proved against this specification.
\<close>

definition serve :: "location \<Rightarrow> nat \<Rightarrow> (nat \<times> nat) option" where
  "serve l arrival =
     (let service = max arrival (minutes (window_open (time_window l)));
          finish = service + stay_minutes l
      in if finish \<le> minutes (window_close (time_window l)) then Some (service - arrival, finish)
         else None)"

fun walk :: "optimization_problem \<Rightarrow> travel_time_matrix \<Rightarrow> usize list \<Rightarrow>
    nat \<times> nat \<times> nat \<Rightarrow> (nat \<times> nat \<times> nat) option" where
  "walk p m (a # b # rest) (t, travel, wait) =
     (case travel_minutes m a b of
        None \<Rightarrow> None
      | Some d \<Rightarrow> (case serve (locations p ! b) (t + d) of
            None \<Rightarrow> None
          | Some (w, f) \<Rightarrow> walk p m (b # rest) (f, travel + d, wait + w)))"
| "walk p m _ s = Some s"

text \<open>A whole route from the minute the first visit may start.\<close>

definition route_walk :: "optimization_problem \<Rightarrow> travel_time_matrix \<Rightarrow> usize list \<Rightarrow> nat \<Rightarrow>
    (nat \<times> nat \<times> nat) option" where
  "route_walk p m order start =
     (case serve (locations p ! 0) start of
        None \<Rightarrow> None
      | Some (w, f) \<Rightarrow> walk p m order (f, 0, w))"

text \<open>A visit order the API may return: endpoints fixed, no repetition, required stops present.\<close>

definition valid_order :: "optimization_problem \<Rightarrow> usize list \<Rightarrow> bool" where
  "valid_order p order \<longleftrightarrow>
     (let n = length (locations p) in
      order \<noteq> [] \<and> hd order = 0 \<and> last order = n - 1 \<and> distinct order \<and> set order \<subseteq> {..<n} \<and>
      (\<forall>i<n. required (locations p ! i) \<longrightarrow> i \<in> set order) \<and>
      (visit_policy p = AllRequired \<longrightarrow> set order = {..<n}))"

section \<open>Serving a location\<close>

lemma serve_Some:
  "serve l a = Some (w, f) \<longleftrightarrow>
    w = max a (minutes (window_open (time_window l))) - a \<and>
    f = max a (minutes (window_open (time_window l))) + stay_minutes l \<and>
    f \<le> minutes (window_close (time_window l))"
  by (auto simp: serve_def Let_def)

lemma serve_after: "serve l a = Some (w, f) \<Longrightarrow> a + w \<le> f"
  by (auto simp: serve_Some)

lemma serve_before_midnight:
  "wf_location l \<Longrightarrow> serve l a = Some (w, f) \<Longrightarrow> f < minutes_per_day"
  by (auto simp: serve_Some wf_location_def wf_window_def wf_time_def)

text \<open>
  Arriving earlier serves no later, and the time gained is exactly the additional wait plus
  the earlier finish.
\<close>

lemma serve_mono:
  assumes "serve l b = Some (wb, fb)" and "a \<le> b"
  obtains wa fa where "serve l a = Some (wa, fa)" and "fa \<le> fb" and "wa + (fb - fa) = wb + (b - a)"
proof -
  have "serve l a = Some (max a (minutes (window_open (time_window l))) - a,
      max a (minutes (window_open (time_window l))) + stay_minutes l)"
    using assms by (auto simp: serve_Some)
  then show thesis using that assms by (force simp: serve_Some max_def split: if_splits)
qed

section \<open>Walking\<close>

lemma walk_step:
  "walk p m (a # b # rest) (t, travel, wait) = Some s \<longleftrightarrow>
    (\<exists>d w f. travel_minutes m a b = Some d \<and> serve (locations p ! b) (t + d) = Some (w, f) \<and>
      walk p m (b # rest) (f, travel + d, wait + w) = Some s)"
  by (auto split: option.splits)

declare walk.simps(1) [simp del]

lemma walk_mono:
  assumes "walk p m order (t2, r2, w2) = Some (f2, r2', w2')" and "t1 \<le> t2"
  shows "\<exists>f1 w1'. walk p m order (t1, r1, w1) = Some (f1, r1 + (r2' - r2), w1') \<and>
    f1 \<le> f2 \<and> r2 \<le> r2' \<and> w2 \<le> w2' \<and> w1 \<le> w1' \<and>
    (w1' - w1) + (f2 - f1) = (w2' - w2) + (t2 - t1)"
  using assms
proof (induction order arbitrary: t1 r1 w1 t2 r2 w2 rule: induct_list012)
  case (3 a b rest)
  from "3.prems"(1) obtain d wb fb
    where d: "travel_minutes m a b = Some d"
      and s2: "serve (locations p ! b) (t2 + d) = Some (wb, fb)"
      and rest: "walk p m (b # rest) (fb, r2 + d, w2 + wb) = Some (f2, r2', w2')"
    by (auto simp: walk_step)
  obtain wa fa where s1: "serve (locations p ! b) (t1 + d) = Some (wa, fa)"
    and le: "fa \<le> fb" and gain: "wa + (fb - fa) = wb + (t2 - t1)"
    using serve_mono [OF s2, of "t1 + d"] "3.prems"(2) by auto
  obtain f1 w1' where
    w: "walk p m (b # rest) (fa, r1 + d, w1 + wa) = Some (f1, r1 + d + (r2' - (r2 + d)), w1')"
    and ih: "f1 \<le> f2" "r2 + d \<le> r2'" "w2 + wb \<le> w2'" "w1 + wa \<le> w1'"
      "(w1' - (w1 + wa)) + (f2 - f1) = (w2' - (w2 + wb)) + (fb - fa)"
    using "3.IH"(2) [OF rest le, of "r1 + d" "w1 + wa"] by auto
  have "r1 + d + (r2' - (r2 + d)) = r1 + (r2' - r2)" using ih by simp
  moreover have "(w1' - w1) + (f2 - f1) = (w2' - w2) + (t2 - t1)" using ih gain by linarith
  ultimately show ?case using d s1 w ih by (auto simp: walk_step)
qed auto

lemma walk_grows:
  "walk p m order (t, r, w) = Some (f, r', w') \<Longrightarrow>
    t \<le> f \<and> r \<le> r' \<and> w \<le> w' \<and> (r' - r) + (w' - w) \<le> f - t"
proof (induction order arbitrary: t r w rule: induct_list012)
  case (3 a b rest)
  from "3.prems" obtain d w1 f1 where s: "serve (locations p ! b) (t + d) = Some (w1, f1)"
      and rest: "walk p m (b # rest) (f1, r + d, w + w1) = Some (f, r', w')"
    by (auto simp: walk_step)
  from "3.IH"(2) [OF rest] serve_after [OF s] show ?case by linarith
qed auto

lemma walk_snoc:
  "walk p m (xs @ [a, b]) s = Some s'' \<longleftrightarrow>
    (\<exists>s'. walk p m (xs @ [a]) s = Some s' \<and> walk p m [a, b] s' = Some s'')"
proof (induction xs arbitrary: s rule: induct_list012)
  case 1
  then show ?case by (cases s) auto
next
  case (2 x)
  then show ?case by (cases s) (auto simp: walk_step)
next
  case (3 x y zs)
  then show ?case by (cases s) (fastforce simp: walk_step)
qed

lemma walk_before_midnight:
  assumes "wf_problem p" and "set order \<subseteq> {..<length (locations p)}"
    and "walk p m order (t, r, w) = Some (f, r', w')" and "t < minutes_per_day"
  shows "f < minutes_per_day"
  using assms(2-)
proof (induction order arbitrary: t r w rule: induct_list012)
  case (3 a b rest)
  then obtain d w1 f1 where s: "serve (locations p ! b) (t + d) = Some (w1, f1)"
      and rest: "walk p m (b # rest) (f1, r + d, w + w1) = Some (f, r', w')"
    by (auto simp: walk_step)
  have "wf_location (locations p ! b)" using "3.prems"(1) assms(1) by (simp add: wf_problem_nth)
  from "3.IH"(2) [OF _ rest serve_before_midnight [OF this s]] "3.prems"(1) show ?case by simp
qed auto

lemma route_walk_mono:
  assumes "route_walk p m order s2 = Some (f2, r2, w2)" and "s1 \<le> s2"
  shows "\<exists>f1 w1. route_walk p m order s1 = Some (f1, r2, w1) \<and> f1 \<le> f2 \<and>
    w1 + (f2 - f1) = w2 + (s2 - s1)"
proof -
  from assms(1) obtain wb fb where s2: "serve (locations p ! 0) s2 = Some (wb, fb)"
    and w2: "walk p m order (fb, 0, wb) = Some (f2, r2, w2)"
    by (auto simp: route_walk_def split: option.splits)
  obtain wa fa where s1: "serve (locations p ! 0) s1 = Some (wa, fa)"
    and le: "fa \<le> fb" and gain: "wa + (fb - fa) = wb + (s2 - s1)"
    using s2 assms(2) by (auto elim: serve_mono)
  from walk_mono [OF w2 le, of 0 wa] gain show ?thesis
    by (auto simp: route_walk_def s1)
qed

lemma route_walk_grows:
  "route_walk p m order s = Some (f, r, w) \<Longrightarrow> s + r + w \<le> f"
  by (auto simp: route_walk_def split: option.splits dest!: walk_grows serve_after)

lemma route_walk_before_midnight:
  assumes "wf_problem p" and "set order \<subseteq> {..<length (locations p)}"
    and "route_walk p m order s = Some (f, r, w)"
  shows "f < minutes_per_day"
proof -
  from assms(3) obtain w0 f0 where s: "serve (locations p ! 0) s = Some (w0, f0)"
    and walk: "walk p m order (f0, 0, w0) = Some (f, r, w)"
    by (auto simp: route_walk_def split: option.splits)
  have "f0 < minutes_per_day"
    using assms(1) by (intro serve_before_midnight [OF _ s] wf_problem_nth wf_problem_length)
  then show ?thesis by (rule walk_before_midnight [OF assms(1,2) walk])
qed

end
