(* ===== verification/Readme_Example.thy ===== *)
theory Readme_Example
  imports Solver_Core
begin

text \<open>
  The request of \<open>docs/examples/basic-request.json\<close>, as the problem and matrix the service
  builds from it: hotel, museum, park and station, a complete directed matrix, an EARLIEST
  start at 09:00. The concrete instances of the theorems are taken here, in all three start
  policies.
\<close>

definition readme_location :: "string \<Rightarrow> nat \<Rightarrow> nat \<Rightarrow> nat \<Rightarrow> location" where
  "readme_location name op cl stay =
     new_location name (GooglePlaceId []) \<lparr>window_open = TimeOfDay op, window_close = TimeOfDay cl\<rparr> stay"

definition readme_problem :: "start_policy \<Rightarrow> optimization_problem" where
  "readme_problem sp = with_policies
     [readme_location ''hotel'' 540 1080 0, readme_location ''museum'' 600 720 60,
      readme_location ''park'' 540 1080 30, readme_location ''station'' 540 1200 0]
     (TimeOfDay 540) sp AllRequired"

definition readme_matrix :: travel_time_matrix where
  "readme_matrix = \<lparr>rows =
     [[Some 0, Some 20, Some 10, Some 30], [Some 20, Some 0, Some 15, Some 10],
      [Some 10, Some 15, Some 0, Some 20], [Some 30, Some 10, Some 20, Some 0]]\<rparr>"

definition readme_input :: "start_policy \<Rightarrow> solver_input" where
  "readme_input sp =
     \<lparr>input_matrix = readme_matrix, input_problem = readme_problem sp, is_cancelled = (\<lambda>_. False)\<rparr>"

definition readme_route :: solver_solution where
  "readme_route = \<lparr>visit_order = [0, 2, 1, 3]\<rparr>"

lemmas readme_defs = readme_location_def readme_problem_def readme_matrix_def readme_input_def
  readme_route_def with_policies_def new_location_def

lemma readme_wf: "wf_input (readme_input sp)" "wf_problem (readme_problem sp)"
    "wf_matrix readme_matrix" "u32_cells readme_matrix"
  by (auto simp: wf_input_def wf_problem_def wf_location_def wf_window_def wf_time_def
      wf_matrix_def u32_cells_def matrix_size_def readme_defs minutes_per_day_def
      less_eq_time_of_day_def All_less_Suc)

lemma readme_not_cancelled [simp]: "never_cancelled (readme_input sp)"
  by (simp add: never_cancelled_def readme_input_def)

lemma readme_simps [simp]:
  "start_policy (readme_problem sp) = sp"
  "visit_policy (readme_problem sp) = AllRequired"
  "start_time (readme_problem sp) = TimeOfDay 540"
  "length (locations (readme_problem sp)) = 4"
  "input_problem (readme_input sp) = readme_problem sp"
  "input_matrix (readme_input sp) = readme_matrix"
  "visit_order readme_route = [0, 2, 1, 3]"
  "matrix_size readme_matrix = 4"
  by (simp_all add: readme_defs matrix_size_def)

end
