(* ===== verification/Evaluate.thy ===== *)
theory Evaluate
  imports Route_Spec Readme_Example
begin

text \<open>
  \<open>src/solver.rs\<close> and \<open>src/solver/exact/transition.rs\<close>: the common evaluator. Every route a
  strategy proposes is validated, simulated from the requested start and, under the LATEST
  policy, from the latest start that still works. The solver clock counts slots of
  \<open>TIME_SLOT_MINUTES\<close> minutes, which is one.
\<close>

definition exact_max_locations :: usize where
  "exact_max_locations = 15"

definition time_slot_minutes :: u32 where
  "time_slot_minutes = 1"

section \<open>Transitions\<close>

definition minutes_to_slot_ceil :: "u32 \<Rightarrow> u32" where
  "minutes_to_slot_ceil m = div_ceil m time_slot_minutes"

definition slots_per_day :: u32 where
  "slots_per_day = (24 * 60) div time_slot_minutes"

record initial_service =
  departure_slot :: u16
  initial_wait_minutes :: u32

definition initial_service :: "solver_input \<Rightarrow> u16 \<Rightarrow> initial_service option" where
  "initial_service i start_slot = do {
     let l = start_location (input_problem i);
     let arrival = start_slot;
     let service_start =
       max arrival (minutes_to_slot_ceil (minutes (window_open (time_window l))));
     departure \<leftarrow> checked_add_u32 service_start (minutes_to_slot_ceil (stay_minutes l));
     let close = minutes (window_close (time_window l)) div time_slot_minutes;
     if departure > close \<or> departure \<ge> slots_per_day then None
     else do {
       wait \<leftarrow> checked_mul_u32 (service_start - arrival) time_slot_minutes;
       Some \<lparr>departure_slot = as_u16 departure, initial_wait_minutes = wait\<rparr>
     }
   }"

definition transition_time :: "solver_input \<Rightarrow> usize \<Rightarrow> usize \<Rightarrow> u16 \<Rightarrow> u16 option" where
  "transition_time i from to time_slot = do {
     travel \<leftarrow> travel_minutes (input_matrix i) from to;
     let l = locations (input_problem i) ! to;
     arrival \<leftarrow> checked_add_u32 time_slot (minutes_to_slot_ceil travel);
     let service_start =
       max arrival (minutes_to_slot_ceil (minutes (window_open (time_window l))));
     finish \<leftarrow> checked_add_u32 service_start (minutes_to_slot_ceil (stay_minutes l));
     let close = minutes (window_close (time_window l)) div time_slot_minutes;
     if finish \<le> close \<and> finish < slots_per_day then Some (as_u16 finish) else None
   }"

section \<open>Validation and simulation\<close>

text \<open>The two passes over the order: mark each location once, then look for a missing required one.\<close>

fun mark_all :: "bool list \<Rightarrow> usize list \<Rightarrow> bool list option" where
  "mark_all seen [] = Some seen"
| "mark_all seen (l # ls) =
     (if l \<ge> length seen \<or> seen ! l then None else mark_all (seen[l := True]) ls)"

definition validate_visit_order :: "optimization_problem \<Rightarrow> solver_solution \<Rightarrow> solver_error + unit"
  where
  "validate_visit_order p sol =
     (let n = length (locations p); order = visit_order sol in
      if n = 1 then (if order = [0] then Inr () else Inl InvalidVisitOrder)
      else let all_required = (visit_policy p = AllRequired) in
        if (all_required \<and> length order \<noteq> n) \<or> length order < 2 \<or>
           get order 0 \<noteq> Some (start_location_index p) \<or>
           get order (length order - 1) \<noteq> Some (end_location_index p)
        then Inl InvalidVisitOrder
        else (case mark_all (replicate n False) order of
            None \<Rightarrow> Inl InvalidVisitOrder
          | Some seen \<Rightarrow>
              if \<exists>i<n. required (locations p ! i) \<and> \<not> seen ! i
              then Inl InvalidVisitOrder else Inr ()))"

text \<open>One iteration of the loop over \<open>visit_order.windows(2)\<close>, then the loop.\<close>

definition simulate_edge ::
  "solver_input \<Rightarrow> usize \<Rightarrow> usize \<Rightarrow> u32 \<times> u32 \<times> u32 \<Rightarrow> (u32 \<times> u32 \<times> u32) option" where
  "simulate_edge i a b = (\<lambda>(time_slot, travel_total, wait_total). do {
     travel \<leftarrow> travel_minutes (input_matrix i) a b;
     travel_total' \<leftarrow> checked_add_u32 travel_total travel;
     let l = locations (input_problem i) ! b;
     arrival \<leftarrow> checked_add_u32 time_slot (minutes_to_slot_ceil travel);
     let service_start =
       max arrival (minutes_to_slot_ceil (minutes (window_open (time_window l))));
     waited \<leftarrow> checked_mul_u32 (service_start - arrival) time_slot_minutes;
     wait_total' \<leftarrow> checked_add_u32 wait_total waited;
     finish \<leftarrow> checked_add_u32 service_start (minutes_to_slot_ceil (stay_minutes l));
     let close = minutes (window_close (time_window l)) div time_slot_minutes;
     if finish > close \<or> finish \<ge> slots_per_day then None
     else Some (finish, travel_total', wait_total')
   })"

fun simulate_edges ::
  "solver_input \<Rightarrow> usize list \<Rightarrow> u32 \<times> u32 \<times> u32 \<Rightarrow> (u32 \<times> u32 \<times> u32) option" where
  "simulate_edges i (a # b # rest) s =
     Option.bind (simulate_edge i a b s) (\<lambda>s'. simulate_edges i (b # rest) s')"
| "simulate_edges i _ s = Some s"

definition optional_visits :: "optimization_problem \<Rightarrow> usize list \<Rightarrow> usize list" where
  "optional_visits p order = filter (\<lambda>i. \<not> required (locations p ! i)) order"

definition simulate_solution ::
  "objective_policy \<Rightarrow> solver_input \<Rightarrow> solver_solution \<Rightarrow> u16 \<Rightarrow> solution_metrics option" where
  "simulate_solution obj i sol start =
     (let p = input_problem i; order = visit_order sol in
      if get order 0 \<noteq> Some (start_location_index p) \<or>
         get order (length order - 1) \<noteq> Some (end_location_index p) then None
      else do {
        initial \<leftarrow> initial_service i start;
        (time_slot, travel, wait) \<leftarrow>
          simulate_edges i order (departure_slot initial, 0, initial_wait_minutes initial);
        Some \<lparr>metric_start_policy = start_policy p,
              visited_optional_count = length (optional_visits p order),
              visited_optional_priority =
                sum_list (map (\<lambda>i. priority (locations p ! i)) (optional_visits p order)),
              start_time_slot = start,
              finish_time_slot = as_u16 time_slot,
              metric_travel_minutes = travel,
              metric_wait_minutes = wait,
              metric_score = score obj travel wait\<rparr>
      })"

definition evaluate_solution ::
  "objective_policy \<Rightarrow> solver_input \<Rightarrow> solver_solution \<Rightarrow> solver_error + solution_metrics" where
  "evaluate_solution obj i sol =
     bind_result (validate_visit_order (input_problem i) sol) (\<lambda>_.
       let p = input_problem i in
       if matrix_size (input_matrix i) \<noteq> length (locations p)
       then Inl (MatrixSizeMismatch (matrix_size (input_matrix i)) (length (locations p)))
       else let earliest = minutes_to_slot_ceil (minutes (start_time p)) in
         if earliest \<ge> slots_per_day \<or> is_cancelled i PollEvaluate
         then (if is_cancelled i PollEvaluateReport then Inl Cancelled else Inl NoFeasibleRoute)
         else let low = as_u16 earliest in
           if simulate_solution obj i sol low = None then Inl NoFeasibleRoute
           else if start_policy p = Fixed \<or> start_policy p = Earliest
           then ok_or NoFeasibleRoute (simulate_solution obj i sol low)
           else let high = as_u16 (slots_per_day - 1);
                    slot = latest_slot (\<lambda>s. simulate_solution obj i sol s \<noteq> None) low high
                in ok_or NoFeasibleRoute (simulate_solution obj i sol slot))"

definition selected_start_time ::
  "optimization_problem \<Rightarrow> solution_metrics \<Rightarrow> solver_error + time_of_day" where
  "selected_start_time p m =
     (if start_policy p = Fixed \<or> start_policy p = Earliest then Inr (start_time p)
      else case from_minutes (as_u16 (start_time_slot m * as_u16 time_slot_minutes)) of
          Inl e \<Rightarrow> Inl (Failed (time_parse_error_str e))
        | Inr t \<Rightarrow> Inr t)"

section \<open>The solver clock is the minute\<close>

lemma slot_simps [simp]:
  "minutes_to_slot_ceil m = m" "slots_per_day = 1440" "time_slot_minutes = Suc 0"
  by (simp_all add: minutes_to_slot_ceil_def slots_per_day_def time_slot_minutes_def)

lemma minutes_per_day_eq [simp]: "minutes_per_day = 1440"
  by (simp add: minutes_per_day_def)

lemma wf_location_bounds:
  assumes "wf_location l"
  shows "minutes (window_close (time_window l)) < 1440"
    and "minutes (window_open (time_window l)) < 1440"
    and "stay_minutes l < 2 ^ 32"
  using assms wf_window_open [of "time_window l"]
  by (auto simp: wf_location_def wf_window_def wf_time_def)

lemma initial_service_serve:
  assumes "wf_problem (input_problem i)" and "start < 2 ^ 16"
  shows "initial_service i start =
    map_option (\<lambda>(w, f). \<lparr>departure_slot = f, initial_wait_minutes = w\<rparr>)
      (serve (locations (input_problem i) ! 0) start)"
proof -
  have "wf_location (locations (input_problem i) ! 0)"
    using assms(1) by (intro wf_problem_nth wf_problem_length)
  from wf_location_bounds [OF this] assms show ?thesis
    by (auto simp: initial_service_def serve_def start_location_nth checked_add_u32_def
        Let_def max_def)
qed

lemma transition_time_serve:
  assumes "wf_location (locations (input_problem i) ! to)"
  shows "transition_time i from to t =
    (case travel_minutes (input_matrix i) from to of
       None \<Rightarrow> None
     | Some d \<Rightarrow> map_option snd (serve (locations (input_problem i) ! to) (t + d)))"
  using wf_location_bounds [OF assms]
  by (auto simp: transition_time_def serve_def checked_add_u32_def Let_def max_def
      split: option.splits)

lemma simulate_edge_serve:
  assumes "wf_location (locations (input_problem i) ! b)" and "travel + wait \<le> t"
  shows "simulate_edge i a b (t, travel, wait) =
    (case travel_minutes (input_matrix i) a b of
       None \<Rightarrow> None
     | Some d \<Rightarrow> map_option (\<lambda>(w, f). (f, travel + d, wait + w))
         (serve (locations (input_problem i) ! b) (t + d)))"
proof (cases "travel_minutes (input_matrix i) a b")
  case None
  then show ?thesis by (simp add: simulate_edge_def)
next
  case (Some d)
  let ?l = "locations (input_problem i) ! b"
  define ss where "ss = max (t + d) (minutes (window_open (time_window ?l)))"
  show ?thesis
  proof (cases "serve ?l (t + d)")
    case None
    then have "minutes (window_close (time_window ?l)) < ss + stay_minutes ?l"
      by (auto simp: serve_def ss_def Let_def split: if_splits)
    then have "simulate_edge i a b (t, travel, wait) \<noteq> Some s" for s
      using Some
      by (auto simp: simulate_edge_def Let_def bind_eq_Some_conv ss_def split: if_splits)
    then have "simulate_edge i a b (t, travel, wait) = None" using not_None_eq by blast
    then show ?thesis using Some None by simp
  next
    case (Some wf)
    then obtain w f where s: "serve ?l (t + d) = Some (w, f)" by (cases wf) auto
    have f: "f < 1440" using serve_before_midnight [OF assms(1) s] by simp
    have ss: "w = ss - (t + d)" "f = ss + stay_minutes ?l"
      "f \<le> minutes (window_close (time_window ?l))"
      using s by (auto simp: serve_Some ss_def)
    have small: "travel + d + (wait + w) \<le> f" using serve_after [OF s] assms(2) by linarith
    have "t + d \<le> ss" by (simp add: ss_def)
    then have exact: "checked_add_u32 travel d = Some (travel + d)"
      "checked_add_u32 t d = Some (t + d)" "checked_mul_u32 (ss - (t + d)) (Suc 0) = Some w"
      "checked_add_u32 wait w = Some (wait + w)"
      "checked_add_u32 ss (stay_minutes ?l) = Some f"
      using ss small f by (simp_all add: checked_mul_u32_def)
    show ?thesis
      using \<open>travel_minutes (input_matrix i) a b = Some d\<close> ss(3) f s
      by (simp add: simulate_edge_def Let_def exact ss_def [symmetric]
          del: checked_mul_u32_one checked_add_u32_Some)
  qed
qed

lemma simulate_edges_walk:
  assumes "wf_problem (input_problem i)"
    and "set order \<subseteq> {..<length (locations (input_problem i))}"
    and "travel + wait \<le> t"
  shows "simulate_edges i order (t, travel, wait) =
    walk (input_problem i) (input_matrix i) order (t, travel, wait)"
  using assms(2-)
proof (induction order arbitrary: t travel wait rule: induct_list012)
  case (3 a b rest)
  let ?l = "locations (input_problem i) ! b"
  have l: "wf_location ?l" using "3.prems"(1) assms(1) by (simp add: wf_problem_nth)
  show ?case
  proof (cases "simulate_edge i a b (t, travel, wait)")
    case None
    then show ?thesis using simulate_edge_serve [OF l "3.prems"(2)]
      by (auto simp: walk.simps(1) split: option.splits)
  next
    case (Some s)
    then obtain d w f where d: "travel_minutes (input_matrix i) a b = Some d"
      and sv: "serve ?l (t + d) = Some (w, f)" and s: "s = (f, travel + d, wait + w)"
      using simulate_edge_serve [OF l "3.prems"(2), of a] by (auto split: option.splits)
    have "travel + d + (wait + w) \<le> f" using serve_after [OF sv] "3.prems"(2) by linarith
    then show ?thesis using "3.IH"(2) [of "travel + d" "wait + w" f] "3.prems"(1) Some d sv s
      by (simp add: walk.simps(1))
  qed
qed auto

section \<open>Validation accepts exactly the valid orders\<close>

lemma mark_all_Some:
  "mark_all seen ls = Some seen' \<longleftrightarrow>
    distinct ls \<and> (\<forall>l\<in>set ls. l < length seen \<and> \<not> seen ! l) \<and>
    length seen' = length seen \<and> (\<forall>i<length seen. seen' ! i = (seen ! i \<or> i \<in> set ls))"
proof (induction ls arbitrary: seen)
  case Nil
  then show ?case by (auto intro: nth_equalityI)
next
  case (Cons l ls)
  show ?case
    by (auto simp: Cons.IH nth_list_update split: if_splits)
qed

lemma get_hd: "get xs 0 = Some a \<longleftrightarrow> xs \<noteq> [] \<and> hd xs = a"
  by (auto simp: get_def hd_conv_nth)

lemma get_last: "xs \<noteq> [] \<Longrightarrow> get xs (length xs - 1) = Some a \<longleftrightarrow> last xs = a"
  by (auto simp: get_def last_conv_nth)

lemma distinct_covers:
  "distinct xs \<Longrightarrow> set xs \<subseteq> {..<n} \<Longrightarrow> set xs = {..<n} \<longleftrightarrow> length xs = n"
  by (metis card_lessThan card_subset_eq distinct_card finite_lessThan)

lemma endpoints_length: "hd xs \<noteq> last xs \<Longrightarrow> xs \<noteq> [] \<Longrightarrow> 2 \<le> length xs"
  by (cases xs; cases "tl xs") auto

lemma validate_visit_order_iff:
  assumes "wf_problem p"
  shows "validate_visit_order p sol = Inr () \<longleftrightarrow> valid_order p (visit_order sol)"
proof -
  let ?n = "length (locations p)" and ?o = "visit_order sol"
  have n: "0 < ?n" using assms by (rule wf_problem_length)
  show ?thesis
  proof (cases "?n = 1")
    case True
    then have "valid_order p ?o \<longleftrightarrow> ?o = [0]"
      by (cases ?o; cases "tl ?o") (auto simp: valid_order_def)
    then show ?thesis using True by (simp add: validate_visit_order_def)
  next
    case False
    then have ends: "0 \<noteq> ?n - 1" using n by arith
    show ?thesis
    proof
      assume "validate_visit_order p sol = Inr ()"
      then obtain seen where len: "2 \<le> length ?o" "visit_policy p = AllRequired \<Longrightarrow> length ?o = ?n"
        and first: "get ?o 0 = Some 0" and final: "get ?o (length ?o - 1) = Some (?n - 1)"
        and mark: "mark_all (replicate ?n False) ?o = Some seen"
        and req: "\<forall>i<?n. required (locations p ! i) \<longrightarrow> seen ! i"
        using False by (auto simp: validate_visit_order_def Let_def start_location_index_def
            end_location_index_def split: if_splits option.splits)
      then have "distinct ?o" "set ?o \<subseteq> {..<?n}" "\<forall>i<?n. seen ! i = (i \<in> set ?o)"
        by (auto simp: mark_all_Some)
      moreover have "?o \<noteq> []" using len by auto
      ultimately show "valid_order p ?o"
        using len first final req distinct_covers [of ?o ?n] get_last [of ?o]
        by (auto simp: valid_order_def Let_def get_hd)
    next
      assume v: "valid_order p ?o"
      then have basic: "?o \<noteq> []" "hd ?o = 0" "last ?o = ?n - 1" "distinct ?o" "set ?o \<subseteq> {..<?n}"
        by (auto simp: valid_order_def Let_def)
      have len: "2 \<le> length ?o" using endpoints_length [of ?o] basic ends by simp
      define seen where "seen = map (\<lambda>i. i \<in> set ?o) [0..<?n]"
      have "mark_all (replicate ?n False) ?o = Some seen"
        using basic by (auto simp: mark_all_Some seen_def)
      moreover have "visit_policy p = AllRequired \<Longrightarrow> length ?o = ?n"
        using v distinct_covers [of ?o ?n] by (auto simp: valid_order_def Let_def)
      ultimately show "validate_visit_order p sol = Inr ()"
        using v len False basic get_last [of ?o]
        by (auto simp: validate_visit_order_def Let_def start_location_index_def
            end_location_index_def valid_order_def seen_def get_hd)
    qed
  qed
qed

section \<open>Simulation computes the walk\<close>

definition route_metrics ::
  "objective_policy \<Rightarrow> optimization_problem \<Rightarrow> usize list \<Rightarrow> nat \<Rightarrow> nat \<times> nat \<times> nat \<Rightarrow> solution_metrics"
  where
  "route_metrics obj p order start s =
     (case s of (finish, travel, wait) \<Rightarrow>
       \<lparr>metric_start_policy = start_policy p,
        visited_optional_count = length (optional_visits p order),
        visited_optional_priority =
          sum_list (map (\<lambda>i. priority (locations p ! i)) (optional_visits p order)),
        start_time_slot = start,
        finish_time_slot = finish,
        metric_travel_minutes = travel,
        metric_wait_minutes = wait,
        metric_score = score obj travel wait\<rparr>)"

lemma route_metrics_simps [simp]:
  "metric_start_policy (route_metrics obj p order start s) = start_policy p"
  "start_time_slot (route_metrics obj p order start s) = start"
  "finish_time_slot (route_metrics obj p order start (f, r, w)) = f"
  "metric_travel_minutes (route_metrics obj p order start (f, r, w)) = r"
  "metric_wait_minutes (route_metrics obj p order start (f, r, w)) = w"
  by (simp_all add: route_metrics_def split: prod.splits)

lemma valid_order_ends:
  assumes "valid_order p order"
  shows "order \<noteq> []" "hd order = 0" "last order = length (locations p) - 1"
    "distinct order" "set order \<subseteq> {..<length (locations p)}"
  using assms by (auto simp: valid_order_def Let_def)

lemma simulate_solution_walk:
  assumes "wf_input i" and "valid_order (input_problem i) (visit_order sol)" and "start < 1440"
  shows "simulate_solution obj i sol start =
    map_option (route_metrics obj (input_problem i) (visit_order sol) start)
      (route_walk (input_problem i) (input_matrix i) (visit_order sol) start)"
proof -
  let ?p = "input_problem i" and ?o = "visit_order sol"
  have p: "wf_problem ?p" using assms(1) by (simp add: wf_input_def)
  note o = valid_order_ends [OF assms(2)]
  have ends: "get ?o 0 = Some (start_location_index ?p)"
    "get ?o (length ?o - 1) = Some (end_location_index ?p)"
    using o get_last [of ?o] by (auto simp: get_hd start_location_index_def end_location_index_def)
  have init: "initial_service i start =
      map_option (\<lambda>(w, f). \<lparr>departure_slot = f, initial_wait_minutes = w\<rparr>)
        (serve (locations ?p ! 0) start)"
    using initial_service_serve [OF p, of start] assms(3) by simp
  show ?thesis
  proof (cases "serve (locations ?p ! 0) start")
    case None
    then show ?thesis by (simp add: simulate_solution_def Let_def init route_walk_def)
  next
    case (Some wf)
    then obtain w f where s: "serve (locations ?p ! 0) start = Some (w, f)" by (cases wf) auto
    have "f < 1440"
      using serve_before_midnight [OF wf_problem_nth [OF p wf_problem_length [OF p]] s] by simp
    moreover have "w \<le> f" using serve_after [OF s] by simp
    ultimately have "simulate_edges i ?o (f, 0, w) = walk ?p (input_matrix i) ?o (f, 0, w)"
      using simulate_edges_walk [OF p o(5), of 0 w f] by simp
    moreover have "walk ?p (input_matrix i) ?o (f, 0, w) = Some (f', r', w') \<Longrightarrow> f' < 1440" for f' r' w'
      using walk_before_midnight [OF p o(5)] \<open>f < 1440\<close> by fastforce
    ultimately show ?thesis
      using ends by (auto simp: simulate_solution_def Let_def init s route_walk_def route_metrics_def
          map_option_case split: option.splits)
  qed
qed

section \<open>The evaluator\<close>

text \<open>
  The latest-start search is sound because feasibility is antitone in the start: a route that
  works from a later start works from an earlier one, by waiting.
\<close>

lemma route_feasible_antitone:
  "antitone_test (\<lambda>s. route_walk p m order s \<noteq> None)"
proof
  fix a b :: nat
  assume "a \<le> b" and "route_walk p m order b \<noteq> None"
  then show "route_walk p m order a \<noteq> None"
    by (metis route_walk_mono not_None_eq prod_cases3)
qed

interpretation route_start: antitone_test "\<lambda>s. route_walk p m order s \<noteq> None" for p m order
  by (rule route_feasible_antitone)

lemma latest_slot_cong:
  "(\<And>s. low < s \<Longrightarrow> s \<le> high \<Longrightarrow> f s = g s) \<Longrightarrow> latest_slot f low high = latest_slot g low high"
proof -
  assume eq: "\<And>s. low < s \<Longrightarrow> s \<le> high \<Longrightarrow> f s = g s"
  have "try_latest_slot (\<lambda>s. Inr (g s) :: unit + bool) low high = Inr (latest_slot f low high)"
    by (rule try_latest_slot_total) (simp add: eq)
  moreover have "try_latest_slot (\<lambda>s. Inr (g s) :: unit + bool) low high = Inr (latest_slot g low high)"
    by (rule try_latest_slot_total) simp
  ultimately show ?thesis by simp
qed

lemma evaluate_solution_cases:
  assumes "wf_input i" and "never_cancelled i"
  defines "p \<equiv> input_problem i" and "m \<equiv> input_matrix i"
  shows "evaluate_solution obj i sol =
    (if \<not> valid_order p (visit_order sol) then Inl InvalidVisitOrder
     else if matrix_size m \<noteq> length (locations p)
     then Inl (MatrixSizeMismatch (matrix_size m) (length (locations p)))
     else let low = minutes (start_time p);
              slot = (if start_policy p = Latest
                then latest_slot (\<lambda>s. route_walk p m (visit_order sol) s \<noteq> None) low 1439 else low)
          in ok_or NoFeasibleRoute (map_option (route_metrics obj p (visit_order sol) slot)
               (if route_walk p m (visit_order sol) low = None then None
                else route_walk p m (visit_order sol) slot)))"
proof -
  have wf: "wf_problem p" using assms(1) by (simp add: wf_input_def p_def)
  have start: "minutes (start_time p) < 1440" using wf by (simp add: wf_problem_def wf_time_def)
  show ?thesis
  proof (cases "valid_order p (visit_order sol)")
    case False
    then have "validate_visit_order p sol \<noteq> Inr ()" by (simp add: validate_visit_order_iff [OF wf])
    moreover have "validate_visit_order p sol = Inr () \<or> validate_visit_order p sol = Inl InvalidVisitOrder"
      by (auto simp: validate_visit_order_def Let_def split: option.splits)
    ultimately have "validate_visit_order p sol = Inl InvalidVisitOrder" by blast
    then show ?thesis using False by (simp add: evaluate_solution_def p_def)
  next
    case True
    then have v: "validate_visit_order p sol = Inr ()" by (simp add: validate_visit_order_iff [OF wf])
    have sim: "simulate_solution obj i sol s =
        map_option (route_metrics obj p (visit_order sol) s) (route_walk p m (visit_order sol) s)"
      if "s < 1440" for s
      using simulate_solution_walk [OF assms(1) True [unfolded p_def] that] by (simp add: p_def m_def)
    have slots: "latest_slot (\<lambda>s. simulate_solution obj i sol s \<noteq> None) (minutes (start_time p)) 1439 =
        latest_slot (\<lambda>s. route_walk p m (visit_order sol) s \<noteq> None) (minutes (start_time p)) 1439"
      by (rule latest_slot_cong) (simp add: sim)
    have bound: "latest_slot (\<lambda>s. route_walk p m (visit_order sol) s \<noteq> None)
        (minutes (start_time p)) 1439 < 1440"
      if "route_walk p m (visit_order sol) (minutes (start_time p)) \<noteq> None"
      using route_start.latest_slot_spec [OF that, of 1439] start by simp
    show ?thesis
      using True v start assms(2) bound
      by (cases "start_policy p")
        (simp_all add: evaluate_solution_def p_def [symmetric] m_def [symmetric]
          never_cancelled_def Let_def sim slots del: not_None_eq)
  qed
qed

section \<open>Properties\<close>

lemma route_slot_spec:
  assumes "route_walk p m order low \<noteq> None" and "low \<le> 1439"
  defines "slot \<equiv> latest_slot (\<lambda>s. route_walk p m order s \<noteq> None) low 1439"
  shows "route_walk p m order slot \<noteq> None" and "low \<le> slot" and "slot \<le> 1439"
    and "slot < s \<Longrightarrow> s \<le> 1439 \<Longrightarrow> route_walk p m order s = None"
proof -
  note spec = route_start.latest_slot_spec [OF assms(1,2), folded slot_def]
  then show "route_walk p m order slot \<noteq> None" "low \<le> slot" "slot \<le> 1439" by blast+
  assume "slot < s" "s \<le> 1439"
  then show "route_walk p m order s = None" using spec by (meson not_le)
qed

lemma evaluate_solution_Inr:
  assumes "wf_input i" and "never_cancelled i" and "evaluate_solution obj i sol = Inr mt"
  shows "valid_order (input_problem i) (visit_order sol)"
    and "matrix_size (input_matrix i) = length (locations (input_problem i))"
    and "minutes (start_time (input_problem i)) \<le> start_time_slot mt"
    and "start_time_slot mt < 1440"
    and "\<exists>s. route_walk (input_problem i) (input_matrix i) (visit_order sol) (start_time_slot mt) = Some s \<and>
      mt = route_metrics obj (input_problem i) (visit_order sol) (start_time_slot mt) s"
    and "start_policy (input_problem i) \<noteq> Latest \<Longrightarrow>
      start_time_slot mt = minutes (start_time (input_problem i))"
    and "start_policy (input_problem i) = Latest \<Longrightarrow> start_time_slot mt < s \<Longrightarrow> s < 1440 \<Longrightarrow>
      route_walk (input_problem i) (input_matrix i) (visit_order sol) s = None"
proof -
  let ?p = "input_problem i" and ?m = "input_matrix i" and ?o = "visit_order sol"
  let ?low = "minutes (start_time ?p)"
  let ?slot = "if start_policy ?p = Latest
    then latest_slot (\<lambda>s. route_walk ?p ?m ?o s \<noteq> None) ?low 1439 else ?low"
  have low: "?low \<le> 1439" using assms(1) by (simp add: wf_input_def wf_problem_def wf_time_def)
  have ev: "valid_order ?p ?o" "matrix_size ?m = length (locations ?p)"
    and feasible: "route_walk ?p ?m ?o ?low \<noteq> None"
    and mt: "\<exists>s. route_walk ?p ?m ?o ?slot = Some s \<and> mt = route_metrics obj ?p ?o ?slot s"
    using assms(3) unfolding evaluate_solution_cases [OF assms(1,2)] Let_def
    by (auto split: if_splits simp del: not_None_eq)
  then have slot: "start_time_slot mt = ?slot" by auto
  note spec = route_slot_spec [OF feasible low]
  show "valid_order ?p ?o" "matrix_size ?m = length (locations ?p)" by fact+
  show "?low \<le> start_time_slot mt" "start_time_slot mt < 1440"
    using slot spec(2,3) low by (simp_all del: not_None_eq)
  show "\<exists>s. route_walk ?p ?m ?o (start_time_slot mt) = Some s \<and>
      mt = route_metrics obj ?p ?o (start_time_slot mt) s"
    using mt slot by (simp del: not_None_eq)
  show "start_policy ?p \<noteq> Latest \<Longrightarrow> start_time_slot mt = ?low" using slot by simp
  show "start_policy ?p = Latest \<Longrightarrow> start_time_slot mt < s \<Longrightarrow> s < 1440 \<Longrightarrow>
      route_walk ?p ?m ?o s = None"
    using slot spec(4) [of s] by (simp del: not_None_eq)
qed

section \<open>The evaluator under cancellation\<close>

abbreviation uncancelled :: "solver_input \<Rightarrow> solver_input" where
  "uncancelled i \<equiv> i\<lparr>is_cancelled := (\<lambda>_. False)\<rparr>"

lemma simulate_edges_poll:
  "simulate_edges (i\<lparr>is_cancelled := poll\<rparr>) order s = simulate_edges i order s"
proof (induction order arbitrary: s rule: induct_list012)
  case (3 a b rest)
  have "simulate_edge (i\<lparr>is_cancelled := poll\<rparr>) a b s = simulate_edge i a b s"
    by (simp add: simulate_edge_def)
  moreover have "simulate_edges (i\<lparr>is_cancelled := poll\<rparr>) (b # rest) = simulate_edges i (b # rest)"
    by (rule ext) (rule "3.IH"(2))
  ultimately show ?case by simp
qed simp_all

lemma simulate_solution_poll:
  "simulate_solution obj (i\<lparr>is_cancelled := poll\<rparr>) sol start = simulate_solution obj i sol start"
  by (simp add: simulate_solution_def initial_service_def simulate_edges_poll cong: if_cong)

text \<open>A success does not depend on the token: it is the result of the same input never cancelled.\<close>

lemma evaluate_solution_poll:
  assumes "evaluate_solution obj (i\<lparr>is_cancelled := poll\<rparr>) sol = Inr mt"
  shows "evaluate_solution obj (uncancelled i) sol = Inr mt"
  using assms
  by (cases "validate_visit_order (input_problem i) sol")
    (auto simp: evaluate_solution_def simulate_solution_poll Let_def split: if_splits)

lemma uncancelled_never [simp]: "never_cancelled (uncancelled i)"
  by (simp add: never_cancelled_def)

lemma wf_input_poll [simp]: "wf_input (i\<lparr>is_cancelled := poll\<rparr>) = wf_input i"
  by (simp add: wf_input_def)

text \<open>Inputs of inner runs.\<close>

lemma inner_input_simps [simp]:
  "input_matrix (inner_input k i) = input_matrix i" "input_problem (inner_input k i) = input_problem i"
  "is_cancelled (inner_input k i) q = is_cancelled i (PollWithin k q)"
  by (simp_all add: inner_input_def)

lemma inner_input_wf [simp]: "wf_input (inner_input k i) = wf_input i"
  by (simp add: wf_input_def)

lemma inner_input_never: "never_cancelled i \<Longrightarrow> never_cancelled (inner_input k i)"
  by (simp add: never_cancelled_def)

lemma inner_input_uncancelled [simp]: "uncancelled (inner_input k i) = uncancelled i"
  by (simp add: inner_input_def)

lemma inner_input_evaluates:
  "evaluate_solution obj (inner_input k i) sol = Inr mt \<Longrightarrow> evaluate_solution obj (uncancelled i) sol = Inr mt"
  unfolding inner_input_def by (rule evaluate_solution_poll)

lemma never_uncancelled: "never_cancelled i \<Longrightarrow> uncancelled i = i"
  by (cases i) (simp add: never_cancelled_def fun_eq_iff)

lemma evaluated_start_policy:
  assumes "wf_input i" and "evaluate_solution obj (uncancelled i) sol = Inr mt"
  shows "metric_start_policy mt = start_policy (input_problem i)"
proof -
  have wf: "wf_input (uncancelled i)" using assms(1) by simp
  from evaluate_solution_Inr(5) [OF wf uncancelled_never assms(2)]
  obtain w where "mt = route_metrics obj (input_problem i) (visit_order sol) (start_time_slot mt) w" by auto
  from arg_cong [OF this, of metric_start_policy] show ?thesis by simp
qed

section \<open>The example\<close>

lemma readme_valid [simp]: "valid_order (readme_problem sp) [0, 2, 1, 3]"
  by (auto simp: valid_order_def readme_defs All_less_Suc lessThan_Suc)

lemma readme_walk [simp]:
  "route_walk (readme_problem sp) readme_matrix [0, 2, 1, 3] 540 = Some (670, 35, 5)"
  "latest_slot (\<lambda>s. route_walk (readme_problem sp) readme_matrix [0, 2, 1, 3] s \<noteq> None) 540 1439 = 605"
  "route_walk (readme_problem sp) readme_matrix [0, 2, 1, 3] 605 = Some (730, 35, 0)"
  by (simp_all add: readme_defs route_walk_def walk.simps(1) serve_def travel_minutes_def get_def Let_def
      latest_slot.simps div_ceil_def)

lemma readme_evaluates:
  "evaluate_solution default_objective (readme_input Latest) readme_route =
    Inr \<lparr>metric_start_policy = Latest, visited_optional_count = 0, visited_optional_priority = 0,
         start_time_slot = 605, finish_time_slot = 730, metric_travel_minutes = 35,
         metric_wait_minutes = 0, metric_score = 35\<rparr>"
  using readme_valid [of Latest] readme_walk [of Latest]
  by (simp add: evaluate_solution_cases readme_wf route_metrics_def del: not_None_eq)
    (simp add: readme_defs optional_visits_def default_score_def)

text \<open>
  C2. Under the LATEST policy the evaluator returns the latest start: the route works from the
  returned slot, the slot is not before the requested start, and from every later minute of
  the day the same visit order misses a time window.
\<close>

theorem evaluate_solution_latest:
  assumes "wf_input i" and "never_cancelled i" and "start_policy (input_problem i) = Latest"
    and "evaluate_solution obj i sol = Inr mt"
  shows "minutes (start_time (input_problem i)) \<le> start_time_slot mt \<and> start_time_slot mt < 1440 \<and>
    simulate_solution obj i sol (start_time_slot mt) = Some mt \<and>
    (\<forall>s. start_time_slot mt < s \<and> s < 1440 \<longrightarrow> simulate_solution obj i sol s = None)"
  using evaluate_solution_Inr [OF assms(1,2,4)] assms(3)
  by (auto simp: simulate_solution_walk [OF assms(1)])

theorem evaluate_solution_latest_witness:
  "simulate_solution default_objective (readme_input Latest) readme_route 606 = None"
  using evaluate_solution_latest [OF readme_wf(1) readme_not_cancelled _ readme_evaluates]
  by simp

text \<open>
  C8. The evaluator accepts exactly the valid visit orders of a matching matrix whose walk from
  the requested start meets every time window, whatever the start policy.
\<close>

theorem evaluate_solution_accepts:
  assumes "wf_input i" and "never_cancelled i"
  shows "is_ok (evaluate_solution obj i sol) \<longleftrightarrow>
    valid_order (input_problem i) (visit_order sol) \<and>
    matrix_size (input_matrix i) = length (locations (input_problem i)) \<and>
    route_walk (input_problem i) (input_matrix i) (visit_order sol)
      (minutes (start_time (input_problem i))) \<noteq> None"
proof -
  have "minutes (start_time (input_problem i)) \<le> 1439"
    using assms(1) by (simp add: wf_input_def wf_problem_def wf_time_def)
  then show ?thesis
    using route_slot_spec(1) [of "input_problem i" "input_matrix i" "visit_order sol"
        "minutes (start_time (input_problem i))"]
    unfolding evaluate_solution_cases [OF assms] Let_def is_ok_iff
    by (cases "route_walk (input_problem i) (input_matrix i) (visit_order sol)
      (minutes (start_time (input_problem i)))") (auto simp del: split_paired_Ex)
qed

theorem evaluate_solution_accepts_witness:
  "is_ok (evaluate_solution default_objective (readme_input Earliest) readme_route)"
  using evaluate_solution_accepts [OF readme_wf(1) readme_not_cancelled,
      of default_objective Earliest readme_route] readme_valid [of Earliest] readme_walk [of Earliest]
  by simp

text \<open>
  The metrics the evaluator reports are consistent: the day does not end before the start
  plus all travel and waiting, and it ends before midnight, so the 16-bit slots and the
  32-bit totals of the metrics never wrapped.
\<close>

lemma evaluate_solution_bounds:
  assumes "wf_input i" and "never_cancelled i" and "evaluate_solution obj i sol = Inr mt"
  shows "start_time_slot mt + metric_travel_minutes mt + metric_wait_minutes mt \<le> finish_time_slot mt \<and>
    finish_time_slot mt < 1440"
proof -
  note ev = evaluate_solution_Inr [OF assms]
  from ev(5) obtain f r w where
    rw: "route_walk (input_problem i) (input_matrix i) (visit_order sol) (start_time_slot mt) = Some (f, r, w)"
    and mt: "mt = route_metrics obj (input_problem i) (visit_order sol) (start_time_slot mt) (f, r, w)"
    by (metis prod_cases3)
  have "f < 1440"
    using route_walk_before_midnight [OF _ valid_order_ends(5) [OF ev(1)] rw] assms(1)
    by (simp add: wf_input_def)
  moreover have "finish_time_slot mt = f" "metric_travel_minutes mt = r" "metric_wait_minutes mt = w"
    by (subst mt, simp)+
  ultimately show ?thesis using route_walk_grows [OF rw] by simp
qed

end
