(* ===== verification/Schedule.thy ===== *)
theory Schedule
  imports Evaluate
begin

text \<open>
  \<open>src/schedule.rs\<close>: the expansion of a visit order into arrival, service and departure
  times, with its own validation of the order and an error for every way a day can fail.
\<close>

record window_violation =
  violation_location_id :: string
  violation_arrival_time :: time_of_day
  violation_service_start_time :: time_of_day
  required_departure :: time_of_day
  close_time :: time_of_day
  violation_selected_start_time :: time_of_day
  total_wait_minutes_before_violation :: u32
  is_start :: bool
  is_destination :: bool
  current_stay_minutes :: u32
  suggested_max_stay_minutes :: u32

datatype schedule_error =
    ScheduleMatrixSizeMismatch usize usize
  | ScheduleInvalidVisitOrder
  | OutsideSingleDay
  | TravelTimeOverflow
  | UnreachableArc string string
  | TimeWindowViolation window_violation

definition interior :: "'a list \<Rightarrow> 'a list" where
  "interior xs = take (length xs - 2) (drop 1 xs)"

definition validate_solution ::
  "optimization_problem \<Rightarrow> travel_time_matrix \<Rightarrow> solver_solution \<Rightarrow> schedule_error + unit" where
  "validate_solution p m sol =
     (let n = length (locations p); order = visit_order sol in
      if matrix_size m \<noteq> n then Inl (ScheduleMatrixSizeMismatch (matrix_size m) n)
      else if n = 1 then (if order = [0] then Inr () else Inl ScheduleInvalidVisitOrder)
      else let all_required = (visit_policy p = AllRequired) in
        if (all_required \<and> length order \<noteq> n) \<or> length order < 2 \<or>
           get order 0 \<noteq> Some (start_location_index p) \<or>
           get order (length order - 1) \<noteq> Some (end_location_index p)
        then Inl ScheduleInvalidVisitOrder
        else let seen0 = (replicate n False)[start_location_index p := True,
                                             end_location_index p := True]
          in (case mark_all seen0 (interior order) of
            None \<Rightarrow> Inl ScheduleInvalidVisitOrder
          | Some seen \<Rightarrow>
              if (\<exists>i<n. required (locations p ! i) \<and> \<not> seen ! i) \<or>
                 (all_required \<and> (\<exists>i<n. \<not> seen ! i))
              then Inl ScheduleInvalidVisitOrder else Inr ()))"

text \<open>
  One iteration of the loop over \<open>visit_order.windows(2)\<close>: the new current time, the totals,
  and the stop it pushes; then the loop, with the stops in order.
\<close>

definition schedule_edge :: "optimization_problem \<Rightarrow> travel_time_matrix \<Rightarrow> time_of_day \<Rightarrow>
    usize \<Rightarrow> usize \<Rightarrow> time_of_day \<times> u32 \<times> u32 \<Rightarrow>
    schedule_error + ((time_of_day \<times> u32 \<times> u32) \<times> scheduled_stop)" where
  "schedule_edge p m start from to = (\<lambda>(current, travel_total, wait_total).
     bind_result (ok_or (UnreachableArc (location_id (locations p ! from))
         (location_id (locations p ! to))) (travel_minutes m from to)) (\<lambda>travel.
     bind_result (ok_or TravelTimeOverflow (checked_add_u32 travel_total travel)) (\<lambda>travel_total'.
     bind_result (ok_or OutsideSingleDay (time_checked_add current travel)) (\<lambda>arrival.
     let l = locations p ! to;
         service_start = max arrival (window_open (time_window l));
         wait = minutes service_start - minutes arrival
     in bind_result (ok_or OutsideSingleDay (time_checked_add service_start (stay_minutes l)))
       (\<lambda>departure.
        if departure > window_close (time_window l)
        then Inl (TimeWindowViolation
          \<lparr>violation_location_id = location_id l,
           violation_arrival_time = arrival,
           violation_service_start_time = service_start,
           required_departure = departure,
           close_time = window_close (time_window l),
           violation_selected_start_time = start,
           total_wait_minutes_before_violation = saturating_add_u32 wait_total wait,
           is_start = False,
           is_destination = (to = end_location_index p),
           current_stay_minutes = stay_minutes l,
           suggested_max_stay_minutes =
             minutes (window_close (time_window l)) - minutes service_start\<rparr>)
        else Inr ((departure, travel_total', saturating_add_u32 wait_total wait),
          \<lparr>location_index = to,
           arrival_time = arrival,
           service_start_time = service_start,
           departure_time = Some departure,
           stop_wait_minutes = wait,
           stop_stay_minutes = stay_minutes l\<rparr>))))))"

fun schedule_edges :: "optimization_problem \<Rightarrow> travel_time_matrix \<Rightarrow> time_of_day \<Rightarrow> usize list \<Rightarrow>
    time_of_day \<times> u32 \<times> u32 \<Rightarrow> scheduled_stop list \<Rightarrow> schedule_error + route_plan" where
  "schedule_edges p m start (from # to # rest) s acc =
     (case schedule_edge p m start from to s of
        Inl e \<Rightarrow> Inl e
      | Inr (s', stop) \<Rightarrow> schedule_edges p m start (to # rest) s' (acc @ [stop]))"
| "schedule_edges p m start _ s acc =
     Inr \<lparr>stops = acc, total_travel_minutes = fst (snd s)\<rparr>"

declare schedule_edges.simps(1) [simp del]

definition calculate_schedule_from :: "optimization_problem \<Rightarrow> travel_time_matrix \<Rightarrow>
    solver_solution \<Rightarrow> time_of_day \<Rightarrow> schedule_error + route_plan" where
  "calculate_schedule_from p m sol start =
     bind_result (validate_solution p m sol) (\<lambda>_.
       let l = start_location p;
           service = max start (window_open (time_window l));
           wait = minutes service - minutes start
       in case time_checked_add service (stay_minutes l) of
         None \<Rightarrow> Inl OutsideSingleDay
       | Some departure \<Rightarrow>
           if departure > window_close (time_window l)
           then Inl (TimeWindowViolation
             \<lparr>violation_location_id = location_id l,
              violation_arrival_time = start,
              violation_service_start_time = service,
              required_departure = departure,
              close_time = window_close (time_window l),
              violation_selected_start_time = start,
              total_wait_minutes_before_violation = wait,
              is_start = True,
              is_destination = (start_location_index p = end_location_index p),
              current_stay_minutes = stay_minutes l,
              suggested_max_stay_minutes =
                minutes (window_close (time_window l)) - minutes service\<rparr>)
           else schedule_edges p m start (visit_order sol) (departure, 0, wait)
             [\<lparr>location_index = start_location_index p,
               arrival_time = start,
               service_start_time = service,
               departure_time = Some departure,
               stop_wait_minutes = wait,
               stop_stay_minutes = stay_minutes l\<rparr>])"

definition calculate_schedule :: "optimization_problem \<Rightarrow> travel_time_matrix \<Rightarrow>
    solver_solution \<Rightarrow> schedule_error + route_plan" where
  "calculate_schedule p m sol = calculate_schedule_from p m sol (start_time p)"

section \<open>The two validators agree\<close>

lemma interior_split:
  "2 \<le> length xs \<Longrightarrow> xs = hd xs # interior xs @ [last xs]"
  by (cases xs rule: rev_cases; cases "butlast xs") (auto simp: interior_def)

lemma framed:
  assumes "xs = a # ys @ [b]"
  shows "set xs = insert a (insert b (set ys))"
    and "distinct xs \<longleftrightarrow> distinct ys \<and> a \<notin> set ys \<and> b \<notin> set ys \<and> a \<noteq> b"
  using assms by auto

lemma validate_solution_iff:
  assumes "wf_problem p"
  shows "validate_solution p m sol = Inr () \<longleftrightarrow>
    matrix_size m = length (locations p) \<and> valid_order p (visit_order sol)"
proof -
  let ?n = "length (locations p)" and ?o = "visit_order sol"
  have n: "0 < ?n" using assms by (rule wf_problem_length)
  show ?thesis
  proof (cases "?n = 1 \<or> matrix_size m \<noteq> ?n")
    case True
    then have "?n = 1 \<Longrightarrow> valid_order p ?o \<longleftrightarrow> ?o = [0]"
      by (cases ?o; cases "tl ?o") (auto simp: valid_order_def)
    then show ?thesis using True by (auto simp: validate_solution_def Let_def)
  next
    case False
    then have ends: "0 \<noteq> ?n - 1" "0 < ?n - 1" using n by linarith+
    let ?s0 = "(replicate ?n False)[0 := True, ?n - 1 := True]"
    have s0: "?s0 ! i = (i = 0 \<or> i = ?n - 1)" if "i < ?n" for i
      using that n by (auto simp: nth_list_update)
    show ?thesis
    proof
      assume "validate_solution p m sol = Inr ()"
      then obtain seen where len: "2 \<le> length ?o" "visit_policy p = AllRequired \<Longrightarrow> length ?o = ?n"
        and first: "get ?o 0 = Some 0" and final: "get ?o (length ?o - 1) = Some (?n - 1)"
        and mark: "mark_all ?s0 (interior ?o) = Some seen"
        and req: "\<forall>i<?n. required (locations p ! i) \<longrightarrow> seen ! i"
        using False by (auto simp: validate_solution_def Let_def start_location_index_def
            end_location_index_def split: if_splits option.splits)
      from len have ne: "?o \<noteq> []" by auto
      from mark have *: "distinct (interior ?o)" "\<forall>l\<in>set (interior ?o). l < ?n \<and> l \<noteq> 0 \<and> l \<noteq> ?n - 1"
        and seen: "\<forall>i<?n. seen ! i = (i = 0 \<or> i = ?n - 1 \<or> i \<in> set (interior ?o))"
        using s0 by (auto simp: mark_all_Some)
      have ends': "hd ?o = 0" "last ?o = ?n - 1"
        using first final get_last [OF ne, of "?n - 1"] by (simp_all add: get_hd)
      then have split: "?o = 0 # interior ?o @ [?n - 1]"
        using interior_split [OF len(1)] by simp
      have set_o: "set ?o = insert 0 (insert (?n - 1) (set (interior ?o)))" and d: "distinct ?o"
        using * ends framed [OF split] by auto
      have sub: "set ?o \<subseteq> {..<?n}" using * n unfolding set_o by auto
      have "\<forall>i<?n. required (locations p ! i) \<longrightarrow> i \<in> set ?o" using req seen unfolding set_o by auto
      moreover have "visit_policy p = AllRequired \<longrightarrow> set ?o = {..<?n}"
        using len(2) distinct_covers [OF d sub] by simp
      ultimately show "matrix_size m = ?n \<and> valid_order p ?o"
        using ends' ne False d sub by (simp add: valid_order_def Let_def)
    next
      assume "matrix_size m = ?n \<and> valid_order p ?o"
      then have v: "valid_order p ?o" and size: "matrix_size m = ?n" by auto
      note o = valid_order_ends [OF v]
      have len: "2 \<le> length ?o" using endpoints_length [of ?o] o ends by simp
      have split: "?o = 0 # interior ?o @ [?n - 1]" using interior_split [OF len] o by simp
      have inner: "distinct (interior ?o)" "0 \<notin> set (interior ?o)" "?n - 1 \<notin> set (interior ?o)"
        "set ?o = insert 0 (insert (?n - 1) (set (interior ?o)))"
        using framed [OF split] o(4) by simp_all
      define seen where "seen = map (\<lambda>i. i \<in> set ?o) [0..<?n]"
      have "mark_all ?s0 (interior ?o) = Some seen"
        using inner s0 o(5) by (auto simp: mark_all_Some seen_def)
      moreover have "visit_policy p = AllRequired \<Longrightarrow> length ?o = ?n"
        using v distinct_covers [of ?o ?n] by (auto simp: valid_order_def Let_def)
      ultimately show "validate_solution p m sol = Inr ()"
        using v size len False o get_last [of ?o]
        by (auto simp: validate_solution_def Let_def start_location_index_def
            end_location_index_def valid_order_def seen_def get_hd)
    qed
  qed
qed

section \<open>The schedule is the walk, stop by stop\<close>

definition timed_stop :: "optimization_problem \<Rightarrow> usize \<Rightarrow> nat \<Rightarrow> scheduled_stop" where
  "timed_stop p k arrival =
     (let l = locations p ! k; service = max arrival (minutes (window_open (time_window l)))
      in \<lparr>location_index = k,
          arrival_time = TimeOfDay arrival,
          service_start_time = TimeOfDay service,
          departure_time = Some (TimeOfDay (service + stay_minutes l)),
          stop_wait_minutes = service - arrival,
          stop_stay_minutes = stay_minutes l\<rparr>)"

fun timed_stops :: "optimization_problem \<Rightarrow> travel_time_matrix \<Rightarrow> usize list \<Rightarrow> nat \<Rightarrow> scheduled_stop list"
  where
  "timed_stops p m (a # b # rest) t =
     (let arrival = t + the (travel_minutes m a b); l = locations p ! b
      in timed_stop p b arrival #
         timed_stops p m (b # rest)
           (max arrival (minutes (window_open (time_window l))) + stay_minutes l))"
| "timed_stops p m _ t = []"

lemma timed_stop_simps [simp]:
  "location_index (timed_stop p k a) = k"
  "arrival_time (timed_stop p k a) = TimeOfDay a"
  by (simp_all add: timed_stop_def Let_def)

lemma map_location_index_timed_stops: "map location_index (timed_stops p m order t) = tl order"
  by (induction p m order t rule: timed_stops.induct) (auto simp: Let_def)

lemma max_TimeOfDay: "max (TimeOfDay a) b = TimeOfDay (max a (minutes b))"
  by (cases b) (simp add: max_def time_order_defs)

lemma schedule_edges_walk:
  assumes "wf_problem p" and "set order \<subseteq> {..<length (locations p)}"
    and "travel + wait \<le> t" and "t < 1440"
  shows "schedule_edges p m start order (TimeOfDay t, travel, wait) acc = Inr plan \<longleftrightarrow>
    (\<exists>f r w. walk p m order (t, travel, wait) = Some (f, r, w) \<and>
      plan = \<lparr>stops = acc @ timed_stops p m order t, total_travel_minutes = r\<rparr>)"
  using assms(2-)
proof (induction order arbitrary: t travel wait acc rule: induct_list012)
  case (3 a b rest)
  let ?l = "locations p ! b"
  have l: "wf_location ?l" using "3.prems"(1) assms(1) by (simp add: wf_problem_nth)
  note bounds = wf_location_bounds [OF l]
  show ?case
  proof (cases "travel_minutes m a b")
    case None
    then show ?thesis by (simp add: walk.simps(1) schedule_edges.simps(1) schedule_edge_def)
  next
    case (Some d)
    show ?thesis
    proof (cases "serve ?l (t + d)")
      case None
      then have late: "minutes (window_close (time_window ?l)) <
          max (t + d) (minutes (window_open (time_window ?l))) + stay_minutes ?l"
        by (auto simp: serve_def Let_def split: if_splits)
      have "schedule_edge p m start a b (TimeOfDay t, travel, wait) \<noteq> Inr r" for r
        using Some late by (auto simp: schedule_edge_def Let_def time_checked_add_Some
            bind_result_Inr max_TimeOfDay less_time_of_day_def split: if_splits)
      then have "schedule_edges p m start (a # b # rest) (TimeOfDay t, travel, wait) acc \<noteq> Inr plan"
        by (auto simp: schedule_edges.simps(1) split: sum.splits)
      then show ?thesis using Some None by (simp add: walk.simps(1))
    next
      case (Some wf)
      then obtain w f where s: "serve ?l (t + d) = Some (w, f)" by (cases wf) auto
      define ss where "ss = max (t + d) (minutes (window_open (time_window ?l)))"
      have ss: "w = ss - (t + d)" "f = ss + stay_minutes ?l"
        "f \<le> minutes (window_close (time_window ?l))"
        using s by (auto simp: serve_Some ss_def)
      have f: "f < 1440" using serve_before_midnight [OF l s] by simp
      have small: "travel + d + (wait + w) \<le> f" using serve_after [OF s] "3.prems"(2) by linarith
      have "t + d \<le> ss" by (simp add: ss_def)
      then have exact: "checked_add_u32 travel d = Some (travel + d)"
        "time_checked_add (TimeOfDay t) d = Some (TimeOfDay (t + d))"
        "time_checked_add (TimeOfDay ss) (stay_minutes ?l) = Some (TimeOfDay f)"
        "saturating_add_u32 wait w = wait + w"
        using ss small f by (simp_all add: time_checked_add_Some)
      have open': "max (TimeOfDay (t + d)) (window_open (time_window ?l)) = TimeOfDay ss"
        by (simp add: max_TimeOfDay ss_def)
      have "schedule_edge p m start a b (TimeOfDay t, travel, wait) =
          Inr ((TimeOfDay f, travel + d, wait + w), timed_stop p b (t + d))"
        using \<open>travel_minutes m a b = Some d\<close> ss(3)
        by (simp add: schedule_edge_def exact open' Let_def less_time_of_day_def
            timed_stop_def ss_def [symmetric] ss(1,2) [symmetric] del: checked_add_u32_Some)
      then have "schedule_edges p m start (a # b # rest) (TimeOfDay t, travel, wait) acc =
          schedule_edges p m start (b # rest) (TimeOfDay f, travel + d, wait + w)
            (acc @ [timed_stop p b (t + d)])"
        by (simp add: schedule_edges.simps(1))
      also have "\<dots> = Inr plan \<longleftrightarrow>
          (\<exists>f' r w'. walk p m (b # rest) (f, travel + d, wait + w) = Some (f', r, w') \<and>
            plan = \<lparr>stops = (acc @ [timed_stop p b (t + d)]) @ timed_stops p m (b # rest) f,
                    total_travel_minutes = r\<rparr>)"
        using "3.IH"(2) [OF _ small f] "3.prems"(1) by simp
      finally show ?thesis
        using \<open>travel_minutes m a b = Some d\<close> s ss
        by (auto simp: walk.simps(1) ss_def Let_def)
    qed
  qed
qed auto

lemma calculate_schedule_from_walk:
  assumes "wf_problem p" and "wf_time start"
  shows "calculate_schedule_from p m sol start = Inr plan \<longleftrightarrow>
    matrix_size m = length (locations p) \<and> valid_order p (visit_order sol) \<and>
    (\<exists>f r w. route_walk p m (visit_order sol) (minutes start) = Some (f, r, w) \<and>
      plan = \<lparr>stops = timed_stop p 0 (minutes start) #
                timed_stops p m (visit_order sol)
                  (max (minutes start) (minutes (window_open (time_window (locations p ! 0)))) +
                   stay_minutes (locations p ! 0)),
              total_travel_minutes = r\<rparr>)"
proof (cases "matrix_size m = length (locations p) \<and> valid_order p (visit_order sol)")
  case False
  then have "validate_solution p m sol \<noteq> Inr ()" by (simp add: validate_solution_iff [OF assms(1)])
  then show ?thesis using False
    by (cases "validate_solution p m sol") (auto simp: calculate_schedule_from_def)
next
  case True
  then have v: "validate_solution p m sol = Inr ()" by (simp add: validate_solution_iff [OF assms(1)])
  let ?l = "locations p ! 0" and ?t = "minutes start"
  have l: "wf_location ?l" using assms(1) by (intro wf_problem_nth wf_problem_length)
  have t: "start = TimeOfDay ?t" by simp
  define ss where "ss = max ?t (minutes (window_open (time_window ?l)))"
  have service: "max start (window_open (time_window ?l)) = TimeOfDay ss"
    by (subst t) (simp only: max_TimeOfDay ss_def)
  show ?thesis
  proof (cases "serve ?l ?t")
    case None
    then have late: "minutes (window_close (time_window ?l)) < ss + stay_minutes ?l"
      by (auto simp: serve_def Let_def ss_def split: if_splits)
    have "calculate_schedule_from p m sol start \<noteq> Inr plan"
      using v late service by (auto simp: calculate_schedule_from_def Let_def time_checked_add_Some
          start_location_nth [OF assms(1)] less_time_of_day_def split: option.splits)
    then show ?thesis using None by (simp add: route_walk_def)
  next
    case (Some wf)
    then obtain w f where s: "serve ?l ?t = Some (w, f)" by (cases wf) auto
    have ss: "w = ss - ?t" "f = ss + stay_minutes ?l" "f \<le> minutes (window_close (time_window ?l))"
      using s by (auto simp: serve_Some ss_def)
    have f: "f < 1440" using serve_before_midnight [OF l s] by simp
    have dep: "time_checked_add (TimeOfDay ss) (stay_minutes ?l) = Some (TimeOfDay f)"
      using ss f by (simp add: time_checked_add_Some)
    have wf: "w \<le> f" using serve_after [OF s] by simp
    have first: "\<lparr>location_index = 0, arrival_time = start, service_start_time = TimeOfDay ss,
        departure_time = Some (TimeOfDay f), stop_wait_minutes = w,
        stop_stay_minutes = stay_minutes ?l\<rparr> = timed_stop p 0 ?t"
      by (simp add: timed_stop_def Let_def ss ss_def)
    have "calculate_schedule_from p m sol start =
        schedule_edges p m start (visit_order sol) (TimeOfDay f, 0, w) [timed_stop p 0 ?t]"
      using ss(3) by (simp add: calculate_schedule_from_def v start_location_nth [OF assms(1)]
          start_location_index_def service dep Let_def less_time_of_day_def first
          ss(1) [symmetric])
    then show ?thesis
      using True valid_order_ends(5) schedule_edges_walk [OF assms(1) _ _ f, of "visit_order sol" 0 w m start]
        wf ss(2) by (simp add: route_walk_def s ss_def)
  qed
qed

lemma timed_stops_walk:
  assumes "walk p m order (t, r, w) = Some (f, r', w')"
  shows "w + sum_list (map stop_wait_minutes (timed_stops p m order t)) = w'"
    and "timed_stops p m order t \<noteq> [] \<Longrightarrow>
      departure_time (last (timed_stops p m order t)) = Some (TimeOfDay f)"
    and "timed_stops p m order t = [] \<Longrightarrow> f = t"
  using assms
proof (induction order arbitrary: t r w rule: induct_list012)
  case (3 a b rest)
  {
    case 1
    from 1 obtain d wb fb where d: "travel_minutes m a b = Some d"
      and s: "serve (locations p ! b) (t + d) = Some (wb, fb)"
      and rest: "walk p m (b # rest) (fb, r + d, w + wb) = Some (f, r', w')"
      by (auto simp: walk_step)
    show ?case using "3.IH"(4) [OF rest] d s
      by (auto simp: Let_def timed_stop_def serve_Some)
  next
    case 2
    from 2(2) obtain d wb fb where d: "travel_minutes m a b = Some d"
      and s: "serve (locations p ! b) (t + d) = Some (wb, fb)"
      and rest: "walk p m (b # rest) (fb, r + d, w + wb) = Some (f, r', w')"
      by (auto simp: walk_step)
    show ?case
    proof (cases "timed_stops p m (b # rest) fb = []")
      case True
      with "3.IH"(6) [OF _ rest] have "f = fb" by simp
      then show ?thesis using True d s by (auto simp: Let_def timed_stop_def serve_Some)
    next
      case False
      with "3.IH"(5) [OF _ rest] d s show ?thesis by (auto simp: Let_def serve_Some)
    qed
  next
    case 3
    then show ?case by (simp add: Let_def)
  }
qed auto

text \<open>The facts a plan states about each of its stops.\<close>

definition stop_ok :: "optimization_problem \<Rightarrow> scheduled_stop \<Rightarrow> bool" where
  "stop_ok p s \<longleftrightarrow>
     (let l = locations p ! location_index s in
      location_index s < length (locations p) \<and>
      arrival_time s \<le> service_start_time s \<and>
      window_open (time_window l) \<le> service_start_time s \<and>
      stop_wait_minutes s = minutes (service_start_time s) - minutes (arrival_time s) \<and>
      stop_stay_minutes s = stay_minutes l \<and>
      (case departure_time s of
         None \<Rightarrow> False
       | Some d \<Rightarrow> minutes d = minutes (service_start_time s) + stay_minutes l \<and>
           d \<le> window_close (time_window l)))"

fun legs_ok :: "travel_time_matrix \<Rightarrow> scheduled_stop list \<Rightarrow> bool" where
  "legs_ok m (s1 # s2 # rest) \<longleftrightarrow>
     (case (departure_time s1, travel_minutes m (location_index s1) (location_index s2)) of
        (Some d, Some t) \<Rightarrow> minutes (arrival_time s2) = minutes d + t
      | _ \<Rightarrow> False) \<and> legs_ok m (s2 # rest)"
| "legs_ok m _ \<longleftrightarrow> True"

lemma timed_stop_ok:
  assumes "serve (locations p ! k) a = Some (w, f)" and "k < length (locations p)"
  shows "stop_ok p (timed_stop p k a)"
  using assms
  by (auto simp: stop_ok_def timed_stop_def Let_def serve_Some time_order_defs)

lemma timed_stops_ok:
  assumes "walk p m (a # order) (t, r, w) = Some (f, r', w')"
    and "set (a # order) \<subseteq> {..<length (locations p)}"
    and "serve (locations p ! a) t0 = Some (w0, t)"
  shows "(\<forall>s\<in>set (timed_stops p m (a # order) t). stop_ok p s) \<and>
    legs_ok m (timed_stop p a t0 # timed_stops p m (a # order) t)"
  using assms
proof (induction order arbitrary: a t r w t0 w0)
  case (Cons b rest)
  from Cons.prems(1) obtain d wb fb where d: "travel_minutes m a b = Some d"
    and s: "serve (locations p ! b) (t + d) = Some (wb, fb)"
    and rest: "walk p m (b # rest) (fb, r + d, w + wb) = Some (f, r', w')"
    by (auto simp: walk_step)
  have fb: "fb = max (t + d) (minutes (window_open (time_window (locations p ! b)))) +
      stay_minutes (locations p ! b)"
    using s by (simp add: serve_Some)
  have "departure_time (timed_stop p a t0) = Some (TimeOfDay t)"
    using Cons.prems(3) by (simp add: timed_stop_def Let_def serve_Some)
  then show ?case
    using Cons.IH [OF rest _ s] Cons.prems(2) d s timed_stop_ok [OF s] fb [symmetric]
    by (auto simp: Let_def)
qed simp

lemma calculate_schedule_facts:
  assumes "wf_problem p" and "wf_time start" and "calculate_schedule_from p m sol start = Inr plan"
  shows "map location_index (stops plan) = visit_order sol \<and>
    (\<forall>s\<in>set (stops plan). stop_ok p s) \<and> legs_ok m (stops plan) \<and>
    arrival_time (hd (stops plan)) = start"
proof -
  let ?l = "locations p ! 0" and ?o = "visit_order sol"
  define t where "t = max (minutes start) (minutes (window_open (time_window ?l))) + stay_minutes ?l"
  from assms(3) obtain f r w where v: "valid_order p ?o"
    and rw: "route_walk p m ?o (minutes start) = Some (f, r, w)"
    and plan: "stops plan = timed_stop p 0 (minutes start) # timed_stops p m ?o t"
    by (auto simp: calculate_schedule_from_walk [OF assms(1,2)] t_def)
  obtain rest where o: "?o = 0 # rest" using valid_order_ends(1,2) [OF v] by (cases ?o) auto
  from rw obtain w0 where s: "serve ?l (minutes start) = Some (w0, t)"
    and walk: "walk p m (0 # rest) (t, 0, w0) = Some (f, r, w)"
    by (auto simp: route_walk_def o t_def serve_Some split: option.splits)
  have sub: "set (0 # rest) \<subseteq> {..<length (locations p)}" using valid_order_ends(5) [OF v] o by simp
  have "stop_ok p (timed_stop p 0 (minutes start))"
    using timed_stop_ok [OF s] wf_problem_length [OF assms(1)] by blast
  then show ?thesis
    using timed_stops_ok [OF walk sub s]
    by (auto simp: plan map_location_index_timed_stops o)
qed

section \<open>Properties\<close>

text \<open>
  C3. A schedule that is computed keeps every promise of the plan: the stops follow the visit
  order, each leg takes exactly the travel time of the matrix, no service starts before the
  opening time or before arrival, every departure is the service start plus the stay and not
  after closing, and every stop is a location of the problem.
\<close>

theorem calculate_schedule_sound:
  assumes "wf_problem p" and "wf_time start" and "calculate_schedule_from p m sol start = Inr plan"
  shows "map location_index (stops plan) = visit_order sol \<and>
    (\<forall>s\<in>set (stops plan). stop_ok p s) \<and> legs_ok m (stops plan) \<and>
    arrival_time (hd (stops plan)) = start"
  by (rule calculate_schedule_facts [OF assms])

lemma readme_schedules:
  "calculate_schedule_from (readme_problem Latest) readme_matrix readme_route (TimeOfDay 605) = Inr
    \<lparr>stops =
      [\<lparr>location_index = 0, arrival_time = TimeOfDay 605, service_start_time = TimeOfDay 605,
        departure_time = Some (TimeOfDay 605), stop_wait_minutes = 0, stop_stay_minutes = 0\<rparr>,
       \<lparr>location_index = 2, arrival_time = TimeOfDay 615, service_start_time = TimeOfDay 615,
        departure_time = Some (TimeOfDay 645), stop_wait_minutes = 0, stop_stay_minutes = 30\<rparr>,
       \<lparr>location_index = 1, arrival_time = TimeOfDay 660, service_start_time = TimeOfDay 660,
        departure_time = Some (TimeOfDay 720), stop_wait_minutes = 0, stop_stay_minutes = 60\<rparr>,
       \<lparr>location_index = 3, arrival_time = TimeOfDay 730, service_start_time = TimeOfDay 730,
        departure_time = Some (TimeOfDay 730), stop_wait_minutes = 0, stop_stay_minutes = 0\<rparr>],
     total_travel_minutes = 35\<rparr>"
  using readme_valid [of Latest] readme_walk [of Latest]
  by (simp add: calculate_schedule_from_walk readme_wf wf_time_def)
    (simp add: readme_defs timed_stop_def travel_minutes_def get_def)

theorem calculate_schedule_sound_witness:
  "legs_ok readme_matrix (stops (case calculate_schedule_from (readme_problem Latest) readme_matrix
     readme_route (TimeOfDay 605) of Inr plan \<Rightarrow> plan))"
  using calculate_schedule_sound [OF readme_wf(2) _ readme_schedules]
  by (simp add: readme_schedules wf_time_def)

lemma evaluated_schedule_facts:
  assumes "wf_input i" and "never_cancelled i" and "evaluate_solution obj i sol = Inr mt"
  shows "\<exists>start plan. selected_start_time (input_problem i) mt = Inr start \<and>
    calculate_schedule_from (input_problem i) (input_matrix i) sol start = Inr plan \<and>
    total_travel_minutes plan = metric_travel_minutes mt \<and>
    departure_time (last (stops plan)) = Some (TimeOfDay (finish_time_slot mt)) \<and>
    sum_list (map stop_wait_minutes (stops plan)) = metric_wait_minutes mt"
proof -
  let ?p = "input_problem i" and ?m = "input_matrix i" and ?o = "visit_order sol"
  note ev = evaluate_solution_Inr [OF assms]
  let ?s = "start_time_slot mt"
  have p: "wf_problem ?p" using assms(1) by (simp add: wf_input_def)
  from ev(5) obtain f r w where rw: "route_walk ?p ?m ?o ?s = Some (f, r, w)"
    and mt: "mt = route_metrics obj ?p ?o ?s (f, r, w)"
    by (metis prod_cases3)
  have totals: "finish_time_slot mt = f" "metric_travel_minutes mt = r" "metric_wait_minutes mt = w"
    by (subst mt, simp)+
  have start: "selected_start_time ?p mt = Inr (TimeOfDay ?s)"
    using ev(4,6) by (cases "start_policy ?p") (auto simp: selected_start_time_def from_minutes_def)
  let ?l = "locations ?p ! 0"
  define t where "t = max ?s (minutes (window_open (time_window ?l))) + stay_minutes ?l"
  let ?plan = "\<lparr>stops = timed_stop ?p 0 ?s # timed_stops ?p ?m ?o t, total_travel_minutes = r\<rparr>"
  have plan: "calculate_schedule_from ?p ?m sol (TimeOfDay ?s) = Inr ?plan"
    using ev(1,2,4) rw by (simp add: calculate_schedule_from_walk [OF p] wf_time_def t_def)
  from rw obtain w0 where s: "serve ?l ?s = Some (w0, t)" and walk: "walk ?p ?m ?o (t, 0, w0) = Some (f, r, w)"
    by (auto simp: route_walk_def t_def serve_Some split: option.splits)
  note stops = timed_stops_walk [OF walk]
  have "departure_time (last (stops ?plan)) = Some (TimeOfDay f)"
    using stops(2,3) s by (auto simp: timed_stop_def Let_def serve_Some)
  moreover have "sum_list (map stop_wait_minutes (stops ?plan)) = w"
    using stops(1) s by (auto simp: timed_stop_def Let_def serve_Some)
  ultimately show ?thesis using start plan totals by (intro exI [of _ "TimeOfDay ?s"] exI [of _ ?plan]) simp
qed

text \<open>
  C5. The evaluator and the scheduler agree: whenever the common evaluator accepts a route,
  scheduling the same order from the start time selected for its metrics succeeds, and the
  plan has the travel total, the finish time and the total waiting the metrics promised.
\<close>

theorem evaluated_route_schedules:
  assumes "wf_input i" and "never_cancelled i" and "evaluate_solution obj i sol = Inr mt"
  shows "\<exists>start plan. selected_start_time (input_problem i) mt = Inr start \<and>
    calculate_schedule_from (input_problem i) (input_matrix i) sol start = Inr plan \<and>
    total_travel_minutes plan = metric_travel_minutes mt \<and>
    departure_time (last (stops plan)) = Some (TimeOfDay (finish_time_slot mt)) \<and>
    sum_list (map stop_wait_minutes (stops plan)) = metric_wait_minutes mt"
  by (rule evaluated_schedule_facts [OF assms])

theorem evaluated_route_schedules_witness:
  "\<exists>start plan. selected_start_time (readme_problem Latest) \<lparr>metric_start_policy = Latest,
      visited_optional_count = 0, visited_optional_priority = 0, start_time_slot = 605,
      finish_time_slot = 730, metric_travel_minutes = 35, metric_wait_minutes = 0, metric_score = 35\<rparr> = Inr start \<and>
    calculate_schedule_from (readme_problem Latest) readme_matrix readme_route start = Inr plan \<and>
    total_travel_minutes plan = 35"
  using evaluated_route_schedules [OF readme_wf(1) readme_not_cancelled readme_evaluates] by auto

text \<open>
  The solver's and the scheduler's validation of a visit order, written separately, accept
  the same orders: those that start and end at the fixed endpoints, repeat nothing, and visit
  every required location (every location under ALL_REQUIRED).
\<close>

lemma validators_agree:
  assumes "wf_problem p" and "matrix_size m = length (locations p)"
  shows "(validate_solution p m sol = Inr () \<longleftrightarrow> validate_visit_order p sol = Inr ()) \<and>
    (validate_visit_order p sol = Inr () \<longleftrightarrow> valid_order p (visit_order sol))"
  using assms by (simp_all add: validate_solution_iff validate_visit_order_iff)

theorem validators_agree_witness:
  "validate_solution (readme_problem Fixed) readme_matrix readme_route = Inr () \<longleftrightarrow>
   validate_visit_order (readme_problem Fixed) readme_route = Inr ()"
  using validators_agree [OF readme_wf(2), of readme_matrix Fixed readme_route] by simp

end
