(* ===== verification/Exact_Dp.thy ===== *)
theory Exact_Dp
  imports Evaluate
begin

text \<open>
  \<open>src/solver/exact/\<close>: the exact bitmask dynamic program. A cell \<open>(msk, lst)\<close> stands for
  the partial routes that visited the set \<open>msk\<close> and stopped at \<open>lst\<close>; it is stored at
  \<open>msk * n + lst\<close> of one flat vector. The feasibility pass keeps the earliest finish of a
  cell, the search keeps a Pareto frontier of states in an arena with predecessor links.
\<close>

section \<open>Masks\<close>

definition has_bit :: "nat \<Rightarrow> nat \<Rightarrow> bool" where
  "has_bit msk k \<longleftrightarrow> Bit_Operations.and msk (push_bit k 1) \<noteq> 0"

definition with_bit :: "nat \<Rightarrow> nat \<Rightarrow> nat" where
  "with_bit msk k = Bit_Operations.or msk (push_bit k 1)"

definition full_mask :: "nat \<Rightarrow> nat" where
  "full_mask n = push_bit n 1 - 1"

definition dp_index :: "nat \<Rightarrow> nat \<Rightarrow> nat \<Rightarrow> nat" where
  "dp_index msk lst n = msk * n + lst"

section \<open>Frontier\<close>

record frontier_point =
  point_time_slot :: u16
  point_cost :: u64

type_synonym frontier_policy = "frontier_point \<Rightarrow> frontier_point \<Rightarrow> bool"

definition time_cost_dominates :: frontier_policy where
  "time_cost_dominates left right =
     (if point_time_slot left > point_time_slot right then False
      else let delay = (point_time_slot right - point_time_slot left) * time_slot_minutes
        in case checked_add_u64 (point_cost left) delay of
             None \<Rightarrow> False
           | Some reproduced \<Rightarrow> reproduced \<le> point_cost right)"

record pareto_state =
  ps_time_slot :: u16
  ps_travel_minutes :: u32
  ps_wait_minutes :: u32
  ps_optional_count :: usize
  ps_optional_priority :: u32
  ps_score :: u64
  ps_frontier_cost :: u64
  ps_predecessor :: "usize option"
  ps_location :: usize

definition frontier_point :: "pareto_state \<Rightarrow> frontier_point" where
  "frontier_point s = \<lparr>point_time_slot = ps_time_slot s, point_cost = ps_frontier_cost s\<rparr>"

record exact_solver_stats =
  generated_states :: usize
  frontier_states :: usize
  frontier_cells :: usize

record exact_solve_result =
  exact_solution :: solver_solution
  exact_metrics :: solution_metrics
  exact_stats :: exact_solver_stats

section \<open>Feasibility pass\<close>

definition feasible_next ::
  "solver_input \<Rightarrow> nat \<Rightarrow> nat \<Rightarrow> u16 \<Rightarrow> nat \<Rightarrow> u16 option list \<Rightarrow> u16 option list" where
  "feasible_next i msk lst time_slot next earliest =
     (let n = length (locations (input_problem i)); end = end_location_index (input_problem i) in
      if has_bit msk next \<or> (next = end \<and> with_bit msk next \<noteq> full_mask n) then earliest
      else case transition_time i lst next time_slot of
          None \<Rightarrow> earliest
        | Some finish \<Rightarrow>
            let cell = dp_index (with_bit msk next) next n;
                improves = (case earliest ! cell of Some current \<Rightarrow> finish < current | None \<Rightarrow> True)
            in if improves then earliest[cell := Some finish] else earliest)"

definition feasible_last :: "solver_input \<Rightarrow> nat \<Rightarrow> nat \<Rightarrow> u16 option list \<Rightarrow> u16 option list" where
  "feasible_last i msk lst earliest =
     (let n = length (locations (input_problem i)) in
      case earliest ! dp_index msk lst n of
        None \<Rightarrow> earliest
      | Some time_slot \<Rightarrow> fold (feasible_next i msk lst time_slot) [1..<n] earliest)"

definition feasible_mask :: "solver_input \<Rightarrow> nat \<Rightarrow> u16 option list \<Rightarrow> u16 option list" where
  "feasible_mask i msk earliest =
     fold (feasible_last i msk) [0..<length (locations (input_problem i))] earliest"

fun feasible_masks ::
  "solver_input \<Rightarrow> u16 \<Rightarrow> nat list \<Rightarrow> u16 option list \<Rightarrow> solver_error + u16 option list" where
  "feasible_masks i start [] earliest = Inr earliest"
| "feasible_masks i start (msk # masks) earliest =
     (if is_cancelled i (PollFeasible start msk) then Inl Cancelled
      else feasible_masks i start masks (feasible_mask i msk earliest))"

definition is_feasible_at_start :: "solver_input \<Rightarrow> u16 \<Rightarrow> solver_error + bool" where
  "is_feasible_at_start i start =
     (case initial_service i start of
        None \<Rightarrow> Inr False
      | Some initial \<Rightarrow>
          let n = length (locations (input_problem i)) in
          if n = 1 then Inr True
          else let full = full_mask n; end = end_location_index (input_problem i);
                   earliest = (replicate (push_bit n 1 * n) None)
                     [dp_index 1 0 n := Some (departure_slot initial)]
            in bind_result (feasible_masks i start [1..<full + 1] earliest)
                 (\<lambda>table. Inr (table ! dp_index full end n \<noteq> None)))"

section \<open>Search\<close>

definition pareto_transition ::
  "objective_policy \<Rightarrow> solver_input \<Rightarrow> pareto_state \<Rightarrow> usize \<Rightarrow> usize \<Rightarrow> pareto_state option" where
  "pareto_transition obj i state predecessor next = do {
     travel \<leftarrow> travel_minutes (input_matrix i) (ps_location state) next;
     arrival \<leftarrow> checked_add_u32 (ps_time_slot state) (minutes_to_slot_ceil travel);
     let l = locations (input_problem i) ! next;
     let open_slot = minutes_to_slot_ceil (minutes (window_open (time_window l)));
     let close_slot = minutes (window_close (time_window l)) div time_slot_minutes;
     let service_start = max arrival open_slot;
     finish \<leftarrow> checked_add_u32 service_start (minutes_to_slot_ceil (stay_minutes l));
     if finish > close_slot \<or> finish \<ge> slots_per_day then None
     else do {
       wait \<leftarrow> checked_mul_u32 (service_start - arrival) time_slot_minutes;
       total_travel \<leftarrow> checked_add_u32 (ps_travel_minutes state) travel;
       total_wait \<leftarrow> checked_add_u32 (ps_wait_minutes state) wait;
       let optional = (\<not> required l);
       optional_priority \<leftarrow> checked_add_u32 (ps_optional_priority state)
         (if optional then priority l else 0);
       Some \<lparr>ps_time_slot = as_u16 finish,
             ps_travel_minutes = total_travel,
             ps_wait_minutes = total_wait,
             ps_optional_count = ps_optional_count state + of_bool optional,
             ps_optional_priority = optional_priority,
             ps_score = score obj total_travel total_wait,
             ps_frontier_cost = frontier_cost obj total_travel total_wait,
             ps_predecessor = Some predecessor,
             ps_location = next\<rparr>
     }
   }"

type_synonym search_state = "pareto_state list \<times> usize list list"

definition insert_candidate ::
  "frontier_policy \<Rightarrow> nat \<Rightarrow> pareto_state \<Rightarrow> search_state \<Rightarrow> search_state" where
  "insert_candidate dominates cell candidate = (\<lambda>(arena, frontiers).
     let frontier = frontiers ! cell in
     if \<exists>e\<in>set frontier. dominates (frontier_point (arena ! e)) (frontier_point candidate)
     then (arena, frontiers)
     else let kept = filter
            (\<lambda>e. \<not> dominates (frontier_point candidate) (frontier_point (arena ! e))) frontier
       in (arena @ [candidate], frontiers[cell := kept @ [length arena]]))"

definition required_mask :: "optimization_problem \<Rightarrow> nat" where
  "required_mask p =
     fold (\<lambda>k msk. if required (locations p ! k) then with_bit msk k else msk)
       [0..<length (locations p)] 0"

definition covers_required :: "optimization_problem \<Rightarrow> nat \<Rightarrow> bool" where
  "covers_required p msk \<longleftrightarrow> Bit_Operations.and msk (required_mask p) = required_mask p"

definition search_next :: "objective_policy \<Rightarrow> frontier_policy \<Rightarrow> solver_input \<Rightarrow>
    nat \<Rightarrow> nat \<Rightarrow> usize \<Rightarrow> nat \<Rightarrow> search_state \<Rightarrow> search_state" where
  "search_next obj dominates i msk lst state_id next st =
     (let p = input_problem i; n = length (locations p); end = end_location_index p;
          partial = (visit_policy p = BestEffortOnFailure); new_mask = with_bit msk next in
      if has_bit msk next then st
      else if next = end \<and>
         ((\<not> partial \<and> new_mask \<noteq> full_mask n) \<or> \<not> covers_required p new_mask) then st
      else case pareto_transition obj i (fst st ! state_id) state_id next of
          None \<Rightarrow> st
        | Some candidate \<Rightarrow> insert_candidate dominates (dp_index new_mask next n) candidate st)"

definition search_cell :: "objective_policy \<Rightarrow> frontier_policy \<Rightarrow> solver_input \<Rightarrow>
    nat \<Rightarrow> nat \<Rightarrow> usize \<Rightarrow> search_state \<Rightarrow> search_state" where
  "search_cell obj dominates i msk lst state_id st =
     (if lst = end_location_index (input_problem i) then st
      else fold (search_next obj dominates i msk lst state_id)
        [1..<length (locations (input_problem i))] st)"

definition search_last :: "objective_policy \<Rightarrow> frontier_policy \<Rightarrow> solver_input \<Rightarrow>
    nat \<Rightarrow> nat \<Rightarrow> search_state \<Rightarrow> search_state" where
  "search_last obj dominates i msk lst st =
     (if \<not> has_bit msk lst then st
      else fold (search_cell obj dominates i msk lst)
        (snd st ! dp_index msk lst (length (locations (input_problem i)))) st)"

definition search_mask :: "objective_policy \<Rightarrow> frontier_policy \<Rightarrow> solver_input \<Rightarrow>
    nat \<Rightarrow> search_state \<Rightarrow> search_state" where
  "search_mask obj dominates i msk st =
     fold (search_last obj dominates i msk) [0..<length (locations (input_problem i))] st"

fun search_masks :: "objective_policy \<Rightarrow> frontier_policy \<Rightarrow> solver_input \<Rightarrow> u16 \<Rightarrow>
    nat list \<Rightarrow> search_state \<Rightarrow> solver_error + search_state" where
  "search_masks obj dominates i start [] st = Inr st"
| "search_masks obj dominates i start (msk # masks) st =
     (if is_cancelled i (PollSearch start msk) then Inl Cancelled
      else search_masks obj dominates i start masks (search_mask obj dominates i msk st))"

definition pareto_metrics :: "start_policy \<Rightarrow> u16 \<Rightarrow> pareto_state \<Rightarrow> solution_metrics" where
  "pareto_metrics sp start s =
     \<lparr>metric_start_policy = sp,
      visited_optional_count = ps_optional_count s,
      visited_optional_priority = ps_optional_priority s,
      start_time_slot = start,
      finish_time_slot = ps_time_slot s,
      metric_travel_minutes = ps_travel_minutes s,
      metric_wait_minutes = ps_wait_minutes s,
      metric_score = ps_score s\<rparr>"

text \<open>
  The \<open>while let Some(state_id) = cursor\<close> loop over predecessor links, with fuel. A link always
  points to an older state of the arena, so as much fuel as there are states is enough
  (\<open>trace_back_total\<close>); \<open>None\<close> would be the loop that never ends.
\<close>

fun trace_back :: "nat \<Rightarrow> pareto_state list \<Rightarrow> usize option \<Rightarrow> usize list option" where
  "trace_back fuel arena None = Some []"
| "trace_back 0 arena (Some state_id) = None"
| "trace_back (Suc fuel) arena (Some state_id) =
     map_option (\<lambda>rest. ps_location (arena ! state_id) # rest)
       (trace_back fuel arena (ps_predecessor (arena ! state_id)))"

definition terminal_ids :: "solver_input \<Rightarrow> usize list list \<Rightarrow> usize list" where
  "terminal_ids i frontiers =
     (let p = input_problem i; n = length (locations p); end = end_location_index p in
      if visit_policy p = BestEffortOnFailure
      then concat (map (\<lambda>msk. frontiers ! dp_index msk end n)
             (filter (\<lambda>msk. has_bit msk end \<and> covers_required p msk) [1..<full_mask n + 1]))
      else frontiers ! dp_index (full_mask n) end n)"

definition initial_state :: "objective_policy \<Rightarrow> solver_input \<Rightarrow> initial_service \<Rightarrow> pareto_state" where
  "initial_state obj i initial =
     \<lparr>ps_time_slot = departure_slot initial,
      ps_travel_minutes = 0,
      ps_wait_minutes = initial_wait_minutes initial,
      ps_optional_count = 0,
      ps_optional_priority = 0,
      ps_score = score obj 0 (initial_wait_minutes initial),
      ps_frontier_cost = frontier_cost obj 0 (initial_wait_minutes initial),
      ps_predecessor = None,
      ps_location = start_location_index (input_problem i)\<rparr>"

definition search_at_start :: "objective_policy \<Rightarrow> frontier_policy \<Rightarrow> solver_input \<Rightarrow> u16 \<Rightarrow>
    solver_error + exact_solve_result option" where
  "search_at_start obj dominates i start =
     (case initial_service i start of
        None \<Rightarrow> Inr None
      | Some initial \<Rightarrow>
          let p = input_problem i; n = length (locations p);
              frontiers = (replicate (push_bit n 1 * n) [])[dp_index 1 0 n := [0]]
          in bind_result
            (search_masks obj dominates i start [1..<full_mask n + 1]
               ([initial_state obj i initial], frontiers))
            (\<lambda>(arena, frontiers).
              let key = (\<lambda>s. pareto_metrics (start_policy p) start (arena ! s)) in
              case min_by (\<lambda>l r. compare obj (key l) (key r)) (terminal_ids i frontiers) of
                None \<Rightarrow> Inr None
              | Some best \<Rightarrow>
                  (case trace_back (length arena) arena (Some best) of
                     None \<Rightarrow> Inr None
                   | Some order \<Rightarrow> Inr (Some
                       \<lparr>exact_solution = \<lparr>visit_order = rev order\<rparr>,
                        exact_metrics = key best,
                        exact_stats =
                          \<lparr>generated_states = length arena,
                           frontier_states = sum_list (map length frontiers),
                           frontier_cells = length (filter (\<lambda>c. c \<noteq> []) frontiers)\<rparr>\<rparr>))))"

section \<open>The solver\<close>

definition exact_validate :: "solver_input \<Rightarrow> solver_error + unit" where
  "exact_validate i =
     (let n = length (locations (input_problem i)) in
      if is_cancelled i PollExactValidate then Inl Cancelled
      else if n > exact_max_locations then Inl (UnsupportedLocationCount exact_max_locations n)
      else if n = 0 then Inl NoFeasibleRoute
      else if matrix_size (input_matrix i) \<noteq> n
      then Inl (MatrixSizeMismatch (matrix_size (input_matrix i)) n)
      else Inr ())"

definition search_or_fail :: "objective_policy \<Rightarrow> frontier_policy \<Rightarrow> solver_input \<Rightarrow> u16 \<Rightarrow>
    solver_error + exact_solve_result" where
  "search_or_fail obj dominates i start =
     bind_result (search_at_start obj dominates i start) (ok_or NoFeasibleRoute)"

definition preserves_target :: "objective_policy \<Rightarrow> frontier_policy \<Rightarrow> solver_input \<Rightarrow>
    usize \<times> u32 \<Rightarrow> u16 \<Rightarrow> solver_error + bool" where
  "preserves_target obj dominates i target start =
     bind_result (search_at_start obj dominates i start) (\<lambda>r. Inr (case r of
         None \<Rightarrow> False
       | Some result \<Rightarrow>
           (let c = visited_optional_count (exact_metrics result);
                q = visited_optional_priority (exact_metrics result)
            in c > fst target \<or> (c = fst target \<and> q \<ge> snd target))))"

definition solve_detailed ::
  "objective_policy \<Rightarrow> frontier_policy \<Rightarrow> solver_input \<Rightarrow> solver_error + exact_solve_result" where
  "solve_detailed obj dominates i =
     bind_result (exact_validate i) (\<lambda>_.
       let p = input_problem i; earliest = minutes_to_slot_ceil (minutes (start_time p)) in
       if earliest \<ge> slots_per_day then Inl NoFeasibleRoute
       else let low = as_u16 earliest; high = as_u16 (slots_per_day - 1) in
         if start_policy p = Fixed \<or> start_policy p = Earliest then search_or_fail obj dominates i low
         else if visit_policy p = BestEffortOnFailure then
           bind_result (search_or_fail obj dominates i low) (\<lambda>target.
           let coverage = (visited_optional_count (exact_metrics target),
                           visited_optional_priority (exact_metrics target)) in
           bind_result (try_latest_slot (preserves_target obj dominates i coverage) low high)
             (search_or_fail obj dominates i))
         else
           bind_result (is_feasible_at_start i low) (\<lambda>feasible.
           if \<not> feasible then Inl NoFeasibleRoute
           else bind_result (try_latest_slot (is_feasible_at_start i) low high)
             (search_or_fail obj dominates i)))"

end
