(* ===== verification/Label_Dp.thy ===== *)
theory Label_Dp
  imports Prelude
begin

text \<open>
  The loop structure of a label-setting dynamic program over subsets, independent of what a
  label is: masks in increasing order, the last locations of a mask, the labels of a cell,
  each processed into cells of larger masks. The locales state what one processing step must
  guarantee, and their lemmas what the nested loops then guarantee.
\<close>

locale progress =
  fixes inv :: "'t \<Rightarrow> bool"
    and le :: "'t \<Rightarrow> 't \<Rightarrow> bool"
  assumes le_refl: "le s s"
    and le_trans: "le s t \<Longrightarrow> le t u \<Longrightarrow> le s u"
begin

lemma fold_each:
  assumes "inv s"
    and step: "\<And>x t. x \<in> set xs \<Longrightarrow> inv t \<Longrightarrow> le s t \<Longrightarrow> inv (f x t) \<and> le t (f x t) \<and> fin x (f x t)"
    and stable: "\<And>x t u. x \<in> set xs \<Longrightarrow> inv t \<Longrightarrow> inv u \<Longrightarrow> le s t \<Longrightarrow> le t u \<Longrightarrow> fin x t \<Longrightarrow> fin x u"
  shows "inv (fold f xs s) \<and> le s (fold f xs s) \<and> (\<forall>x\<in>set xs. fin x (fold f xs s))"
  using assms
proof (induction xs rule: rev_induct)
  case Nil
  then show ?case by (simp add: le_refl)
next
  case (snoc x xs)
  let ?t = "fold f xs s"
  have IH: "inv ?t \<and> le s ?t \<and> (\<forall>x\<in>set xs. fin x ?t)"
    by (rule snoc.IH) (use snoc.prems in auto)
  then have st: "inv (f x ?t) \<and> le ?t (f x ?t) \<and> fin x (f x ?t)"
    using snoc.prems(2) [of x ?t] by simp
  have "fin y (f x ?t)" if "y \<in> set xs" for y
    using snoc.prems(3) [of y ?t "f x ?t"] IH st that by simp
  then show ?case using IH st le_trans [of s ?t "f x ?t"] by simp
qed

end

locale relaxation = progress inv le
  for inv :: "'t \<Rightarrow> bool" and le :: "'t \<Rightarrow> 't \<Rightarrow> bool" +
  fixes n :: nat
    and labels :: "'t \<Rightarrow> nat \<Rightarrow> nat \<Rightarrow> 'l list"
    and expand :: "nat \<Rightarrow> nat \<Rightarrow> 'l \<Rightarrow> 't \<Rightarrow> 't"
    and closed :: "nat \<Rightarrow> nat \<Rightarrow> 'l \<Rightarrow> 't \<Rightarrow> bool"
  assumes expand:
      "\<lbrakk>inv t; 0 < m; m < 2 ^ n; j < n; l \<in> set (labels t m j)\<rbrakk> \<Longrightarrow>
        inv (expand m j l t) \<and> le t (expand m j l t) \<and>
        (\<forall>k\<le>m. \<forall>h<n. labels (expand m j l t) k h = labels t k h) \<and>
        closed m j l (expand m j l t)"
    and closed_mono:
      "\<lbrakk>inv t; inv u; le t u; 0 < m; m < 2 ^ n; j < n; l \<in> set (labels t m j); closed m j l t\<rbrakk> \<Longrightarrow>
        closed m j l u"
begin

lemma progress_frozen:
  "progress (\<lambda>s u. le s u \<and> (\<forall>k\<le>m. \<forall>h<n. labels u k h = labels s k h))"
  by unfold_locales (auto simp: le_refl intro: le_trans)

lemma cell_loop:
  assumes "inv t" and m: "0 < m" "m < 2 ^ n" and "j < n"
  defines "t' \<equiv> fold (expand m j) (labels t m j) t"
  shows "inv t' \<and> (le t t' \<and> (\<forall>k\<le>m. \<forall>h<n. labels t' k h = labels t k h)) \<and>
    (\<forall>l\<in>set (labels t m j). closed m j l t')"
  unfolding t'_def
proof (rule progress.fold_each [OF progress_frozen [of m]])
  fix l u
  assume "l \<in> set (labels t m j)" and "inv u"
    and "le t u \<and> (\<forall>k\<le>m. \<forall>h<n. labels u k h = labels t k h)"
  then show "inv (expand m j l u) \<and>
      (le u (expand m j l u) \<and> (\<forall>k\<le>m. \<forall>h<n. labels (expand m j l u) k h = labels u k h)) \<and>
      closed m j l (expand m j l u)"
    using expand [of u m j l] assms by simp
next
  fix l u v
  assume "l \<in> set (labels t m j)" and "inv u" "inv v" and "closed m j l u"
    and "le t u \<and> (\<forall>k\<le>m. \<forall>h<n. labels u k h = labels t k h)"
    and "le u v \<and> (\<forall>k\<le>m. \<forall>h<n. labels v k h = labels u k h)"
  then show "closed m j l v" using closed_mono [of u v m j l] assms by simp
qed (rule assms)

lemma mask_loop:
  assumes "inv t" and m: "0 < m" "m < 2 ^ n"
  defines "t' \<equiv> fold (\<lambda>j u. fold (expand m j) (labels u m j) u) [0..<n] t"
  shows "inv t' \<and> (le t t' \<and> (\<forall>k\<le>m. \<forall>h<n. labels t' k h = labels t k h)) \<and>
    (\<forall>j\<in>set [0..<n]. \<forall>l\<in>set (labels t' m j). closed m j l t')"
  unfolding t'_def
proof (rule progress.fold_each [OF progress_frozen [of m]])
  fix j u
  assume "j \<in> set [0..<n]" and "inv u"
  then show "inv (fold (expand m j) (labels u m j) u) \<and>
      (le u (fold (expand m j) (labels u m j) u) \<and>
       (\<forall>k\<le>m. \<forall>h<n. labels (fold (expand m j) (labels u m j) u) k h = labels u k h)) \<and>
      (\<forall>l\<in>set (labels (fold (expand m j) (labels u m j) u) m j).
         closed m j l (fold (expand m j) (labels u m j) u))"
    using cell_loop [of u m j] m by simp
next
  fix j u v
  assume "j \<in> set [0..<n]" and "inv u" "inv v"
    and "le u v \<and> (\<forall>k\<le>m. \<forall>h<n. labels v k h = labels u k h)"
    and "\<forall>l\<in>set (labels u m j). closed m j l u"
  then show "\<forall>l\<in>set (labels v m j). closed m j l v"
    using closed_mono [of u v m j] m by simp
qed (rule assms)

definition all_closed :: "nat \<Rightarrow> 't \<Rightarrow> bool" where
  "all_closed M t \<longleftrightarrow> (\<forall>m j l. 0 < m \<longrightarrow> m < M \<longrightarrow> j < n \<longrightarrow> l \<in> set (labels t m j) \<longrightarrow> closed m j l t)"

lemma masks_loop:
  assumes "inv t" and "M \<le> 2 ^ n"
  defines "t' \<equiv> fold (\<lambda>m t. fold (\<lambda>j u. fold (expand m j) (labels u m j) u) [0..<n] t) [1..<M] t"
  shows "inv t' \<and> le t t' \<and> all_closed M t'"
  unfolding t'_def using assms(2)
proof (induction M)
  case 0
  then show ?case by (simp add: all_closed_def assms(1) le_refl)
next
  case (Suc M)
  let ?step = "\<lambda>m t. fold (\<lambda>j u. fold (expand m j) (labels u m j) u) [0..<n] t"
  let ?t = "fold ?step [1..<M] t"
  have IH: "inv ?t" "le t ?t" "all_closed M ?t" using Suc by auto
  show ?case
  proof (cases "M = 0")
    case True
    then show ?thesis using IH by (simp add: all_closed_def)
  next
    case False
    have loop: "inv (?step M ?t)" "le ?t (?step M ?t)"
      "\<forall>k\<le>M. \<forall>h<n. labels (?step M ?t) k h = labels ?t k h"
      "\<forall>j<n. \<forall>l\<in>set (labels (?step M ?t) M j). closed M j l (?step M ?t)"
      using mask_loop [OF IH(1), of M] False Suc.prems by auto
    have "closed m j l (?step M ?t)"
      if "0 < m" "m < Suc M" "j < n" "l \<in> set (labels (?step M ?t) m j)" for m j l
    proof (cases "m = M")
      case True
      then show ?thesis using loop(4) that by simp
    next
      case False
      then have "m < M" using that by simp
      moreover have "l \<in> set (labels ?t m j)" using that loop(3) \<open>m < M\<close> by simp
      ultimately show ?thesis
        using closed_mono [OF IH(1) loop(1,2), of m j l] IH(3) that Suc.prems by (simp add: all_closed_def)
    qed
    then have "all_closed (Suc M) (?step M ?t)" by (simp add: all_closed_def)
    then show ?thesis using False loop(1) le_trans [OF IH(2) loop(2)] by simp
  qed
qed

end

end
