(* ===== verification/Exact_Masks.thy ===== *)
theory Exact_Masks
  imports Exact_Dp Label_Dp
begin

text \<open>
  Masks as sets, the addressing of cells, and the partial routes a cell stands for.
\<close>

section \<open>Masks as sets of bits\<close>

lemma has_bit_iff [simp]: "has_bit m k \<longleftrightarrow> bit m k"
  by (simp add: has_bit_def push_bit_of_1 and_exp_eq_0_iff_not_bit)

lemma bit_with_bit [simp]: "bit (with_bit m k) j \<longleftrightarrow> bit m j \<or> j = k"
  by (auto simp: with_bit_def push_bit_of_1 bit_or_iff bit_exp_iff)

lemma with_bit_add: "\<not> bit m k \<Longrightarrow> with_bit m k = m + 2 ^ k"
  unfolding with_bit_def push_bit_of_1
  by (rule disjunctive_add_eq_or [symmetric]) (simp add: and_exp_eq_0_iff_not_bit)

lemma with_bit_greater: "\<not> bit m k \<Longrightarrow> m < with_bit m k"
  by (simp add: with_bit_add)

lemma less_exp_iff_bits: "(m :: nat) < 2 ^ n \<longleftrightarrow> (\<forall>k\<ge>n. \<not> bit m k)"
proof
  assume "m < 2 ^ n"
  then have eq: "take_bit n m = m" by (simp add: take_bit_nat_eq_self)
  have "\<not> bit (take_bit n m) k" if "n \<le> k" for k using that by (simp add: bit_take_bit_iff)
  then show "\<forall>k\<ge>n. \<not> bit m k" unfolding eq by blast
next
  assume high: "\<forall>k\<ge>n. \<not> bit m k"
  have "bit (take_bit n m) k = bit m k" for k
    unfolding bit_take_bit_iff using high not_le by blast
  then have "take_bit n m = m" by (intro bit_eqI)
  moreover have "take_bit n m < 2 ^ n" by simp
  ultimately show "m < 2 ^ n" by simp
qed

lemma with_bit_less: "m < 2 ^ n \<Longrightarrow> k < n \<Longrightarrow> with_bit m k < 2 ^ n"
  by (auto simp: less_exp_iff_bits)

lemma full_mask_eq: "full_mask n = 2 ^ n - 1"
  by (simp add: full_mask_def push_bit_of_1)

lemma bit_full_mask [simp]: "bit (full_mask n) k \<longleftrightarrow> k < n"
  using bit_mask_iff [where ?'a = nat, of n k] unfolding mask_eq_exp_minus_1 full_mask_eq by simp

lemma full_mask_less: "full_mask n < 2 ^ n"
  by (simp add: full_mask_eq)

definition mask_of :: "nat list \<Rightarrow> nat" where
  "mask_of ls = foldl with_bit 0 ls"

lemma mask_of_snoc [simp]: "mask_of (ls @ [k]) = with_bit (mask_of ls) k"
  by (simp add: mask_of_def)

lemma bit_mask_of [simp]: "bit (mask_of ls) k \<longleftrightarrow> k \<in> set ls"
  by (induction ls rule: rev_induct) (auto simp: mask_of_def)

lemma mask_of_singleton: "mask_of [0] = 1"
  by (simp add: mask_of_def with_bit_def)

lemma mask_of_less: "set ls \<subseteq> {..<n} \<Longrightarrow> mask_of ls < 2 ^ n"
  by (auto simp: less_exp_iff_bits)

lemma mask_of_pos: "ls \<noteq> [] \<Longrightarrow> 0 < mask_of ls"
  by (metis bit_mask_of bit_0_eq bot_nat_0.not_eq_extremum hd_in_set bot_apply bot_bool_def)

lemma mask_of_full: "set ls \<subseteq> {..<n} \<Longrightarrow> mask_of ls = full_mask n \<longleftrightarrow> set ls = {..<n}"
  by (auto simp: bit_eq_iff)

lemma mask_of_eq_iff: "mask_of ls = mask_of ks \<longleftrightarrow> set ls = set ks"
  by (auto simp: bit_eq_iff)

section \<open>Cell addresses\<close>

lemma dp_index_less: "m < 2 ^ n \<Longrightarrow> j < n \<Longrightarrow> dp_index m j n < 2 ^ n * n"
proof -
  assume "m < 2 ^ n" and j: "j < n"
  then have "Suc m * n \<le> 2 ^ n * n" by (intro mult_right_mono) auto
  with j show ?thesis by (simp add: dp_index_def)
qed

lemma two_cells: "1 < n \<Longrightarrow> 1 < (2 :: nat) ^ n"
  by (rule one_less_power) auto

lemma dp_index_eq_iff:
  assumes "j < n" and "j' < n"
  shows "dp_index m j n = dp_index m' j' n \<longleftrightarrow> m = m' \<and> j = j'"
proof
  assume eq: "dp_index m j n = dp_index m' j' n"
  have "m = dp_index m j n div n" "j = dp_index m j n mod n"
    "m' = dp_index m' j' n div n" "j' = dp_index m' j' n mod n"
    using assms by (simp_all add: dp_index_def)
  with eq show "m = m' \<and> j = j'" by metis
qed simp

section \<open>Partial routes\<close>

text \<open>
  The route of a cell: it starts at the first location, repeats nothing, and stops at the
  destination only when the visited set may end there.
\<close>

definition partial_route :: "optimization_problem \<Rightarrow> (nat \<Rightarrow> bool) \<Rightarrow> nat list \<Rightarrow> bool" where
  "partial_route p may_end ls \<longleftrightarrow>
     (let n = length (locations p) in
      ls \<noteq> [] \<and> hd ls = 0 \<and> distinct ls \<and> set ls \<subseteq> {..<n} \<and> n - 1 \<notin> set (butlast ls) \<and>
      (List.last ls = n - 1 \<longrightarrow> may_end (mask_of ls)))"

lemma partial_route_single:
  "1 < length (locations p) \<Longrightarrow> partial_route p may_end [0]"
  by (auto simp: partial_route_def Let_def)

lemma partial_route_snoc:
  assumes "ls \<noteq> []"
  shows "partial_route p may_end (ls @ [x]) \<longleftrightarrow>
    partial_route p may_end ls \<and> List.last ls \<noteq> length (locations p) - 1 \<and> x \<notin> set ls \<and>
    x < length (locations p) \<and>
    (x = length (locations p) - 1 \<longrightarrow> may_end (with_bit (mask_of ls) x))"
proof -
  have "set ls = insert (List.last ls) (set (butlast ls))"
    using assms by (metis append_butlast_last_id list.simps(15) rotate1.simps(2) set_rotate1)
  then show ?thesis using assms by (auto simp: partial_route_def Let_def)
qed

lemma partial_route_cell:
  assumes "partial_route p may_end ls"
  shows "mask_of ls < 2 ^ length (locations p)" and "List.last ls < length (locations p)"
    and "ls \<noteq> []" and "0 \<in> set ls" and "List.last ls \<in> set ls" and "0 < mask_of ls"
  using assms mask_of_pos [of ls]
  by (auto simp: partial_route_def Let_def mask_of_less dest: last_in_set hd_in_set)

lemma route_walk_snoc:
  assumes "ls \<noteq> []"
  shows "route_walk p m (ls @ [x]) s = Some (f, r, w) \<longleftrightarrow>
    (\<exists>f0 r0 w0 d w1. route_walk p m ls s = Some (f0, r0, w0) \<and>
      travel_minutes m (List.last ls) x = Some d \<and> serve (locations p ! x) (f0 + d) = Some (w1, f) \<and>
      r = r0 + d \<and> w = w0 + w1)"
proof -
  obtain ys a where ls: "ls = ys @ [a]" using assms by (metis rev_exhaust)
  show ?thesis
    by (auto simp: route_walk_def ls walk_snoc walk_step split: option.splits)
qed

lemma route_walk_single:
  "route_walk p m [0] s = map_option (\<lambda>(w, f). (f, 0, w)) (serve (locations p ! 0) s)"
  by (auto simp: route_walk_def split: option.splits)

end
