(* ===== verification/Exact_Search.thy ===== *)
theory Exact_Search
  imports Exact_Masks "HOL-Library.Multiset"
begin

text \<open>
  The Pareto search of the exact solver under the default objective. Each arena state stands
  for a partial route, spelled by its predecessor links; a cell keeps the states no other
  state of the cell dominates. The search is the second instance of the subset dynamic
  program of \<open>Label_Dp\<close>, with the ids of the arena as labels.
\<close>

section \<open>Dominance\<close>

text \<open>
  The clock of a state, its finish, travel and wait, and when one clock is at least as good as
  another: it finishes no later, and has less travel or no more wait after absorbing the delay.
\<close>

definition clock :: "pareto_state \<Rightarrow> nat \<times> nat \<times> nat" where
  "clock s = (ps_time_slot s, ps_travel_minutes s, ps_wait_minutes s)"

fun beats :: "nat \<times> nat \<times> nat \<Rightarrow> nat \<times> nat \<times> nat \<Rightarrow> bool" where
  "beats (t1, r1, w1) (t2, r2, w2) \<longleftrightarrow>
     t1 \<le> t2 \<and> (r1 < r2 \<or> (r1 = r2 \<and> w1 + (t2 - t1) \<le> w2))"

lemma beats_refl: "beats c c"
  by (cases c) auto

lemma beats_trans: "beats a b \<Longrightarrow> beats b c \<Longrightarrow> beats a c"
  by (cases a; cases b; cases c) auto

text \<open>Serving one more location keeps the better clock better.\<close>

lemma beats_serve:
  assumes "beats (t1, r1, w1) (t2, r2, w2)" and "serve l (t2 + d) = Some (v2, f2)"
  obtains v1 f1 where "serve l (t1 + d) = Some (v1, f1)"
    and "beats (f1, r1 + d, w1 + v1) (f2, r2 + d, w2 + v2)"
proof -
  have le: "t1 + d \<le> t2 + d" using assms(1) by simp
  obtain v1 f1 where "serve l (t1 + d) = Some (v1, f1)" "f1 \<le> f2" "v1 + (f2 - f1) = v2 + (t2 + d - (t1 + d))"
    using serve_mono [OF assms(2) le] by blast
  then show thesis using that assms(1) by auto
qed

text \<open>A state whose clock is a reachable minute of the day and whose frontier cost is the packed pair.\<close>

definition sane :: "pareto_state \<Rightarrow> bool" where
  "sane s \<longleftrightarrow> ps_time_slot s < 1440 \<and> ps_travel_minutes s + ps_wait_minutes s \<le> ps_time_slot s \<and>
     ps_frontier_cost s = default_frontier_cost (ps_travel_minutes s) (ps_wait_minutes s)"

lemma packed_le:
  assumes "w1 < 2 ^ 32" and "w2 < (2::nat) ^ 32"
  shows "r1 * 2 ^ 32 + w1 \<le> r2 * 2 ^ 32 + w2 \<longleftrightarrow> r1 < r2 \<or> (r1 = r2 \<and> w1 \<le> w2)"
proof -
  have "r1 * 2 ^ 32 + w1 < r2 * 2 ^ 32 + w2" if "r1 < r2"
  proof -
    have "Suc r1 * 2 ^ 32 \<le> r2 * 2 ^ 32" using that by (intro mult_right_mono) auto
    then show ?thesis using assms by simp
  qed
  moreover have "r2 * 2 ^ 32 + w2 < r1 * 2 ^ 32 + w1" if "r2 < r1"
  proof -
    have "Suc r2 * 2 ^ 32 \<le> r1 * 2 ^ 32" using that by (intro mult_right_mono) auto
    then show ?thesis using assms by simp
  qed
  ultimately show ?thesis
    by (cases r1 r2 rule: linorder_cases) (fastforce dest: leD)+
qed

lemma dominates_beats:
  assumes a: "sane a" and b: "sane b"
  shows "time_cost_dominates (frontier_point a) (frontier_point b) \<longleftrightarrow> beats (clock a) (clock b)"
proof (cases "ps_time_slot a \<le> ps_time_slot b")
  case False
  then show ?thesis by (simp add: time_cost_dominates_def frontier_point_def clock_def)
next
  case True
  define t r1 w1 r2 w2 where defs: "t = ps_time_slot b - ps_time_slot a"
    "r1 = ps_travel_minutes a" "w1 = ps_wait_minutes a"
    "r2 = ps_travel_minutes b" "w2 = ps_wait_minutes b"
  have small: "w1 + t < 2 ^ 32" "w2 < 2 ^ 32" "w1 < 2 ^ 32" "r1 < 1440"
    using a b by (auto simp: sane_def defs)
  have costs: "ps_frontier_cost a = r1 * 2 ^ 32 + w1" "ps_frontier_cost b = r2 * 2 ^ 32 + w2"
    using a b small by (simp_all add: sane_def default_frontier_cost_eq defs(2-))
  have "r1 * 2 ^ 32 + w1 + t < 2 ^ 64" using small by simp
  then show ?thesis
    using True packed_le [OF small(1,2), of r1 r2]
    by (simp add: time_cost_dominates_def frontier_point_def clock_def costs checked_add_u64_def
        defs [symmetric] add.assoc)
qed

declare beats.simps [simp del]

section \<open>Which masks may end\<close>

lemma bit_required_mask:
  "bit (required_mask p) k \<longleftrightarrow> k < length (locations p) \<and> required (locations p ! k)"
proof -
  have "bit (fold (\<lambda>k msk. if required (locations p ! k) then with_bit msk k else msk) ks m) j \<longleftrightarrow>
      bit m j \<or> (j \<in> set ks \<and> required (locations p ! j))" for ks m j
    by (induction ks arbitrary: m) auto
  then show ?thesis by (simp add: required_mask_def)
qed

lemma covers_required_iff:
  "covers_required p m \<longleftrightarrow> (\<forall>k<length (locations p). required (locations p ! k) \<longrightarrow> bit m k)"
  by (auto simp: covers_required_def bit_eq_iff bit_and_iff bit_required_mask)

definition may_end :: "optimization_problem \<Rightarrow> nat \<Rightarrow> bool" where
  "may_end p m \<longleftrightarrow> covers_required p m \<and>
     (visit_policy p = BestEffortOnFailure \<or> m = full_mask (length (locations p)))"

lemma policy_cases: "visit_policy p \<noteq> BestEffortOnFailure \<longleftrightarrow> visit_policy p = AllRequired"
  by (cases "visit_policy p") auto

text \<open>A valid order is a partial route that stopped at the destination.\<close>

lemma valid_order_partial:
  assumes "0 < length (locations p)"
  shows "valid_order p ls \<longleftrightarrow>
    partial_route p (may_end p) ls \<and> List.last ls = length (locations p) - 1"
proof -
  let ?n = "length (locations p)"
  have "?n - 1 \<notin> set (butlast ls)" if "distinct ls" "ls \<noteq> []" "List.last ls = ?n - 1"
    using that by (metis append_butlast_last_id distinct_butlast not_distinct_conv_prefix)
  moreover have "may_end p (mask_of ls) \<longleftrightarrow> (\<forall>k<?n. required (locations p ! k) \<longrightarrow> k \<in> set ls) \<and>
      (visit_policy p = AllRequired \<longrightarrow> set ls = {..<?n})" if "set ls \<subseteq> {..<?n}"
    using mask_of_full [OF that] policy_cases [of p] by (auto simp: may_end_def covers_required_iff)
  ultimately show ?thesis
    by (auto simp: valid_order_def partial_route_def Let_def)
qed

section \<open>What a state stands for\<close>

definition coverage_count :: "optimization_problem \<Rightarrow> nat list \<Rightarrow> nat" where
  "coverage_count p ls = length (optional_visits p (tl ls))"

definition coverage_priority :: "optimization_problem \<Rightarrow> nat list \<Rightarrow> nat" where
  "coverage_priority p ls = sum_list (map (\<lambda>k. priority (locations p ! k)) (optional_visits p (tl ls)))"

definition stands_for :: "solver_input \<Rightarrow> u16 \<Rightarrow> pareto_state \<Rightarrow> nat list \<Rightarrow> bool" where
  "stands_for i start s ls \<longleftrightarrow> (let p = input_problem i in
     partial_route p (may_end p) ls \<and>
     route_walk p (input_matrix i) ls start = Some (clock s) \<and>
     ps_location s = List.last ls \<and>
     ps_optional_count s = coverage_count p ls \<and>
     ps_optional_priority s = coverage_priority p ls \<and>
     ps_score s = default_score (ps_travel_minutes s) (ps_wait_minutes s) \<and>
     ps_frontier_cost s = default_frontier_cost (ps_travel_minutes s) (ps_wait_minutes s))"

text \<open>The predecessor links of a state spell the route backwards.\<close>

primrec spells :: "pareto_state list \<Rightarrow> nat \<Rightarrow> nat list \<Rightarrow> bool" where
  "spells A k [] \<longleftrightarrow> False"
| "spells A k (x # rs) \<longleftrightarrow> k < length A \<and> ps_location (A ! k) = x \<and>
     (case ps_predecessor (A ! k) of None \<Rightarrow> rs = [] | Some q \<Rightarrow> q < k \<and> spells A q rs)"

lemma spells_append: "spells A k rs \<Longrightarrow> spells (A @ B) k rs"
  by (induction rs arbitrary: k) (auto simp: nth_append split: option.splits)

lemma spells_bound: "spells A k rs \<Longrightarrow> k < length A"
  by (cases rs) auto

lemma spells_length: "spells A k rs \<Longrightarrow> length rs \<le> Suc k"
proof (induction rs arbitrary: k)
  case (Cons x rs)
  then show ?case by (fastforce split: option.splits)
qed simp

lemma trace_back_spells:
  "spells A k rs \<Longrightarrow> length rs \<le> fuel \<Longrightarrow> trace_back fuel A (Some k) = Some rs"
proof (induction rs arbitrary: k fuel)
  case (Cons x rs)
  then obtain f where "fuel = Suc f" by (cases fuel) auto
  then show ?case using Cons by (auto split: option.splits)
qed simp

text \<open>As much fuel as there are states is enough.\<close>

lemma trace_back_total: "spells A k rs \<Longrightarrow> trace_back (length A) A (Some k) = Some rs"
  using trace_back_spells spells_length spells_bound by (meson Suc_leI le_trans)

lemma stands_for_sane:
  assumes "wf_input i" and "stands_for i start s ls"
  shows "sane s"
proof -
  let ?p = "input_problem i"
  have rw: "route_walk ?p (input_matrix i) ls start = Some (clock s)"
    and sub: "set ls \<subseteq> {..<length (locations ?p)}"
    using assms(2) by (auto simp: stands_for_def partial_route_def Let_def)
  have "ps_time_slot s < 1440"
    using route_walk_before_midnight [OF _ sub] rw assms(1) by (simp add: clock_def wf_input_def)
  then show ?thesis
    using route_walk_grows [of ?p "input_matrix i" ls start] rw assms(2)
    by (simp add: sane_def stands_for_def Let_def clock_def)
qed

section \<open>One transition\<close>

lemma pareto_transition_serve:
  assumes "wf_location (locations (input_problem i) ! x)" and "sane s"
    and "ps_optional_priority s + 255 < 2 ^ 32"
  defines "l \<equiv> locations (input_problem i) ! x"
  shows "pareto_transition obj i s q x =
    (case travel_minutes (input_matrix i) (ps_location s) x of
       None \<Rightarrow> None
     | Some d \<Rightarrow> map_option (\<lambda>(w, f).
         \<lparr>ps_time_slot = f,
          ps_travel_minutes = ps_travel_minutes s + d,
          ps_wait_minutes = ps_wait_minutes s + w,
          ps_optional_count = ps_optional_count s + of_bool (\<not> required l),
          ps_optional_priority = ps_optional_priority s + (if required l then 0 else priority l),
          ps_score = score obj (ps_travel_minutes s + d) (ps_wait_minutes s + w),
          ps_frontier_cost = frontier_cost obj (ps_travel_minutes s + d) (ps_wait_minutes s + w),
          ps_predecessor = Some q,
          ps_location = x\<rparr>) (serve l (ps_time_slot s + d)))"
proof (cases "travel_minutes (input_matrix i) (ps_location s) x")
  case None
  then show ?thesis by (simp add: pareto_transition_def)
next
  case (Some d)
  define t where "t = ps_time_slot s"
  define ss where "ss = max (t + d) (minutes (window_open (time_window l)))"
  show ?thesis
  proof (cases "serve l (t + d)")
    case None
    then have "minutes (window_close (time_window l)) < ss + stay_minutes l"
      by (auto simp: serve_def ss_def Let_def split: if_splits)
    then have "pareto_transition obj i s q x \<noteq> Some c" for c
      using Some
      by (auto simp: pareto_transition_def Let_def bind_eq_Some_conv ss_def t_def l_def split: if_splits)
    then have "pareto_transition obj i s q x = None" using not_None_eq by blast
    then show ?thesis using Some None by (simp add: t_def)
  next
    case (Some wf)
    then obtain w f where sv: "serve l (t + d) = Some (w, f)" by (cases wf) auto
    have f: "f < 1440" using serve_before_midnight [OF assms(1)] sv by (simp add: l_def)
    have ss: "w = ss - (t + d)" "f = ss + stay_minutes l"
      "f \<le> minutes (window_close (time_window l))"
      using sv by (auto simp: serve_Some ss_def)
    have small: "ps_travel_minutes s + d + (ps_wait_minutes s + w) \<le> f"
      using serve_after [OF sv] assms(2) by (simp add: sane_def t_def)
    have "t + d \<le> ss" by (simp add: ss_def)
    moreover have "ps_optional_priority s + (if required l then 0 else priority l) < 2 ^ 32"
      using assms(1,3) by (simp add: l_def wf_location_def)
    ultimately have exact: "checked_add_u32 (ps_travel_minutes s) d = Some (ps_travel_minutes s + d)"
      "checked_add_u32 t d = Some (t + d)" "checked_mul_u32 (ss - (t + d)) (Suc 0) = Some w"
      "checked_add_u32 (ps_wait_minutes s) w = Some (ps_wait_minutes s + w)"
      "checked_add_u32 ss (stay_minutes l) = Some f"
      "checked_add_u32 (ps_optional_priority s) (if \<not> required l then priority l else 0) =
        Some (ps_optional_priority s + (if required l then 0 else priority l))"
      using ss small f by (auto simp add: checked_mul_u32_def)
    show ?thesis
      using \<open>travel_minutes (input_matrix i) (ps_location s) x = Some d\<close> ss(3) f sv
      by (simp add: pareto_transition_def Let_def exact l_def [symmetric] t_def [symmetric]
          ss_def [symmetric] del: checked_mul_u32_one checked_add_u32_Some)
  qed
qed

lemma coverage_snoc:
  assumes "ls \<noteq> []"
  shows "coverage_count p (ls @ [x]) = coverage_count p ls + of_bool (\<not> required (locations p ! x))"
    and "coverage_priority p (ls @ [x]) =
      coverage_priority p ls + (if required (locations p ! x) then 0 else priority (locations p ! x))"
  using assms by (simp_all add: coverage_count_def coverage_priority_def optional_visits_def)

lemma set_tl_subset: "set (tl ls) \<subseteq> set ls"
  by (cases ls) auto

lemma coverage_priority_bound:
  assumes "wf_problem p" and "partial_route p e ls" and "length (locations p) \<le> 15"
  shows "coverage_priority p ls + 255 < 2 ^ 32"
proof -
  have ls: "distinct ls" "set ls \<subseteq> {..<length (locations p)}"
    using assms(2) by (auto simp: partial_route_def Let_def)
  then have "length ls \<le> 15"
    using assms(3) card_mono [of "{..<length (locations p)}" "set ls"] by (simp add: distinct_card)
  then have len: "length (optional_visits p (tl ls)) \<le> 15"
    unfolding optional_visits_def
    using length_filter_le [of "\<lambda>k. \<not> required (locations p ! k)" "tl ls"] length_tl [of ls] by linarith
  have "sum_list (map (\<lambda>k. priority (locations p ! k)) xs) \<le> length xs * 255"
    if "set xs \<subseteq> {..<length (locations p)}" for xs
    using that
  proof (induction xs)
    case (Cons x xs)
    have "priority (locations p ! x) < 2 ^ 8"
      using wf_problem_nth [OF assms(1)] Cons.prems by (simp add: wf_location_def)
    then show ?case using Cons by simp
  qed simp
  moreover have "set (optional_visits p (tl ls)) \<subseteq> {..<length (locations p)}"
    using ls(2) set_tl_subset [of ls] by (auto simp: optional_visits_def)
  ultimately have "coverage_priority p ls \<le> length (optional_visits p (tl ls)) * 255"
    unfolding coverage_priority_def by blast
  also have "\<dots> \<le> 15 * 255" using len by (intro mult_right_mono) auto
  finally show ?thesis by simp
qed

definition next_allowed :: "optimization_problem \<Rightarrow> nat \<Rightarrow> nat \<Rightarrow> nat \<Rightarrow> bool" where
  "next_allowed p m j x \<longleftrightarrow> (let n = length (locations p) in
     j \<noteq> n - 1 \<and> 0 < x \<and> x < n \<and> \<not> bit m x \<and> (x = n - 1 \<longrightarrow> may_end p (with_bit m x)))"

definition search_input :: "solver_input \<Rightarrow> bool" where
  "search_input i \<longleftrightarrow> wf_input i \<and> length (locations (input_problem i)) \<le> 15"

lemma transition_stands_for:
  assumes "search_input i" and s: "stands_for i start s ls"
    and al: "next_allowed (input_problem i) (mask_of ls) (List.last ls) x"
    and c: "pareto_transition default_objective i s q x = Some c"
  shows "stands_for i start c (ls @ [x])" and "ps_predecessor c = Some q" and "ps_location c = x"
proof -
  let ?p = "input_problem i"
  have pr: "partial_route ?p (may_end ?p) ls" and loc: "ps_location s = List.last ls"
    and prio: "ps_optional_priority s = coverage_priority ?p ls"
    using s by (auto simp: stands_for_def Let_def)
  have ne: "ls \<noteq> []" by (rule partial_route_cell(3) [OF pr])
  have wf: "wf_input i" "wf_problem ?p" "wf_location (locations ?p ! x)"
    using assms(1) al by (auto simp: search_input_def wf_input_def next_allowed_def Let_def wf_problem_nth)
  have "ps_optional_priority s + 255 < 2 ^ 32"
    using coverage_priority_bound [OF wf(2) pr] assms(1) prio by (simp add: search_input_def)
  note tr = pareto_transition_serve [OF wf(3) stands_for_sane [OF wf(1) s] this,
      of default_objective q]
  have "partial_route ?p (may_end ?p) (ls @ [x])"
    using pr al by (simp add: partial_route_snoc [OF ne] next_allowed_def Let_def)
  then show "stands_for i start c (ls @ [x])" "ps_predecessor c = Some q" "ps_location c = x"
    using c s loc unfolding tr
    by (auto simp: stands_for_def Let_def clock_def route_walk_snoc [OF ne] coverage_snoc [OF ne]
        split: option.splits)
qed

section \<open>Invariant and progress of the search\<close>

text \<open>What an id in a cell is: an arena state that stands for the route its links spell.\<close>

definition in_cell :: "solver_input \<Rightarrow> u16 \<Rightarrow> pareto_state list \<Rightarrow> nat \<Rightarrow> nat \<Rightarrow> nat \<Rightarrow> bool" where
  "in_cell i start A m j e \<longleftrightarrow> (\<exists>ls. spells A e (rev ls) \<and> stands_for i start (A ! e) ls \<and>
     mask_of ls = m \<and> List.last ls = j)"

definition search_ok :: "solver_input \<Rightarrow> u16 \<Rightarrow> search_state \<Rightarrow> bool" where
  "search_ok i start st \<longleftrightarrow> (let n = length (locations (input_problem i)) in
     search_input i \<and> length (snd st) = 2 ^ n * n \<and>
     (\<forall>m j e. m < 2 ^ n \<longrightarrow> j < n \<longrightarrow> e \<in> set (snd st ! dp_index m j n) \<longrightarrow> in_cell i start (fst st) m j e))"

definition search_le :: "search_state \<Rightarrow> search_state \<Rightarrow> bool" where
  "search_le st st' \<longleftrightarrow> length (snd st') = length (snd st) \<and> (\<exists>B. fst st' = fst st @ B) \<and>
     (\<forall>c e. c < length (snd st) \<longrightarrow> e \<in> set (snd st ! c) \<longrightarrow>
       (\<exists>e'\<in>set (snd st' ! c). beats (clock (fst st' ! e')) (clock (fst st ! e))))"

definition search_labels :: "solver_input \<Rightarrow> search_state \<Rightarrow> nat \<Rightarrow> nat \<Rightarrow> nat list" where
  "search_labels i st m j =
     (if has_bit m j then snd st ! dp_index m j (length (locations (input_problem i))) else [])"

definition beaten_in :: "search_state \<Rightarrow> nat \<Rightarrow> nat \<times> nat \<times> nat \<Rightarrow> bool" where
  "beaten_in st cell c \<longleftrightarrow> (\<exists>e\<in>set (snd st ! cell). beats (clock (fst st ! e)) c)"

definition explored :: "solver_input \<Rightarrow> nat \<Rightarrow> nat \<Rightarrow> nat \<Rightarrow> nat \<Rightarrow> search_state \<Rightarrow> bool" where
  "explored i m j e x st \<longleftrightarrow>
     (\<forall>c. next_allowed (input_problem i) m j x \<longrightarrow>
       pareto_transition default_objective i (fst st ! e) e x = Some c \<longrightarrow>
       beaten_in st (dp_index (with_bit m x) x (length (locations (input_problem i)))) (clock c))"

definition all_explored :: "solver_input \<Rightarrow> nat \<Rightarrow> nat \<Rightarrow> nat \<Rightarrow> search_state \<Rightarrow> bool" where
  "all_explored i m j e st \<longleftrightarrow> (\<forall>x. explored i m j e x st)"

lemma search_le_refl: "search_le st st"
  by (auto simp: search_le_def intro: beats_refl)

lemma search_le_trans: "search_le s t \<Longrightarrow> search_le t u \<Longrightarrow> search_le s u"
proof -
  assume st: "search_le s t" and tu: "search_le t u"
  have "\<exists>B. fst u = fst s @ B" using st tu unfolding search_le_def by (metis append.assoc)
  moreover have "\<exists>e'\<in>set (snd u ! c). beats (clock (fst u ! e')) (clock (fst s ! e))"
    if ce: "c < length (snd s)" "e \<in> set (snd s ! c)" for c e
  proof -
    obtain e1 where 1: "e1 \<in> set (snd t ! c)" "beats (clock (fst t ! e1)) (clock (fst s ! e))"
      using st ce unfolding search_le_def by blast
    moreover obtain e2 where "e2 \<in> set (snd u ! c)" "beats (clock (fst u ! e2)) (clock (fst t ! e1))"
      using st tu ce(1) 1(1) unfolding search_le_def by metis
    ultimately show ?thesis using beats_trans by blast
  qed
  ultimately show ?thesis using st tu by (auto simp: search_le_def)
qed

lemma search_le_nth: "search_le st st' \<Longrightarrow> e < length (fst st) \<Longrightarrow> fst st' ! e = fst st ! e"
  by (auto simp: search_le_def nth_append)

lemma beaten_in_le:
  "beaten_in st cell c \<Longrightarrow> search_le st st' \<Longrightarrow> cell < length (snd st) \<Longrightarrow> beaten_in st' cell c"
  unfolding beaten_in_def search_le_def by (meson beats_trans)

lemma in_cell_append: "in_cell i start A m j e \<Longrightarrow> in_cell i start (A @ B) m j e"
proof -
  assume "in_cell i start A m j e"
  then obtain ls where ls: "spells A e (rev ls)" "stands_for i start (A ! e) ls"
    "mask_of ls = m" "List.last ls = j" by (auto simp: in_cell_def)
  have "(A @ B) ! e = A ! e" using spells_bound [OF ls(1)] by (simp add: nth_append)
  then show ?thesis unfolding in_cell_def using ls spells_append [OF ls(1), of B] by metis
qed

lemma in_cell_sane: "search_input i \<Longrightarrow> in_cell i start A m j e \<Longrightarrow> sane (A ! e) \<and> e < length A"
  using spells_bound stands_for_sane by (auto simp: in_cell_def search_input_def)

text \<open>Inserting a candidate that stands for a route of the cell.\<close>

lemma insert_candidate_step:
  fixes i start ls x c
  defines "n \<equiv> length (locations (input_problem i))"
  assumes ok: "search_ok i start (A, F)" and c: "stands_for i start c (ls @ [x])"
    and link: "ps_predecessor c = Some q" "spells A q (rev ls)" "ps_location c = x" and x: "x \<notin> set ls"
  defines "m \<equiv> mask_of (ls @ [x])"
  defines "st' \<equiv> insert_candidate time_cost_dominates (dp_index m x n) c (A, F)"
  shows "search_ok i start st'" and "search_le (A, F) st'"
    and "beaten_in st' (dp_index m x n) (clock c)"
    and "k \<le> mask_of ls \<Longrightarrow> h < n \<Longrightarrow> search_labels i st' k h = search_labels i (A, F) k h"
proof -
  let ?c = "dp_index m x n"
  have si: "search_input i" and len: "length F = 2 ^ n * n"
    and cells: "\<And>k h e. k < 2 ^ n \<Longrightarrow> h < n \<Longrightarrow> e \<in> set (F ! dp_index k h n) \<Longrightarrow> in_cell i start A k h e"
    using ok by (auto simp: search_ok_def Let_def n_def)
  have pr: "partial_route (input_problem i) (may_end (input_problem i)) (ls @ [x])"
    using c by (simp add: stands_for_def Let_def)
  have m: "m < 2 ^ n" and xn: "x < n"
    using partial_route_cell(1,2) [OF pr] by (simp_all add: m_def n_def)
  have cell: "?c < length F" using dp_index_less [OF m xn] len by simp
  have sc: "sane c" using stands_for_sane [OF _ c] si by (simp add: search_input_def)
  have dom: "time_cost_dominates (frontier_point (A ! e)) (frontier_point c) \<longleftrightarrow> beats (clock (A ! e)) (clock c)"
    "time_cost_dominates (frontier_point c) (frontier_point (A ! e)) \<longleftrightarrow> beats (clock c) (clock (A ! e))"
    if "e \<in> set (F ! ?c)" for e
    using dominates_beats sc in_cell_sane [OF si cells [OF m xn that]] by blast+
  have "search_ok i start st' \<and> search_le (A, F) st' \<and> beaten_in st' ?c (clock c) \<and>
    (k \<le> mask_of ls \<longrightarrow> h < n \<longrightarrow> search_labels i st' k h = search_labels i (A, F) k h)"
  proof (cases "\<exists>e\<in>set (F ! ?c). time_cost_dominates (frontier_point (A ! e)) (frontier_point c)")
    case True
    then have "st' = (A, F)" by (simp add: st'_def insert_candidate_def Let_def)
    moreover have "beaten_in (A, F) ?c (clock c)" using True dom by (auto simp: beaten_in_def)
    ultimately show ?thesis using ok search_le_refl by blast
  next
    case False
    define kept where "kept = filter (\<lambda>e. \<not> time_cost_dominates (frontier_point c) (frontier_point (A ! e))) (F ! ?c)"
    have st': "st' = (A @ [c], F[?c := kept @ [length A]])"
      using False by (simp add: st'_def insert_candidate_def Let_def kept_def)
    have "q < length A" by (rule spells_bound [OF link(2)])
    then have "spells (A @ [c]) (length A) (rev (ls @ [x]))"
      using link spells_append [OF link(2), of "[c]"] by (simp add: nth_append)
    then have new: "in_cell i start (A @ [c]) m x (length A)"
      using c unfolding in_cell_def m_def by (intro exI [of _ "ls @ [x]"]) (simp add: nth_append)
    have kept: "set kept \<subseteq> set (F ! ?c)" by (auto simp: kept_def)
    have "in_cell i start (A @ [c]) k h e"
      if "k < 2 ^ n" "h < n" "e \<in> set (F[?c := kept @ [length A]] ! dp_index k h n)" for k h e
    proof (cases "dp_index k h n = ?c")
      case True
      then have "k = m \<and> h = x" using dp_index_eq_iff [OF that(2) xn] by simp
      then show ?thesis
        using that(3) cell new kept cells [OF m xn] in_cell_append [of i start A] by auto
    next
      case False
      then show ?thesis using that cells in_cell_append [of i start A] by auto
    qed
    then have "search_ok i start st'" using si len by (simp add: st' search_ok_def Let_def n_def)
    moreover have "search_le (A, F) st'"
    proof -
      have "\<exists>e'\<in>set (F[?c := kept @ [length A]] ! k). beats (clock ((A @ [c]) ! e')) (clock (A ! e))"
        if kF: "k < length F" and "e \<in> set (F ! k)" for k e
      proof (cases "k = ?c")
        case True
        then have e: "e < length A" "e \<in> set (F ! ?c)"
          using that in_cell_sane [OF si cells [OF m xn]] by auto
        show ?thesis
        proof (cases "beats (clock c) (clock (A ! e))")
          case beat: True
          then show ?thesis using True cell by (auto intro!: bexI [of _ "length A"])
        next
          case False
          then have "e \<in> set kept" using dom(2) [OF e(2)] e(2) by (simp add: kept_def)
          then show ?thesis using True cell e by (auto intro!: bexI [of _ e] intro: beats_refl simp: nth_append)
        qed
      next
        case False
        obtain k' h' where k: "k = dp_index k' h' n" "k' < 2 ^ n" "h' < n"
        proof
          have "0 < n" using xn by simp
          then show "k = dp_index (k div n) (k mod n) n" "k mod n < n" "k div n < 2 ^ n"
            using kF len by (simp_all add: dp_index_def div_less_iff_less_mult)
        qed
        then have "e < length A" using in_cell_sane [OF si cells] that by blast
        then show ?thesis using False that by (auto intro!: bexI [of _ e] intro: beats_refl simp: nth_append)
      qed
      then show ?thesis by (auto simp: st' search_le_def)
    qed
    moreover have "beaten_in st' ?c (clock c)"
      using cell by (auto simp: st' beaten_in_def intro: beats_refl)
    moreover have "search_labels i st' k h = search_labels i (A, F) k h" if "k \<le> mask_of ls" "h < n"
    proof -
      have "mask_of ls < m" unfolding m_def mask_of_snoc by (rule with_bit_greater) (simp add: x)
      then have "dp_index k h n \<noteq> ?c" using dp_index_eq_iff [OF that(2) xn] that by auto
      then show ?thesis by (simp add: search_labels_def st' n_def)
    qed
    ultimately show ?thesis by blast
  qed
  then show "search_ok i start st'" "search_le (A, F) st'" "beaten_in st' ?c (clock c)"
    "k \<le> mask_of ls \<Longrightarrow> h < n \<Longrightarrow> search_labels i st' k h = search_labels i (A, F) k h"
    by blast+
qed

lemma search_next_step:
  fixes i :: solver_input and start m j e x and st :: search_state
  defines "n \<equiv> length (locations (input_problem i))"
  defines "st' \<equiv> search_next default_objective time_cost_dominates i m j e x st"
  assumes ok: "search_ok i start st" and e: "in_cell i start (fst st) m j e"
    and x: "0 < x" "x < n" and j: "j \<noteq> n - 1"
  shows "search_ok i start st'" and "search_le st st'" and "explored i m j e x st'"
    and "k \<le> m \<Longrightarrow> h < n \<Longrightarrow> search_labels i st' k h = search_labels i st k h"
proof -
  let ?p = "input_problem i"
  obtain A F where st: "st = (A, F)" by (cases st)
  obtain ls where ls: "spells A e (rev ls)" "stands_for i start (A ! e) ls" "mask_of ls = m"
    "List.last ls = j" using e by (auto simp: in_cell_def st)
  have skip: "has_bit m x \<or> (x = end_location_index ?p \<and> ((visit_policy ?p \<noteq> BestEffortOnFailure \<and>
      with_bit m x \<noteq> full_mask n) \<or> \<not> covers_required ?p (with_bit m x))) \<longleftrightarrow> \<not> next_allowed ?p m j x"
    using x j by (auto simp: next_allowed_def Let_def n_def may_end_def end_location_index_def)
  have step: "st' = (if \<not> next_allowed ?p m j x then st
      else case pareto_transition default_objective i (A ! e) e x of None \<Rightarrow> st
        | Some c \<Rightarrow> insert_candidate time_cost_dominates (dp_index (with_bit m x) x n) c st)"
    unfolding st'_def search_next_def Let_def skip [symmetric] st n_def by auto
  have "search_ok i start st' \<and> search_le st st' \<and> explored i m j e x st' \<and>
    (k \<le> m \<longrightarrow> h < n \<longrightarrow> search_labels i st' k h = search_labels i st k h)"
  proof (cases "next_allowed ?p m j x \<and> (\<exists>c. pareto_transition default_objective i (A ! e) e x = Some c)")
    case False
    then have "st' = st" using step by (auto split: option.splits)
    moreover have "explored i m j e x st" using False by (auto simp: explored_def st)
    ultimately show ?thesis using ok search_le_refl by simp
  next
    case True
    then obtain c where al: "next_allowed ?p m j x"
      and c: "pareto_transition default_objective i (A ! e) e x = Some c" by auto
    have si: "search_input i" using ok by (simp add: search_ok_def Let_def)
    note new = transition_stands_for [OF si ls(2) _ c, unfolded ls(3,4), OF al]
    have "x \<notin> set ls" using al ls(3) bit_mask_of by (auto simp: next_allowed_def Let_def)
    note ins = insert_candidate_step [OF ok [unfolded st] new(1,2) ls(1) new(3) this,
        unfolded mask_of_snoc ls(3), folded n_def]
    have st': "st' = insert_candidate time_cost_dominates (dp_index (with_bit m x) x n) c (A, F)"
      using step al c by (simp add: st)
    have "fst st' ! e = A ! e" using search_le_nth [OF ins(2)] spells_bound [OF ls(1)] st' by simp
    then have "explored i m j e x st'" using ins(3) c by (simp add: explored_def st' n_def)
    then show ?thesis using ins by (simp add: st' st)
  qed
  then show "search_ok i start st'" "search_le st st'" "explored i m j e x st'"
    "k \<le> m \<Longrightarrow> h < n \<Longrightarrow> search_labels i st' k h = search_labels i st k h" by blast+
qed

lemma explored_mono:
  assumes "explored i m j e x st" and "search_le st u" and "search_ok i start st"
    and m: "m < 2 ^ length (locations (input_problem i))" and "e < length (fst st)"
  shows "explored i m j e x u"
  unfolding explored_def
proof (intro allI impI)
  fix c
  let ?n = "length (locations (input_problem i))"
  assume al: "next_allowed (input_problem i) m j x"
    and "pareto_transition default_objective i (fst u ! e) e x = Some c"
  then have "beaten_in st (dp_index (with_bit m x) x ?n) (clock c)"
    using assms(1) search_le_nth [OF assms(2,5)] by (simp add: explored_def)
  moreover have "x < ?n" using al by (simp add: next_allowed_def Let_def)
  ultimately show "beaten_in u (dp_index (with_bit m x) x ?n) (clock c)"
    using beaten_in_le [OF _ assms(2)] dp_index_less [OF with_bit_less [OF m] ] assms(3)
    by (simp add: search_ok_def Let_def)
qed

lemma label_in_cell:
  "search_ok i start st \<Longrightarrow> m < 2 ^ length (locations (input_problem i)) \<Longrightarrow>
    j < length (locations (input_problem i)) \<Longrightarrow> e \<in> set (search_labels i st m j) \<Longrightarrow>
    in_cell i start (fst st) m j e"
  by (auto simp: search_ok_def search_labels_def Let_def split: if_splits)

lemma search_cell_step:
  fixes i :: solver_input and m j e and st :: search_state
  defines "n \<equiv> length (locations (input_problem i))"
  defines "st' \<equiv> search_cell default_objective time_cost_dominates i m j e st"
  assumes ok: "search_ok i start st" and m: "m < 2 ^ n" and j: "j < n"
    and e: "e \<in> set (search_labels i st m j)"
  shows "search_ok i start st' \<and> search_le st st' \<and>
    (\<forall>k\<le>m. \<forall>h<n. search_labels i st' k h = search_labels i st k h) \<and> all_explored i m j e st'"
proof -
  let ?le = "\<lambda>s u. search_le s u \<and> (\<forall>k\<le>m. \<forall>h<n. search_labels i u k h = search_labels i s k h)"
  have never: "explored i m j e x u" if "x \<notin> set [1..<n] \<or> j = n - 1" for x u
    using that by (auto simp: explored_def next_allowed_def Let_def n_def)
  show ?thesis
  proof (cases "j = n - 1")
    case True
    then have "st' = st" by (simp add: st'_def search_cell_def end_location_index_def n_def)
    then show ?thesis using ok search_le_refl never True by (simp add: all_explored_def)
  next
    case False
    have le: "progress ?le"
      by unfold_locales (auto intro: search_le_refl search_le_trans)
    have cell: "in_cell i start (fst st) m j e"
      using label_in_cell [OF ok] m j e by (simp add: n_def)
    have "search_ok i start st' \<and> ?le st st' \<and> (\<forall>x\<in>set [1..<n]. explored i m j e x st')"
    proof -
      have st': "st' = fold (search_next default_objective time_cost_dominates i m j e) [1..<n] st"
        using False by (simp add: st'_def search_cell_def end_location_index_def n_def)
      have si: "search_input i" using ok by (simp add: search_ok_def Let_def)
      have grown: "in_cell i start (fst u) m j e \<and> e < length (fst u)" if "search_le st u" for u
        using that in_cell_append [OF cell] in_cell_sane [OF si cell] by (auto simp: search_le_def)
      show ?thesis unfolding st'
      proof (rule progress.fold_each [OF le])
        fix x u
        assume x: "x \<in> set [1..<n]" and u: "search_ok i start u" and le: "?le st u"
        note step = search_next_step [OF u, where x = x and e = e and m = m and j = j]
        show "search_ok i start (search_next default_objective time_cost_dominates i m j e x u) \<and>
            ?le u (search_next default_objective time_cost_dominates i m j e x u) \<and>
            explored i m j e x (search_next default_objective time_cost_dominates i m j e x u)"
          using step grown [of u] le x False by (simp add: n_def)
      next
        fix x u v
        assume "search_ok i start u" and "?le st u" and "?le u v" and "explored i m j e x u"
        then show "explored i m j e x v"
          using explored_mono grown [of u] m by (auto simp: n_def)
      qed (rule ok)
    qed
    then show ?thesis using never unfolding all_explored_def by blast
  qed
qed

interpretation pareto: relaxation "search_ok i start" search_le
  "length (locations (input_problem i))" "search_labels i"
  "search_cell default_objective time_cost_dominates i" "all_explored i"
  for i start
proof unfold_locales
  let ?n = "length (locations (input_problem i))"
  let ?expand = "search_cell default_objective time_cost_dominates i"
  show "search_le s s" for s by (rule search_le_refl)
  show "search_le s t \<Longrightarrow> search_le t u \<Longrightarrow> search_le s u" for s t u by (rule search_le_trans)
  show "\<lbrakk>search_ok i start t; 0 < m; m < 2 ^ ?n; j < ?n; e \<in> set (search_labels i t m j)\<rbrakk> \<Longrightarrow>
      search_ok i start (?expand m j e t) \<and> search_le t (?expand m j e t) \<and>
      (\<forall>k\<le>m. \<forall>h<?n. search_labels i (?expand m j e t) k h = search_labels i t k h) \<and>
      all_explored i m j e (?expand m j e t)" for t m j e
    by (rule search_cell_step)
  show "all_explored i m j e u"
    if ok: "search_ok i start t" and "search_le t u" and m: "m < 2 ^ ?n" and j: "j < ?n"
      and e: "e \<in> set (search_labels i t m j)" and "all_explored i m j e t" for t u m j e
  proof -
    have "search_input i" using ok by (simp add: search_ok_def Let_def)
    then have "e < length (fst t)" using in_cell_sane label_in_cell [OF ok m j e] by blast
    then show ?thesis using that explored_mono unfolding all_explored_def by blast
  qed
qed

section \<open>Completeness\<close>

lemma transition_exists:
  assumes "search_input i" and s: "stands_for i start s ls" and x: "x < length (locations (input_problem i))"
    and d: "travel_minutes (input_matrix i) (List.last ls) x = Some d"
    and sv: "serve (locations (input_problem i) ! x) (t + d) = Some (v, f)"
    and beats: "beats (clock s) (t, r, w)"
  obtains c where "pareto_transition default_objective i s q x = Some c"
    and "beats (clock c) (f, r + d, w + v)"
proof -
  let ?p = "input_problem i"
  have wf: "wf_input i" "wf_problem ?p" "wf_location (locations ?p ! x)"
    using assms(1) x by (auto simp: search_input_def wf_input_def wf_problem_nth)
  have pr: "partial_route ?p (may_end ?p) ls" "ps_location s = List.last ls"
    "ps_optional_priority s = coverage_priority ?p ls"
    using s by (auto simp: stands_for_def Let_def)
  have "ps_optional_priority s + 255 < 2 ^ 32"
    using coverage_priority_bound [OF wf(2) pr(1)] assms(1) pr(3) by (simp add: search_input_def)
  note tr = pareto_transition_serve [OF wf(3) stands_for_sane [OF wf(1) s] this, of default_objective q]
  obtain v' f' where "serve (locations ?p ! x) (ps_time_slot s + d) = Some (v', f')"
    "beats (f', ps_travel_minutes s + d, ps_wait_minutes s + v') (f, r + d, w + v)"
    using beats_serve [OF beats [unfolded clock_def] sv] by blast
  then show thesis using that unfolding tr by (simp add: pr(2) d clock_def)
qed

lemma search_complete:
  fixes i :: solver_input
  defines "p \<equiv> input_problem i" and "n \<equiv> length (locations (input_problem i))"
  assumes ok: "search_ok i start st" and closed: "pareto.all_closed i (2 ^ n) st"
    and init: "serve (locations p ! 0) start = Some (w0, f0)"
    and first: "beaten_in st (dp_index 1 0 n) (f0, 0, w0)"
    and "partial_route p (may_end p) ls" and "route_walk p (input_matrix i) ls start = Some cl"
  shows "beaten_in st (dp_index (mask_of ls) (List.last ls) n) cl"
  using assms(7,8)
proof (induction ls arbitrary: cl rule: rev_induct)
  case Nil
  then show ?case by (simp add: partial_route_def Let_def)
next
  case (snoc x ls)
  have si: "search_input i" using ok by (simp add: search_ok_def Let_def)
  show ?case
  proof (cases "ls = []")
    case True
    then have "x = 0" using snoc.prems by (simp add: partial_route_def Let_def)
    then have "cl = (f0, 0, w0)" using snoc.prems True init by (auto simp: route_walk_single)
    then show ?thesis using first True \<open>x = 0\<close> by (simp add: mask_of_singleton)
  next
    case False
    have pr: "partial_route p (may_end p) ls" "x \<notin> set ls" "x < n" "List.last ls \<noteq> n - 1"
      "x = n - 1 \<Longrightarrow> may_end p (with_bit (mask_of ls) x)"
      using snoc.prems by (auto simp: partial_route_snoc [OF False] n_def p_def)
    note cell = partial_route_cell [OF pr(1), folded n_def [folded p_def]]
    obtain f r w where cl: "cl = (f, r, w)" by (cases cl)
    obtain f1 r1 w1 d v where walk: "route_walk p (input_matrix i) ls start = Some (f1, r1, w1)"
      and d: "travel_minutes (input_matrix i) (List.last ls) x = Some d"
      and sv: "serve (locations p ! x) (f1 + d) = Some (v, f)" and rw: "r = r1 + d" "w = w1 + v"
      using snoc.prems(2) unfolding cl route_walk_snoc [OF False] by blast
    obtain e where e: "e \<in> set (snd st ! dp_index (mask_of ls) (List.last ls) n)"
      and beat: "beats (clock (fst st ! e)) (f1, r1, w1)"
      using snoc.IH [OF pr(1) walk] by (auto simp: beaten_in_def)
    have lab: "e \<in> set (search_labels i st (mask_of ls) (List.last ls))"
      using e cell(5) by (simp add: search_labels_def n_def)
    then have "all_explored i (mask_of ls) (List.last ls) e st"
      using closed cell by (simp add: pareto.all_closed_def n_def)
    moreover have "next_allowed p (mask_of ls) (List.last ls) x"
      using pr cell(4) by (cases x) (auto simp: next_allowed_def Let_def n_def p_def)
    moreover obtain ks where ks: "stands_for i start (fst st ! e) ks" "List.last ks = List.last ls"
      using label_in_cell [OF ok _ _ lab] cell(1,2) by (auto simp: in_cell_def n_def)
    moreover obtain c where "pareto_transition default_objective i (fst st ! e) e x = Some c"
      "beats (clock c) cl"
      using transition_exists [OF si ks(1), of x d f1 v f r1 w1 e] pr(3) d sv beat
      unfolding ks(2) cl rw p_def n_def by blast
    ultimately have "beaten_in st (dp_index (with_bit (mask_of ls) x) x n) (clock c)" "beats (clock c) cl"
      by (auto simp: all_explored_def explored_def p_def n_def)
    then show ?thesis unfolding beaten_in_def mask_of_snoc last_snoc using beats_trans by blast
  qed
qed

section \<open>The result of a search\<close>

lemma search_mask_loops:
  "search_mask default_objective time_cost_dominates i m st =
    fold (\<lambda>j st. fold (search_cell default_objective time_cost_dominates i m j) (search_labels i st m j) st)
      [0..<length (locations (input_problem i))] st"
proof -
  have "search_last default_objective time_cost_dominates i m =
      (\<lambda>j st. fold (search_cell default_objective time_cost_dominates i m j) (search_labels i st m j) st)"
    by (rule ext, rule ext) (simp add: search_last_def search_labels_def)
  then show ?thesis by (simp add: search_mask_def)
qed

lemma search_masks_fold:
  "never_cancelled i \<Longrightarrow> search_masks obj dm i start ms st = Inr (fold (search_mask obj dm i) ms st)"
  by (induction ms arbitrary: st) (auto simp: never_cancelled_def)

text \<open>A better clock over the same coverage never compares greater.\<close>

lemma default_compare_beats:
  assumes "beats (f1, r1, w1) (f2, r2, w2)"
    and "metric_start_policy a = metric_start_policy b" and "start_time_slot a = start_time_slot b"
    and "visited_optional_count a = visited_optional_count b"
    and "visited_optional_priority a = visited_optional_priority b"
    and "finish_time_slot a = f1" "metric_travel_minutes a = r1" "metric_wait_minutes a = w1"
    and "finish_time_slot b = f2" "metric_travel_minutes b = r2" "metric_wait_minutes b = w2"
    and "metric_score a = default_score r1 w1" and "metric_score b = default_score r2 w2"
  shows "default_compare a b \<noteq> Greater"
  using assms
  by (cases "metric_start_policy b")
    (auto simp: default_compare_def cmp_def default_score_def beats.simps Let_def split: if_splits)

lemma partial_route_start:
  assumes "0 < length (locations p)"
  shows "partial_route p (may_end p) [0]"
proof (cases "length (locations p) = 1")
  case True
  then have "may_end p 1"
    by (simp add: may_end_def covers_required_iff full_mask_eq bit_Suc_0_iff)
  then show ?thesis using True mask_of_singleton by (simp add: partial_route_def)
next
  case False
  then have "1 < length (locations p)" using assms by linarith
  then show ?thesis by (rule partial_route_single)
qed

definition initial_search :: "solver_input \<Rightarrow> initial_service \<Rightarrow> search_state" where
  "initial_search i initial = (let n = length (locations (input_problem i)) in
     ([initial_state default_objective i initial], (replicate (2 ^ n * n) [])[dp_index 1 0 n := [0]]))"

lemma initial_search_ok:
  fixes i :: solver_input and w0 f0
  defines "n \<equiv> length (locations (input_problem i))"
  defines "st \<equiv> initial_search i \<lparr>departure_slot = f0, initial_wait_minutes = w0\<rparr>"
  assumes "search_input i" and n: "0 < n" and init: "serve (locations (input_problem i) ! 0) start = Some (w0, f0)"
  shows "search_ok i start st" and "beaten_in st (dp_index 1 0 n) (f0, 0, w0)"
proof -
  let ?c = "dp_index 1 0 n" and ?F = "replicate (2 ^ n * n) ([] :: nat list)"
  have "1 < (2 :: nat) ^ n" using n by (intro one_less_power) auto
  then have c: "?c < 2 ^ n * n" using n by (intro dp_index_less)
  have st: "fst st = [initial_state default_objective i \<lparr>departure_slot = f0, initial_wait_minutes = w0\<rparr>]"
    "snd st = ?F[?c := [0]]"
    by (simp_all add: st_def initial_search_def n_def Let_def)
  have cell: "in_cell i start (fst st) 1 0 0"
    unfolding in_cell_def
    using init partial_route_start [of "input_problem i"] n
    by (intro exI [of _ "[0]"])
      (auto simp: st stands_for_def initial_state_def clock_def route_walk_single coverage_count_def
        coverage_priority_def optional_visits_def mask_of_singleton start_location_index_def n_def)
  have "in_cell i start (fst st) m j e"
    if "m < 2 ^ n" "j < n" "e \<in> set (snd st ! dp_index m j n)" for m j e
  proof -
    have "dp_index m j n < 2 ^ n * n" using that by (intro dp_index_less)
    then have "dp_index m j n = ?c" "e = 0"
      using that c by (auto simp: st nth_list_update split: if_splits)
    then have "m = 1" "j = 0" using dp_index_eq_iff [of j n 0 m 1] that n by linarith+
    then show ?thesis using cell \<open>e = 0\<close> by simp
  qed
  then show "search_ok i start st"
    using assms(3) by (simp add: search_ok_def st n_def)
  show "beaten_in st ?c (f0, 0, w0)"
    using c by (simp add: beaten_in_def st clock_def initial_state_def beats_refl)
qed

text \<open>The final state: every terminal id stands for a valid order, and beats every valid order.\<close>

lemma search_pass:
  fixes i :: solver_input and w0 f0
  defines "p \<equiv> input_problem i" and "n \<equiv> length (locations (input_problem i))"
  assumes si: "search_input i" and n: "0 < n" and init: "serve (locations p ! 0) start = Some (w0, f0)"
  obtains st where "fold (search_mask default_objective time_cost_dominates i) [1..<2 ^ n]
      (initial_search i \<lparr>departure_slot = f0, initial_wait_minutes = w0\<rparr>) = st"
    and "\<And>e. e \<in> set (terminal_ids i (snd st)) \<Longrightarrow> \<exists>ls. spells (fst st) e (rev ls) \<and>
      stands_for i start (fst st ! e) ls \<and> valid_order p ls"
    and "\<And>ls cl. valid_order p ls \<Longrightarrow> route_walk p (input_matrix i) ls start = Some cl \<Longrightarrow>
      \<exists>e ks. e \<in> set (terminal_ids i (snd st)) \<and> beats (clock (fst st ! e)) cl \<and>
        stands_for i start (fst st ! e) ks \<and> valid_order p ks \<and> set ks = set ls"
proof
  let ?init = "initial_search i \<lparr>departure_slot = f0, initial_wait_minutes = w0\<rparr>"
  define st where "st = fold (search_mask default_objective time_cost_dominates i) [1..<2 ^ n] ?init"
  show "fold (search_mask default_objective time_cost_dominates i) [1..<2 ^ n] ?init = st"
    by (simp add: st_def)
  note ok0 = initial_search_ok [OF si n [unfolded n_def] init [unfolded p_def]]
  have loops: "search_mask default_objective time_cost_dominates i =
      (\<lambda>m st. fold (\<lambda>j st. fold (search_cell default_objective time_cost_dominates i m j) (search_labels i st m j) st) [0..<n] st)"
    by (rule ext, rule ext) (simp add: search_mask_loops n_def)
  have pass: "search_ok i start st" "search_le ?init st" "pareto.all_closed i (2 ^ n) st"
    using pareto.masks_loop [OF ok0(1), of "2 ^ n"] unfolding st_def loops n_def by blast+
  have "1 < (2 :: nat) ^ n" using n by (intro one_less_power) auto
  then have "dp_index 1 0 n < length (snd ?init)"
    using n dp_index_less [of 1 n 0] by (simp add: initial_search_def n_def Let_def)
  then have first: "beaten_in st (dp_index 1 0 n) (f0, 0, w0)"
    using beaten_in_le [OF ok0(2) pass(2)] by (simp add: n_def)
  have cells: "in_cell i start (fst st) m j e" if "m < 2 ^ n" "j < n" "e \<in> set (snd st ! dp_index m j n)" for m j e
    using pass(1) that by (simp add: search_ok_def n_def Let_def)
  have last: "end_location_index p = n - 1" "n - 1 < n" using n by (simp_all add: end_location_index_def n_def p_def)
  have np: "0 < length (locations p)" "n = length (locations p)" using n by (simp_all add: n_def p_def)
  have terminal: "e \<in> set (terminal_ids i (snd st)) \<longleftrightarrow> (\<exists>m. 0 < m \<and> m < 2 ^ n \<and> bit m (n - 1) \<and> may_end p m \<and>
      e \<in> set (snd st ! dp_index m (n - 1) n))" for e
  proof -
    have "full_mask n + 1 = 2 ^ n" "0 < full_mask n"
      using \<open>1 < 2 ^ n\<close> by (simp_all add: full_mask_eq)
    moreover have "full_mask n < 2 ^ n" "bit (full_mask n) (n - 1)"
      using n full_mask_less [of n] by simp_all
    moreover have "covers_required p (full_mask n)" by (simp add: covers_required_iff n_def p_def)
    ultimately show ?thesis
      using last by (cases "visit_policy p")
        (auto simp: terminal_ids_def Let_def may_end_def Suc_le_eq p_def [symmetric] np(2) [symmetric])
  qed
  note valid = valid_order_partial [OF np(1), folded np(2)]
  show "\<exists>ls. spells (fst st) e (rev ls) \<and> stands_for i start (fst st ! e) ls \<and> valid_order p ls"
    if "e \<in> set (terminal_ids i (snd st))" for e
    using that cells last(2) unfolding terminal valid in_cell_def
    by (fastforce simp: stands_for_def Let_def p_def)
  show "\<exists>e ks. e \<in> set (terminal_ids i (snd st)) \<and> beats (clock (fst st ! e)) cl \<and>
        stands_for i start (fst st ! e) ks \<and> valid_order p ks \<and> set ks = set ls"
    if v: "valid_order p ls" and walk: "route_walk p (input_matrix i) ls start = Some cl" for ls cl
  proof -
    have pr: "partial_route p (may_end p) ls" "List.last ls = n - 1" using v valid by auto
    note cell = partial_route_cell [OF pr(1), folded np(2)]
    have "beaten_in st (dp_index (mask_of ls) (List.last ls) n) cl"
      using search_complete [OF pass(1) pass(3) [unfolded n_def] init [unfolded p_def] first [unfolded n_def]]
        pr(1) walk unfolding n_def p_def by blast
    then have "beaten_in st (dp_index (mask_of ls) (n - 1) n) cl" by (simp only: pr(2))
    then obtain e where e: "e \<in> set (snd st ! dp_index (mask_of ls) (n - 1) n)" "beats (clock (fst st ! e)) cl"
      by (auto simp: beaten_in_def)
    moreover have "may_end p (mask_of ls)" using pr np by (simp add: partial_route_def Let_def)
    ultimately have "e \<in> set (terminal_ids i (snd st))" using cell pr(2) unfolding terminal by auto
    moreover obtain ks where ks: "stands_for i start (fst st ! e) ks" "mask_of ks = mask_of ls"
        "List.last ks = n - 1"
      using cells [OF cell(1) last(2) e(1)] by (auto simp: in_cell_def)
    moreover have "valid_order p ks" using ks unfolding valid by (simp add: stands_for_def Let_def p_def)
    ultimately show ?thesis using e(2) mask_of_eq_iff by blast
  qed
qed

lemma pareto_metrics_route:
  assumes "stands_for i start s ls" and "required (locations (input_problem i) ! 0)"
  shows "pareto_metrics (start_policy (input_problem i)) start s =
    route_metrics default_objective (input_problem i) ls start (clock s)"
proof -
  have "ls \<noteq> []" "hd ls = 0"
    using assms(1) by (auto simp: stands_for_def partial_route_def Let_def)
  then have "optional_visits (input_problem i) ls = optional_visits (input_problem i) (tl ls)"
    using assms(2) by (cases ls) (auto simp: optional_visits_def)
  then show ?thesis using assms(1)
    by (simp add: pareto_metrics_def route_metrics_def clock_def stands_for_def Let_def
        coverage_count_def coverage_priority_def)
qed

lemma coverage_cong:
  assumes "valid_order p ls" and "valid_order p ks" and "set ls = set ks"
  shows "length (optional_visits p ls) = length (optional_visits p ks)"
    and "sum_list (map (\<lambda>k. priority (locations p ! k)) (optional_visits p ls)) =
      sum_list (map (\<lambda>k. priority (locations p ! k)) (optional_visits p ks))"
proof -
  have "mset ls = mset ks"
    using valid_order_ends(4) assms by (simp add: set_eq_iff_mset_eq_distinct)
  then have m: "mset (optional_visits p ls) = mset (optional_visits p ks)"
    by (simp add: optional_visits_def)
  from arg_cong [OF m, of size]
  show "length (optional_visits p ls) = length (optional_visits p ks)" by simp
  from arg_cong [OF m, of "\<lambda>M. sum_mset (image_mset (\<lambda>k. priority (locations p ! k)) M)"]
  show "sum_list (map (\<lambda>k. priority (locations p ! k)) (optional_visits p ls)) =
      sum_list (map (\<lambda>k. priority (locations p ! k)) (optional_visits p ks))"
    by (simp only: mset_map [symmetric] sum_mset_sum_list)
qed

text \<open>What one search returns, under the default objective and frontier.\<close>

definition best_from :: "solver_input \<Rightarrow> u16 \<Rightarrow> exact_solve_result option \<Rightarrow> bool" where
  "best_from i start r \<longleftrightarrow>
     (let p = input_problem i; walk = (\<lambda>ls. route_walk p (input_matrix i) ls start) in
      case r of
        None \<Rightarrow> \<forall>ls. valid_order p ls \<longrightarrow> walk ls = None
      | Some res \<Rightarrow>
          let order = visit_order (exact_solution res) in
          valid_order p order \<and>
          (\<exists>s. walk order = Some s \<and>
             exact_metrics res = route_metrics default_objective p order start s) \<and>
          (\<forall>ls s. valid_order p ls \<longrightarrow> walk ls = Some s \<longrightarrow>
             default_compare (exact_metrics res) (route_metrics default_objective p ls start s) \<noteq> Greater))"

lemma search_at_start_best:
  assumes si: "search_input i" and nc: "never_cancelled i" and "start < 1440"
    and req: "required (locations (input_problem i) ! 0)"
  shows "\<exists>r. search_at_start default_objective time_cost_dominates i start = Inr r \<and> best_from i start r"
proof -
  let ?p = "input_problem i" and ?n = "length (locations (input_problem i))"
  have p: "wf_problem ?p" using si by (simp add: search_input_def wf_input_def)
  have n: "0 < ?n" by (rule wf_problem_length [OF p])
  have init: "initial_service i start =
      map_option (\<lambda>(w, f). \<lparr>departure_slot = f, initial_wait_minutes = w\<rparr>) (serve (locations ?p ! 0) start)"
    using initial_service_serve [OF p] assms(3) by simp
  show ?thesis
  proof (cases "serve (locations ?p ! 0) start")
    case None
    then show ?thesis by (simp add: search_at_start_def init best_from_def route_walk_def)
  next
    case (Some wf)
    then obtain w0 f0 where s: "serve (locations ?p ! 0) start = Some (w0, f0)" by (cases wf) auto
    obtain A F where run: "fold (search_mask default_objective time_cost_dominates i) [1..<2 ^ ?n]
        (initial_search i \<lparr>departure_slot = f0, initial_wait_minutes = w0\<rparr>) = (A, F)"
      and sound: "\<And>e. e \<in> set (terminal_ids i F) \<Longrightarrow> \<exists>ls. spells A e (rev ls) \<and>
        stands_for i start (A ! e) ls \<and> valid_order ?p ls"
      and complete: "\<And>ls cl. valid_order ?p ls \<Longrightarrow> route_walk ?p (input_matrix i) ls start = Some cl \<Longrightarrow>
        \<exists>e ks. e \<in> set (terminal_ids i F) \<and> beats (clock (A ! e)) cl \<and>
          stands_for i start (A ! e) ks \<and> valid_order ?p ks \<and> set ks = set ls"
      using search_pass [OF si n s] by (metis prod.collapse)
    define key where "key = (\<lambda>s. pareto_metrics (start_policy ?p) start (A ! s))"
    define cp where "cp = (\<lambda>l r. default_compare (key l) (key r))"
    have "full_mask ?n + 1 = 2 ^ ?n" by (simp add: full_mask_eq)
    then have masks: "search_masks default_objective time_cost_dominates i start [1..<full_mask ?n + 1]
        ([initial_state default_objective i \<lparr>departure_slot = f0, initial_wait_minutes = w0\<rparr>],
         (replicate (push_bit ?n 1 * ?n) [])[dp_index 1 0 ?n := [0]]) = Inr (A, F)"
      using run by (simp only: search_masks_fold [OF nc] push_bit_of_1 initial_search_def Let_def)
    have result: "search_at_start default_objective time_cost_dominates i start =
        (case min_by cp (terminal_ids i F) of
           None \<Rightarrow> Inr None
         | Some best \<Rightarrow> (case trace_back (length A) A (Some best) of
             None \<Rightarrow> Inr None
           | Some order \<Rightarrow> Inr (Some \<lparr>exact_solution = \<lparr>visit_order = rev order\<rparr>,
               exact_metrics = key best,
               exact_stats = \<lparr>generated_states = length A, frontier_states = sum_list (map length F),
                 frontier_cells = length (filter (\<lambda>c. c \<noteq> []) F)\<rparr>\<rparr>)))"
      unfolding search_at_start_def init s Let_def option.map prod.case option.case masks bind_result_Inr
        key_def cp_def default_objective_simps initial_service.simps by simp
    show ?thesis
    proof (cases "min_by cp (terminal_ids i F)")
      case None
      then have "terminal_ids i F = []" by (simp add: min_by_None)
      then have "route_walk ?p (input_matrix i) ls start = None" if "valid_order ?p ls" for ls
        using complete [OF that] by (cases "route_walk ?p (input_matrix i) ls start") auto
      then show ?thesis using None result by (simp add: best_from_def Let_def)
    next
      case (Some best)
      have "best \<in> set (terminal_ids i F)" using min_by_mem [OF Some] .
      from sound [OF this] obtain ls where ls: "spells A best (rev ls)" "stands_for i start (A ! best) ls"
        "valid_order ?p ls" by blast
      have metrics: "key best = route_metrics default_objective ?p ls start (clock (A ! best))"
        unfolding key_def by (rule pareto_metrics_route [OF ls(2) req])
      have walk: "route_walk ?p (input_matrix i) ls start = Some (clock (A ! best))"
        using ls(2) by (simp add: stands_for_def Let_def)
      have "default_compare (key best) (route_metrics default_objective ?p ks start cl) \<noteq> Greater"
        if ks: "valid_order ?p ks" and cl: "route_walk ?p (input_matrix i) ks start = Some cl" for ks cl
      proof -
        obtain e qs where e: "e \<in> set (terminal_ids i F)" "beats (clock (A ! e)) cl" "set qs = set ks"
          "valid_order ?p qs" "stands_for i start (A ! e) qs" using complete [OF ks cl] by blast
        have qs: "key e = route_metrics default_objective ?p qs start (clock (A ! e))"
          unfolding key_def by (rule pareto_metrics_route [OF e(5) req])
        have "comparison cp (\<lambda>_. True)"
        proof
          have sp: "metric_start_policy (key s) = start_policy ?p" for s
            by (simp add: key_def pareto_metrics_def)
          show "cp x x = Equal" for x unfolding cp_def using default_order.refl sp by blast
          show "cp x y = Greater \<longleftrightarrow> cp y x = Less" for x y
            unfolding cp_def using default_order.flip sp by blast
          show "cp x y \<noteq> Greater \<Longrightarrow> cp y z \<noteq> Greater \<Longrightarrow> cp x z \<noteq> Greater" for x y z
            unfolding cp_def using default_order.trans sp by blast
        qed
        from comparison.min_by_least [OF this Some _ e(1)]
        have least: "default_compare (key best) (key e) \<noteq> Greater" by (simp add: cp_def)
        have "default_compare (key e) (route_metrics default_objective ?p ks start cl) \<noteq> Greater"
          using e(2) coverage_cong [OF e(4) ks e(3)] unfolding qs
          by (cases "clock (A ! e)"; cases cl) (rule default_compare_beats, auto simp: route_metrics_def)
        moreover have "metric_start_policy (key best) = start_policy ?p" "metric_start_policy (key e) = start_policy ?p"
          by (simp_all add: key_def pareto_metrics_def)
        ultimately show ?thesis
          using least default_order.trans route_metrics_simps(1) by blast
      qed
      then show ?thesis
        using Some result trace_back_total [OF ls(1)] ls(3) walk metrics
        by (auto simp: best_from_def Let_def simp del: split_paired_Ex)
    qed
  qed
qed

end
