(* ===== verification/Exact_Feasible.thy ===== *)
theory Exact_Feasible
  imports Exact_Masks
begin

text \<open>
  The feasibility pass of the exact solver decides whether some order of all locations works
  from a given start. The pass is an instance of the subset dynamic program of \<open>Label_Dp\<close>:
  a cell has at most one label, the earliest finish found so far.
\<close>

definition all_mask :: "solver_input \<Rightarrow> nat \<Rightarrow> bool" where
  "all_mask i m \<longleftrightarrow> m = full_mask (length (locations (input_problem i)))"

text \<open>The partial routes of the pass, with the minute they finish.\<close>

definition reaches :: "solver_input \<Rightarrow> u16 \<Rightarrow> nat list \<Rightarrow> nat \<Rightarrow> bool" where
  "reaches i start ls t \<longleftrightarrow>
     partial_route (input_problem i) (all_mask i) ls \<and>
     (\<exists>r w. route_walk (input_problem i) (input_matrix i) ls start = Some (t, r, w))"

definition cell_labels :: "solver_input \<Rightarrow> u16 option list \<Rightarrow> nat \<Rightarrow> nat \<Rightarrow> u16 list" where
  "cell_labels i T m j =
     (case T ! dp_index m j (length (locations (input_problem i))) of None \<Rightarrow> [] | Some t \<Rightarrow> [t])"

definition table_ok :: "solver_input \<Rightarrow> u16 \<Rightarrow> u16 option list \<Rightarrow> bool" where
  "table_ok i start T \<longleftrightarrow>
     (let n = length (locations (input_problem i)) in
      wf_input i \<and> length T = 2 ^ n * n \<and>
      (\<forall>m j t. m < 2 ^ n \<longrightarrow> j < n \<longrightarrow> T ! dp_index m j n = Some t \<longrightarrow>
        (\<exists>ls. reaches i start ls t \<and> mask_of ls = m \<and> List.last ls = j)))"

definition improves_on :: "u16 option list \<Rightarrow> u16 option list \<Rightarrow> bool" where
  "improves_on T U \<longleftrightarrow> (\<forall>c t. T ! c = Some t \<longrightarrow> (\<exists>u\<le>t. U ! c = Some u))"

text \<open>Every transition out of a label has been taken: its target finishes no later.\<close>

definition allowed_next :: "solver_input \<Rightarrow> nat \<Rightarrow> nat \<Rightarrow> bool" where
  "allowed_next i m x \<longleftrightarrow>
     (let n = length (locations (input_problem i)) in
      0 < x \<and> x < n \<and> \<not> bit m x \<and> (x = n - 1 \<longrightarrow> all_mask i (with_bit m x)))"

definition relaxed :: "solver_input \<Rightarrow> nat \<Rightarrow> nat \<Rightarrow> u16 \<Rightarrow> nat \<Rightarrow> u16 option list \<Rightarrow> bool" where
  "relaxed i m j t x T \<longleftrightarrow>
     (\<forall>f. allowed_next i m x \<longrightarrow> transition_time i j x t = Some f \<longrightarrow>
       (\<exists>u\<le>f. T ! dp_index (with_bit m x) x (length (locations (input_problem i))) = Some u))"

definition all_relaxed :: "solver_input \<Rightarrow> nat \<Rightarrow> nat \<Rightarrow> u16 \<Rightarrow> u16 option list \<Rightarrow> bool" where
  "all_relaxed i m j t T \<longleftrightarrow> (\<forall>x. relaxed i m j t x T)"

lemma improves_refl: "improves_on T T"
  by (auto simp: improves_on_def)

lemma improves_trans: "improves_on T U \<Longrightarrow> improves_on U V \<Longrightarrow> improves_on T V"
  unfolding improves_on_def by (meson order_trans)

lemma relaxed_mono: "relaxed i m j t x T \<Longrightarrow> improves_on T U \<Longrightarrow> relaxed i m j t x U"
  unfolding relaxed_def improves_on_def by (meson order_trans)

section \<open>One transition\<close>

lemma reaches_snoc:
  assumes "wf_input i" and "reaches i start ls t" and "allowed_next i (mask_of ls) x"
    and "transition_time i (List.last ls) x t = Some f"
  shows "reaches i start (ls @ [x]) f"
proof -
  let ?p = "input_problem i" and ?n = "length (locations (input_problem i))"
  have pr: "partial_route ?p (all_mask i) ls" using assms(2) by (simp add: reaches_def)
  note cell = partial_route_cell [OF pr]
  have x: "x < ?n" "x \<notin> set ls" "x = ?n - 1 \<Longrightarrow> all_mask i (with_bit (mask_of ls) x)"
    using assms(3) by (auto simp: allowed_next_def Let_def)
  have "List.last ls \<noteq> ?n - 1"
  proof
    assume "List.last ls = ?n - 1"
    then have "mask_of ls = full_mask ?n"
      using pr by (simp add: partial_route_def Let_def all_mask_def)
    then have "bit (mask_of ls) x" using x(1) by simp
    then show False using x(2) by simp
  qed
  moreover have "wf_location (locations ?p ! x)"
    using assms(1) x(1) by (simp add: wf_input_def wf_problem_nth)
  ultimately show ?thesis
    using assms(2,4) pr x cell(3)
    by (auto simp: reaches_def partial_route_snoc route_walk_snoc transition_time_serve
        split: option.splits)
qed

lemma feasible_next_step:
  assumes "table_ok i start T" and r: "reaches i start ls t"
    and cell: "mask_of ls = m" "List.last ls = j" and x: "0 < x" "x < length (locations (input_problem i))"
  shows "table_ok i start (feasible_next i m j t x T)" (is ?ok)
    and "improves_on T (feasible_next i m j t x T)" (is ?le)
    and "k \<le> m \<Longrightarrow> h < length (locations (input_problem i)) \<Longrightarrow>
      cell_labels i (feasible_next i m j t x T) k h = cell_labels i T k h" (is "_ \<Longrightarrow> _ \<Longrightarrow> ?frozen")
    and "relaxed i m j t x (feasible_next i m j t x T)" (is ?closed)
proof -
  let ?n = "length (locations (input_problem i))"
  let ?c = "dp_index (with_bit m x) x ?n"
  have wf: "wf_input i" and len: "length T = 2 ^ ?n * ?n" using assms(1) by (auto simp: table_ok_def Let_def)
  have end_eq: "end_location_index (input_problem i) = ?n - 1" by (simp add: end_location_index_def)
  have m: "m < 2 ^ ?n"
    using partial_route_cell(1) r cell(1) by (auto simp: reaches_def)
  have allowed: "allowed_next i m x \<longleftrightarrow> \<not> (has_bit m x \<or> (x = ?n - 1 \<and> with_bit m x \<noteq> full_mask ?n))"
    using x by (auto simp: allowed_next_def Let_def all_mask_def)
  have "?ok \<and> ?le \<and> (k \<le> m \<longrightarrow> h < ?n \<longrightarrow> ?frozen) \<and> ?closed"
  proof (cases "allowed_next i m x \<and> (\<exists>f. transition_time i j x t = Some f)")
    case False
    then have "feasible_next i m j t x T = T"
      unfolding feasible_next_def Let_def end_eq using allowed by (auto split: option.splits)
    then show ?thesis using assms(1) False improves_refl by (auto simp: relaxed_def)
  next
    case True
    then obtain f where al: "allowed_next i m x" and f: "transition_time i j x t = Some f" by auto
    have step: "feasible_next i m j t x T =
        (if (case T ! ?c of Some current \<Rightarrow> f < current | None \<Rightarrow> True) then T[?c := Some f] else T)"
      unfolding feasible_next_def Let_def end_eq using al allowed f by auto
    show ?thesis
    proof (cases "case T ! ?c of Some current \<Rightarrow> f < current | None \<Rightarrow> True")
      case False
      then show ?thesis using assms(1) improves_refl step f
        by (auto simp: relaxed_def not_less split: option.splits)
    next
      case imp: True
      have bit: "\<not> bit m x" using al by (simp add: allowed_next_def Let_def)
      have c: "?c < length T" using dp_index_less [OF with_bit_less [OF m x(2)] x(2)] len by simp
      have eq: "feasible_next i m j t x T = T[?c := Some f]" using step imp by simp
      have route: "reaches i start (ls @ [x]) f"
        using reaches_snoc [OF wf r] al f cell by simp
      have ?ok unfolding eq table_ok_def Let_def
      proof (intro conjI allI impI)
        fix m' j' t'
        assume *: "m' < 2 ^ ?n" "j' < ?n" "T[?c := Some f] ! dp_index m' j' ?n = Some t'"
        show "\<exists>ls. reaches i start ls t' \<and> mask_of ls = m' \<and> List.last ls = j'"
        proof (cases "m' = with_bit m x \<and> j' = x")
          case True
          then show ?thesis using * route c cell by (intro exI [of _ "ls @ [x]"]) auto
        next
          case False
          then have "T ! dp_index m' j' ?n = Some t'"
            using * dp_index_eq_iff [OF *(2) x(2), of m' "with_bit m x"] by auto
          then show ?thesis using assms(1) * by (auto simp: table_ok_def Let_def)
        qed
      qed (use wf len in auto)
      moreover have ?le using imp c unfolding eq improves_on_def
        by (auto simp: nth_list_update split: option.splits)
      moreover have ?frozen if "k \<le> m" "h < ?n"
        using dp_index_eq_iff [OF that(2) x(2), of k "with_bit m x"] with_bit_greater [OF bit] that
        unfolding eq cell_labels_def by (auto simp: nth_list_update)
      moreover have ?closed using c f unfolding eq relaxed_def by auto
      ultimately show ?thesis by blast
    qed
  qed
  then show ?ok ?le "k \<le> m \<Longrightarrow> h < ?n \<Longrightarrow> ?frozen" ?closed by blast+
qed

section \<open>The whole pass\<close>

lemma label_reaches:
  assumes "table_ok i start T" and "m < 2 ^ length (locations (input_problem i))"
    and "j < length (locations (input_problem i))" and "t \<in> set (cell_labels i T m j)"
  obtains ls where "reaches i start ls t" and "mask_of ls = m" and "List.last ls = j"
proof -
  have "T ! dp_index m j (length (locations (input_problem i))) = Some t"
    using assms(4) by (auto simp: cell_labels_def split: option.splits)
  then have "\<exists>ls. reaches i start ls t \<and> mask_of ls = m \<and> List.last ls = j"
    using assms(1-3) unfolding table_ok_def Let_def by blast
  then show thesis using that by blast
qed

definition expand_label :: "solver_input \<Rightarrow> nat \<Rightarrow> nat \<Rightarrow> u16 \<Rightarrow> u16 option list \<Rightarrow> u16 option list" where
  "expand_label i m j t T =
     fold (feasible_next i m j t) [1..<length (locations (input_problem i))] T"

lemma expand_label_step:
  assumes "table_ok i start T" and m: "m < 2 ^ length (locations (input_problem i))"
    and j: "j < length (locations (input_problem i))" and t: "t \<in> set (cell_labels i T m j)"
  shows "table_ok i start (expand_label i m j t T) \<and> improves_on T (expand_label i m j t T) \<and>
    (\<forall>k\<le>m. \<forall>h<length (locations (input_problem i)).
      cell_labels i (expand_label i m j t T) k h = cell_labels i T k h) \<and>
    all_relaxed i m j t (expand_label i m j t T)"
proof -
  let ?n = "length (locations (input_problem i))"
  let ?le = "\<lambda>T U. improves_on T U \<and> (\<forall>k\<le>m. \<forall>h<?n. cell_labels i U k h = cell_labels i T k h)"
  obtain ls where ls: "reaches i start ls t" "mask_of ls = m" "List.last ls = j"
    using label_reaches [OF assms] .
  have le: "progress ?le"
    by unfold_locales (auto intro: improves_refl improves_trans)
  have "table_ok i start (expand_label i m j t T) \<and> ?le T (expand_label i m j t T) \<and>
      (\<forall>x\<in>set [1..<?n]. relaxed i m j t x (expand_label i m j t T))"
    unfolding expand_label_def
  proof (rule progress.fold_each [OF le])
    fix x U
    assume x: "x \<in> set [1..<?n]" and U: "table_ok i start U"
    note step = feasible_next_step [OF U ls(1,2,3), of x]
    show "table_ok i start (feasible_next i m j t x U) \<and> ?le U (feasible_next i m j t x U) \<and>
        relaxed i m j t x (feasible_next i m j t x U)"
      using step x by simp
  qed (use assms(1) in \<open>auto intro: relaxed_mono\<close>)
  moreover have "relaxed i m j t x U" if "x \<notin> set [1..<?n]" for x U
    using that by (auto simp: relaxed_def allowed_next_def Let_def)
  ultimately show ?thesis unfolding all_relaxed_def by blast
qed

interpretation feasible: relaxation "table_ok i start" improves_on
  "length (locations (input_problem i))" "cell_labels i" "expand_label i" "all_relaxed i"
  for i start
proof unfold_locales
  let ?n = "length (locations (input_problem i))"
  show "improves_on T T" for T by (rule improves_refl)
  show "improves_on T U \<Longrightarrow> improves_on U V \<Longrightarrow> improves_on T V" for T U V
    by (rule improves_trans)
  show "\<lbrakk>table_ok i start T; 0 < m; m < 2 ^ ?n; j < ?n; t \<in> set (cell_labels i T m j)\<rbrakk> \<Longrightarrow>
      table_ok i start (expand_label i m j t T) \<and> improves_on T (expand_label i m j t T) \<and>
      (\<forall>k\<le>m. \<forall>h<?n. cell_labels i (expand_label i m j t T) k h = cell_labels i T k h) \<and>
      all_relaxed i m j t (expand_label i m j t T)" for T m j t
    by (rule expand_label_step)
  show "\<lbrakk>table_ok i start T; table_ok i start U; improves_on T U; 0 < m; m < 2 ^ ?n; j < ?n;
      t \<in> set (cell_labels i T m j); all_relaxed i m j t T\<rbrakk> \<Longrightarrow> all_relaxed i m j t U" for T U m j t
    unfolding all_relaxed_def using relaxed_mono by blast
qed

lemma feasible_mask_loops:
  "feasible_mask i m T = fold (\<lambda>j U. fold (expand_label i m j) (cell_labels i U m j) U)
    [0..<length (locations (input_problem i))] T"
proof -
  have "feasible_last i m = (\<lambda>j U. fold (expand_label i m j) (cell_labels i U m j) U)"
    by (rule ext, rule ext)
      (simp add: feasible_last_def cell_labels_def expand_label_def Let_def split: option.splits)
  then show ?thesis by (simp add: feasible_mask_def)
qed

lemma feasible_masks_fold:
  "never_cancelled i \<Longrightarrow> feasible_masks i start ms T = Inr (fold (feasible_mask i) ms T)"
  by (induction ms arbitrary: T) (auto simp: never_cancelled_def)

text \<open>Every partial route has a label that finishes no later.\<close>

lemma table_complete:
  assumes "wf_input i" and closed: "feasible.all_closed i (2 ^ length (locations (input_problem i))) T"
    and init: "serve (locations (input_problem i) ! 0) start = Some (w0, f0)"
    and T0: "T ! dp_index 1 0 (length (locations (input_problem i))) = Some t0" "t0 \<le> f0"
    and "reaches i start ls f"
  shows "\<exists>t\<le>f. T ! dp_index (mask_of ls) (List.last ls) (length (locations (input_problem i))) = Some t"
  using assms(6)
proof (induction ls arbitrary: f rule: rev_induct)
  case Nil
  then show ?case by (simp add: reaches_def partial_route_def Let_def)
next
  case (snoc x ls)
  let ?p = "input_problem i" and ?n = "length (locations (input_problem i))"
  show ?case
  proof (cases "ls = []")
    case True
    then have "x = 0" using snoc.prems by (simp add: reaches_def partial_route_def Let_def)
    then have "f = f0" using snoc.prems True init by (auto simp: reaches_def route_walk_single)
    then show ?thesis using T0 True \<open>x = 0\<close> by (simp add: mask_of_singleton)
  next
    case False
    have pr: "partial_route ?p (all_mask i) ls" "x \<notin> set ls" "x < ?n"
      "x = ?n - 1 \<Longrightarrow> all_mask i (with_bit (mask_of ls) x)"
      using snoc.prems by (auto simp: reaches_def partial_route_snoc [OF False])
    note cell = partial_route_cell [OF pr(1)]
    obtain f1 r w d w1 where walk: "route_walk ?p (input_matrix i) ls start = Some (f1, r, w)"
      and d: "travel_minutes (input_matrix i) (List.last ls) x = Some d"
      and sv: "serve (locations ?p ! x) (f1 + d) = Some (w1, f)"
      using snoc.prems by (auto simp: reaches_def route_walk_snoc [OF False])
    obtain t where t: "t \<le> f1" "T ! dp_index (mask_of ls) (List.last ls) ?n = Some t"
      using snoc.IH [of f1] pr(1) walk by (auto simp: reaches_def)
    have "all_relaxed i (mask_of ls) (List.last ls) t T"
      using closed t(2) cell(1,2,6) by (simp add: feasible.all_closed_def cell_labels_def)
    moreover have "allowed_next i (mask_of ls) x"
      using pr cell(4) by (cases x) (auto simp: allowed_next_def Let_def)
    moreover obtain f' where "transition_time i (List.last ls) x t = Some f'" "f' \<le> f"
    proof -
      have "wf_location (locations ?p ! x)"
        using assms(1) pr(3) by (simp add: wf_input_def wf_problem_nth)
      moreover obtain w' f' where "serve (locations ?p ! x) (t + d) = Some (w', f')" "f' \<le> f"
        using serve_mono [OF sv add_le_mono1 [OF t(1)]] by blast
      ultimately show thesis using that d by (simp add: transition_time_serve)
    qed
    ultimately show ?thesis
      unfolding all_relaxed_def relaxed_def by (metis last_snoc mask_of_snoc order_trans)
  qed
qed

text \<open>The orders the pass decides about: every location, between the fixed endpoints.\<close>

definition complete_order :: "optimization_problem \<Rightarrow> nat list \<Rightarrow> bool" where
  "complete_order p ls \<longleftrightarrow> (let n = length (locations p) in
     ls \<noteq> [] \<and> hd ls = 0 \<and> List.last ls = n - 1 \<and> distinct ls \<and> set ls = {..<n})"

lemma complete_order_valid:
  "visit_policy p = AllRequired \<Longrightarrow> complete_order p ls \<longleftrightarrow> valid_order p ls"
  by (auto simp: complete_order_def valid_order_def Let_def)

lemma complete_order_partial:
  assumes "1 < length (locations (input_problem i))"
  shows "complete_order (input_problem i) ls \<longleftrightarrow>
    partial_route (input_problem i) (all_mask i) ls \<and> all_mask i (mask_of ls) \<and>
    List.last ls = length (locations (input_problem i)) - 1"
proof -
  let ?n = "length (locations (input_problem i))"
  have "?n - 1 \<notin> set (butlast ls)" if "distinct ls" "ls \<noteq> []" "List.last ls = ?n - 1"
    using that by (metis append_butlast_last_id distinct_butlast not_distinct_conv_prefix)
  moreover have "all_mask i (mask_of ls) \<longleftrightarrow> set ls = {..<?n}" if "set ls \<subseteq> {..<?n}"
    using mask_of_full [OF that] by (simp add: all_mask_def)
  ultimately show ?thesis
    by (auto simp: complete_order_def partial_route_def Let_def)
qed

lemma initial_table_ok:
  assumes "wf_input i" and "1 < length (locations (input_problem i))"
    and "serve (locations (input_problem i) ! 0) start = Some (w0, f0)"
  shows "table_ok i start ((replicate (2 ^ length (locations (input_problem i)) *
    length (locations (input_problem i))) None)
      [dp_index 1 0 (length (locations (input_problem i))) := Some f0])"
    (is "table_ok i start (?T [?c := _])")
proof -
  let ?p = "input_problem i" and ?n = "length (locations (input_problem i))"
  have c: "?c < 2 ^ ?n * ?n" using assms(2) by (intro dp_index_less two_cells) auto
  have "\<exists>ls. reaches i start ls t \<and> mask_of ls = m \<and> List.last ls = j"
    if "m < 2 ^ ?n" "j < ?n" "?T [?c := Some f0] ! dp_index m j ?n = Some t" for m j t
  proof -
    have "dp_index m j ?n < 2 ^ ?n * ?n" using that by (intro dp_index_less)
    then have "dp_index m j ?n = ?c \<and> t = f0"
      using that c by (auto simp: nth_list_update split: if_splits)
    then have "m = 1" "j = 0" "t = f0" using dp_index_eq_iff [of j ?n 0 m 1] that assms(2) by linarith+
    then show ?thesis using assms(3) partial_route_single [OF assms(2)]
      by (intro exI [of _ "[0]"]) (auto simp: reaches_def route_walk_single mask_of_singleton)
  qed
  then show ?thesis using assms(1) by (simp add: table_ok_def Let_def)
qed

lemma feasible_pass:
  assumes "wf_input i" and "1 < length (locations (input_problem i))"
    and init: "serve (locations (input_problem i) ! 0) start = Some (w0, f0)"
  defines "n \<equiv> length (locations (input_problem i))"
  defines "T \<equiv> fold (feasible_mask i) [1..<2 ^ n]
      ((replicate (2 ^ n * n) None)[dp_index 1 0 n := Some f0])"
  shows "T ! dp_index (full_mask n) (n - 1) n \<noteq> None \<longleftrightarrow>
    (\<exists>ls. complete_order (input_problem i) ls \<and>
      route_walk (input_problem i) (input_matrix i) ls start \<noteq> None)"
proof -
  let ?T0 = "(replicate (2 ^ n * n) None)[dp_index 1 0 n := Some f0]"
  have ok0: "table_ok i start ?T0"
    using initial_table_ok [OF assms(1,2) init] by (simp add: n_def)
  have loops: "feasible_mask i = (\<lambda>m T. fold (\<lambda>j U. fold (expand_label i m j) (cell_labels i U m j) U) [0..<n] T)"
    by (rule ext, rule ext) (simp add: feasible_mask_loops n_def)
  have pass: "table_ok i start T" "improves_on ?T0 T" "feasible.all_closed i (2 ^ n) T"
    using feasible.masks_loop [OF ok0, of "2 ^ n"] unfolding T_def loops n_def by blast+
  have "dp_index 1 0 n < 2 ^ n * n" using assms(2) by (intro dp_index_less two_cells) (auto simp: n_def)
  then obtain t0 where t0: "T ! dp_index 1 0 n = Some t0" "t0 \<le> f0"
    using pass(2) unfolding improves_on_def by (metis length_list_update length_replicate nth_list_update_eq)
  note full = complete_order_partial [OF assms(2)]
  have n: "n - 1 < n" using assms(2) by (simp add: n_def)
  show ?thesis
  proof
    assume "T ! dp_index (full_mask n) (n - 1) n \<noteq> None"
    then obtain t ls where "reaches i start ls t" "mask_of ls = full_mask n" "List.last ls = n - 1"
      using pass(1) n full_mask_less unfolding table_ok_def Let_def n_def [symmetric] by (meson not_None_eq)
    then show "\<exists>ls. complete_order (input_problem i) ls \<and>
        route_walk (input_problem i) (input_matrix i) ls start \<noteq> None"
      unfolding full by (auto simp: reaches_def all_mask_def n_def)
  next
    assume "\<exists>ls. complete_order (input_problem i) ls \<and>
        route_walk (input_problem i) (input_matrix i) ls start \<noteq> None"
    then obtain ls f where "reaches i start ls f" "mask_of ls = full_mask n" "List.last ls = n - 1"
      unfolding full reaches_def by (auto simp: all_mask_def n_def)
    then show "T ! dp_index (full_mask n) (n - 1) n \<noteq> None"
      using table_complete [OF assms(1) _ init, of T t0 ls f] pass(3) t0 by (auto simp: n_def)
  qed
qed

lemma is_feasible_at_start_iff:
  assumes "wf_input i" and "never_cancelled i" and "start < 1440"
  shows "is_feasible_at_start i start =
    Inr (\<exists>ls. complete_order (input_problem i) ls \<and>
      route_walk (input_problem i) (input_matrix i) ls start \<noteq> None)"
proof -
  let ?p = "input_problem i" and ?n = "length (locations (input_problem i))"
  have p: "wf_problem ?p" using assms(1) by (simp add: wf_input_def)
  have n: "0 < ?n" by (rule wf_problem_length [OF p])
  have init: "initial_service i start =
      map_option (\<lambda>(w, f). \<lparr>departure_slot = f, initial_wait_minutes = w\<rparr>) (serve (locations ?p ! 0) start)"
    using initial_service_serve [OF p] assms(3) by simp
  show ?thesis
  proof (cases "serve (locations ?p ! 0) start")
    case None
    then show ?thesis by (simp add: is_feasible_at_start_def init route_walk_def)
  next
    case (Some wf)
    then obtain w0 f0 where s: "serve (locations ?p ! 0) start = Some (w0, f0)" by (cases wf) auto
    show ?thesis
    proof (cases "?n = 1")
      case True
      have "complete_order ?p [0]" using True by (auto simp: complete_order_def)
      moreover have "route_walk ?p (input_matrix i) [0] start \<noteq> None"
        by (simp add: route_walk_single s)
      ultimately show ?thesis using True by (auto simp: is_feasible_at_start_def init s simp del: not_None_eq)
    next
      case False
      then have n1: "1 < ?n" using n by linarith
      have full: "full_mask ?n + 1 = 2 ^ ?n" by (simp add: full_mask_eq)
      show ?thesis using feasible_pass [OF assms(1) n1 s] False
        unfolding is_feasible_at_start_def init s Let_def feasible_masks_fold [OF assms(2)]
          push_bit_of_1 end_location_index_def full
        by (simp del: not_None_eq)
    qed
  qed
qed

end
