(* ===== verification/Exact_Solver.thy ===== *)
theory Exact_Solver
  imports Exact_Feasible Exact_Search
begin

text \<open>
  The exact solver as a whole, under the default objective: the start it settles on for each
  policy, the agreement of its metrics with the common evaluator, and its optimality among
  all solutions the evaluator accepts.
\<close>

section \<open>Coverage\<close>

text \<open>The pair the best-effort target compares: optional visits, then their priority.\<close>

definition coverage :: "optimization_problem \<Rightarrow> nat list \<Rightarrow> nat \<times> nat" where
  "coverage p ls = (length (optional_visits p ls),
     sum_list (map (\<lambda>k. priority (locations p ! k)) (optional_visits p ls)))"

fun at_least :: "nat \<times> nat \<Rightarrow> nat \<times> nat \<Rightarrow> bool" where
  "at_least (c, q) (c', q') \<longleftrightarrow> c > c' \<or> (c = c' \<and> q \<ge> q')"

lemma at_least_trans: "at_least a b \<Longrightarrow> at_least b c \<Longrightarrow> at_least a c"
  by (cases a; cases b; cases c) auto

lemma at_least_refl: "at_least a a"
  by (cases a) auto

lemma route_metrics_coverage [simp]:
  "(visited_optional_count (route_metrics obj p ls start s),
    visited_optional_priority (route_metrics obj p ls start s)) = coverage p ls"
  "visited_optional_count (route_metrics obj p ls start s) = fst (coverage p ls)"
  "visited_optional_priority (route_metrics obj p ls start s) = snd (coverage p ls)"
  by (cases s, simp add: route_metrics_def coverage_def)+

lemma default_compare_coverage:
  "default_compare a b \<noteq> Greater \<Longrightarrow>
    at_least (visited_optional_count a, visited_optional_priority a)
      (visited_optional_count b, visited_optional_priority b)"
  by (auto simp: default_compare_def cmp_def Let_def split: if_splits)

lemma default_compare_less:
  assumes "at_least (visited_optional_count a, visited_optional_priority a)
      (visited_optional_count b, visited_optional_priority b)"
    and "metric_start_policy a = Latest" and "start_time_slot b < start_time_slot a"
  shows "default_compare a b = Less"
  using assms by (auto simp: default_compare_def Let_def)

lemma default_compare_coverage_less:
  assumes "at_least (visited_optional_count a, visited_optional_priority a)
      (visited_optional_count b, visited_optional_priority b)"
    and "\<not> at_least (visited_optional_count b, visited_optional_priority b)
      (visited_optional_count a, visited_optional_priority a)"
  shows "default_compare a b = Less"
  using assms by (auto simp: default_compare_def Let_def)

lemma coverage_all:
  assumes "visit_policy p = AllRequired" and "valid_order p ls" and "valid_order p ks"
  shows "coverage p ls = coverage p ks"
  using coverage_cong [of p ls ks] assms by (auto simp: coverage_def valid_order_def Let_def)

section \<open>The start a policy settles on\<close>

definition exact_input :: "solver_input \<Rightarrow> bool" where
  "exact_input i \<longleftrightarrow> wf_input i \<and> never_cancelled i \<and>
     length (locations (input_problem i)) \<le> exact_max_locations \<and>
     matrix_size (input_matrix i) = length (locations (input_problem i)) \<and>
     required (locations (input_problem i) ! 0)"

lemma exact_search_input: "exact_input i \<Longrightarrow> search_input i"
  by (simp add: exact_input_def search_input_def exact_max_locations_def)

lemma exact_search:
  assumes "exact_input i" and "start < 1440"
  obtains r where "search_at_start default_objective time_cost_dominates i start = Inr r"
    and "best_from i start r"
  using search_at_start_best [OF exact_search_input [OF assms(1)] _ assms(2)] assms(1)
  by (auto simp: exact_input_def)

text \<open>A route that works from a start works from every earlier one.\<close>

lemma route_walk_earlier:
  "route_walk p m ls b \<noteq> None \<Longrightarrow> a \<le> b \<Longrightarrow> route_walk p m ls a \<noteq> None"
  using route_start.antitone by blast

text \<open>
  What a result must satisfy to be the solver's answer: it is the best of its start; the start
  is the requested one, or the latest at which no order of at least the same coverage works
  any more; and no order of more coverage works from the requested start.
\<close>

definition settled :: "solver_input \<Rightarrow> u16 \<Rightarrow> exact_solve_result \<Rightarrow> bool" where
  "settled i s res \<longleftrightarrow>
     (let p = input_problem i; low = minutes (start_time p); order = visit_order (exact_solution res) in
      low \<le> s \<and> s < 1440 \<and> best_from i s (Some res) \<and>
      (start_policy p \<noteq> Latest \<longrightarrow> s = low) \<and>
      (start_policy p = Latest \<longrightarrow> (\<forall>ls s'. s < s' \<longrightarrow> s' < 1440 \<longrightarrow> valid_order p ls \<longrightarrow>
         route_walk p (input_matrix i) ls s' \<noteq> None \<longrightarrow> \<not> at_least (coverage p ls) (coverage p order))) \<and>
      (\<forall>ls. valid_order p ls \<longrightarrow> route_walk p (input_matrix i) ls low \<noteq> None \<longrightarrow>
         at_least (coverage p order) (coverage p ls)))"

lemma best_from_Some:
  assumes "best_from i s (Some res)"
  defines "p \<equiv> input_problem i" and "order \<equiv> visit_order (exact_solution res)"
  obtains c where "valid_order p order" and "route_walk p (input_matrix i) order s = Some c"
    and "exact_metrics res = route_metrics default_objective p order s c"
    and "\<And>ls d. valid_order p ls \<Longrightarrow> route_walk p (input_matrix i) ls s = Some d \<Longrightarrow>
      default_compare (exact_metrics res) (route_metrics default_objective p ls s d) \<noteq> Greater"
  using assms by (auto simp: best_from_def Let_def simp del: split_paired_Ex split_paired_All)

lemma settled_evaluates:
  assumes ex: "exact_input i" and "settled i s res"
  shows "evaluate_solution default_objective i (exact_solution res) = Inr (exact_metrics res)"
proof -
  let ?p = "input_problem i" and ?m = "input_matrix i" and ?o = "visit_order (exact_solution res)"
  let ?low = "minutes (start_time ?p)"
  have wf: "wf_input i" "never_cancelled i" "matrix_size ?m = length (locations ?p)"
    using ex by (auto simp: exact_input_def)
  have st: "?low \<le> s" "s < 1440" "best_from i s (Some res)" "start_policy ?p \<noteq> Latest \<Longrightarrow> s = ?low"
    and late: "\<And>s'. start_policy ?p = Latest \<Longrightarrow> s < s' \<Longrightarrow> s' < 1440 \<Longrightarrow> valid_order ?p ?o \<Longrightarrow>
      route_walk ?p ?m ?o s' = None"
    using assms(2) at_least_refl unfolding settled_def Let_def by blast+
  obtain c where c: "valid_order ?p ?o" "route_walk ?p ?m ?o s = Some c"
    "exact_metrics res = route_metrics default_objective ?p ?o s c"
    using best_from_Some [OF st(3)] by metis
  have low: "route_walk ?p ?m ?o ?low \<noteq> None" by (rule route_walk_earlier [OF _ st(1)]) (simp add: c)
  have slot: "(if start_policy ?p = Latest
      then latest_slot (\<lambda>s. route_walk ?p ?m ?o s \<noteq> None) ?low 1439 else ?low) = s"
  proof (cases "start_policy ?p = Latest")
    case True
    let ?slot = "latest_slot (\<lambda>s. route_walk ?p ?m ?o s \<noteq> None) ?low 1439"
    have "?low \<le> 1439" using st(1,2) by simp
    note spec = route_slot_spec [OF low this]
    have "\<not> ?slot < s" using spec(4) [of s] c(2) st(2) by auto
    moreover have "\<not> s < ?slot" using late [OF True, of ?slot] spec(1,3) c(1) by auto
    ultimately show ?thesis using True by simp
  qed (use st(4) in simp)
  show ?thesis
    using c low unfolding evaluate_solution_cases [OF wf(1,2)] Let_def slot
    by (simp add: wf(3) del: split_paired_Ex split_paired_All not_None_eq)
qed

lemma settled_optimal:
  assumes ex: "exact_input i" and st: "settled i s res"
    and ev: "evaluate_solution default_objective i sol = Inr mt"
  shows "default_compare (exact_metrics res) mt \<noteq> Greater"
proof -
  let ?p = "input_problem i" and ?m = "input_matrix i" and ?o = "visit_order (exact_solution res)"
  let ?low = "minutes (start_time ?p)" and ?t = "start_time_slot mt"
  have wf: "wf_input i" "never_cancelled i" using ex by (auto simp: exact_input_def)
  note e = evaluate_solution_Inr [OF wf ev]
  obtain d where d: "route_walk ?p ?m (visit_order sol) ?t = Some d"
    and mt: "mt = route_metrics default_objective ?p (visit_order sol) ?t d" using e(5) by blast
  have s: "best_from i s (Some res)" "start_policy ?p \<noteq> Latest \<Longrightarrow> s = ?low"
    using st unfolding settled_def Let_def by blast+
  obtain c where c: "exact_metrics res = route_metrics default_objective ?p ?o s c"
    and least: "\<And>ls d. valid_order ?p ls \<Longrightarrow> route_walk ?p ?m ls s = Some d \<Longrightarrow>
      default_compare (exact_metrics res) (route_metrics default_objective ?p ls s d) \<noteq> Greater"
    using best_from_Some [OF s(1)] by metis
  have "route_walk ?p ?m (visit_order sol) ?low \<noteq> None"
    by (rule route_walk_earlier [OF _ e(3)]) (simp add: d)
  then have cover: "at_least (coverage ?p ?o) (coverage ?p (visit_order sol))"
    using st e(1) unfolding settled_def Let_def by blast
  show ?thesis
  proof (cases "?t = s")
    case True
    then show ?thesis using least [OF e(1)] d mt by metis
  next
    case False
    then have pol: "start_policy ?p = Latest" using s(2) e(6) by metis
    have covm: "(visited_optional_count mt, visited_optional_priority mt) = coverage ?p (visit_order sol)"
      "(visited_optional_count (exact_metrics res), visited_optional_priority (exact_metrics res)) = coverage ?p ?o"
      unfolding c by (subst mt, simp add: prod_eq_iff)+ (simp add: prod_eq_iff)
    consider "?t < s" | "s < ?t" using False by linarith
    then show ?thesis
    proof cases
      case 1
      have "metric_start_policy (exact_metrics res) = Latest" "start_time_slot (exact_metrics res) = s"
        by (simp_all add: c pol)
      then show ?thesis using default_compare_less [of "exact_metrics res" mt] cover covm 1 by simp
    next
      case 2
      then have "\<not> at_least (coverage ?p (visit_order sol)) (coverage ?p ?o)"
        using st e(1,4) d pol unfolding settled_def Let_def by (metis option.distinct(1))
      then show ?thesis using default_compare_coverage_less [of "exact_metrics res" mt] cover covm by simp
    qed
  qed
qed

section \<open>The solver\<close>

lemma best_from_search:
  assumes "exact_input i" and "s < 1440"
  shows "(\<exists>res. search_or_fail default_objective time_cost_dominates i s = Inr res \<and> best_from i s (Some res)) \<or>
    (search_or_fail default_objective time_cost_dominates i s = Inl NoFeasibleRoute \<and> best_from i s None)"
proof -
  obtain r where "search_at_start default_objective time_cost_dominates i s = Inr r" "best_from i s r"
    by (rule exact_search [OF assms])
  then show ?thesis by (cases r) (auto simp: search_or_fail_def ok_or_def)
qed

lemma best_from_covers:
  assumes "best_from i s (Some res)" and "valid_order (input_problem i) ls"
    and "route_walk (input_problem i) (input_matrix i) ls s \<noteq> None"
  shows "at_least (coverage (input_problem i) (visit_order (exact_solution res))) (coverage (input_problem i) ls)"
proof -
  obtain c where c: "exact_metrics res = route_metrics default_objective (input_problem i) (visit_order (exact_solution res)) s c"
    and least: "\<And>d. route_walk (input_problem i) (input_matrix i) ls s = Some d \<Longrightarrow>
      default_compare (exact_metrics res) (route_metrics default_objective (input_problem i) ls s d) \<noteq> Greater"
    using best_from_Some [OF assms(1)] assms(2) by metis
  obtain d where "route_walk (input_problem i) (input_matrix i) ls s = Some d" using assms(3) by blast
  from default_compare_coverage [OF least [OF this]] show ?thesis by (simp add: c prod_eq_iff)
qed

lemma settled_requested:
  assumes "exact_input i" and "start_policy (input_problem i) \<noteq> Latest"
    and "best_from i (minutes (start_time (input_problem i))) (Some res)"
  shows "settled i (minutes (start_time (input_problem i))) res"
proof -
  have "minutes (start_time (input_problem i)) < 1440"
    using assms(1) by (simp add: exact_input_def wf_input_def wf_problem_def wf_time_def)
  then show ?thesis
    using assms best_from_covers [OF assms(3)] unfolding settled_def Let_def by blast
qed

lemma settled_all_required:
  fixes i :: solver_input
  defines "p \<equiv> input_problem i" and "m \<equiv> input_matrix i" and "low \<equiv> minutes (start_time (input_problem i))"
  defines "ok \<equiv> (\<lambda>s. \<exists>ls. valid_order p ls \<and> route_walk p m ls s \<noteq> None)"
  assumes ex: "exact_input i" and pol: "start_policy p = Latest" "visit_policy p = AllRequired"
    and "ok low" and best: "best_from i (latest_slot ok low 1439) (Some res)"
  shows "settled i (latest_slot ok low 1439) res"
proof -
  have lowp: "low = minutes (start_time p)" by (simp add: low_def p_def)
  have low: "low \<le> 1439"
    using ex by (simp add: exact_input_def wf_input_def wf_problem_def wf_time_def low_def)
  have "antitone_test ok"
    by unfold_locales (use route_walk_earlier in \<open>unfold ok_def, blast\<close>)
  from antitone_test.latest_slot_spec [OF this \<open>ok low\<close> low]
  have slot: "low \<le> latest_slot ok low 1439" "latest_slot ok low 1439 \<le> 1439"
    "\<And>s. s \<le> 1439 \<Longrightarrow> ok s \<Longrightarrow> s \<le> latest_slot ok low 1439" by auto
  have v: "valid_order p (visit_order (exact_solution res))"
    using best_from_Some [OF best] by (metis p_def)
  have "\<not> ok s" if "latest_slot ok low 1439 < s" "s < 1440" for s using slot(3) [of s] that by force
  then show ?thesis
    using slot(1,2) best pol coverage_all [OF pol(2) v] at_least_refl
    unfolding settled_def Let_def p_def [symmetric] lowp [symmetric] m_def [symmetric] ok_def
    by (auto simp del: not_None_eq split_paired_Ex split_paired_All)
qed

text \<open>The best-effort search keeps the coverage of the best order of the requested start.\<close>

lemma preserves_target_iff:
  assumes "exact_input i" and "s < 1440"
  shows "preserves_target default_objective time_cost_dominates i cov s =
    Inr (\<exists>ls. valid_order (input_problem i) ls \<and>
      route_walk (input_problem i) (input_matrix i) ls s \<noteq> None \<and> at_least (coverage (input_problem i) ls) cov)"
proof -
  let ?p = "input_problem i" and ?m = "input_matrix i"
  obtain r where r: "search_at_start default_objective time_cost_dominates i s = Inr r" "best_from i s r"
    by (rule exact_search [OF assms])
  show ?thesis
  proof (cases r)
    case None
    then have "route_walk ?p ?m ls s = None" if "valid_order ?p ls" for ls
      using r(2) that by (simp add: best_from_def Let_def)
    then show ?thesis using r(1) None by (auto simp: preserves_target_def)
  next
    case (Some res)
    let ?o = "visit_order (exact_solution res)"
    obtain c where c: "valid_order ?p ?o" "route_walk ?p ?m ?o s = Some c"
      "exact_metrics res = route_metrics default_objective ?p ?o s c"
      using best_from_Some [OF r(2) [unfolded Some]] by metis
    have "preserves_target default_objective time_cost_dominates i cov s = Inr (at_least (coverage ?p ?o) cov)"
      using r(1) Some by (cases cov) (auto simp: preserves_target_def c(3) coverage_def)
    moreover have "at_least (coverage ?p ?o) cov \<longleftrightarrow> (\<exists>ls. valid_order ?p ls \<and>
        route_walk ?p ?m ls s \<noteq> None \<and> at_least (coverage ?p ls) cov)"
      using best_from_covers [OF r(2) [unfolded Some]] at_least_trans c(1,2)
      by (metis option.distinct(1))
    ultimately show ?thesis by simp
  qed
qed

lemma settled_best_effort:
  fixes i :: solver_input
  defines "p \<equiv> input_problem i" and "m \<equiv> input_matrix i" and "low \<equiv> minutes (start_time (input_problem i))"
  assumes ex: "exact_input i" and pol: "start_policy p = Latest"
    and target: "best_from i low (Some target)"
  defines "ok \<equiv> (\<lambda>s. \<exists>ls. valid_order p ls \<and> route_walk p m ls s \<noteq> None \<and>
      at_least (coverage p ls) (coverage p (visit_order (exact_solution target))))"
  shows "latest_slot ok low 1439 < 1440" and "\<not> best_from i (latest_slot ok low 1439) None"
    and "best_from i (latest_slot ok low 1439) (Some res) \<Longrightarrow> settled i (latest_slot ok low 1439) res"
proof -
  let ?cov = "coverage p (visit_order (exact_solution target))" and ?slot = "latest_slot ok low 1439"
  have lowp: "low = minutes (start_time p)" by (simp add: low_def p_def)
  have low: "low \<le> 1439"
    using ex by (simp add: exact_input_def wf_input_def wf_problem_def wf_time_def low_def)
  obtain c where "valid_order p (visit_order (exact_solution target))"
    "route_walk p m (visit_order (exact_solution target)) low = Some c"
    using best_from_Some [OF target] unfolding p_def m_def by metis
  then have okl: "ok low" unfolding ok_def using at_least_refl by blast
  have "antitone_test ok"
    by unfold_locales (use route_walk_earlier in \<open>unfold ok_def, blast\<close>)
  from antitone_test.latest_slot_spec [OF this okl low]
  have slot: "ok ?slot" "low \<le> ?slot" "?slot \<le> 1439" "\<And>s. s \<le> 1439 \<Longrightarrow> ok s \<Longrightarrow> s \<le> ?slot" by auto
  show "?slot < 1440" using slot(3) by simp
  show "\<not> best_from i ?slot None"
    using slot(1) by (auto simp: best_from_def ok_def p_def m_def Let_def)
  assume best: "best_from i ?slot (Some res)"
  let ?o = "visit_order (exact_solution res)"
  obtain ls where ls: "valid_order p ls" "route_walk p m ls ?slot \<noteq> None" "at_least (coverage p ls) ?cov"
    using slot(1) unfolding ok_def by blast
  have "at_least (coverage p ?o) (coverage p ls)"
    using best_from_covers [OF best] ls(1,2) by (simp add: p_def m_def)
  then have cov: "at_least (coverage p ?o) ?cov" using ls(3) at_least_trans by blast
  have later: "\<not> at_least (coverage p ks) (coverage p ?o)"
    if "?slot < s" "s < 1440" "valid_order p ks" "route_walk p m ks s \<noteq> None" for ks s
  proof
    assume "at_least (coverage p ks) (coverage p ?o)"
    then have "ok s" using that(3,4) cov at_least_trans unfolding ok_def by blast
    then show False using slot(4) [of s] that by simp
  qed
  have all: "at_least (coverage p ?o) (coverage p ks)" if "valid_order p ks" "route_walk p m ks low \<noteq> None" for ks
    using best_from_covers [OF target] that cov at_least_trans unfolding p_def m_def low_def by blast
  show "settled i ?slot res"
    using slot(2,3) best pol later all
    unfolding settled_def Let_def p_def [symmetric] lowp [symmetric] m_def [symmetric]
    by (simp del: not_None_eq split_paired_Ex split_paired_All)
qed

lemma solve_detailed_settled:
  assumes ex: "exact_input i"
  shows "(\<exists>s res. solve_detailed default_objective time_cost_dominates i = Inr res \<and> settled i s res) \<or>
    (solve_detailed default_objective time_cost_dominates i = Inl NoFeasibleRoute \<and>
     best_from i (minutes (start_time (input_problem i))) None)"
proof -
  let ?p = "input_problem i" and ?m = "input_matrix i"
  let ?low = "minutes (start_time ?p)"
  let ?solve = "solve_detailed default_objective time_cost_dominates i"
  let ?search = "search_or_fail default_objective time_cost_dominates i"
  have low: "?low < 1440" and n: "locations ?p \<noteq> []"
    using ex by (simp_all add: exact_input_def wf_input_def wf_problem_def wf_time_def)
  have "exact_validate i = Inr ()"
    using ex n by (simp add: exact_validate_def exact_input_def never_cancelled_def)
  then have solve: "?solve =
      (if start_policy ?p = Fixed \<or> start_policy ?p = Earliest then ?search ?low
       else if visit_policy ?p = BestEffortOnFailure then
         bind_result (?search ?low) (\<lambda>target.
           bind_result (try_latest_slot (preserves_target default_objective time_cost_dominates i
               (visited_optional_count (exact_metrics target), visited_optional_priority (exact_metrics target)))
             ?low 1439) ?search)
       else bind_result (is_feasible_at_start i ?low) (\<lambda>feasible.
           if \<not> feasible then Inl NoFeasibleRoute
           else bind_result (try_latest_slot (is_feasible_at_start i) ?low 1439) ?search))"
    using low by (simp add: solve_detailed_def Let_def)
  consider (requested) "start_policy ?p \<noteq> Latest"
    | (best_effort) "start_policy ?p = Latest" "visit_policy ?p = BestEffortOnFailure"
    | (all) "start_policy ?p = Latest" "visit_policy ?p = AllRequired"
    by (cases "visit_policy ?p") auto
  then show ?thesis
  proof cases
    case requested
    then have "?solve = ?search ?low" using solve by (cases "start_policy ?p") auto
    then show ?thesis using best_from_search [OF ex low] settled_requested [OF ex requested] by auto
  next
    case best_effort
    from best_from_search [OF ex low] show ?thesis
    proof (elim disjE exE conjE)
      fix target
      assume t: "?search ?low = Inr target" "best_from i ?low (Some target)"
      let ?ok = "\<lambda>s. \<exists>ls. valid_order ?p ls \<and> route_walk ?p ?m ls s \<noteq> None \<and>
        at_least (coverage ?p ls) (coverage ?p (visit_order (exact_solution target)))"
      have cov: "(visited_optional_count (exact_metrics target), visited_optional_priority (exact_metrics target)) =
          coverage ?p (visit_order (exact_solution target))"
        using best_from_Some [OF t(2)] by (metis route_metrics_coverage(1))
      have "try_latest_slot (preserves_target default_objective time_cost_dominates i
          (coverage ?p (visit_order (exact_solution target)))) ?low 1439 = Inr (latest_slot ?ok ?low 1439)"
        by (rule try_latest_slot_total) (simp add: preserves_target_iff [OF ex] del: not_None_eq)
      then have "?solve = ?search (latest_slot ?ok ?low 1439)"
        using solve best_effort t(1) by (simp add: cov del: not_None_eq)
      then show ?thesis
        using best_from_search [OF ex settled_best_effort(1) [OF ex best_effort(1) t(2)]]
          settled_best_effort(2,3) [OF ex best_effort(1) t(2)] by (elim disjE exE conjE) auto
    qed (use solve best_effort in simp)
  next
    case all
    let ?ok = "\<lambda>s. \<exists>ls. valid_order ?p ls \<and> route_walk ?p ?m ls s \<noteq> None"
    have feasible: "is_feasible_at_start i s = Inr (?ok s)" if "s < 1440" for s
      using is_feasible_at_start_iff [OF _ _ that] ex complete_order_valid [OF all(2)]
      by (simp add: exact_input_def del: not_None_eq)
    show ?thesis
    proof (cases "?ok ?low")
      case False
      then show ?thesis
        using solve all feasible [OF low] by (simp add: best_from_def Let_def del: not_None_eq split_paired_Ex)
    next
      case True
      have "try_latest_slot (is_feasible_at_start i) ?low 1439 = Inr (latest_slot ?ok ?low 1439)"
        by (rule try_latest_slot_total) (simp add: feasible del: not_None_eq)
      then have s: "?solve = ?search (latest_slot ?ok ?low 1439)"
        using solve all feasible [OF low] True by (simp del: not_None_eq)
      have "antitone_test ?ok"
        by unfold_locales (use route_walk_earlier in blast)
      from antitone_test.latest_slot_spec [OF this True, of 1439] low
      have slot: "?ok (latest_slot ?ok ?low 1439)" "latest_slot ?ok ?low 1439 < 1440"
        by (simp_all del: not_None_eq)
      then have "\<not> best_from i (latest_slot ?ok ?low 1439) None"
        unfolding best_from_def Let_def by (auto simp del: not_None_eq)
      then show ?thesis
        using best_from_search [OF ex slot(2)] settled_all_required [OF ex all True] s by auto
    qed
  qed
qed

lemma readme_exact: "exact_input (readme_input sp)"
  using readme_wf readme_not_cancelled
  by (simp add: exact_input_def readme_defs exact_max_locations_def matrix_size_def)

section \<open>Properties\<close>

lemma exact_optimal_facts:
  assumes "exact_input i" and "evaluate_solution default_objective i sol = Inr mt"
  shows "\<exists>res. solve_detailed default_objective time_cost_dominates i = Inr res \<and>
    evaluate_solution default_objective i (exact_solution res) = Inr (exact_metrics res) \<and>
    default_compare (exact_metrics res) mt \<noteq> Greater"
proof -
  have wf: "wf_input i" "never_cancelled i" using assms(1) by (auto simp: exact_input_def)
  note ev = evaluate_solution_Inr [OF wf assms(2)]
  have "route_walk (input_problem i) (input_matrix i) (visit_order sol) (minutes (start_time (input_problem i))) \<noteq> None"
    using route_walk_earlier [OF _ ev(3)] ev(5) by blast
  then have "\<not> best_from i (minutes (start_time (input_problem i))) None"
    using ev(1) by (auto simp: best_from_def Let_def)
  then show ?thesis
    using solve_detailed_settled [OF assms(1)] settled_evaluates [OF assms(1)]
      settled_optimal [OF assms(1) _ assms(2)] by blast
qed

text \<open>
  C1. The exact solver is optimal: whenever the common evaluator accepts any solution, under any
  start policy and any visit policy, the solver returns a result that the evaluator accepts
  with the very metrics the solver reported, and no accepted solution compares better.
\<close>

theorem exact_solver_optimal:
  assumes "exact_input i" and "evaluate_solution default_objective i sol = Inr mt"
  shows "\<exists>res. solve_detailed default_objective time_cost_dominates i = Inr res \<and>
    evaluate_solution default_objective i (exact_solution res) = Inr (exact_metrics res) \<and>
    default_compare (exact_metrics res) mt \<noteq> Greater"
  by (rule exact_optimal_facts [OF assms])

theorem exact_solver_optimal_witness:
  "\<exists>res. solve_detailed default_objective time_cost_dominates (readme_input Latest) = Inr res \<and>
    default_compare (exact_metrics res)
      \<lparr>metric_start_policy = Latest, visited_optional_count = 0, visited_optional_priority = 0,
       start_time_slot = 605, finish_time_slot = 730, metric_travel_minutes = 35,
       metric_wait_minutes = 0, metric_score = 35\<rparr> \<noteq> Greater"
  using exact_solver_optimal [OF readme_exact readme_evaluates] by blast

lemma exact_complete_facts:
  assumes "exact_input i"
  shows "if \<exists>sol. is_ok (evaluate_solution default_objective i sol)
    then is_ok (solve_detailed default_objective time_cost_dominates i)
    else solve_detailed default_objective time_cost_dominates i = Inl NoFeasibleRoute"
proof (cases "\<exists>s res. solve_detailed default_objective time_cost_dominates i = Inr res \<and> settled i s res")
  case True
  then show ?thesis using settled_evaluates [OF assms] by (auto simp: is_ok_iff)
next
  case False
  then have none: "solve_detailed default_objective time_cost_dominates i = Inl NoFeasibleRoute"
    "best_from i (minutes (start_time (input_problem i))) None"
    using solve_detailed_settled [OF assms] by blast+
  have "\<not> is_ok (evaluate_solution default_objective i sol)" for sol
  proof
    assume "is_ok (evaluate_solution default_objective i sol)"
    then obtain mt where mt: "evaluate_solution default_objective i sol = Inr mt" by (auto simp: is_ok_iff)
    note ev = evaluate_solution_Inr [OF _ _ mt]
    have "route_walk (input_problem i) (input_matrix i) (visit_order sol) (minutes (start_time (input_problem i))) \<noteq> None"
      using route_walk_earlier [OF _ ev(3)] ev(5) assms unfolding exact_input_def by blast
    then show False using none(2) ev(1) assms by (auto simp: best_from_def Let_def exact_input_def)
  qed
  then show ?thesis using none(1) by simp
qed

text \<open>
  The exact solver succeeds exactly when some solution is accepted by the evaluator; otherwise
  it reports that there is no feasible route.
\<close>

lemma exact_solver_complete:
  assumes "exact_input i"
  shows "if \<exists>sol. is_ok (evaluate_solution default_objective i sol)
    then is_ok (solve_detailed default_objective time_cost_dominates i)
    else solve_detailed default_objective time_cost_dominates i = Inl NoFeasibleRoute"
  by (rule exact_complete_facts [OF assms])

text \<open>
  C7. The feasibility pass decides, for every start of the day, whether some valid order of all
  locations works from it; it never reports a false positive or misses an order.
\<close>

theorem exact_feasibility_decides:
  assumes "wf_input i" and "never_cancelled i" and "start < 1440"
    and "visit_policy (input_problem i) = AllRequired"
  shows "is_feasible_at_start i start = Inr (\<exists>sol. validate_visit_order (input_problem i) sol = Inr () \<and>
    simulate_solution default_objective i sol start \<noteq> None)"
proof -
  have p: "wf_problem (input_problem i)" using assms(1) by (simp add: wf_input_def)
  have "(\<exists>sol. validate_visit_order (input_problem i) sol = Inr () \<and>
      simulate_solution default_objective i sol start \<noteq> None) \<longleftrightarrow>
    (\<exists>ls. valid_order (input_problem i) ls \<and>
      route_walk (input_problem i) (input_matrix i) ls start \<noteq> None)" (is "?L \<longleftrightarrow> ?R")
  proof
    assume ?L
    then show ?R
      using simulate_solution_walk [OF assms(1) _ assms(3)] validate_visit_order_iff [OF p]
      by (metis option.map_disc_iff)
  next
    assume ?R
    then obtain ls where ls: "valid_order (input_problem i) ls"
      "route_walk (input_problem i) (input_matrix i) ls start \<noteq> None" by blast
    then have "validate_visit_order (input_problem i) \<lparr>visit_order = ls\<rparr> = Inr ()"
      by (simp add: validate_visit_order_iff [OF p])
    moreover have "simulate_solution default_objective i \<lparr>visit_order = ls\<rparr> start \<noteq> None"
      using simulate_solution_walk [OF assms(1) _ assms(3), of "\<lparr>visit_order = ls\<rparr>"] ls
      by (simp del: not_None_eq)
    ultimately show ?L by blast
  qed
  then show ?thesis
    using is_feasible_at_start_iff [OF assms(1-3)] complete_order_valid [OF assms(4)]
    by (simp del: not_None_eq)
qed

theorem exact_feasibility_decides_witness:
  "is_feasible_at_start (readme_input Latest) 605 = Inr True"
proof -
  have "validate_visit_order (readme_problem Latest) readme_route = Inr ()"
    using validate_visit_order_iff [OF readme_wf(2)] readme_valid [of Latest] by simp
  moreover have "simulate_solution default_objective (readme_input Latest) readme_route 605 \<noteq> None"
    using simulate_solution_walk [of "readme_input Latest" readme_route 605] readme_wf(1)
      readme_valid [of Latest] readme_walk(3) [of Latest] by simp
  ultimately show ?thesis
    using exact_feasibility_decides [of "readme_input Latest" 605] readme_wf(1)
    by (simp del: not_None_eq) blast
qed

end
