(* ===== verification/Text.thy ===== *)
theory Text
  imports Domain
begin

text \<open>
  What the program uses of Rust's strings. A string is its list of UTF-8 bytes, so \<open>length\<close> is
  \<open>str::len\<close>; characters are counted by their first bytes, and white space is the
  \<open>White_Space\<close> property of Unicode, written out as the byte sequences that have it.
\<close>

abbreviation byte :: "char \<Rightarrow> nat" where
  "byte c \<equiv> of_char c"

text \<open>\<open>chars().count()\<close>: every byte except the continuation bytes.\<close>

definition continuation :: "char \<Rightarrow> bool" where
  "continuation c \<longleftrightarrow> byte c div 64 = 2"

definition char_count :: "string \<Rightarrow> usize" where
  "char_count s = length (filter (\<lambda>c. \<not> continuation c) s)"

section \<open>White space\<close>

definition white_space :: "nat list list" where
  "white_space =
     [[9], [10], [11], [12], [13], [32], [0xC2, 0x85], [0xC2, 0xA0], [0xE1, 0x9A, 0x80],
      [0xE2, 0x80, 0x80], [0xE2, 0x80, 0x81], [0xE2, 0x80, 0x82], [0xE2, 0x80, 0x83],
      [0xE2, 0x80, 0x84], [0xE2, 0x80, 0x85], [0xE2, 0x80, 0x86], [0xE2, 0x80, 0x87],
      [0xE2, 0x80, 0x88], [0xE2, 0x80, 0x89], [0xE2, 0x80, 0x8A], [0xE2, 0x80, 0xA8],
      [0xE2, 0x80, 0xA9], [0xE2, 0x80, 0xAF], [0xE2, 0x81, 0x9F], [0xE3, 0x80, 0x80]]"

definition starts_with :: "nat list \<Rightarrow> string \<Rightarrow> bool" where
  "starts_with bs s \<longleftrightarrow> take (length bs) (map byte s) = bs"

text \<open>The width of the white-space character a string begins with, zero if there is none.\<close>

definition space_width :: "nat list list \<Rightarrow> string \<Rightarrow> nat" where
  "space_width spaces s =
     (case find (\<lambda>bs. starts_with bs s) spaces of None \<Rightarrow> 0 | Some bs \<Rightarrow> length bs)"

function skip_spaces :: "nat list list \<Rightarrow> string \<Rightarrow> string" where
  "skip_spaces spaces s =
     (if s = [] \<or> space_width spaces s = 0 then s
      else skip_spaces spaces (drop (space_width spaces s) s))"
  by pat_completeness auto
termination
  by (relation "measure (\<lambda>(spaces, s). length s)") (simp_all add: length_greater_0_conv [symmetric] del: length_greater_0_conv)

declare skip_spaces.simps [simp del]

definition trim_start :: "string \<Rightarrow> string" where
  "trim_start s = skip_spaces white_space s"

definition trim_end :: "string \<Rightarrow> string" where
  "trim_end s = rev (skip_spaces (map rev white_space) (rev s))"

definition trim :: "string \<Rightarrow> string" where
  "trim s = trim_end (trim_start s)"

section \<open>ASCII\<close>

definition is_ascii_uppercase :: "char \<Rightarrow> bool" where
  "is_ascii_uppercase c \<longleftrightarrow> 65 \<le> byte c \<and> byte c \<le> 90"

definition is_ascii_lowercase :: "char \<Rightarrow> bool" where
  "is_ascii_lowercase c \<longleftrightarrow> 97 \<le> byte c \<and> byte c \<le> 122"

definition is_ascii_digit :: "char \<Rightarrow> bool" where
  "is_ascii_digit c \<longleftrightarrow> 48 \<le> byte c \<and> byte c \<le> 57"

definition is_ascii_alphanumeric :: "char \<Rightarrow> bool" where
  "is_ascii_alphanumeric c \<longleftrightarrow> is_ascii_uppercase c \<or> is_ascii_lowercase c \<or> is_ascii_digit c"

definition ascii_upper :: "string \<Rightarrow> string" where
  "ascii_upper = map (\<lambda>c. if is_ascii_lowercase c then char_of (byte c - 32) else c)"

definition ascii_lower :: "string \<Rightarrow> string" where
  "ascii_lower = map (\<lambda>c. if is_ascii_uppercase c then char_of (byte c + 32) else c)"

definition eq_ignore_ascii_case :: "string \<Rightarrow> string \<Rightarrow> bool" where
  "eq_ignore_ascii_case s t \<longleftrightarrow> ascii_lower s = ascii_lower t"

section \<open>Debug format\<close>

text \<open>
  \<open>{:?}\<close> of a string: quotes, backslashes and control characters escaped. (The characters
  beyond ASCII that Unicode calls unprintable, which Rust escapes too, are left as they are.)
\<close>

definition lower_hex_digit :: "nat \<Rightarrow> char" where
  "lower_hex_digit d = char_of (if d < 10 then 48 + d else 87 + d)"

definition debug_char :: "char \<Rightarrow> string" where
  "debug_char c =
     (let b = byte c in
      if b = 0 then [CHR 0x5C, CHR ''0'']
      else if b = 9 then [CHR 0x5C, CHR ''t'']
      else if b = 10 then [CHR 0x5C, CHR ''n'']
      else if b = 13 then [CHR 0x5C, CHR ''r'']
      else if b = 34 \<or> b = 92 then [CHR 0x5C, c]
      else if b < 32 \<or> b = 127 then [CHR 0x5C, CHR ''u'', CHR ''{''] @
        (if b < 16 then [] else [lower_hex_digit (b div 16)]) @ [lower_hex_digit (b mod 16), CHR ''}'']
      else [c])"

definition debug_str :: "string \<Rightarrow> string" where
  "debug_str s = [CHR 34] @ concat (map debug_char s) @ [CHR 34]"

lemma char_count_le: "char_count s \<le> length s"
  by (simp add: char_count_def)

lemma ascii_upper_length [simp]: "length (ascii_upper s) = length s"
  by (simp add: ascii_upper_def)

lemma skip_spaces_suffix: "\<exists>p. s = p @ skip_spaces spaces s"
proof (induction spaces s rule: skip_spaces.induct)
  case (1 spaces s)
  show ?case
  proof (cases "s = [] \<or> space_width spaces s = 0")
    case True
    then show ?thesis by (simp add: skip_spaces.simps [of spaces s])
  next
    case False
    obtain p where p: "drop (space_width spaces s) s = p @ skip_spaces spaces (drop (space_width spaces s) s)"
      using 1 [OF False] ..
    have "s = take (space_width spaces s) s @ drop (space_width spaces s) s" by simp
    also have "\<dots> = (take (space_width spaces s) s @ p) @ skip_spaces spaces s"
      using False p by (simp add: skip_spaces.simps [of spaces s])
    finally show ?thesis by blast
  qed
qed

text \<open>Text of printable ASCII characters has no white space to trim.\<close>

lemma skip_spaces_visible:
  assumes "\<forall>bs\<in>set spaces. bs \<noteq> [] \<and> hd bs \<notin> {33..126}" and "s = [] \<or> byte (hd s) \<in> {33..126}"
  shows "skip_spaces spaces s = s"
proof (cases s)
  case (Cons c cs)
  have "\<not> starts_with bs s" if "bs \<in> set spaces" for bs
    using bspec [OF assms(1) that] assms(2) Cons by (cases bs) (auto simp: starts_with_def)
  then have "find (\<lambda>bs. starts_with bs s) spaces = None" by (simp add: find_None_iff)
  then show ?thesis by (simp add: skip_spaces.simps [of spaces s] space_width_def)
qed (simp add: skip_spaces.simps)

lemma trim_visible:
  assumes "\<forall>c\<in>set s. byte c \<in> {33..126}"
  shows "trim s = s"
proof -
  have "skip_spaces white_space s = s"
    using assms by (intro skip_spaces_visible) (auto simp: white_space_def dest: hd_in_set)
  moreover have "skip_spaces (map rev white_space) (rev s) = rev s"
    using assms by (intro skip_spaces_visible) (auto simp: white_space_def hd_rev)
  ultimately show ?thesis by (simp add: trim_def trim_start_def trim_end_def)
qed

end
