(* ===== verification/Events.thy ===== *)
theory Events
  imports Text
begin

text \<open>
  \<open>src/events.rs\<close>: the stages of an optimization and the progress range each owns, the codes
  reported to a client, and the bounds on a job id.
\<close>

definition max_job_id_characters :: usize where
  "max_job_id_characters = 128"

datatype progress_stage =
    Accepted | ValidatingRequest | SelectingProvider | PreparingMatrix | FetchingTravelTimes
  | BuildingMatrix | GeneratingCandidates | OptimizingRoute | SelectingBestCandidate
  | Scheduling | ValidatingSchedule | FinalizingResult

text \<open>The derived \<open>Ord\<close> compares the position of a variant in the declaration.\<close>

fun stage_index :: "progress_stage \<Rightarrow> nat" where
  "stage_index Accepted = 0"
| "stage_index ValidatingRequest = 1"
| "stage_index SelectingProvider = 2"
| "stage_index PreparingMatrix = 3"
| "stage_index FetchingTravelTimes = 4"
| "stage_index BuildingMatrix = 5"
| "stage_index GeneratingCandidates = 6"
| "stage_index OptimizingRoute = 7"
| "stage_index SelectingBestCandidate = 8"
| "stage_index Scheduling = 9"
| "stage_index ValidatingSchedule = 10"
| "stage_index FinalizingResult = 11"

lemma stage_index_inj: "stage_index a = stage_index b \<Longrightarrow> a = b"
  by (cases a; cases b) simp_all

instantiation progress_stage :: linorder
begin

definition less_eq_progress_stage :: "progress_stage \<Rightarrow> progress_stage \<Rightarrow> bool" where
  "a \<le> b \<longleftrightarrow> stage_index a \<le> stage_index b"

definition less_progress_stage :: "progress_stage \<Rightarrow> progress_stage \<Rightarrow> bool" where
  "a < b \<longleftrightarrow> stage_index a < stage_index b"

instance
  by standard (auto simp: less_eq_progress_stage_def less_progress_stage_def stage_index_inj)

end

record progress_range =
  range_start :: u8
  range_end :: u8

definition point_range :: "u8 \<Rightarrow> progress_range" where
  "point_range v = \<lparr>range_start = v, range_end = v\<rparr>"

fun stage_range :: "progress_stage \<Rightarrow> progress_range" where
  "stage_range Accepted = point_range 0"
| "stage_range ValidatingRequest = point_range 5"
| "stage_range SelectingProvider = point_range 10"
| "stage_range PreparingMatrix = point_range 15"
| "stage_range FetchingTravelTimes = \<lparr>range_start = 20, range_end = 45\<rparr>"
| "stage_range BuildingMatrix = \<lparr>range_start = 48, range_end = 52\<rparr>"
| "stage_range GeneratingCandidates = \<lparr>range_start = 55, range_end = 65\<rparr>"
| "stage_range OptimizingRoute = \<lparr>range_start = 65, range_end = 80\<rparr>"
| "stage_range SelectingBestCandidate = \<lparr>range_start = 82, range_end = 86\<rparr>"
| "stage_range Scheduling = \<lparr>range_start = 88, range_end = 92\<rparr>"
| "stage_range ValidatingSchedule = \<lparr>range_start = 94, range_end = 96\<rparr>"
| "stage_range FinalizingResult = point_range 98"

text \<open>
  \<open>usize\<close> has 64 bits: \<open>width\<close> is below 256, so \<open>saturating_mul\<close> only matters beyond
  \<open>2 ^ 56\<close> completed pairs.
\<close>

definition interpolate :: "progress_range \<Rightarrow> usize \<Rightarrow> usize \<Rightarrow> u8" where
  "interpolate r completed pairs =
     (if pairs = 0 then range_start r
      else let width = range_end r - range_start r;
               quotient = saturating_mul_u64 width (min completed pairs) div pairs;
               step = (if quotient < 2 ^ 8 then quotient else width mod 2 ^ 8)
        in saturating_add_u8 (range_start r) step)"

datatype optimization_error_code =
    CodeInvalidRequest | CodeRoutingUnavailable | CodeNoFeasibleRoute | CodeSolverError
  | CodeScheduleError

datatype job_id_error = JobIdEmpty | JobIdTooLong usize usize

definition validate_job_id :: "string \<Rightarrow> job_id_error + unit" where
  "validate_job_id job =
     (if trim job = [] then Inl JobIdEmpty
      else let characters = char_count job in
        if characters > max_job_id_characters
        then Inl (JobIdTooLong max_job_id_characters characters)
        else Inr ())"

section \<open>Lemmas\<close>

lemma stage_range_ordered: "range_start (stage_range s) \<le> range_end (stage_range s)"
  by (cases s) (simp_all add: point_range_def)

lemma stage_range_bound: "range_end (stage_range s) \<le> 98"
  by (cases s) (simp_all add: point_range_def)

lemma stage_ranges_monotone:
  assumes "s < t"
  shows "range_end (stage_range s) \<le> range_start (stage_range t)"
  using assms by (cases s; cases t) (simp_all add: less_progress_stage_def point_range_def)

lemma interpolate_eq:
  assumes "range_start r \<le> range_end r" and "range_end r < 2 ^ 8" and "pairs < 2 ^ 56" and "0 < pairs"
  shows "interpolate r completed pairs =
    range_start r + (range_end r - range_start r) * min completed pairs div pairs"
proof -
  let ?w = "range_end r - range_start r" and ?c = "min completed pairs"
  have "?w * ?c \<le> 255 * pairs" using assms by (intro mult_mono) auto
  then have "?w * ?c \<le> 2 ^ 64 - 1" using assms(3) by simp
  then have mul: "saturating_mul_u64 ?w ?c = ?w * ?c" by (simp add: saturating_mul_u64_def)
  have "?w * ?c \<le> ?w * pairs" by (intro mult_left_mono) auto
  then have q: "?w * ?c div pairs \<le> ?w"
    using assms(4) by (metis div_le_mono nonzero_mult_div_cancel_right less_numeral_extra(3))
  then have "?w * ?c div pairs < 2 ^ 8" using assms by linarith
  moreover have "range_start r + ?w * ?c div pairs \<le> 2 ^ 8 - 1" using q assms by simp
  ultimately show ?thesis
    using assms(4) by (simp add: interpolate_def Let_def mul saturating_add_u8_def)
qed

lemma interpolate_bounds:
  assumes "range_start r \<le> range_end r" and "range_end r < 2 ^ 8" and "pairs < 2 ^ 56"
  shows "range_start r \<le> interpolate r completed pairs \<and> interpolate r completed pairs \<le> range_end r"
proof (cases "pairs = 0")
  case True
  then show ?thesis using assms by (simp add: interpolate_def)
next
  case False
  let ?w = "range_end r - range_start r"
  have "?w * min completed pairs \<le> ?w * pairs" by (intro mult_left_mono) auto
  then have "?w * min completed pairs div pairs \<le> ?w"
    using False by (metis div_le_mono nonzero_mult_div_cancel_right)
  then show ?thesis using interpolate_eq [OF assms] assms False by simp
qed

lemma interpolate_mono:
  assumes "range_start r \<le> range_end r" and "range_end r < 2 ^ 8" and "pairs < 2 ^ 56"
    and "c \<le> c'"
  shows "interpolate r c pairs \<le> interpolate r c' pairs"
proof (cases "pairs = 0")
  case True
  then show ?thesis by (simp add: interpolate_def)
next
  case False
  have "(range_end r - range_start r) * min c pairs div pairs \<le>
      (range_end r - range_start r) * min c' pairs div pairs"
    using assms(4) by (intro div_le_mono mult_left_mono) auto
  then show ?thesis using interpolate_eq [OF assms(1-3)] False by simp
qed

section \<open>Properties\<close>

text \<open>
  Progress never runs backwards: a report of a later stage, at any point of its range, shows at
  least as much progress as any report of an earlier stage, within a stage more completed
  work never shows less, and no report exceeds the 98 per cent of the final stage.
\<close>

lemma progress_monotone:
  assumes "pairs < 2 ^ 56" and "pairs' < 2 ^ 56" and "s < t \<or> (s = t \<and> pairs = pairs' \<and> c \<le> c')"
  shows "interpolate (stage_range s) c pairs \<le> interpolate (stage_range t) c' pairs' \<and>
    interpolate (stage_range t) c' pairs' \<le> 98"
proof -
  have r: "range_start (stage_range u) \<le> range_end (stage_range u)" "range_end (stage_range u) < 2 ^ 8" for u
    using stage_range_ordered [of u] stage_range_bound [of u] by simp_all
  have "interpolate (stage_range s) c pairs \<le> interpolate (stage_range t) c' pairs'"
    using assms(3)
  proof
    assume "s < t"
    have "interpolate (stage_range s) c pairs \<le> range_end (stage_range s)"
      using interpolate_bounds [OF r assms(1)] by simp
    also have "\<dots> \<le> range_start (stage_range t)" using stage_ranges_monotone [OF \<open>s < t\<close>] .
    also have "\<dots> \<le> interpolate (stage_range t) c' pairs'"
      using interpolate_bounds [OF r assms(2)] by simp
    finally show ?thesis .
  next
    assume "s = t \<and> pairs = pairs' \<and> c \<le> c'"
    then show ?thesis using interpolate_mono [OF r assms(2)] by simp
  qed
  moreover have "interpolate (stage_range t) c' pairs' \<le> 98"
    using interpolate_bounds [OF r assms(2)] stage_range_bound [of t] by (meson le_trans)
  ultimately show ?thesis by simp
qed

lemma progress_monotone_witness:
  "interpolate (stage_range FetchingTravelTimes) 6 12 \<le> interpolate (stage_range BuildingMatrix) 1 2"
  using progress_monotone [of 12 2 FetchingTravelTimes BuildingMatrix 6 1]
  by (simp add: less_progress_stage_def)

end
