(* ===== verification/Routing.thy ===== *)
theory Routing
  imports Events Matrix "HOL-Library.List_Lexorder" "HOL-Library.Char_ord"
begin

text \<open>
  \<open>src/routing/\<close>: what a routing lookup depends on and how it fails, and the selection of a
  route provider from the environment's policy, the request and the country
  (\<open>src/routing/provider_selection/\<close>). An instant of \<open>chrono\<close> is its count of seconds. A
  message built with \<open>format!\<close> is represented by the words of it that the code branches on or
  interpolates.
\<close>

section \<open>Context\<close>

datatype travel_mode = Transit | Driving | Walking | Bicycling

definition all_modes :: "travel_mode list" where
  "all_modes = [Transit, Driving, Walking, Bicycling]"

fun mode_value :: "travel_mode \<Rightarrow> string" where
  "mode_value Transit = ''TRANSIT''"
| "mode_value Driving = ''DRIVING''"
| "mode_value Walking = ''WALKING''"
| "mode_value Bicycling = ''BICYCLING''"

type_synonym instant = int

record routing_context =
  context_departure_time :: "instant option"
  context_travel_mode :: travel_mode
  context_timezone :: "string option"
  context_options :: "string \<rightharpoonup> string"

definition default_context :: routing_context where
  "default_context = \<lparr>context_departure_time = None, context_travel_mode = Transit,
     context_timezone = None, context_options = Map.empty\<rparr>"

section \<open>Errors and matrix providers\<close>

datatype routing_error =
    RoutingCancelled
  | Unreachable string string string
  | ProviderFailed string
  | ProviderResolution string
  | ProviderOverrideDisabled
  | ProviderNotConfigured string string
  | UnsupportedProviderCapability string string
  | MatrixBuild bool u64 usize usize string string routing_error
  | LocationCountMismatch usize usize
  | InvalidMatrix matrix_error

definition static_travel_time_matrix ::
  "travel_time_matrix \<Rightarrow> location list \<Rightarrow> routing_error + travel_time_matrix" where
  "static_travel_time_matrix m ls =
     (if matrix_size m \<noteq> length ls then Inl (LocationCountMismatch (matrix_size m) (length ls))
      else Inr m)"

text \<open>
  The default of \<open>travel_time_matrix_with_control\<close>: cancellation is read before and after the
  provider runs. The two reads are the arguments.
\<close>

definition matrix_with_control ::
  "bool \<Rightarrow> bool \<Rightarrow> (unit \<Rightarrow> routing_error + travel_time_matrix) \<Rightarrow> routing_error + travel_time_matrix" where
  "matrix_with_control cancelled_before cancelled_after provider =
     (if cancelled_before then Inl RoutingCancelled
      else let r = provider () in if cancelled_after then Inl RoutingCancelled else r)"

section \<open>Providers\<close>

datatype route_provider_name = Google | KakaoMobility | KakaoMaps | Ekispert | Navitime | Otp

fun provider_str :: "route_provider_name \<Rightarrow> string" where
  "provider_str Google = ''google''"
| "provider_str KakaoMobility = ''kakao-mobility''"
| "provider_str KakaoMaps = ''kakao-maps''"
| "provider_str Ekispert = ''ekispert''"
| "provider_str Navitime = ''navitime''"
| "provider_str Otp = ''otp''"

definition provider_from_str :: "string \<Rightarrow> string + route_provider_name" where
  "provider_from_str v =
     (let s = ascii_lower (trim v) in
      if s = ''google'' then Inr Google
      else if s = ''kakao-mobility'' then Inr KakaoMobility
      else if s = ''kakao-maps'' then Inr KakaoMaps
      else if s = ''ekispert'' then Inr Ekispert
      else if s = ''navitime'' then Inr Navitime
      else if s = ''otp'' then Inr Otp
      else Inl (''unknown route provider '' @ debug_str v))"

datatype route_provider_mode = Auto | Force route_provider_name

datatype selection_source =
    RequestOverride | GlobalForce | CountryMode | CountryDefault | ModeDefault | GlobalDefault | Legacy

record route_provider_selection =
  selected :: route_provider_name
  selection_reason :: string
  selection_source :: selection_source

record resolution_context =
  rc_country_code :: "string option"
  rc_mode :: travel_mode
  rc_request_override :: "route_provider_name option"

definition iso_country_codes :: string where
  "iso_country_codes =
     ''AD AE AF AG AI AL AM AO AQ AR AS AT AU AW AX AZ BA BB BD BE '' @
     ''BF BG BH BI BJ BL BM BN BO BQ BR BS BT BV BW BY BZ CA CC CD '' @
     ''CF CG CH CI CK CL CM CN CO CR CU CV CW CX CY CZ DE DJ DK DM '' @
     ''DO DZ EC EE EG EH ER ES ET FI FJ FK FM FO FR GA GB GD GE GF '' @
     ''GG GH GI GL GM GN GP GQ GR GS GT GU GW GY HK HM HN HR HT HU '' @
     ''ID IE IL IM IN IO IQ IR IS IT JE JM JO JP KE KG KH KI KM KN '' @
     ''KP KR KW KY KZ LA LB LC LI LK LR LS LT LU LV LY MA MC MD ME '' @
     ''MF MG MH MK ML MM MN MO MP MQ MR MS MT MU MV MW MX MY MZ NA '' @
     ''NC NE NF NG NI NL NO NP NR NU NZ OM PA PE PF PG PH PK PL PM '' @
     ''PN PR PS PT PW PY QA RE RO RS RU RW SA SB SC SD SE SG SH SI '' @
     ''SJ SK SL SM SN SO SR SS ST SV SX SY SZ TC TD TF TG TH TJ TK '' @
     ''TL TM TN TO TR TT TV TW TZ UA UG UM US UY UZ VA VC VE VG VI '' @
     ''VN VU WF WS YE YT ZA ZM ZW''"

definition is_ascii_whitespace :: "char \<Rightarrow> bool" where
  "is_ascii_whitespace c \<longleftrightarrow> byte c \<in> {9, 10, 12, 13, 32}"

text \<open>\<open>split_ascii_whitespace\<close>: the maximal runs of other bytes.\<close>

fun split_words :: "string \<Rightarrow> string \<Rightarrow> string list" where
  "split_words run [] = (if run = [] then [] else [rev run])"
| "split_words run (c # cs) =
     (if is_ascii_whitespace c then (if run = [] then [] else [rev run]) @ split_words [] cs
      else split_words (c # run) cs)"

definition normalize_country_code :: "string \<Rightarrow> string + string" where
  "normalize_country_code v =
     (let normalized = ascii_upper (trim v) in
      if length normalized \<noteq> 2 \<or> \<not> (\<forall>c\<in>set normalized. is_ascii_uppercase c) \<or>
         normalized \<notin> set (split_words [] iso_country_codes)
      then Inl (''countryCode must be a valid ISO 3166-1 alpha-2 code: '' @ debug_str v)
      else Inr normalized)"

section \<open>Registry\<close>

record provider_registration =
  available :: bool
  unavailable_reason :: "string option"
  capabilities :: "travel_mode list"

type_synonym provider_registry = "route_provider_name \<rightharpoonup> provider_registration"

definition registration :: "travel_mode list \<Rightarrow> provider_registration" where
  "registration modes = \<lparr>available = True, unavailable_reason = None, capabilities = modes\<rparr>"

definition default_registry :: provider_registry where
  "default_registry =
     (let every = [Driving, Walking, Bicycling, Transit] in
      [Google \<mapsto> registration every,
       KakaoMobility \<mapsto> registration [Driving],
       KakaoMaps \<mapsto> registration [Walking, Bicycling, Transit],
       Ekispert \<mapsto> registration [Transit],
       Navitime \<mapsto> registration every,
       Otp \<mapsto> registration [Transit]])"

definition set_availability ::
  "route_provider_name \<Rightarrow> bool \<Rightarrow> string option \<Rightarrow> provider_registry \<Rightarrow> provider_registry" where
  "set_availability name ok reason registry =
     (case registry name of
        None \<Rightarrow> registry
      | Some r \<Rightarrow> registry(name \<mapsto> r\<lparr>available := ok,
          unavailable_reason := (if \<not> ok then reason else None)\<rparr>))"

definition validate_selection ::
  "provider_registry \<Rightarrow> route_provider_name \<Rightarrow> travel_mode \<Rightarrow> routing_error + unit" where
  "validate_selection registry name mode =
     (case registry name of
        None \<Rightarrow> Inl (ProviderNotConfigured (provider_str name) ''provider is not registered'')
      | Some r \<Rightarrow>
          if \<not> available r
          then Inl (ProviderNotConfigured (provider_str name)
                 (case unavailable_reason r of None \<Rightarrow> ''provider is unavailable'' | Some why \<Rightarrow> why))
          else if mode \<notin> set (capabilities r)
          then Inl (UnsupportedProviderCapability (provider_str name) (mode_value mode))
          else Inr ())"

section \<open>Policy\<close>

text \<open>A \<open>BTreeMap\<close> over travel modes is a map, one over countries a list sorted by key.\<close>

record country_policy =
  country_modes :: "travel_mode \<rightharpoonup> route_provider_name"
  country_default :: "route_provider_name option"

record provider_policy =
  countries :: "(string \<times> country_policy) list"
  mode_defaults :: "travel_mode \<rightharpoonup> route_provider_name"
  policy_default :: "route_provider_name option"

definition built_in_policy :: provider_policy where
  "built_in_policy =
     \<lparr>countries =
        [(''JP'', \<lparr>country_modes = [Driving \<mapsto> Google, Walking \<mapsto> Google, Bicycling \<mapsto> Google,
                                   Transit \<mapsto> Ekispert],
                  country_default = None\<rparr>),
         (''KR'', \<lparr>country_modes = [Driving \<mapsto> KakaoMobility, Walking \<mapsto> KakaoMaps,
                                   Bicycling \<mapsto> KakaoMaps, Transit \<mapsto> KakaoMaps],
                  country_default = None\<rparr>)],
      mode_defaults = Map.empty,
      policy_default = Some Google\<rparr>"

definition insert_country ::
  "string \<Rightarrow> country_policy \<Rightarrow> (string \<times> country_policy) list \<Rightarrow> (string \<times> country_policy) list" where
  "insert_country k v cs = insort_key fst (k, v) (filter (\<lambda>e. fst e \<noteq> k) cs)"

fun normalize_countries ::
  "(string \<times> country_policy) list \<Rightarrow> (string \<times> country_policy) list \<Rightarrow>
   string + (string \<times> country_policy) list" where
  "normalize_countries acc [] = Inr acc"
| "normalize_countries acc ((raw, policy) # rest) =
     bind_result (normalize_country_code raw) (\<lambda>country.
       if map_of acc country \<noteq> None
       then Inl (''route provider policy contains duplicate normalized country '' @ country)
       else normalize_countries (insert_country country policy acc) rest)"

definition normalize_policy :: "provider_policy \<Rightarrow> string + provider_policy" where
  "normalize_policy policy =
     bind_result (normalize_countries [] (countries policy)) (\<lambda>cs. Inr (policy\<lparr>countries := cs\<rparr>))"

definition mode_values :: "(travel_mode \<rightharpoonup> route_provider_name) \<Rightarrow> route_provider_name list" where
  "mode_values modes = List.map_filter modes all_modes"

definition option_list :: "'a option \<Rightarrow> 'a list" where
  "option_list x = (case x of None \<Rightarrow> [] | Some a \<Rightarrow> [a])"

definition policy_providers :: "provider_policy \<Rightarrow> route_provider_name list" where
  "policy_providers policy =
     concat (map (\<lambda>(_, c). mode_values (country_modes c) @ option_list (country_default c)) (countries policy)) @
     mode_values (mode_defaults policy) @ option_list (policy_default policy)"

definition validate_policy_registry :: "provider_policy \<Rightarrow> provider_registry \<Rightarrow> string + unit" where
  "validate_policy_registry policy registry =
     (case find (\<lambda>name. registry name = None) (policy_providers policy) of
        Some name \<Rightarrow> Inl (''policy references unregistered provider '' @ provider_str name)
      | None \<Rightarrow> Inr ())"

section \<open>Selection\<close>

record route_provider_selector =
  selector_mode :: route_provider_mode
  selector_policy :: provider_policy
  override_enabled :: bool
  selector_registry :: provider_registry
  legacy_routes :: "(string \<times> travel_mode) set"

definition finish_selection :: "route_provider_selector \<Rightarrow> route_provider_name \<Rightarrow> travel_mode \<Rightarrow>
    selection_source \<Rightarrow> string \<Rightarrow> routing_error + route_provider_selection" where
  "finish_selection sel name mode source reason =
     bind_result (validate_selection (selector_registry sel) name mode) (\<lambda>_.
       Inr \<lparr>selected = name, selection_reason = reason, selection_source = source\<rparr>)"

definition resolve_mode_default ::
  "route_provider_selector \<Rightarrow> resolution_context \<Rightarrow> string option \<Rightarrow> routing_error + route_provider_selection"
  where
  "resolve_mode_default sel ctx country =
     (case mode_defaults (selector_policy sel) (rc_mode ctx) of
        Some name \<Rightarrow> finish_selection sel name (rc_mode ctx) ModeDefault
          (''mode '' @ mode_value (rc_mode ctx) @ '' matched its default provider'')
      | None \<Rightarrow> (case policy_default (selector_policy sel) of
            Some name \<Rightarrow> finish_selection sel name (rc_mode ctx) GlobalDefault
              ''global default provider matched''
          | None \<Rightarrow> Inl (ProviderResolution (''no route provider policy matches country='' @
              (case country of None \<Rightarrow> ''<missing>'' | Some c \<Rightarrow> c) @ '' mode='' @ mode_value (rc_mode ctx)))))"

definition resolve ::
  "route_provider_selector \<Rightarrow> resolution_context \<Rightarrow> routing_error + route_provider_selection" where
  "resolve sel ctx =
     (case selector_mode sel of
        Force name \<Rightarrow> finish_selection sel name (rc_mode ctx) GlobalForce
          (''ROUTE_PROVIDER forces '' @ provider_str name)
      | Auto \<Rightarrow> (case rc_request_override ctx of
            Some name \<Rightarrow>
              if \<not> override_enabled sel then Inl ProviderOverrideDisabled
              else finish_selection sel name (rc_mode ctx) RequestOverride
                (''request explicitly selected '' @ provider_str name)
          | None \<Rightarrow> (case rc_country_code ctx of
                None \<Rightarrow> resolve_mode_default sel ctx None
              | Some raw \<Rightarrow> (case normalize_country_code raw of
                    Inl e \<Rightarrow> Inl (ProviderResolution e)
                  | Inr country \<Rightarrow> (case map_of (countries (selector_policy sel)) country of
                        None \<Rightarrow> resolve_mode_default sel ctx (Some country)
                      | Some cp \<Rightarrow> (case country_modes cp (rc_mode ctx) of
                            Some name \<Rightarrow> finish_selection sel name (rc_mode ctx)
                              (if (country, rc_mode ctx) \<in> legacy_routes sel then Legacy else CountryMode)
                              (''country '' @ country @ '' and mode '' @ mode_value (rc_mode ctx) @ '' matched policy'')
                          | None \<Rightarrow> (case country_default cp of
                                Some name \<Rightarrow> finish_selection sel name (rc_mode ctx) CountryDefault
                                  (''country '' @ country @ '' matched its default provider'')
                              | None \<Rightarrow> resolve_mode_default sel ctx (Some country))))))))"

definition parse_bool_value :: "string \<Rightarrow> string option \<Rightarrow> bool \<Rightarrow> string + bool" where
  "parse_bool_value name v dflt =
     (case v of
        None \<Rightarrow> Inr dflt
      | Some s \<Rightarrow>
          if eq_ignore_ascii_case s ''true'' \<or> s = ''1'' then Inr True
          else if eq_ignore_ascii_case s ''false'' \<or> s = ''0'' then Inr False
          else Inl (name @ '' must be true or false, got '' @ debug_str s))"

text \<open>
  The constructor from configuration. The parser of the policy's JSON is \<open>serde_json\<close>, a
  parameter.
\<close>

definition apply_legacy ::
  "bool \<Rightarrow> string option \<Rightarrow> provider_policy \<Rightarrow> string + provider_policy \<times> (string \<times> travel_mode) set" where
  "apply_legacy custom legacy policy =
     (case legacy of
        None \<Rightarrow> Inr (policy, {})
      | Some v \<Rightarrow> (case provider_from_str v of
            Inl e \<Rightarrow> Inl (''JAPAN_TRANSIT_PROVIDER is invalid: '' @ e)
          | Inr name \<Rightarrow>
              let jp = map_of (countries policy) ''JP'';
                  explicit = (custom \<and> (case jp of None \<Rightarrow> False | Some c \<Rightarrow> country_modes c Transit \<noteq> None));
                  entry = (case jp of None \<Rightarrow> \<lparr>country_modes = Map.empty, country_default = None\<rparr> | Some c \<Rightarrow> c)
              in if explicit then Inr (policy, {})
                 else Inr (policy\<lparr>countries := insert_country ''JP''
                          (entry\<lparr>country_modes := (country_modes entry)(Transit \<mapsto> name)\<rparr>) (countries policy)\<rparr>,
                        {(''JP'', Transit)})))"

definition from_config_sources :: "(string \<Rightarrow> string + provider_policy) \<Rightarrow> string \<Rightarrow> string option \<Rightarrow>
    string option \<Rightarrow> bool \<Rightarrow> provider_registry \<Rightarrow> string + route_provider_selector" where
  "from_config_sources parse_policy route_provider policy_json legacy enabled registry =
     bind_result (if eq_ignore_ascii_case (trim route_provider) ''auto'' then Inr Auto
        else bind_result (provider_from_str route_provider) (\<lambda>name. Inr (Force name))) (\<lambda>mode.
     let custom = (case policy_json of None \<Rightarrow> False | Some v \<Rightarrow> trim v \<noteq> []) in
     bind_result (case policy_json of
          Some v \<Rightarrow> if trim v \<noteq> [] then (case parse_policy v of
               Inl e \<Rightarrow> Inl (''ROUTE_PROVIDER_POLICY_JSON is invalid: '' @ e) | Inr pol \<Rightarrow> Inr pol)
             else Inr built_in_policy
        | None \<Rightarrow> Inr built_in_policy) (\<lambda>parsed.
     bind_result (normalize_policy parsed) (\<lambda>policy.
     bind_result (apply_legacy custom legacy policy) (\<lambda>(policy, routes).
     bind_result (validate_policy_registry policy registry) (\<lambda>_.
     let sel = \<lparr>selector_mode = mode, selector_policy = policy, override_enabled = enabled,
                selector_registry = registry, legacy_routes = routes\<rparr>
     in case mode of
          Force name \<Rightarrow>
            if registry name = None
            then Inl (''ROUTE_PROVIDER references unregistered provider '' @ provider_str name)
            else Inr sel
        | Auto \<Rightarrow> Inr sel)))))"

definition from_raw_config_sources :: "(string \<Rightarrow> string + provider_policy) \<Rightarrow> string \<Rightarrow> string option \<Rightarrow>
    string option \<Rightarrow> string option \<Rightarrow> provider_registry \<Rightarrow> string + route_provider_selector" where
  "from_raw_config_sources parse_policy route_provider policy_json legacy enabled registry =
     bind_result (parse_bool_value ''ROUTE_PROVIDER_OVERRIDE_ENABLED'' enabled False) (\<lambda>on.
       from_config_sources parse_policy route_provider policy_json legacy on registry)"

text \<open>The adapter that resolves the provider and puts it into the options of the inner lookup.\<close>

definition provider_selection ::
  "route_provider_selector \<Rightarrow> routing_context \<Rightarrow> routing_error + route_provider_selection option" where
  "provider_selection sel ctx =
     bind_result (case context_options ctx ''routeProviderOverride'' of
          None \<Rightarrow> Inr None
        | Some v \<Rightarrow> (case provider_from_str v of
              Inl e \<Rightarrow> Inl (ProviderResolution e) | Inr name \<Rightarrow> Inr (Some name))) (\<lambda>override.
     bind_result (resolve sel \<lparr>rc_country_code = context_options ctx ''countryCode'',
          rc_mode = context_travel_mode ctx, rc_request_override = override\<rparr>) (\<lambda>s. Inr (Some s)))"

definition resolved_context ::
  "route_provider_selector \<Rightarrow> routing_context \<Rightarrow> routing_error + routing_context" where
  "resolved_context sel ctx =
     bind_result (provider_selection sel ctx) (\<lambda>choice.
     bind_result (ok_or (ProviderResolution ''provider policy returned no selection'') choice) (\<lambda>s.
       Inr (ctx\<lparr>context_options :=
              (context_options ctx)(''routeProvider'' \<mapsto> provider_str (selected s))\<rparr>)))"

section \<open>Diagnostics\<close>

record route_diagnostic =
  diagnostic_country :: "string option"
  diagnostic_mode :: "travel_mode option"
  diagnostic_provider :: route_provider_name
  diagnostic_available :: bool
  diagnostic_reason :: "string option"

definition route_diagnostic :: "provider_registry \<Rightarrow> string option \<Rightarrow> travel_mode option \<Rightarrow>
    route_provider_name \<Rightarrow> route_diagnostic" where
  "route_diagnostic registry country mode name =
     (let reg = registry name;
          supported = (case mode of None \<Rightarrow> True
            | Some md \<Rightarrow> (case reg of None \<Rightarrow> False | Some r \<Rightarrow> md \<in> set (capabilities r)));
          up = (case reg of None \<Rightarrow> False | Some r \<Rightarrow> available r)
      in \<lparr>diagnostic_country = country, diagnostic_mode = mode, diagnostic_provider = name,
          diagnostic_available = (up \<and> supported),
          diagnostic_reason =
            (if reg = None then Some ''provider is not registered''
             else if \<not> up then Option.bind reg unavailable_reason
             else if \<not> supported then Some ''provider does not support this mode''
             else None)\<rparr>)"

definition mode_routes :: "(travel_mode \<rightharpoonup> route_provider_name) \<Rightarrow> (travel_mode \<times> route_provider_name) list" where
  "mode_routes modes = List.map_filter (\<lambda>m. map_option (Pair m) (modes m)) all_modes"

definition policy_routes :: "route_provider_selector \<Rightarrow> route_diagnostic list" where
  "policy_routes sel =
     (let d = route_diagnostic (selector_registry sel); policy = selector_policy sel in
      concat (map (\<lambda>(country, c).
        map (\<lambda>(m, name). d (Some country) (Some m) name) (mode_routes (country_modes c)) @
        map (d (Some country) None) (option_list (country_default c))) (countries policy)) @
      map (\<lambda>(m, name). d None (Some m) name) (mode_routes (mode_defaults policy)) @
      map (d None None) (option_list (policy_default policy)))"

section \<open>Lemmas\<close>

lemma validate_selection_Inr:
  "validate_selection registry name mode = Inr () \<longleftrightarrow>
    (\<exists>r. registry name = Some r \<and> available r \<and> mode \<in> set (capabilities r))"
  by (auto simp: validate_selection_def split: option.splits)

lemma finish_selection_Inr:
  "finish_selection sel name mode source reason = Inr s \<longleftrightarrow>
    validate_selection (selector_registry sel) name mode = Inr () \<and>
    s = \<lparr>selected = name, selection_reason = reason, selection_source = source\<rparr>"
  by (cases "validate_selection (selector_registry sel) name mode")
    (auto simp: finish_selection_def)

text \<open>
  The precedence the selector implements, as a list of candidates: the first one is taken, and
  its failure is final.
\<close>

definition country_rule :: "route_provider_selector \<Rightarrow> resolution_context \<Rightarrow> country_policy option" where
  "country_rule sel ctx =
     Option.bind (rc_country_code ctx) (\<lambda>raw. case normalize_country_code raw of
       Inl _ \<Rightarrow> None | Inr c \<Rightarrow> map_of (countries (selector_policy sel)) c)"

definition candidate_rules :: "route_provider_selector \<Rightarrow> resolution_context \<Rightarrow> route_provider_name list" where
  "candidate_rules sel ctx =
     (case selector_mode sel of Force name \<Rightarrow> [name] | Auto \<Rightarrow> []) @
     option_list (rc_request_override ctx) @
     option_list (Option.bind (country_rule sel ctx) (\<lambda>c. country_modes c (rc_mode ctx))) @
     option_list (Option.bind (country_rule sel ctx) country_default) @
     option_list (mode_defaults (selector_policy sel) (rc_mode ctx)) @
     option_list (policy_default (selector_policy sel))"

lemma option_list_simps [simp]: "option_list None = []" "option_list (Some a) = [a]"
  by (simp_all add: option_list_def)

lemma resolve_first_rule:
  assumes "resolve sel ctx = Inr s"
  shows "\<exists>rest. candidate_rules sel ctx = selected s # rest \<and>
    validate_selection (selector_registry sel) (selected s) (rc_mode ctx) = Inr ()"
  using assms
  by (auto simp: resolve_def resolve_mode_default_def candidate_rules_def country_rule_def
      finish_selection_Inr split: route_provider_mode.splits option.splits sum.splits if_splits)

section \<open>Properties\<close>

text \<open>
  C9. A resolved provider can serve the request: it is registered, available and supports the travel
  mode, and it is the one the precedence demands: a forced provider before an enabled
  override, then the country's mode and default, the mode's default and the global default.
\<close>

theorem resolve_sound:
  assumes "resolve sel ctx = Inr s"
  shows "(\<exists>r. selector_registry sel (selected s) = Some r \<and> available r \<and> rc_mode ctx \<in> set (capabilities r)) \<and>
    hd (candidate_rules sel ctx) = selected s \<and>
    (selector_mode sel = Auto \<and> rc_request_override ctx \<noteq> None \<longrightarrow> override_enabled sel)"
proof -
  have "selector_mode sel = Auto \<and> rc_request_override ctx \<noteq> None \<longrightarrow> override_enabled sel"
    using assms by (auto simp: resolve_def split: if_splits)
  then show ?thesis using resolve_first_rule [OF assms] by (auto simp: validate_selection_Inr)
qed

definition built_in_selector :: route_provider_selector where
  "built_in_selector = \<lparr>selector_mode = Auto, selector_policy = built_in_policy, override_enabled = False,
     selector_registry = default_registry, legacy_routes = {}\<rparr>"

lemma built_in_country:
  assumes "map_of (countries built_in_policy) c = Some cp"
  obtains name where "country_modes cp mode = Some name"
    and "validate_selection default_registry name mode = Inr ()"
  using assms
  by (cases mode) (auto simp: built_in_policy_def default_registry_def registration_def
      validate_selection_Inr Let_def split: if_splits)

lemma built_in_default:
  "validate_selection default_registry Google mode = Inr ()"
  by (cases mode) (auto simp: default_registry_def registration_def validate_selection_Inr Let_def)

theorem resolve_sound_witness:
  "\<exists>r. default_registry Google = Some r \<and> Driving \<in> set (capabilities r)"
proof -
  have "resolve built_in_selector \<lparr>rc_country_code = None, rc_mode = Driving, rc_request_override = None\<rparr> =
      Inr \<lparr>selected = Google, selection_reason = ''global default provider matched'',
           selection_source = GlobalDefault\<rparr>"
    using built_in_default [of Driving]
    by (simp add: resolve_def resolve_mode_default_def built_in_selector_def built_in_policy_def
        finish_selection_def)
  from resolve_sound [OF this] show ?thesis by (auto simp: built_in_selector_def)
qed

text \<open>
  With the built-in policy and registry, a request without an override always gets a provider:
  for every travel mode, with any country code that normalizes or with none.
\<close>

lemma built_in_policy_total:
  assumes "rc_request_override ctx = None"
    and "\<And>raw. rc_country_code ctx = Some raw \<Longrightarrow> is_ok (normalize_country_code raw)"
  shows "is_ok (resolve built_in_selector ctx)"
proof -
  have fallback: "is_ok (resolve_mode_default built_in_selector ctx c)" for c
    using built_in_default [of "rc_mode ctx"]
    by (simp add: resolve_mode_default_def built_in_selector_def built_in_policy_def finish_selection_def)
  show ?thesis
  proof (cases "rc_country_code ctx")
    case None
    then show ?thesis using fallback assms(1) by (simp add: resolve_def built_in_selector_def)
  next
    case (Some raw)
    obtain c where c: "normalize_country_code raw = Inr c"
      using assms(2) [OF Some] unfolding is_ok_iff ..
    show ?thesis
    proof (cases "map_of (countries built_in_policy) c")
      case None
      then show ?thesis using fallback assms(1) Some c by (simp add: resolve_def built_in_selector_def)
    next
      case cp: (Some cp)
      obtain name where "country_modes cp (rc_mode ctx) = Some name"
        "validate_selection default_registry name (rc_mode ctx) = Inr ()"
        using built_in_country [OF cp] .
      then show ?thesis using assms(1) Some c cp
        by (simp add: resolve_def built_in_selector_def finish_selection_def)
    qed
  qed
qed

lemma built_in_policy_total_witness:
  "is_ok (resolve built_in_selector \<lparr>rc_country_code = None, rc_mode = Walking, rc_request_override = None\<rparr>)"
  by (rule built_in_policy_total) simp_all

end
