(* ===== verification/Candidates.thy ===== *)
theory Candidates
  imports Evaluate Text "HOL-Library.Word"
begin

text \<open>
  \<open>src/solver/core/candidate.rs\<close>, \<open>src/solver/portfolio/objective.rs\<close> and, under
  \<open>src/solver/orchestrator/\<close>, the candidates strategies produce and how the best is kept and
  selected: \<open>strategy.rs\<close> (from an outcome to a candidate), \<open>candidate_accumulator.rs\<close>,
  \<open>selector.rs\<close> and \<open>result.rs\<close>. The many fields of the metadata that are only reported, never
  read (timings, counters, diagnostics of single strategies), are one value of the opaque
  type \<open>candidate_report\<close>.
\<close>

unbundle bit_operations_syntax

section \<open>Candidates\<close>

typedecl candidate_report

record job_timing =
  job_queued_at_ms :: "u64 option"
  job_started_at_ms :: "u64 option"
  job_finished_at_ms :: "u64 option"
  queued_ms :: "u64 option"
  reserved_slot_ms :: "u64 option"
  thread_count :: "usize option"
  memory_hint_bytes :: "u64 option"
  cpu_ms :: "u64 option"
  peak_rss_bytes :: "u64 option"
  scheduler_reason :: "string option"
  scheduler_score :: "string option"

definition no_timing :: job_timing where
  "no_timing = \<lparr>job_queued_at_ms = None, job_started_at_ms = None, job_finished_at_ms = None,
     queued_ms = None, reserved_slot_ms = None, thread_count = None, memory_hint_bytes = None,
     cpu_ms = None, peak_rss_bytes = None, scheduler_reason = None, scheduler_score = None\<rparr>"

record candidate_metadata =
  meta_solver_id :: "string option"
  meta_run_id :: "u64 option"
  meta_outcome :: "solver_outcome_kind option"
  meta_proof_status :: "solver_proof_status option"
  meta_improved_global_best :: "bool option"
  meta_timed_out :: bool
  meta_error :: "string option"
  meta_timing :: job_timing
  meta_report :: "candidate_report option"

definition default_metadata :: candidate_metadata where
  "default_metadata =
     \<lparr>meta_solver_id = None, meta_run_id = None, meta_outcome = None, meta_proof_status = None,
      meta_improved_global_best = None, meta_timed_out = False, meta_error = None,
      meta_timing = no_timing, meta_report = None\<rparr>"

record solver_candidate =
  strategy :: string
  candidate_route :: "solver_solution option"
  feasible :: bool
  objective_score :: "solution_metrics option"
  elapsed_ns :: nat
  metadata :: candidate_metadata

record strategy_execution =
  exec_solution :: solver_solution
  exec_metadata :: candidate_metadata

text \<open>\<open>SolverId::new\<close> and the stable id of a strategy name.\<close>

definition solver_id_new :: "string \<Rightarrow> string option" where
  "solver_id_new v =
     (if v = [] \<or> \<not> (\<forall>c\<in>set v. is_ascii_lowercase c \<or> is_ascii_digit c \<or> c = CHR ''_'')
      then None else Some v)"

definition solver_id_for_strategy :: "string \<Rightarrow> string" where
  "solver_id_for_strategy name =
     (let stable = (if take 3 name = ''sa_'' then ''sa'' else name) in
      case solver_id_new stable of None \<Rightarrow> ''custom'' | Some v \<Rightarrow> v)"

text \<open>A duration in nanoseconds, in milliseconds.\<close>

definition duration_ms :: "nat \<Rightarrow> u64" where
  "duration_ms d = min (d div 1000000) (2 ^ 64 - 1)"

section \<open>Errors as text\<close>

fun solver_error_str :: "solver_error \<Rightarrow> string" where
  "solver_error_str Cancelled = ''solver was cancelled''"
| "solver_error_str NoFeasibleRoute = ''no feasible route was found''"
| "solver_error_str ProvenInfeasible = ''solver proved that no feasible route exists''"
| "solver_error_str (Unsupported s) = ''solver capability is unavailable: '' @ s"
| "solver_error_str TimedOut = ''solver reached its time limit without a feasible route''"
| "solver_error_str (UnsupportedLocationCount maximum actual) =
     ''exact solver supports at most '' @ nat_to_string maximum @ '' locations (actual '' @
     nat_to_string actual @ '')''"
| "solver_error_str (UnsupportedMatchingVertexCount maximum actual) =
     ''bit-DP perfect matching supports at most '' @ nat_to_string maximum @ '' vertices (actual '' @
     nat_to_string actual @ '')''"
| "solver_error_str (PerfectMatchingFailed s) = ''minimum-weight perfect matching failed: '' @ s"
| "solver_error_str (MatrixSizeMismatch m n) =
     ''travel time matrix size '' @ nat_to_string m @ '' does not match '' @ nat_to_string n @ '' locations''"
| "solver_error_str InvalidVisitOrder = ''solver produced an invalid visit order''"
| "solver_error_str (InvalidConfiguration s) = ''invalid solver configuration: '' @ s"
| "solver_error_str (Failed s) = ''solver failed: '' @ s"

section \<open>From an outcome to a candidate\<close>

definition exact_name :: string where
  "exact_name = ''exact_bit_dp''"

definition failed_candidate :: "string \<Rightarrow> nat \<Rightarrow> bool \<Rightarrow> string \<Rightarrow> solver_candidate" where
  "failed_candidate name elapsed timed_out error =
     (let proven = (name = exact_name \<and> error = solver_error_str NoFeasibleRoute) in
      \<lparr>strategy = name, candidate_route = None, feasible = False, objective_score = None,
       elapsed_ns = elapsed,
       metadata = default_metadata\<lparr>
         meta_outcome := Some (if timed_out then OutcomeTimeout
           else if error = solver_error_str Cancelled then OutcomeCancelled
           else if proven then OutcomeInfeasible
           else OutcomeFailed),
         meta_proof_status := (if proven then Some ProofInfeasible else None),
         meta_timed_out := timed_out,
         meta_error := Some error\<rparr>\<rparr>)"

fun error_outcome :: "solver_error \<Rightarrow> solver_outcome_kind \<times> solver_proof_status \<times> bool" where
  "error_outcome Cancelled = (OutcomeCancelled, ProofUnknown, False)"
| "error_outcome ProvenInfeasible = (OutcomeInfeasible, ProofInfeasible, False)"
| "error_outcome (Unsupported _) = (OutcomeUnsupported, ProofUnknown, False)"
| "error_outcome TimedOut = (OutcomeTimeout, ProofUnknown, True)"
| "error_outcome _ = (OutcomeFailed, ProofUnknown, False)"

definition failed_candidate_from_error :: "string \<Rightarrow> nat \<Rightarrow> solver_error \<Rightarrow> solver_candidate" where
  "failed_candidate_from_error name elapsed error =
     (case error_outcome error of (outcome, proof, timed_out) \<Rightarrow>
      \<lparr>strategy = name, candidate_route = None, feasible = False, objective_score = None,
       elapsed_ns = elapsed,
       metadata = default_metadata\<lparr>
         meta_outcome := Some outcome,
         meta_proof_status := Some proof,
         meta_timed_out := timed_out,
         meta_error := Some (solver_error_str error)\<rparr>\<rparr>)"

text \<open>
  A strategy: its name, whether its result survives a cancellation, and its body, whose panic
  is the left summand. The body runs under a token of its own that the watcher thread may
  set; the evaluation of a preserved result gets a fresh token once that token is set.
\<close>

record route_strategy =
  strategy_name :: string
  preserves_result :: bool
  execute_body :: "solver_input \<Rightarrow> string + (solver_error + strategy_execution)"

type_synonym evaluator = "solver_input \<Rightarrow> solver_solution \<Rightarrow> solver_error + solution_metrics"

datatype strategy_outcome =
    Panicked string
  | Errored solver_error
  | Evaluated strategy_execution "solver_error + solution_metrics"

definition strategy_outcome ::
  "route_strategy \<Rightarrow> evaluator \<Rightarrow> bool \<Rightarrow> solver_input \<Rightarrow> strategy_outcome" where
  "strategy_outcome s evaluate child_cancelled child =
     (case execute_body s child of
        Inl message \<Rightarrow> Panicked message
      | Inr (Inl e) \<Rightarrow> Errored e
      | Inr (Inr ex) \<Rightarrow> Evaluated ex (evaluate
          (if preserves_result s \<and> child_cancelled then child\<lparr>is_cancelled := (\<lambda>_. False)\<rparr> else child)
          (exec_solution ex)))"

text \<open>Why the watcher stopped: the strategy finished (0), its time was up (1), or the job was cancelled (2).\<close>

definition candidate_of_outcome ::
  "string \<Rightarrow> bool \<Rightarrow> nat \<Rightarrow> nat \<Rightarrow> strategy_outcome \<Rightarrow> solver_candidate" where
  "candidate_of_outcome name preserves reason elapsed outcome =
     (if reason = 1 \<and> \<not> preserves then failed_candidate name elapsed True ''strategy timed out''
      else if reason = 2 \<and> \<not> preserves then failed_candidate name elapsed False (solver_error_str Cancelled)
      else case outcome of
          Panicked message \<Rightarrow> failed_candidate name elapsed False (''strategy panicked: '' @ message)
        | Errored e \<Rightarrow> failed_candidate_from_error name elapsed e
        | Evaluated ex (Inr metrics) \<Rightarrow>
            let m = exec_metadata ex; late = (meta_timed_out m \<or> reason = 1) in
            \<lparr>strategy = name, candidate_route = Some (exec_solution ex), feasible = True,
             objective_score = Some metrics, elapsed_ns = elapsed,
             metadata = m\<lparr>meta_timed_out := late,
               meta_outcome := Some (if late then OutcomeTimeout else OutcomeCompleted),
               meta_proof_status := (case meta_proof_status m of
                   Some p \<Rightarrow> Some p
                 | None \<Rightarrow> Some (if name = exact_name \<and> reason = 0 then ProofOptimal else ProofFeasible))\<rparr>\<rparr>
        | Evaluated ex (Inl e) \<Rightarrow>
            \<lparr>strategy = name, candidate_route = Some (exec_solution ex), feasible = False,
             objective_score = None, elapsed_ns = elapsed,
             metadata = (exec_metadata ex)\<lparr>meta_error := Some (solver_error_str e),
               meta_outcome := Some OutcomeFailed, meta_proof_status := Some ProofUnknown\<rparr>\<rparr>)"

text \<open>
  What the resource manager and the clock decide before the strategy runs, what they report,
  and the whole of \<open>execute_strategy\<close>. The run time is counted from where the code counts it:
  from queueing for the early returns, from the start of the strategy otherwise.
\<close>

datatype resource_grant =
    LeaseCancelled
  | LeaseFailed bool string
  | DeadlineElapsed
  | Granted nat bool

record resource_request =
  logical_cpu_slots :: usize
  native_threads :: usize
  external_processes :: usize
  request_memory_hint :: "u64 option"

text \<open>The request of a strategy; the arguments are the configured threads and memory of the MIP solver.\<close>

definition request_for :: "usize \<Rightarrow> usize \<Rightarrow> string \<Rightarrow> resource_request" where
  "request_for mip_threads mip_memory_mb name =
     (let solver = solver_id_for_strategy name;
          threads = (if solver = ''mip_scip'' then mip_threads else 1)
      in \<lparr>logical_cpu_slots = threads,
          native_threads = threads,
          external_processes = of_bool (solver = ''lkh3''),
          request_memory_hint = (if solver = ''mip_scip''
            then Some (saturating_mul_u64 mip_memory_mb (1024 * 1024)) else None)\<rparr>)"

record run_clock =
  clock_queued_at_ms :: u64
  clock_started_at_ms :: u64
  clock_finished_at_ms :: u64
  clock_queued_ms :: u64
  clock_reserved_slot_ms :: u64
  clock_elapsed_ns :: nat

definition early_return :: "run_clock \<Rightarrow> solver_candidate \<Rightarrow> solver_candidate" where
  "early_return clock c = c\<lparr>metadata := (metadata c)\<lparr>
     meta_timing := (meta_timing (metadata c))\<lparr>job_queued_at_ms := Some (clock_queued_at_ms clock),
       job_finished_at_ms := Some (clock_finished_at_ms clock)\<rparr>\<rparr>\<rparr>"

definition finish_run :: "string \<Rightarrow> run_clock \<Rightarrow> resource_request \<Rightarrow> solver_candidate \<Rightarrow> solver_candidate" where
  "finish_run name clock request c = c\<lparr>metadata := (metadata c)\<lparr>
     meta_solver_id := Some (solver_id_for_strategy name),
     meta_timing := (meta_timing (metadata c))\<lparr>job_queued_at_ms := Some (clock_queued_at_ms clock),
       job_started_at_ms := Some (clock_started_at_ms clock),
       job_finished_at_ms := Some (clock_finished_at_ms clock),
       queued_ms := Some (clock_queued_ms clock),
       thread_count := Some (native_threads request),
       memory_hint_bytes := request_memory_hint request,
       reserved_slot_ms := Some (clock_reserved_slot_ms clock)\<rparr>\<rparr>\<rparr>"

definition execute_strategy :: "route_strategy \<Rightarrow> evaluator \<Rightarrow> resource_grant \<Rightarrow> run_clock \<Rightarrow>
    resource_request \<Rightarrow> solver_input \<Rightarrow> solver_candidate" where
  "execute_strategy s evaluate grant clock request child =
     (let name = strategy_name s; elapsed = clock_elapsed_ns clock in
      case grant of
        LeaseCancelled \<Rightarrow>
          early_return clock (failed_candidate name elapsed False (solver_error_str Cancelled))
      | LeaseFailed deadline message \<Rightarrow> early_return clock (failed_candidate name elapsed deadline message)
      | DeadlineElapsed \<Rightarrow> early_return clock (failed_candidate name elapsed True
          ''strategy deadline elapsed while waiting for resources'')
      | Granted reason child_cancelled \<Rightarrow>
          finish_run name clock request (candidate_of_outcome name (preserves_result s) reason elapsed
            (strategy_outcome s evaluate child_cancelled child)))"

lemma run_simps [simp]:
  "candidate_route (early_return clock c) = candidate_route c"
  "feasible (early_return clock c) = feasible c"
  "objective_score (early_return clock c) = objective_score c"
  "candidate_route (finish_run name clock request c) = candidate_route c"
  "feasible (finish_run name clock request c) = feasible c"
  "objective_score (finish_run name clock request c) = objective_score c"
  "strategy (finish_run name clock request c) = strategy c"
  by (simp_all add: early_return_def finish_run_def)

section \<open>The best solution tracker\<close>

definition le_bytes :: "usize \<Rightarrow> nat list" where
  "le_bytes n = map (\<lambda>k. n div 256 ^ k mod 256) [0..<8]"

definition fingerprint_hash :: "usize list \<Rightarrow> 64 word" where
  "fingerprint_hash route =
     foldl (\<lambda>h b. (h XOR word_of_nat b) * 0x100000001b3) 0xcbf29ce484222325 (concat (map le_bytes route))"

definition route_fingerprint :: "usize list \<Rightarrow> string" where
  "route_fingerprint route =
     map (\<lambda>k. lower_hex_digit (unat (fingerprint_hash route) div 16 ^ k mod 16)) (rev [0..<16])"

record tracked_best =
  best_candidate_index :: usize
  best_solver_id :: string
  best_run_id :: u64
  best_objective :: solution_metrics
  best_route_fingerprint :: string
  best_updated_at_ms :: u64

record best_update =
  update_previous :: "tracked_best option"
  update_current :: tracked_best
  first_feasible :: bool

type_synonym metrics_order = "solution_metrics \<Rightarrow> solution_metrics \<Rightarrow> ordering"

definition consider_validated :: "metrics_order \<Rightarrow> usize \<Rightarrow> string \<Rightarrow> u64 \<Rightarrow> solver_candidate \<Rightarrow> u64 \<Rightarrow>
    tracked_best option \<Rightarrow> best_update option \<times> tracked_best option" where
  "consider_validated ord index solver run c updated_at best =
     (if \<not> feasible c then (None, best)
      else case (candidate_route c, objective_score c) of
          (Some route, Some objective) \<Rightarrow>
            if (case best of None \<Rightarrow> False | Some current \<Rightarrow> ord objective (best_objective current) \<noteq> Less)
            then (None, best)
            else let current = \<lparr>best_candidate_index = index, best_solver_id = solver, best_run_id = run,
                   best_objective = objective, best_route_fingerprint = route_fingerprint (visit_order route),
                   best_updated_at_ms = updated_at\<rparr>
              in (Some \<lparr>update_previous = best, update_current = current, first_feasible = (best = None)\<rparr>,
                  Some current)
        | _ \<Rightarrow> (None, best))"

section \<open>The accumulator\<close>

record accumulator =
  acc_candidates :: "solver_candidate list"
  acc_best_index :: "usize option"
  acc_updates :: u64
  acc_tracker :: "tracked_best option"

definition new_accumulator :: accumulator where
  "new_accumulator =
     \<lparr>acc_candidates = [], acc_best_index = None, acc_updates = 0, acc_tracker = None\<rparr>"

definition accumulator_consider ::
  "metrics_order \<Rightarrow> solver_candidate \<Rightarrow> accumulator \<Rightarrow> solver_candidate \<times> accumulator" where
  "accumulator_consider ord c acc =
     (let index = length (acc_candidates acc);
          (update, tracker) = consider_validated ord index (solver_id_for_strategy (strategy c))
            (index + 1) c (duration_ms (elapsed_ns c)) (acc_tracker acc);
          improved = (update \<noteq> None)
      in (c\<lparr>metadata := (metadata c)\<lparr>meta_improved_global_best := Some improved\<rparr>\<rparr>,
          acc\<lparr>acc_tracker := tracker,
              acc_best_index := (if improved then Some index else acc_best_index acc),
              acc_updates := (if improved then acc_updates acc + 1 else acc_updates acc)\<rparr>))"

definition accumulator_push :: "solver_candidate \<Rightarrow> accumulator \<Rightarrow> accumulator" where
  "accumulator_push c acc = acc\<lparr>acc_candidates := acc_candidates acc @ [c]\<rparr>"

definition warm_start :: "accumulator \<Rightarrow> solver_solution option" where
  "warm_start acc = Option.bind (acc_best_index acc) (\<lambda>k. candidate_route (acc_candidates acc ! k))"

text \<open>The loop every batch of results goes through.\<close>

definition accumulate :: "metrics_order \<Rightarrow> solver_candidate list \<Rightarrow> accumulator \<Rightarrow> accumulator" where
  "accumulate ord cs acc =
     foldl (\<lambda>a c. case accumulator_consider ord c a of (c', a') \<Rightarrow> accumulator_push c' a') acc cs"

section \<open>Selection\<close>

definition compare_candidates :: "metrics_order \<Rightarrow> solver_candidate \<Rightarrow> solver_candidate \<Rightarrow> ordering" where
  "compare_candidates ord l r =
     (if feasible l \<and> \<not> feasible r then Less
      else if \<not> feasible l \<and> feasible r then Greater
      else if feasible l then
        (case (objective_score l, objective_score r) of
           (Some a, Some b) \<Rightarrow> ord a b
         | (Some _, None) \<Rightarrow> Less
         | (None, Some _) \<Rightarrow> Greater
         | (None, None) \<Rightarrow> Equal)
      else Equal)"

definition rank :: "metrics_order \<Rightarrow> solver_candidate list \<Rightarrow> solver_candidate list" where
  "rank ord cs = sort_by (compare_candidates ord) cs"

definition scored :: "solver_candidate \<Rightarrow> bool" where
  "scored c \<longleftrightarrow> feasible c \<and> objective_score c \<noteq> None"

definition select :: "solver_candidate list \<Rightarrow> solver_error + solver_candidate" where
  "select cs = ok_or NoFeasibleRoute (find scored cs)"

definition assign_run_identity :: "solver_candidate list \<Rightarrow> solver_candidate list" where
  "assign_run_identity cs =
     map (\<lambda>(index, c). c\<lparr>metadata := (metadata c)\<lparr>
         meta_solver_id := (case meta_solver_id (metadata c) of
            Some v \<Rightarrow> Some v | None \<Rightarrow> Some (solver_id_for_strategy (strategy c))),
         meta_run_id := (case meta_run_id (metadata c) of Some v \<Rightarrow> Some v | None \<Rightarrow> Some (index + 1))\<rparr>\<rparr>)
       (enumerate 0 cs)"

record orchestrator_result =
  result_solution :: solver_solution
  selected_strategy :: string
  ranked_candidates :: "solver_candidate list"

definition build_result :: "metrics_order \<Rightarrow> solver_candidate list \<Rightarrow> solver_error + orchestrator_result" where
  "build_result ord cs =
     (let ranked = rank ord (assign_run_identity cs) in
      bind_result (select ranked) (\<lambda>c.
      bind_result (ok_or NoFeasibleRoute (candidate_route c)) (\<lambda>solution.
        Inr \<lparr>result_solution = solution, selected_strategy = strategy c, ranked_candidates = ranked\<rparr>)))"

end
