(* ===== verification/Orchestrator.thy ===== *)
theory Orchestrator
  imports Candidates Exact_Solver
begin

text \<open>
  \<open>src/solver/orchestrator/\<close>: what the orchestration of strategies guarantees whatever the
  strategies do: the selected candidate is a best one, it is the incumbent that warm starts
  were made from, and its route passed the common evaluator. Also the greedy insertion for
  partial routes (\<open>diagnostics.rs\<close>) and the initializers and seeds of the annealing runs
  (\<open>initializer.rs\<close>).
\<close>

section \<open>Ranking\<close>

definition score_carrier :: "(solution_metrics \<Rightarrow> bool) \<Rightarrow> solver_candidate \<Rightarrow> bool" where
  "score_carrier K c \<longleftrightarrow> (\<forall>s. objective_score c = Some s \<longrightarrow> K s)"

lemma comparison_candidates:
  assumes "comparison ord K"
  shows "comparison (compare_candidates ord) (score_carrier K)"
proof
  note r = comparison.refl [OF assms] and f = comparison.flip [OF assms] and t = comparison.trans [OF assms]
  fix x y z
  assume x: "score_carrier K x"
  show "compare_candidates ord x x = Equal"
    using x r by (auto simp: compare_candidates_def score_carrier_def split: option.splits)
  assume y: "score_carrier K y"
  show "compare_candidates ord x y = Greater \<longleftrightarrow> compare_candidates ord y x = Less"
    using x y f by (auto simp: compare_candidates_def score_carrier_def split: option.splits)
  assume z: "score_carrier K z" and xy: "compare_candidates ord x y \<noteq> Greater"
    and yz: "compare_candidates ord y z \<noteq> Greater"
  show "compare_candidates ord x z \<noteq> Greater"
    using xy yz x y z t [of "the (objective_score x)" "the (objective_score y)" "the (objective_score z)"]
    by (auto simp: compare_candidates_def score_carrier_def split: option.splits if_splits)
qed

lemma min_by_snoc:
  "min_by c (xs @ [y]) = (case min_by c xs of None \<Rightarrow> Some y | Some m \<Rightarrow> Some (if c m y = Greater then y else m))"
  by (cases xs) auto

lemma compare_scored:
  "scored x \<Longrightarrow> scored y \<Longrightarrow>
    compare_candidates ord x y = ord (the (objective_score x)) (the (objective_score y))"
  "scored x \<Longrightarrow> \<not> scored y \<Longrightarrow> compare_candidates ord x y = Less"
  by (auto simp: compare_candidates_def scored_def)

text \<open>The first scored candidate of a ranked list is the first of the best scored ones.\<close>

lemma find_insert_by:
  assumes cmp: "comparison cc K" and K: "K x" "\<forall>y\<in>set s. K y"
    and sorted: "sorted_wrt (\<lambda>a b. cc a b \<noteq> Greater) s"
    and P: "\<And>a b. K a \<Longrightarrow> K b \<Longrightarrow> P a \<Longrightarrow> \<not> P b \<Longrightarrow> cc a b = Less"
  shows "find P (insert_by cc x s) =
    (if P x then case find P s of None \<Rightarrow> Some x | Some m \<Rightarrow> Some (if cc x m = Greater then m else x)
     else find P s)"
  using K(2) sorted
proof (induction s)
  case (Cons y ys)
  show ?case
  proof (cases "cc x y = Greater")
    case True
    then show ?thesis using Cons P [of x y] K(1) by (auto split: option.splits)
  next
    case False
    have "cc x m \<noteq> Greater" if "find P (y # ys) = Some m" for m
    proof (cases "P y")
      case True
      then show ?thesis using that False by simp
    next
      case False
      then have "m \<in> set ys" using that by (auto simp: find_Some_iff)
      then show ?thesis
        using comparison.trans [OF cmp K(1), of y m] Cons.prems \<open>cc x y \<noteq> Greater\<close> by auto
    qed
    then show ?thesis using False by (auto split: option.splits)
  qed
qed simp

lemma find_sort_by:
  assumes cmp: "comparison cc K" and "\<forall>y\<in>set xs. K y"
    and P: "\<And>a b. K a \<Longrightarrow> K b \<Longrightarrow> P a \<Longrightarrow> \<not> P b \<Longrightarrow> cc a b = Less"
  shows "find P (sort_by cc xs) = min_by cc (filter P xs)"
  using assms(2)
proof (induction xs)
  case (Cons x xs)
  have s: "sorted_wrt (\<lambda>a b. cc a b \<noteq> Greater) (sort_by cc xs)"
    using comparison.sorted_sort_by [OF cmp] Cons.prems by simp
  have "find P (sort_by cc (x # xs)) =
    (if P x then case find P (sort_by cc xs) of None \<Rightarrow> Some x
        | Some m \<Rightarrow> Some (if cc x m = Greater then m else x)
     else find P (sort_by cc xs))"
    using find_insert_by [OF cmp _ _ s P] Cons.prems by simp
  moreover have "min_by cc (x # filter P xs) = (case min_by cc (filter P xs) of None \<Rightarrow> Some x
      | Some m \<Rightarrow> Some (if cc x m = Greater then m else x))"
    using comparison.min_by_Cons [OF cmp] Cons.prems by simp
  ultimately show ?case using Cons by (simp del: min_by.simps)
qed simp

lemma select_rank:
  assumes "comparison ord K" and "\<forall>c\<in>set cs. score_carrier K c"
  shows "select (rank ord cs) = ok_or NoFeasibleRoute (min_by (compare_candidates ord) (filter scored cs))"
  unfolding select_def rank_def
  using find_sort_by [OF comparison_candidates [OF assms(1)] assms(2), of scored] compare_scored by simp

section \<open>The incumbent\<close>

text \<open>
  Candidates as \<open>execute_strategy\<close> builds them: a feasible one has a route and a score.
\<close>

definition wf_candidate :: "solver_candidate \<Rightarrow> bool" where
  "wf_candidate c \<longleftrightarrow> (feasible c \<longrightarrow> candidate_route c \<noteq> None \<and> objective_score c \<noteq> None)"

text \<open>What identifies a candidate for the objective: everything but its metadata.\<close>

definition core :: "solver_candidate \<Rightarrow> solver_solution option \<times> bool \<times> solution_metrics option" where
  "core c = (candidate_route c, feasible c, objective_score c)"

definition tracks :: "metrics_order \<Rightarrow> accumulator \<Rightarrow> bool" where
  "tracks ord acc \<longleftrightarrow>
     (case min_by (compare_candidates ord) (filter scored (acc_candidates acc)) of
        None \<Rightarrow> acc_best_index acc = None \<and> acc_tracker acc = None
      | Some m \<Rightarrow> \<exists>k t. acc_best_index acc = Some k \<and> acc_tracker acc = Some t \<and>
          k < length (acc_candidates acc) \<and> acc_candidates acc ! k = m \<and>
          objective_score m = Some (best_objective t))"

lemma tracks_step:
  assumes cmp: "comparison ord K" and c: "wf_candidate c" "score_carrier K c"
    and acc: "tracks ord acc" "\<forall>d\<in>set (acc_candidates acc). score_carrier K d"
    and step: "accumulator_consider ord c acc = (c', acc')"
  shows "tracks ord (accumulator_push c' acc')" and "core c' = core c"
    and "acc_candidates (accumulator_push c' acc') = acc_candidates acc @ [c']"
proof -
  have c': "core c' = core c" "acc_candidates acc' = acc_candidates acc"
    using step by (auto simp: accumulator_consider_def Let_def core_def split: prod.splits)
  then show "core c' = core c" "acc_candidates (accumulator_push c' acc') = acc_candidates acc @ [c']"
    by (simp_all add: accumulator_push_def)
  have sc: "scored c' \<longleftrightarrow> scored c" "objective_score c' = objective_score c"
    using c'(1) by (auto simp: core_def scored_def)
  show "tracks ord (accumulator_push c' acc')"
  proof (cases "scored c")
    case False
    then have "feasible c \<Longrightarrow> objective_score c = None" by (simp add: scored_def)
    then have "acc_best_index acc' = acc_best_index acc" "acc_tracker acc' = acc_tracker acc"
      using step c(1) by (auto simp: accumulator_consider_def consider_validated_def Let_def wf_candidate_def
          split: prod.splits if_splits option.splits)
    then show ?thesis
      using acc(1) c'(2) False sc
      by (auto simp: tracks_def accumulator_push_def nth_append split: option.splits)
  next
    case True
    then obtain s r where s: "objective_score c = Some s" "candidate_route c = Some r" "feasible c"
      using c(1) by (auto simp: scored_def wf_candidate_def)
    show ?thesis
    proof (cases "min_by (compare_candidates ord) (filter scored (acc_candidates acc))")
      case None
      then have "acc_tracker acc = None" using acc(1) by (simp add: tracks_def)
      then have "acc_best_index acc' = Some (length (acc_candidates acc))"
        "\<exists>t. acc_tracker acc' = Some t \<and> best_objective t = s"
        using step s by (auto simp: accumulator_consider_def consider_validated_def Let_def)
      then show ?thesis
        using None True sc c'(2) s by (auto simp: tracks_def accumulator_push_def min_by_snoc)
    next
      case (Some m)
      then obtain k t where k: "acc_best_index acc = Some k" "acc_tracker acc = Some t"
        "k < length (acc_candidates acc)" "acc_candidates acc ! k = m" "objective_score m = Some (best_objective t)"
        using acc(1) by (auto simp: tracks_def)
      have m: "scored m" "m \<in> set (acc_candidates acc)" using min_by_mem [OF Some] by auto
      have flip: "compare_candidates ord m c' = Greater \<longleftrightarrow> ord s (best_objective t) = Less"
        using compare_scored(1) [OF m(1), of c' ord] True sc s(1) k(5) comparison.flip [OF cmp, of "best_objective t" s]
          acc(2) m(2) c(2) by (simp add: score_carrier_def)
      show ?thesis
      proof (cases "ord s (best_objective t) = Less")
        case True
        then have "acc_best_index acc' = Some (length (acc_candidates acc))"
          "\<exists>t. acc_tracker acc' = Some t \<and> best_objective t = s"
          using step s k by (auto simp: accumulator_consider_def consider_validated_def Let_def)
        then show ?thesis
          using Some \<open>scored c\<close> sc c'(2) s flip True by (auto simp: tracks_def accumulator_push_def min_by_snoc)
      next
        case False
        then have "acc_best_index acc' = Some k" "acc_tracker acc' = Some t"
          using step s k by (auto simp: accumulator_consider_def consider_validated_def Let_def)
        then show ?thesis
          using Some \<open>scored c\<close> sc c'(2) flip False k
          by (auto simp: tracks_def accumulator_push_def min_by_snoc nth_append)
      qed
    qed
  qed
qed

lemma accumulate_tracks:
  assumes cmp: "comparison ord K" and "\<forall>c\<in>set cs. wf_candidate c \<and> score_carrier K c"
    and "tracks ord acc" "\<forall>d\<in>set (acc_candidates acc). score_carrier K d"
  shows "tracks ord (accumulate ord cs acc) \<and>
    map core (acc_candidates (accumulate ord cs acc)) = map core (acc_candidates acc) @ map core cs"
  using assms(2-)
proof (induction cs arbitrary: acc)
  case (Cons c cs)
  obtain c' acc' where step: "accumulator_consider ord c acc = (c', acc')" by (cases "accumulator_consider ord c acc")
  note t = tracks_step [OF cmp _ _ Cons.prems(2,3) step]
  have "core c' = core c" using t(2) Cons.prems(1) by simp
  then have "score_carrier K c'" using Cons.prems(1) by (auto simp: core_def score_carrier_def)
  then have "tracks ord (accumulate ord cs (accumulator_push c' acc')) \<and>
    map core (acc_candidates (accumulate ord cs (accumulator_push c' acc'))) =
      map core (acc_candidates (accumulator_push c' acc')) @ map core cs"
    using t Cons.prems by (intro Cons.IH) auto
  then show ?case using t(3) Cons.prems(1) \<open>core c' = core c\<close> by (simp add: accumulate_def step)
qed (simp add: accumulate_def)

lemma tracks_new: "tracks ord new_accumulator"
  by (simp add: tracks_def new_accumulator_def)

section \<open>Candidates passed the evaluator\<close>

lemma candidate_of_outcome_wf:
  "wf_candidate (candidate_of_outcome name preserves reason elapsed outcome)"
  by (auto simp: candidate_of_outcome_def wf_candidate_def failed_candidate_def failed_candidate_from_error_def
      Let_def split: strategy_outcome.splits sum.splits prod.splits)

lemma execute_strategy_feasible:
  assumes "feasible (execute_strategy s evaluate grant clk request child)"
  obtains ex metrics poll where "execute_body s child = Inr (Inr ex)"
    and "candidate_route (execute_strategy s evaluate grant clk request child) = Some (exec_solution ex)"
    and "objective_score (execute_strategy s evaluate grant clk request child) = Some metrics"
    and "evaluate (child\<lparr>is_cancelled := poll\<rparr>) (exec_solution ex) = Inr metrics"
proof -
  obtain reason cc where grant: "grant = Granted reason cc"
    using assms by (cases grant) (auto simp: execute_strategy_def failed_candidate_def Let_def)
  have f: "feasible (candidate_of_outcome (strategy_name s) (preserves_result s) reason (clock_elapsed_ns clk)
      (strategy_outcome s evaluate cc child))"
    using assms by (simp add: execute_strategy_def grant Let_def)
  then obtain ex metrics where o: "strategy_outcome s evaluate cc child = Evaluated ex (Inr metrics)"
    by (auto simp: candidate_of_outcome_def failed_candidate_def failed_candidate_from_error_def Let_def
        split: strategy_outcome.splits sum.splits prod.splits if_splits)
  have body: "execute_body s child = Inr (Inr ex)"
    and ev: "evaluate (if preserves_result s \<and> cc then child\<lparr>is_cancelled := (\<lambda>_. False)\<rparr> else child)
      (exec_solution ex) = Inr metrics"
    using o by (auto simp: strategy_outcome_def split: sum.splits)
  have "\<exists>poll. evaluate (child\<lparr>is_cancelled := poll\<rparr>) (exec_solution ex) = Inr metrics"
  proof (cases "preserves_result s \<and> cc")
    case False
    have "evaluate child (exec_solution ex) = Inr metrics" using ev unfolding if_not_P [OF False] .
    then show ?thesis by (intro exI [of _ "is_cancelled child"]) simp
  qed (use ev in auto)
  moreover have "candidate_route (execute_strategy s evaluate grant clk request child) = Some (exec_solution ex)"
    "objective_score (execute_strategy s evaluate grant clk request child) = Some metrics"
    using f o by (auto simp: execute_strategy_def grant Let_def candidate_of_outcome_def failed_candidate_def
        split: if_splits)
  ultimately show thesis using that body by blast
qed

lemma execute_strategy_wf: "wf_candidate (execute_strategy s evaluate grant clk request child)"
  using candidate_of_outcome_wf
  by (cases grant) (auto simp: execute_strategy_def wf_candidate_def failed_candidate_def Let_def)

lemma candidate_of_outcome_scored:
  "objective_score (candidate_of_outcome name preserves reason elapsed outcome) = Some m \<Longrightarrow>
    feasible (candidate_of_outcome name preserves reason elapsed outcome)"
  by (auto simp: candidate_of_outcome_def failed_candidate_def failed_candidate_from_error_def
      Let_def split: strategy_outcome.splits sum.splits prod.splits if_splits)

lemma execute_strategy_scored:
  "objective_score (execute_strategy s evaluate grant clk request child) = Some m \<Longrightarrow>
    feasible (execute_strategy s evaluate grant clk request child)"
  using candidate_of_outcome_scored
  by (cases grant) (auto simp: execute_strategy_def failed_candidate_def Let_def)

section \<open>Properties\<close>

lemma build_selected:
  assumes cmp: "comparison ord K" and "\<forall>c\<in>set cs. wf_candidate c \<and> score_carrier K c"
  shows "build_result ord cs =
    (case min_by (compare_candidates ord) (filter scored (assign_run_identity cs)) of
       None \<Rightarrow> Inl NoFeasibleRoute
     | Some c \<Rightarrow> Inr \<lparr>result_solution = the (candidate_route c), selected_strategy = strategy c,
         ranked_candidates = rank ord (assign_run_identity cs)\<rparr>)"
proof -
  let ?ds = "assign_run_identity cs"
  have ds: "\<forall>c\<in>set ?ds. \<exists>d\<in>set cs. core c = core d \<and> strategy c = strategy d"
    by (auto simp: assign_run_identity_def core_def in_set_enumerate_eq)
  then have K: "\<forall>c\<in>set ?ds. score_carrier K c" and wf: "\<forall>c\<in>set ?ds. wf_candidate c"
    using assms(2) by (fastforce simp: core_def score_carrier_def wf_candidate_def)+
  show ?thesis
  proof (cases "min_by (compare_candidates ord) (filter scored ?ds)")
    case None
    then show ?thesis by (simp add: build_result_def select_rank [OF cmp K] ok_or_def)
  next
    case (Some c)
    then have "c \<in> set ?ds" "scored c" using min_by_mem [OF Some] by auto
    then obtain r where "candidate_route c = Some r" using wf by (auto simp: wf_candidate_def scored_def)
    then show ?thesis using Some by (simp add: build_result_def select_rank [OF cmp K] ok_or_def)
  qed
qed

lemma assign_run_identity_core: "map core (assign_run_identity cs) = map core cs"
proof -
  have "map core (assign_run_identity cs) = map core (map snd (enumerate 0 cs))"
    unfolding assign_run_identity_def by (simp add: core_def split_def del: map_snd_enumerate)
  then show ?thesis by simp
qed

text \<open>Selection looks at a candidate through its core only.\<close>

definition compare_core :: "metrics_order \<Rightarrow> solver_solution option \<times> bool \<times> solution_metrics option \<Rightarrow>
    solver_solution option \<times> bool \<times> solution_metrics option \<Rightarrow> ordering" where
  "compare_core ord a b = (let c = (\<lambda>(r, f, s). \<lparr>strategy = [], candidate_route = r, feasible = f,
     objective_score = s, elapsed_ns = 0, metadata = default_metadata\<rparr>) in compare_candidates ord (c a) (c b))"

lemma compare_candidates_core: "compare_candidates ord = (\<lambda>a b. compare_core ord (core a) (core b))"
  by (rule ext, rule ext) (simp add: compare_core_def compare_candidates_def core_def)

lemma min_by_map: "map_option f (min_by (\<lambda>a b. g (f a) (f b)) xs) = min_by g (map f xs)"
proof (cases xs)
  case (Cons y ys)
  have "f (foldl (\<lambda>best y. if g (f best) (f y) = Greater then y else best) x zs) =
      foldl (\<lambda>best y. if g best y = Greater then y else best) (f x) (map f zs)" for x zs
    by (induction zs arbitrary: x) auto
  then show ?thesis using Cons by simp
qed simp

lemma best_core:
  "map_option core (min_by (compare_candidates ord) (filter scored cs)) =
    min_by (compare_core ord) (filter (\<lambda>(r, f, s). f \<and> s \<noteq> None) (map core cs))"
proof -
  have "map core (filter scored cs) = filter (\<lambda>(r, f, s). f \<and> s \<noteq> None) (map core cs)"
    by (induction cs) (auto simp: core_def scored_def)
  then show ?thesis unfolding compare_candidates_core min_by_map by simp
qed

lemma build_best_core:
  assumes "comparison ord K" and "\<forall>c\<in>set cs. wf_candidate c \<and> score_carrier K c"
  shows "map_option (\<lambda>(r, f, s). the r) (min_by (compare_core ord) (filter (\<lambda>(r, f, s). f \<and> s \<noteq> None) (map core cs))) =
    (case build_result ord cs of Inl _ \<Rightarrow> None | Inr res \<Rightarrow> Some (result_solution res))"
  unfolding build_selected [OF assms] assign_run_identity_core [symmetric, of cs] best_core [symmetric]
  by (cases "min_by (compare_candidates ord) (filter scored (assign_run_identity cs))") (simp_all add: core_def)

definition default_carrier :: "start_policy \<Rightarrow> solver_candidate \<Rightarrow> bool" where
  "default_carrier sp c \<longleftrightarrow> wf_candidate c \<and> score_carrier (\<lambda>m. metric_start_policy m = sp) c"

lemmas default_comparison = default_order.comparison_axioms

lemma build_selects_core:
  assumes "\<forall>c\<in>set cs. default_carrier sp c" and "build_result default_compare cs = Inr res"
  shows "\<exists>c\<in>set cs. scored c \<and> candidate_route c = Some (result_solution res) \<and>
    (\<forall>d\<in>set cs. scored d \<longrightarrow>
      default_compare (the (objective_score c)) (the (objective_score d)) \<noteq> Greater)"
proof -
  have K: "\<forall>c\<in>set cs. wf_candidate c \<and> score_carrier (\<lambda>m. metric_start_policy m = sp) c"
    using assms(1) by (simp add: default_carrier_def)
  have "map_option (\<lambda>(r, f, s). the r) (map_option core (min_by (compare_candidates default_compare) (filter scored cs))) =
      Some (result_solution res)"
    using build_best_core [OF default_comparison K] assms(2) by (simp add: best_core)
  then obtain c where c: "min_by (compare_candidates default_compare) (filter scored cs) = Some c"
    "the (candidate_route c) = result_solution res"
    by (auto simp: core_def)
  then have mem: "c \<in> set cs" "scored c" using min_by_mem [OF c(1)] by auto
  have least: "compare_candidates default_compare c d \<noteq> Greater" if "d \<in> set cs" "scored d" for d
    using comparison.min_by_least [OF comparison_candidates [OF default_comparison [where sp = sp]] c(1)] K that by simp
  then have "default_compare (the (objective_score c)) (the (objective_score d)) \<noteq> Greater"
    if "d \<in> set cs" "scored d" for d
    using least [OF that] compare_scored(1) [OF mem(2) that(2), of default_compare] by simp
  then show ?thesis using mem c(2) K by (intro bexI [of _ c]) (auto simp: wf_candidate_def scored_def)
qed

lemma build_some:
  assumes "\<forall>c\<in>set cs. default_carrier sp c" and "c \<in> set cs" and "scored c"
  shows "\<exists>res. build_result default_compare cs = Inr res"
proof -
  have K: "\<forall>c\<in>set cs. wf_candidate c \<and> score_carrier (\<lambda>m. metric_start_policy m = sp) c"
    using assms(1) by (simp add: default_carrier_def)
  have "min_by (compare_candidates default_compare) (filter scored cs) \<noteq> None"
    using assms(2,3) by (auto simp: filter_empty_conv)
  then have "map_option (\<lambda>(r, f, s). the r) (map_option core (min_by (compare_candidates default_compare) (filter scored cs))) \<noteq> None"
    by auto
  then show ?thesis using build_best_core [OF default_comparison K] unfolding best_core [symmetric]
    by (cases "build_result default_compare cs") auto
qed

text \<open>
  Selection returns a best candidate: its route and score are those of a feasible candidate of
  the run, and no feasible candidate with a score compares better under the default
  objective.
\<close>

lemma build_selects_best:
  assumes "\<forall>c\<in>set cs. default_carrier sp c" and "build_result default_compare cs = Inr res"
  shows "\<exists>c\<in>set cs. scored c \<and> candidate_route c = Some (result_solution res) \<and>
    (\<forall>d\<in>set cs. scored d \<longrightarrow>
      default_compare (the (objective_score c)) (the (objective_score d)) \<noteq> Greater)"
  by (rule build_selects_core [OF assms])

text \<open>A candidate for the worked example: what a strategy that finds its route yields.\<close>

definition readme_metrics :: solution_metrics where
  "readme_metrics = \<lparr>metric_start_policy = Latest, visited_optional_count = 0, visited_optional_priority = 0,
     start_time_slot = 605, finish_time_slot = 730, metric_travel_minutes = 35,
     metric_wait_minutes = 0, metric_score = 35\<rparr>"

definition readme_strategy :: route_strategy where
  "readme_strategy = \<lparr>strategy_name = ''greedy'', preserves_result = False,
     execute_body = (\<lambda>_. Inr (Inr \<lparr>exec_solution = readme_route, exec_metadata = default_metadata\<rparr>))\<rparr>"

definition readme_clock :: run_clock where
  "readme_clock = \<lparr>clock_queued_at_ms = 0, clock_started_at_ms = 1, clock_finished_at_ms = 2,
     clock_queued_ms = 1, clock_reserved_slot_ms = 1, clock_elapsed_ns = 1000000\<rparr>"

abbreviation readme_request :: resource_request where
  "readme_request \<equiv> request_for 1 0 ''greedy''"

definition readme_candidate :: solver_candidate where
  "readme_candidate = execute_strategy readme_strategy (evaluate_solution default_objective)
     (Granted 0 False) readme_clock readme_request (readme_input Latest)"

lemma readme_candidate_fields:
  "feasible readme_candidate" "candidate_route readme_candidate = Some readme_route"
  "objective_score readme_candidate = Some readme_metrics" "wf_candidate readme_candidate"
  "default_carrier Latest readme_candidate"
  using readme_evaluates
  by (simp_all add: readme_candidate_def execute_strategy_def readme_strategy_def strategy_outcome_def
      candidate_of_outcome_def readme_metrics_def wf_candidate_def default_carrier_def score_carrier_def Let_def)

lemma readme_build:
  "build_result default_compare [readme_candidate] = Inr \<lparr>result_solution = readme_route,
     selected_strategy = ''greedy'', ranked_candidates = assign_run_identity [readme_candidate]\<rparr>"
proof -
  have "strategy readme_candidate = ''greedy''"
    using readme_evaluates by (simp add: readme_candidate_def execute_strategy_def readme_strategy_def
        strategy_outcome_def candidate_of_outcome_def Let_def)
  then show ?thesis
    using readme_candidate_fields
    by (simp add: build_result_def rank_def select_def scored_def assign_run_identity_def ok_or_def)
qed

text \<open>
  The incumbent is the selection: after any batches of results, the route later annealing runs
  warm-start from is the route that ranking and selecting the same candidates returns.
\<close>

lemma incumbent_is_selected:
  assumes "\<forall>c\<in>set cs. default_carrier sp c"
  shows "warm_start (accumulate default_compare cs new_accumulator) =
    (case build_result default_compare (acc_candidates (accumulate default_compare cs new_accumulator)) of
       Inl _ \<Rightarrow> None | Inr res \<Rightarrow> Some (result_solution res))"
proof -
  let ?K = "\<lambda>m. metric_start_policy m = sp"
  let ?acc = "accumulate default_compare cs new_accumulator"
  have K: "\<forall>c\<in>set cs. wf_candidate c \<and> score_carrier ?K c"
    using assms by (simp add: default_carrier_def)
  have acc: "tracks default_compare ?acc" "map core (acc_candidates ?acc) = map core cs"
    using accumulate_tracks [OF default_comparison K tracks_new] by (simp_all add: new_accumulator_def)
  have Kacc: "\<forall>c\<in>set (acc_candidates ?acc). wf_candidate c \<and> score_carrier ?K c"
  proof
    fix d assume "d \<in> set (acc_candidates ?acc)"
    then have "core d \<in> set (map core (acc_candidates ?acc))" by simp
    then obtain c where c: "c \<in> set cs" "core c = core d" unfolding acc(2) by auto
    from bspec [OF K c(1)] c(2) show "wf_candidate d \<and> score_carrier ?K d"
      by (auto simp: core_def wf_candidate_def score_carrier_def)
  qed
  have "map_option (\<lambda>(r, f, s). the r)
      (map_option core (min_by (compare_candidates default_compare) (filter scored (acc_candidates ?acc)))) = warm_start ?acc"
  proof (cases "min_by (compare_candidates default_compare) (filter scored (acc_candidates ?acc))")
    case None
    then show ?thesis using acc(1) by (simp add: tracks_def warm_start_def)
  next
    case (Some m)
    then have "m \<in> set (acc_candidates ?acc)" "scored m" using min_by_mem [OF Some] by auto
    then obtain r where "candidate_route m = Some r" using Kacc by (auto simp: wf_candidate_def scored_def)
    then show ?thesis using acc(1) Some by (auto simp: tracks_def warm_start_def core_def)
  qed
  then show ?thesis using build_best_core [OF default_comparison Kacc] by (simp add: best_core)
qed

definition executed_by :: "evaluator \<Rightarrow> solver_input \<Rightarrow> solver_candidate \<Rightarrow> bool" where
  "executed_by evaluate i c \<longleftrightarrow> (\<exists>s grant clk request poll.
     c = execute_strategy s evaluate grant clk request (i\<lparr>is_cancelled := poll\<rparr>))"

lemma executed_evaluates:
  assumes "wf_input i" and "executed_by (evaluate_solution default_objective) i c" and "feasible c"
  obtains sol mt where "candidate_route c = Some sol" and "objective_score c = Some mt"
    and "evaluate_solution default_objective (uncancelled i) sol = Inr mt"
proof -
  obtain s grant clk request poll
    where c: "c = execute_strategy s (evaluate_solution default_objective) grant clk request (i\<lparr>is_cancelled := poll\<rparr>)"
    using assms(2) by (auto simp: executed_by_def)
  show thesis
  proof (rule execute_strategy_feasible [OF assms(3) [unfolded c], folded c])
    fix ex mt poll'
    assume r: "candidate_route c = Some (exec_solution ex)" "objective_score c = Some mt"
      and "evaluate_solution default_objective (i\<lparr>is_cancelled := poll, is_cancelled := poll'\<rparr>) (exec_solution ex) = Inr mt"
    then have "evaluate_solution default_objective (i\<lparr>is_cancelled := poll'\<rparr>) (exec_solution ex) = Inr mt" by simp
    from that [OF r evaluate_solution_poll [OF this]] show thesis .
  qed
qed

lemma executed_carrier:
  assumes "wf_input i" and "executed_by (evaluate_solution default_objective) i c"
  shows "default_carrier (start_policy (input_problem i)) c"
proof -
  have wf: "wf_candidate c" using assms(2) execute_strategy_wf by (auto simp: executed_by_def)
  have "metric_start_policy mt = start_policy (input_problem i)" if mt: "objective_score c = Some mt" for mt
  proof -
    have "feasible c" using assms(2) execute_strategy_scored mt by (auto simp: executed_by_def)
    from executed_evaluates [OF assms this] obtain sol mt' where
      "objective_score c = Some mt'" "evaluate_solution default_objective (uncancelled i) sol = Inr mt'" .
    then show ?thesis using evaluated_start_policy [OF assms(1)] mt by simp
  qed
  then show ?thesis using wf by (simp add: default_carrier_def score_carrier_def)
qed

lemma selected_evaluates:
  assumes "wf_input i" and ex: "\<forall>c\<in>set cs. executed_by (evaluate_solution default_objective) i c"
    and "build_result default_compare cs = Inr res"
  obtains c mt where "c \<in> set cs" and "objective_score c = Some mt"
    and "evaluate_solution default_objective (uncancelled i) (result_solution res) = Inr mt"
    and "\<forall>d\<in>set cs. scored d \<longrightarrow> default_compare mt (the (objective_score d)) \<noteq> Greater"
proof -
  have "\<forall>c\<in>set cs. default_carrier (start_policy (input_problem i)) c"
    using executed_carrier [OF assms(1)] ex by blast
  from build_selects_core [OF this assms(3)]
  obtain c where c: "c \<in> set cs" "scored c" "candidate_route c = Some (result_solution res)"
    "\<forall>d\<in>set cs. scored d \<longrightarrow>
      default_compare (the (objective_score c)) (the (objective_score d)) \<noteq> Greater" by blast
  obtain sol mt where "candidate_route c = Some sol" "objective_score c = Some mt"
    "evaluate_solution default_objective (uncancelled i) sol = Inr mt"
    using executed_evaluates [OF assms(1)] ex c(1,2) unfolding scored_def by blast
  then show thesis using that [of c mt] c by simp
qed

text \<open>
  C4. No strategy is trusted: whatever code the strategies run, whatever they return and however
  they are interrupted, a route the orchestrator selects is a valid order whose walk meets
  every time window from the start the evaluator settled on.
\<close>

theorem orchestrated_solution_valid:
  assumes "wf_input i" and "\<forall>c\<in>set cs. executed_by (evaluate_solution default_objective) i c"
    and "build_result default_compare cs = Inr res"
  shows "valid_order (input_problem i) (visit_order (result_solution res)) \<and>
    (\<exists>start\<ge>minutes (start_time (input_problem i)).
      route_walk (input_problem i) (input_matrix i) (visit_order (result_solution res)) start \<noteq> None)"
proof -
  obtain mt where ev: "evaluate_solution default_objective (uncancelled i) (result_solution res) = Inr mt"
    using selected_evaluates [OF assms] by blast
  have wf: "wf_input (uncancelled i)" using assms(1) by simp
  show ?thesis using evaluate_solution_Inr(1,3,5) [OF wf uncancelled_never ev] by fastforce
qed

lemma readme_executed: "executed_by (evaluate_solution default_objective) (readme_input Latest) readme_candidate"
proof -
  have "readme_input Latest = (readme_input Latest)\<lparr>is_cancelled := is_cancelled (readme_input Latest)\<rparr>" by simp
  then show ?thesis unfolding executed_by_def readme_candidate_def by metis
qed

theorem orchestrated_solution_valid_witness:
  "valid_order (readme_problem Latest) [0, 2, 1, 3]"
  using orchestrated_solution_valid [OF readme_wf(1) _ readme_build] readme_executed by simp

definition exact_strategy :: route_strategy where
  "exact_strategy = \<lparr>strategy_name = exact_name, preserves_result = False,
     execute_body = (\<lambda>i. Inr (case solve_detailed default_objective time_cost_dominates i of
       Inl e \<Rightarrow> Inl e
     | Inr r \<Rightarrow> Inr \<lparr>exec_solution = exact_solution r, exec_metadata = default_metadata\<rparr>))\<rparr>"

lemma exact_candidate:
  fixes clk :: run_clock and request :: resource_request
  assumes ex: "exact_input i" and "evaluate_solution default_objective i sol = Inr mt"
  defines "c \<equiv> execute_strategy exact_strategy (evaluate_solution default_objective) (Granted 0 False) clk request i"
  shows "scored c \<and> default_compare (the (objective_score c)) mt \<noteq> Greater"
proof -
  consider s res where "solve_detailed default_objective time_cost_dominates i = Inr res" "settled i s res"
    | "best_from i (minutes (start_time (input_problem i))) None"
    using solve_detailed_settled [OF ex] by blast
  then show ?thesis
  proof cases
    case 1
    have "objective_score c = Some (exact_metrics res)" "feasible c"
      using 1 settled_evaluates [OF ex 1(2)]
      by (simp_all add: c_def execute_strategy_def exact_strategy_def strategy_outcome_def candidate_of_outcome_def Let_def)
    then show ?thesis using settled_optimal [OF ex 1(2) assms(2)] by (simp add: scored_def)
  next
    case 2
    have wf: "wf_input i" "never_cancelled i" using ex by (auto simp: exact_input_def)
    note ev = evaluate_solution_Inr [OF wf assms(2)]
    have "route_walk (input_problem i) (input_matrix i) (visit_order sol) (minutes (start_time (input_problem i))) \<noteq> None"
      using route_walk_earlier [OF _ ev(3)] ev(5) by blast
    then show ?thesis using 2 ev(1) by (auto simp: best_from_def Let_def)
  qed
qed

text \<open>
  C6. The orchestrator inherits the optimality of the exact solver: when the exact strategy is among
  the executed ones and ran to completion, no solution the evaluator accepts is better than
  the selected one.
\<close>

theorem orchestrated_exact_optimal:
  assumes "exact_input i" and "evaluate_solution default_objective i sol = Inr mt"
    and "\<forall>c\<in>set cs. executed_by (evaluate_solution default_objective) i c"
    and "execute_strategy exact_strategy (evaluate_solution default_objective) (Granted 0 False) clk request i \<in> set cs"
  shows "\<exists>res best. build_result default_compare cs = Inr res \<and>
    evaluate_solution default_objective (uncancelled i) (result_solution res) = Inr best \<and>
    default_compare best mt \<noteq> Greater"
proof -
  let ?c = "execute_strategy exact_strategy (evaluate_solution default_objective) (Granted 0 False) clk request i"
  have wf: "wf_input i" using assms(1) by (simp add: exact_input_def)
  have c: "scored ?c" "default_compare (the (objective_score ?c)) mt \<noteq> Greater"
    using exact_candidate [OF assms(1,2)] by simp_all
  have K: "\<forall>c\<in>set cs. default_carrier (start_policy (input_problem i)) c"
    using executed_carrier [OF wf] assms(3) by blast
  then obtain res where res: "build_result default_compare cs = Inr res"
    using build_some [OF K assms(4) c(1)] by blast
  obtain best where best: "evaluate_solution default_objective (uncancelled i) (result_solution res) = Inr best"
    "\<forall>d\<in>set cs. scored d \<longrightarrow> default_compare best (the (objective_score d)) \<noteq> Greater"
    using selected_evaluates [OF wf assms(3) res] by blast
  have sp: "metric_start_policy best = start_policy (input_problem i)"
    by (rule evaluated_start_policy [OF wf best(1)])
  have spc: "metric_start_policy (the (objective_score ?c)) = start_policy (input_problem i)"
    using bspec [OF K assms(4)] c(1) by (auto simp: default_carrier_def score_carrier_def scored_def)
  have spm: "metric_start_policy mt = start_policy (input_problem i)"
    using evaluated_start_policy [OF wf evaluate_solution_poll [where poll = "is_cancelled i"]] assms(2) by simp
  have "default_compare best mt \<noteq> Greater"
    using default_order.trans [of best "start_policy (input_problem i)" "the (objective_score ?c)" mt]
      best(2) assms(4) c sp spc spm by blast
  then show ?thesis using res best(1) by blast
qed

theorem orchestrated_exact_optimal_witness:
  "\<exists>res best. build_result default_compare
      [execute_strategy exact_strategy (evaluate_solution default_objective) (Granted 0 False) readme_clock (request_for 1 0 exact_name) (readme_input Latest)] = Inr res \<and>
    evaluate_solution default_objective (uncancelled (readme_input Latest)) (result_solution res) = Inr best"
proof -
  let ?c = "execute_strategy exact_strategy (evaluate_solution default_objective) (Granted 0 False) readme_clock (request_for 1 0 exact_name) (readme_input Latest)"
  have "readme_input Latest = (readme_input Latest)\<lparr>is_cancelled := is_cancelled (readme_input Latest)\<rparr>" by simp
  then have "executed_by (evaluate_solution default_objective) (readme_input Latest) ?c"
    unfolding executed_by_def by metis
  then show ?thesis
    using orchestrated_exact_optimal [OF readme_exact readme_evaluates,
        of "[?c]" readme_clock "request_for 1 0 exact_name"] by auto
qed

end
