(* ===== verification/Api.thy ===== *)
theory Api
  imports Exact_Solver Routing Candidates Complex_Main "HOL-Library.Multiset"
begin

text \<open>
  \<open>src/api.rs\<close>: a request, its validation into an \<open>optimization_problem\<close> (\<open>TryFrom\<close>), the routing
  departure it asks for, and the response made from a plan. The calendar and the time zone
  data base (\<open>chrono\<close>, \<open>chrono_tz\<close>) are parameters; the options of portfolio experiments and the
  reporting-only parts of candidate metadata are opaque.
\<close>

section \<open>Requests\<close>

text \<open>An \<open>f64\<close>: finite values are rational; of the others only that they are not finite matters.\<close>

datatype f64 = Finite rat | Infinite bool | NotANumber

definition is_finite :: "f64 \<Rightarrow> bool" where
  "is_finite x \<longleftrightarrow> (case x of Finite _ \<Rightarrow> True | _ \<Rightarrow> False)"

definition in_range :: "rat \<Rightarrow> rat \<Rightarrow> f64 \<Rightarrow> bool" where
  "in_range lo hi x \<longleftrightarrow> (case x of
     Finite v \<Rightarrow> lo \<le> v \<and> v \<le> hi | Infinite _ \<Rightarrow> False | NotANumber \<Rightarrow> False)"

typedecl experiment_options

record location_input =
  in_id :: string
  in_name :: "string option"
  in_place_id :: string
  in_latitude :: "f64 option"
  in_longitude :: "f64 option"
  in_open_time :: time_of_day
  in_close_time :: time_of_day
  in_stay_minutes :: u32
  in_required :: "bool option"
  in_priority :: "u8 option"

record debug_options =
  min_job_duration_ms :: "u64 option"
  shuffle_result_route :: "bool option"
  shuffle_seed :: "u64 option"

record optimize_request =
  req_job_id :: string
  req_locations :: "location_input list"
  req_visit_policy :: "visit_policy option"
  req_start_policy :: "start_policy option"
  req_start_time :: "time_of_day option"
  req_travel_date :: "string option"
  req_time_zone :: "string option"
  req_travel_mode :: "travel_mode option"
  req_country_code :: "string option"
  req_route_provider :: "route_provider_name option"
  use_euclidean_matrix :: bool
  req_matrix :: "u32 list list option"
  req_sparse_matrix :: "u32 option list list option"
  req_debug :: "debug_options option"
  req_experiment :: "experiment_options option"

definition max_locations :: usize where
  "max_locations = 500"

definition max_string_characters :: usize where
  "max_string_characters = 512"

definition input_time_granularity :: u32 where
  "input_time_granularity = 10"

definition max_debug_job_duration_ms :: u64 where
  "max_debug_job_duration_ms = 60000"

datatype (plugins only: code) request_error =
    InvalidJobId job_id_error
  | InvalidCountryCode string
  | TravelDateRequiresTimeZone
  | TimeZoneRequiresTravelDate
  | InvalidTravelDate string
  | InvalidTimeZone string
  | CountryTimeZoneMismatch string string
  | AmbiguousLocalDeparture string string
  | NonexistentLocalDeparture string string
  | FixedStartTimeRequired
  | DebugJobDurationTooLong u64 u64
  | TooFewLocations usize usize
  | TooManyLocations usize usize
  | EmptyLocationId
  | LocationIdTooLong usize
  | LocationNameTooLong string usize
  | EmptyPlaceId string
  | PlaceIdTooLong string usize
  | DuplicateLocationId string
  | TimeNotTenMinuteAligned string string time_of_day
  | StayMinutesNotTenMinuteMultiple string u32
  | RequiredLocationCannotBeOptional string
  | InvalidLocationPriority string u8
  | MultipleTravelTimeMatrices
  | EuclideanMatrixConflict
  | CoordinatesRequired string
  | IncompleteCoordinates string
  | InvalidLatitude string f64
  | InvalidLongitude string f64
  | MatrixRowsMismatch usize usize
  | MatrixRowSizeMismatch usize usize usize
  | MatrixDiagonalNonzero usize u32
  | MatrixDiagonalUnreachable usize
  | RequestInvalidTimeWindow string domain_error

section \<open>The routing departure\<close>

datatype 'a local_result = Single 'a | Ambiguous 'a 'a | NoLocal

text \<open>
  What the code uses of \<open>chrono\<close>: parsing a date and a zone, the instants of a local date and
  minute in a zone, and the text of a local date and time.
\<close>

record ('date, 'zone) calendar =
  parse_date :: "string \<Rightarrow> 'date option"
  parse_zone :: "string \<Rightarrow> 'zone option"
  from_local :: "'zone \<Rightarrow> 'date \<Rightarrow> nat \<Rightarrow> instant local_result"
  show_local :: "'date \<Rightarrow> nat \<Rightarrow> string"

definition country_zone :: "string \<Rightarrow> string option" where
  "country_zone country =
     (let c = ascii_upper country in
      if c = ''KR'' then Some ''Asia/Seoul'' else if c = ''JP'' then Some ''Asia/Tokyo'' else None)"

text \<open>What comes before the local time is formed: the date, the zone and its name.\<close>

definition departure_day :: "('date, 'zone) calendar \<Rightarrow> optimize_request \<Rightarrow>
    request_error + ('date \<times> 'zone \<times> string) option" where
  "departure_day cal r =
     (case (req_travel_date r, req_time_zone r) of
        (None, None) \<Rightarrow> Inr None
      | (Some _, None) \<Rightarrow> Inl TravelDateRequiresTimeZone
      | (None, Some _) \<Rightarrow> Inl TimeZoneRequiresTravelDate
      | (Some date_text, Some zone_text) \<Rightarrow>
          bind_result (ok_or (InvalidTravelDate date_text) (parse_date cal date_text)) (\<lambda>date.
          bind_result (ok_or (InvalidTimeZone zone_text) (parse_zone cal zone_text)) (\<lambda>zone.
          let mismatch = (case req_country_code r of
                None \<Rightarrow> None
              | Some country \<Rightarrow> (case country_zone country of
                    None \<Rightarrow> None
                  | Some expected \<Rightarrow> if expected \<noteq> zone_text then Some (ascii_upper country) else None))
          in case mismatch of
               Some country \<Rightarrow> Inl (CountryTimeZoneMismatch country zone_text)
             | None \<Rightarrow> Inr (Some (date, zone, zone_text)))))"

text \<open>\<open>NaiveTime::from_hms_opt\<close> of the hours and minutes of a time of day, with no seconds.\<close>

definition naive_time :: "u16 \<Rightarrow> (nat \<times> nat) option" where
  "naive_time minute = (if minute div 60 < 24 \<and> minute mod 60 < 60 then Some (minute div 60, minute mod 60) else None)"

text \<open>The expectation on the way: \<open>None\<close> is the panic of a time of day that forms no local time.\<close>

definition departure_forms :: "('date, 'zone) calendar \<Rightarrow> optimize_request \<Rightarrow> time_of_day \<Rightarrow> unit option" where
  "departure_forms cal r start =
     (case departure_day cal r of
        Inr (Some _) \<Rightarrow> map_option (\<lambda>_. ()) (naive_time (minutes start))
      | _ \<Rightarrow> Some ())"

text \<open>The answer when it does not panic.\<close>

definition requested_routing_departure :: "('date, 'zone) calendar \<Rightarrow> optimize_request \<Rightarrow> time_of_day \<Rightarrow>
    request_error + (instant \<times> string) option" where
  "requested_routing_departure cal r start =
     bind_result (departure_day cal r) (\<lambda>day.
       case day of
         None \<Rightarrow> Inr None
       | Some (date, zone, zone_text) \<Rightarrow> (case from_local cal zone date (minutes start) of
             Single t \<Rightarrow> Inr (Some (t, zone_text))
           | Ambiguous _ _ \<Rightarrow>
               Inl (AmbiguousLocalDeparture (show_local cal date (minutes start)) zone_text)
           | NoLocal \<Rightarrow>
               Inl (NonexistentLocalDeparture (show_local cal date (minutes start)) zone_text)))"

lemma naive_time_total: "wf_time t \<Longrightarrow> naive_time (minutes t) \<noteq> None"
  by (simp add: naive_time_def wf_time_def minutes_per_day_def)

lemma departure_forms_total: "wf_time start \<Longrightarrow> departure_forms cal r start = Some ()"
  using naive_time_total [of start] by (auto simp: departure_forms_def split: sum.split option.split)

section \<open>Supplied matrices\<close>

fun check_dense_rows :: "usize \<Rightarrow> usize \<Rightarrow> u32 list list \<Rightarrow> request_error + unit" where
  "check_dense_rows n row [] = Inr ()"
| "check_dense_rows n row (vs # rest) =
     (if length vs \<noteq> n then Inl (MatrixRowSizeMismatch row n (length vs))
      else if vs ! row \<noteq> 0 then Inl (MatrixDiagonalNonzero row (vs ! row))
      else check_dense_rows n (row + 1) rest)"

definition check_dense :: "usize \<Rightarrow> u32 list list \<Rightarrow> request_error + unit" where
  "check_dense n m =
     (if length m \<noteq> n then Inl (MatrixRowsMismatch n (length m)) else check_dense_rows n 0 m)"

fun check_sparse_rows :: "usize \<Rightarrow> usize \<Rightarrow> u32 option list list \<Rightarrow> request_error + unit" where
  "check_sparse_rows n row [] = Inr ()"
| "check_sparse_rows n row (vs # rest) =
     (if length vs \<noteq> n then Inl (MatrixRowSizeMismatch row n (length vs))
      else case vs ! row of
          None \<Rightarrow> Inl (MatrixDiagonalUnreachable row)
        | Some d \<Rightarrow> if d = 0 then check_sparse_rows n (row + 1) rest
            else Inl (MatrixDiagonalNonzero row d))"

definition check_sparse :: "usize \<Rightarrow> u32 option list list \<Rightarrow> request_error + unit" where
  "check_sparse n m =
     (if length m \<noteq> n then Inl (MatrixRowsMismatch n (length m)) else check_sparse_rows n 0 m)"

definition check_option :: "('a \<Rightarrow> 'e + unit) \<Rightarrow> 'a option \<Rightarrow> 'e + unit" where
  "check_option f x = (case x of None \<Rightarrow> Inr () | Some a \<Rightarrow> f a)"

section \<open>One location\<close>

definition check_coordinates :: "bool \<Rightarrow> location_input \<Rightarrow> request_error + unit" where
  "check_coordinates euclidean l =
     (case (in_latitude l, in_longitude l) of
        (Some lat, Some lon) \<Rightarrow>
          if \<not> is_finite lat \<or> \<not> in_range (- 90) 90 lat then Inl (InvalidLatitude (in_id l) lat)
          else if \<not> is_finite lon \<or> \<not> in_range (- 180) 180 lon then Inl (InvalidLongitude (in_id l) lon)
          else Inr ()
      | (None, None) \<Rightarrow> if euclidean then Inl (CoordinatesRequired (in_id l)) else Inr ()
      | _ \<Rightarrow> Inl (IncompleteCoordinates (in_id l)))"

definition has_supplied_matrix :: "optimize_request \<Rightarrow> bool" where
  "has_supplied_matrix r \<longleftrightarrow> req_matrix r \<noteq> None \<or> req_sparse_matrix r \<noteq> None"

definition request_visit_policy :: "optimize_request \<Rightarrow> visit_policy" where
  "request_visit_policy r = (case req_visit_policy r of None \<Rightarrow> AllRequired | Some v \<Rightarrow> v)"

definition request_start_policy :: "optimize_request \<Rightarrow> start_policy" where
  "request_start_policy r = (case req_start_policy r of None \<Rightarrow> Latest | Some v \<Rightarrow> v)"

text \<open>The checks of one location before its id is recorded, and those after, with the location.\<close>

definition check_texts :: "optimize_request \<Rightarrow> location_input \<Rightarrow> request_error + unit" where
  "check_texts r l =
     (if trim (in_id l) = [] then Inl EmptyLocationId
      else if char_count (in_id l) > max_string_characters then Inl (LocationIdTooLong max_string_characters)
      else if (case in_name l of None \<Rightarrow> False | Some name \<Rightarrow> char_count name > max_string_characters)
      then Inl (LocationNameTooLong (in_id l) max_string_characters)
      else if \<not> has_supplied_matrix r \<and> \<not> use_euclidean_matrix r \<and> trim (in_place_id l) = []
      then Inl (EmptyPlaceId (in_id l))
      else if char_count (in_place_id l) > max_string_characters
      then Inl (PlaceIdTooLong (in_id l) max_string_characters)
      else check_coordinates (use_euclidean_matrix r) l)"

definition make_location ::
  "visit_policy \<Rightarrow> bool \<Rightarrow> location_input \<Rightarrow> request_error + location" where
  "make_location vp endpoint l =
     (if minutes (in_open_time l) mod input_time_granularity \<noteq> 0
      then Inl (TimeNotTenMinuteAligned (in_id l) ''open_time'' (in_open_time l))
      else if minutes (in_close_time l) mod input_time_granularity \<noteq> 0
      then Inl (TimeNotTenMinuteAligned (in_id l) ''close_time'' (in_close_time l))
      else if in_stay_minutes l mod input_time_granularity \<noteq> 0
      then Inl (StayMinutesNotTenMinuteMultiple (in_id l) (in_stay_minutes l))
      else if in_required l = Some False \<and> (endpoint \<or> vp = AllRequired)
      then Inl (RequiredLocationCannotBeOptional (in_id l))
      else let prio = (case in_priority l of None \<Rightarrow> 1 | Some v \<Rightarrow> v) in
        if \<not> (1 \<le> prio \<and> prio \<le> 100) then Inl (InvalidLocationPriority (in_id l) prio)
        else let req = (vp = AllRequired \<or> endpoint \<or> in_required l = Some True) in
          (case new_time_window (in_open_time l) (in_close_time l) of
             Inl e \<Rightarrow> Inl (RequestInvalidTimeWindow (in_id l) e)
           | Inr w \<Rightarrow> Inr (with_visit_metadata
               (new_location (in_id l) (GooglePlaceId (in_place_id l)) w (in_stay_minutes l)) req prio)))"

definition validate_location :: "optimize_request \<Rightarrow> usize \<Rightarrow> string set \<Rightarrow> location_input \<Rightarrow>
    request_error + location" where
  "validate_location r index ids l =
     bind_result (check_texts r l) (\<lambda>_.
       if in_id l \<in> ids then Inl (DuplicateLocationId (in_id l))
       else make_location (request_visit_policy r)
         (index = 0 \<or> index + 1 = length (req_locations r)) l)"

fun validate_locations :: "optimize_request \<Rightarrow> usize \<Rightarrow> string set \<Rightarrow> location_input list \<Rightarrow>
    request_error + location list" where
  "validate_locations r index ids [] = Inr []"
| "validate_locations r index ids (l # ls) =
     bind_result (validate_location r index ids l) (\<lambda>loc.
     bind_result (validate_locations r (index + 1) (insert (in_id l) ids) ls) (\<lambda>rest.
       Inr (loc # rest)))"

section \<open>The request\<close>

definition midnight :: time_of_day where
  "midnight = TimeOfDay 0"

definition request_start_time :: "optimize_request \<Rightarrow> time_of_day" where
  "request_start_time r = (case req_start_time r of None \<Rightarrow> midnight | Some t \<Rightarrow> t)"

definition check_debug :: "optimize_request \<Rightarrow> request_error + unit" where
  "check_debug r =
     (case Option.bind (req_debug r) min_job_duration_ms of
        None \<Rightarrow> Inr ()
      | Some d \<Rightarrow> if d > max_debug_job_duration_ms
          then Inl (DebugJobDurationTooLong max_debug_job_duration_ms d) else Inr ())"

definition check_country :: "optimize_request \<Rightarrow> request_error + unit" where
  "check_country r =
     (case req_country_code r of
        None \<Rightarrow> Inr ()
      | Some c \<Rightarrow> (case normalize_country_code c of Inl e \<Rightarrow> Inl (InvalidCountryCode e) | Inr _ \<Rightarrow> Inr ()))"

definition check_job_id :: "optimize_request \<Rightarrow> request_error + unit" where
  "check_job_id r =
     (case validate_job_id (req_job_id r) of Inl e \<Rightarrow> Inl (InvalidJobId e) | Inr _ \<Rightarrow> Inr ())"

definition check_matrices :: "optimize_request \<Rightarrow> request_error + unit" where
  "check_matrices r =
     (if req_matrix r \<noteq> None \<and> req_sparse_matrix r \<noteq> None then Inl MultipleTravelTimeMatrices
      else if use_euclidean_matrix r \<and> has_supplied_matrix r then Inl EuclideanMatrixConflict
      else bind_result (check_option (check_dense (length (req_locations r))) (req_matrix r)) (\<lambda>_.
        check_option (check_sparse (length (req_locations r))) (req_sparse_matrix r)))"

definition problem_try_from ::
  "('date, 'zone) calendar \<Rightarrow> optimize_request \<Rightarrow> request_error + optimization_problem" where
  "problem_try_from cal r =
     bind_result (check_job_id r) (\<lambda>_.
     bind_result (check_country r) (\<lambda>_.
     bind_result (requested_routing_departure cal r (request_start_time r)) (\<lambda>_.
     bind_result (check_debug r) (\<lambda>_.
     let n = length (req_locations r) in
     if n < 2 then Inl (TooFewLocations 2 n)
     else if n > max_locations then Inl (TooManyLocations max_locations n)
     else if request_start_policy r = Fixed \<and> req_start_time r = None then Inl FixedStartTimeRequired
     else bind_result (check_matrices r) (\<lambda>_.
       bind_result (validate_locations r 0 {} (req_locations r)) (\<lambda>ls.
         Inr (with_policies ls (request_start_time r) (request_start_policy r)
           (request_visit_policy r))))))))"

text \<open>Whether the conversion passes the expectation in the departure, when it gets there.\<close>

definition conversion_forms :: "('date, 'zone) calendar \<Rightarrow> optimize_request \<Rightarrow> unit option" where
  "conversion_forms cal r =
     (if check_job_id r = Inr () \<and> check_country r = Inr () then departure_forms cal r (request_start_time r) else Some ())"

section \<open>What an accepted request satisfies\<close>

definition coordinates_ok :: "bool \<Rightarrow> location_input \<Rightarrow> bool" where
  "coordinates_ok euclidean l \<longleftrightarrow>
     (in_latitude l = None \<and> in_longitude l = None \<and> \<not> euclidean) \<or>
     (\<exists>lat lon. in_latitude l = Some (Finite lat) \<and> in_longitude l = Some (Finite lon) \<and>
       \<bar>lat\<bar> \<le> 90 \<and> \<bar>lon\<bar> \<le> 180)"

definition endpoint_index :: "optimize_request \<Rightarrow> usize \<Rightarrow> bool" where
  "endpoint_index r k \<longleftrightarrow> k = 0 \<or> k + 1 = length (req_locations r)"

definition acceptable_location :: "optimize_request \<Rightarrow> usize \<Rightarrow> location_input \<Rightarrow> bool" where
  "acceptable_location r k l \<longleftrightarrow>
     trim (in_id l) \<noteq> [] \<and> char_count (in_id l) \<le> 512 \<and>
     (\<forall>name. in_name l = Some name \<longrightarrow> char_count name \<le> 512) \<and>
     (has_supplied_matrix r \<or> use_euclidean_matrix r \<or> trim (in_place_id l) \<noteq> []) \<and>
     char_count (in_place_id l) \<le> 512 \<and>
     coordinates_ok (use_euclidean_matrix r) l \<and>
     10 dvd minutes (in_open_time l) \<and> 10 dvd minutes (in_close_time l) \<and> 10 dvd in_stay_minutes l \<and>
     in_open_time l \<le> in_close_time l \<and>
     (\<forall>v. in_priority l = Some v \<longrightarrow> 1 \<le> v \<and> v \<le> 100) \<and>
     (in_required l = Some False \<longrightarrow> \<not> endpoint_index r k \<and> request_visit_policy r = BestEffortOnFailure)"

definition location_of :: "optimize_request \<Rightarrow> usize \<Rightarrow> location_input \<Rightarrow> location" where
  "location_of r k l =
     \<lparr>location_id = in_id l, routing_reference = GooglePlaceId (in_place_id l),
      time_window = \<lparr>window_open = in_open_time l, window_close = in_close_time l\<rparr>,
      stay_minutes = in_stay_minutes l,
      required = (request_visit_policy r = AllRequired \<or> endpoint_index r k \<or> in_required l = Some True),
      priority = (case in_priority l of None \<Rightarrow> 1 | Some v \<Rightarrow> v)\<rparr>"

lemma check_coordinates_Inr [simp]: "check_coordinates euclidean l = Inr () \<longleftrightarrow> coordinates_ok euclidean l"
  by (auto simp: check_coordinates_def coordinates_ok_def is_finite_def in_range_def abs_le_iff
      split: option.splits f64.splits)

lemma check_texts_Inr:
  "check_texts r l = Inr () \<longleftrightarrow>
     trim (in_id l) \<noteq> [] \<and> char_count (in_id l) \<le> 512 \<and>
     (\<forall>name. in_name l = Some name \<longrightarrow> char_count name \<le> 512) \<and>
     (has_supplied_matrix r \<or> use_euclidean_matrix r \<or> trim (in_place_id l) \<noteq> []) \<and>
     char_count (in_place_id l) \<le> 512 \<and> coordinates_ok (use_euclidean_matrix r) l"
  by (cases "in_name l") (auto simp: check_texts_def max_string_characters_def not_less)

lemma make_location_Inr:
  "make_location (request_visit_policy r) (endpoint_index r k) l = Inr loc \<longleftrightarrow>
     10 dvd minutes (in_open_time l) \<and> 10 dvd minutes (in_close_time l) \<and> 10 dvd in_stay_minutes l \<and>
     in_open_time l \<le> in_close_time l \<and>
     (\<forall>v. in_priority l = Some v \<longrightarrow> 1 \<le> v \<and> v \<le> 100) \<and>
     (in_required l = Some False \<longrightarrow> \<not> endpoint_index r k \<and> request_visit_policy r = BestEffortOnFailure) \<and>
     loc = location_of r k l"
  by (cases "request_visit_policy r"; cases "in_priority l"; cases "in_required l")
    (auto simp: make_location_def input_time_granularity_def new_time_window_def location_of_def
      with_visit_metadata_def new_location_def Let_def dvd_eq_mod_eq_0 not_less)

lemma validate_location_Inr:
  "validate_location r k ids l = Inr loc \<longleftrightarrow>
     acceptable_location r k l \<and> in_id l \<notin> ids \<and> loc = location_of r k l"
  unfolding validate_location_def endpoint_index_def [symmetric] bind_result_Inr acceptable_location_def
  by (auto simp: check_texts_Inr make_location_Inr split: if_splits)

lemma validate_locations_Inr:
  "validate_locations r k ids ls = Inr out \<longleftrightarrow>
     (\<forall>j<length ls. acceptable_location r (k + j) (ls ! j)) \<and> distinct (map in_id ls) \<and>
     in_id ` set ls \<inter> ids = {} \<and> out = map2 (location_of r) [k..<k + length ls] ls"
proof (induction ls arbitrary: k ids out)
  case (Cons l ls)
  have range: "[k..<k + length (l # ls)] = k # [Suc k..<Suc k + length ls]"
    by (simp add: upt_conv_Cons del: upt_Suc)
  show ?case
    unfolding validate_locations.simps bind_result_Inr validate_location_Inr Suc_eq_plus1 [symmetric] Cons.IH range
    by (auto simp: less_Suc_eq_0_disj simp del: upt_Suc)
qed auto

lemma check_dense_rows_Inr:
  "check_dense_rows n k rs = Inr () \<longleftrightarrow>
     (\<forall>vs\<in>set rs. length vs = n) \<and> (\<forall>j<length rs. rs ! j ! (k + j) = 0)"
  by (induction rs arbitrary: k) (auto simp: less_Suc_eq_0_disj)

lemma check_sparse_rows_Inr:
  "check_sparse_rows n k rs = Inr () \<longleftrightarrow>
     (\<forall>vs\<in>set rs. length vs = n) \<and> (\<forall>j<length rs. rs ! j ! (k + j) = Some 0)"
  by (induction rs arbitrary: k) (auto simp: less_Suc_eq_0_disj split: option.splits)

definition square :: "nat \<Rightarrow> 'a \<Rightarrow> 'a list list \<Rightarrow> bool" where
  "square n diagonal rs \<longleftrightarrow>
     length rs = n \<and> (\<forall>vs\<in>set rs. length vs = n) \<and> (\<forall>j<n. rs ! j ! j = diagonal)"

lemma check_dense_Inr: "check_dense n rs = Inr () \<longleftrightarrow> square n 0 rs"
  by (auto simp: check_dense_def square_def check_dense_rows_Inr)

lemma check_sparse_Inr: "check_sparse n rs = Inr () \<longleftrightarrow> square n (Some 0) rs"
  by (auto simp: check_sparse_def square_def check_sparse_rows_Inr)

definition acceptable :: "('date, 'zone) calendar \<Rightarrow> optimize_request \<Rightarrow> bool" where
  "acceptable cal r \<longleftrightarrow>
     trim (req_job_id r) \<noteq> [] \<and> char_count (req_job_id r) \<le> 128 \<and>
     (\<forall>c. req_country_code r = Some c \<longrightarrow> is_ok (normalize_country_code c)) \<and>
     is_ok (requested_routing_departure cal r (request_start_time r)) \<and>
     (\<forall>d. Option.bind (req_debug r) min_job_duration_ms = Some d \<longrightarrow> d \<le> 60000) \<and>
     2 \<le> length (req_locations r) \<and> length (req_locations r) \<le> 500 \<and>
     (request_start_policy r = Fixed \<longrightarrow> req_start_time r \<noteq> None) \<and>
     (req_matrix r = None \<or> req_sparse_matrix r = None) \<and>
     (use_euclidean_matrix r \<longrightarrow> \<not> has_supplied_matrix r) \<and>
     (\<forall>m. req_matrix r = Some m \<longrightarrow> square (length (req_locations r)) 0 m) \<and>
     (\<forall>m. req_sparse_matrix r = Some m \<longrightarrow> square (length (req_locations r)) (Some 0) m) \<and>
     (\<forall>k<length (req_locations r). acceptable_location r k (req_locations r ! k)) \<and>
     distinct (map in_id (req_locations r))"

definition problem_of :: "optimize_request \<Rightarrow> optimization_problem" where
  "problem_of r =
     \<lparr>locations = map2 (location_of r) [0..<length (req_locations r)] (req_locations r),
      start_time = request_start_time r, start_policy = request_start_policy r,
      visit_policy = request_visit_policy r\<rparr>"

lemma check_job_id_Inr:
  "check_job_id r = Inr () \<longleftrightarrow> trim (req_job_id r) \<noteq> [] \<and> char_count (req_job_id r) \<le> 128"
  by (auto simp: check_job_id_def validate_job_id_def max_job_id_characters_def Let_def)

lemma check_country_Inr:
  "check_country r = Inr () \<longleftrightarrow> (\<forall>c. req_country_code r = Some c \<longrightarrow> is_ok (normalize_country_code c))"
  by (auto simp: check_country_def is_ok_iff split: option.splits sum.splits)

lemma check_debug_Inr:
  "check_debug r = Inr () \<longleftrightarrow> (\<forall>d. Option.bind (req_debug r) min_job_duration_ms = Some d \<longrightarrow> d \<le> 60000)"
  by (auto simp: check_debug_def max_debug_job_duration_ms_def split: option.splits)

lemma check_option_Inr: "check_option f x = Inr () \<longleftrightarrow> (\<forall>a. x = Some a \<longrightarrow> f a = Inr ())"
  by (cases x) (auto simp: check_option_def)

lemma check_matrices_Inr:
  "check_matrices r = Inr () \<longleftrightarrow>
     (req_matrix r = None \<or> req_sparse_matrix r = None) \<and>
     (use_euclidean_matrix r \<longrightarrow> \<not> has_supplied_matrix r) \<and>
     (\<forall>m. req_matrix r = Some m \<longrightarrow> square (length (req_locations r)) 0 m) \<and>
     (\<forall>m. req_sparse_matrix r = Some m \<longrightarrow> square (length (req_locations r)) (Some 0) m)"
  by (auto simp: check_matrices_def bind_result_Inr check_option_Inr check_dense_Inr check_sparse_Inr)

lemma problem_try_from_Inr:
  "problem_try_from cal r = Inr p \<longleftrightarrow> acceptable cal r \<and> p = problem_of r"
  by (cases "request_start_policy r = Fixed \<and> req_start_time r = None")
    (auto simp: problem_try_from_def bind_result_Inr Let_def max_locations_def acceptable_def problem_of_def
      check_job_id_Inr check_country_Inr check_debug_Inr check_matrices_Inr validate_locations_Inr
      with_policies_def is_ok_iff not_less simp del: not_None_eq)

text \<open>
  The values a deserialized request can hold: times of day, \<open>u32\<close> numbers of minutes, and a
  \<open>u64\<close> of the debug options.
\<close>

definition typed_request :: "optimize_request \<Rightarrow> bool" where
  "typed_request r \<longleftrightarrow>
     (\<forall>l\<in>set (req_locations r). wf_time (in_open_time l) \<and> wf_time (in_close_time l) \<and>
        in_stay_minutes l < 2 ^ 32) \<and>
     (\<forall>t. req_start_time r = Some t \<longrightarrow> wf_time t) \<and>
     (\<forall>m. req_matrix r = Some m \<longrightarrow> (\<forall>vs\<in>set m. \<forall>c\<in>set vs. c < 2 ^ 32)) \<and>
     (\<forall>m. req_sparse_matrix r = Some m \<longrightarrow> (\<forall>vs\<in>set m. \<forall>c. Some c \<in> set vs \<longrightarrow> c < 2 ^ 32))"

lemma problem_of_simps [simp]:
  "length (locations (problem_of r)) = length (req_locations r)"
  "start_time (problem_of r) = request_start_time r"
  "start_policy (problem_of r) = request_start_policy r"
  "visit_policy (problem_of r) = request_visit_policy r"
  by (simp_all add: problem_of_def)

lemma problem_of_nth:
  "k < length (req_locations r) \<Longrightarrow> locations (problem_of r) ! k = location_of r k (req_locations r ! k)"
  by (simp add: problem_of_def)

lemma problem_of_ids: "map location_id (locations (problem_of r)) = map in_id (req_locations r)"
  by (rule nth_equalityI) (simp_all add: problem_of_nth location_of_def)

lemma acceptable_wf:
  assumes "typed_request r" and "acceptable cal r"
  shows "wf_problem (problem_of r)"
proof -
  have "wf_location (location_of r k (req_locations r ! k))" if "k < length (req_locations r)" for k
  proof -
    have "acceptable_location r k (req_locations r ! k)" using assms(2) that by (simp add: acceptable_def)
    moreover have "req_locations r ! k \<in> set (req_locations r)" using that by simp
    ultimately show ?thesis
      using assms(1) by (auto simp: acceptable_location_def typed_request_def wf_location_def location_of_def
          wf_window_def split: option.splits)
  qed
  then have "\<forall>l\<in>set (locations (problem_of r)). wf_location l"
    by (auto simp: in_set_conv_nth problem_of_nth)
  moreover have "wf_time (request_start_time r)"
    using assms(1) by (auto simp: request_start_time_def midnight_def wf_time_def typed_request_def split: option.splits)
  moreover have "locations (problem_of r) \<noteq> []"
    using assms(2) by (auto simp: acceptable_def simp flip: length_greater_0_conv)
  ultimately show ?thesis by (simp add: wf_problem_def)
qed

section \<open>Responses\<close>

text \<open>
  The telemetry of a run, from \<open>src/solver/portfolio/telemetry.rs\<close>: what identifies an event is
  kept, the payload and the summary it comes with are opaque.
\<close>

typedecl telemetry_payload

typedecl telemetry_report

record telemetry_event =
  te_schema_version :: u16
  te_job_id :: string
  te_sequence :: u64
  te_solver_id :: "string option"
  te_run_id :: "u64 option"
  te_elapsed_ms :: u64
  te_recorded_at_ms :: "u64 option"
  te_payload :: telemetry_payload

record telemetry_summary =
  ts_events :: "telemetry_event list"
  ts_report :: telemetry_report

text \<open>The diagnostics of a run, from \<open>src/solver/core/candidate.rs\<close>.\<close>

record solver_diagnostics =
  diag_selected_strategy :: string
  diag_candidates :: "solver_candidate list"
  diag_total_budget_ms :: u64
  diag_total_elapsed_ms :: u64
  diag_baseline_elapsed_ms :: u64
  diag_sa_elapsed_ms :: u64
  diag_sa_run_count :: u64
  diag_global_best_updates :: u64
  diag_termination_reason :: string
  diag_telemetry :: "telemetry_summary option"

record route_stop_output =
  out_location_id :: string
  out_order :: usize
  out_arrival_time :: time_of_day
  out_service_start_time :: "time_of_day option"
  out_departure_time :: "time_of_day option"
  out_wait_minutes :: "u32 option"
  out_stay_minutes :: "u32 option"

record skipped_output =
  skipped_location_id :: string
  skipped_reason :: string

datatype partial_quality = Proven | BestFound

record objective_output =
  obj_latest_start :: time_of_day
  obj_start_time :: "time_of_day option"
  obj_finish_time :: time_of_day
  obj_travel_minutes :: u32
  obj_wait_minutes :: u32
  obj_optional_count :: "usize option"
  obj_optional_priority :: "u32 option"

text \<open>The metadata of a candidate is copied field by field; it stays the record it is.\<close>

record candidate_output =
  cand_strategy :: string
  cand_solver_id :: "string option"
  cand_run_id :: "u64 option"
  cand_best :: bool
  cand_route :: "string list"
  cand_feasible :: bool
  cand_objective :: "objective_output option"
  cand_elapsed_ms :: u64
  cand_metadata :: candidate_metadata

record diagnostics_output =
  dout_total_budget_ms :: u64
  dout_total_elapsed_ms :: u64
  dout_baseline_elapsed_ms :: u64
  dout_sa_elapsed_ms :: u64
  dout_sa_run_count :: u64
  dout_global_best_updates :: u64
  dout_termination_reason :: string

record revalidation_output =
  rev_attempted :: bool
  rev_applied :: bool
  rev_leg_count :: usize
  rev_changed_leg_count :: usize
  rev_max_delta_minutes :: u32
  rev_schedule_feasible :: "bool option"
  rev_warning_code :: "string option"
  rev_warning_detail :: "string option"

record optimize_response =
  resp_route :: "route_stop_output list"
  resp_total_travel_minutes :: u32
  resp_start_policy :: "start_policy option"
  resp_selected_start_time :: "time_of_day option"
  resp_partial :: "bool option"
  resp_visited_count :: "usize option"
  resp_skipped_locations :: "skipped_output list option"
  resp_result_quality :: "partial_quality option"
  resp_candidates :: "candidate_output list option"
  resp_diagnostics :: "diagnostics_output option"
  resp_telemetry :: "telemetry_summary option"
  resp_selected_provider :: "route_provider_name option"
  resp_selection_reason :: "string option"
  resp_selection_source :: "selection_source option"
  resp_country_code :: "string option"
  resp_mode :: "travel_mode option"
  resp_matrix_departure_time :: "string option"
  resp_matrix_time_zone :: "string option"
  resp_revalidation :: "revalidation_output option"

section \<open>From a plan to a response\<close>

record schedule_objective =
  so_start_time :: time_of_day
  so_finish_time :: time_of_day
  so_travel_minutes :: u32
  so_wait_minutes :: u32

definition objective_from_plan :: "route_plan \<Rightarrow> schedule_objective option" where
  "objective_from_plan plan = do {
     first \<leftarrow> get (stops plan) 0;
     final \<leftarrow> get (stops plan) (length (stops plan) - 1);
     finish \<leftarrow> departure_time final;
     Some \<lparr>so_start_time = arrival_time first,
           so_finish_time = finish,
           so_travel_minutes = total_travel_minutes plan,
           so_wait_minutes = sum_list (map stop_wait_minutes (stops plan))\<rparr>
   }"

definition objective_from_schedule :: "schedule_objective \<Rightarrow> objective_output" where
  "objective_from_schedule ob =
     \<lparr>obj_latest_start = so_start_time ob, obj_start_time = Some (so_start_time ob),
      obj_finish_time = so_finish_time ob, obj_travel_minutes = so_travel_minutes ob,
      obj_wait_minutes = so_wait_minutes ob, obj_optional_count = None, obj_optional_priority = None\<rparr>"

definition objective_from_score :: "solution_metrics \<Rightarrow> objective_output option" where
  "objective_from_score m = do {
     start \<leftarrow> (case from_minutes (start_time_slot m * time_slot_minutes) of Inl _ \<Rightarrow> None | Inr t \<Rightarrow> Some t);
     finish \<leftarrow> (case from_minutes (finish_time_slot m * time_slot_minutes) of Inl _ \<Rightarrow> None | Inr t \<Rightarrow> Some t);
     Some \<lparr>obj_latest_start = start, obj_start_time = Some start, obj_finish_time = finish,
           obj_travel_minutes = metric_travel_minutes m, obj_wait_minutes = metric_wait_minutes m,
           obj_optional_count = Some (visited_optional_count m),
           obj_optional_priority = Some (visited_optional_priority m)\<rparr>
   }"

definition route_ids :: "optimization_problem \<Rightarrow> solver_solution \<Rightarrow> string list" where
  "route_ids p sol = map (\<lambda>k. case get (locations p) k of
      Some l \<Rightarrow> location_id l | None \<Rightarrow> ''#'' @ nat_to_string k) (visit_order sol)"

definition from_candidate :: "solver_candidate \<Rightarrow> bool \<Rightarrow> optimization_problem \<Rightarrow>
    (string list \<times> schedule_objective option) option \<Rightarrow> candidate_output" where
  "from_candidate c best p chosen =
     \<lparr>cand_strategy = strategy c,
      cand_solver_id = (case meta_solver_id (metadata c) of
          Some v \<Rightarrow> Some v
        | None \<Rightarrow> Some (if take 3 (strategy c) = ''sa_'' then ''sa'' else strategy c)),
      cand_run_id = meta_run_id (metadata c),
      cand_best = best,
      cand_route = (case chosen of
          Some (route, _) \<Rightarrow> route
        | None \<Rightarrow> (case candidate_route c of None \<Rightarrow> [] | Some sol \<Rightarrow> route_ids p sol)),
      cand_feasible = feasible c,
      cand_objective = (case Option.bind chosen snd of
          Some ob \<Rightarrow> Some (objective_from_schedule ob)
        | None \<Rightarrow> Option.bind (objective_score c) objective_from_score),
      cand_elapsed_ms = duration_ms (elapsed_ns c),
      cand_metadata = metadata c\<rparr>"

text \<open>The loop with \<open>best_emitted\<close> over the candidates.\<close>

fun output_candidates :: "optimization_problem \<Rightarrow> string \<Rightarrow> string list \<times> schedule_objective option \<Rightarrow>
    bool \<Rightarrow> solver_candidate list \<Rightarrow> candidate_output list" where
  "output_candidates p name chosen emitted [] = []"
| "output_candidates p name chosen emitted (c # cs) =
     (let best = (\<not> emitted \<and> strategy c = name) in
      from_candidate c best p (if best then Some chosen else None) #
        output_candidates p name chosen (emitted \<or> best) cs)"

definition mark_visited :: "optimization_problem \<Rightarrow> scheduled_stop list \<Rightarrow> bool list" where
  "mark_visited p ss =
     fold (\<lambda>s seen. seen[location_index s := True]) ss (replicate (length (locations p)) False)"

definition skipped_locations :: "optimization_problem \<Rightarrow> bool list \<Rightarrow> skipped_output list" where
  "skipped_locations p visited =
     map (\<lambda>(k, l). \<lparr>skipped_location_id = location_id l, skipped_reason = ''NOT_SELECTED_DUE_TO_CONSTRAINTS''\<rparr>)
       (filter (\<lambda>(k, l). \<not> required l \<and> \<not> visited ! k) (enumerate 0 (locations p)))"

definition output_stop :: "optimization_problem \<Rightarrow> nat \<times> scheduled_stop \<Rightarrow> route_stop_output" where
  "output_stop p = (\<lambda>(order, s).
     \<lparr>out_location_id = location_id (locations p ! location_index s),
      out_order = order,
      out_arrival_time = arrival_time s,
      out_service_start_time = Some (service_start_time s),
      out_departure_time = departure_time s,
      out_wait_minutes = Some (stop_wait_minutes s),
      out_stay_minutes = Some (stop_stay_minutes s)\<rparr>)"

definition diagnostics_from :: "solver_diagnostics \<Rightarrow> diagnostics_output" where
  "diagnostics_from d =
     \<lparr>dout_total_budget_ms = diag_total_budget_ms d, dout_total_elapsed_ms = diag_total_elapsed_ms d,
      dout_baseline_elapsed_ms = diag_baseline_elapsed_ms d, dout_sa_elapsed_ms = diag_sa_elapsed_ms d,
      dout_sa_run_count = diag_sa_run_count d, dout_global_best_updates = diag_global_best_updates d,
      dout_termination_reason = diag_termination_reason d\<rparr>"

definition from_plan ::
  "route_plan \<Rightarrow> optimization_problem \<Rightarrow> solver_diagnostics option \<Rightarrow> optimize_response" where
  "from_plan plan p diagnostics =
     (let partial_mode = (visit_policy p = BestEffortOnFailure);
          skipped = (if partial_mode then Some (skipped_locations p (mark_visited p (stops plan))) else None);
          best_route = map (\<lambda>s. location_id (locations p ! location_index s)) (stops plan);
          route = map (output_stop p) (enumerate 0 (stops plan))
      in \<lparr>resp_route = route,
          resp_total_travel_minutes = total_travel_minutes plan,
          resp_start_policy = Some (start_policy p),
          resp_selected_start_time = map_option out_arrival_time (get route 0),
          resp_partial = map_option (\<lambda>s. s \<noteq> []) skipped,
          resp_visited_count = (if partial_mode then Some (length route) else None),
          resp_skipped_locations = skipped,
          resp_result_quality = (if partial_mode
            then Some (if (case diagnostics of None \<Rightarrow> False | Some d \<Rightarrow> diag_selected_strategy d = exact_name)
                       then Proven else BestFound)
            else None),
          resp_candidates = map_option (\<lambda>d. output_candidates p (diag_selected_strategy d)
              (best_route, objective_from_plan plan) False (diag_candidates d)) diagnostics,
          resp_diagnostics = map_option diagnostics_from diagnostics,
          resp_telemetry = Option.bind diagnostics diag_telemetry,
          resp_selected_provider = None, resp_selection_reason = None, resp_selection_source = None,
          resp_country_code = None, resp_mode = None, resp_matrix_departure_time = None,
          resp_matrix_time_zone = None, resp_revalidation = None\<rparr>)"

definition set_provider_metadata :: "route_provider_selection option \<Rightarrow> string option \<Rightarrow> travel_mode \<Rightarrow>
    optimize_response \<Rightarrow> optimize_response" where
  "set_provider_metadata sel country mode r =
     (case sel of
        None \<Rightarrow> r
      | Some s \<Rightarrow> r\<lparr>resp_selected_provider := Some (selected s),
          resp_selection_reason := Some (selection_reason s),
          resp_selection_source := Some (selection_source s),
          resp_country_code := country, resp_mode := Some mode\<rparr>)"

definition set_routing_time_metadata ::
  "(instant \<Rightarrow> string) \<Rightarrow> instant \<Rightarrow> string option \<Rightarrow> optimize_response \<Rightarrow> optimize_response" where
  "set_routing_time_metadata rfc3339 departure zone r =
     r\<lparr>resp_matrix_departure_time := Some (rfc3339 departure), resp_matrix_time_zone := zone\<rparr>"

definition set_time_dependent_revalidation ::
  "revalidation_output \<Rightarrow> optimize_response \<Rightarrow> optimize_response" where
  "set_time_dependent_revalidation v r = r\<lparr>resp_revalidation := Some v\<rparr>"

definition strip_candidate :: "candidate_output \<Rightarrow> candidate_output" where
  "strip_candidate c = c\<lparr>cand_solver_id := None, cand_run_id := None,
     cand_objective := map_option (\<lambda>ob. ob\<lparr>obj_optional_count := None, obj_optional_priority := None\<rparr>)
       (cand_objective c),
     cand_metadata := (cand_metadata c)\<lparr>meta_timing := no_timing, meta_improved_global_best := None\<rparr>\<rparr>"

definition strip_portfolio_extensions :: "optimize_response \<Rightarrow> optimize_response" where
  "strip_portfolio_extensions r =
     r\<lparr>resp_telemetry := None, resp_candidates := map_option (map strip_candidate) (resp_candidates r)\<rparr>"

section \<open>Lemmas on responses\<close>

lemma mark_visited_nth:
  assumes "k < length (locations p)"
  shows "mark_visited p ss ! k \<longleftrightarrow> k \<in> location_index ` set ss"
proof -
  have "fold (\<lambda>s seen. seen[location_index s := True]) ss seen ! k \<longleftrightarrow> seen ! k \<or> k \<in> location_index ` set ss"
    if "k < length seen" for seen
    using that
  proof (induction ss arbitrary: seen)
    case (Cons s ss)
    then show ?case by (cases "location_index s = k") auto
  qed simp
  then show ?thesis using assms by (simp add: mark_visited_def)
qed

lemma route_stop_ids:
  "map out_location_id (map (output_stop p) (enumerate 0 ss)) = map (\<lambda>s. location_id (locations p ! location_index s)) ss"
  by (rule nth_equalityI) (simp_all add: output_stop_def nth_enumerate_eq)

lemma from_plan_ids:
  "map out_location_id (resp_route (from_plan plan p d)) =
    map (\<lambda>s. location_id (locations p ! location_index s)) (stops plan)"
  using route_stop_ids [of p "stops plan"] by (simp add: from_plan_def Let_def)

lemma from_plan_candidates:
  "resp_candidates (from_plan plan p (Some d)) = Some (output_candidates p (diag_selected_strategy d)
     (map out_location_id (resp_route (from_plan plan p (Some d))), objective_from_plan plan) False
     (diag_candidates d))"
  unfolding from_plan_ids by (simp add: from_plan_def Let_def)

lemma skipped_ids:
  assumes "valid_order p (map location_index ss)"
  shows "map skipped_location_id (skipped_locations p (mark_visited p ss)) =
    map (\<lambda>k. location_id (locations p ! k))
      (filter (\<lambda>k. k \<notin> location_index ` set ss) [0..<length (locations p)])"
proof -
  let ?n = "length (locations p)"
  have enum: "enumerate 0 (locations p) = map (\<lambda>k. (k, locations p ! k)) [0..<?n]"
    by (rule nth_equalityI) (simp_all add: nth_enumerate_eq)
  have "filter (\<lambda>k. \<not> required (locations p ! k) \<and> \<not> mark_visited p ss ! k) [0..<?n] =
      filter (\<lambda>k. k \<notin> location_index ` set ss) [0..<?n]"
    using assms by (intro filter_cong) (auto simp: mark_visited_nth valid_order_def Let_def)
  then show ?thesis
    unfolding skipped_locations_def enum
    by (simp add: filter_map comp_def split_def)
qed

lemma mset_order_rest:
  assumes "distinct order" and "set order \<subseteq> {..<n}"
  shows "mset order + mset (filter (\<lambda>k. k \<notin> set order) [0..<n]) = mset [0..<n]"
proof -
  have "mset order = mset (filter (\<lambda>k. k \<in> set order) [0..<n])"
    using assms by (subst set_eq_iff_mset_eq_distinct [symmetric]) auto
  moreover have "mset (filter Q xs) + mset (filter (\<lambda>k. \<not> Q k) xs) = mset xs" for Q and xs :: "nat list"
    by (induction xs) auto
  ultimately show ?thesis by metis
qed

lemma output_candidates_emitted: "filter cand_best (output_candidates p name chosen True cs) = []"
  by (induction cs) (simp_all add: from_candidate_def)

lemma output_candidates_best:
  "name \<in> strategy ` set cs \<Longrightarrow>
    \<exists>c. filter cand_best (output_candidates p name chosen False cs) = [c] \<and>
      cand_strategy c = name \<and> cand_route c = fst chosen"
  by (induction cs)
    (auto simp: Let_def output_candidates_emitted from_candidate_def split: prod.splits)

section \<open>The request of the worked example\<close>

definition readme_location_input :: "string \<Rightarrow> nat \<Rightarrow> nat \<Rightarrow> nat \<Rightarrow> location_input" where
  "readme_location_input name op cl stay =
     \<lparr>in_id = name, in_name = None, in_place_id = [], in_latitude = None, in_longitude = None,
      in_open_time = TimeOfDay op, in_close_time = TimeOfDay cl, in_stay_minutes = stay,
      in_required = None, in_priority = None\<rparr>"

definition readme_request :: "start_policy \<Rightarrow> optimize_request" where
  "readme_request sp =
     \<lparr>req_job_id = ''readme-matrix-example'',
      req_locations =
        [readme_location_input ''hotel'' 540 1080 0, readme_location_input ''museum'' 600 720 60,
         readme_location_input ''park'' 540 1080 30, readme_location_input ''station'' 540 1200 0],
      req_visit_policy = None, req_start_policy = Some sp, req_start_time = Some (TimeOfDay 540),
      req_travel_date = None, req_time_zone = None, req_travel_mode = None, req_country_code = None,
      req_route_provider = None, use_euclidean_matrix = False,
      req_matrix = Some [[0, 20, 10, 30], [20, 0, 15, 10], [10, 15, 0, 20], [30, 10, 20, 0]],
      req_sparse_matrix = None, req_debug = None, req_experiment = None\<rparr>"

lemmas readme_request_defs = readme_request_def readme_location_input_def

lemma readme_request_problem: "problem_of (readme_request sp) = readme_problem sp"
  by (simp add: problem_of_def readme_request_defs location_of_def endpoint_index_def readme_defs
      with_policies_def new_location_def request_visit_policy_def request_start_policy_def
      request_start_time_def upt_rec)

lemma readme_request_typed: "typed_request (readme_request sp)"
  by (auto simp: typed_request_def readme_request_defs wf_time_def minutes_per_day_def)

lemma readme_request_acceptable: "acceptable cal (readme_request sp)"
proof -
  have ids: "trim s = s" if "s \<in> {''readme-matrix-example'', ''hotel'', ''museum'', ''park'', ''station''}" for s
    using that by (intro trim_visible) auto
  have short: "length s \<le> 512 \<Longrightarrow> char_count s \<le> 512" "length s \<le> 128 \<Longrightarrow> char_count s \<le> 128" for s
    using char_count_le [of s] by simp_all
  have "acceptable_location (readme_request sp) k (req_locations (readme_request sp) ! k)"
    if "k < length (req_locations (readme_request sp))" for k
  proof -
    have "k = 0 \<or> k = 1 \<or> k = 2 \<or> k = 3" using that by (auto simp: readme_request_defs)
    then show ?thesis
      by (auto simp: acceptable_location_def readme_request_defs ids short has_supplied_matrix_def
          coordinates_ok_def less_eq_time_of_day_def)
  qed
  then show ?thesis
    by (auto simp: acceptable_def readme_request_defs ids short is_ok_iff requested_routing_departure_def departure_day_def
        has_supplied_matrix_def square_def All_less_Suc)
qed

section \<open>Properties\<close>

text \<open>
  C11. Validation accepts exactly the acceptable requests, and makes of them the problem the
  request describes, location by location.
\<close>

theorem request_accepted_iff:
  "problem_try_from cal r = Inr p \<longleftrightarrow> acceptable cal r \<and> p = problem_of r"
  by (rule problem_try_from_Inr)

text \<open>
  C10. An accepted request is a problem the solvers and the scheduler may assume: its windows and
  times are within the day, its location ids are distinct, its endpoints are required, and
  every location is required unless the request allows partial routes.
\<close>

theorem accepted_request_wf:
  assumes "typed_request r" and "problem_try_from cal r = Inr p"
  shows "wf_problem p \<and> distinct (map location_id (locations p)) \<and>
    required (start_location p) \<and> required (end_location p) \<and>
    (visit_policy p = AllRequired \<longrightarrow> (\<forall>l\<in>set (locations p). required l))"
proof -
  have acc: "acceptable cal r" and p: "p = problem_of r" using assms(2) by (simp_all add: problem_try_from_Inr)
  have wf: "wf_problem p" using acceptable_wf [OF assms(1) acc] p by simp
  have n: "0 < length (req_locations r)" using acc by (auto simp: acceptable_def)
  have req: "required (locations p ! k)"
    if "k < length (req_locations r)" "endpoint_index r k \<or> visit_policy p = AllRequired" for k
    using that p by (auto simp: problem_of_nth location_of_def)
  have "required (start_location p)" "required (end_location p)"
    using req [of 0] req [of "length (req_locations r) - 1"] n start_location_nth [OF wf] end_location_nth [OF wf]
    by (simp_all add: endpoint_index_def p end_location_index_def)
  moreover have "\<forall>l\<in>set (locations p). required l" if "visit_policy p = AllRequired"
    using req that by (auto simp: in_set_conv_nth p)
  ultimately show ?thesis
    using wf acc problem_of_ids [of r] by (simp add: p acceptable_def)
qed

theorem accepted_request_wf_witness:
  "wf_problem (readme_problem Earliest) \<and> required (end_location (readme_problem Earliest))"
  using accepted_request_wf [OF readme_request_typed [of Earliest],
      of "undefined :: (unit, unit) calendar" "readme_problem Earliest"]
  by (simp add: problem_try_from_Inr readme_request_acceptable readme_request_problem)

text \<open>
  C12. A best-effort response accounts for every location of the request: the visited stops and
  the skipped locations together are exactly the locations, the count is that of the stops,
  and the response calls itself partial exactly when something was skipped.
\<close>

theorem response_partitions_locations:
  assumes "visit_policy p = BestEffortOnFailure" and "valid_order p (map location_index (stops plan))"
  shows "\<exists>skipped. resp_skipped_locations (from_plan plan p d) = Some skipped \<and>
    mset (map out_location_id (resp_route (from_plan plan p d))) + mset (map skipped_location_id skipped) =
      mset (map location_id (locations p)) \<and>
    resp_visited_count (from_plan plan p d) = Some (length (resp_route (from_plan plan p d))) \<and>
    resp_partial (from_plan plan p d) = Some (skipped \<noteq> [])"
proof -
  let ?order = "map location_index (stops plan)" and ?n = "length (locations p)"
  have "mset ?order + mset (filter (\<lambda>k. k \<notin> set ?order) [0..<?n]) = mset [0..<?n]"
    using assms(2) by (intro mset_order_rest) (simp_all add: valid_order_def Let_def)
  from arg_cong [OF this, of "image_mset (\<lambda>k. location_id (locations p ! k))"]
  have "mset (map (\<lambda>s. location_id (locations p ! location_index s)) (stops plan)) +
      mset (map skipped_location_id (skipped_locations p (mark_visited p (stops plan)))) =
      mset (map (\<lambda>k. location_id (locations p ! k)) [0..<?n])"
    unfolding skipped_ids [OF assms(2)] image_mset_union mset_map [symmetric] by (simp add: comp_def del: mset_map)
  also have "map (\<lambda>k. location_id (locations p ! k)) [0..<?n] = map location_id (locations p)"
    by (rule nth_equalityI) simp_all
  finally show ?thesis
    using assms(1) route_stop_ids [of p "stops plan"] by (simp add: from_plan_def Let_def)
qed

text \<open>The worked example with an optional museum, and a plan that skips it.\<close>

definition readme_partial_problem :: optimization_problem where
  "readme_partial_problem = (readme_problem Earliest)\<lparr>visit_policy := BestEffortOnFailure,
     locations := (locations (readme_problem Earliest))[1 := with_visit_metadata (readme_location ''museum'' 600 720 60) False 5]\<rparr>"

definition readme_partial_plan :: route_plan where
  "readme_partial_plan = \<lparr>stops = map (\<lambda>k. \<lparr>location_index = k, arrival_time = TimeOfDay 540,
     service_start_time = TimeOfDay 540, departure_time = Some (TimeOfDay 540),
     stop_wait_minutes = 0, stop_stay_minutes = 0\<rparr>) [0, 2, 3], total_travel_minutes = 30\<rparr>"

lemma readme_partial_valid:
  "valid_order readme_partial_problem (map location_index (stops readme_partial_plan))"
  by (auto simp: valid_order_def readme_partial_problem_def readme_partial_plan_def readme_defs
      with_visit_metadata_def less_Suc_eq numeral_eq_Suc)

lemma readme_partial_ids:
  "map (\<lambda>s. location_id (locations readme_partial_problem ! location_index s)) (stops readme_partial_plan) =
    [''hotel'', ''park'', ''station'']"
  by (simp add: readme_partial_plan_def readme_partial_problem_def readme_defs)

theorem response_partitions_locations_witness:
  "\<exists>skipped :: skipped_output list. mset [''hotel'', ''park'', ''station''] + mset (map skipped_location_id skipped) =
    mset [''hotel'', ''museum'', ''park'', ''station'']"
proof -
  have ids: "map location_id (locations readme_partial_problem) = [''hotel'', ''museum'', ''park'', ''station'']"
    by (simp add: readme_partial_problem_def readme_defs with_visit_metadata_def)
  have "visit_policy readme_partial_problem = BestEffortOnFailure"
    by (simp add: readme_partial_problem_def)
  note response_partitions_locations [OF this readme_partial_valid, of None,
      unfolded from_plan_ids readme_partial_ids ids]
  then show ?thesis by (elim exE conjE) (rule exI)
qed

text \<open>
  Exactly one of the reported candidates is marked as the best, it is one of the strategy that
  was selected, and its route is the route of the response.
\<close>

lemma response_best_candidate:
  assumes "diag_selected_strategy d \<in> strategy ` set (diag_candidates d)"
  shows "\<exists>outs c. resp_candidates (from_plan plan p (Some d)) = Some outs \<and> filter cand_best outs = [c] \<and>
    cand_strategy c = diag_selected_strategy d \<and>
    cand_route c = map out_location_id (resp_route (from_plan plan p (Some d)))"
  using output_candidates_best [OF assms, of p
      "(map out_location_id (resp_route (from_plan plan p (Some d))), objective_from_plan plan)"]
  unfolding from_plan_candidates by simp

theorem response_best_candidate_witness:
  "\<exists>c. filter cand_best (output_candidates readme_partial_problem ''greedy''
      ([''hotel'', ''park'', ''station''], objective_from_plan readme_partial_plan) False
      [failed_candidate ''sa_1'' 0 True ''strategy timed out'', failed_candidate ''greedy'' 0 False ''x'']) = [c] \<and>
    cand_route c = [''hotel'', ''park'', ''station'']"
proof -
  let ?d = "\<lparr>diag_selected_strategy = ''greedy'',
    diag_candidates = [failed_candidate ''sa_1'' 0 True ''strategy timed out'', failed_candidate ''greedy'' 0 False ''x''],
    diag_total_budget_ms = 0, diag_total_elapsed_ms = 0, diag_baseline_elapsed_ms = 0, diag_sa_elapsed_ms = 0,
    diag_sa_run_count = 0, diag_global_best_updates = 0, diag_termination_reason = [], diag_telemetry = None\<rparr>"
  have "diag_selected_strategy ?d \<in> strategy ` set (diag_candidates ?d)"
    by (simp add: failed_candidate_def)
  from response_best_candidate [OF this, of readme_partial_plan readme_partial_problem] show ?thesis
    unfolding from_plan_candidates from_plan_ids readme_partial_ids
    by (auto simp del: output_candidates.simps)
qed

end
