(* ===== verification/Service.thy ===== *)
theory Service
  imports Api Schedule
begin

text \<open>
  \<open>src/service.rs\<close>, \<open>src/service/\<close> and \<open>src/matrix/service.rs\<close>: the pipeline from a request to a
  response. A pipeline step threads the state of the progress coordinator, which holds the
  stage and percentage last reported, the reports made so far and the number of reads of the
  cancellation token. Besides an error a step can panic or never return: the \<open>expect\<close>s and
  \<open>unreachable!\<close>s of the code are outcomes, shown below not to happen. The routing provider,
  the solver, the clock, the calendar and the random generator are the environment.
\<close>

section \<open>Errors as text\<close>

definition show_bool :: "bool \<Rightarrow> string" where
  "show_bool b = (if b then ''true'' else ''false'')"

fun routing_error_str :: "routing_error \<Rightarrow> string" where
  "routing_error_str RoutingCancelled = ''routing request was cancelled''"
| "routing_error_str (Unreachable from to reason) =
     ''no route exists between '' @ from @ '' and '' @ to @ '': '' @ reason"
| "routing_error_str (ProviderFailed s) = ''routing provider failed: '' @ s"
| "routing_error_str (ProviderResolution s) = ''route provider resolution failed: '' @ s"
| "routing_error_str ProviderOverrideDisabled = ''request-level route provider override is disabled''"
| "routing_error_str (ProviderNotConfigured name reason) =
     ''route provider '' @ name @ '' is not configured: '' @ reason"
| "routing_error_str (UnsupportedProviderCapability name mode) =
     ''route provider '' @ name @ '' does not support mode '' @ mode"
| "routing_error_str (MatrixBuild timeout elapsed completed tot from to source) =
     ''routing matrix failed: matrix_timeout='' @ show_bool timeout @ ''; elapsed_ms='' @ nat_to_string elapsed @
     ''; completed_pairs='' @ nat_to_string completed @ ''/'' @ nat_to_string tot @ ''; failed_pair='' @ from @
     '' -> '' @ to @ ''; cause='' @ routing_error_str source"
| "routing_error_str (LocationCountMismatch m n) =
     ''routing matrix size '' @ nat_to_string m @ '' does not match '' @ nat_to_string n @ '' locations''"
| "routing_error_str (InvalidMatrix e) = ''routing provider produced an invalid matrix: '' @ matrix_error_str e"

fun schedule_error_str :: "schedule_error \<Rightarrow> string" where
  "schedule_error_str (ScheduleMatrixSizeMismatch m n) =
     ''matrix size '' @ nat_to_string m @ '' does not match '' @ nat_to_string n @ '' locations''"
| "schedule_error_str ScheduleInvalidVisitOrder =
     ''visit order must keep endpoints fixed, avoid duplicates, and include every required location''"
| "schedule_error_str OutsideSingleDay = ''route exceeds the single-day time range supported by v0''"
| "schedule_error_str TravelTimeOverflow = ''travel time total overflowed''"
| "schedule_error_str (UnreachableArc from to) = ''route uses unreachable arc '' @ from @ '' -> '' @ to"
| "schedule_error_str (TimeWindowViolation v) =
     ''route violates the time window for location '' @ violation_location_id v"

section \<open>The matrix service\<close>

datatype matrix_source = FromProvider | DenseRows "u32 list list" | SparseRows "u32 option list list"

definition map_invalid :: "matrix_error + travel_time_matrix \<Rightarrow> routing_error + travel_time_matrix" where
  "map_invalid r = (case r of Inl e \<Rightarrow> Inl (InvalidMatrix e) | Inr m \<Rightarrow> Inr m)"

definition build_from_source :: "location list \<Rightarrow> matrix_source \<Rightarrow> routing_error + travel_time_matrix \<Rightarrow>
    routing_error + travel_time_matrix" where
  "build_from_source ls source provider =
     bind_result (case source of
         FromProvider \<Rightarrow> provider
       | DenseRows rs \<Rightarrow> map_invalid (new_matrix rs)
       | SparseRows rs \<Rightarrow> map_invalid (new_sparse rs)) (\<lambda>m.
     if source \<noteq> FromProvider \<and> matrix_size m \<noteq> length ls
     then Inl (LocationCountMismatch (matrix_size m) (length ls)) else Inr m)"

definition build_until :: "location list \<Rightarrow> matrix_source \<Rightarrow> routing_error + travel_time_matrix \<Rightarrow>
    routing_error + travel_time_matrix" where
  "build_until ls source provider = build_from_source ls source provider"

definition make_routing_context :: "instant \<Rightarrow> travel_mode \<Rightarrow> string option \<Rightarrow> string option \<Rightarrow>
    route_provider_name option \<Rightarrow> routing_context" where
  "make_routing_context departure mode zone country name =
     (let with_country = (case country of
          None \<Rightarrow> Map.empty | Some c \<Rightarrow> [''countryCode'' \<mapsto> c]);
        options = (case name of
          None \<Rightarrow> with_country | Some v \<Rightarrow> with_country(''routeProviderOverride'' \<mapsto> provider_str v))
      in default_context\<lparr>context_departure_time := Some departure, context_travel_mode := mode,
           context_timezone := zone, context_options := options\<rparr>)"

section \<open>The environment and the pipeline\<close>

record solver_run_result =
  run_solution :: solver_solution
  run_diagnostics :: "solver_diagnostics option"

text \<open>
  A \<open>RouteSolver\<close>: the progress events of a run with its result, and the start time it selects
  for a solution. The two functions of a routing provider that the service calls, besides
  its selection of a provider, come with the pairs it counted while it built the matrix.
\<close>

record route_solver =
  solver_run :: "solver_input \<Rightarrow> experiment_options option \<Rightarrow>
    solver_progress_event list \<times> (solver_error + solver_run_result)"
  solver_start_time :: "solver_input \<Rightarrow> solver_solution \<Rightarrow> solver_error + time_of_day"

record routing_provider =
  select_provider :: "routing_context \<Rightarrow> routing_error + route_provider_selection option"
  provider_matrix :: "location list \<Rightarrow> routing_context \<Rightarrow>
    (usize \<times> usize) list \<times> (routing_error + travel_time_matrix)"
  leg_minutes :: "location \<Rightarrow> location \<Rightarrow> routing_context \<Rightarrow> routing_error + u32 option"

record ('date, 'zone) service_env =
  env_calendar :: "('date, 'zone) calendar"
  env_now :: instant
  date_in_zone :: "'zone \<Rightarrow> instant \<Rightarrow> 'date"
  rfc3339 :: "instant \<Rightarrow> string"
  estimate_minutes :: "location_input \<Rightarrow> location_input \<Rightarrow> travel_mode \<Rightarrow> f64"
  env_provider :: routing_provider
  env_solver :: route_solver
  token :: "nat \<Rightarrow> bool"
  solver_poll :: "poll \<Rightarrow> bool"
  shuffle_step :: "u64 option \<Rightarrow> nat \<Rightarrow> usize list \<Rightarrow> usize list"
  default_euclidean_matrix :: bool

datatype service_error =
    ServiceCancelled
  | InvalidRequest request_error
  | RoutingFailed routing_error
  | SolverFailed solver_error
  | ScheduleFailed schedule_error

text \<open>Cancellation is one error wherever it is noticed.\<close>

definition routing_failure :: "routing_error \<Rightarrow> service_error" where
  "routing_failure e = (if e = RoutingCancelled then ServiceCancelled else RoutingFailed e)"

definition solver_failure :: "solver_error \<Rightarrow> service_error" where
  "solver_failure e = (if e = Cancelled then ServiceCancelled else SolverFailed e)"

datatype 'a outcome = Returned 'a | Failing service_error | Panicking string | Diverging

datatype report =
    ProgressReport progress_stage u8 string
  | ErrorReport optimization_error_code string service_error
  | ResultReport optimize_response
  | TelemetryReport telemetry_event

record pipeline_state =
  last_stage :: "progress_stage option"
  last_progress :: u8
  reports :: "report list"
  token_reads :: nat

type_synonym 'a pipeline = "pipeline_state \<Rightarrow> 'a outcome \<times> pipeline_state"

definition ret :: "'a \<Rightarrow> 'a pipeline" where
  "ret x s = (Returned x, s)"

definition after :: "'a pipeline \<Rightarrow> ('a \<Rightarrow> 'b pipeline) \<Rightarrow> 'b pipeline" where
  "after m f s = (case m s of
     (Returned x, s') \<Rightarrow> f x s'
   | (Failing e, s') \<Rightarrow> (Failing e, s')
   | (Panicking w, s') \<Rightarrow> (Panicking w, s')
   | (Diverging, s') \<Rightarrow> (Diverging, s'))"

definition lift_result :: "('e \<Rightarrow> service_error) \<Rightarrow> 'e + 'a \<Rightarrow> 'a pipeline" where
  "lift_result f r s = (case r of Inl e \<Rightarrow> (Failing (f e), s) | Inr x \<Rightarrow> (Returned x, s))"

definition expect :: "string \<Rightarrow> 'a option \<Rightarrow> 'a pipeline" where
  "expect why x s = (case x of None \<Rightarrow> (Panicking why, s) | Some v \<Rightarrow> (Returned v, s))"

definition emit :: "report \<Rightarrow> unit pipeline" where
  "emit r s = (Returned (), s\<lparr>reports := reports s @ [r]\<rparr>)"

fun each :: "('a \<Rightarrow> unit pipeline) \<Rightarrow> 'a list \<Rightarrow> unit pipeline" where
  "each f [] = ret ()"
| "each f (x # xs) = after (f x) (\<lambda>_. each f xs)"

text \<open>\<open>ProgressCoordinator::report\<close>: reports never step back, and repeat nothing.\<close>

definition progress :: "progress_stage \<Rightarrow> u8 \<Rightarrow> string \<Rightarrow> unit pipeline" where
  "progress stage pct message s =
     (if (case last_stage s of None \<Rightarrow> False | Some current \<Rightarrow> stage < current) then (Returned (), s)
      else let pct' = max (last_progress s) (min pct 100) in
        if last_stage s = Some stage \<and> last_progress s = pct' then (Returned (), s)
        else (Returned (), s\<lparr>last_stage := Some stage, last_progress := pct',
               reports := reports s @ [ProgressReport stage pct' message]\<rparr>))"

definition start_stage :: "progress_stage \<Rightarrow> string \<Rightarrow> unit pipeline" where
  "start_stage stage message = progress stage (range_start (stage_range stage)) message"

definition check_cancelled :: "(nat \<Rightarrow> bool) \<Rightarrow> unit pipeline" where
  "check_cancelled tok s =
     (if tok (token_reads s) then Failing ServiceCancelled else Returned (),
      s\<lparr>token_reads := token_reads s + 1\<rparr>)"

definition read_token :: "(nat \<Rightarrow> bool) \<Rightarrow> bool pipeline" where
  "read_token tok s = (Returned (tok (token_reads s)), s\<lparr>token_reads := token_reads s + 1\<rparr>)"

section \<open>Straight-line estimates\<close>

text \<open>
  \<open>src/euclidean.rs\<close>. The distance in floating point, divided by the speed and rounded up to
  minutes, is the environment's; what is made of it is here. \<open>Infinite True\<close> is the positive
  infinity; every comparison with a NaN fails, and the cast of one is zero.
\<close>

definition clamp_minutes :: "f64 \<Rightarrow> u32" where
  "clamp_minutes x = (case x of
     Finite v \<Rightarrow> if v \<le> 1 then 1 else if v \<ge> 4294967295 then 4294967295 else nat \<lfloor>v\<rfloor>
   | Infinite positive \<Rightarrow> if positive then 4294967295 else 1
   | NotANumber \<Rightarrow> 0)"

definition estimated_minutes ::
  "('date, 'zone) service_env \<Rightarrow> travel_mode \<Rightarrow> location_input \<Rightarrow> location_input \<Rightarrow> u32 option" where
  "estimated_minutes env mode from to =
     (if in_latitude from = None \<or> in_latitude to = None \<or> in_longitude from = None \<or> in_longitude to = None
      then None else Some (clamp_minutes (estimate_minutes env from to mode)))"

definition travel_time_row :: "('date, 'zone) service_env \<Rightarrow> travel_mode \<Rightarrow> location_input list \<Rightarrow>
    nat \<times> location_input \<Rightarrow> u32 list option" where
  "travel_time_row env mode ls = (\<lambda>(row, from).
     those (map (\<lambda>(column, to). if row = column then Some 0 else estimated_minutes env mode from to)
       (enumerate 0 ls)))"

text \<open>\<open>None\<close> is the panic of a location without coordinates.\<close>

definition travel_time_rows ::
  "('date, 'zone) service_env \<Rightarrow> travel_mode \<Rightarrow> location_input list \<Rightarrow> u32 list list option" where
  "travel_time_rows env mode ls = those (map (travel_time_row env mode ls) (enumerate 0 ls))"

section \<open>Preparation\<close>

record prepared =
  prep_problem :: optimization_problem
  prep_dense :: "u32 list list option"
  prep_sparse :: "u32 option list list option"
  prep_euclidean :: "u32 list list option"
  prep_shuffle_seed :: "u64 option option"
  prep_experiment :: "experiment_options option"
  prep_job_id :: string
  dated_routing :: bool
  prep_mode :: travel_mode
  prep_country :: "string option"
  prep_provider :: "route_provider_name option"
  matrix_departure_time :: instant
  matrix_time_zone :: "string option"

definition has_local_matrix :: "prepared \<Rightarrow> bool" where
  "has_local_matrix q \<longleftrightarrow> prep_dense q \<noteq> None \<or> prep_sparse q \<noteq> None \<or> prep_euclidean q \<noteq> None"

definition routing_departure_time ::
  "('date, 'zone) service_env \<Rightarrow> optimize_request \<Rightarrow> request_error + instant \<times> string option" where
  "routing_departure_time env r =
     bind_result (requested_routing_departure (env_calendar env) r (request_start_time r)) (\<lambda>d.
       Inr (case d of Some (departure, zone) \<Rightarrow> (departure, Some zone)
            | None \<Rightarrow> (env_now env + 5 * 60, None)))"

text \<open>The two conversions with the expectation that both meet on their way.\<close>

definition forms_time :: string where
  "forms_time = ''validated TimeOfDay always forms a NaiveTime''"

definition departure_of_request ::
  "('date, 'zone) service_env \<Rightarrow> optimize_request \<Rightarrow> (instant \<times> string option) pipeline" where
  "departure_of_request env r =
     after (expect forms_time (departure_forms (env_calendar env) r (request_start_time r))) (\<lambda>_.
       lift_result InvalidRequest (routing_departure_time env r))"

definition problem_of_request ::
  "('date, 'zone) service_env \<Rightarrow> optimize_request \<Rightarrow> optimization_problem pipeline" where
  "problem_of_request env r =
     after (expect forms_time (conversion_forms (env_calendar env) r)) (\<lambda>_.
       lift_result InvalidRequest (problem_try_from (env_calendar env) r))"

definition request_travel_mode :: "optimize_request \<Rightarrow> travel_mode" where
  "request_travel_mode r = (case req_travel_mode r of None \<Rightarrow> Transit | Some m \<Rightarrow> m)"

definition request_shuffle_seed :: "optimize_request \<Rightarrow> u64 option option" where
  "request_shuffle_seed r = Option.bind (req_debug r) (\<lambda>d.
     if shuffle_result_route d = Some True then Some (shuffle_seed d) else None)"

definition normalized_country :: "optimize_request \<Rightarrow> string option pipeline" where
  "normalized_country r =
     (case req_country_code r of
        None \<Rightarrow> ret None
      | Some c \<Rightarrow> after (expect ''request validation normalizes country codes''
          (case normalize_country_code c of Inl _ \<Rightarrow> None | Inr v \<Rightarrow> Some v)) (\<lambda>v. ret (Some v)))"

definition euclidean_matrix :: "('date, 'zone) service_env \<Rightarrow> optimize_request \<Rightarrow> u32 list list option pipeline" where
  "euclidean_matrix env r =
     (if use_euclidean_matrix r
      then after (expect ''euclidean matrix locations have coordinates''
          (travel_time_rows env (request_travel_mode r) (req_locations r))) (\<lambda>rs. ret (Some rs))
      else ret None)"

definition prepare_request :: "('date, 'zone) service_env \<Rightarrow> optimize_request \<Rightarrow> prepared pipeline" where
  "prepare_request env r =
     after (start_stage Accepted ''Optimization request accepted.'') (\<lambda>_.
     after (check_cancelled (token env)) (\<lambda>_.
     after (start_stage ValidatingRequest ''Validating locations and schedule constraints.'') (\<lambda>_.
     after (departure_of_request env r) (\<lambda>(departure, zone).
     after (problem_of_request env r) (\<lambda>p.
     after (euclidean_matrix env r) (\<lambda>rs.
     after (normalized_country r) (\<lambda>country.
     after (check_cancelled (token env)) (\<lambda>_.
       ret \<lparr>prep_problem = p, prep_dense = req_matrix r, prep_sparse = req_sparse_matrix r,
            prep_euclidean = rs, prep_shuffle_seed = request_shuffle_seed r,
            prep_experiment = req_experiment r, prep_job_id = req_job_id r,
            dated_routing = (req_travel_date r \<noteq> None \<and> \<not> use_euclidean_matrix r),
            prep_mode = request_travel_mode r, prep_country = country,
            prep_provider = req_route_provider r, matrix_departure_time = departure,
            matrix_time_zone = zone\<rparr>))))))))"

section \<open>Routing and the matrix\<close>

record resolved_routing =
  routing_ctx :: "routing_context option"
  routing_selection :: "route_provider_selection option"

definition resolve_routing :: "('date, 'zone) service_env \<Rightarrow> prepared \<Rightarrow> resolved_routing pipeline" where
  "resolve_routing env q =
     after (start_stage SelectingProvider
       (if prep_euclidean q \<noteq> None
        then ''Using coordinates to estimate a straight-line matrix; no route provider is required.''
        else if has_local_matrix q then ''Using the caller-supplied matrix; no route provider is required.''
        else ''Selecting a route provider for the requested travel mode.'')) (\<lambda>_.
     after (check_cancelled (token env)) (\<lambda>_.
     if has_local_matrix q then ret \<lparr>routing_ctx = None, routing_selection = None\<rparr>
     else let ctx = make_routing_context (matrix_departure_time q) (prep_mode q) (matrix_time_zone q)
            (prep_country q) (prep_provider q) in
       after (lift_result RoutingFailed (select_provider (env_provider env) ctx)) (\<lambda>sel.
       after (case sel of None \<Rightarrow> ret ()
         | Some v \<Rightarrow> start_stage SelectingProvider
             (''Selected '' @ provider_str (selected v) @ '' as the route provider.'')) (\<lambda>_.
       ret \<lparr>routing_ctx = Some ctx, routing_selection = sel\<rparr>))))"

definition pairs_message :: "string option \<Rightarrow> usize \<times> usize \<Rightarrow> string" where
  "pairs_message name = (\<lambda>(completed, tot).
     ''Fetched '' @ nat_to_string completed @ '' / '' @ nat_to_string tot @ '' travel-time pairs'' @
     (case name of None \<Rightarrow> ''.'' | Some v \<Rightarrow> '' from '' @ v @ ''.''))"

definition matrix_source_of :: "prepared \<Rightarrow> matrix_source option" where
  "matrix_source_of q =
     (case (prep_dense q, prep_sparse q, prep_euclidean q) of
        (Some rs, None, None) \<Rightarrow> Some (DenseRows rs)
      | (None, None, Some rs) \<Rightarrow> Some (DenseRows rs)
      | (None, Some rs, None) \<Rightarrow> Some (SparseRows rs)
      | (None, None, None) \<Rightarrow> Some FromProvider
      | _ \<Rightarrow> None)"

text \<open>\<open>MatrixService::build\<close> with the progress of the provider; cancellation is read before and after.\<close>

definition build_with_control :: "('date, 'zone) service_env \<Rightarrow> location list \<Rightarrow> matrix_source \<Rightarrow>
    routing_context \<Rightarrow> string option \<Rightarrow> (routing_error + travel_time_matrix) pipeline" where
  "build_with_control env ls source ctx name =
     after (read_token (token env)) (\<lambda>cancelled.
     if cancelled then ret (Inl RoutingCancelled)
     else let (pairs, provided) = provider_matrix (env_provider env) ls ctx in
       after (if source = FromProvider
         then each (\<lambda>(completed, tot). progress FetchingTravelTimes
             (interpolate (stage_range FetchingTravelTimes) completed tot)
             (pairs_message name (completed, tot))) pairs
         else ret ()) (\<lambda>_.
       case build_from_source ls source provided of
         Inl e \<Rightarrow> ret (Inl e)
       | Inr m \<Rightarrow> after (read_token (token env)) (\<lambda>cancelled.
           ret (if cancelled then Inl RoutingCancelled else Inr m))))"

definition pair_count :: "optimization_problem \<Rightarrow> nat" where
  "pair_count p = min (length (locations p) * (length (locations p) - 1)) (2 ^ 64 - 1)"

definition build_matrix ::
  "('date, 'zone) service_env \<Rightarrow> prepared \<Rightarrow> resolved_routing \<Rightarrow> travel_time_matrix pipeline" where
  "build_matrix env q routing =
     after (start_stage PreparingMatrix
       (''Prepared '' @ nat_to_string (pair_count (prep_problem q)) @ '' directed travel-time pairs.'')) (\<lambda>_.
     after (check_cancelled (token env)) (\<lambda>_.
     after (start_stage FetchingTravelTimes
       (if prep_euclidean q \<noteq> None then ''Estimating travel times from straight-line coordinate distances.''
        else if has_local_matrix q then ''Loading the caller-supplied travel-time matrix.''
        else ''Fetching travel times for '' @ nat_to_string (pair_count (prep_problem q)) @ '' directed pairs.'')) (\<lambda>_.
     after (expect ''request validation rejects multiple matrix sources'' (matrix_source_of q)) (\<lambda>source.
     let ctx = (case routing_ctx routing of None \<Rightarrow> default_context | Some c \<Rightarrow> c);
         name = map_option (\<lambda>v. provider_str (selected v)) (routing_selection routing) in
     after (build_with_control env (locations (prep_problem q)) source ctx name) (\<lambda>built.
     after (lift_result routing_failure built) (\<lambda>m.
     after (check_cancelled (token env)) (\<lambda>_.
     after (start_stage BuildingMatrix ''Normalizing and validating the travel-time matrix.'') (\<lambda>_.
     after (progress BuildingMatrix (range_end (stage_range BuildingMatrix))
       ''Travel-time matrix validation completed.'') (\<lambda>_.
     ret m)))))))))"

text \<open>The matrix of a request on its own, without progress and never cancelled.\<close>

definition build_request_matrix ::
  "('date, 'zone) service_env \<Rightarrow> optimize_request \<Rightarrow> travel_time_matrix pipeline" where
  "build_request_matrix env r =
     after (problem_of_request env r) (\<lambda>p.
     if use_euclidean_matrix r
     then after (expect ''euclidean matrix locations have coordinates''
         (travel_time_rows env (request_travel_mode r) (req_locations r))) (\<lambda>rs.
       expect ''validated locations produce a square matrix''
         (case new_matrix rs of Inl _ \<Rightarrow> None | Inr m \<Rightarrow> Some m))
     else after (departure_of_request env r) (\<lambda>(departure, zone).
       let ctx = make_routing_context departure (request_travel_mode r) zone (req_country_code r)
         (req_route_provider r) in
       lift_result RoutingFailed
         (build_from_source (locations p) FromProvider (snd (provider_matrix (env_provider env) (locations p) ctx)))))"

section \<open>Solving\<close>

definition solver_progress :: "solver_progress_event \<Rightarrow> unit pipeline" where
  "solver_progress e = (case e of
     StrategyStarted name \<Rightarrow> progress OptimizingRoute 66 (''Running solver strategy '' @ name @ ''.'')
   | StrategyCompleted name \<Rightarrow> progress OptimizingRoute 68 (''Completed solver strategy '' @ name @ ''.'')
   | AnnealingRunStarted index \<Rightarrow> progress OptimizingRoute (saturating_add_u8 70 (min (index - 1) 9))
       (''Running simulated annealing search '' @ nat_to_string index @ ''.'')
   | SelectionStarted cnt \<Rightarrow> start_stage SelectingBestCandidate
       (''Comparing '' @ nat_to_string cnt @ '' route candidates.''))"

definition diagnose_input_order_schedule ::
  "optimization_problem \<Rightarrow> travel_time_matrix \<Rightarrow> schedule_error option" where
  "diagnose_input_order_schedule p m =
     (case calculate_schedule_from p m \<lparr>visit_order = [0..<length (locations p)]\<rparr> (start_time p) of
        Inl (TimeWindowViolation v) \<Rightarrow> Some (TimeWindowViolation v)
      | _ \<Rightarrow> None)"

text \<open>The error of a failed run: a lack of routes is explained by the schedule of the input order.\<close>

definition run_failure :: "optimization_problem \<Rightarrow> travel_time_matrix \<Rightarrow> solver_error \<Rightarrow> service_error" where
  "run_failure p m e =
     (if e = NoFeasibleRoute
      then (case diagnose_input_order_schedule p m of
          Some late \<Rightarrow> ScheduleFailed late
        | None \<Rightarrow> SolverFailed NoFeasibleRoute)
      else solver_failure e)"

definition assign_job_id :: "string \<Rightarrow> solver_run_result \<Rightarrow> solver_run_result" where
  "assign_job_id job run = run\<lparr>run_diagnostics := map_option (\<lambda>d. d\<lparr>diag_telemetry :=
     map_option (\<lambda>t. t\<lparr>ts_events := map (\<lambda>e. e\<lparr>te_job_id := job\<rparr>) (ts_events t)\<rparr>) (diag_telemetry d)\<rparr>)
     (run_diagnostics run)\<rparr>"

definition run_telemetry :: "solver_run_result \<Rightarrow> telemetry_event list" where
  "run_telemetry run = (case Option.bind (run_diagnostics run) diag_telemetry of
     None \<Rightarrow> [] | Some t \<Rightarrow> ts_events t)"

definition candidate_count :: "solver_run_result \<Rightarrow> nat" where
  "candidate_count run = (case run_diagnostics run of None \<Rightarrow> 1 | Some d \<Rightarrow> length (diag_candidates d))"

definition solver_input_of :: "('date, 'zone) service_env \<Rightarrow> prepared \<Rightarrow> travel_time_matrix \<Rightarrow> solver_input" where
  "solver_input_of env q m =
     \<lparr>input_matrix = m, input_problem = prep_problem q, is_cancelled = solver_poll env\<rparr>"

definition solve_prepared :: "('date, 'zone) service_env \<Rightarrow> prepared \<Rightarrow> travel_time_matrix \<Rightarrow>
    (solver_run_result \<times> time_of_day) pipeline" where
  "solve_prepared env q m =
     after (check_cancelled (token env)) (\<lambda>_.
     after (start_stage GeneratingCandidates ''Generating initial route candidates.'') (\<lambda>_.
     after (check_cancelled (token env)) (\<lambda>_.
     after (start_stage OptimizingRoute ''Optimizing route candidates.'') (\<lambda>_.
     after (check_cancelled (token env)) (\<lambda>_.
     let input = solver_input_of env q m;
         (events, result) = solver_run (env_solver env) input (prep_experiment q) in
     after (each solver_progress events) (\<lambda>_.
     after (lift_result (run_failure (prep_problem q) m) result) (\<lambda>raw.
     let run = assign_job_id (prep_job_id q) raw in
     after (each (\<lambda>e. emit (TelemetryReport e)) (run_telemetry run)) (\<lambda>_.
     after (progress SelectingBestCandidate (range_end (stage_range SelectingBestCandidate))
       (''Selected the best feasible route from '' @ nat_to_string (candidate_count run) @ '' candidates.'')) (\<lambda>_.
     after (lift_result solver_failure (solver_start_time (env_solver env) input (run_solution run))) (\<lambda>start.
     ret (run, start)))))))))))"

section \<open>Revalidation at the real departure times\<close>

text \<open>\<open>None\<close> is the panic of a time of day that forms no local time.\<close>

definition route_leg_departure_instant ::
  "('date, 'zone) service_env \<Rightarrow> routing_context \<Rightarrow> time_of_day \<Rightarrow> (string + instant) option" where
  "route_leg_departure_instant env ctx departure =
     (case bind_result (ok_or ''dated revalidation requires the matrix departure instant''
           (context_departure_time ctx)) (\<lambda>base.
         bind_result (ok_or ''dated revalidation requires an IANA time zone'' (context_timezone ctx)) (\<lambda>name.
         bind_result (ok_or (''invalid IANA time zone during revalidation: '' @ name)
           (parse_zone (env_calendar env) name)) (\<lambda>zone. Inr (name, zone, date_in_zone env zone base)))) of
        Inl detail \<Rightarrow> Some (Inl detail)
      | Inr (name, zone, date) \<Rightarrow>
          Option.bind (naive_time (minutes departure)) (\<lambda>_.
            let local = show_local (env_calendar env) date (minutes departure) in
            Some (case from_local (env_calendar env) zone date (minutes departure) of
              Single t \<Rightarrow> Inr t
            | Ambiguous _ _ \<Rightarrow> Inl (''actual leg departure '' @ local @ '' is ambiguous in '' @ name)
            | NoLocal \<Rightarrow> Inl (''actual leg departure '' @ local @ '' does not exist in '' @ name))))"

lemma route_leg_departure_total: "wf_time t \<Longrightarrow> route_leg_departure_instant env ctx t \<noteq> None"
  using naive_time_total [of t] by (auto simp: route_leg_departure_instant_def Let_def split: sum.split)

record leg_totals =
  corrected_rows :: "u32 option list list"
  leg_count :: usize
  changed_count :: usize
  max_delta :: u32

definition revalidation_of ::
  "leg_totals \<Rightarrow> bool \<Rightarrow> bool option \<Rightarrow> (string \<times> string) option \<Rightarrow> revalidation_output" where
  "revalidation_of t applied ok warning =
     \<lparr>rev_attempted = True, rev_applied = applied, rev_leg_count = leg_count t,
      rev_changed_leg_count = changed_count t, rev_max_delta_minutes = max_delta t,
      rev_schedule_feasible = ok, rev_warning_code = map_option fst warning,
      rev_warning_detail = map_option snd warning\<rparr>"

definition unavailable :: string where
  "unavailable = ''TIME_DEPENDENT_REVALIDATION_UNAVAILABLE''"

definition abs_diff :: "nat \<Rightarrow> nat \<Rightarrow> nat" where
  "abs_diff a b = (if a < b then b - a else a - b)"

definition update_cell :: "u32 option list list \<Rightarrow> usize \<Rightarrow> usize \<Rightarrow> u32 option \<Rightarrow> u32 option list list" where
  "update_cell rs i j v = rs[i := (rs ! i)[j := v]]"

definition count_leg :: "leg_totals \<Rightarrow> usize \<Rightarrow> usize \<Rightarrow> u32 \<Rightarrow> u32 \<Rightarrow> leg_totals" where
  "count_leg t from to current updated =
     \<lparr>corrected_rows = update_cell (corrected_rows t) from to (Some updated),
      leg_count = leg_count t + 1,
      changed_count = changed_count t + of_bool (current \<noteq> updated),
      max_delta = max (max_delta t) (abs_diff current updated)\<rparr>"

text \<open>One leg: a warning that ends the loop (left), or the totals to go on with.\<close>

definition revalidate_leg :: "('date, 'zone) service_env \<Rightarrow> optimization_problem \<Rightarrow> travel_time_matrix \<Rightarrow>
    routing_context \<Rightarrow> route_plan \<Rightarrow> nat \<Rightarrow> usize \<Rightarrow> usize \<Rightarrow> leg_totals \<Rightarrow>
    (revalidation_output + leg_totals) pipeline" where
  "revalidate_leg env p m ctx plan index from to t =
     after (check_cancelled (token env)) (\<lambda>_.
     after (expect ''every non-terminal scheduled stop has a departure time''
       (Option.bind (get (stops plan) index) departure_time)) (\<lambda>departure.
     after (expect ''validated TimeOfDay forms a local time''
       (route_leg_departure_instant env ctx departure)) (\<lambda>leg_departure.
     case leg_departure of
       Inl detail \<Rightarrow> ret (Inl (revalidation_of t False None (Some (unavailable, detail))))
     | Inr instant \<Rightarrow>
         after (expect ''the selected solution contains only reachable arcs''
           (travel_minutes m from to)) (\<lambda>current.
         let a = locations p ! from; b = locations p ! to in
         case leg_minutes (env_provider env) a b (ctx\<lparr>context_departure_time := Some instant\<rparr>) of
           Inr (Some updated) \<Rightarrow> ret (Inr (count_leg t from to current updated))
         | Inr None \<Rightarrow> ret (Inl (revalidation_of t False (Some False)
             (Some (''TIME_DEPENDENT_ROUTE_BECAME_UNREACHABLE'',
               ''selected leg '' @ location_id a @ '' -> '' @ location_id b @
               '' was unreachable at its actual departure time''))))
         | Inl e \<Rightarrow>
             if e = RoutingCancelled then lift_result id (Inl ServiceCancelled)
             else ret (Inl (revalidation_of t False None (Some (unavailable, routing_error_str e))))))))"

fun revalidate_legs :: "('date, 'zone) service_env \<Rightarrow> optimization_problem \<Rightarrow> travel_time_matrix \<Rightarrow>
    routing_context \<Rightarrow> route_plan \<Rightarrow> nat \<Rightarrow> usize list \<Rightarrow> leg_totals \<Rightarrow>
    (revalidation_output + leg_totals) pipeline" where
  "revalidate_legs env p m ctx plan index (from # to # rest) t =
     after (revalidate_leg env p m ctx plan index from to t) (\<lambda>r. case r of
         Inl warning \<Rightarrow> ret (Inl warning)
       | Inr t' \<Rightarrow> revalidate_legs env p m ctx plan (index + 1) (to # rest) t')"
| "revalidate_legs env p m ctx plan index _ t = ret (Inr t)"

definition warning_delta_minutes :: u32 where
  "warning_delta_minutes = 5"

definition changed_warning :: "leg_totals \<Rightarrow> (string \<times> string) option" where
  "changed_warning t =
     (if max_delta t \<ge> warning_delta_minutes
      then Some (''TIME_DEPENDENT_TRAVEL_TIME_CHANGED'',
        ''actual-departure revalidation changed '' @ nat_to_string (changed_count t) @
        '' legs; maximum delta was '' @ nat_to_string (max_delta t) @ '' minutes'')
      else None)"

definition revalidate_selected_route :: "('date, 'zone) service_env \<Rightarrow> optimization_problem \<Rightarrow>
    travel_time_matrix \<Rightarrow> solver_solution \<Rightarrow> time_of_day \<Rightarrow> route_plan \<Rightarrow> routing_context \<Rightarrow>
    (route_plan \<times> revalidation_output option) pipeline" where
  "revalidate_selected_route env p m sol start plan ctx =
     after (revalidate_legs env p m ctx plan 0 (visit_order sol)
       \<lparr>corrected_rows = into_rows m, leg_count = 0, changed_count = 0, max_delta = 0\<rparr>) (\<lambda>r. case r of
         Inl warning \<Rightarrow> ret (plan, Some warning)
       | Inr t \<Rightarrow>
           after (expect ''replacing selected arcs preserves matrix shape and diagonal''
             (case new_sparse (corrected_rows t) of Inl _ \<Rightarrow> None | Inr m' \<Rightarrow> Some m')) (\<lambda>m'.
           ret (case calculate_schedule_from p m' sol start of
               Inr plan' \<Rightarrow> (plan', Some (revalidation_of t True (Some True) (changed_warning t)))
             | Inl e \<Rightarrow> (plan, Some (revalidation_of t False (Some False)
                 (Some (''TIME_DEPENDENT_SCHEDULE_INFEASIBLE'', schedule_error_str e)))))))"

section \<open>The debug shuffle\<close>

text \<open>
  \<open>src/result_debug.rs\<close>: the interior is shuffled until it differs, which need not end; the
  shuffles are those of the environment's generator, the one after \<open>k\<close> others for \<open>k\<close>.
\<close>

partial_function (option) shuffle_until ::
  "(nat \<Rightarrow> usize list \<Rightarrow> usize list) \<Rightarrow> nat \<Rightarrow> usize list \<Rightarrow> usize list \<Rightarrow> usize list option" where
  "shuffle_until f k original current =
     (if current = original then shuffle_until f (k + 1) original (f k current) else Some current)"

definition shuffle_solution :: "(nat \<Rightarrow> usize list \<Rightarrow> usize list) \<Rightarrow> solver_solution \<Rightarrow> solver_solution option" where
  "shuffle_solution f sol =
     (let order = visit_order sol in
      if length order \<le> 3 then Some sol
      else map_option (\<lambda>mid. \<lparr>visit_order = take 1 order @ mid @ drop (length order - 1) order\<rparr>)
        (shuffle_until f 0 (interior order) (interior order)))"

section \<open>The response\<close>

definition returns :: "'a option \<Rightarrow> 'a pipeline" where
  "returns x s = (case x of None \<Rightarrow> (Diverging, s) | Some v \<Rightarrow> (Returned v, s))"

definition rendered_solution :: "('date, 'zone) service_env \<Rightarrow> prepared \<Rightarrow> solver_solution \<Rightarrow> solver_solution pipeline" where
  "rendered_solution env q sol =
     (case prep_shuffle_seed q of
        None \<Rightarrow> ret sol
      | Some seed \<Rightarrow> returns (shuffle_solution (shuffle_step env seed) sol))"

definition decorate_response :: "('date, 'zone) service_env \<Rightarrow> prepared \<Rightarrow> resolved_routing \<Rightarrow>
    revalidation_output option \<Rightarrow> optimize_response \<Rightarrow> optimize_response" where
  "decorate_response env q routing revalidation r0 =
     (let r1 = set_provider_metadata (routing_selection routing) (prep_country q) (prep_mode q) r0;
          r2 = (case Option.bind (routing_ctx routing) (\<lambda>c. map_option (\<lambda>t. (t, context_timezone c))
                  (context_departure_time c)) of
                None \<Rightarrow> r1
              | Some (departure, zone) \<Rightarrow> set_routing_time_metadata (rfc3339 env) departure zone r1)
      in case revalidation of None \<Rightarrow> r2 | Some v \<Rightarrow> set_time_dependent_revalidation v r2)"

text \<open>Dated requests that went to a provider are checked at their real departure times.\<close>

definition revalidated_plan :: "('date, 'zone) service_env \<Rightarrow> prepared \<Rightarrow> resolved_routing \<Rightarrow>
    travel_time_matrix \<Rightarrow> solver_solution \<Rightarrow> time_of_day \<Rightarrow> route_plan \<Rightarrow>
    (route_plan \<times> revalidation_output option) pipeline" where
  "revalidated_plan env q routing m sol start static =
     (if dated_routing q
      then (case routing_ctx routing of
          Some ctx \<Rightarrow> revalidate_selected_route env (prep_problem q) m sol start static ctx
        | None \<Rightarrow> ret (static, None))
      else ret (static, None))"

definition finalize_response :: "('date, 'zone) service_env \<Rightarrow> prepared \<Rightarrow> resolved_routing \<Rightarrow>
    travel_time_matrix \<Rightarrow> solver_run_result \<Rightarrow> time_of_day \<Rightarrow> optimize_response pipeline" where
  "finalize_response env q routing m run start =
     after (check_cancelled (token env)) (\<lambda>_.
     after (start_stage Scheduling (''Calculating arrival and departure times for '' @
       nat_to_string (length (locations (prep_problem q))) @ '' locations.'')) (\<lambda>_.
     after (check_cancelled (token env)) (\<lambda>_.
     after (rendered_solution env q (run_solution run)) (\<lambda>sol.
     after (lift_result ScheduleFailed (calculate_schedule_from (prep_problem q) m sol start)) (\<lambda>static.
     after (check_cancelled (token env)) (\<lambda>_.
     after (revalidated_plan env q routing m sol start static) (\<lambda>(plan, revalidation).
     after (check_cancelled (token env)) (\<lambda>_.
     after (start_stage ValidatingSchedule ''Validated opening hours, stays, and single-day constraints.'') (\<lambda>_.
     after (check_cancelled (token env)) (\<lambda>_.
     after (start_stage FinalizingResult ''Finalizing optimization results and diagnostics.'') (\<lambda>_.
     let response = decorate_response env q routing revalidation
       (from_plan plan (prep_problem q) (run_diagnostics run)) in
     after (check_cancelled (token env)) (\<lambda>_.
     after (emit (ResultReport response)) (\<lambda>_.
     after (check_cancelled (token env)) (\<lambda>_.
     ret (if prep_experiment q = None then strip_portfolio_extensions response else response)))))))))))))))"

definition apply_request_defaults :: "('date, 'zone) service_env \<Rightarrow> optimize_request \<Rightarrow> optimize_request" where
  "apply_request_defaults env r =
     (if default_euclidean_matrix env \<and> req_matrix r = None \<and> req_sparse_matrix r = None
      then r\<lparr>use_euclidean_matrix := True\<rparr> else r)"

definition build_travel_time_matrix ::
  "('date, 'zone) service_env \<Rightarrow> optimize_request \<Rightarrow> travel_time_matrix pipeline" where
  "build_travel_time_matrix env r = build_request_matrix env (apply_request_defaults env r)"

definition optimize_pipeline :: "('date, 'zone) service_env \<Rightarrow> optimize_request \<Rightarrow> optimize_response pipeline" where
  "optimize_pipeline env r =
     after (prepare_request env (apply_request_defaults env r)) (\<lambda>q.
     after (resolve_routing env q) (\<lambda>routing.
     after (build_matrix env q routing) (\<lambda>m.
     after (solve_prepared env q m) (\<lambda>(run, start).
     finalize_response env q routing m run start))))"

definition error_report :: "service_error \<Rightarrow> (optimization_error_code \<times> string) option" where
  "error_report e = (case e of
     ServiceCancelled \<Rightarrow> None
   | InvalidRequest _ \<Rightarrow> Some (CodeInvalidRequest, ''The optimize request is invalid.'')
   | RoutingFailed _ \<Rightarrow> Some (CodeRoutingUnavailable, ''Travel-time routing is temporarily unavailable.'')
   | SolverFailed NoFeasibleRoute \<Rightarrow> Some (CodeNoFeasibleRoute, ''No feasible route was found.'')
   | ScheduleFailed OutsideSingleDay \<Rightarrow> Some (CodeNoFeasibleRoute, ''No feasible route was found.'')
   | ScheduleFailed (TimeWindowViolation _) \<Rightarrow> Some (CodeNoFeasibleRoute, ''No feasible route was found.'')
   | SolverFailed _ \<Rightarrow> Some (CodeSolverError, ''Route optimization failed unexpectedly.'')
   | ScheduleFailed _ \<Rightarrow> Some (CodeScheduleError, ''Route scheduling failed unexpectedly.''))"

text \<open>\<open>report_error\<close>, then the final look at the token; a panic passes through both.\<close>

definition optimize :: "('date, 'zone) service_env \<Rightarrow> optimize_request \<Rightarrow> optimize_response pipeline" where
  "optimize env r s = (case optimize_pipeline env r s of
     (Panicking w, s') \<Rightarrow> (Panicking w, s')
   | (Diverging, s') \<Rightarrow> (Diverging, s')
   | (result, s') \<Rightarrow>
       let s'' = (case result of
             Failing e \<Rightarrow> (case error_report e of
                 None \<Rightarrow> s'
               | Some (code, message) \<Rightarrow> s'\<lparr>reports := reports s' @ [ErrorReport code message e]\<rparr>)
           | _ \<Rightarrow> s');
           cancelled = token env (token_reads s'')
       in (if cancelled then Failing ServiceCancelled else result, s''\<lparr>token_reads := token_reads s'' + 1\<rparr>))"

definition initial_pipeline :: pipeline_state where
  "initial_pipeline = \<lparr>last_stage = None, last_progress = 0, reports = [], token_reads = 0\<rparr>"

end
