(* ===== verification/Service_Progress.thy ===== *)
theory Service_Progress
  imports Service "HOL-Library.Sublist"
begin

text \<open>
  What every step of the pipeline keeps. An invariant of the coordinator's state that survives a
  report of progress, any other report and a read of the token survives a whole run, whichever
  branch it takes; the order of the progress reports and their history are such invariants.
  The second half is about the token: no response is returned past a read that found it set.
\<close>

section \<open>Invariants of the coordinator\<close>

definition preserves :: "(pipeline_state \<Rightarrow> bool) \<Rightarrow> 'a pipeline \<Rightarrow> bool" where
  "preserves I m \<longleftrightarrow> (\<forall>s. I s \<longrightarrow> I (snd (m s)))"

fun is_progress :: "report \<Rightarrow> bool" where
  "is_progress (ProgressReport _ _ _) = True"
| "is_progress _ = False"

lemma preserves_after:
  "preserves I m \<Longrightarrow> (\<And>x. preserves I (f x)) \<Longrightarrow> preserves I (after m f)"
  by (fastforce simp: preserves_def after_def split: prod.split outcome.split)

lemma preserves_pure [simp]:
  "preserves I (ret x)" "preserves I (lift_result g r)" "preserves I (expect w v)" "preserves I (returns v)"
  by (auto simp: preserves_def ret_def lift_result_def expect_def returns_def split: sum.split option.split)

lemma preserves_each: "(\<And>x. preserves I (f x)) \<Longrightarrow> preserves I (each f xs)"
  by (induction xs) (auto intro: preserves_after)

lemma preserves_if: "preserves I m \<Longrightarrow> preserves I m' \<Longrightarrow> preserves I (if b then m else m')"
  by simp

lemma preserves_option:
  "preserves I m \<Longrightarrow> (\<And>x. preserves I (f x)) \<Longrightarrow> preserves I (case v of None \<Rightarrow> m | Some x \<Rightarrow> f x)"
  by (cases v) auto

lemma preserves_sum:
  "(\<And>e. preserves I (f e)) \<Longrightarrow> (\<And>x. preserves I (g x)) \<Longrightarrow> preserves I (case v of Inl e \<Rightarrow> f e | Inr x \<Rightarrow> g x)"
  by (cases v) auto

lemma preserves_prod: "(\<And>a b. preserves I (f a b)) \<Longrightarrow> preserves I (case v of (a, b) \<Rightarrow> f a b)"
  by (cases v) auto

lemmas preserves_rules = preserves_after preserves_each preserves_if preserves_option preserves_sum preserves_prod

locale pipeline_invariant =
  fixes I :: "pipeline_state \<Rightarrow> bool"
  assumes keeps_progress: "I s \<Longrightarrow> I (snd (progress stage pct message s))"
    and keeps_report: "I s \<Longrightarrow> \<not> is_progress r \<Longrightarrow> I (s\<lparr>reports := reports s @ [r]\<rparr>)"
    and keeps_read: "I s \<Longrightarrow> I (s\<lparr>token_reads := token_reads s + 1\<rparr>)"
begin

lemma basic:
  "preserves I (progress stage pct message)" "preserves I (start_stage stage message)"
  "preserves I (check_cancelled tok)" "preserves I (read_token tok)"
  "\<not> is_progress r \<Longrightarrow> preserves I (emit r)"
  by (auto simp: preserves_def start_stage_def check_cancelled_def read_token_def emit_def
      intro: keeps_progress keeps_report keeps_read [simplified] split: if_split)

lemma preparation: "preserves I (prepare_request env r)"
  unfolding prepare_request_def departure_of_request_def problem_of_request_def euclidean_matrix_def normalized_country_def
  by (intro preserves_rules basic preserves_pure)

lemma routing: "preserves I (resolve_routing env q)"
  unfolding resolve_routing_def Let_def by (intro preserves_rules basic preserves_pure)

lemma matrix_build: "preserves I (build_with_control env ls source ctx name)"
  unfolding build_with_control_def Let_def by (intro preserves_rules basic preserves_pure)

lemma matrix: "preserves I (build_matrix env q routing)"
  unfolding build_matrix_def Let_def
  by (intro preserves_rules basic preserves_pure matrix_build)

lemma solver_event: "preserves I (solver_progress e)"
  by (cases e) (auto simp: solver_progress_def basic)

lemma solve: "preserves I (solve_prepared env q m)"
  unfolding solve_prepared_def Let_def by (intro preserves_rules basic preserves_pure solver_event) simp

lemma revalidate_one: "preserves I (revalidate_leg env p m ctx plan k from to t)"
  unfolding revalidate_leg_def Let_def by (intro preserves_rules basic preserves_pure)

lemma revalidate_all: "preserves I (revalidate_legs env p m ctx plan k order t)"
  by (induction env p m ctx plan k order t rule: revalidate_legs.induct)
    (auto intro!: preserves_after revalidate_one split: sum.split)

lemma revalidate: "preserves I (revalidate_selected_route env p m sol start plan ctx)"
  unfolding revalidate_selected_route_def by (intro preserves_rules preserves_pure revalidate_all)

lemma finalize: "preserves I (finalize_response env q routing m run start)"
  unfolding finalize_response_def rendered_solution_def revalidated_plan_def Let_def
  by (intro preserves_rules basic preserves_pure revalidate) simp

lemma pipeline: "preserves I (optimize_pipeline env r)"
  unfolding optimize_pipeline_def
  by (intro preserves_rules preparation routing matrix solve finalize)

lemma whole_run: "preserves I (optimize env r)"
proof -
  have "I (snd (optimize env r s))" if "I s" for s
  proof -
    obtain x s' where run: "optimize_pipeline env r s = (x, s')" by (cases "optimize_pipeline env r s")
    then have "I s'" using pipeline [of env r] that by (force simp: preserves_def)
    then have "I (s'\<lparr>token_reads := Suc (token_reads s')\<rparr>)"
      and "I (s'\<lparr>reports := reports s' @ [ErrorReport c m e], token_reads := Suc (token_reads s')\<rparr>)" for c m e
      using keeps_read [of s'] keeps_read [OF keeps_report, of s' "ErrorReport c m e"] by simp_all
    then show ?thesis
      using \<open>I s'\<close> by (auto simp: optimize_def run Let_def split: outcome.split option.split)
  qed
  then show ?thesis by (simp add: preserves_def)
qed

end

section \<open>The reports of a run\<close>

fun progress_points :: "report list \<Rightarrow> (progress_stage \<times> u8) list" where
  "progress_points [] = []"
| "progress_points (ProgressReport stage pct message # rs) = (stage, pct) # progress_points rs"
| "progress_points (r # rs) = progress_points rs"

text \<open>A later report is of the same or a later stage, no less far, and not the same.\<close>

definition advances :: "progress_stage \<times> u8 \<Rightarrow> progress_stage \<times> u8 \<Rightarrow> bool" where
  "advances a b \<longleftrightarrow> fst a \<le> fst b \<and> snd a \<le> snd b \<and> a \<noteq> b"

definition reports_ordered :: "pipeline_state \<Rightarrow> bool" where
  "reports_ordered s \<longleftrightarrow>
     (let points = progress_points (reports s) in
      sorted_wrt advances points \<and> set (map snd points) \<subseteq> {..100} \<and>
      (case last_stage s of
         None \<Rightarrow> points = [] \<and> last_progress s = 0
       | Some stage \<Rightarrow> points \<noteq> [] \<and> List.last points = (stage, last_progress s)))"

lemma progress_points_append: "progress_points (xs @ ys) = progress_points xs @ progress_points ys"
  by (induction xs rule: progress_points.induct) simp_all

lemma progress_points_other: "\<not> is_progress r \<Longrightarrow> progress_points [r] = []"
  by (cases r) simp_all

lemma advances_trans: "advances a b \<Longrightarrow> advances b c \<Longrightarrow> advances a c"
  by (cases a; cases b; cases c) (auto simp: advances_def)

lemma sorted_advances_snoc:
  assumes "sorted_wrt advances ps" and "ps \<noteq> [] \<Longrightarrow> advances (List.last ps) p"
  shows "sorted_wrt advances (ps @ [p])"
proof (cases ps rule: rev_cases)
  case (snoc qs q)
  have "advances q p" using assms(2) snoc by simp
  then show ?thesis using assms(1) snoc by (auto simp: sorted_wrt_append intro: advances_trans)
qed simp

lemma progress_ordered:
  assumes "reports_ordered s"
  shows "reports_ordered (snd (progress stage pct message s))"
proof -
  let ?points = "progress_points (reports s)" and ?pct = "max (last_progress s) (min pct 100)"
  have sorted: "sorted_wrt advances ?points" and bounded: "set (map snd ?points) \<subseteq> {..100}"
    using assms by (auto simp: reports_ordered_def Let_def)
  have last: "List.last ?points = (st, last_progress s)" "?points \<noteq> []" if "last_stage s = Some st" for st
    using assms that by (auto simp: reports_ordered_def Let_def)
  have bound: "last_progress s \<le> 100"
  proof (cases "last_stage s")
    case None
    then show ?thesis using assms by (simp add: reports_ordered_def Let_def)
  next
    case (Some st)
    have "List.last ?points \<in> set ?points" by (rule last_in_set [OF last(2) [OF Some]])
    then have "last_progress s \<in> set (map snd ?points)"
      unfolding last(1) [OF Some] set_map by (metis imageI snd_conv)
    then show ?thesis using bounded by blast
  qed
  have fresh: "?points = []" if "last_stage s = None"
    using assms that by (simp add: reports_ordered_def Let_def)
  show ?thesis
  proof (cases "(case last_stage s of None \<Rightarrow> False | Some current \<Rightarrow> stage < current) \<or>
      last_stage s = Some stage \<and> last_progress s = ?pct")
    case True
    then show ?thesis using assms by (auto simp: progress_def Let_def)
  next
    case False
    have "sorted_wrt advances (?points @ [(stage, ?pct)])"
    proof (rule sorted_advances_snoc [OF sorted])
      assume "?points \<noteq> []"
      then obtain st where "last_stage s = Some st" using fresh by fastforce
      then show "advances (List.last ?points) (stage, ?pct)"
        using last False by (auto simp: advances_def)
    qed
    then show ?thesis
      using False bound bounded by (auto simp: progress_def Let_def reports_ordered_def progress_points_append)
  qed
qed

lemma report_ordered:
  assumes "reports_ordered s" and "\<not> is_progress r"
  shows "reports_ordered (s\<lparr>reports := reports s @ [r]\<rparr>)"
  using assms by (simp add: reports_ordered_def progress_points_append progress_points_other Let_def
      cong: option.case_cong)

interpretation ordered: pipeline_invariant reports_ordered
  by unfold_locales
    (simp_all add: progress_ordered report_ordered, simp add: reports_ordered_def cong: option.case_cong)

text \<open>Nothing reported is taken back, and the token is only read further.\<close>

definition extends :: "pipeline_state \<Rightarrow> pipeline_state \<Rightarrow> bool" where
  "extends old s \<longleftrightarrow> token_reads old \<le> token_reads s \<and> prefix (reports old) (reports s)"

interpretation history: pipeline_invariant "extends old" for old
  by unfold_locales (auto simp: extends_def progress_def Let_def intro: prefix_order.trans)

lemma initial_ordered: "reports_ordered initial_pipeline"
  by (simp add: reports_ordered_def initial_pipeline_def)

text \<open>
  C16. Whatever the request, the environment and the outcome, the progress reports of a run never
  step back in stage or percentage, never repeat themselves and stay within 100.
\<close>

theorem run_reports_monotone:
  "sorted_wrt advances (progress_points (reports (snd (optimize env r initial_pipeline)))) \<and>
   set (map snd (progress_points (reports (snd (optimize env r initial_pipeline))))) \<subseteq> {..100}"
  using ordered.whole_run [of env r] initial_ordered
  by (auto simp: preserves_def reports_ordered_def Let_def)

section \<open>The cancellation token\<close>

text \<open>A step that goes on has found the token clear at every read it made.\<close>

definition heeds :: "(nat \<Rightarrow> bool) \<Rightarrow> 'a pipeline \<Rightarrow> bool" where
  "heeds tok m \<longleftrightarrow> (\<forall>s x s'. m s = (Returned x, s') \<longrightarrow> (\<forall>k\<in>{token_reads s..<token_reads s'}. \<not> tok k))"

lemma after_Returned:
  "after m f s = (Returned y, s') \<longleftrightarrow> (\<exists>x t. m s = (Returned x, t) \<and> f x t = (Returned y, s'))"
  by (auto simp: after_def split: prod.splits outcome.splits)

lemma lift_result_Returned [simp]: "lift_result f r s = (Returned x, s') \<longleftrightarrow> r = Inr x \<and> s' = s"
  by (auto simp: lift_result_def split: sum.splits)

lemma heeds_after: "heeds tok m \<Longrightarrow> (\<And>x. heeds tok (f x)) \<Longrightarrow> heeds tok (after m f)"
  by (fastforce simp: heeds_def after_Returned not_less)

lemma heeds_pure [simp]:
  "heeds tok (ret x)" "heeds tok (lift_result g r)" "heeds tok (expect w v)" "heeds tok (returns v)"
  "heeds tok (emit rep)" "heeds tok (progress stage pct message)" "heeds tok (start_stage stage message)"
  by (auto simp: heeds_def ret_def lift_result_def expect_def returns_def emit_def progress_def start_stage_def
      Let_def split: sum.split option.splits if_splits)

lemma heeds_check [simp]: "heeds tok (check_cancelled tok)"
  by (auto simp: heeds_def check_cancelled_def less_Suc_eq split: if_splits)

lemma heeds_each: "(\<And>x. heeds tok (f x)) \<Longrightarrow> heeds tok (each f xs)"
  by (induction xs) (auto intro: heeds_after)

lemma heeds_cases:
  "heeds tok m \<Longrightarrow> heeds tok m' \<Longrightarrow> heeds tok (if b then m else m')"
  "heeds tok m \<Longrightarrow> (\<And>x. heeds tok (f x)) \<Longrightarrow> heeds tok (case v of None \<Rightarrow> m | Some x \<Rightarrow> f x)"
  "(\<And>e. heeds tok (g e)) \<Longrightarrow> (\<And>x. heeds tok (h x)) \<Longrightarrow> heeds tok (case w of Inl e \<Rightarrow> g e | Inr x \<Rightarrow> h x)"
  "(\<And>a b. heeds tok (i a b)) \<Longrightarrow> heeds tok (case u of (a, b) \<Rightarrow> i a b)"
  by (auto split: option.split sum.split prod.split)

lemmas heeds_rules = heeds_after heeds_each heeds_cases heeds_pure heeds_check

lemma build_reads:
  assumes "build_with_control env ls source ctx name s = (Returned (Inr m), s')"
    and "k \<in> {token_reads s..<token_reads s'}"
  shows "\<not> token env k"
proof -
  obtain pairs provided where p: "provider_matrix (env_provider env) ls ctx = (pairs, provided)" by fastforce
  define told where "told = (if source = FromProvider then each (\<lambda>(completed, tot).
    progress FetchingTravelTimes (interpolate (stage_range FetchingTravelTimes) completed tot)
      (pairs_message name (completed, tot))) pairs else ret ())"
  have told: "heeds (token env) told"
    unfolding told_def by (intro heeds_rules)
  obtain s1 s2 m' where t: "told s1 = (Returned (), s2)" "s1 = s\<lparr>token_reads := Suc (token_reads s)\<rparr>"
    and clear: "\<not> token env (token_reads s)" "\<not> token env (token_reads s2)"
    and s': "token_reads s' = Suc (token_reads s2)"
    using assms(1) unfolding build_with_control_def p Let_def prod.case told_def [symmetric]
    by (auto simp: after_Returned read_token_def ret_def split: if_splits sum.splits)
  have "\<forall>k\<in>{Suc (token_reads s)..<token_reads s2}. \<not> token env k"
    using told t unfolding heeds_def by auto
  then show ?thesis using clear s' assms(2) by (auto simp: less_Suc_eq Suc_le_eq le_eq_less_or_eq)
qed

lemma heeds_build:
  assumes "\<And>x. heeds (token env) (g x)"
  shows "heeds (token env) (after (build_with_control env ls source ctx name) (\<lambda>b. after (lift_result f b) g))"
  unfolding heeds_def
proof (intro allI impI ballI)
  fix s y s' k
  assume run: "after (build_with_control env ls source ctx name) (\<lambda>b. after (lift_result f b) g) s = (Returned y, s')"
    and k: "k \<in> {token_reads s..<token_reads s'}"
  from run obtain m t where "build_with_control env ls source ctx name s = (Returned (Inr m), t)"
    and "g m t = (Returned y, s')"
    by (auto simp: after_Returned)
  then show "\<not> token env k"
    using build_reads [of env ls source ctx name s m t k] assms [of m] k unfolding heeds_def
    by (cases "k < token_reads t") auto
qed

lemma heeds_matrix: "heeds (token env) (build_matrix env q routing)"
  unfolding build_matrix_def Let_def by (intro heeds_after heeds_build heeds_rules)

lemma heeds_preparation: "heeds (token env) (prepare_request env r)"
  unfolding prepare_request_def departure_of_request_def problem_of_request_def euclidean_matrix_def normalized_country_def
  by (intro heeds_rules)

lemma heeds_routing: "heeds (token env) (resolve_routing env q)"
  unfolding resolve_routing_def Let_def by (intro heeds_rules)

lemma heeds_solver_event: "heeds tok (solver_progress e)"
  by (cases e) (simp_all add: solver_progress_def)

lemma heeds_solve: "heeds (token env) (solve_prepared env q m)"
  unfolding solve_prepared_def Let_def by (intro heeds_rules heeds_solver_event)

lemma heeds_revalidate_leg: "heeds (token env) (revalidate_leg env p m ctx plan k from to t)"
  unfolding revalidate_leg_def Let_def by (intro heeds_rules)

lemma heeds_revalidate_legs: "heeds (token env) (revalidate_legs env p m ctx plan k order t)"
  by (induction env p m ctx plan k order t rule: revalidate_legs.induct)
    (auto intro!: heeds_after heeds_revalidate_leg split: sum.split)

lemma heeds_revalidate: "heeds (token env) (revalidate_selected_route env p m sol start plan ctx)"
  unfolding revalidate_selected_route_def by (intro heeds_rules heeds_revalidate_legs)

lemma heeds_finalize: "heeds (token env) (finalize_response env q routing m run start)"
  unfolding finalize_response_def rendered_solution_def revalidated_plan_def Let_def
  by (intro heeds_rules heeds_revalidate)

lemma heeds_pipeline: "heeds (token env) (optimize_pipeline env r)"
  unfolding optimize_pipeline_def
  by (intro heeds_rules heeds_preparation heeds_routing heeds_matrix heeds_solve heeds_finalize)

lemma optimize_Returned:
  "optimize env r s = (Returned resp, s') \<longleftrightarrow> (\<exists>t. optimize_pipeline env r s = (Returned resp, t) \<and>
    \<not> token env (token_reads t) \<and> s' = t\<lparr>token_reads := token_reads t + 1\<rparr>)"
  by (auto simp: optimize_def Let_def split: prod.split outcome.split option.split)

lemma response_token_facts:
  assumes "optimize env r s = (Returned resp, s')"
  shows "extends s s' \<and> token_reads s < token_reads s' \<and>
    (\<forall>k\<in>{token_reads s..<token_reads s'}. \<not> token env k)"
proof -
  obtain t where run: "optimize_pipeline env r s = (Returned resp, t)"
    and clear: "\<not> token env (token_reads t)" and s': "s' = t\<lparr>token_reads := token_reads t + 1\<rparr>"
    using assms by (auto simp: optimize_Returned)
  have "extends s s" by (simp add: extends_def)
  then have kept: "extends s t" "extends s s'"
    using history.pipeline [of s env r] history.whole_run [of s env r] run assms
    unfolding preserves_def by (metis snd_conv)+
  have "\<forall>k\<in>{token_reads s..<token_reads t}. \<not> token env k"
    using heeds_pipeline [of env r] run unfolding heeds_def by blast
  then show ?thesis using kept clear s' by (auto simp: extends_def less_Suc_eq)
qed

end
