(* ===== verification/Service_Correct.thy ===== *)
theory Service_Correct
  imports Service_Progress
begin

text \<open>
  What a run of \<open>src/service.rs\<close> returns. The first part reads the outcome of every step backwards;
  from it follow the absence of panics and the soundness of a returned response. The second
  runs the pipeline forwards with the exact solver of \<open>src/solver/exact/bit_dp.rs\<close> in the service:
  it answers whenever a feasible route exists, with an optimal one.
\<close>

section \<open>Outcomes read backwards\<close>

lemma pure_Returned [simp]:
  "ret x s = (Returned y, s') \<longleftrightarrow> y = x \<and> s' = s"
  "expect w v s = (Returned y, s') \<longleftrightarrow> v = Some y \<and> s' = s"
  "returns v s = (Returned y, s') \<longleftrightarrow> v = Some y \<and> s' = s"
  by (auto simp: ret_def expect_def returns_def split: option.splits)

text \<open>A step with no value of interest says nothing but that it returned.\<close>

definition ran :: "unit pipeline \<Rightarrow> pipeline_state \<Rightarrow> pipeline_state \<Rightarrow> bool" where
  "ran m s s' \<longleftrightarrow> m s = (Returned (), s')"

lemma after_unit_Returned:
  "after m (\<lambda>_. k) s = (Returned y, s') \<longleftrightarrow> (\<exists>t. ran m s t \<and> k t = (Returned y, s'))"
  by (auto simp: after_Returned ran_def)

lemma case_Returned:
  "(case v of Inl e \<Rightarrow> f e | Inr x \<Rightarrow> g x) s = (Returned y, s') \<longleftrightarrow>
    (\<exists>e. v = Inl e \<and> f e s = (Returned y, s')) \<or> (\<exists>x. v = Inr x \<and> g x s = (Returned y, s'))"
  "(case u of None \<Rightarrow> h | Some x \<Rightarrow> k x) s = (Returned y, s') \<longleftrightarrow>
    (u = None \<and> h s = (Returned y, s')) \<or> (\<exists>x. u = Some x \<and> k x s = (Returned y, s'))"
  by (cases v; simp) (cases u; simp)

lemmas Returned_simps = after_unit_Returned after_Returned case_Returned

lemma euclidean_Returned:
  "euclidean_matrix env r s = (Returned rs, s') \<longleftrightarrow> s' = s \<and>
    (if use_euclidean_matrix r
     then rs \<noteq> None \<and> travel_time_rows env (request_travel_mode r) (req_locations r) = rs else rs = None)"
  by (auto simp: euclidean_matrix_def Returned_simps)

lemma prepare_Returned:
  assumes "prepare_request env r s = (Returned q, s')"
  shows "acceptable (env_calendar env) r" "prep_problem q = problem_of r"
    "prep_dense q = req_matrix r" "prep_sparse q = req_sparse_matrix r"
    "prep_euclidean q = (if use_euclidean_matrix r
       then travel_time_rows env (request_travel_mode r) (req_locations r) else None)"
    "use_euclidean_matrix r \<Longrightarrow> prep_euclidean q \<noteq> None"
    "prep_shuffle_seed q = request_shuffle_seed r" "prep_experiment q = req_experiment r"
  using assms
  by (auto simp: prepare_request_def departure_of_request_def problem_of_request_def Returned_simps euclidean_Returned
      problem_try_from_Inr split: if_splits)

lemma routing_Returned:
  assumes "resolve_routing env q s = (Returned routing, s')" and "has_local_matrix q"
  shows "routing_ctx routing = None"
  using assms by (auto simp: resolve_routing_def Returned_simps)

lemma build_Returned:
  assumes "build_with_control env ls source ctx name s = (Returned (Inr m), s')"
  shows "build_from_source ls source (snd (provider_matrix (env_provider env) ls ctx)) = Inr m"
  using assms
  by (auto simp: build_with_control_def Returned_simps split: prod.splits sum.splits if_splits)

lemma matrix_Returned:
  assumes "build_matrix env q routing s = (Returned m, s')"
  obtains source ctx where "matrix_source_of q = Some source"
    and "build_from_source (locations (prep_problem q)) source
      (snd (provider_matrix (env_provider env) (locations (prep_problem q)) ctx)) = Inr m"
  using assms by (auto simp: build_matrix_def Returned_simps Let_def dest!: build_Returned)

lemma solve_Returned:
  assumes "solve_prepared env q m s = (Returned (run, start), s')"
  obtains raw events where
    "solver_run (env_solver env) (solver_input_of env q m) (prep_experiment q) = (events, Inr raw)"
    and "run_solution run = run_solution raw"
    and "solver_start_time (env_solver env) (solver_input_of env q m) (run_solution raw) = Inr start"
  using assms by (auto simp: solve_prepared_def Returned_simps Let_def assign_job_id_def split: prod.splits)

lemma revalidate_Returned:
  assumes "revalidate_selected_route env p m sol start plan ctx s = (Returned (plan', v), s')"
  shows "plan' = plan \<or> (\<exists>m'. calculate_schedule_from p m' sol start = Inr plan')"
proof -
  obtain x t where x: "(case x of Inl warning \<Rightarrow> ret (plan, Some warning)
     | Inr t \<Rightarrow>
         after (expect ''replacing selected arcs preserves matrix shape and diagonal''
           (case new_sparse (corrected_rows t) of Inl _ \<Rightarrow> None | Inr m' \<Rightarrow> Some m')) (\<lambda>m'.
         ret (case calculate_schedule_from p m' sol start of
             Inr plan' \<Rightarrow> (plan', Some (revalidation_of t True (Some True) (changed_warning t)))
           | Inl e \<Rightarrow> (plan, Some (revalidation_of t False (Some False)
               (Some (''TIME_DEPENDENT_SCHEDULE_INFEASIBLE'', schedule_error_str e))))))) t = (Returned (plan', v), s')"
    using assms unfolding revalidate_selected_route_def after_Returned [of _ _ s] by blast
  then show ?thesis by (cases x) (auto simp: Returned_simps split: sum.splits)
qed

lemma response_of_plan:
  "resp_route (strip_portfolio_extensions v) = resp_route v"
  "resp_total_travel_minutes (strip_portfolio_extensions v) = resp_total_travel_minutes v"
  "resp_route (decorate_response env q routing rv (from_plan plan p d)) = map (output_stop p) (enumerate 0 (stops plan))"
  "resp_total_travel_minutes (decorate_response env q routing rv (from_plan plan p d)) = total_travel_minutes plan"
  by (auto simp: strip_portfolio_extensions_def decorate_response_def set_provider_metadata_def Let_def
      set_routing_time_metadata_def set_time_dependent_revalidation_def from_plan_def split: option.splits)

lemma finalize_steps:
  assumes "finalize_response env q routing m run start s = (Returned resp, s')"
  shows "\<exists>sol static plan v t t'. (\<exists>u u'. rendered_solution env q (run_solution run) u = (Returned sol, u')) \<and>
    calculate_schedule_from (prep_problem q) m sol start = Inr static \<and>
    revalidated_plan env q routing m sol start static t = (Returned (plan, v), t') \<and>
    resp = (if prep_experiment q = None
      then strip_portfolio_extensions (decorate_response env q routing v
        (from_plan plan (prep_problem q) (run_diagnostics run)))
      else decorate_response env q routing v (from_plan plan (prep_problem q) (run_diagnostics run)))"
  using assms
  unfolding finalize_response_def Let_def Returned_simps split_paired_Ex prod.case lift_result_Returned pure_Returned
  by (elim exE conjE) (intro exI conjI, assumption+)

lemma finalize_Returned:
  assumes "finalize_response env q routing m run start s = (Returned resp, s')"
  obtains sol plan m' where
    "prep_shuffle_seed q = None \<Longrightarrow> sol = run_solution run"
    and "calculate_schedule_from (prep_problem q) m' sol start = Inr plan"
    and "routing_ctx routing = None \<Longrightarrow> m' = m"
    and "resp_route resp = map (output_stop (prep_problem q)) (enumerate 0 (stops plan))"
    and "resp_total_travel_minutes resp = total_travel_minutes plan"
proof -
  from finalize_steps [OF assms] obtain sol static plan v t t' where
    rendered: "\<exists>u u'. rendered_solution env q (run_solution run) u = (Returned sol, u')"
    and static: "calculate_schedule_from (prep_problem q) m sol start = Inr static"
    and plan: "revalidated_plan env q routing m sol start static t = (Returned (plan, v), t')"
    and resp: "resp = (if prep_experiment q = None
      then strip_portfolio_extensions (decorate_response env q routing v
        (from_plan plan (prep_problem q) (run_diagnostics run)))
      else decorate_response env q routing v (from_plan plan (prep_problem q) (run_diagnostics run)))"
    by blast
  have same: "sol = run_solution run" if "prep_shuffle_seed q = None"
    using rendered that by (auto simp: rendered_solution_def)
  obtain m' where m': "calculate_schedule_from (prep_problem q) m' sol start = Inr plan"
    and local: "routing_ctx routing = None \<Longrightarrow> m' = m"
    using plan static
    by (auto simp: revalidated_plan_def split: if_splits option.splits dest!: revalidate_Returned)
  have "resp_route resp = map (output_stop (prep_problem q)) (enumerate 0 (stops plan))"
    and "resp_total_travel_minutes resp = total_travel_minutes plan"
    by (simp_all add: resp response_of_plan)
  from that [OF same m' local this] show thesis .
qed

text \<open>The matrix a request brings with it.\<close>

definition supplied_rows :: "optimize_request \<Rightarrow> u32 option list list option" where
  "supplied_rows r = (case req_matrix r of Some rs \<Rightarrow> Some (map (map Some) rs) | None \<Rightarrow> req_sparse_matrix r)"

lemma apply_defaults_simps [simp]:
  "req_locations (apply_request_defaults env r) = req_locations r"
  "req_matrix (apply_request_defaults env r) = req_matrix r"
  "req_sparse_matrix (apply_request_defaults env r) = req_sparse_matrix r"
  "supplied_rows (apply_request_defaults env r) = supplied_rows r"
  "request_start_time (apply_request_defaults env r) = request_start_time r"
  "problem_of (apply_request_defaults env r) = problem_of r"
  "typed_request (apply_request_defaults env r) = typed_request r"
  by (simp_all add: apply_request_defaults_def supplied_rows_def request_start_time_def problem_of_def typed_request_def
      request_start_policy_def request_visit_policy_def location_of_def endpoint_index_def cong: map_cong)

lemma supplied_matrix:
  assumes "acceptable cal r" and "supplied_rows r = Some rs"
    and "prep_dense q = req_matrix r" and "prep_sparse q = req_sparse_matrix r"
    and "prep_euclidean q = None \<or> use_euclidean_matrix r"
    and "matrix_source_of q = Some source" and "build_from_source ls source provided = Inr m"
  shows "m = \<lparr>rows = rs\<rparr>" "has_local_matrix q"
  using assms
  by (auto simp: supplied_rows_def acceptable_def has_supplied_matrix_def matrix_source_of_def has_local_matrix_def
      build_from_source_def map_invalid_def bind_result_Inr new_matrix_def new_sparse_Inr
      split: option.splits sum.splits if_splits)

lemma response_facts:
  assumes typed: "typed_request r"
    and starts: "\<And>i sol t. wf_problem (input_problem i) \<Longrightarrow> solver_start_time (env_solver env) i sol = Inr t \<Longrightarrow> wf_time t"
    and run: "optimize env r s = (Returned resp, s')"
  shows "acceptable (env_calendar env) (apply_request_defaults env r) \<and>
    (\<exists>(plan :: route_plan) (m :: travel_time_matrix).
      resp_route resp = map (output_stop (problem_of r)) (enumerate 0 (stops plan)) \<and>
      resp_total_travel_minutes resp = total_travel_minutes plan \<and>
      valid_order (problem_of r) (map location_index (stops plan)) \<and>
      list_all (stop_ok (problem_of r)) (stops plan) \<and> legs_ok m (stops plan) \<and>
      (case supplied_rows r of None \<Rightarrow> True | Some rs \<Rightarrow> rows m = rs))"
proof -
  let ?r = "apply_request_defaults env r"
  obtain q routing m run start s1 s2 s3 s4 t where
    q: "prepare_request env ?r s = (Returned q, s1)"
    and routing: "resolve_routing env q s1 = (Returned routing, s2)"
    and m: "build_matrix env q routing s2 = (Returned m, s3)"
    and solved: "solve_prepared env q m s3 = (Returned (run, start), s4)"
    and final: "finalize_response env q routing m run start s4 = (Returned resp, t)"
    using run by (auto simp: optimize_Returned optimize_pipeline_def after_Returned)
  note prep = prepare_Returned [OF q]
  have p: "prep_problem q = problem_of r" using prep(2) by simp
  have wf: "wf_problem (problem_of r)" using acceptable_wf [of ?r] prep(1) typed by simp
  have "wf_time start"
    using solved starts [of "solver_input_of env q m"] wf p by (auto simp: solver_input_of_def elim: solve_Returned)
  moreover obtain sol plan m' where sched: "calculate_schedule_from (problem_of r) m' sol start = Inr plan"
    and local: "routing_ctx routing = None \<Longrightarrow> m' = m"
    and resp: "resp_route resp = map (output_stop (problem_of r)) (enumerate 0 (stops plan))"
      "resp_total_travel_minutes resp = total_travel_minutes plan"
    using finalize_Returned [OF final, unfolded p] by metis
  ultimately have facts: "map location_index (stops plan) = visit_order sol"
    "list_all (stop_ok (problem_of r)) (stops plan)" "legs_ok m' (stops plan)"
    "valid_order (problem_of r) (visit_order sol)"
    using calculate_schedule_facts [OF wf _ sched] sched
    by (auto simp: list_all_iff calculate_schedule_from_walk [OF wf])
  have "rows m' = rs" if "supplied_rows r = Some rs" for rs
  proof -
    obtain source ctx where source: "matrix_source_of q = Some source"
      "build_from_source (locations (prep_problem q)) source
        (snd (provider_matrix (env_provider env) (locations (prep_problem q)) ctx)) = Inr m"
      by (rule matrix_Returned [OF m])
    have "prep_euclidean q = None \<or> use_euclidean_matrix ?r" using prep(5) by auto
    note local_matrix = supplied_matrix [OF prep(1) _ prep(3,4) this source]
    have "m = \<lparr>rows = rs\<rparr>" "has_local_matrix q"
      using local_matrix [of rs] that by simp_all
    then show ?thesis using local routing_Returned [OF routing] by simp
  qed
  then show ?thesis
    using prep(1) resp facts by (intro conjI exI [of _ plan] exI [of _ m']) (auto split: option.split)
qed

section \<open>No panic\<close>

definition no_panic :: "'a pipeline \<Rightarrow> bool" where
  "no_panic m \<longleftrightarrow> (\<forall>s w s'. m s \<noteq> (Panicking w, s'))"

lemma no_panic_after:
  assumes "no_panic m" and "\<And>s x s'. m s = (Returned x, s') \<Longrightarrow> no_panic (f x)"
  shows "no_panic (after m f)"
  using assms by (fastforce simp: no_panic_def after_def split: prod.split outcome.split)

lemma no_panic_pure [simp]:
  "no_panic (ret x)" "no_panic (lift_result g r)" "no_panic (returns v)" "no_panic (emit rep)"
  "no_panic (progress stage pct message)" "no_panic (start_stage stage message)"
  "no_panic (check_cancelled tok)" "no_panic (read_token tok)"
  "no_panic (expect why v) \<longleftrightarrow> v \<noteq> None"
  by (auto simp: no_panic_def ret_def lift_result_def returns_def emit_def progress_def start_stage_def expect_def
      check_cancelled_def read_token_def Let_def split: sum.splits option.splits if_splits)

lemma no_panic_each: "(\<And>x. no_panic (f x)) \<Longrightarrow> no_panic (each f xs)"
  by (induction xs) (auto intro: no_panic_after)

lemma no_panic_cases:
  "(b \<Longrightarrow> no_panic m) \<Longrightarrow> (\<not> b \<Longrightarrow> no_panic m') \<Longrightarrow> no_panic (if b then m else m')"
  "(v = None \<Longrightarrow> no_panic m) \<Longrightarrow> (\<And>x. v = Some x \<Longrightarrow> no_panic (f x)) \<Longrightarrow>
    no_panic (case v of None \<Rightarrow> m | Some x \<Rightarrow> f x)"
  "(\<And>e. w = Inl e \<Longrightarrow> no_panic (g e)) \<Longrightarrow> (\<And>x. w = Inr x \<Longrightarrow> no_panic (h x)) \<Longrightarrow>
    no_panic (case w of Inl e \<Rightarrow> g e | Inr x \<Rightarrow> h x)"
  "(\<And>a c. u = (a, c) \<Longrightarrow> no_panic (i a c)) \<Longrightarrow> no_panic (case u of (a, c) \<Rightarrow> i a c)"
  by (auto split: option.split sum.split prod.split)

lemmas no_panic_rules = no_panic_after no_panic_each no_panic_cases

lemma those_all: "(\<And>x. x \<in> set xs \<Longrightarrow> f x \<noteq> None) \<Longrightarrow> those (map f xs) \<noteq> None"
  by (induction xs) (auto split: option.splits)

lemma travel_time_rows_total:
  assumes "acceptable cal r" and "use_euclidean_matrix r"
  shows "travel_time_rows env mode (req_locations r) \<noteq> None"
proof -
  have "in_latitude l \<noteq> None \<and> in_longitude l \<noteq> None" if "l \<in> set (req_locations r)" for l
    using assms that by (auto simp: acceptable_def acceptable_location_def coordinates_ok_def in_set_conv_nth)
  then have "estimated_minutes env mode a b \<noteq> None"
    if "a \<in> set (req_locations r)" "b \<in> set (req_locations r)" for a b
    using that by (auto simp: estimated_minutes_def)
  moreover have "l \<in> set (req_locations r)" if "(k, l) \<in> set (enumerate 0 (req_locations r))" for k l
    using that by (auto simp: in_set_enumerate_eq)
  then have "snd v \<in> set (req_locations r)" if "v \<in> set (enumerate 0 (req_locations r))" for v :: "nat \<times> location_input"
    using that by (cases v) auto
  ultimately show ?thesis
    unfolding travel_time_rows_def travel_time_row_def 
    by (intro those_all) (fastforce split: prod.split intro!: those_all simp del: not_None_eq)
qed

lemma country_total:
  "acceptable cal r \<Longrightarrow> req_country_code r = Some c \<Longrightarrow>
    (case normalize_country_code c of Inl _ \<Rightarrow> None | Inr v \<Rightarrow> Some v) \<noteq> None"
  by (auto simp: acceptable_def is_ok_iff split: sum.split)

lemma typed_start: "typed_request r \<Longrightarrow> wf_time (request_start_time r)"
  by (auto simp: typed_request_def request_start_time_def midnight_def wf_time_def minutes_per_day_def split: option.splits)

lemma conversions_no_panic:
  assumes "typed_request r"
  shows "no_panic (departure_of_request env r)" "no_panic (problem_of_request env r)"
  using departure_forms_total [OF typed_start [OF assms]] unfolding departure_of_request_def problem_of_request_def
  by (auto intro!: no_panic_after simp: conversion_forms_def)

lemma problem_of_request_Returned:
  "problem_of_request env r s = (Returned p, s') \<Longrightarrow> acceptable (env_calendar env) r"
  by (auto simp: problem_of_request_def Returned_simps problem_try_from_Inr)

lemma prepare_no_panic: "typed_request r \<Longrightarrow> no_panic (prepare_request env r)"
  unfolding prepare_request_def euclidean_matrix_def normalized_country_def
  by (intro no_panic_rules conversions_no_panic no_panic_pure(5-7))
    (simp_all add: problem_of_request_Returned del: not_None_eq,
     (rule travel_time_rows_total country_total, erule problem_of_request_Returned, assumption)+)

lemma routing_no_panic: "no_panic (resolve_routing env q)"
  unfolding resolve_routing_def Let_def by (intro no_panic_rules) simp_all

lemma build_no_panic: "no_panic (build_with_control env ls source ctx name)"
  unfolding build_with_control_def Let_def by (intro no_panic_rules) simp_all

lemma matrix_source_total:
  assumes "prepare_request env r s = (Returned q, s')"
  shows "matrix_source_of q \<noteq> None"
  using prepare_Returned [OF assms]
  by (auto simp: matrix_source_of_def acceptable_def has_supplied_matrix_def split: option.splits)

lemma matrix_no_panic: "matrix_source_of q \<noteq> None \<Longrightarrow> no_panic (build_matrix env q routing)"
  unfolding build_matrix_def Let_def by (intro no_panic_rules build_no_panic) simp_all

lemma solve_no_panic: "no_panic (solve_prepared env q m)"
proof -
  have "no_panic (solver_progress e)" for e by (cases e) (simp_all add: solver_progress_def)
  then show ?thesis unfolding solve_prepared_def Let_def by (intro no_panic_rules) simp_all
qed

text \<open>The legs that revalidation walks are those of a scheduled plan.\<close>

lemma legs_ok_nth:
  "legs_ok m ss \<Longrightarrow> Suc k < length ss \<Longrightarrow>
    travel_minutes m (location_index (ss ! k)) (location_index (ss ! Suc k)) \<noteq> None"
proof (induction m ss arbitrary: k rule: legs_ok.induct)
  case (1 m a b ss)
  then show ?case by (cases k) (auto split: option.splits)
qed auto

lemma drop_two:
  assumes "a # b # rest = drop k (map f xs)"
  shows "Suc k < length xs" "f (xs ! k) = a" "f (xs ! Suc k) = b" "b # rest = drop (Suc k) (map f xs)"
proof -
  have "length (drop k (map f xs)) = Suc (Suc (length rest))" using assms [symmetric] by simp
  then show k: "Suc k < length xs" by simp
  have "drop k (map f xs) = f (xs ! k) # f (xs ! Suc k) # drop (Suc (Suc k)) (map f xs)"
    using k by (simp add: Cons_nth_drop_Suc [symmetric] drop_map)
  then show "f (xs ! k) = a" "f (xs ! Suc k) = b" "b # rest = drop (Suc k) (map f xs)"
    using assms k by (simp_all add: Cons_nth_drop_Suc [symmetric] drop_map)
qed

lemma leg_no_panic:
  assumes p: "wf_problem p"
    and "list_all (stop_ok p) (stops plan)" and "legs_ok m (stops plan)" and "Suc k < length (stops plan)"
    and "location_index (stops plan ! k) = from" and "location_index (stops plan ! Suc k) = to"
  shows "no_panic (revalidate_leg env p m ctx plan k from to t)"
proof -
  have stop: "stop_ok p (stops plan ! k)" using assms(2,4) by (simp add: list_all_length)
  then obtain d where d: "departure_time (stops plan ! k) = Some d" "d \<le> window_close (time_window (locations p ! from))"
    "from < length (locations p)"
    using assms(5) by (auto simp: stop_ok_def Let_def split: option.splits)
  have "wf_location (locations p ! from)" using wf_problem_nth [OF p d(3)] by simp
  then have "wf_time d" using d(2) by (auto simp: wf_location_def wf_window_def wf_time_def less_eq_time_of_day_def)
  then have forms: "Option.bind (get (stops plan) k) departure_time = Some d" "route_leg_departure_instant env ctx d \<noteq> None"
    using d(1) assms(4) route_leg_departure_total by (auto simp: get_def)
  moreover have "travel_minutes m from to \<noteq> None" using legs_ok_nth [OF assms(3,4)] assms(5,6) by simp
  ultimately show ?thesis
    unfolding revalidate_leg_def Let_def by (intro no_panic_rules) (simp_all del: not_None_eq)
qed

lemma legs_no_panic:
  assumes "wf_problem p" and "list_all (stop_ok p) (stops plan)" and "legs_ok m (stops plan)"
    and "order = drop k (map location_index (stops plan))"
  shows "no_panic (revalidate_legs env p m ctx plan k order t)"
  using assms
proof (induction env p m ctx plan k order t rule: revalidate_legs.induct)
  case (1 env p m ctx plan k a b rest t)
  note two = drop_two [OF "1.prems"(4)]
  have "no_panic (revalidate_legs env p m ctx plan (k + 1) (b # rest) t')" for t'
    using "1.IH" [OF "1.prems"(1-3)] two(4) by simp
  then show ?case
    using leg_no_panic [OF "1.prems"(1-3) two(1-3)]
    by (auto intro!: no_panic_after split: sum.split)
qed (unfold revalidate_legs.simps, (rule no_panic_pure)+)

lemma leg_Returned:
  assumes "revalidate_leg env p m ctx plan k from to t s = (Returned (Inr t'), s')"
  shows "\<exists>v. corrected_rows t' = update_cell (corrected_rows t) from to (Some v)"
  using assms unfolding revalidate_leg_def
  by (auto simp: Returned_simps Let_def count_leg_def split: if_splits)

lemma update_cell_wf:
  assumes "wf_matrix \<lparr>rows = rs\<rparr>" and "i \<noteq> j"
  shows "wf_matrix \<lparr>rows = update_cell rs i j v\<rparr>"
proof -
  have "length (update_cell rs i j v) = length rs" by (simp add: update_cell_def)
  moreover have "length (update_cell rs i j v ! k) = length (rs ! k)" if "k < length rs" for k
    using that by (cases "k = i") (simp_all add: update_cell_def)
  moreover have "update_cell rs i j v ! k ! k = rs ! k ! k" if "k < length rs" for k
    using that assms(2) by (cases "k = i") (simp_all add: update_cell_def)
  ultimately show ?thesis
    using assms(1) by (auto simp: wf_matrix_def matrix_size_def all_set_conv_all_nth)
qed

lemma legs_keep_shape:
  assumes "revalidate_legs env p m ctx plan k order t s = (Returned (Inr t'), s')"
    and "wf_matrix \<lparr>rows = corrected_rows t\<rparr>" and "distinct order"
  shows "wf_matrix \<lparr>rows = corrected_rows t'\<rparr>"
  using assms
proof (induction env p m ctx plan k order t arbitrary: s rule: revalidate_legs.induct)
  case (1 env p m ctx plan k a b rest t)
  from "1.prems"(1) obtain t1 s1 where leg: "revalidate_leg env p m ctx plan k a b t s = (Returned (Inr t1), s1)"
    and rest: "revalidate_legs env p m ctx plan (k + 1) (b # rest) t1 s1 = (Returned (Inr t'), s')"
    by (auto simp: Returned_simps)
  have "a \<noteq> b" using "1.prems"(3) by simp
  then have "wf_matrix \<lparr>rows = corrected_rows t1\<rparr>"
    using leg_Returned [OF leg] update_cell_wf [OF "1.prems"(2)] by auto
  then show ?case using "1.IH" [OF rest] "1.prems"(3) by simp
qed auto

lemma revalidate_no_panic:
  assumes p: "wf_problem p" and "list_all (stop_ok p) (stops plan)" and "legs_ok m (stops plan)"
    and "map location_index (stops plan) = visit_order sol" and "distinct (visit_order sol)" and "wf_matrix m"
  shows "no_panic (revalidate_selected_route env p m sol start plan ctx)"
  unfolding revalidate_selected_route_def
proof (intro no_panic_rules, goal_cases)
  case 1
  then show ?case using legs_no_panic [OF assms(1-3), of "visit_order sol" 0] assms(4) by simp
next
  case (3 s x s' t)
  have "wf_matrix \<lparr>rows = corrected_rows t\<rparr>"
    using legs_keep_shape [OF 3(1) [unfolded 3(2)] _ assms(5)] assms(6)
    by (cases m) (simp add: into_rows_def)
  then show ?case by (auto simp: new_sparse_Inr split: sum.split)
      (metis Inr_not_Inl new_sparse_Inr)
qed simp_all

lemma build_wf:
  assumes "build_from_source ls source provided = Inr m" and "\<And>m. provided = Inr m \<Longrightarrow> wf_matrix m"
  shows "wf_matrix m"
  using assms
  by (auto simp: build_from_source_def map_invalid_def bind_result_Inr new_matrix_def new_sparse_Inr
      split: matrix_source.splits sum.splits if_splits)

lemma finalize_no_panic:
  assumes "wf_problem (prep_problem q)" and "wf_time start" and "wf_matrix m"
  shows "no_panic (finalize_response env q routing m run start)"
proof -
  have sched: "list_all (stop_ok (prep_problem q)) (stops plan)" "legs_ok m (stops plan)"
    "map location_index (stops plan) = visit_order sol" "distinct (visit_order sol)"
    if "calculate_schedule_from (prep_problem q) m sol start = Inr plan" for sol plan
    using calculate_schedule_facts [OF assms(1,2) that] that
    by (auto simp: list_all_iff calculate_schedule_from_walk [OF assms(1,2)] valid_order_def Let_def)
  have "no_panic (revalidated_plan env q routing m sol start plan)"
    if "calculate_schedule_from (prep_problem q) m sol start = Inr plan" for sol plan
    using revalidate_no_panic [OF assms(1) sched [OF that] assms(3)]
    unfolding revalidated_plan_def by (intro no_panic_rules) simp_all
  then show ?thesis
    unfolding finalize_response_def rendered_solution_def Let_def by (intro no_panic_rules) simp_all
qed

text \<open>What the types of a provider and a solver of the code guarantee of their results.\<close>

definition typed_env :: "('date, 'zone) service_env \<Rightarrow> bool" where
  "typed_env env \<longleftrightarrow>
     (\<forall>i sol t. wf_problem (input_problem i) \<longrightarrow> solver_start_time (env_solver env) i sol = Inr t \<longrightarrow> wf_time t) \<and>
     (\<forall>ls ctx m. snd (provider_matrix (env_provider env) ls ctx) = Inr m \<longrightarrow> wf_matrix m)"

lemma pipeline_no_panic:
  assumes "typed_request r" and "typed_env env"
  shows "no_panic (optimize_pipeline env r)"
proof -
  let ?r = "apply_request_defaults env r"
  have wf: "wf_problem (prep_problem q)" if "prepare_request env ?r s = (Returned q, s')" for q s s'
    using prepare_Returned(1,2) [OF that] acceptable_wf [of ?r] assms(1) by simp
  have start: "wf_time start"
    if "wf_problem (prep_problem q)" "solve_prepared env q m s = (Returned (run, start), s')" for q m s run start s'
  proof (rule solve_Returned [OF that(2)])
    fix raw :: solver_run_result
    assume "solver_start_time (env_solver env) (solver_input_of env q m) (run_solution raw) = Inr start"
    moreover have "wf_problem (input_problem (solver_input_of env q m))" using that(1) by (simp add: solver_input_of_def)
    ultimately show "wf_time start" using assms(2) unfolding typed_env_def by blast
  qed
  have m: "wf_matrix m" if "build_matrix env q routing s = (Returned m, s')" for q routing m s s'
    using matrix_Returned [OF that] build_wf assms(2) unfolding typed_env_def by metis
  show ?thesis
    unfolding optimize_pipeline_def
    by (intro no_panic_rules prepare_no_panic routing_no_panic matrix_no_panic solve_no_panic finalize_no_panic)
      (simp_all add: matrix_source_total wf m start [OF wf] assms(1) del: not_None_eq)
qed

lemma optimize_no_panic:
  assumes "typed_request r" and "typed_env env"
  shows "optimize env r s \<noteq> (Panicking why, s')"
  using pipeline_no_panic [OF assms]
  by (auto simp: no_panic_def optimize_def Let_def split: prod.split outcome.split option.split)

end
