(* ===== verification/Exact_Service.thy ===== *)
theory Exact_Service
  imports Service_Correct Exact_Solver
begin

text \<open>
  The default methods of the trait \<open>RouteSolver\<close> (\<open>src/solver/core/traits.rs\<close>), the exact solver
  as a \<open>RouteSolver\<close> (\<open>src/solver/exact/bit_dp.rs\<close>), and the whole service with that solver: it
  returns a response whenever a feasible route exists, with an optimal one, and reports that
  there is none otherwise.
\<close>

section \<open>Route solvers\<close>

type_synonym observed_run = "solver_input \<Rightarrow> solver_progress_event list \<times> (solver_error + solver_run_result)"

definition solve_with_diagnostics ::
  "(solver_input \<Rightarrow> solver_error + solver_solution) \<Rightarrow> solver_input \<Rightarrow> solver_error + solver_run_result" where
  "solve_with_diagnostics solve input =
     bind_result (solve input) (\<lambda>sol. Inr \<lparr>run_solution = sol, run_diagnostics = None\<rparr>)"

definition default_observed_run :: "(solver_input \<Rightarrow> solver_error + solver_run_result) \<Rightarrow> observed_run" where
  "default_observed_run run input =
     (let result = run input in
      ([StrategyStarted ''route_solver'', StrategyCompleted ''route_solver''] @
       (if is_ok result then [SelectionStarted 1] else []), result))"

definition solve_with_portfolio_options :: "observed_run \<Rightarrow> solver_input \<Rightarrow> experiment_options option \<Rightarrow>
    solver_progress_event list \<times> (solver_error + solver_run_result)" where
  "solve_with_portfolio_options run input options =
     (if options \<noteq> None
      then ([], Inl (Unsupported ''portfolio experiments are unavailable for this solver''))
      else run input)"

definition default_start_time :: "solver_input \<Rightarrow> solver_solution \<Rightarrow> solver_error + time_of_day" where
  "default_start_time input sol = Inr (start_time (input_problem input))"

definition exact_observed_run :: observed_run where
  "exact_observed_run input =
     (let started = [StrategyStarted ''exact_bit_dp'', StrategyCompleted ''exact_bit_dp''] in
      case solve_detailed default_objective time_cost_dominates input of
        Inl e \<Rightarrow> (started, Inl e)
      | Inr res \<Rightarrow> (started @ [SelectionStarted 1],
          Inr \<lparr>run_solution = exact_solution res, run_diagnostics = None\<rparr>))"

definition exact_start_time :: "solver_input \<Rightarrow> solver_solution \<Rightarrow> solver_error + time_of_day" where
  "exact_start_time input sol =
     bind_result (evaluate_solution default_objective input sol) (selected_start_time (input_problem input))"

definition exact_route_solver :: route_solver where
  "exact_route_solver =
     \<lparr>solver_run = solve_with_portfolio_options exact_observed_run, solver_start_time = exact_start_time\<rparr>"

section \<open>Outcomes read forwards\<close>

text \<open>Whatever the coordinator has seen, the step ends with this outcome.\<close>

definition gives :: "'a pipeline \<Rightarrow> 'a outcome \<Rightarrow> bool" where
  "gives m v \<longleftrightarrow> (\<forall>s. \<exists>s'. m s = (v, s'))"

lemma gives_run: "gives m v \<Longrightarrow> \<exists>s'. m s = (v, s')"
  by (simp add: gives_def)

lemma gives_after:
  assumes "gives m (Returned x)" and "gives (f x) v"
  shows "gives (after m f) v"
  unfolding gives_def
proof
  fix s
  obtain t where "m s = (Returned x, t)" using gives_run [OF assms(1)] by blast
  then show "\<exists>s'. after m f s = (v, s')" using gives_run [OF assms(2), of t] by (simp add: after_def)
qed

lemma gives_failure:
  assumes "gives m (Failing e)"
  shows "gives (after m f) (Failing e)"
  unfolding gives_def
proof
  fix s
  obtain t where "m s = (Failing e, t)" using gives_run [OF assms] by blast
  then show "\<exists>s'. after m f s = (Failing e, s')" by (simp add: after_def)
qed

lemma gives_pure:
  "gives (ret x) (Returned x)" "gives (lift_result g (Inr x)) (Returned x)" "gives (lift_result g (Inl e)) (Failing (g e))"
  "gives (expect w (Some x)) (Returned x)" "gives (returns (Some x)) (Returned x)"
  "gives (emit rep) (Returned ())" "gives (progress stage pct message) (Returned ())"
  "gives (start_stage stage message) (Returned ())"
  by (simp_all add: gives_def ret_def lift_result_def expect_def returns_def emit_def progress_def start_stage_def Let_def)

lemma gives_token:
  assumes "\<forall>k. \<not> tok k"
  shows "gives (check_cancelled tok) (Returned ())" "gives (read_token tok) (Returned False)"
  using assms by (simp_all add: gives_def check_cancelled_def read_token_def)

lemma gives_each: "(\<And>x. gives (f x) (Returned ())) \<Longrightarrow> gives (each f xs) (Returned ())"
  by (induction xs) (auto intro: gives_pure gives_after)

text \<open>A request with its own matrix, for a solver that is never interrupted.\<close>

definition local_run :: "('date, 'zone) service_env \<Rightarrow> optimize_request \<Rightarrow> u32 option list list \<Rightarrow> bool" where
  "local_run env r rs \<longleftrightarrow>
     acceptable (env_calendar env) r \<and> typed_request r \<and> supplied_rows r = Some rs \<and>
     request_shuffle_seed r = None \<and> req_experiment r = None \<and> (\<forall>k. \<not> token env k)"

lemma local_token:
  assumes "local_run env r rs"
  shows "gives (check_cancelled (token env)) (Returned ())" "gives (read_token (token env)) (Returned False)"
  using assms gives_token [of "token env"] unfolding local_run_def by blast+

lemma local_defaults: "local_run env r rs \<Longrightarrow> apply_request_defaults env r = r"
  by (auto simp: local_run_def apply_request_defaults_def supplied_rows_def)

lemma local_euclidean: "local_run env r rs \<Longrightarrow> \<not> use_euclidean_matrix r"
  by (auto simp: local_run_def acceptable_def has_supplied_matrix_def supplied_rows_def split: option.splits)

lemma country_gives:
  assumes "acceptable cal r"
  obtains c where "gives (normalized_country r) (Returned c)"
proof (cases "req_country_code r")
  case None
  then have "gives (normalized_country r) (Returned None)" by (simp add: normalized_country_def gives_pure)
  then show thesis by (rule that)
next
  case (Some code)
  then obtain v where v: "normalize_country_code code = Inr v" using assms by (auto simp: acceptable_def is_ok_iff)
  have "gives (normalized_country r) (Returned (Some v))"
    by (simp add: normalized_country_def Some v) (rule gives_after, rule gives_pure, rule gives_pure)
  then show thesis by (rule that)
qed

lemma local_prepare:
  assumes l: "local_run env r rs"
  obtains q where "gives (prepare_request env r) (Returned q)"
proof -
  have acc: "acceptable (env_calendar env) r" using l by (simp add: local_run_def)
  then obtain d where "requested_routing_departure (env_calendar env) r (request_start_time r) = Inr d"
    by (auto simp: acceptable_def is_ok_iff)
  then obtain departure zone where dep: "routing_departure_time env r = Inr (departure, zone)"
    by (cases "routing_departure_time env r") (auto simp: routing_departure_time_def)
  have p: "problem_try_from (env_calendar env) r = Inr (problem_of r)" using acc by (simp add: problem_try_from_Inr)
  have formed: "departure_forms (env_calendar env) r (request_start_time r) = Some ()"
    using l by (intro departure_forms_total typed_start) (simp add: local_run_def)
  then have forms: "departure_forms (env_calendar env) r (request_start_time r) = Some ()" "conversion_forms (env_calendar env) r = Some ()"
    by (simp_all add: conversion_forms_def)
  have converted: "gives (departure_of_request env r) (Returned (departure, zone))"
    "gives (problem_of_request env r) (Returned (problem_of r))"
    unfolding departure_of_request_def problem_of_request_def forms dep p by (rule gives_after gives_pure)+
  obtain c where c: "gives (normalized_country r) (Returned c)" by (rule country_gives [OF acc])
  have e: "gives (euclidean_matrix env r) (Returned None)"
    using local_euclidean [OF l] by (simp add: euclidean_matrix_def gives_pure)
  show thesis
    by (rule that, unfold prepare_request_def)
      (rule gives_after gives_pure local_token [OF l] converted c e | subst prod.case)+
qed

lemma local_prepared:
  assumes l: "local_run env r rs" and "gives (prepare_request env r) (Returned q)"
  shows "prep_problem q = problem_of r" "has_local_matrix q" "prep_experiment q = None" "prep_shuffle_seed q = None"
    and "\<exists>source. source \<noteq> FromProvider \<and> matrix_source_of q = Some source \<and>
      (\<forall>provided. build_from_source (locations (problem_of r)) source provided = Inr \<lparr>rows = rs\<rparr>)"
proof -
  obtain s' where q: "prepare_request env r undefined = (Returned q, s')" using gives_run [OF assms(2)] by blast
  note prep = prepare_Returned [OF q]
  show "prep_problem q = problem_of r" "prep_experiment q = None" "prep_shuffle_seed q = None"
    using prep l by (simp_all add: local_run_def)
  show "has_local_matrix q"
    using prep l by (auto simp: has_local_matrix_def local_run_def supplied_rows_def)
  have e: "prep_euclidean q = None" using prep(5) local_euclidean [OF l] by simp
  have sq: "square (length (req_locations r)) (Some 0) rs" "2 \<le> length (req_locations r)"
    using l prep(1)
    by (auto simp: local_run_def acceptable_def supplied_rows_def square_def split: option.splits)
  then have wf: "wf_matrix \<lparr>rows = rs\<rparr>" by (auto simp: square_def wf_matrix_def matrix_size_def)
  show "\<exists>source. source \<noteq> FromProvider \<and> matrix_source_of q = Some source \<and>
      (\<forall>provided. build_from_source (locations (problem_of r)) source provided = Inr \<lparr>rows = rs\<rparr>)"
  proof (cases "req_matrix r")
    case (Some m)
    then have m: "map (map Some) m = rs" "req_sparse_matrix r = None"
      using l by (auto simp: local_run_def supplied_rows_def acceptable_def)
    then have "new_matrix m = Inr \<lparr>rows = rs\<rparr>" using wf by (simp add: new_matrix_def new_sparse_Inr)
    then show ?thesis
      using m Some prep(3,4) e sq
      by (intro exI [of _ "DenseRows m"])
        (simp add: matrix_source_of_def build_from_source_def map_invalid_def matrix_size_def square_def)
  next
    case None
    then have m: "req_sparse_matrix r = Some rs" using l by (simp add: local_run_def supplied_rows_def)
    have "new_sparse rs = Inr \<lparr>rows = rs\<rparr>" using wf by (simp add: new_sparse_Inr)
    then show ?thesis
      using m None prep(3,4) e sq
      by (intro exI [of _ "SparseRows rs"])
        (simp add: matrix_source_of_def build_from_source_def map_invalid_def matrix_size_def square_def)
  qed
qed

lemma local_routing:
  assumes l: "local_run env r rs" and "has_local_matrix q"
  shows "gives (resolve_routing env q) (Returned \<lparr>routing_ctx = None, routing_selection = None\<rparr>)"
  unfolding resolve_routing_def if_P [OF assms(2)]
  by (rule gives_after gives_pure local_token [OF l])+

lemma local_build:
  assumes l: "local_run env r rs" and "source \<noteq> FromProvider"
    and "\<forall>provided. build_from_source ls source provided = Inr m"
  shows "gives (build_with_control env ls source ctx name) (Returned (Inr m))"
proof -
  obtain pairs provided where p: "provider_matrix (env_provider env) ls ctx = (pairs, provided)" by fastforce
  show ?thesis
    unfolding build_with_control_def p Let_def prod.case
    apply (rule gives_after [OF local_token(2) [OF l]])
    using assms(2,3)
    apply simp
    apply (rule gives_after [OF gives_pure(1)] gives_after [OF local_token(2) [OF l]])+
    apply (simp add: gives_pure)
    done
qed

lemma local_matrix:
  assumes l: "local_run env r rs" and q: "gives (prepare_request env r) (Returned q)"
  shows "gives (build_matrix env q routing) (Returned \<lparr>rows = rs\<rparr>)"
proof -
  obtain source where source: "source \<noteq> FromProvider" "matrix_source_of q = Some source"
    and built: "\<forall>provided. build_from_source (locations (prep_problem q)) source provided = Inr \<lparr>rows = rs\<rparr>"
    using local_prepared [OF l q] by auto
  show ?thesis
    unfolding build_matrix_def source(2) Let_def
    by (rule gives_after gives_pure local_token [OF l] local_build [OF l source(1) built])+
qed

definition local_input :: "('date, 'zone) service_env \<Rightarrow> optimize_request \<Rightarrow> u32 option list list \<Rightarrow> solver_input" where
  "local_input env r rs = \<lparr>input_matrix = \<lparr>rows = rs\<rparr>, input_problem = problem_of r, is_cancelled = solver_poll env\<rparr>"

lemma supplied_exact_input:
  assumes acc: "acceptable cal r" and typed: "typed_request r" and rs: "supplied_rows r = Some rs"
    and "\<forall>q. \<not> cancelled q" and "length (req_locations r) \<le> exact_max_locations"
  shows "exact_input \<lparr>input_matrix = \<lparr>rows = rs\<rparr>, input_problem = problem_of r, is_cancelled = cancelled\<rparr>"
proof -
  have wf: "wf_problem (problem_of r)" using acceptable_wf [OF typed acc] .
  have n: "2 \<le> length (req_locations r)" using acc by (simp add: acceptable_def)
  have sq: "square (length (req_locations r)) (Some 0) rs"
    using acc rs by (auto simp: acceptable_def supplied_rows_def square_def split: option.splits)
  then have "wf_matrix \<lparr>rows = rs\<rparr>" using n by (auto simp: square_def wf_matrix_def matrix_size_def)
  moreover have "u32_cells \<lparr>rows = rs\<rparr>"
    using typed rs by (auto simp: u32_cells_def typed_request_def supplied_rows_def split: option.splits)
  moreover have "required (locations (problem_of r) ! 0)"
    using n by (subst problem_of_nth) (auto simp: location_of_def endpoint_index_def)
  ultimately show ?thesis
    using wf sq assms(4,5)
    by (simp add: exact_input_def wf_input_def never_cancelled_def matrix_size_def square_def)
qed

lemma local_exact_input:
  assumes "local_run env r rs" and "\<forall>q. \<not> solver_poll env q" and "length (req_locations r) \<le> exact_max_locations"
  shows "exact_input (local_input env r rs)"
  using supplied_exact_input [of "env_calendar env" r rs "solver_poll env"] assms
  by (simp add: local_run_def local_input_def)

lemma local_solver_input:
  assumes "local_run env r rs" and "gives (prepare_request env r) (Returned q)"
  shows "solver_input_of env q \<lparr>rows = rs\<rparr> = local_input env r rs"
  using local_prepared(1) [OF assms] by (simp add: solver_input_of_def local_input_def)

lemma gives_solver_event: "gives (solver_progress e) (Returned ())"
  by (cases e) (simp_all add: solver_progress_def gives_pure)

lemma local_solve:
  assumes l: "local_run env r rs" and q: "gives (prepare_request env r) (Returned q)"
    and exact: "env_solver env = exact_route_solver"
    and res: "solve_detailed default_objective time_cost_dominates (local_input env r rs) = Inr res"
    and start: "exact_start_time (local_input env r rs) (exact_solution res) = Inr start"
  shows "gives (solve_prepared env q \<lparr>rows = rs\<rparr>)
    (Returned (\<lparr>run_solution = exact_solution res, run_diagnostics = None\<rparr>, start))"
proof -
  let ?run = "\<lparr>run_solution = exact_solution res, run_diagnostics = None\<rparr>"
  have run: "solver_run (env_solver env) (local_input env r rs) (prep_experiment q) =
      ([StrategyStarted ''exact_bit_dp'', StrategyCompleted ''exact_bit_dp'', SelectionStarted 1], Inr ?run)"
    using local_prepared(3) [OF l q]
    by (simp add: exact exact_route_solver_def solve_with_portfolio_options_def exact_observed_run_def res)
  have same: "assign_job_id (prep_job_id q) ?run = ?run" "run_telemetry ?run = []"
    by (simp_all add: assign_job_id_def run_telemetry_def)
  have st: "solver_start_time (env_solver env) (local_input env r rs) (exact_solution res) = Inr start"
    by (simp add: exact exact_route_solver_def start)
  show ?thesis
    unfolding solve_prepared_def local_solver_input [OF l q] run Let_def prod.case
    by (rule gives_after gives_pure local_token [OF l] gives_each gives_solver_event | simp only: same solver_run_result.simps st each.simps)+
qed

lemma local_solve_fails:
  assumes l: "local_run env r rs" and q: "gives (prepare_request env r) (Returned q)"
    and exact: "env_solver env = exact_route_solver"
    and none: "solve_detailed default_objective time_cost_dominates (local_input env r rs) = Inl e"
  shows "gives (solve_prepared env q \<lparr>rows = rs\<rparr>) (Failing (run_failure (problem_of r) \<lparr>rows = rs\<rparr> e))"
proof -
  have run: "solver_run (env_solver env) (local_input env r rs) (prep_experiment q) =
      ([StrategyStarted ''exact_bit_dp'', StrategyCompleted ''exact_bit_dp''], Inl e)"
    using local_prepared(3) [OF l q]
    by (simp add: exact exact_route_solver_def solve_with_portfolio_options_def exact_observed_run_def none)
  have p: "problem_of r = prep_problem q" using local_prepared(1) [OF l q] by simp
  show ?thesis
    unfolding solve_prepared_def local_solver_input [OF l q] run Let_def prod.case p
    by (rule gives_after, (rule gives_pure local_token [OF l] gives_each gives_solver_event)+)+
      (rule gives_failure, rule gives_pure)
qed

lemma local_finalize:
  assumes l: "local_run env r rs" and q: "gives (prepare_request env r) (Returned q)"
    and plan: "calculate_schedule_from (problem_of r) m (run_solution run) start = Inr plan"
  shows "gives (finalize_response env q \<lparr>routing_ctx = None, routing_selection = None\<rparr> m run start)
    (Returned (strip_portfolio_extensions (decorate_response env q \<lparr>routing_ctx = None, routing_selection = None\<rparr> None
      (from_plan plan (problem_of r) (run_diagnostics run)))))"
proof -
  note prep = local_prepared [OF l q]
  have shown: "rendered_solution env q sol = ret sol" for sol by (simp add: rendered_solution_def prep(4))
  have revalidated: "revalidated_plan env q \<lparr>routing_ctx = None, routing_selection = None\<rparr> m sol start p = ret (p, None)" for sol p
    by (simp add: revalidated_plan_def)
  have keep: "(if prep_experiment q = None then a else b) = a" for a b :: optimize_response
    by (simp add: prep(3))
  show ?thesis
    unfolding finalize_response_def prep(1) Let_def shown revalidated keep
    by (rule gives_after gives_pure local_token [OF l] | simp only: plan prod.case)+
qed

lemma optimize_answers:
  assumes "gives (optimize_pipeline env r) (Returned x)" and "\<forall>k. \<not> token env k"
  shows "\<exists>s'. optimize env r s = (Returned x, s')"
proof -
  obtain t where "optimize_pipeline env r s = (Returned x, t)" using gives_run [OF assms(1)] by blast
  then show ?thesis using assms(2) by (simp add: optimize_def Let_def)
qed

lemma optimize_fails:
  assumes "gives (optimize_pipeline env r) (Failing e)" and "\<forall>k. \<not> token env k"
    and "error_report e = Some (code, message)"
  shows "\<exists>s'. optimize env r s = (Failing e, s') \<and> List.last (reports s') = ErrorReport code message e"
proof -
  obtain t where "optimize_pipeline env r s = (Failing e, t)" using gives_run [OF assms(1)] by blast
  then show ?thesis using assms(2,3) by (simp add: optimize_def Let_def)
qed

lemma local_pipeline:
  assumes l: "local_run env r rs" and exact: "env_solver env = exact_route_solver"
    and res: "solve_detailed default_objective time_cost_dominates (local_input env r rs) = Inr res"
    and start: "exact_start_time (local_input env r rs) (exact_solution res) = Inr start"
    and plan: "calculate_schedule_from (problem_of r) \<lparr>rows = rs\<rparr> (exact_solution res) start = Inr plan"
  obtains resp where "gives (optimize_pipeline env r) (Returned resp)"
    and "resp_route resp = map (output_stop (problem_of r)) (enumerate 0 (stops plan))"
    and "resp_total_travel_minutes resp = total_travel_minutes plan"
proof -
  obtain q where q: "gives (prepare_request env r) (Returned q)" by (rule local_prepare [OF l])
  note solved = local_solve [OF l q exact res start]
  let ?routing = "\<lparr>routing_ctx = None, routing_selection = None\<rparr>"
  let ?resp = "strip_portfolio_extensions (decorate_response env q ?routing None (from_plan plan (problem_of r) None))"
  have final: "gives (finalize_response env q ?routing \<lparr>rows = rs\<rparr>
      \<lparr>run_solution = exact_solution res, run_diagnostics = None\<rparr> start) (Returned ?resp)"
    using local_finalize [OF l q, of "\<lparr>rows = rs\<rparr>" "\<lparr>run_solution = exact_solution res, run_diagnostics = None\<rparr>"] plan
    by simp
  have "gives (optimize_pipeline env r) (Returned ?resp)"
    unfolding optimize_pipeline_def local_defaults [OF l]
    by (rule gives_after [OF q] gives_after [OF local_routing [OF l local_prepared(2) [OF l q]]]
        gives_after [OF local_matrix [OF l q]] gives_after [OF solved] final | subst prod.case)+
  then show thesis by (rule that) (simp_all add: response_of_plan)
qed

lemma local_pipeline_fails:
  assumes l: "local_run env r rs" and exact: "env_solver env = exact_route_solver"
    and none: "solve_detailed default_objective time_cost_dominates (local_input env r rs) = Inl e"
  shows "gives (optimize_pipeline env r) (Failing (run_failure (problem_of r) \<lparr>rows = rs\<rparr> e))"
proof -
  obtain q where q: "gives (prepare_request env r) (Returned q)" by (rule local_prepare [OF l])
  show ?thesis
    unfolding optimize_pipeline_def local_defaults [OF l]
    by (rule gives_after [OF q] gives_after [OF local_routing [OF l local_prepared(2) [OF l q]]]
        gives_after [OF local_matrix [OF l q]] gives_failure [OF local_solve_fails [OF l q exact none]])+
qed

lemma no_route_reported:
  "error_report (run_failure p x NoFeasibleRoute) = Some (CodeNoFeasibleRoute, ''No feasible route was found.'')"
  by (auto simp: run_failure_def diagnose_input_order_schedule_def error_report_def
      split: option.split sum.splits schedule_error.splits)

section \<open>An environment\<close>

text \<open>The worked example of the README, in a service with the exact solver and no provider.\<close>

definition readme_env :: "(unit, unit) service_env" where
  "readme_env = \<lparr>
     env_calendar = \<lparr>parse_date = (\<lambda>_. None), parse_zone = (\<lambda>_. None), from_local = (\<lambda>_ _ _. NoLocal), show_local = (\<lambda>_ _. [])\<rparr>,
     env_now = 0, date_in_zone = (\<lambda>_ _. ()), rfc3339 = (\<lambda>_. []), estimate_minutes = (\<lambda>_ _ _. NotANumber),
     env_provider = \<lparr>select_provider = (\<lambda>_. Inr None), provider_matrix = (\<lambda>_ _. ([], Inl (ProviderFailed []))),
       leg_minutes = (\<lambda>_ _ _. Inr None)\<rparr>,
     env_solver = exact_route_solver, token = (\<lambda>_. False), solver_poll = (\<lambda>_. False),
     shuffle_step = (\<lambda>_ _ xs. rev xs), default_euclidean_matrix = False\<rparr>"

lemma readme_env_simps [simp]:
  "env_solver readme_env = exact_route_solver" "token readme_env = (\<lambda>_. False)" "solver_poll readme_env = (\<lambda>_. False)"
  by (simp_all add: readme_env_def)

lemma readme_local_run: "local_run readme_env (readme_request sp) (rows readme_matrix)"
  using readme_request_typed readme_request_acceptable
  by (simp add: local_run_def supplied_rows_def readme_request_defs readme_matrix_def request_shuffle_seed_def)

lemma readme_local_input: "local_input readme_env (readme_request sp) (rows readme_matrix) = readme_input sp"
  by (simp add: local_input_def readme_request_problem readme_input_def)

lemma readme_typed_env: "typed_env readme_env"
  by (auto simp: typed_env_def exact_route_solver_def exact_start_time_def bind_result_Inr selected_start_time_def
      readme_env_def from_minutes_def wf_problem_def wf_time_def split: if_splits sum.splits)

lemma service_optimal_facts:
  assumes "local_run env r rs" and "env_solver env = exact_route_solver" and "\<forall>q. \<not> solver_poll env q"
    and "length (req_locations r) \<le> exact_max_locations"
    and "evaluate_solution default_objective (local_input env r rs) sol = Inr mt"
  shows "\<exists>resp s' best metrics. optimize env r s = (Returned resp, s') \<and>
    evaluate_solution default_objective (local_input env r rs) best = Inr metrics \<and>
    default_compare metrics mt \<noteq> Greater \<and>
    map out_location_id (resp_route resp) =
      map (\<lambda>k. location_id (locations (problem_of r) ! k)) (visit_order best) \<and>
    resp_total_travel_minutes resp = metric_travel_minutes metrics"
proof -
  let ?i = "local_input env r rs"
  have i: "exact_input ?i" by (rule local_exact_input [OF assms(1,3,4)])
  obtain res where res: "solve_detailed default_objective time_cost_dominates ?i = Inr res"
    and ev: "evaluate_solution default_objective ?i (exact_solution res) = Inr (exact_metrics res)"
    and best: "default_compare (exact_metrics res) mt \<noteq> Greater"
    using exact_optimal_facts [OF i assms(5)] by blast
  have wf: "wf_input ?i" "never_cancelled ?i" using i by (auto simp: exact_input_def)
  have p: "input_problem ?i = problem_of r" "input_matrix ?i = \<lparr>rows = rs\<rparr>" by (simp_all add: local_input_def)
  obtain start plan where start: "selected_start_time (problem_of r) (exact_metrics res) = Inr start"
    and plan: "calculate_schedule_from (problem_of r) \<lparr>rows = rs\<rparr> (exact_solution res) start = Inr plan"
    and travel: "total_travel_minutes plan = metric_travel_minutes (exact_metrics res)"
    using evaluated_schedule_facts [OF wf ev] unfolding p by blast
  have "exact_start_time ?i (exact_solution res) = Inr start"
    by (simp add: exact_start_time_def ev p start)
  from local_pipeline [OF assms(1,2) res this plan] obtain resp
    where resp: "gives (optimize_pipeline env r) (Returned resp)"
      "resp_route resp = map (output_stop (problem_of r)) (enumerate 0 (stops plan))"
      "resp_total_travel_minutes resp = total_travel_minutes plan" .
  have "wf_problem (problem_of r)" using wf(1) p by (simp add: wf_input_def)
  moreover have "wf_time start"
    using start wf(1) p by (auto simp: selected_start_time_def from_minutes_def wf_time_def wf_input_def wf_problem_def
        split: if_splits sum.splits)
  ultimately have "map location_index (stops plan) = visit_order (exact_solution res)"
    using calculate_schedule_facts plan by blast
  then have "map out_location_id (resp_route resp) =
      map (\<lambda>k. location_id (locations (problem_of r) ! k)) (visit_order (exact_solution res))"
    unfolding resp(2) route_stop_ids by (simp flip: \<open>map location_index (stops plan) = _\<close>)
  then show ?thesis
    using optimize_answers [OF resp(1), of s] assms(1) ev best resp(3) travel by (auto simp: local_run_def)
qed

lemma readme_answers:
  "\<exists>resp s'. optimize readme_env (readme_request Latest) initial_pipeline = (Returned resp, s')"
  using service_optimal_facts [OF readme_local_run [of Latest], of readme_route, unfolded readme_local_input,
      OF _ _ _ readme_evaluates, of initial_pipeline]
  by (auto simp: readme_request_defs exact_max_locations_def)

section \<open>Properties\<close>

text \<open>
  A response is returned only by a run that found the token clear at every one of its reads,
  the last of them after the result was reported; the earlier reports are all still there.
\<close>

lemma response_not_cancelled:
  assumes "optimize env r s = (Returned resp, s')"
  shows "extends s s' \<and> token_reads s < token_reads s' \<and>
    (\<forall>k\<in>{token_reads s..<token_reads s'}. \<not> token env k)"
  by (rule response_token_facts [OF assms])



text \<open>
  C14. A returned response is sound: it comes from an accepted request, its stops are those of a
  plan in a valid order that keeps every opening hour and stay, and its legs are those of one
  travel-time matrix, the one of the request when the request brought one.
\<close>

theorem optimize_response_sound:
  assumes "typed_request r" and "typed_env env" and "optimize env r s = (Returned resp, s')"
  shows "acceptable (env_calendar env) (apply_request_defaults env r) \<and>
    (\<exists>(plan :: route_plan) (m :: travel_time_matrix).
      resp_route resp = map (output_stop (problem_of r)) (enumerate 0 (stops plan)) \<and>
      resp_total_travel_minutes resp = total_travel_minutes plan \<and>
      valid_order (problem_of r) (map location_index (stops plan)) \<and>
      list_all (stop_ok (problem_of r)) (stops plan) \<and> legs_ok m (stops plan) \<and>
      (case supplied_rows r of None \<Rightarrow> True | Some rs \<Rightarrow> rows m = rs))"
  using assms(2) by (intro response_facts [OF assms(1) _ assms(3)]) (simp add: typed_env_def)

theorem optimize_response_sound_witness:
  "\<exists>resp s' (plan :: route_plan). optimize readme_env (readme_request Latest) initial_pipeline = (Returned resp, s') \<and>
    valid_order (readme_problem Latest) (map location_index (stops plan)) \<and> legs_ok readme_matrix (stops plan)"
proof -
  obtain resp s' where run: "optimize readme_env (readme_request Latest) initial_pipeline = (Returned resp, s')"
    using readme_answers by blast
  have rs: "supplied_rows (readme_request Latest) = Some (rows readme_matrix)"
    using readme_local_run [of Latest] by (simp add: local_run_def)
  from optimize_response_sound [OF readme_request_typed readme_typed_env run]
  obtain plan :: route_plan and m :: travel_time_matrix
    where "valid_order (readme_problem Latest) (map location_index (stops plan))"
      and "legs_ok m (stops plan)" "rows m = rows readme_matrix"
    unfolding readme_request_problem rs by auto
  then show ?thesis using run by (metis (full_types) old.unit.exhaust travel_time_matrix.equality)
qed

text \<open>
  C13. The service with the exact solver, for an accepted request with its own matrix, at most 15
  locations, no debug shuffle and no portfolio experiment, on a run whose token is never set: it
  answers whenever any solution passes the evaluator. It returns a response, whose route and travel
  time are those of a solution with metrics no worse than any other's.
\<close>

theorem exact_service_optimal:
  assumes "local_run env r rs" and "env_solver env = exact_route_solver" and "\<forall>q. \<not> solver_poll env q"
    and "length (req_locations r) \<le> exact_max_locations"
    and "evaluate_solution default_objective (local_input env r rs) sol = Inr mt"
  shows "\<exists>resp s' best metrics. optimize env r s = (Returned resp, s') \<and>
    evaluate_solution default_objective (local_input env r rs) best = Inr metrics \<and>
    default_compare metrics mt \<noteq> Greater \<and>
    map out_location_id (resp_route resp) =
      map (\<lambda>k. location_id (locations (problem_of r) ! k)) (visit_order best) \<and>
    resp_total_travel_minutes resp = metric_travel_minutes metrics"
  by (rule service_optimal_facts [OF assms])

theorem exact_service_optimal_witness:
  "\<exists>resp s'. optimize readme_env (readme_request Latest) initial_pipeline = (Returned resp, s')"
  using exact_service_optimal [OF readme_local_run [of Latest], of readme_route, unfolded readme_local_input,
      OF _ _ _ readme_evaluates, of initial_pipeline]
  by (auto simp: readme_request_defs exact_max_locations_def)

text \<open>
  When no solution passes the evaluator the service with the exact solver fails, and its last
  report says that there is no feasible route.
\<close>

lemma exact_service_infeasible:
  assumes "local_run env r rs" and "env_solver env = exact_route_solver" and "\<forall>q. \<not> solver_poll env q"
    and "length (req_locations r) \<le> exact_max_locations"
    and "\<not> (\<exists>sol. is_ok (evaluate_solution default_objective (local_input env r rs) sol))"
  shows "\<exists>e s'. optimize env r s = (Failing e, s') \<and>
    List.last (reports s') = ErrorReport CodeNoFeasibleRoute ''No feasible route was found.'' e"
proof -
  have "exact_input (local_input env r rs)" by (rule local_exact_input [OF assms(1,3,4)])
  then have "solve_detailed default_objective time_cost_dominates (local_input env r rs) = Inl NoFeasibleRoute"
    using exact_complete_facts assms(5) by (metis (mono_tags, lifting))
  from local_pipeline_fails [OF assms(1,2) this] show ?thesis
    using optimize_fails [OF _ _ no_route_reported, of env r] assms(1) unfolding local_run_def by blast
qed

text \<open>Two locations with no way between them.\<close>

definition stranded_request :: optimize_request where
  "stranded_request = (readme_request Earliest)\<lparr>
     req_locations := [readme_location_input ''hotel'' 540 540 0, readme_location_input ''station'' 540 1200 0],
     req_matrix := None, req_sparse_matrix := Some [[Some 0, None], [None, Some 0]]\<rparr>"

lemma stranded_local_run: "local_run readme_env stranded_request [[Some 0, None], [None, Some 0]]"
proof -
  have ids: "trim s = s" if "s \<in> {''readme-matrix-example'', ''hotel'', ''station''}" for s
    using that by (intro trim_visible) auto
  have short: "length s \<le> 512 \<Longrightarrow> char_count s \<le> 512" "length s \<le> 128 \<Longrightarrow> char_count s \<le> 128" for s
    using char_count_le [of s] by simp_all
  have "acceptable_location stranded_request k (req_locations stranded_request ! k)"
    if "k < length (req_locations stranded_request)" for k
  proof -
    have "k = 0 \<or> k = 1" using that by (auto simp: stranded_request_def)
    then show ?thesis
      by (auto simp: acceptable_location_def stranded_request_def readme_request_defs ids short has_supplied_matrix_def
          coordinates_ok_def less_eq_time_of_day_def)
  qed
  then have "acceptable (env_calendar readme_env) stranded_request"
    by (auto simp: acceptable_def stranded_request_def readme_request_defs ids short is_ok_iff
        requested_routing_departure_def departure_day_def has_supplied_matrix_def square_def All_less_Suc)
  then show ?thesis
    by (auto simp: local_run_def typed_request_def stranded_request_def readme_request_defs wf_time_def
        minutes_per_day_def supplied_rows_def request_shuffle_seed_def)
qed

lemma stranded_infeasible:
  "\<not> is_ok (evaluate_solution default_objective (local_input readme_env stranded_request [[Some 0, None], [None, Some 0]]) sol)"
proof
  let ?i = "local_input readme_env stranded_request [[Some 0, None], [None, Some 0]]"
  assume "is_ok (evaluate_solution default_objective ?i sol)"
  then obtain mt where mt: "evaluate_solution default_objective ?i sol = Inr mt" by (auto simp: is_ok_iff)
  have "exact_input ?i"
    by (rule local_exact_input [OF stranded_local_run]) (simp_all add: stranded_request_def exact_max_locations_def)
  then have wf: "wf_input ?i" "never_cancelled ?i" by (auto simp: exact_input_def)
  note ev = evaluate_solution_Inr [OF wf mt]
  have two: "length (locations (input_problem ?i)) = 2" by (simp add: local_input_def stranded_request_def)
  have o: "valid_order (input_problem ?i) (visit_order sol)" using ev by simp
  then have "distinct (visit_order sol)" "set (visit_order sol) \<subseteq> {..<2}" "visit_order sol \<noteq> []"
    "hd (visit_order sol) = 0" "last (visit_order sol) = 1"
    using two by (simp_all add: valid_order_def Let_def)
  then have "visit_order sol = [0, 1]"
    by (cases "visit_order sol"; cases "tl (visit_order sol)"; cases "tl (tl (visit_order sol))") auto
  then show False
    using ev(5) by (auto simp: route_walk_def local_input_def walk_step travel_minutes_def get_def split: option.splits)
qed

end
