(* ===== verification/Result_Debug.thy ===== *)
theory Result_Debug
  imports Service Evaluate "HOL-Library.Multiset"
begin

text \<open>
  The debug shuffle of \<open>src/result_debug.rs\<close>: when its loop ends, and what it makes of a route.
  The generator is a parameter; that a shuffle permutes is what the crate \<open>rand\<close> documents.
\<close>

lemma shuffle_until_step:
  "shuffle_until f k original original = shuffle_until f (k + 1) original (f k original)"
  "current \<noteq> original \<Longrightarrow> shuffle_until f k original current = Some current"
  by (simp_all add: shuffle_until.simps)

lemma shuffle_until_Some:
  assumes "shuffle_until f k original current = Some x"
  shows "x \<noteq> original \<and> (x = current \<or> (\<exists>n. x = f n original))"
proof (rule shuffle_until.raw_induct [OF _ assms])
  fix until f k original current x
  assume IH: "\<And>f k original current x. until f k original current = Some x \<Longrightarrow>
      x \<noteq> original \<and> (x = current \<or> (\<exists>n. x = f n original))"
    and "(if current = original then until f (k + 1) original (f k current) else Some current) = Some x"
  then show "x \<noteq> original \<and> (x = current \<or> (\<exists>n. x = f n original))"
  proof (cases "current = original")
    case True
    then have "until f (k + 1) original (f k current) = Some x"
      using \<open>(if current = original then _ else _) = Some x\<close> by (simp only: if_True refl)
    from IH [OF this] show ?thesis using True by blast
  qed simp
qed

lemma shuffle_until_finds:
  assumes "f n original \<noteq> original" and "k \<le> n"
  shows "\<exists>x. shuffle_until f k original original = Some x"
  using assms(2)
proof (induction "n - k" arbitrary: k rule: less_induct)
  case less
  show ?case
  proof (cases "f k original = original")
    case True
    then have "k < n" using less.prems assms(1) by (cases "k = n") auto
    then have "\<exists>x. shuffle_until f (k + 1) original original = Some x" using less.hyps [of "k + 1"] by simp
    then show ?thesis using True by (simp add: shuffle_until_step(1))
  qed (simp add: shuffle_until_step)
qed

lemma interior_frame:
  assumes "2 \<le> length xs"
  shows "xs = hd xs # interior xs @ [last xs]"
proof -
  obtain a ys where xs: "xs = a # ys" using assms by (cases xs) auto
  then have "ys \<noteq> []" using assms by auto
  then have "ys = butlast ys @ [last ys]" by simp
  then show ?thesis using xs \<open>ys \<noteq> []\<close> by (simp add: interior_def butlast_conv_take)
qed

section \<open>Properties\<close>

text \<open>
  The shuffle of a route ends exactly when the route is too short to shuffle or one of the
  generator's shuffles of its interior differs from it.
\<close>

lemma shuffle_terminates_iff:
  "shuffle_solution f sol \<noteq> None \<longleftrightarrow>
   length (visit_order sol) \<le> 3 \<or> (\<exists>n. f n (interior (visit_order sol)) \<noteq> interior (visit_order sol))"
proof -
  let ?mid = "interior (visit_order sol)"
  have "(\<exists>x. shuffle_until f 0 ?mid ?mid = Some x) \<longleftrightarrow> (\<exists>n. f n ?mid \<noteq> ?mid)"
    using shuffle_until_Some [of f 0 ?mid ?mid] shuffle_until_finds [of f _ ?mid 0] by auto
  then show ?thesis by (auto simp: shuffle_solution_def Let_def)
qed

text \<open>
  A shuffled route of a valid order is a valid order of the same locations, with the same
  endpoints, and is not the order the solver found, unless there is at most one location between.
\<close>

lemma shuffle_keeps_valid:
  assumes "\<forall>k xs. mset (f k xs) = mset xs" and "valid_order p (visit_order sol)"
    and "shuffle_solution f sol = Some sol'"
  shows "valid_order p (visit_order sol') \<and> mset (visit_order sol') = mset (visit_order sol) \<and>
    (length (visit_order sol) \<le> 3 \<or> visit_order sol' \<noteq> visit_order sol)"
proof (cases "length (visit_order sol) \<le> 3")
  case True
  then show ?thesis using assms by (auto simp: shuffle_solution_def)
next
  case False
  let ?o = "visit_order sol" and ?mid = "interior (visit_order sol)"
  obtain mid where mid: "shuffle_until f 0 ?mid ?mid = Some mid"
    and o': "visit_order sol' = take 1 ?o @ mid @ drop (length ?o - 1) ?o"
    using assms(3) False by (auto simp: shuffle_solution_def Let_def)
  have frame: "?o = hd ?o # ?mid @ [last ?o]" using False by (intro interior_frame) simp
  have len: "length ?o - 1 = Suc (length ?mid)" using arg_cong [OF frame, of length] by simp
  have ends: "take 1 ?o = [hd ?o]" "drop (length ?o - 1) ?o = [last ?o]"
    by (subst frame, simp) (unfold len, subst frame, simp)
  have new: "mid \<noteq> ?mid" "mset mid = mset ?mid"
    using shuffle_until_Some [OF mid] assms(1) by auto
  have form: "visit_order sol' = hd ?o # mid @ [last ?o]" using o' ends by simp
  then have same: "mset (visit_order sol') = mset ?o" using new(2) by (subst frame) simp
  then have "set (visit_order sol') = set ?o" "distinct (visit_order sol') = distinct ?o"
    using mset_eq_setD mset_eq_imp_distinct_iff by blast+
  then have "valid_order p (visit_order sol')"
    using assms(2) form by (simp add: valid_order_def Let_def)
  moreover have "visit_order sol' \<noteq> ?o" using new(1) form frame by (metis (no_types) append1_eq_conv list.inject)
  ultimately show ?thesis using same by simp
qed

theorem shuffle_keeps_valid_witness:
  "valid_order (readme_problem Latest) [0, 1, 2, 3]"
proof -
  have "shuffle_solution (\<lambda>_. rev) readme_route = Some \<lparr>visit_order = [0, 1, 2, 3]\<rparr>"
    by (simp add: shuffle_solution_def readme_route_def interior_def shuffle_until_step)
  from shuffle_keeps_valid [OF _ _ this, of "readme_problem Latest"] show ?thesis
    using readme_valid [of Latest] by (simp add: readme_route_def)
qed

end
