(* ===== verification/Initial.thy ===== *)
theory Initial
  imports Evaluate "HOL-Library.Product_Lexorder"
begin

text \<open>
  \<open>src/solver/initial/\<close>: the checks shared by the generators of initial routes, and the greedy
  route of \<open>greedy.rs\<close>, which always goes to the nearest location that is left.
\<close>

text \<open>\<open>Iterator::min_by_key\<close>: the first element with the least key.\<close>

fun min_by_key :: "('a \<Rightarrow> 'k::linorder) \<Rightarrow> 'a list \<Rightarrow> 'a option" where
  "min_by_key key [] = None"
| "min_by_key key (x # xs) =
     (case min_by_key key xs of
        None \<Rightarrow> Some x
      | Some y \<Rightarrow> Some (if key y < key x then y else x))"

lemma min_by_key_None [simp]: "min_by_key key xs = None \<longleftrightarrow> xs = []"
  by (cases xs) (auto split: option.splits)

lemma min_by_key_Some:
  assumes "min_by_key key xs = Some x"
  shows "x \<in> set xs" "y \<in> set xs \<Longrightarrow> key x \<le> key y"
proof -
  have "x \<in> set xs \<and> (\<forall>y\<in>set xs. key x \<le> key y)"
    using assms
  proof (induction xs arbitrary: x)
    case (Cons a xs)
    show ?case
    proof (cases "min_by_key key xs")
      case None
      then show ?thesis using Cons.prems by simp
    next
      case (Some y)
      then show ?thesis using Cons.prems Cons.IH [OF Some] by (auto split: if_splits intro: order_trans)
    qed
  qed simp
  then show "x \<in> set xs" "y \<in> set xs \<Longrightarrow> key x \<le> key y" by blast+
qed

definition validate_generator_input :: "solver_input \<Rightarrow> solver_error + unit" where
  "validate_generator_input i =
     (let n = length (locations (input_problem i)) in
      if is_cancelled i PollGenerate then Inl Cancelled
      else if matrix_size (input_matrix i) \<noteq> n then Inl (MatrixSizeMismatch (matrix_size (input_matrix i)) n)
      else Inr ())"

definition greedy_key :: "solver_input \<Rightarrow> usize \<Rightarrow> usize \<Rightarrow> u32 \<times> u16 \<times> usize" where
  "greedy_key i current candidate =
     (case travel_minutes (input_matrix i) current candidate of None \<Rightarrow> 2 ^ 32 - 1 | Some t \<Rightarrow> t,
      minutes (window_close (time_window (locations (input_problem i) ! candidate))), candidate)"

text \<open>The loop; the set that remains is a list in the order of its iteration.\<close>

function greedy_steps :: "solver_input \<Rightarrow> usize \<Rightarrow> usize list \<Rightarrow> solver_error + usize list" where
  "greedy_steps i current remaining =
     (if remaining = [] then Inr []
      else case min_by_key (greedy_key i current) remaining of
          None \<Rightarrow> Inl (Failed ''greedy route failed'')
        | Some next \<Rightarrow> bind_result (greedy_steps i next (remove1 next remaining)) (\<lambda>rest. Inr (next # rest)))"
  by pat_completeness auto
termination
  by (relation "measure (\<lambda>(i, current, remaining). length remaining)")
    (auto simp: length_remove1 dest: min_by_key_Some(1) simp flip: length_greater_0_conv)

declare greedy_steps.simps [simp del]

definition greedy_route :: "solver_input \<Rightarrow> solver_error + solver_solution" where
  "greedy_route i =
     bind_result (validate_generator_input i) (\<lambda>_.
       let p = input_problem i; finish = end_location_index p in
       if finish = 0 then Inr \<lparr>visit_order = [0]\<rparr>
       else bind_result (greedy_steps i (start_location_index p) [1..<finish]) (\<lambda>steps.
         Inr \<lparr>visit_order = start_location_index p # steps @ [finish]\<rparr>))"

lemma greedy_steps_total:
  "distinct remaining \<Longrightarrow> \<exists>steps. greedy_steps i current remaining = Inr steps \<and>
    distinct steps \<and> set steps = set remaining"
proof (induction "length remaining" arbitrary: current remaining rule: less_induct)
  case less
  show ?case
  proof (cases "remaining = []")
    case True
    then show ?thesis by (simp add: greedy_steps.simps)
  next
    case False
    then obtain next_up where next_up: "min_by_key (greedy_key i current) remaining = Some next_up"
      by (cases "min_by_key (greedy_key i current) remaining") auto
    note chosen = min_by_key_Some(1) [OF next_up]
    then have "length (remove1 next_up remaining) < length remaining"
      using False by (simp add: length_remove1)
    from less.hyps [OF this, of next_up] less.prems obtain rest
      where rest: "greedy_steps i next_up (remove1 next_up remaining) = Inr rest" "distinct rest"
        "set rest = set remaining - {next_up}"
      by auto
    have "greedy_steps i current remaining = Inr (next_up # rest)"
      by (subst greedy_steps.simps) (simp add: False next_up rest(1))
    then show ?thesis using rest(2,3) chosen by auto
  qed
qed

text \<open>
  The greedy generator fails only for a cancelled run or a matrix of the wrong size; otherwise
  its route visits every location once between the fixed endpoints.
\<close>

lemma greedy_route_complete:
  assumes "wf_problem (input_problem i)"
  shows "if is_cancelled i PollGenerate \<or> matrix_size (input_matrix i) \<noteq> length (locations (input_problem i))
    then \<not> is_ok (greedy_route i)
    else \<exists>sol. greedy_route i = Inr sol \<and> valid_order (input_problem i) (visit_order sol) \<and>
      set (visit_order sol) = {..<length (locations (input_problem i))}"
proof -
  let ?n = "length (locations (input_problem i))"
  have n: "0 < ?n" using assms by (simp add: wf_problem_def)
  show ?thesis
  proof (cases "is_cancelled i PollGenerate \<or> matrix_size (input_matrix i) \<noteq> ?n")
    case False
    then have checked: "validate_generator_input i = Inr ()" by (simp add: validate_generator_input_def)
    obtain steps where steps: "greedy_steps i 0 [1..<?n - 1] = Inr steps" "distinct steps" "set steps = {1..<?n - 1}"
      using greedy_steps_total [of "[1..<?n - 1]" i 0] by auto
    show ?thesis
    proof (cases "?n = 1")
      case True
      then show ?thesis using False checked
        by (auto simp: greedy_route_def end_location_index_def valid_order_def Let_def)
    next
      case more: False
      have two: "Suc 0 < ?n" using more n by linarith
      let ?order = "0 # steps @ [?n - 1]"
      have route: "greedy_route i = Inr \<lparr>visit_order = ?order\<rparr>"
        using two steps(1) [simplified]
        by (simp add: greedy_route_def checked end_location_index_def start_location_index_def Let_def)
      have "set ?order = {..<?n}" using two steps(3) by auto
      moreover have "distinct ?order" using two steps(2,3) by auto
      ultimately show ?thesis using False route by (auto simp: valid_order_def Let_def)
    qed
  qed (auto simp: validate_generator_input_def greedy_route_def is_ok_def Let_def)
qed

end
