(* ===== verification/Failure.thy ===== *)
theory Failure
  imports Service "HOL-Library.Product_Lexorder" "HOL-Library.List_Lexorder" "HOL-Library.Char_ord"
begin

text \<open>
  \<open>src/failure.rs\<close>: what went wrong as a value, suggestions computed from the request and the
  error, and their ranking. A JSON value is one the program builds; its text, which the ranking
  compares, is that of \<open>serde_json\<close>, with the keys of an object in order.
\<close>

section \<open>Suggestions\<close>

record remediation_config =
  budget_ms :: u64
  max_remove_probes :: usize
  max_suggestions :: usize

definition default_remediation :: remediation_config where
  "default_remediation = \<lparr>budget_ms = 500, max_remove_probes = 8, max_suggestions = 3\<rparr>"

datatype suggestion_type =
    ReduceStayTime | MoveLocationEarlier | MoveLocationLater | StartEarlier | StartLater
  | ChangeStartPolicy | ChangeStartLocation | ChangeEndLocation | RemoveLocation
  | ChangeTravelMode | SplitDay | RetryRouting

datatype confidence = Exact | Heuristic

datatype json_value = JsonNumber u64 | JsonString string | JsonBool bool | JsonObject "(string \<times> u64) list"

record suggestion =
  suggestion_type :: suggestion_type
  suggestion_reason :: string
  suggestion_confidence :: confidence
  suggestion_location :: "string option"
  from_location :: "string option"
  to_location :: "string option"
  current_value :: "json_value option"
  suggested_value :: "json_value option"
  current_minutes :: "u32 option"
  suggested_max_minutes :: "u32 option"
  required_shift_minutes :: "u32 option"
  suggested_latest_start :: "time_of_day option"

definition new_suggestion :: "suggestion_type \<Rightarrow> confidence \<Rightarrow> string \<Rightarrow> suggestion" where
  "new_suggestion kind conf reason =
     \<lparr>suggestion_type = kind, suggestion_reason = reason, suggestion_confidence = conf,
      suggestion_location = None, from_location = None, to_location = None, current_value = None,
      suggested_value = None, current_minutes = None, suggested_max_minutes = None,
      required_shift_minutes = None, suggested_latest_start = None\<rparr>"

section \<open>Ranking\<close>

text \<open>The strings in these values hold no character that JSON escapes.\<close>

fun json_to_string :: "json_value \<Rightarrow> string" where
  "json_to_string (JsonNumber n) = nat_to_string n"
| "json_to_string (JsonString s) = ''\"'' @ s @ ''\"''"
| "json_to_string (JsonBool b) = show_bool b"
| "json_to_string (JsonObject entries) = ''{'' @
     concat (map (\<lambda>(k, (name, v)). (if k = 0 then [] else '','') @ ''\"'' @ name @ ''\":'' @ nat_to_string v)
       (enumerate 0 entries)) @ ''}''"

fun type_priority :: "suggestion_type \<Rightarrow> u64" where
  "type_priority StartEarlier = 1"
| "type_priority StartLater = 1"
| "type_priority ReduceStayTime = 2"
| "type_priority MoveLocationEarlier = 3"
| "type_priority MoveLocationLater = 3"
| "type_priority ChangeStartPolicy = 4"
| "type_priority ChangeTravelMode = 5"
| "type_priority RetryRouting = 5"
| "type_priority ChangeStartLocation = 6"
| "type_priority ChangeEndLocation = 6"
| "type_priority RemoveLocation = 7"
| "type_priority SplitDay = 8"

fun feasibility_penalty :: "suggestion_type \<Rightarrow> u64" where
  "feasibility_penalty ChangeStartPolicy = 5000"
| "feasibility_penalty RetryRouting = 8000"
| "feasibility_penalty ChangeTravelMode = 0"
| "feasibility_penalty RemoveLocation = 0"
| "feasibility_penalty SplitDay = 0"
| "feasibility_penalty _ = 2000"

fun routing_penalty :: "suggestion_type \<Rightarrow> u64" where
  "routing_penalty ChangeTravelMode = 1000"
| "routing_penalty RetryRouting = 3000"
| "routing_penalty _ = 0"

fun suggestion_type_order :: "suggestion_type \<Rightarrow> u8" where
  "suggestion_type_order StartEarlier = 0"
| "suggestion_type_order StartLater = 1"
| "suggestion_type_order ReduceStayTime = 2"
| "suggestion_type_order MoveLocationEarlier = 3"
| "suggestion_type_order MoveLocationLater = 4"
| "suggestion_type_order ChangeStartPolicy = 5"
| "suggestion_type_order ChangeTravelMode = 6"
| "suggestion_type_order RetryRouting = 7"
| "suggestion_type_order ChangeStartLocation = 8"
| "suggestion_type_order ChangeEndLocation = 9"
| "suggestion_type_order RemoveLocation = 10"
| "suggestion_type_order SplitDay = 11"

definition parse_u32 :: "string \<Rightarrow> u32 option" where
  "parse_u32 s =
     (if s = [] \<or> s = ''+'' \<or> s = ''-'' then None
      else digits_value (2 ^ 32) 0 (if hd s = CHR ''+'' then tl s else s))"

definition parse_time_minutes :: "string \<Rightarrow> u32 option" where
  "parse_time_minutes value =
     (case split_once (CHR '':'') value of
        None \<Rightarrow> None
      | Some (h, m) \<Rightarrow> (case (parse_u32 h, parse_u32 m) of
            (Some hour, Some minute) \<Rightarrow> if hour < 24 \<and> minute < 60 then Some (hour * 60 + minute) else None
          | _ \<Rightarrow> None))"

definition or_else :: "'a option \<Rightarrow> 'a option \<Rightarrow> 'a option" where
  "or_else x y = (case x of None \<Rightarrow> y | Some v \<Rightarrow> Some v)"

definition number_distance :: "json_value option \<Rightarrow> json_value option \<Rightarrow> u32 option" where
  "number_distance a b = (case (a, b) of
     (Some (JsonNumber x), Some (JsonNumber y)) \<Rightarrow> if abs_diff x y < 2 ^ 32 then Some (abs_diff x y) else None
   | _ \<Rightarrow> None)"

definition time_distance :: "json_value option \<Rightarrow> json_value option \<Rightarrow> u32 option" where
  "time_distance a b = (case (a, b) of
     (Some (JsonString x), Some (JsonString y)) \<Rightarrow>
       (case (parse_time_minutes x, parse_time_minutes y) of
          (Some s, Some t) \<Rightarrow> Some (abs_diff s t) | _ \<Rightarrow> None)
   | _ \<Rightarrow> None)"

definition change_magnitude_minutes :: "suggestion \<Rightarrow> u32 option" where
  "change_magnitude_minutes g =
     or_else (required_shift_minutes g)
       (or_else (case (current_minutes g, suggested_max_minutes g) of
            (Some a, Some b) \<Rightarrow> Some (abs_diff a b) | _ \<Rightarrow> None)
         (or_else (number_distance (current_value g) (suggested_value g))
           (time_distance (current_value g) (suggested_value g))))"

definition or_empty :: "string option \<Rightarrow> string" where
  "or_empty s = (case s of None \<Rightarrow> [] | Some v \<Rightarrow> v)"

definition target_key :: "suggestion \<Rightarrow> string" where
  "target_key g = or_empty (suggestion_location g) @ ''|'' @ or_empty (from_location g) @ ''|'' @
     or_empty (to_location g)"

definition magnitude :: "suggestion \<Rightarrow> u64" where
  "magnitude g = min (case change_magnitude_minutes g of None \<Rightarrow> 9999 | Some m \<Rightarrow> m) 9999"

definition confidence_penalty :: "suggestion \<Rightarrow> u64" where
  "confidence_penalty g = (case suggestion_confidence g of Exact \<Rightarrow> 0 | Heuristic \<Rightarrow> 20000)"

definition suggestion_score :: "suggestion \<Rightarrow> u64" where
  "suggestion_score g = (let kind = suggestion_type g in
     type_priority kind * 100000 + confidence_penalty g + feasibility_penalty kind + routing_penalty kind +
     magnitude g)"

type_synonym ranking = "u64 \<times> u8 \<times> string \<times> string \<times> string \<times> usize"

definition ranking_key :: "suggestion \<Rightarrow> usize \<Rightarrow> ranking" where
  "ranking_key g index =
     (suggestion_score g, suggestion_type_order (suggestion_type g), target_key g,
      (case suggested_value g of None \<Rightarrow> [] | Some v \<Rightarrow> json_to_string v), suggestion_reason g, index)"

definition conflict_key :: "suggestion \<Rightarrow> string" where
  "conflict_key g = (let location = or_empty (suggestion_location g) in
     case suggestion_type g of
       StartEarlier \<Rightarrow> ''start-time''
     | StartLater \<Rightarrow> ''start-time''
     | MoveLocationEarlier \<Rightarrow> ''move:'' @ location
     | MoveLocationLater \<Rightarrow> ''move:'' @ location
     | ReduceStayTime \<Rightarrow> ''stay:'' @ location
     | ChangeStartPolicy \<Rightarrow> ''start-policy''
     | ChangeTravelMode \<Rightarrow> ''travel-mode''
     | ChangeStartLocation \<Rightarrow> ''start-location''
     | ChangeEndLocation \<Rightarrow> ''end-location''
     | RemoveLocation \<Rightarrow> ''remove:'' @ location
     | SplitDay \<Rightarrow> ''split-day''
     | RetryRouting \<Rightarrow> ''retry-routing'')"

text \<open>The loop with the keys taken so far and the room that is left.\<close>

fun pick_suggestions :: "string set \<Rightarrow> usize \<Rightarrow> suggestion list \<Rightarrow> suggestion list" where
  "pick_suggestions taken room [] = []"
| "pick_suggestions taken room (g # gs) =
     (if conflict_key g \<in> taken then pick_suggestions taken room gs
      else if room = 1 then [g]
      else g # pick_suggestions (insert (conflict_key g) taken) (room - 1) gs)"

definition rank_failure_suggestions :: "suggestion list \<Rightarrow> usize \<Rightarrow> suggestion list" where
  "rank_failure_suggestions gs maximum =
     (if maximum = 0 then []
      else pick_suggestions {} maximum (map snd (sort_key (\<lambda>(index, g). ranking_key g index) (enumerate 0 gs))))"

section \<open>What went wrong\<close>

datatype failure_detail =
    DetailInvalidRequest
  | RoutingUnavailable
  | RoutingPairFailed string string
  | DetailProviderResolution
  | DetailProviderNotConfigured
  | DetailUnsupportedCapability
  | DetailNoFeasibleRoute
  | StartPolicyInfeasible start_policy "time_of_day option"
  | DetailTimeWindowViolation string time_of_day time_of_day time_of_day time_of_day u32
  | DetailOutsideSingleDay
  | DetailCancelled
  | Internal

section \<open>The route-duration lower bound\<close>

definition request_rows :: "optimize_request \<Rightarrow> u32 option list list option" where
  "request_rows r = (case req_matrix r of
     Some rs \<Rightarrow> Some (map (map Some) rs) | None \<Rightarrow> req_sparse_matrix r)"

definition total_stay :: "optimize_request \<Rightarrow> u32" where
  "total_stay r = fold (\<lambda>l acc. saturating_add_u32 acc (in_stay_minutes l)) (req_locations r) 0"

text \<open>\<open>filter_map(..).min().unwrap_or(0)\<close>.\<close>

definition cheapest :: "u32 option list \<Rightarrow> u32" where
  "cheapest cells = (case List.map_filter id cells of [] \<Rightarrow> 0 | c # cs \<Rightarrow> fold min cs c)"

definition outgoing_bound :: "u32 option list list \<Rightarrow> u32" where
  "outgoing_bound rs = (let n = length rs in
     fold (\<lambda>from acc. saturating_add_u32 acc
        (cheapest (map (\<lambda>to. rs ! from ! to) (filter (\<lambda>to. to \<noteq> from) [0..<n])))) [0..<n - 1] 0)"

definition incoming_bound :: "u32 option list list \<Rightarrow> u32" where
  "incoming_bound rs = (let n = length rs in
     fold (\<lambda>to acc. saturating_add_u32 acc
        (cheapest (map (\<lambda>from. rs ! from ! to) (filter (\<lambda>from. from \<noteq> to) [0..<n])))) [1..<n] 0)"

definition minimum_duration_lower_bound :: "optimize_request \<Rightarrow> u32" where
  "minimum_duration_lower_bound r =
     (case request_rows r of
        None \<Rightarrow> total_stay r
      | Some rs \<Rightarrow>
          if length rs < 2 \<or> (\<exists>row\<in>set rs. length row \<noteq> length rs) then total_stay r
          else saturating_add_u32 (total_stay r) (max (outgoing_bound rs) (incoming_bound rs)))"

section \<open>Suggestions from the request\<close>

definition window_minutes :: "location_input \<Rightarrow> u32" where
  "window_minutes l = minutes (in_close_time l) - minutes (in_open_time l)"

definition stay_suggestion :: "location_input \<Rightarrow> suggestion" where
  "stay_suggestion l = (new_suggestion ReduceStayTime Exact
       ''The requested stay is longer than the location's complete opening window.'')
     \<lparr>suggestion_location := Some (in_id l), current_value := Some (JsonNumber (in_stay_minutes l)),
      suggested_value := Some (JsonNumber (window_minutes l)),
      current_minutes := Some (in_stay_minutes l), suggested_max_minutes := Some (window_minutes l)\<rparr>"

definition end_close :: "optimize_request \<Rightarrow> u32" where
  "end_close r = (if req_locations r = [] then 24 * 60 - 1 else minutes (in_close_time (last (req_locations r))))"

definition split_day_bound_suggestion :: "u32 \<Rightarrow> suggestion" where
  "split_day_bound_suggestion lower = (new_suggestion SplitDay Heuristic
       ''Even the route-duration lower bound exceeds the available single-day horizon.'')
     \<lparr>current_value := Some (JsonObject [(''days'', 1), (''minimum_required_minutes'', lower)]),
      suggested_value := Some (JsonObject [(''days'', max (div_ceil lower (24 * 60)) 2)])\<rparr>"

definition start_earlier_bound_suggestion :: "time_of_day \<Rightarrow> u32 \<Rightarrow> suggestion" where
  "start_earlier_bound_suggestion start latest =
     (let suggested = TimeOfDay (as_u16 (min latest (24 * 60 - 1))) in
      (new_suggestion StartEarlier Heuristic
        ''The current start is later than the latest start allowed by the route-duration lower bound and destination closing time.'')
      \<lparr>current_value := Some (JsonString (time_to_string start)),
       suggested_value := Some (JsonString (time_to_string suggested)),
       required_shift_minutes := Some (minutes start - minutes suggested),
       suggested_latest_start := Some suggested\<rparr>)"

definition start_policy_str :: "start_policy \<Rightarrow> string" where
  "start_policy_str p = (case p of Fixed \<Rightarrow> ''FIXED'' | Earliest \<Rightarrow> ''EARLIEST'' | Latest \<Rightarrow> ''LATEST'')"

definition policy_suggestion :: "start_policy \<Rightarrow> suggestion" where
  "policy_suggestion p = (new_suggestion ChangeStartPolicy Heuristic
       ''Allowing EARLIEST start selection lets the solver search before the current start bound.'')
     \<lparr>current_value := Some (JsonString (start_policy_str p)), suggested_value := Some (JsonString ''EARLIEST'')\<rparr>"

definition no_feasible_suggestions :: "optimize_request \<Rightarrow> suggestion list" where
  "no_feasible_suggestions r =
     (let lower = minimum_duration_lower_bound r; policy = request_start_policy r;
          start = request_start_time r; close = end_close r; latest = close - lower
      in map stay_suggestion (filter (\<lambda>l. in_stay_minutes l > window_minutes l) (req_locations r)) @
         (if lower > close then [split_day_bound_suggestion lower] else []) @
         (if minutes start > latest
          then start_earlier_bound_suggestion start latest #
            (if policy = Fixed \<or> policy = Latest then [policy_suggestion policy] else [])
          else []))"

section \<open>Suggestions from the error\<close>

definition routing_suggestions :: "routing_error \<Rightarrow> suggestion list" where
  "routing_suggestions e =
     (let retry = [new_suggestion RetryRouting Heuristic
        ''Routing failed before optimization; retry after the provider recovers.''] in
      case e of ProviderFailed _ \<Rightarrow> retry | MatrixBuild _ _ _ _ _ _ _ \<Rightarrow> retry | _ \<Rightarrow> [])"

definition violation_stay_suggestion :: "window_violation \<Rightarrow> suggestion list" where
  "violation_stay_suggestion v =
     (if violation_service_start_time v \<le> close_time v \<and>
         current_stay_minutes v > suggested_max_stay_minutes v
      then [(new_suggestion ReduceStayTime Exact
          ''This is the maximum stay that lets the evaluated route finish service by closing time.'')
        \<lparr>suggestion_location := Some (violation_location_id v),
         current_value := Some (JsonNumber (current_stay_minutes v)),
         suggested_value := Some (JsonNumber (suggested_max_stay_minutes v)),
         current_minutes := Some (current_stay_minutes v),
         suggested_max_minutes := Some (suggested_max_stay_minutes v)\<rparr>]
      else [])"

definition violation_shift :: "window_violation \<Rightarrow> u32" where
  "violation_shift v = minutes (required_departure v) - minutes (close_time v)"

text \<open>\<open>checked_sub\<close>, then the conversions to \<open>u16\<close> and to a time of day.\<close>

definition time_before :: "time_of_day \<Rightarrow> u32 \<Rightarrow> time_of_day option" where
  "time_before t d =
     (if minutes t < d then None
      else if minutes t - d \<ge> 2 ^ 16 then None
      else case from_minutes (minutes t - d) of Inl _ \<Rightarrow> None | Inr t' \<Rightarrow> Some t')"

definition violation_move_suggestion :: "window_violation \<Rightarrow> suggestion list" where
  "violation_move_suggestion v =
     (case time_before (violation_service_start_time v) (violation_shift v) of
        None \<Rightarrow> []
      | Some latest \<Rightarrow>
          if \<not> is_start v \<and> \<not> is_destination v \<and> violation_service_start_time v > latest
          then [(new_suggestion MoveLocationEarlier Exact
              ''Keeping the requested stay requires this location's service to start no later than the suggested time.'')
            \<lparr>suggestion_location := Some (violation_location_id v),
             current_value := Some (JsonString (time_to_string (violation_service_start_time v))),
             suggested_value := Some (JsonString (time_to_string latest)),
             required_shift_minutes := Some (violation_shift v)\<rparr>]
          else [])"

definition route_shift :: "window_violation \<Rightarrow> u32" where
  "route_shift v = saturating_add_u32 (violation_shift v) (total_wait_minutes_before_violation v)"

definition violation_start_suggestion :: "window_violation \<Rightarrow> suggestion list" where
  "violation_start_suggestion v =
     (if is_destination v
      then (case time_before (violation_selected_start_time v) (route_shift v) of
          None \<Rightarrow> []
        | Some suggested \<Rightarrow> [(new_suggestion StartEarlier Exact
            ''Shifting the complete evaluated route earlier by this amount lets the destination service finish by closing time.'')
          \<lparr>current_value := Some (JsonString (time_to_string (violation_selected_start_time v))),
           suggested_value := Some (JsonString (time_to_string suggested)),
           required_shift_minutes := Some (route_shift v),
           suggested_latest_start := Some suggested\<rparr>])
      else [])"

definition schedule_suggestions :: "schedule_error \<Rightarrow> suggestion list" where
  "schedule_suggestions e = (case e of
     TimeWindowViolation v \<Rightarrow> violation_stay_suggestion v @ violation_move_suggestion v @ violation_start_suggestion v
   | _ \<Rightarrow> [])"

section \<open>Suggestions from probes\<close>

definition travel_mode_str :: "travel_mode \<Rightarrow> string" where
  "travel_mode_str mode = (case mode of
     Transit \<Rightarrow> ''TRANSIT'' | Driving \<Rightarrow> ''DRIVING'' | Walking \<Rightarrow> ''WALKING'' | Bicycling \<Rightarrow> ''BICYCLING'')"

definition change_travel_mode_suggestion ::
  "travel_mode \<Rightarrow> travel_mode \<Rightarrow> (string \<times> string) option \<Rightarrow> suggestion" where
  "change_travel_mode_suggestion current suggested failed =
     (let g = (new_suggestion ChangeTravelMode Heuristic
            ''A routing probe completed successfully with this alternative travel mode.'')
          \<lparr>current_value := Some (JsonString (travel_mode_str current)),
           suggested_value := Some (JsonString (travel_mode_str suggested))\<rparr>
      in case failed of None \<Rightarrow> g | Some (a, b) \<Rightarrow> g\<lparr>from_location := Some a, to_location := Some b\<rparr>)"

definition remove_location_suggestion :: "string \<Rightarrow> suggestion" where
  "remove_location_suggestion location = (new_suggestion RemoveLocation Heuristic
       ''A bounded feasibility probe found a feasible route after removing this location.'')
     \<lparr>suggestion_location := Some location, current_value := Some (JsonBool True),
      suggested_value := Some (JsonBool False)\<rparr>"

definition split_day_probe_suggestion :: "string \<Rightarrow> suggestion" where
  "split_day_probe_suggestion location = (new_suggestion SplitDay Heuristic
       ''A bounded probe found that moving at least one location to another day leaves a feasible single-day route.'')
     \<lparr>suggestion_location := Some location, current_value := Some (JsonObject [(''days'', 1)]),
      suggested_value := Some (JsonObject [(''days'', 2)])\<rparr>"

section \<open>From an error of the service\<close>

definition start_policy_failure_detail :: "optimize_request option \<Rightarrow> failure_detail option" where
  "start_policy_failure_detail request =
     (case request of
        None \<Rightarrow> None
      | Some r \<Rightarrow>
          if request_start_policy r \<noteq> Fixed \<and> request_start_policy r \<noteq> Latest then None
          else let gs = no_feasible_suggestions r in
            if (\<exists>g\<in>set gs. suggestion_type g = StartEarlier) \<and>
               \<not> (\<exists>g\<in>set gs. suggestion_type g = ReduceStayTime \<and> suggestion_confidence g = Exact)
            then Some (StartPolicyInfeasible (request_start_policy r) (req_start_time r))
            else None)"

definition service_failure_detail :: "service_error \<Rightarrow> optimize_request option \<Rightarrow> failure_detail" where
  "service_failure_detail e request = (case e of
     ServiceCancelled \<Rightarrow> DetailCancelled
   | InvalidRequest _ \<Rightarrow> DetailInvalidRequest
   | RoutingFailed re \<Rightarrow> (case re of
         ProviderResolution _ \<Rightarrow> DetailProviderResolution
       | ProviderNotConfigured _ _ \<Rightarrow> DetailProviderNotConfigured
       | UnsupportedProviderCapability _ _ \<Rightarrow> DetailUnsupportedCapability
       | MatrixBuild _ _ _ _ from to _ \<Rightarrow> RoutingPairFailed from to
       | _ \<Rightarrow> RoutingUnavailable)
   | SolverFailed se \<Rightarrow>
       if se = NoFeasibleRoute
       then (case start_policy_failure_detail request of None \<Rightarrow> DetailNoFeasibleRoute | Some d \<Rightarrow> d)
       else Internal
   | ScheduleFailed ce \<Rightarrow> (case ce of
         TimeWindowViolation v \<Rightarrow>
           (case if is_destination v then start_policy_failure_detail request else None of
              Some d \<Rightarrow> d
            | None \<Rightarrow> DetailTimeWindowViolation (violation_location_id v) (violation_arrival_time v)
                (violation_service_start_time v) (required_departure v) (close_time v) (current_stay_minutes v))
       | OutsideSingleDay \<Rightarrow> DetailOutsideSingleDay
       | _ \<Rightarrow> Internal))"

definition add_unless_duplicate :: "suggestion \<Rightarrow> suggestion list \<Rightarrow> suggestion list" where
  "add_unless_duplicate g gs =
     (if \<exists>h\<in>set gs. suggestion_type h = suggestion_type g \<and> suggestion_location h = suggestion_location g
      then gs else gs @ [g])"

definition service_suggestions :: "service_error \<Rightarrow> optimize_request option \<Rightarrow> suggestion list" where
  "service_suggestions e request = (case e of
     RoutingFailed re \<Rightarrow> routing_suggestions re
   | SolverFailed se \<Rightarrow>
       if se = NoFeasibleRoute
       then (case request of None \<Rightarrow> [] | Some r \<Rightarrow> no_feasible_suggestions r)
       else []
   | ScheduleFailed ce \<Rightarrow>
       let gs = schedule_suggestions ce in
       (case (ce, request) of
          (OutsideSingleDay, Some r) \<Rightarrow> fold add_unless_duplicate (no_feasible_suggestions r) gs
        | (TimeWindowViolation _, Some r) \<Rightarrow> fold add_unless_duplicate (no_feasible_suggestions r) gs
        | _ \<Rightarrow> gs)
   | _ \<Rightarrow> [])"

end
