(* ===== verification/Failure_Facts.thy ===== *)
theory Failure_Facts
  imports Failure Schedule "HOL-Library.Multiset"
begin

text \<open>
  What the suggestions of \<open>src/failure.rs\<close> are worth. The duration lower bound is one for every
  order that visits all locations, so the suggestions made from it name necessary changes; with
  optional locations it is not, and the suggestion to start earlier that is called exact does not
  always help. The ranking keeps the best suggestion of every kind it has room for.
\<close>

section \<open>Ranking\<close>

lemma pick_subset: "set (pick_suggestions taken room gs) \<subseteq> set gs"
  by (induction taken room gs rule: pick_suggestions.induct) auto

lemma pick_fresh: "conflict_key ` set (pick_suggestions taken room gs) \<inter> taken = {}"
  by (induction taken room gs rule: pick_suggestions.induct) auto

lemma pick_distinct: "distinct (map conflict_key (pick_suggestions taken room gs))"
proof (induction taken room gs rule: pick_suggestions.induct)
  case (2 taken room g gs)
  then show ?case using pick_fresh [of "insert (conflict_key g) taken" "room - 1" gs] by auto
qed simp

lemma pick_length: "0 < room \<Longrightarrow> length (pick_suggestions taken room gs) \<le> room"
  by (induction taken room gs rule: pick_suggestions.induct) auto

lemma pick_complete:
  "0 < room \<Longrightarrow> length (pick_suggestions taken room gs) \<noteq> room \<Longrightarrow>
    conflict_key ` set gs \<subseteq> taken \<union> conflict_key ` set (pick_suggestions taken room gs)"
proof (induction taken room gs rule: pick_suggestions.induct)
  case (2 taken room g gs)
  show ?case
  proof (cases "conflict_key g \<in> taken")
    case True
    then show ?thesis using "2.IH"(1) "2.prems" by auto
  next
    case False
    then have "room \<noteq> 1" using "2.prems"(2) by auto
    then have more: "room \<noteq> 1" "length (pick_suggestions (insert (conflict_key g) taken) (room - 1) gs) \<noteq> room - 1"
      using "2.prems" False by auto
    have "conflict_key ` set gs \<subseteq> insert (conflict_key g) taken \<union>
        conflict_key ` set (pick_suggestions (insert (conflict_key g) taken) (room - 1) gs)"
      using "2.IH"(2) [OF False more(1) _ more(2)] more(1) "2.prems"(1) by simp
    then show ?thesis using False more(1) by auto
  qed
qed simp

lemma pick_sorted:
  assumes "sorted_wrt R gs"
  shows "sorted_wrt R (pick_suggestions taken room gs)"
  using assms pick_subset
  by (induction taken room gs rule: pick_suggestions.induct) (auto, blast)

text \<open>What was passed over has a rival that was picked before it.\<close>

lemma pick_first:
  assumes "sorted_wrt R gs" and "\<And>g. R g g" and "g \<in> set gs" and "h \<in> set (pick_suggestions taken room gs)"
    and "conflict_key h = conflict_key g" and "conflict_key g \<notin> taken"
  shows "R h g"
  using assms
proof (induction taken room gs rule: pick_suggestions.induct)
  case (2 taken room x xs)
  show ?case
  proof (cases "conflict_key x \<in> taken")
    case True
    then show ?thesis using "2.IH"(1) "2.prems" by auto
  next
    case False
    show ?thesis
    proof (cases "h = x")
      case True
      then show ?thesis using "2.prems"(1-3) by auto
    next
      case other: False
      then have later: "room \<noteq> 1" "h \<in> set (pick_suggestions (insert (conflict_key x) taken) (room - 1) xs)"
        using "2.prems"(4) False by (auto split: if_splits)
      then have "conflict_key h \<noteq> conflict_key x" using pick_fresh by fastforce
      then show ?thesis using "2.IH"(2) [OF False later(1)] "2.prems" later(2) by auto
    qed
  qed
qed simp

definition ranked_before :: "suggestion \<Rightarrow> suggestion \<Rightarrow> bool" where
  "ranked_before g h \<longleftrightarrow> suggestion_score g \<le> suggestion_score h"

lemma ranked_sorted:
  "sorted_wrt ranked_before (map snd (sort_key (\<lambda>(index, g). ranking_key g index) (enumerate 0 gs)))"
proof -
  let ?key = "\<lambda>(index, g). ranking_key g index"
  have "sorted (map ?key (sort_key ?key (enumerate 0 gs)))" by simp
  then have "sorted_wrt (\<lambda>a b. ?key a \<le> ?key b) (sort_key ?key (enumerate 0 gs))"
    by (simp only: sorted_map)
  then have "sorted_wrt (\<lambda>a b. ranked_before (snd a) (snd b)) (sort_key ?key (enumerate 0 gs))"
    by (rule sorted_wrt_mono_rel [rotated]) (auto simp: ranked_before_def ranking_key_def)
  then show ?thesis by (simp add: sorted_wrt_map)
qed

lemma ranked_set: "set (map snd (sort_key (\<lambda>(index, g). ranking_key g index) (enumerate 0 gs))) = set gs"
proof -
  have "snd ` set (enumerate 0 gs) = set gs" by (metis list.set_map map_snd_enumerate)
  then show ?thesis by simp
qed

section \<open>The duration of a walk\<close>

definition arcs :: "travel_time_matrix \<Rightarrow> usize list \<Rightarrow> nat list" where
  "arcs m order = map2 (\<lambda>a b. the (travel_minutes m a b)) order (tl order)"

lemma walk_duration:
  assumes "walk p m order (t, r, w) = Some (f, r', w')"
  shows "r' = r + sum_list (arcs m order) \<and> w \<le> w' \<and>
    f = t + sum_list (arcs m order) + (w' - w) + sum_list (map (\<lambda>k. stay_minutes (locations p ! k)) (tl order)) \<and>
    (\<forall>k<length order - 1. travel_minutes m (order ! k) (order ! Suc k) \<noteq> None)"
  using assms
proof (induction order arbitrary: t r w rule: induct_list012)
  case (3 a b rest)
  from "3.prems" obtain d wb fb where d: "travel_minutes m a b = Some d"
    and s: "serve (locations p ! b) (t + d) = Some (wb, fb)"
    and rest: "walk p m (b # rest) (fb, r + d, w + wb) = Some (f, r', w')"
    by (auto simp: walk_step)
  note ih = "3.IH"(2) [OF rest]
  have fb: "fb = t + d + wb + stay_minutes (locations p ! b)"
    using s by (auto simp: serve_Some)
  have "travel_minutes m ((a # b # rest) ! k) ((a # b # rest) ! Suc k) \<noteq> None"
    if "k < length (a # b # rest) - 1" for k
    using that ih d by (cases k) auto
  then show ?case using ih fb d by (auto simp: arcs_def)
qed (auto simp: arcs_def)

lemma cheapest_le: "Some v \<in> set cells \<Longrightarrow> cheapest cells \<le> v"
proof -
  have fold_min: "fold min cs c \<le> x" if "x \<in> set (c # cs)" for cs and c x :: nat
    unfolding Min.set_eq_fold [symmetric] using that by (intro Min_le) simp_all
  assume "Some v \<in> set cells"
  then have "v \<in> set (List.map_filter id cells)" by (force simp: List.map_filter_def)
  then show ?thesis by (cases "List.map_filter id cells") (simp_all add: cheapest_def fold_min)
qed

lemma fold_saturating: "fold (\<lambda>x acc. saturating_add_u32 acc (f x)) xs a \<le> a + sum_list (map f xs)"
proof (induction xs arbitrary: a)
  case (Cons x xs)
  have "fold (\<lambda>x acc. saturating_add_u32 acc (f x)) xs (saturating_add_u32 a (f x)) \<le>
      saturating_add_u32 a (f x) + sum_list (map f xs)" by (rule Cons.IH)
  also have "\<dots> \<le> a + f x + sum_list (map f xs)" by (simp add: saturating_add_u32_def)
  finally show ?case by simp
qed simp

lemma sum_list_permutation:
  fixes f :: "'a \<Rightarrow> nat"
  assumes "distinct xs" and "distinct ys" and "set xs = set ys"
  shows "sum_list (map f xs) = sum_list (map f ys)"
  by (metis assms sum_list_distinct_conv_sum_set)

lemma zip_tl: "map fst (zip order (tl order)) = butlast order" "map snd (zip order (tl order)) = tl order"
  by (induction order rule: induct_list012) (auto simp: butlast_conv_take)

lemma arcs_bound:
  fixes c :: "usize \<Rightarrow> nat"
  assumes "\<And>a b. (a, b) \<in> set (zip order (tl order)) \<Longrightarrow> c (proj (a, b)) \<le> the (travel_minutes m a b)"
  shows "sum_list (map c (map proj (zip order (tl order)))) \<le> sum_list (arcs m order)"
  unfolding arcs_def map_map using assms by (intro sum_list_mono) auto

section \<open>The lower bound\<close>

lemma bound_sums:
  fixes c d :: "usize \<Rightarrow> nat"
  assumes "distinct order" and "set order = {..<n}" and "hd order = 0" and "last order = n - 1" and "order \<noteq> []"
  shows "sum_list (map c (butlast order)) = sum_list (map c [0..<n - 1])"
    and "sum_list (map d (tl order)) = sum_list (map d [1..<n])"
    and "sum_list (map d order) = sum_list (map d [0..<n])"
proof -
  have b: "butlast order @ [n - 1] = order"
    using append_butlast_last_id [OF assms(5)] by (simp only: assms(4))
  have t: "0 # tl order = order"
    using list.collapse [OF assms(5)] by (simp only: assms(3))
  have db: "distinct (butlast order @ [n - 1])" "set (butlast order @ [n - 1]) = {..<n}"
    and dt: "distinct (0 # tl order)" "set (0 # tl order) = {..<n}"
    by (simp_all only: b t assms(1,2))
  have "set (butlast order) = {..<n} - {n - 1}" using db by force
  also have "\<dots> = set [0..<n - 1]" by auto
  finally show "sum_list (map c (butlast order)) = sum_list (map c [0..<n - 1])"
    using db(1) by (intro sum_list_permutation) simp_all
  have "set (tl order) = {..<n} - {0}" using dt by force
  also have "\<dots> = set [1..<n]" by auto
  finally show "sum_list (map d (tl order)) = sum_list (map d [1..<n])"
    using dt(1) by (intro sum_list_permutation) simp_all
  show "sum_list (map d order) = sum_list (map d [0..<n])"
    using assms(1,2) by (intro sum_list_permutation) (simp_all add: atLeast0LessThan)
qed

lemma zip_tl_arc:
  assumes "(a, b) \<in> set (zip order (tl order))" and "distinct order"
  shows "a \<noteq> b" "a \<in> set order" "b \<in> set order"
    "\<exists>k. k < length order - 1 \<and> a = order ! k \<and> b = order ! Suc k"
proof -
  obtain k where k: "k < length (tl order)" "a = order ! k" "b = tl order ! k"
    using assms(1) by (auto simp: set_zip)
  then have k': "Suc k < length order" "b = order ! Suc k" by (auto simp: nth_tl)
  then show "\<exists>k. k < length order - 1 \<and> a = order ! k \<and> b = order ! Suc k" using k by auto
  show "a \<noteq> b" using k k' assms(2) nth_eq_iff_index_eq by fastforce
  show "a \<in> set order" using k by simp
  show "b \<in> set order" unfolding k'(2) using k'(1) by (rule nth_mem)
qed

lemma arc_bounds:
  assumes sq: "wf_matrix m" "matrix_size m = n" and order: "distinct order" "set order = {..<n}"
    and arcs: "\<forall>k<length order - 1. travel_minutes m (order ! k) (order ! Suc k) \<noteq> None"
    and arc: "(a, b) \<in> set (zip order (tl order))"
  shows "cheapest (map (\<lambda>to. rows m ! a ! to) (filter (\<lambda>to. to \<noteq> a) [0..<n])) \<le> the (travel_minutes m a b)"
    and "cheapest (map (\<lambda>from. rows m ! from ! b) (filter (\<lambda>from. from \<noteq> b) [0..<n])) \<le> the (travel_minutes m a b)"
proof -
  note ab = zip_tl_arc [OF arc order(1)]
  then obtain v where v: "travel_minutes m a b = Some v" using arcs by fastforce
  have lt: "a < n" "b < n" using ab(2,3) order(2) by auto
  then have "rows m ! a ! b = Some v" using v wf_matrix_cell [OF sq(1)] sq(2) by metis
  then show "cheapest (map (\<lambda>to. rows m ! a ! to) (filter (\<lambda>to. to \<noteq> a) [0..<n])) \<le> the (travel_minutes m a b)"
    and "cheapest (map (\<lambda>from. rows m ! from ! b) (filter (\<lambda>from. from \<noteq> b) [0..<n])) \<le> the (travel_minutes m a b)"
    using lt ab(1) v by (auto intro!: cheapest_le simp: image_iff) (metis, metis)
qed

lemma travel_bound:
  assumes sq: "wf_matrix m" "matrix_size m = n" and order: "distinct order" "set order = {..<n}" "hd order = 0"
      "last order = n - 1" "order \<noteq> []"
    and arcs: "\<forall>k<length order - 1. travel_minutes m (order ! k) (order ! Suc k) \<noteq> None"
  shows "max (outgoing_bound (rows m)) (incoming_bound (rows m)) \<le> sum_list (arcs m order)"
proof -
  have n: "length (rows m) = n" using sq(2) by (simp add: matrix_size_def)
  let ?out = "\<lambda>from. cheapest (map (\<lambda>to. rows m ! from ! to) (filter (\<lambda>to. to \<noteq> from) [0..<n]))"
  let ?in = "\<lambda>to. cheapest (map (\<lambda>from. rows m ! from ! to) (filter (\<lambda>from. from \<noteq> to) [0..<n]))"
  have "outgoing_bound (rows m) \<le> sum_list (map ?out [0..<n - 1])"
    using fold_saturating [of ?out "[0..<n - 1]" 0] by (simp add: outgoing_bound_def n Let_def)
  also have "\<dots> = sum_list (map ?out (map fst (zip order (tl order))))"
    unfolding zip_tl by (rule bound_sums(1) [OF order, symmetric])
  also have "\<dots> \<le> sum_list (arcs m order)"
    using arc_bounds(1) [OF sq order(1,2) arcs] by (intro arcs_bound) simp
  finally have out: "outgoing_bound (rows m) \<le> sum_list (arcs m order)" .
  have "incoming_bound (rows m) \<le> sum_list (map ?in [1..<n])"
    using fold_saturating [of ?in "[1..<n]" 0] by (simp add: incoming_bound_def n Let_def)
  also have "\<dots> = sum_list (map ?in (map snd (zip order (tl order))))"
    unfolding zip_tl by (rule bound_sums(2) [OF order, symmetric])
  also have "\<dots> \<le> sum_list (arcs m order)"
    using arc_bounds(2) [OF sq order(1,2) arcs] by (intro arcs_bound) simp
  finally show ?thesis using out by simp
qed

lemma walk_last_closes:
  assumes "walk p m (order @ [b]) s0 = Some (f, r, w)" and "order \<noteq> []"
  shows "f \<le> minutes (window_close (time_window (locations p ! b)))"
proof -
  obtain xs a where xs: "order = xs @ [a]" using assms(2) by (metis rev_exhaust)
  have "walk p m (xs @ [a, b]) s0 = Some (f, r, w)" using assms(1) xs by simp
  then obtain t r1 w1 where "walk p m [a, b] (t, r1, w1) = Some (f, r, w)" unfolding walk_snoc by auto
  then show ?thesis by (auto simp: walk_step serve_Some)
qed

text \<open>A request whose matrix is known is bounded by it; otherwise only the stays count.\<close>

lemma lower_bound_walk:
  assumes acc: "acceptable cal r" and all: "request_visit_policy r = AllRequired"
    and m: "wf_matrix m" "matrix_size m = length (req_locations r)"
    and known: "request_rows r = None \<or> request_rows r = Some (rows m)"
    and order: "valid_order (problem_of r) order"
    and walk: "route_walk (problem_of r) m order s = Some (f, travel, wait)"
  shows "s + minimum_duration_lower_bound r \<le> f" and "f \<le> end_close r"
proof -
  let ?p = "problem_of r" and ?n = "length (req_locations r)"
  have n: "2 \<le> ?n" using acc by (simp add: acceptable_def)
  have o: "distinct order" "set order = {..<?n}" "hd order = 0" "last order = ?n - 1" "order \<noteq> []"
    using order all by (simp_all add: valid_order_def Let_def)
  obtain w0 t where serve: "serve (locations ?p ! 0) s = Some (w0, t)"
    and rest: "walk ?p m order (t, 0, w0) = Some (f, travel, wait)"
    using walk by (auto simp: route_walk_def split: option.splits)
  note duration = walk_duration [OF rest]
  let ?stay = "\<lambda>k. stay_minutes (locations ?p ! k)"
  have first: "s + ?stay 0 \<le> t" using serve by (auto simp: serve_Some)
  have "order = 0 # tl order" using list.collapse [OF o(5)] o(3) by simp
  then have "sum_list (map ?stay order) = ?stay 0 + sum_list (map ?stay (tl order))"
    by (metis list.simps(9) sum_list.Cons)
  then have stays: "s + sum_list (arcs m order) + sum_list (map ?stay [0..<?n]) \<le> f"
    using duration first bound_sums(3) [OF o, of ?stay] by linarith
  have "map ?stay [0..<?n] = map in_stay_minutes (req_locations r)"
    by (rule nth_equalityI) (simp_all add: problem_of_nth location_of_def)
  then have stay: "total_stay r \<le> sum_list (map ?stay [0..<?n])"
    using fold_saturating [of in_stay_minutes "req_locations r" 0] by (simp add: total_stay_def)
  have travel: "max (outgoing_bound (rows m)) (incoming_bound (rows m)) \<le> sum_list (arcs m order)"
    by (rule travel_bound [OF m o]) (use duration in simp)
  show "s + minimum_duration_lower_bound r \<le> f"
    using known stays stay travel
    by (auto simp: minimum_duration_lower_bound_def saturating_add_u32_def split: option.split)
  have ends: "butlast order @ [?n - 1] = order" using append_butlast_last_id [OF o(5)] o(4) by simp
  have "length order = ?n" using distinct_card [OF o(1)] o(2) by simp
  then have "length (butlast order) \<noteq> 0" using n by simp
  then have "butlast order \<noteq> []" by blast
  then have "f \<le> minutes (window_close (time_window (locations ?p ! (?n - 1))))"
    using walk_last_closes [of ?p m "butlast order" "?n - 1" "(t, 0, w0)" f travel wait] rest ends by simp
  then show "f \<le> end_close r"
    using n by (auto simp: end_close_def problem_of_nth location_of_def last_conv_nth)
qed

lemma walk_serves:
  assumes "walk p m order s = Some s'" and "k \<in> set (tl order)"
  shows "\<exists>a w f. serve (locations p ! k) a = Some (w, f)"
  using assms
proof (induction order arbitrary: s rule: induct_list012)
  case (3 a b rest)
  obtain t r w where s: "s = (t, r, w)" by (cases s)
  show ?case using "3.prems" "3.IH"(2) unfolding s by (auto simp: walk_step)
qed auto

lemma route_serves:
  assumes "route_walk p m order s = Some x" and "k \<in> set order" and "hd order = 0"
  shows "stay_minutes (locations p ! k) \<le>
    minutes (window_close (time_window (locations p ! k))) - minutes (window_open (time_window (locations p ! k)))"
proof -
  have "order = 0 # tl order" using assms(2,3) by (cases order) auto
  then have "k = 0 \<or> k \<in> set (tl order)" using assms(2) by (metis set_ConsD)
  moreover obtain w0 t where start: "serve (locations p ! 0) s = Some (w0, t)"
    and rest: "walk p m order (t, 0, w0) = Some x"
    using assms(1) by (auto simp: route_walk_def split: option.splits)
  ultimately have "\<exists>a w f. serve (locations p ! k) a = Some (w, f)"
    using walk_serves [OF rest] by blast
  then show ?thesis by (auto simp: serve_Some)
qed

lemma no_feasible_cases:
  assumes "g \<in> set (no_feasible_suggestions r)"
  obtains l where "l \<in> set (req_locations r)" "in_stay_minutes l > window_minutes l"
  | "minimum_duration_lower_bound r > end_close r"
  | "minutes (request_start_time r) > end_close r - minimum_duration_lower_bound r"
    "g = start_earlier_bound_suggestion (request_start_time r) (end_close r - minimum_duration_lower_bound r)"
  | "g = policy_suggestion (request_start_policy r)"
  using assms by (auto simp: no_feasible_suggestions_def Let_def split: if_splits)

section \<open>Properties\<close>

text \<open>
  The ranking returns at most the allowed number of the given suggestions, best first and no
  two in conflict; each is a best one of those it conflicts with, and unless the list is full
  every kind of change that was suggested is still there.
\<close>

lemma ranking_keeps_best:
  "let out = rank_failure_suggestions gs maximum in
   length out \<le> maximum \<and> set out \<subseteq> set gs \<and> distinct (map conflict_key out) \<and>
   sorted (map suggestion_score out) \<and>
   map suggestion_score out = map (\<lambda>h. Min (suggestion_score ` {g \<in> set gs. conflict_key g = conflict_key h})) out \<and>
   (length out = maximum \<or> conflict_key ` set out = conflict_key ` set gs)"
proof (cases "maximum = 0")
  case False
  let ?ranked = "map snd (sort_key (\<lambda>(index, g). ranking_key g index) (enumerate 0 gs))"
  let ?out = "pick_suggestions {} maximum ?ranked"
  have sub: "set ?out \<subseteq> set gs" using pick_subset ranked_set by metis
  have sorted: "sorted_wrt ranked_before ?out" by (rule pick_sorted [OF ranked_sorted])
  have best: "suggestion_score h \<le> suggestion_score g"
    if "h \<in> set ?out" "g \<in> set gs" "conflict_key g = conflict_key h" for g h
    using pick_first [OF ranked_sorted, of g gs h "{}" maximum] that
    unfolding ranked_set by (simp add: ranked_before_def)
  have "suggestion_score h = Min (suggestion_score ` {g \<in> set gs. conflict_key g = conflict_key h})"
    if "h \<in> set ?out" for h
    using that sub best [OF that] by (intro Min_eqI [symmetric]) auto
  moreover have "conflict_key ` set ?out = conflict_key ` set gs" if "length ?out \<noteq> maximum"
    using pick_complete [of maximum "{}" ?ranked] that False sub unfolding ranked_set by auto
  moreover have "sorted (map suggestion_score ?out)"
    using sorted by (simp add: sorted_map ranked_before_def [abs_def])
  ultimately show ?thesis
    using False sub pick_length [of maximum "{}" ?ranked] pick_distinct [of "{}" maximum ?ranked]
    by (auto simp: rank_failure_suggestions_def Let_def)
qed (simp add: rank_failure_suggestions_def)

text \<open>
  C19. For an accepted request that must visit every location, what is suggested from the request
  alone is necessary: if some order can be walked at all, from any start, in a matrix that is the
  supplied one if there is one, then the suggestions concern the
  start only, and that start is no later than the latest start they name. A request that allows
  partial routes is left out: there the bounds count locations that could be skipped.
\<close>

theorem request_suggestions_necessary:
  assumes "acceptable cal r" and "request_visit_policy r = AllRequired"
    and "wf_matrix m" and "matrix_size m = length (req_locations r)"
    and "request_rows r = None \<or> request_rows r = Some (rows m)"
    and "valid_order (problem_of r) order" and "route_walk (problem_of r) m order s = Some x"
    and "g \<in> set (no_feasible_suggestions r)" and "typed_request r"
  shows "suggestion_type g \<in> {StartEarlier, ChangeStartPolicy} \<and>
    (case suggested_latest_start g of None \<Rightarrow> True | Some t \<Rightarrow> s \<le> minutes t)"
proof -
  obtain f travel wait where x: "x = (f, travel, wait)" by (cases x)
  note bound = lower_bound_walk [OF assms(1-6) assms(7) [unfolded x]]
  have n: "2 \<le> length (req_locations r)" using assms(1) by (simp add: acceptable_def)
  have o: "set order = {..<length (req_locations r)}" "hd order = 0"
    using assms(2,6) by (simp_all add: valid_order_def Let_def)
  show ?thesis
  proof (rule no_feasible_cases [OF assms(8)])
    fix l
    assume l: "l \<in> set (req_locations r)" "in_stay_minutes l > window_minutes l"
    then obtain k where k: "k < length (req_locations r)" "req_locations r ! k = l" by (auto simp: in_set_conv_nth)
    then show ?thesis
      using route_serves [OF assms(7), of k] o l(2) by (simp add: problem_of_nth location_of_def window_minutes_def)
  next
    assume "minimum_duration_lower_bound r > end_close r"
    then show ?thesis using bound by simp
  next
    let ?latest = "end_close r - minimum_duration_lower_bound r"
    assume late: "minutes (request_start_time r) > ?latest" "g = start_earlier_bound_suggestion (request_start_time r) ?latest"
    have "s \<le> ?latest" using bound by linarith
    moreover have "end_close r < 1440"
      using assms(9) n by (auto simp: end_close_def typed_request_def wf_time_def minutes_per_day_def)
    ultimately show ?thesis
      using late(2) by (auto simp: start_earlier_bound_suggestion_def new_suggestion_def Let_def as_u16_def)
  next
    assume "g = policy_suggestion (request_start_policy r)"
    then show ?thesis by (simp add: policy_suggestion_def new_suggestion_def)
  qed
qed

lemma readme_later_acceptable:
  "acceptable cal ((readme_request Latest)\<lparr>req_start_time := Some (TimeOfDay 1190)\<rparr>)"
  using readme_request_acceptable [of cal Latest]
  by (simp add: acceptable_def acceptable_location_def has_supplied_matrix_def request_start_policy_def
      request_visit_policy_def endpoint_index_def requested_routing_departure_def departure_day_def readme_request_def is_ok_iff)

theorem request_suggestions_necessary_witness:
  "suggestion_type (policy_suggestion Latest) \<in> {StartEarlier, ChangeStartPolicy}"
proof -
  let ?r = "(readme_request Latest)\<lparr>req_start_time := Some (TimeOfDay 1190)\<rparr>"
  have rows: "request_rows ?r = Some (rows readme_matrix)"
    by (simp add: request_rows_def readme_request_def readme_matrix_def)
  have p: "locations (problem_of ?r) = locations (readme_problem Latest)"
    "visit_policy (problem_of ?r) = AllRequired"
    by (simp_all add: readme_request_problem [symmetric] problem_of_def readme_request_def location_of_def
        endpoint_index_def request_visit_policy_def)
  have order: "valid_order (problem_of ?r) [0, 2, 1, 3]"
    using readme_valid [of Latest] by (simp add: valid_order_def p)
  have walk: "route_walk (problem_of ?r) readme_matrix [0, 2, 1, 3] 605 = Some (730, 35, 0)"
    using readme_walk [of Latest]
    by (simp add: readme_defs p route_walk_def walk_step serve_def travel_minutes_def get_def Let_def)
  have policy: "policy_suggestion Latest \<in> set (no_feasible_suggestions ?r)"
  proof -
    have "total_stay ?r = 90" by (simp add: total_stay_def readme_request_defs saturating_add_u32_def)
    then have "90 \<le> minimum_duration_lower_bound ?r"
      by (simp add: minimum_duration_lower_bound_def saturating_add_u32_def split: option.split)
    then have "1200 - minimum_duration_lower_bound ?r < 1190" by linarith
    moreover have "end_close ?r = 1200" "request_start_time ?r = TimeOfDay 1190" "request_start_policy ?r = Latest"
      by (simp_all add: end_close_def request_start_time_def request_start_policy_def readme_request_defs)
    ultimately show ?thesis by (simp add: no_feasible_suggestions_def Let_def)
  qed
  have all: "request_visit_policy ?r = AllRequired" "matrix_size readme_matrix = length (req_locations ?r)"
    by (simp_all add: request_visit_policy_def readme_request_defs)
  have m: "wf_matrix readme_matrix" using readme_wf(1) [of Latest] by (simp add: wf_input_def)
  have typed: "typed_request ?r"
    using readme_request_typed [of Latest] by (simp add: typed_request_def readme_request_def wf_time_def)
  show ?thesis
    using request_suggestions_necessary [OF readme_later_acceptable all(1) m all(2) _ order walk policy typed] rows
    by blast
qed

text \<open>A stop that opens late, before a destination that closes soon after.\<close>

definition waiting_location :: "string \<Rightarrow> nat \<Rightarrow> nat \<Rightarrow> location" where
  "waiting_location name opens closes = \<lparr>location_id = name, routing_reference = GooglePlaceId [],
     time_window = \<lparr>window_open = TimeOfDay opens, window_close = TimeOfDay closes\<rparr>,
     stay_minutes = 0, required = True, priority = 1\<rparr>"

definition waiting_problem :: optimization_problem where
  "waiting_problem = \<lparr>locations = [waiting_location ''home'' 0 1430, waiting_location ''shop'' 600 1430,
     waiting_location ''office'' 0 610], start_time = TimeOfDay 500, start_policy = Latest, visit_policy = AllRequired\<rparr>"

definition waiting_matrix :: travel_time_matrix where
  "waiting_matrix = \<lparr>rows = [[Some 0, Some 10, Some 30], [Some 10, Some 0, Some 30], [Some 30, Some 30, Some 0]]\<rparr>"

definition waiting_violation :: "nat \<Rightarrow> nat \<Rightarrow> window_violation" where
  "waiting_violation start waited = \<lparr>violation_location_id = ''office'', violation_arrival_time = TimeOfDay 630,
     violation_service_start_time = TimeOfDay 630, required_departure = TimeOfDay 630, close_time = TimeOfDay 610,
     violation_selected_start_time = TimeOfDay start, total_wait_minutes_before_violation = waited,
     is_start = False, is_destination = True, current_stay_minutes = 0, suggested_max_stay_minutes = 0\<rparr>"

lemmas waiting_defs = waiting_problem_def waiting_matrix_def waiting_location_def

lemma waiting_valid: "validate_solution waiting_problem waiting_matrix \<lparr>visit_order = [0, 1, 2]\<rparr> = Inr ()"
proof -
  have "wf_problem waiting_problem" by (simp add: wf_problem_def wf_location_def wf_window_def wf_time_def waiting_defs
        minutes_per_day_def less_eq_time_of_day_def)
  moreover have "valid_order waiting_problem [0, 1, 2]"
    by (auto simp: valid_order_def waiting_defs less_Suc_eq numeral_eq_Suc)
  ultimately show ?thesis by (simp add: validate_solution_iff waiting_defs matrix_size_def)
qed

lemma waiting_first_edge:
  assumes "start \<le> 580"
  shows "schedule_edge waiting_problem waiting_matrix (TimeOfDay start) 0 1 (TimeOfDay start, 0, 0) =
    Inr ((TimeOfDay 600, 10, 590 - start),
      \<lparr>location_index = 1, arrival_time = TimeOfDay (start + 10), service_start_time = TimeOfDay 600,
       departure_time = Some (TimeOfDay 600), stop_wait_minutes = 590 - start, stop_stay_minutes = 0\<rparr>)"
proof -
  have "time_checked_add (TimeOfDay start) 10 = Some (TimeOfDay (start + 10))"
    "time_checked_add (TimeOfDay 600) 0 = Some (TimeOfDay 600)"
    using assms by (simp_all add: time_checked_add_Some)
  then show ?thesis
    using assms
    by (simp add: schedule_edge_def waiting_defs travel_minutes_def get_def checked_add_u32_def
        saturating_add_u32_def max_def time_order_defs Let_def)
qed

lemma waiting_second_edge:
  assumes "waited < 1440"
  shows "schedule_edge waiting_problem waiting_matrix (TimeOfDay start) 1 2 (TimeOfDay 600, 10, waited) =
    Inl (TimeWindowViolation (waiting_violation start waited))"
proof -
  have "time_checked_add (TimeOfDay 600) 30 = Some (TimeOfDay 630)"
    "time_checked_add (TimeOfDay 630) 0 = Some (TimeOfDay 630)"
    by (simp_all add: time_checked_add_Some)
  then show ?thesis
    using assms
    by (simp add: schedule_edge_def waiting_defs waiting_violation_def travel_minutes_def get_def checked_add_u32_def
        saturating_add_u32_def max_def time_order_defs end_location_index_def Let_def)
qed

lemma waiting_schedule:
  assumes "start \<le> 580" and "0 < start"
  shows "calculate_schedule_from waiting_problem waiting_matrix \<lparr>visit_order = [0, 1, 2]\<rparr> (TimeOfDay start) =
    Inl (TimeWindowViolation (waiting_violation start (590 - start)))"
proof -
  have home: "start_location waiting_problem = waiting_location ''home'' 0 1430"
    by (simp add: start_location_def waiting_problem_def)
  have leave: "time_checked_add (TimeOfDay start) 0 = Some (TimeOfDay start)"
    using assms by (simp add: time_checked_add_Some)
  show ?thesis
    unfolding calculate_schedule_from_def waiting_valid home
    using assms leave waiting_first_edge [OF assms(1)] waiting_second_edge [of "590 - start" start]
    by (simp add: waiting_location_def max_def time_order_defs start_location_index_def schedule_edges.simps(1) Let_def)
qed

text \<open>
  C20. The suggestion to start earlier that is called exact need not help. Here the destination is
  reached too late; the route started as early as the suggestion says waits longer for a stop to
  open and reaches the destination at the same minute.
\<close>

theorem exact_start_suggestion_fails:
  "\<exists>g t. g \<in> set (schedule_suggestions (TimeWindowViolation (waiting_violation 500 90))) \<and>
    suggestion_type g = StartEarlier \<and> suggestion_confidence g = Exact \<and> suggested_latest_start g = Some t \<and>
    calculate_schedule_from waiting_problem waiting_matrix \<lparr>visit_order = [0, 1, 2]\<rparr> (TimeOfDay 500) =
      Inl (TimeWindowViolation (waiting_violation 500 90)) \<and>
    calculate_schedule_from waiting_problem waiting_matrix \<lparr>visit_order = [0, 1, 2]\<rparr> t =
      Inl (TimeWindowViolation (waiting_violation 390 200))"
proof -
  let ?v = "waiting_violation 500 90"
  have shift: "route_shift ?v = 110" by (simp add: route_shift_def violation_shift_def waiting_violation_def saturating_add_u32_def)
  have "time_before (TimeOfDay 500) 110 = Some (TimeOfDay 390)"
    by (simp add: time_before_def from_minutes_def minutes_per_day_def)
  then obtain g where "violation_start_suggestion ?v = [g]" "suggestion_type g = StartEarlier"
    "suggestion_confidence g = Exact" "suggested_latest_start g = Some (TimeOfDay 390)"
    unfolding violation_start_suggestion_def shift by (simp add: waiting_violation_def new_suggestion_def)
  then show ?thesis
    using waiting_schedule [of 500] waiting_schedule [of 390]
    by (intro exI [of _ g] exI [of _ "TimeOfDay 390"]) (simp add: schedule_suggestions_def)
qed

end
