(* ===== verification/Remediation.thy ===== *)
theory Remediation
  imports Failure_Facts Initial Exact_Service
begin

text \<open>
  \<open>src/service/remediation.rs\<close>: the probes behind the suggestions for a failed request, within a
  time budget. The clock and the token enter as the answers of \<open>is_active\<close>, counted; the state
  is the number of answers used and the suggestions so far, and \<open>None\<close> is a panic.
\<close>

record remediation_env =
  remediation :: remediation_config
  cancelled_at_start :: bool
  deadline_fits :: bool
  active :: "nat \<Rightarrow> bool"
  matrix_until :: "location list \<Rightarrow> routing_context \<Rightarrow> routing_error + travel_time_matrix"
  probe_poll :: "usize \<Rightarrow> poll \<Rightarrow> bool"

type_synonym remediation_run = "nat \<times> suggestion list"

definition push_unique :: "suggestion \<Rightarrow> suggestion list \<Rightarrow> suggestion list" where
  "push_unique g gs =
     (if \<exists>h\<in>set gs. suggestion_type h = suggestion_type g \<and> suggestion_location h = suggestion_location g \<and>
           suggested_value h = suggested_value g
      then gs else gs @ [g])"

definition remediation_source :: "('date, 'zone) service_env \<Rightarrow> optimize_request \<Rightarrow> matrix_source option" where
  "remediation_source env r =
     (if use_euclidean_matrix r
      then (case travel_time_rows env (request_travel_mode r) (req_locations r) of
          None \<Rightarrow> None
        | Some rs \<Rightarrow>
            if req_matrix r = None \<and> req_sparse_matrix r = None then Some (DenseRows rs) else None)
      else (case (req_matrix r, req_sparse_matrix r) of
          (Some rs, None) \<Rightarrow> Some (DenseRows rs)
        | (None, Some rs) \<Rightarrow> Some (SparseRows rs)
        | (None, None) \<Rightarrow> Some FromProvider
        | _ \<Rightarrow> None))"

text \<open>
  The conversion meets the expectation of the departure first, with the date and start of the
  request; where it passes, the second departure and the conversions of the removal probes, whose
  requests have the same date and start, pass it too.
\<close>

definition build_remediation_matrix_until :: "('date, 'zone) service_env \<Rightarrow> remediation_env \<Rightarrow>
    optimize_request \<Rightarrow> (service_error + travel_time_matrix) option" where
  "build_remediation_matrix_until env renv r =
     (if conversion_forms (env_calendar env) r = None then None
      else case problem_try_from (env_calendar env) r of
        Inl e \<Rightarrow> Some (Inl (InvalidRequest e))
      | Inr p \<Rightarrow> (case remediation_source env r of
            None \<Rightarrow> None
          | Some source \<Rightarrow> (case routing_departure_time env r of
                Inl e \<Rightarrow> Some (Inl (InvalidRequest e))
              | Inr (departure, zone) \<Rightarrow>
                  let ctx = make_routing_context departure (request_travel_mode r) zone (req_country_code r)
                    (req_route_provider r) in
                  (case build_until (locations p) source (matrix_until renv (locations p) ctx) of
                     Inl e \<Rightarrow> Some (Inl (RoutingFailed e))
                   | Inr m \<Rightarrow> Some (Inr m)))))"

section \<open>Other travel modes\<close>

fun probe_modes :: "('date, 'zone) service_env \<Rightarrow> remediation_env \<Rightarrow> optimize_request \<Rightarrow> (string \<times> string) option \<Rightarrow>
    travel_mode list \<Rightarrow> remediation_run \<Rightarrow> remediation_run option" where
  "probe_modes env renv r failed [] run = Some run"
| "probe_modes env renv r failed (mode # modes) (k, gs) =
     (let current = request_travel_mode r in
      if mode = current then probe_modes env renv r failed modes (k, gs)
      else if \<not> active renv k then probe_modes env renv r failed modes (k + 1, gs)
      else (case build_remediation_matrix_until env renv (r\<lparr>req_travel_mode := Some mode\<rparr>) of
          None \<Rightarrow> None
        | Some built \<Rightarrow> probe_modes env renv r failed modes (k + 1,
            if is_ok built then push_unique (change_travel_mode_suggestion current mode failed) gs else gs)))"

definition probe_alternative_modes :: "('date, 'zone) service_env \<Rightarrow> remediation_env \<Rightarrow> optimize_request \<Rightarrow>
    (string \<times> string) option \<Rightarrow> remediation_run \<Rightarrow> remediation_run option" where
  "probe_alternative_modes env renv r failed run =
     probe_modes env renv r failed [Transit, Driving, Walking, Bicycling] run"

section \<open>Removed locations\<close>

definition remove_nth :: "nat \<Rightarrow> 'a list \<Rightarrow> 'a list" where
  "remove_nth k xs = take k xs @ drop (Suc k) xs"

definition subset_matrix :: "u32 option list list \<Rightarrow> usize \<Rightarrow> u32 option list list" where
  "subset_matrix rs removed =
     map (\<lambda>(_, row). map snd (filter (\<lambda>(index, _). index \<noteq> removed) (enumerate 0 row)))
       (filter (\<lambda>(index, _). index \<noteq> removed) (enumerate 0 rs))"

definition exact_probe :: "solver_input \<Rightarrow> bool" where
  "exact_probe i \<longleftrightarrow> is_ok (solve_detailed default_objective time_cost_dominates i)"

definition greedy_probe :: "solver_input \<Rightarrow> bool" where
  "greedy_probe i = (case greedy_route i of
     Inl _ \<Rightarrow> False | Inr sol \<Rightarrow> is_ok (evaluate_solution default_objective i sol))"

definition lightweight_feasibility_probe :: "('date, 'zone) calendar \<Rightarrow> (poll \<Rightarrow> bool) \<Rightarrow> optimize_request \<Rightarrow> bool" where
  "lightweight_feasibility_probe cal cancelled r =
     (case (case (req_matrix r, req_sparse_matrix r) of
         (Some rs, None) \<Rightarrow> Some (new_matrix rs)
       | (None, Some rs) \<Rightarrow> Some (new_sparse rs)
       | _ \<Rightarrow> None) of
        Some (Inr m) \<Rightarrow> (case problem_try_from cal r of
            Inl _ \<Rightarrow> False
          | Inr p \<Rightarrow>
              let i = \<lparr>input_matrix = m, input_problem = p, is_cancelled = cancelled\<rparr> in
              if length (locations p) \<le> min exact_max_locations 10 then exact_probe i else greedy_probe i)
      | _ \<Rightarrow> False)"

definition removal_probe :: "optimize_request \<Rightarrow> u32 option list list \<Rightarrow> usize \<Rightarrow> optimize_request" where
  "removal_probe r rs k = r\<lparr>req_locations := remove_nth k (req_locations r), use_euclidean_matrix := False,
     req_matrix := None, req_sparse_matrix := Some (subset_matrix rs k)\<rparr>"

text \<open>The loop, with the id of the first location whose removal helped.\<close>

fun probe_removals :: "('date, 'zone) service_env \<Rightarrow> remediation_env \<Rightarrow> optimize_request \<Rightarrow> u32 option list list \<Rightarrow>
    usize list \<Rightarrow> remediation_run \<Rightarrow> string option \<Rightarrow> remediation_run \<times> string option" where
  "probe_removals env renv r rs [] run helped = (run, helped)"
| "probe_removals env renv r rs (index # rest) (k, gs) helped =
     (if \<not> active renv k then ((k + 1, gs), helped)
      else let location = in_id (req_locations r ! index) in
        if lightweight_feasibility_probe (env_calendar env) (probe_poll renv index) (removal_probe r rs index)
        then probe_removals env renv r rs rest (k + 1, push_unique (remove_location_suggestion location) gs)
          (or_else helped (Some location))
        else probe_removals env renv r rs rest (k + 1, gs) helped)"

definition probe_removed_locations :: "('date, 'zone) service_env \<Rightarrow> remediation_env \<Rightarrow> optimize_request \<Rightarrow>
    remediation_run \<Rightarrow> remediation_run option" where
  "probe_removed_locations env renv r run =
     (let n = length (req_locations r); probes = max_remove_probes (remediation renv) in
      if n \<le> 2 \<or> probes = 0 then Some run
      else case build_remediation_matrix_until env renv r of
          None \<Rightarrow> None
        | Some (Inl _) \<Rightarrow> Some run
        | Some (Inr m) \<Rightarrow>
            let ((k, gs), helped) = probe_removals env renv r (into_rows m) (take probes [1..<n - 1]) run None in
            Some (k, case helped of None \<Rightarrow> gs | Some location \<Rightarrow> push_unique (split_day_probe_suggestion location) gs))"

section \<open>The suggestions of the service\<close>

definition provider_backed :: "optimize_request \<Rightarrow> bool" where
  "provider_backed r \<longleftrightarrow> req_matrix r = None \<and> req_sparse_matrix r = None \<and> \<not> use_euclidean_matrix r"

definition probe_for :: "('date, 'zone) service_env \<Rightarrow> remediation_env \<Rightarrow> optimize_request \<Rightarrow> service_error \<Rightarrow>
    remediation_run \<Rightarrow> remediation_run option" where
  "probe_for env renv r e run = (case e of
     RoutingFailed re \<Rightarrow>
       if provider_backed r
       then (case re of
           MatrixBuild _ _ _ _ from to _ \<Rightarrow> probe_alternative_modes env renv r (Some (from, to)) run
         | ProviderFailed _ \<Rightarrow> probe_alternative_modes env renv r None run
         | _ \<Rightarrow> Some run)
       else Some run
   | SolverFailed se \<Rightarrow> if se = NoFeasibleRoute then probe_removed_locations env renv r run else Some run
   | ScheduleFailed ce \<Rightarrow> (case ce of
         OutsideSingleDay \<Rightarrow> probe_removed_locations env renv r run
       | TimeWindowViolation _ \<Rightarrow> probe_removed_locations env renv r run
       | _ \<Rightarrow> Some run)
   | _ \<Rightarrow> Some run)"

definition failure_suggestions_for :: "('date, 'zone) service_env \<Rightarrow> remediation_env \<Rightarrow> optimize_request \<Rightarrow>
    service_error \<Rightarrow> suggestion list option" where
  "failure_suggestions_for env renv r e =
     (let gs = service_suggestions e (Some r); most = max_suggestions (remediation renv) in
      if cancelled_at_start renv \<or> budget_ms (remediation renv) = 0 \<or> \<not> deadline_fits renv
      then Some (rank_failure_suggestions gs most)
      else map_option (\<lambda>(_, found). rank_failure_suggestions found most) (probe_for env renv r e (0, gs)))"

definition failure_suggestions :: "('date, 'zone) service_env \<Rightarrow> remediation_env \<Rightarrow> optimize_request \<Rightarrow>
    service_error \<Rightarrow> suggestion list option" where
  "failure_suggestions env renv r e = failure_suggestions_for env renv (apply_request_defaults env r) e"

section \<open>What the probes establish\<close>

lemma filter_enumerate:
  "a \<le> k \<Longrightarrow> map snd (filter (\<lambda>(index, _). index \<noteq> k) (enumerate a xs)) = remove_nth (k - a) xs"
proof (induction xs arbitrary: a)
  case (Cons x xs)
  show ?case
  proof (cases "a = k")
    case True
    have "filter (\<lambda>(index, _). index \<noteq> k) (enumerate (Suc k) xs) = enumerate (Suc k) xs"
      by (auto simp: filter_id_conv in_set_enumerate_eq)
    then show ?thesis using True by (simp add: remove_nth_def)
  next
    case False
    then have "Suc a \<le> k" "k - a = Suc (k - Suc a)" using Cons.prems by simp_all
    then show ?thesis using Cons.IH [of "Suc a"] False by (simp add: remove_nth_def)
  qed
qed (simp add: remove_nth_def)

lemma subset_matrix_eq: "subset_matrix rs k = map (remove_nth k) (remove_nth k rs)"
proof -
  have "subset_matrix rs k = map (remove_nth k) (map snd (filter (\<lambda>(index, _). index \<noteq> k) (enumerate 0 rs)))"
    using filter_enumerate [of 0 k] by (auto simp: subset_matrix_def)
  then show ?thesis using filter_enumerate [of 0 k rs] by simp
qed

lemma set_remove_nth: "set (remove_nth k xs) \<subseteq> set xs"
  by (auto simp: remove_nth_def dest: in_set_takeD in_set_dropD)

lemma removal_typed:
  assumes "typed_request r" and "u32_cells \<lparr>rows = rs\<rparr>"
  shows "typed_request (removal_probe r rs k)"
proof -
  have "c < 2 ^ 32" if vs: "vs \<in> set (subset_matrix rs k)" and c: "Some c \<in> set vs" for vs c
  proof -
    obtain row where row: "row \<in> set rs" "vs = remove_nth k row"
      using vs set_remove_nth [of k rs] by (auto simp: subset_matrix_eq)
    then have "Some c \<in> set row" using c set_remove_nth [of k row] by auto
    then show ?thesis using assms(2) row(1) by (fastforce simp: u32_cells_def)
  qed
  then show ?thesis
    using assms(1) set_remove_nth [of k "req_locations r"]
    by (auto simp: typed_request_def removal_probe_def)
qed

definition removal_input :: "(poll \<Rightarrow> bool) \<Rightarrow> optimize_request \<Rightarrow> u32 option list list \<Rightarrow> usize \<Rightarrow> solver_input" where
  "removal_input cancelled r rs k =
     \<lparr>input_matrix = \<lparr>rows = map (remove_nth k) (remove_nth k rs)\<rparr>,
      input_problem = problem_of (removal_probe r rs k), is_cancelled = cancelled\<rparr>"

lemma probe_sound:
  assumes "typed_request r" and "u32_cells \<lparr>rows = rs\<rparr>" and "\<forall>q. \<not> cancelled q"
    and "lightweight_feasibility_probe cal cancelled (removal_probe r rs k)"
  shows "acceptable cal (removal_probe r rs k) \<and>
    (\<exists>sol. is_ok (evaluate_solution default_objective (removal_input cancelled r rs k) sol))"
proof -
  let ?r = "removal_probe r rs k"
  have mats: "req_matrix ?r = None" "req_sparse_matrix ?r = Some (subset_matrix rs k)"
    by (simp_all add: removal_probe_def)
  from assms(4) have acc: "acceptable cal ?r"
    and probe: "if length (locations (problem_of ?r)) \<le> min exact_max_locations 10
      then exact_probe (removal_input cancelled r rs k) else greedy_probe (removal_input cancelled r rs k)"
    by (auto simp: lightweight_feasibility_probe_def mats problem_try_from_Inr new_sparse_Inr removal_input_def
        subset_matrix_eq Let_def split: sum.splits)
  show ?thesis
  proof (cases "length (locations (problem_of ?r)) \<le> min exact_max_locations 10")
    case True
    have "exact_input (removal_input cancelled r rs k)"
      using supplied_exact_input [OF acc removal_typed [OF assms(1,2)], of "subset_matrix rs k" cancelled] assms(3) True
      by (simp add: removal_input_def subset_matrix_eq supplied_rows_def mats)
    then show ?thesis
      using acc probe True exact_complete_facts [of "removal_input cancelled r rs k"]
      by (auto simp: exact_probe_def split: if_splits)
  next
    case False
    then show ?thesis using acc probe by (auto simp: greedy_probe_def split: sum.splits)
  qed
qed

lemma probe_removals_sound:
  assumes "probe_removals env renv r rs ks (k, gs) helped = ((k', out), helped')"
    and "g \<in> set out" and "g \<notin> set gs"
  shows "\<exists>index\<in>set ks. g = remove_location_suggestion (in_id (req_locations r ! index)) \<and>
    lightweight_feasibility_probe (env_calendar env) (probe_poll renv index) (removal_probe r rs index)"
  using assms
proof (induction ks arbitrary: k gs helped)
  case (Cons index rest)
  let ?ok = "lightweight_feasibility_probe (env_calendar env) (probe_poll renv index) (removal_probe r rs index)"
  let ?g = "remove_location_suggestion (in_id (req_locations r ! index))"
  show ?case
  proof (cases "active renv k \<and> ?ok")
    case True
    then have rest: "probe_removals env renv r rs rest (k + 1, push_unique ?g gs)
        (or_else helped (Some (in_id (req_locations r ! index)))) = ((k', out), helped')"
      using Cons.prems(1) by (simp add: Let_def)
    show ?thesis
    proof (cases "g \<in> set (push_unique ?g gs)")
      case new: True
      then have "g = ?g" using Cons.prems(3) by (auto simp: push_unique_def split: if_splits)
      then show ?thesis using True by auto
    next
      case False
      then show ?thesis using Cons.IH [OF rest Cons.prems(2)] by auto
    qed
  next
    case False
    then show ?thesis
      using Cons.IH [of "k + 1" gs helped] Cons.prems by (auto simp: Let_def split: if_splits)
  qed
qed simp

lemma probe_modes_other:
  assumes "probe_modes env renv r failed modes (k, gs) = Some (k', out)" and "g \<in> set out" and "g \<notin> set gs"
  shows "suggestion_type g = ChangeTravelMode"
  using assms
proof (induction modes arbitrary: k gs)
  case (Cons mode modes)
  let ?g = "change_travel_mode_suggestion (request_travel_mode r) mode failed"
  have type: "suggestion_type ?g = ChangeTravelMode"
    by (simp add: change_travel_mode_suggestion_def new_suggestion_def Let_def split: option.split)
  have "\<exists>gs'. probe_modes env renv r failed modes gs' = Some (k', out) \<and> set (snd gs') \<subseteq> insert ?g (set gs)"
    using Cons.prems(1)
    by (auto simp: Let_def push_unique_def split: if_splits option.splits)
      (intro exI conjI, assumption, auto)+
  then obtain n gs' where rest: "probe_modes env renv r failed modes (n, gs') = Some (k', out)"
    and sub: "set gs' \<subseteq> insert ?g (set gs)" by auto
  show ?case
    using Cons.IH [OF rest Cons.prems(2)] sub Cons.prems(3) type by (cases "g \<in> set gs'") auto
qed simp

lemma if_intros: "(b \<Longrightarrow> set (map f xs) \<subseteq> A) \<Longrightarrow> (\<not> b \<Longrightarrow> set (map f ys) \<subseteq> A) \<Longrightarrow>
    set (map f (if b then xs else ys)) \<subseteq> A"
  "(v = None \<Longrightarrow> set (map f xs) \<subseteq> A) \<Longrightarrow> (\<And>x. v = Some x \<Longrightarrow> set (map f (h x)) \<subseteq> A) \<Longrightarrow>
    set (map f (case v of None \<Rightarrow> xs | Some x \<Rightarrow> h x)) \<subseteq> A"
  by (auto split: option.split)

lemma suggestion_types:
  "g \<in> set (service_suggestions e request) \<Longrightarrow> suggestion_type g \<noteq> RemoveLocation"
proof -
  have bound: "suggestion_type g \<noteq> RemoveLocation" if "g \<in> set (no_feasible_suggestions r)" for g r
    using that by (auto simp: no_feasible_suggestions_def stay_suggestion_def split_day_bound_suggestion_def
        start_earlier_bound_suggestion_def policy_suggestion_def new_suggestion_def Let_def split: if_splits)
  have parts: "set (map suggestion_type (violation_stay_suggestion v)) \<subseteq> {ReduceStayTime}"
    "set (map suggestion_type (violation_move_suggestion v)) \<subseteq> {MoveLocationEarlier}"
    "set (map suggestion_type (violation_start_suggestion v)) \<subseteq> {StartEarlier}" for v
    unfolding violation_stay_suggestion_def violation_move_suggestion_def violation_start_suggestion_def
      new_suggestion_def
    by (intro if_intros; simp)+
  have sched: "suggestion_type g \<noteq> RemoveLocation" if "g \<in> set (schedule_suggestions se)" for g se
  proof (cases se)
    case (TimeWindowViolation v)
    then have "suggestion_type g \<in> {ReduceStayTime, MoveLocationEarlier, StartEarlier}"
      using that parts [of v] unfolding schedule_suggestions_def by auto
    then show ?thesis by auto
  qed (use that in \<open>simp_all add: schedule_suggestions_def\<close>)
  have route: "suggestion_type g \<noteq> RemoveLocation" if "g \<in> set (routing_suggestions re)" for g re
    using that by (cases re) (simp_all add: routing_suggestions_def new_suggestion_def Let_def)
  have fold: "set (fold add_unless_duplicate gs hs) \<subseteq> set gs \<union> set hs" for gs hs
  proof (induction gs arbitrary: hs)
    case (Cons a gs)
    have "set (add_unless_duplicate a hs) \<subseteq> insert a (set hs)" unfolding add_unless_duplicate_def
      by (split if_split) auto
    then show ?case using Cons.IH [of "add_unless_duplicate a hs"] by auto
  qed simp
  assume g: "g \<in> set (service_suggestions e request)"
  show ?thesis
  proof (cases e)
    case (RoutingFailed re)
    then show ?thesis using g route by (simp add: service_suggestions_def)
  next
    case (SolverFailed se)
    then have "\<exists>r. request = Some r \<and> g \<in> set (no_feasible_suggestions r)"
      using g by (cases "se = NoFeasibleRoute"; cases request) (simp_all add: service_suggestions_def)
    then show ?thesis using bound by blast
  next
    case (ScheduleFailed ce)
    then have "g \<in> set (schedule_suggestions ce) \<or>
        (\<exists>r. request = Some r \<and> g \<in> set (fold add_unless_duplicate (no_feasible_suggestions r) (schedule_suggestions ce)))"
      using g by (cases ce; cases request) (simp_all add: service_suggestions_def Let_def)
    then show ?thesis using sched bound fold by blast
  qed (use g in \<open>simp_all add: service_suggestions_def\<close>)
qed

lemma removal_found:
  assumes "probe_removed_locations env renv r (k, gs) = Some (k', out)" and "g \<in> set out" and "g \<notin> set gs"
    and "suggestion_type g = RemoveLocation"
  obtains m index where "build_remediation_matrix_until env renv r = Some (Inr m)"
    and "0 < index" and "index < length (req_locations r) - 1"
    and "g = remove_location_suggestion (in_id (req_locations r ! index))"
    and "lightweight_feasibility_probe (env_calendar env) (probe_poll renv index) (removal_probe r (rows m) index)"
proof -
  let ?probes = "take (max_remove_probes (remediation renv)) [1..<length (req_locations r) - 1]"
  have "gs \<noteq> out" using assms(2,3) by blast
  then obtain m where m: "build_remediation_matrix_until env renv r = Some (Inr m)"
    using assms(1) by (auto simp: probe_removed_locations_def Let_def split: if_splits option.splits sum.splits)
  obtain n found helped where run: "probe_removals env renv r (into_rows m) ?probes (k, gs) None = ((n, found), helped)"
    by (metis prod.exhaust)
  have "out = found \<or> (\<exists>location. out = push_unique (split_day_probe_suggestion location) found)"
    using assms(1) m run \<open>gs \<noteq> out\<close>
    by (auto simp: probe_removed_locations_def Let_def split: if_splits option.splits)
  moreover have "suggestion_type (split_day_probe_suggestion location) = SplitDay" for location
    by (simp add: split_day_probe_suggestion_def new_suggestion_def)
  ultimately have "g \<in> set found"
    using assms(2,4) by (auto simp: push_unique_def split: if_splits)
  from probe_removals_sound [OF run this assms(3)] obtain index where index: "index \<in> set ?probes"
    "g = remove_location_suggestion (in_id (req_locations r ! index))"
    "lightweight_feasibility_probe (env_calendar env) (probe_poll renv index) (removal_probe r (rows m) index)"
    by (auto simp: into_rows_def)
  then show thesis using that [OF m _ _ index(2,3)] by (auto dest: in_set_takeD)
qed

section \<open>An example\<close>

text \<open>Three locations of which the middle one has no connection.\<close>

definition stuck_rows :: "u32 option list list" where
  "stuck_rows = [[Some 0, None, Some 30], [None, Some 0, None], [Some 30, None, Some 0]]"

definition stuck_request :: optimize_request where
  "stuck_request = (readme_request Earliest)\<lparr>
     req_locations := [readme_location_input ''hotel'' 540 1080 0, readme_location_input ''museum'' 600 720 60,
       readme_location_input ''station'' 540 1200 0],
     req_matrix := None, req_sparse_matrix := Some stuck_rows\<rparr>"

definition stuck_env :: remediation_env where
  "stuck_env = \<lparr>remediation = default_remediation, cancelled_at_start = False, deadline_fits = True,
     active = (\<lambda>_. True), matrix_until = (\<lambda>_ _. Inl RoutingCancelled), probe_poll = (\<lambda>_ _. False)\<rparr>"

lemma example_texts:
  "trim ''readme-matrix-example'' = ''readme-matrix-example''" "trim ''hotel'' = ''hotel''"
  "trim ''museum'' = ''museum''" "trim ''station'' = ''station''"
  "length s \<le> 512 \<Longrightarrow> char_count s \<le> 512" "length s \<le> 128 \<Longrightarrow> char_count s \<le> 128"
  using char_count_le [of s] by (simp_all add: trim_visible)

lemma stuck_acceptable: "acceptable cal stuck_request"
proof -
  have "acceptable_location stuck_request k (req_locations stuck_request ! k)"
    if "k < length (req_locations stuck_request)" for k
  proof -
    have "k = 0 \<or> k = 1 \<or> k = 2" using that by (auto simp: stuck_request_def)
    then show ?thesis
      by (auto simp: acceptable_location_def stuck_request_def readme_request_defs example_texts
          has_supplied_matrix_def coordinates_ok_def less_eq_time_of_day_def)
  qed
  then show ?thesis
    by (auto simp: acceptable_def stuck_request_def stuck_rows_def readme_request_defs example_texts is_ok_iff
        requested_routing_departure_def departure_day_def has_supplied_matrix_def square_def All_less_Suc)
qed

lemma stuck_typed: "typed_request stuck_request"
  by (auto simp: typed_request_def stuck_request_def stuck_rows_def readme_request_defs wf_time_def
      minutes_per_day_def)

definition relieved_request :: optimize_request where
  "relieved_request = (readme_request Earliest)\<lparr>
     req_locations := [readme_location_input ''hotel'' 540 1080 0, readme_location_input ''station'' 540 1200 0],
     req_matrix := None, req_sparse_matrix := Some [[Some 0, Some 30], [Some 30, Some 0]]\<rparr>"

lemma stuck_removed: "removal_probe stuck_request stuck_rows (Suc 0) = relieved_request"
  by (simp add: removal_probe_def stuck_request_def stuck_rows_def subset_matrix_eq remove_nth_def
      relieved_request_def readme_request_def)

lemma relieved_acceptable: "acceptable cal relieved_request"
proof -
  have "acceptable_location relieved_request k (req_locations relieved_request ! k)"
    if "k < length (req_locations relieved_request)" for k
  proof -
    have "k = 0 \<or> k = 1" using that by (auto simp: relieved_request_def)
    then show ?thesis
      by (auto simp: acceptable_location_def relieved_request_def readme_request_defs example_texts
          has_supplied_matrix_def coordinates_ok_def less_eq_time_of_day_def)
  qed
  then show ?thesis
    by (auto simp: acceptable_def relieved_request_def readme_request_defs example_texts is_ok_iff
        requested_routing_departure_def departure_day_def has_supplied_matrix_def square_def All_less_Suc)
qed

lemma relieved_typed: "typed_request relieved_request"
  by (auto simp: typed_request_def relieved_request_def readme_request_defs wf_time_def minutes_per_day_def)

lemma stuck_matrix: "build_remediation_matrix_until readme_env stuck_env stuck_request = Some (Inr \<lparr>rows = stuck_rows\<rparr>)"
proof -
  have "routing_departure_time readme_env stuck_request = Inr (env_now readme_env + 5 * 60, None)"
    by (simp add: routing_departure_time_def requested_routing_departure_def departure_day_def stuck_request_def readme_request_defs)
  moreover have "remediation_source readme_env stuck_request = Some (SparseRows stuck_rows)"
    by (simp add: remediation_source_def stuck_request_def readme_request_defs)
  moreover have "new_sparse stuck_rows = Inr \<lparr>rows = stuck_rows\<rparr>"
    by (auto simp: new_sparse_Inr wf_matrix_def matrix_size_def stuck_rows_def All_less_Suc)
  moreover have "length (locations (problem_of stuck_request)) = 3"
    by (simp add: stuck_request_def)
  moreover have "matrix_size \<lparr>rows = stuck_rows\<rparr> = 3" by (simp add: matrix_size_def stuck_rows_def)
  moreover have "problem_try_from (env_calendar readme_env) stuck_request = Inr (problem_of stuck_request)"
    using stuck_acceptable by (simp add: problem_try_from_Inr)
  moreover have "conversion_forms (env_calendar readme_env) stuck_request \<noteq> None"
    by (simp add: conversion_forms_def departure_forms_def departure_day_def stuck_request_def readme_request_defs)
  ultimately show ?thesis
    by (simp add: build_remediation_matrix_until_def build_until_def build_from_source_def map_invalid_def Let_def)
qed

definition relieved_input :: solver_input where
  "relieved_input = \<lparr>input_matrix = \<lparr>rows = [[Some 0, Some 30], [Some 30, Some 0]]\<rparr>,
     input_problem = problem_of relieved_request, is_cancelled = (\<lambda>_. False)\<rparr>"

lemma relieved_exact: "exact_input relieved_input"
  using supplied_exact_input [OF relieved_acceptable relieved_typed, of "[[Some 0, Some 30], [Some 30, Some 0]]" "\<lambda>_. False"]
  by (simp add: relieved_input_def supplied_rows_def relieved_request_def readme_request_defs exact_max_locations_def)

lemma relieved_evaluates: "is_ok (evaluate_solution default_objective relieved_input \<lparr>visit_order = [0, 1]\<rparr>)"
proof -
  let ?p = "problem_of relieved_request" and ?m = "\<lparr>rows = [[Some 0, Some 30], [Some 30, Some 0]]\<rparr> :: travel_time_matrix"
  have wf: "wf_input relieved_input" "never_cancelled relieved_input" using relieved_exact by (simp_all add: exact_input_def)
  have n: "length (locations ?p) = 2" by (simp add: relieved_request_def)
  have order: "valid_order ?p [0, 1]"
    using n by (auto simp: valid_order_def Let_def less_2_cases_iff lessThan_Suc numeral_2_eq_2)
  have "route_walk ?p ?m [0, 1] 540 = Some (570, 30, 0)"
    by (simp add: problem_of_def relieved_request_def readme_request_defs location_of_def endpoint_index_def
        with_policies_def new_location_def request_visit_policy_def request_start_policy_def
        request_start_time_def upt_rec route_walk_def walk.simps(1) serve_def travel_minutes_def get_def Let_def)
  moreover have "start_policy ?p = Earliest" "minutes (start_time ?p) = 540"
    by (simp_all add: problem_of_def relieved_request_def readme_request_defs with_policies_def
        request_start_policy_def request_start_time_def)
  ultimately show ?thesis
    using n order by (simp add: evaluate_solution_cases [OF wf]) (simp add: relieved_input_def matrix_size_def is_ok_def)
qed

lemma relieved_probe: "lightweight_feasibility_probe (env_calendar readme_env) (\<lambda>_. False) relieved_request"
proof -
  have "new_sparse [[Some 0, Some 30], [Some 30, Some 0]] = Inr \<lparr>rows = [[Some 0, Some 30], [Some 30, Some 0]]\<rparr>"
    by (auto simp: new_sparse_Inr wf_matrix_def matrix_size_def All_less_Suc)
  moreover have "problem_try_from (env_calendar readme_env) relieved_request = Inr (problem_of relieved_request)"
    using relieved_acceptable by (simp add: problem_try_from_Inr)
  moreover have "exact_probe relieved_input"
    using exact_complete_facts [OF relieved_exact] relieved_evaluates by (auto simp: exact_probe_def split: if_splits)
  moreover have "length (locations (problem_of relieved_request)) = 2" by (simp add: relieved_request_def)
  moreover have "req_matrix relieved_request = None" "req_sparse_matrix relieved_request = Some [[Some 0, Some 30], [Some 30, Some 0]]"
    by (simp_all add: relieved_request_def)
  ultimately show ?thesis
    by (simp add: lightweight_feasibility_probe_def Let_def exact_max_locations_def relieved_input_def)
qed

lemma stuck_suggestions: "failure_suggestions_for readme_env stuck_env stuck_request (SolverFailed NoFeasibleRoute) =
    Some [remove_location_suggestion ''museum'', split_day_probe_suggestion ''museum'']"
proof -
  have ranges: "[0..<2] = [0, 1]" "[0..<3] = [0, 1, 2]" "[1..<3] = [1, 2]" by (simp_all add: upt_rec)
  have three: "length stuck_rows = 3" by (simp add: stuck_rows_def)
  have "outgoing_bound stuck_rows = 30"
    unfolding outgoing_bound_def Let_def three
    by (simp add: ranges cheapest_def stuck_rows_def List.map_filter_simps)
  moreover have "incoming_bound stuck_rows = 30"
    unfolding incoming_bound_def Let_def three ranges
    by (simp add: cheapest_def stuck_rows_def List.map_filter_simps)
  moreover have "request_rows stuck_request = Some stuck_rows" "total_stay stuck_request = 60"
    by (simp_all add: request_rows_def total_stay_def stuck_request_def readme_request_defs)
  moreover have "\<not> (\<exists>row\<in>set stuck_rows. length row \<noteq> length stuck_rows)" by (simp add: stuck_rows_def)
  ultimately have "minimum_duration_lower_bound stuck_request = 90"
    by (simp add: minimum_duration_lower_bound_def three)
  then have none: "no_feasible_suggestions stuck_request = []"
    by (simp add: no_feasible_suggestions_def Let_def end_close_def request_start_time_def window_minutes_def)
      (simp add: stuck_request_def readme_request_defs)
  have "probe_removals readme_env stuck_env stuck_request stuck_rows [Suc 0] (0, []) None =
      ((1, [remove_location_suggestion ''museum'']), Some ''museum'')"
    using relieved_probe
    by (simp add: stuck_removed stuck_env_def push_unique_def or_else_def)
      (simp add: stuck_request_def readme_request_defs Let_def)
  moreover have "length (req_locations stuck_request) = 3" by (simp add: stuck_request_def)
  moreover have "into_rows \<lparr>rows = stuck_rows\<rparr> = stuck_rows" by (simp add: into_rows_def)
  moreover have "max_remove_probes (remediation stuck_env) = 8" by (simp add: stuck_env_def default_remediation_def)
  moreover have "push_unique (split_day_probe_suggestion ''museum'') [remove_location_suggestion ''museum''] =
      [remove_location_suggestion ''museum'', split_day_probe_suggestion ''museum'']"
    by (simp add: push_unique_def remove_location_suggestion_def split_day_probe_suggestion_def new_suggestion_def)
  ultimately have "probe_removed_locations readme_env stuck_env stuck_request (0, []) =
      Some (1, [remove_location_suggestion ''museum'', split_day_probe_suggestion ''museum''])"
    by (simp add: probe_removed_locations_def stuck_matrix upt_rec del: probe_removals.simps)
  moreover have "rank_failure_suggestions [remove_location_suggestion ''museum'', split_day_probe_suggestion ''museum''] 3 =
      [remove_location_suggestion ''museum'', split_day_probe_suggestion ''museum'']"
  proof -
    let ?g = "remove_location_suggestion ''museum''" and ?h = "split_day_probe_suggestion ''museum''"
    have key: "conflict_key ?g = ''remove:museum''" "conflict_key ?h = ''split-day''"
      by (simp_all add: conflict_key_def remove_location_suggestion_def split_day_probe_suggestion_def
          new_suggestion_def or_empty_def Let_def)
    have "suggestion_score ?g < 800000" "800000 \<le> suggestion_score ?h"
      by (simp_all add: suggestion_score_def confidence_penalty_def magnitude_def remove_location_suggestion_def
          split_day_probe_suggestion_def new_suggestion_def Let_def)
    then have "ranking_key ?g 0 \<le> ranking_key ?h 1" by (simp add: ranking_key_def)
    then show ?thesis by (simp add: rank_failure_suggestions_def key)
  qed
  moreover have "\<not> cancelled_at_start stuck_env" "budget_ms (remediation stuck_env) = 500" "deadline_fits stuck_env"
    "max_suggestions (remediation stuck_env) = 3"
    by (simp_all add: stuck_env_def default_remediation_def)
  ultimately show ?thesis
    by (simp add: failure_suggestions_for_def service_suggestions_def probe_for_def none)
qed

section \<open>Properties\<close>

text \<open>
  C21. A suggestion to remove a location is confirmed: the request without that location is
  acceptable with the remaining rows and columns of its matrix, and some solution for it passes
  the evaluator.
\<close>

theorem removal_suggestion_sound:
  assumes "typed_request r" and "\<forall>index q. \<not> probe_poll renv index q"
    and "\<forall>m. build_remediation_matrix_until env renv r = Some (Inr m) \<longrightarrow> u32_cells m"
    and "failure_suggestions_for env renv r e = Some out" and "g \<in> set out" and "suggestion_type g = RemoveLocation"
  shows "\<exists>m index sol. build_remediation_matrix_until env renv r = Some (Inr m) \<and>
    0 < index \<and> index < length (req_locations r) - 1 \<and>
    suggestion_location g = Some (in_id (req_locations r ! index)) \<and>
    acceptable (env_calendar env) (removal_probe r (rows m) index) \<and>
    is_ok (evaluate_solution default_objective (removal_input (probe_poll renv index) r (rows m) index) sol)"
proof -
  let ?gs = "service_suggestions e (Some r)"
  have new: "g \<notin> set ?gs" using suggestion_types assms(6) by blast
  have ranked: "set (rank_failure_suggestions hs most) \<subseteq> set hs" for hs most
    using pick_subset ranked_set by (auto simp: rank_failure_suggestions_def dest!: subsetD [OF pick_subset])
  obtain k found where probed: "probe_for env renv r e (0, ?gs) = Some (k, found)" and g: "g \<in> set found"
    using assms(4,5) new ranked
    by (fastforce simp: failure_suggestions_for_def Let_def split: if_splits)
  have "probe_removed_locations env renv r (0, ?gs) = Some (k, found)"
    using probed g new assms(6) probe_modes_other [of env renv r _ _ 0 ?gs k found g]
    by (auto simp: probe_for_def probe_alternative_modes_def simp del: probe_modes.simps
        split: service_error.splits routing_error.splits solver_error.splits schedule_error.splits if_splits)
  then obtain m index where m: "build_remediation_matrix_until env renv r = Some (Inr m)"
    and index: "0 < index" "index < length (req_locations r) - 1"
    and gi: "g = remove_location_suggestion (in_id (req_locations r ! index))"
    and probe: "lightweight_feasibility_probe (env_calendar env) (probe_poll renv index) (removal_probe r (rows m) index)"
    by (rule removal_found [OF _ g new assms(6)])
  have "u32_cells \<lparr>rows = rows m\<rparr>" using assms(3) m by (cases m) simp
  note probe_sound [OF assms(1) this _ probe]
  then show ?thesis
    using m index gi assms(2)
    by (fastforce simp: remove_location_suggestion_def new_suggestion_def)
qed

theorem removal_suggestion_sound_witness:
  "\<exists>m index sol. build_remediation_matrix_until readme_env stuck_env stuck_request = Some (Inr m) \<and>
    0 < index \<and> index < length (req_locations stuck_request) - 1 \<and>
    in_id (req_locations stuck_request ! index) = ''museum'' \<and>
    is_ok (evaluate_solution default_objective (removal_input (\<lambda>_. False) stuck_request (rows m) index) sol)"
proof -
  have "\<forall>index q. \<not> probe_poll stuck_env index q" by (simp add: stuck_env_def)
  moreover have "\<forall>m. build_remediation_matrix_until readme_env stuck_env stuck_request = Some (Inr m) \<longrightarrow> u32_cells m"
    by (auto simp: stuck_matrix stuck_rows_def u32_cells_def)
  moreover have "suggestion_type (remove_location_suggestion ''museum'') = RemoveLocation"
    "suggestion_location (remove_location_suggestion ''museum'') = Some ''museum''"
    by (simp_all add: remove_location_suggestion_def new_suggestion_def)
  moreover have "probe_poll stuck_env index = (\<lambda>_. False)" for index by (simp add: stuck_env_def)
  ultimately show ?thesis
    using removal_suggestion_sound [OF stuck_typed _ _ stuck_suggestions, of "remove_location_suggestion ''museum''"]
    by (simp only: list.set insert_iff simp_thms option.inject) metis
qed

end
