(* ===== verification/Error_Text.thy ===== *)
theory Error_Text
  imports Service
begin

text \<open>
  The texts of the errors, as \<open>src/api.rs\<close>, \<open>src/events.rs\<close>, \<open>src/domain.rs\<close> and \<open>src/service/error.rs\<close> declare them. The text of a floating-point number is a parameter.
\<close>

fun job_id_error_str :: "job_id_error \<Rightarrow> string" where
  "job_id_error_str JobIdEmpty = ''job_id must not be empty or whitespace only''"
| "job_id_error_str (JobIdTooLong maximum actual) =
     ''job_id contains '' @ nat_to_string actual @ '' characters; at most '' @ nat_to_string maximum @ '' are allowed''"

fun request_error_str :: "(f64 \<Rightarrow> string) \<Rightarrow> request_error \<Rightarrow> string" where
  "request_error_str show (InvalidJobId e) = job_id_error_str e"
| "request_error_str show (InvalidCountryCode s) = ''invalid country_code: '' @ s"
| "request_error_str show TravelDateRequiresTimeZone = ''travel_date requires time_zone''"
| "request_error_str show TimeZoneRequiresTravelDate = ''time_zone requires travel_date''"
| "request_error_str show (InvalidTravelDate s) = ''travel_date must use YYYY-MM-DD and be a real calendar date: '' @ s"
| "request_error_str show (InvalidTimeZone s) = ''time_zone must be a valid IANA identifier: '' @ s"
| "request_error_str show (CountryTimeZoneMismatch country zone) =
     ''country_code '' @ country @ '' does not match time_zone '' @ zone"
| "request_error_str show (AmbiguousLocalDeparture local zone) =
     ''local departure '' @ local @ '' is ambiguous in '' @ zone"
| "request_error_str show (NonexistentLocalDeparture local zone) =
     ''local departure '' @ local @ '' does not exist in '' @ zone"
| "request_error_str show FixedStartTimeRequired = ''start_time is required when start_policy is FIXED''"
| "request_error_str show (DebugJobDurationTooLong maximum actual) =
     ''debug.min_job_duration_ms must not exceed '' @ nat_to_string maximum @ '' milliseconds (actual '' @
     nat_to_string actual @ '')''"
| "request_error_str show (TooFewLocations minimum actual) =
     ''locations must contain at least start and end locations (minimum '' @ nat_to_string minimum @ '', actual '' @
     nat_to_string actual @ '')''"
| "request_error_str show (TooManyLocations maximum actual) =
     ''locations contains '' @ nat_to_string actual @ '' items; at most '' @ nat_to_string maximum @ '' are allowed''"
| "request_error_str show EmptyLocationId = ''location id must not be empty''"
| "request_error_str show (LocationIdTooLong maximum) =
     ''location id must not exceed '' @ nat_to_string maximum @ '' characters''"
| "request_error_str show (LocationNameTooLong location maximum) =
     ''location name must not exceed '' @ nat_to_string maximum @ '' characters for location '' @ location"
| "request_error_str show (EmptyPlaceId location) = ''place_id must not be empty for location '' @ location"
| "request_error_str show (PlaceIdTooLong location maximum) =
     ''place_id must not exceed '' @ nat_to_string maximum @ '' characters for location '' @ location"
| "request_error_str show (DuplicateLocationId location) = ''duplicate location id: '' @ location"
| "request_error_str show (TimeNotTenMinuteAligned location field actual) =
     field @ '' must use a 10-minute boundary for location '' @ location @ '' (actual '' @ time_to_string actual @ '')''"
| "request_error_str show (StayMinutesNotTenMinuteMultiple location actual) =
     ''stay_minutes must be a non-negative multiple of 10 for location '' @ location @ '' (actual '' @
     nat_to_string actual @ '')''"
| "request_error_str show (RequiredLocationCannotBeOptional location) =
     ''start/end and ALL_REQUIRED locations cannot set required=false ('' @ location @ '')''"
| "request_error_str show (InvalidLocationPriority location actual) =
     ''priority must be between 1 and 100 for location '' @ location @ '' (actual '' @ nat_to_string actual @ '')''"
| "request_error_str show MultipleTravelTimeMatrices =
     ''provide only one of travel_time_matrix and sparse_travel_time_matrix''"
| "request_error_str show EuclideanMatrixConflict =
     ''use_euclidean_matrix cannot be combined with travel_time_matrix or sparse_travel_time_matrix''"
| "request_error_str show (CoordinatesRequired location) =
     ''latitude and longitude are required for location '' @ location @ '' when use_euclidean_matrix is true''"
| "request_error_str show (IncompleteCoordinates location) =
     ''latitude and longitude must be supplied together for location '' @ location"
| "request_error_str show (InvalidLatitude location actual) =
     ''latitude must be finite and between -90 and 90 for location '' @ location @ '' (actual '' @ show actual @ '')''"
| "request_error_str show (InvalidLongitude location actual) =
     ''longitude must be finite and between -180 and 180 for location '' @ location @ '' (actual '' @ show actual @ '')''"
| "request_error_str show (MatrixRowsMismatch expected actual) =
     ''travel_time_matrix has '' @ nat_to_string actual @ '' rows; expected '' @ nat_to_string expected @
     '' for the supplied locations''"
| "request_error_str show (MatrixRowSizeMismatch row expected actual) =
     ''travel_time_matrix row '' @ nat_to_string row @ '' has length '' @ nat_to_string actual @ ''; expected '' @
     nat_to_string expected"
| "request_error_str show (MatrixDiagonalNonzero index actual) =
     ''travel_time_matrix diagonal entry ['' @ nat_to_string index @ ''][''  @ nat_to_string index @
     ''] must be 0; actual '' @ nat_to_string actual"
| "request_error_str show (MatrixDiagonalUnreachable index) =
     ''sparse_travel_time_matrix diagonal entry ['' @ nat_to_string index @ ''][''  @ nat_to_string index @
     ''] must be 0, not null''"
| "request_error_str show (RequestInvalidTimeWindow location e) =
     ''invalid time window for location '' @ location @ '': '' @ domain_error_str e"

fun service_error_str :: "(f64 \<Rightarrow> string) \<Rightarrow> service_error \<Rightarrow> string" where
  "service_error_str show ServiceCancelled = ''optimization job was cancelled''"
| "service_error_str show (InvalidRequest e) = request_error_str show e"
| "service_error_str show (RoutingFailed e) = routing_error_str e"
| "service_error_str show (SolverFailed e) = solver_error_str e"
| "service_error_str show (ScheduleFailed e) = schedule_error_str e"

end
