(* ===== verification/Storage.thy ===== *)
theory Storage
  imports Failure Text Events "HOL-Library.Product_Lexorder"
begin

text \<open>
  \<open>src/storage.rs\<close>: the file store of jobs. A disk is the map from directory names under
  \<open>jobs/\<close> to their files, with the index; a JSON file holds the value it was written from. Every
  access to the file system is one numbered action that can fail, and since every operation
  returns at the first failure, a crash is a disk on which every later action fails.
\<close>

section \<open>The data\<close>

datatype job_status = Pending | Running | Completed | JobFailed | JobCancelled

fun status_str :: "job_status \<Rightarrow> string" where
  "status_str Pending = ''pending''"
| "status_str Running = ''running''"
| "status_str Completed = ''completed''"
| "status_str JobFailed = ''failed''"
| "status_str JobCancelled = ''cancelled''"

definition is_active :: "job_status \<Rightarrow> bool" where
  "is_active s \<longleftrightarrow> s = Pending \<or> s = Running"

datatype write_outcome = Applied | WriteCancelled

record job_state =
  state_job_id :: string
  status :: job_status
  job_stage :: "progress_stage option"
  job_progress :: u8
  last_message :: "string option"
  created_at :: i64
  updated_at :: i64
  completed_at :: "i64 option"

record stored_job_error =
  error_code :: string
  error_message :: string
  error_detail :: string
  stored_failure_detail :: "failure_detail option"
  stored_suggestions :: "suggestion list option"

record stored_job =
  stored_request :: optimize_request
  stored_state :: job_state
  stored_result :: "optimize_response option"
  stored_error :: "stored_job_error option"

record index_entry =
  entry_job_id :: string
  entry_status :: job_status
  entry_travel_mode :: "travel_mode option"
  entry_created_at :: i64
  entry_updated_at :: i64

text \<open>Paths below the data directory: the jobs directory, the index, a job's directory, a file of it.\<close>

datatype store_path = JobsPath | IndexPath | JobPath string | JobFile string string

datatype store_error =
    CapacityExceeded usize
  | DuplicateJob string
  | JobNotFound string
  | JobNotCancellable string job_status
  | StoreInvalidTransition string job_status
  | TelemetryEventTooLarge usize usize
  | StoreIo store_path
  | StoreJson store_path

text \<open>
  A file of JSON lines: for each line the event it parses to, if it does, and the text of a torn
  write after the last line feed.
\<close>

record 'e event_log =
  log_lines :: "'e option list"
  log_tail :: "'e option option"

record job_files =
  request_file :: "optimize_request option"
  sequence_file :: "u64 option"
  state_file :: "job_state option"
  result_file :: "optimize_response option"
  error_file :: "stored_job_error option"
  telemetry_file :: "telemetry_event event_log option"

definition no_files :: job_files where
  "no_files = \<lparr>request_file = None, sequence_file = None, state_file = None, result_file = None,
     error_file = None, telemetry_file = None\<rparr>"

record disk =
  job_dirs :: "string \<rightharpoonup> job_files"
  index_file :: "index_entry list option"

section \<open>File actions\<close>

text \<open>
  What can go wrong with an action; a torn append leaves text behind, complete but for its line
  feed or not. The environment says what happens to the \<open>k\<close>-th action, what the clock shows at
  it, in which order \<open>read_dir\<close> lists the directories, and how many bytes an event takes.
\<close>

datatype fault = IoFault | JsonFault | TornFault bool

record store_env =
  fault :: "nat \<Rightarrow> fault option"
  clock_ms :: "nat \<Rightarrow> nat"
  listing :: "(string \<rightharpoonup> job_files) \<Rightarrow> string list"
  event_bytes :: "telemetry_event \<Rightarrow> nat option"

type_synonym 'a storing = "disk \<times> nat \<Rightarrow> (store_error + 'a) \<times> disk \<times> nat"

definition give :: "'a \<Rightarrow> 'a storing" where
  "give x w = (Inr x, w)"

definition fail_with :: "store_error \<Rightarrow> 'a storing" where
  "fail_with e w = (Inl e, w)"

definition next_do :: "'a storing \<Rightarrow> ('a \<Rightarrow> 'b storing) \<Rightarrow> 'b storing" where
  "next_do m f w = (case m w of (Inl e, w') \<Rightarrow> (Inl e, w') | (Inr x, w') \<Rightarrow> f x w')"

definition store_failure :: "fault \<Rightarrow> store_path \<Rightarrow> store_error" where
  "store_failure f path = (if f = JsonFault then StoreJson path else StoreIo path)"

definition fs_action :: "store_env \<Rightarrow> store_path \<Rightarrow> (disk \<Rightarrow> store_error + 'a) \<Rightarrow> (disk \<Rightarrow> disk) \<Rightarrow> 'a storing" where
  "fs_action env path result effect = (\<lambda>(d, k). case fault env k of
     Some f \<Rightarrow> (Inl (store_failure f path), d, k + 1)
   | None \<Rightarrow> (result d, effect d, k + 1))"

text \<open>\<open>Path::exists\<close>, \<open>is_dir\<close> and \<open>is_file\<close> answer false when the question fails.\<close>

definition fs_exists :: "store_env \<Rightarrow> (disk \<Rightarrow> bool) \<Rightarrow> bool storing" where
  "fs_exists env present = (\<lambda>(d, k). (Inr (fault env k = None \<and> present d), d, k + 1))"

definition now_ms :: "store_env \<Rightarrow> i64 storing" where
  "now_ms env = (\<lambda>(d, k). (Inr (int (min (clock_ms env k) (2 ^ 63 - 1))), d, k + 1))"

definition read_json :: "store_env \<Rightarrow> store_path \<Rightarrow> (disk \<Rightarrow> 'a option) \<Rightarrow> 'a storing" where
  "read_json env path content =
     fs_action env path (\<lambda>d. case content d of None \<Rightarrow> Inl (StoreIo path) | Some v \<Rightarrow> Inr v) (\<lambda>d. d)"

definition read_optional_json :: "store_env \<Rightarrow> store_path \<Rightarrow> (disk \<Rightarrow> 'a option) \<Rightarrow> 'a option storing" where
  "read_optional_json env path content =
     next_do (fs_exists env (\<lambda>d. content d \<noteq> None)) (\<lambda>present.
       if present then next_do (read_json env path content) (\<lambda>v. give (Some v)) else give None)"

definition dir_of :: "disk \<Rightarrow> string \<Rightarrow> job_files" where
  "dir_of d name = (case job_dirs d name of None \<Rightarrow> no_files | Some fs \<Rightarrow> fs)"

definition set_dir :: "string \<Rightarrow> job_files \<Rightarrow> disk \<Rightarrow> disk" where
  "set_dir name fs d = d\<lparr>job_dirs := (job_dirs d)(name \<mapsto> fs)\<rparr>"

text \<open>
  \<open>atomic_write_json\<close>: the parent directory is created if it is missing; the value is written to
  a temporary file, which no operation reads, and renamed over the target.
\<close>

definition atomic_write_file :: "store_env \<Rightarrow> string \<Rightarrow> string \<Rightarrow> (job_files \<Rightarrow> job_files) \<Rightarrow> unit storing" where
  "atomic_write_file env name file update =
     next_do (fs_action env (JobPath name) (\<lambda>_. Inr ()) (\<lambda>d. set_dir name (dir_of d name) d)) (\<lambda>_.
     fs_action env (JobFile name file) (\<lambda>_. Inr ()) (\<lambda>d. set_dir name (update (dir_of d name)) d))"

definition atomic_write_index :: "store_env \<Rightarrow> index_entry list \<Rightarrow> unit storing" where
  "atomic_write_index env entries = fs_action env IndexPath (\<lambda>_. Inr ()) (\<lambda>d. d\<lparr>index_file := Some entries\<rparr>)"

definition files_of :: "string \<Rightarrow> (job_files \<Rightarrow> 'a option) \<Rightarrow> disk \<Rightarrow> 'a option" where
  "files_of name content d = Option.bind (job_dirs d name) content"

section \<open>Names and order\<close>

definition upper_hex_digit :: "nat \<Rightarrow> char" where
  "upper_hex_digit d = char_of (if d < 10 then 48 + d else 55 + d)"

definition encode_char :: "char \<Rightarrow> string" where
  "encode_char c =
     (if is_ascii_alphanumeric c \<or> c = CHR ''-'' \<or> c = CHR ''_'' then [c]
      else [CHR 0x25, upper_hex_digit (byte c div 16), upper_hex_digit (byte c mod 16)])"

definition encode_job_id :: "string \<Rightarrow> string" where
  "encode_job_id job = concat (map encode_char job)"

definition index_entry_of :: "job_state \<Rightarrow> travel_mode option \<Rightarrow> index_entry" where
  "index_entry_of s mode = \<lparr>entry_job_id = state_job_id s, entry_status = status s, entry_travel_mode = mode,
     entry_created_at = created_at s, entry_updated_at = updated_at s\<rparr>"

definition sort_index :: "index_entry list \<Rightarrow> index_entry list" where
  "sort_index = sort_key (\<lambda>e. (- entry_created_at e, - entry_updated_at e))"

section \<open>Reading and writing the state\<close>

definition ensure_directories :: "store_env \<Rightarrow> unit storing" where
  "ensure_directories env = fs_action env JobsPath (\<lambda>_. Inr ()) (\<lambda>d. d)"

definition read_state :: "store_env \<Rightarrow> string \<Rightarrow> job_state storing" where
  "read_state env job =
     (let name = encode_job_id job in read_json env (JobFile name ''state.json'') (files_of name state_file))"

definition write_state :: "store_env \<Rightarrow> job_state \<Rightarrow> unit storing" where
  "write_state env s =
     atomic_write_file env (encode_job_id (state_job_id s)) ''state.json'' (state_file_update (\<lambda>_. Some s))"

definition read_index :: "store_env \<Rightarrow> index_entry list storing" where
  "read_index env =
     next_do (fs_exists env (\<lambda>d. index_file d \<noteq> None)) (\<lambda>present.
       if present then read_json env IndexPath index_file else give [])"

definition update_index_entry :: "store_env \<Rightarrow> job_state \<Rightarrow> unit storing" where
  "update_index_entry env s =
     (let name = encode_job_id (state_job_id s) in
      next_do (read_json env (JobFile name ''request.json'') (files_of name request_file)) (\<lambda>r.
      next_do (read_index env) (\<lambda>entries.
      atomic_write_index env (sort_index (index_entry_of s (req_travel_mode r) #
        filter (\<lambda>e. entry_job_id e \<noteq> state_job_id s) entries)))))"

definition mutate_state :: "store_env \<Rightarrow> string \<Rightarrow> (job_state \<Rightarrow> store_error + job_state) \<Rightarrow> unit storing" where
  "mutate_state env job mutate =
     next_do (read_state env job) (\<lambda>s. case mutate s of
       Inl e \<Rightarrow> fail_with e
     | Inr s' \<Rightarrow> next_do (now_ms env) (\<lambda>now.
         let s'' = s'\<lparr>updated_at := now\<rparr> in
         next_do (write_state env s'') (\<lambda>_. update_index_entry env s'')))"

text \<open>The index entries of the directories listed; \<open>None\<close> of \<open>state_file\<close> is a directory without a state.\<close>

fun indexed_dirs :: "store_env \<Rightarrow> string list \<Rightarrow> index_entry list \<Rightarrow> index_entry list storing" where
  "indexed_dirs env [] entries = give entries"
| "indexed_dirs env (name # names) entries =
     next_do (fs_exists env (\<lambda>d. files_of name state_file d \<noteq> None)) (\<lambda>present.
       if \<not> present then indexed_dirs env names entries
       else next_do (read_json env (JobFile name ''state.json'') (files_of name state_file)) (\<lambda>s.
         next_do (read_json env (JobFile name ''request.json'') (files_of name request_file)) (\<lambda>r.
         indexed_dirs env names (entries @ [index_entry_of s (req_travel_mode r)]))))"

definition read_directories :: "store_env \<Rightarrow> string list storing" where
  "read_directories env = fs_action env JobsPath (\<lambda>d. Inr (listing env (job_dirs d))) (\<lambda>d. d)"

definition rebuild_index :: "store_env \<Rightarrow> unit storing" where
  "rebuild_index env =
     next_do (read_directories env) (\<lambda>names.
     next_do (indexed_dirs env names []) (\<lambda>entries.
     atomic_write_index env (sort_index entries)))"

section \<open>Terminal writes\<close>

definition dir_present :: "store_env \<Rightarrow> string \<Rightarrow> bool storing" where
  "dir_present env job = fs_exists env (\<lambda>d. job_dirs d (encode_job_id job) \<noteq> None)"

text \<open>\<open>None\<close> for a job that is cancelled already.\<close>

definition prepare_terminal_write :: "store_env \<Rightarrow> string \<Rightarrow> job_state option storing" where
  "prepare_terminal_write env job =
     next_do (dir_present env job) (\<lambda>present.
       if \<not> present then fail_with (JobNotFound job)
       else next_do (read_state env job) (\<lambda>s.
         if status s = JobCancelled then give None
         else if status s \<noteq> Running then fail_with (StoreInvalidTransition job (status s))
         else give (Some s)))"

definition terminal_state :: "job_state \<Rightarrow> job_status \<Rightarrow> i64 \<Rightarrow> job_state" where
  "terminal_state s st now = s\<lparr>status := st, job_progress := (if st = Completed then 100 else job_progress s),
     updated_at := now, completed_at := Some now\<rparr>"

definition commit_terminal_state :: "store_env \<Rightarrow> job_state \<Rightarrow> job_status \<Rightarrow> unit storing" where
  "commit_terminal_state env s st =
     next_do (now_ms env) (\<lambda>now.
       let s' = terminal_state s st now in
       next_do (write_state env s') (\<lambda>_. update_index_entry env s'))"

section \<open>The operations of the store\<close>

definition create_job :: "store_env \<Rightarrow> optimize_request \<Rightarrow> job_state storing" where
  "create_job env r =
     (let job = req_job_id r; name = encode_job_id job in
      next_do (ensure_directories env) (\<lambda>_.
      next_do (fs_action env (JobPath name)
        (\<lambda>d. if job_dirs d name \<noteq> None then Inl (DuplicateJob job) else Inr ())
        (\<lambda>d. if job_dirs d name \<noteq> None then d else set_dir name no_files d)) (\<lambda>_.
      next_do (atomic_write_file env name ''request.json'' (request_file_update (\<lambda>_. Some r))) (\<lambda>_.
      next_do (atomic_write_file env name ''event-sequence.json'' (sequence_file_update (\<lambda>_. Some 0))) (\<lambda>_.
      next_do (now_ms env) (\<lambda>now.
        let s = \<lparr>state_job_id = job, status = Pending, job_stage = None, job_progress = 0, last_message = None,
          created_at = now, updated_at = now, completed_at = None\<rparr> in
      next_do (write_state env s) (\<lambda>_.
      next_do (update_index_entry env s) (\<lambda>_. give s))))))))"

definition running_state :: "string \<Rightarrow> job_state \<Rightarrow> store_error + job_state" where
  "running_state job s =
     (if is_active (status s) then Inr (s\<lparr>status := Running\<rparr>) else Inl (StoreInvalidTransition job (status s)))"

definition mark_running :: "store_env \<Rightarrow> string \<Rightarrow> unit storing" where
  "mark_running env job = mutate_state env job (running_state job)"

definition progressed_state :: "string \<Rightarrow> progress_stage \<Rightarrow> u8 \<Rightarrow> string option \<Rightarrow> job_state \<Rightarrow>
    store_error + job_state" where
  "progressed_state job stage pct message s =
     (if \<not> is_active (status s) then Inl (StoreInvalidTransition job (status s))
      else if (case job_stage s of None \<Rightarrow> False | Some current \<Rightarrow> stage < current) then Inr s
      else Inr (s\<lparr>status := Running, job_stage := Some stage, job_progress := max (job_progress s) (min pct 100),
        last_message := message\<rparr>))"

definition update_progress :: "store_env \<Rightarrow> string \<Rightarrow> progress_stage \<Rightarrow> u8 \<Rightarrow> string option \<Rightarrow> unit storing" where
  "update_progress env job stage pct message = mutate_state env job (progressed_state job stage pct message)"

definition save_result :: "store_env \<Rightarrow> string \<Rightarrow> optimize_response \<Rightarrow> write_outcome storing" where
  "save_result env job result =
     next_do (prepare_terminal_write env job) (\<lambda>ready. case ready of
       None \<Rightarrow> give WriteCancelled
     | Some s \<Rightarrow>
         next_do (atomic_write_file env (encode_job_id job) ''result.json'' (result_file_update (\<lambda>_. Some result))) (\<lambda>_.
         next_do (commit_terminal_state env s Completed) (\<lambda>_. give Applied)))"

definition save_error :: "store_env \<Rightarrow> string \<Rightarrow> stored_job_error \<Rightarrow> write_outcome storing" where
  "save_error env job e =
     next_do (prepare_terminal_write env job) (\<lambda>ready. case ready of
       None \<Rightarrow> give WriteCancelled
     | Some s \<Rightarrow>
         next_do (atomic_write_file env (encode_job_id job) ''error.json'' (error_file_update (\<lambda>_. Some e))) (\<lambda>_.
         next_do (commit_terminal_state env s JobFailed) (\<lambda>_. give Applied)))"

definition cancel_job :: "store_env \<Rightarrow> string \<Rightarrow> string \<Rightarrow> job_state storing" where
  "cancel_job env job message =
     next_do (dir_present env job) (\<lambda>present.
       if \<not> present then fail_with (JobNotFound job)
       else next_do (read_state env job) (\<lambda>s.
         if \<not> is_active (status s) then fail_with (JobNotCancellable job (status s))
         else next_do (now_ms env) (\<lambda>now.
           let s' = s\<lparr>status := JobCancelled, last_message := Some message, updated_at := now, completed_at := Some now\<rparr> in
           next_do (write_state env s') (\<lambda>_.
           next_do (update_index_entry env s') (\<lambda>_. give s')))))"

definition get_job :: "store_env \<Rightarrow> string \<Rightarrow> stored_job option storing" where
  "get_job env job =
     (let name = encode_job_id job in
      next_do (dir_present env job) (\<lambda>present.
        if \<not> present then give None
        else
          next_do (read_json env (JobFile name ''request.json'') (files_of name request_file)) (\<lambda>r.
          next_do (read_json env (JobFile name ''state.json'') (files_of name state_file)) (\<lambda>s.
          next_do (read_optional_json env (JobFile name ''result.json'') (files_of name result_file)) (\<lambda>result.
          next_do (read_optional_json env (JobFile name ''error.json'') (files_of name error_file)) (\<lambda>e.
          give (Some \<lparr>stored_request = r, stored_state = s, stored_result = result, stored_error = e\<rparr>)))))))"

definition list_recent :: "store_env \<Rightarrow> usize \<Rightarrow> index_entry list storing" where
  "list_recent env limit = next_do (read_index env) (\<lambda>entries. give (take limit (sort_index entries)))"

definition interrupted_error :: stored_job_error where
  "interrupted_error = \<lparr>error_code = ''JOB_INTERRUPTED'', error_message = ''Job was interrupted by troute restart'',
     error_detail = ''troute restarted before the job reached a terminal state'',
     stored_failure_detail = None, stored_suggestions = None\<rparr>"

definition recover_dir :: "store_env \<Rightarrow> string \<Rightarrow> bool storing" where
  "recover_dir env name =
     next_do (fs_exists env (\<lambda>d. files_of name state_file d \<noteq> None)) (\<lambda>present.
       if \<not> present then give False
       else next_do (read_json env (JobFile name ''state.json'') (files_of name state_file)) (\<lambda>s.
         if \<not> is_active (status s) then give False
         else
           next_do (atomic_write_file env name ''error.json'' (error_file_update (\<lambda>_. Some interrupted_error))) (\<lambda>_.
           next_do (now_ms env) (\<lambda>now.
           next_do (atomic_write_file env name ''state.json''
             (state_file_update (\<lambda>_. Some (s\<lparr>status := JobFailed, updated_at := now, completed_at := Some now\<rparr>)))) (\<lambda>_.
           next_do (read_optional_json env (JobFile name ''event-sequence.json'') (files_of name sequence_file)) (\<lambda>n.
           next_do (atomic_write_file env name ''event-sequence.json''
             (sequence_file_update (\<lambda>_. Some (saturating_add_u64 (case n of None \<Rightarrow> 0 | Some v \<Rightarrow> v) 1)))) (\<lambda>_.
           give True)))))))"

fun recover_dirs :: "store_env \<Rightarrow> string list \<Rightarrow> usize \<Rightarrow> usize storing" where
  "recover_dirs env [] recovered = give recovered"
| "recover_dirs env (name # names) recovered =
     next_do (recover_dir env name) (\<lambda>changed. recover_dirs env names (if changed then recovered + 1 else recovered))"

definition recover_interrupted :: "store_env \<Rightarrow> usize storing" where
  "recover_interrupted env =
     next_do (ensure_directories env) (\<lambda>_.
     next_do (read_directories env) (\<lambda>names.
     next_do (recover_dirs env names 0) (\<lambda>recovered.
     next_do (rebuild_index env) (\<lambda>_. give recovered))))"

section \<open>Solver events\<close>

definition max_event_bytes :: nat where
  "max_event_bytes = 64 * 1024"

definition empty_log :: "'e event_log" where
  "empty_log = \<lparr>log_lines = [], log_tail = None\<rparr>"

text \<open>A line that joins a torn tail parses to nothing.\<close>

definition append_line :: "'e \<Rightarrow> 'e event_log \<Rightarrow> 'e event_log" where
  "append_line e l =
     \<lparr>log_lines = log_lines l @ [if log_tail l = None then Some e else None], log_tail = None\<rparr>"

definition tear_line :: "'e \<Rightarrow> bool \<Rightarrow> 'e event_log \<Rightarrow> 'e event_log" where
  "tear_line e whole l = l\<lparr>log_tail := Some (if log_tail l = None \<and> whole then Some e else None)\<rparr>"

definition telemetry_of :: "job_files \<Rightarrow> telemetry_event event_log" where
  "telemetry_of fs = (case telemetry_file fs of None \<Rightarrow> empty_log | Some l \<Rightarrow> l)"

definition set_telemetry :: "string \<Rightarrow> (telemetry_event event_log \<Rightarrow> telemetry_event event_log) \<Rightarrow> disk \<Rightarrow> disk" where
  "set_telemetry name f d =
     (case job_dirs d name of None \<Rightarrow> d
      | Some fs \<Rightarrow> set_dir name (fs\<lparr>telemetry_file := Some (f (telemetry_of fs))\<rparr>) d)"

definition write_event :: "store_env \<Rightarrow> string \<Rightarrow> telemetry_event \<Rightarrow> unit storing" where
  "write_event env name e = (\<lambda>(d, k). case fault env k of
     None \<Rightarrow> (Inr (), set_telemetry name (append_line e) d, k + 1)
   | Some f \<Rightarrow> (Inl (StoreIo (JobFile name ''solver-telemetry.jsonl'')),
       (case f of TornFault whole \<Rightarrow> set_telemetry name (tear_line e whole) d | _ \<Rightarrow> d), k + 1))"

definition append_solver_event :: "store_env \<Rightarrow> string \<Rightarrow> telemetry_event \<Rightarrow> unit storing" where
  "append_solver_event env job e =
     (let name = encode_job_id job; path = JobFile name ''solver-telemetry.jsonl'' in
      next_do (dir_present env job) (\<lambda>present.
        if \<not> present then fail_with (JobNotFound job)
        else case event_bytes env e of
          None \<Rightarrow> fail_with (StoreJson path)
        | Some n \<Rightarrow>
            if n > max_event_bytes then fail_with (TelemetryEventTooLarge n max_event_bytes)
            else next_do (fs_action env path (\<lambda>_. Inr ()) (set_telemetry name (\<lambda>l. l))) (\<lambda>_.
              write_event env name e)))"

text \<open>The loop over the lines; the text after the last line feed is a line too.\<close>

fun scan_events :: "store_env \<Rightarrow> store_path \<Rightarrow> u64 \<Rightarrow> usize \<Rightarrow> telemetry_event option list \<Rightarrow> telemetry_event list \<Rightarrow>
    telemetry_event list storing" where
  "scan_events env path low limit [] found = give found"
| "scan_events env path low limit (line # lines) found =
     next_do (fs_action env path (\<lambda>_. Inr ()) (\<lambda>d. d)) (\<lambda>_.
       case line of
         None \<Rightarrow> scan_events env path low limit lines found
       | Some e \<Rightarrow>
           if te_sequence e > low
           then let found' = found @ [e] in
             if length found' \<ge> max limit 1 then give found' else scan_events env path low limit lines found'
           else scan_events env path low limit lines found)"

definition log_content :: "'e event_log \<Rightarrow> 'e option list" where
  "log_content l = log_lines l @ (case log_tail l of None \<Rightarrow> [] | Some line \<Rightarrow> [line])"

definition list_solver_events :: "store_env \<Rightarrow> string \<Rightarrow> u64 \<Rightarrow> usize \<Rightarrow> telemetry_event list storing" where
  "list_solver_events env job low limit =
     (let name = encode_job_id job; path = JobFile name ''solver-telemetry.jsonl'' in
      next_do (dir_present env job) (\<lambda>present.
        if \<not> present then fail_with (JobNotFound job)
        else next_do (fs_action env path (\<lambda>d. Inr (files_of name telemetry_file d)) (\<lambda>d. d)) (\<lambda>file.
          case file of
            None \<Rightarrow> give []
          | Some l \<Rightarrow> scan_events env path low limit (log_content l) [])))"

definition current_event_sequence :: "store_env \<Rightarrow> string \<Rightarrow> u64 option storing" where
  "current_event_sequence env job =
     (let name = encode_job_id job in
      read_optional_json env (JobFile name ''event-sequence.json'') (files_of name sequence_file))"

definition record_event_sequence :: "store_env \<Rightarrow> string \<Rightarrow> u64 \<Rightarrow> unit storing" where
  "record_event_sequence env job n =
     next_do (dir_present env job) (\<lambda>present.
       if \<not> present then fail_with (JobNotFound job)
       else atomic_write_file env (encode_job_id job) ''event-sequence.json'' (sequence_file_update (\<lambda>_. Some n)))"

end
