(* ===== verification/Storage_Invariant.thy ===== *)
theory Storage_Invariant
  imports Storage "HOL-Library.List_Lexorder" "HOL-Library.Char_ord"
begin

text \<open>
  The invariant of the job store and how it may evolve, and rules that reduce an operation to the
  disks on which it can end, whatever action of the file system fails.
\<close>

named_theorems wps "weakest-precondition rules of the storage actions"

section \<open>Directory names\<close>

fun hex_value :: "char \<Rightarrow> nat" where
  "hex_value c = (if byte c < 58 then byte c - 48 else byte c - 55)"

fun decode_job_id :: "string \<Rightarrow> string" where
  "decode_job_id [] = []"
| "decode_job_id (c # cs) =
     (if c = CHR 0x25 then (case cs of h # l # rest \<Rightarrow> char_of (16 * hex_value h + hex_value l) # decode_job_id rest | _ \<Rightarrow> [])
      else c # decode_job_id cs)"

lemma hex_value_upper: "d < 16 \<Longrightarrow> hex_value (upper_hex_digit d) = d"
  by (auto simp: upper_hex_digit_def)

lemma byte_less: "byte c < 256"
  by simp

lemma decode_encode_char: "decode_job_id (encode_char c @ s) = c # decode_job_id s"
proof (cases "is_ascii_alphanumeric c \<or> c = CHR ''-'' \<or> c = CHR ''_''")
  case True
  then have "c \<noteq> CHR 0x25" by (auto simp: is_ascii_alphanumeric_def is_ascii_uppercase_def is_ascii_lowercase_def is_ascii_digit_def)
  then show ?thesis using True by (auto simp: encode_char_def)
next
  case False
  have "byte c div 16 < 16" by (rule less_mult_imp_div_less) (use byte_less [of c] in simp)
  then have "char_of (16 * (byte c div 16) + byte c mod 16) = c" by (simp add:)
  then show ?thesis
    using False \<open>byte c div 16 < 16\<close> by (simp add: encode_char_def hex_value_upper del: hex_value.simps)
qed

lemma decode_encode: "decode_job_id (encode_job_id job) = job"
  by (induction job) (simp_all add: encode_job_id_def decode_encode_char)

lemma encode_inj [simp]: "encode_job_id a = encode_job_id b \<longleftrightarrow> a = b"
  by (metis decode_encode)

section \<open>Operations and the disks they end on\<close>

definition quiet :: "store_env \<Rightarrow> bool" where
  "quiet env \<longleftrightarrow> (\<forall>k. fault env k = None)"

definition fs_error :: "store_error \<Rightarrow> bool" where
  "fs_error e \<longleftrightarrow> (\<exists>path. e = StoreIo path \<or> e = StoreJson path)"

lemma fs_error_simps [simp]: "fs_error (StoreIo path)" "fs_error (StoreJson path)" "fs_error (store_failure f path)"
  "\<not> fs_error (StoreInvalidTransition job st)" "\<not> fs_error (JobNotCancellable job st)" "\<not> fs_error (JobNotFound job)"
  by (simp_all add: fs_error_def store_failure_def)

definition wp :: "'a storing \<Rightarrow> (store_error + 'a \<Rightarrow> disk \<Rightarrow> bool) \<Rightarrow> disk \<Rightarrow> bool" where
  "wp m Q d \<longleftrightarrow> (\<forall>k. case m (d, k) of (r, d', k') \<Rightarrow> Q r d')"

lemma wpD: "wp m Q d \<Longrightarrow> m (d, k) = (r, d', k') \<Longrightarrow> Q r d'"
  by (auto simp: wp_def dest!: spec [of _ k])

lemma wp_mono: "wp m P d \<Longrightarrow> (\<And>r d'. P r d' \<Longrightarrow> Q r d') \<Longrightarrow> wp m Q d"
  unfolding wp_def by (metis (mono_tags, lifting) case_prodE case_prodI2 case_prodD)

lemma wp_give [wps]: "Q (Inr x) d \<Longrightarrow> wp (give x) Q d"
  by (simp add: wp_def give_def)

lemma wp_fail [wps]: "Q (Inl e) d \<Longrightarrow> wp (fail_with e) Q d"
  by (simp add: wp_def fail_with_def)

lemma wp_next [wps]:
  "wp m (\<lambda>r d'. case r of Inl e \<Rightarrow> Q (Inl e) d' | Inr v \<Rightarrow> wp (f v) Q d') d \<Longrightarrow> wp (next_do m f) Q d"
  by (force simp: wp_def next_do_def split: prod.splits sum.splits)

lemma wp_exists [wps]:
  "(\<And>b. (b \<longrightarrow> present d) \<Longrightarrow> (quiet env \<longrightarrow> b = present d) \<Longrightarrow> Q (Inr b) d) \<Longrightarrow> wp (fs_exists env present) Q d"
  by (simp add: wp_def fs_exists_def quiet_def)

lemma wp_now [wps]: "(\<And>t. 0 \<le> t \<Longrightarrow> t < 2 ^ 63 \<Longrightarrow> Q (Inr t) d) \<Longrightarrow> wp (now_ms env) Q d"
  by (simp add: wp_def now_ms_def)

lemma wp_action [wps]:
  assumes fail: "\<And>e. \<not> quiet env \<Longrightarrow> fs_error e \<Longrightarrow> Q (Inl e) d" and ended: "Q (result d) (effect d)"
  shows "wp (fs_action env path result effect) Q d"
proof -
  have "Q (Inl (store_failure f path)) d" if "fault env k = Some f" for f k
    by (rule fail) (use that in \<open>auto simp: quiet_def\<close>)
  then show ?thesis using ended by (simp add: wp_def fs_action_def split: option.split)
qed

lemma wp_read [wps]:
  "(\<And>e. \<not> quiet env \<or> content d = None \<Longrightarrow> fs_error e \<Longrightarrow> Q (Inl e) d) \<Longrightarrow> (\<And>v. content d = Some v \<Longrightarrow> Q (Inr v) d) \<Longrightarrow>
    wp (read_json env path content) Q d"
  unfolding read_json_def by (rule wp_action) (auto split: option.split)

lemma wp_read_optional [wps]:
  "(\<And>e. \<not> quiet env \<Longrightarrow> fs_error e \<Longrightarrow> Q (Inl e) d) \<Longrightarrow>
    (\<And>v. v \<noteq> None \<longrightarrow> v = content d \<Longrightarrow> quiet env \<longrightarrow> v = content d \<Longrightarrow> Q (Inr v) d) \<Longrightarrow>
    wp (read_optional_json env path content) Q d"
  unfolding read_optional_json_def by (intro wps) (auto intro!: wps)

lemma set_dir_same: "job_dirs d name = Some fs \<Longrightarrow> set_dir name fs d = d"
  by (cases d) (auto simp: set_dir_def)

lemma set_dir_twice [simp]: "set_dir name fs (set_dir name gs d) = set_dir name fs d"
  by (simp add: set_dir_def)

lemma job_dirs_set_dir [simp]: "job_dirs (set_dir name fs d) n = (if n = name then Some fs else job_dirs d n)"
  by (simp add: set_dir_def)

lemma index_set_dir [simp]: "index_file (set_dir name fs d) = index_file d"
  by (simp add: set_dir_def)

lemma dir_of_set_dir [simp]: "dir_of (set_dir name fs d) n = (if n = name then fs else dir_of d n)"
  by (simp add: dir_of_def)

lemma wp_write [wps]:
  "job_dirs d name = Some fs \<Longrightarrow> (\<And>e. \<not> quiet env \<Longrightarrow> fs_error e \<Longrightarrow> Q (Inl e) d) \<Longrightarrow> Q (Inr ()) (set_dir name (update fs) d) \<Longrightarrow>
    wp (atomic_write_file env name file update) Q d"
  unfolding atomic_write_file_def
  by (intro wps) (auto intro!: wps simp: dir_of_def set_dir_same)


section \<open>What the store keeps\<close>

definition files_ok :: "string \<Rightarrow> job_files \<Rightarrow> bool" where
  "files_ok name fs \<longleftrightarrow> (\<forall>s. state_file fs = Some s \<longrightarrow>
     (\<exists>r. request_file fs = Some r \<and> req_job_id r = state_job_id s) \<and> name = encode_job_id (state_job_id s) \<and>
     job_progress s \<le> 100 \<and> (is_active (status s) \<longleftrightarrow> completed_at s = None) \<and>
     (status s = Completed \<longrightarrow> result_file fs \<noteq> None \<and> job_progress s = 100) \<and>
     (status s = JobFailed \<longrightarrow> error_file fs \<noteq> None))"

definition entry_ok :: "disk \<Rightarrow> index_entry \<Rightarrow> bool" where
  "entry_ok d e \<longleftrightarrow> (\<exists>fs s r. job_dirs d (encode_job_id (entry_job_id e)) = Some fs \<and>
     state_file fs = Some s \<and> request_file fs = Some r \<and>
     entry_travel_mode e = req_travel_mode r \<and> entry_created_at e = created_at s \<and>
     (\<not> is_active (entry_status e) \<longrightarrow> entry_status e = status s))"

definition newest_first :: "index_entry list \<Rightarrow> bool" where
  "newest_first es \<longleftrightarrow> sorted (map (\<lambda>e. (- entry_created_at e, - entry_updated_at e)) es)"

definition index_ok :: "disk \<Rightarrow> index_entry list \<Rightarrow> bool" where
  "index_ok d es \<longleftrightarrow> distinct (map entry_job_id es) \<and> (\<forall>e\<in>set es. entry_ok d e)"

definition store_ok :: "disk \<Rightarrow> bool" where
  "store_ok d \<longleftrightarrow> finite (dom (job_dirs d)) \<and>
     (\<forall>name fs. job_dirs d name = Some fs \<longrightarrow> files_ok name fs) \<and>
     (\<forall>es. index_file d = Some es \<longrightarrow> index_ok d es \<and> newest_first es)"

text \<open>What may happen to a job over time.\<close>

definition job_advances :: "job_state \<Rightarrow> job_state \<Rightarrow> bool" where
  "job_advances s s' \<longleftrightarrow> state_job_id s' = state_job_id s \<and> created_at s' = created_at s \<and>
     job_progress s \<le> job_progress s' \<and> (status s = Running \<longrightarrow> status s' \<noteq> Pending) \<and>
     (\<forall>a. job_stage s = Some a \<longrightarrow> (\<exists>b. job_stage s' = Some b \<and> a \<le> b)) \<and>
     (\<not> is_active (status s) \<longrightarrow> s' = s)"

definition files_advance :: "job_files \<Rightarrow> job_files \<Rightarrow> bool" where
  "files_advance fs fs' \<longleftrightarrow> (\<forall>s. state_file fs = Some s \<longrightarrow>
     (\<exists>s'. state_file fs' = Some s' \<and> job_advances s s') \<and> request_file fs' = request_file fs \<and>
     (\<not> is_active (status s) \<longrightarrow> result_file fs' = result_file fs \<and> error_file fs' = error_file fs))"

definition evolves :: "disk \<Rightarrow> disk \<Rightarrow> bool" where
  "evolves d d' \<longleftrightarrow> (\<forall>name fs. job_dirs d name = Some fs \<longrightarrow>
     (\<exists>fs'. job_dirs d' name = Some fs' \<and> files_advance fs fs'))"

definition keeps :: "disk \<Rightarrow> disk \<Rightarrow> bool" where
  "keeps d d' \<longleftrightarrow> store_ok d' \<and> evolves d d'"

lemma job_advances_refl [simp]: "job_advances s s"
  by (simp add: job_advances_def)

lemma job_advances_trans:
  assumes "job_advances a b" and "job_advances b c"
  shows "job_advances a c"
proof (cases "is_active (status a)")
  case True
  have "\<exists>z. job_stage c = Some z \<and> x \<le> z" if "job_stage a = Some x" for x
    using that assms unfolding job_advances_def by (meson order_trans)
  moreover have "status c \<noteq> Pending" if "status a = Running"
    using that assms unfolding job_advances_def is_active_def by (cases "status b") auto
  ultimately show ?thesis using assms True by (auto simp: job_advances_def)
next
  case False
  then have "b = a" using assms(1) by (simp add: job_advances_def)
  then show ?thesis using assms(2) by simp
qed

lemma files_advance_refl [simp]: "files_advance fs fs"
  by (simp add: files_advance_def)

lemma files_advance_trans:
  assumes "files_advance a b" and "files_advance b c"
  shows "files_advance a c"
  unfolding files_advance_def
proof (intro allI impI)
  fix s assume s: "state_file a = Some s"
  then obtain s' where s': "state_file b = Some s'" "job_advances s s'"
    and ab: "request_file b = request_file a"
      "\<not> is_active (status s) \<longrightarrow> result_file b = result_file a \<and> error_file b = error_file a"
    using assms(1) unfolding files_advance_def by blast
  then obtain s'' where s'': "state_file c = Some s''" "job_advances s' s''"
    and bc: "request_file c = request_file b"
      "\<not> is_active (status s') \<longrightarrow> result_file c = result_file b \<and> error_file c = error_file b"
    using assms(2) unfolding files_advance_def by blast
  have "s' = s" if "\<not> is_active (status s)" using that s'(2) by (simp add: job_advances_def)
  then show "(\<exists>s'. state_file c = Some s' \<and> job_advances s s') \<and> request_file c = request_file a \<and>
      (\<not> is_active (status s) \<longrightarrow> result_file c = result_file a \<and> error_file c = error_file a)"
    using job_advances_trans [OF s'(2) s''(2)] s''(1) ab bc by auto
qed

lemma evolves_refl [simp]: "evolves d d"
  by (simp add: evolves_def)

lemma evolves_trans: "evolves a b \<Longrightarrow> evolves b c \<Longrightarrow> evolves a c"
  unfolding evolves_def by (meson files_advance_trans)

lemma keeps_refl: "store_ok d \<Longrightarrow> keeps d d"
  by (simp add: keeps_def)

lemma keeps_trans: "keeps a b \<Longrightarrow> keeps b c \<Longrightarrow> keeps a c"
  by (auto simp: keeps_def intro: evolves_trans)

lemma files_advance_entry:
  assumes "entry_ok d e" and "job_dirs d name = Some fs" and "files_advance fs fs'"
  shows "entry_ok (set_dir name fs' d) e"
  using assms by (auto simp: entry_ok_def files_advance_def job_advances_def)

text \<open>A write to the files of a job that has its directory.\<close>

lemma keeps_files:
  assumes "store_ok d" and "job_dirs d name = Some fs" and "files_ok name fs'" and "files_advance fs fs'"
  shows "keeps d (set_dir name fs' d)"
proof -
  have "index_ok (set_dir name fs' d) es" if "index_ok d es" for es
    using that files_advance_entry [OF _ assms(2,4)] by (simp add: index_ok_def)
  then have "store_ok (set_dir name fs' d)"
    using assms(1,3) by (auto simp: store_ok_def set_dir_def index_ok_def)
  then show ?thesis using assms(2,4) by (auto simp: keeps_def evolves_def)
qed

text \<open>A write to a directory just made, in which there is no state yet.\<close>

lemma keeps_new_dir:
  assumes "store_ok d" and "job_dirs d name = None" and "state_file fs = None"
  shows "keeps d (set_dir name fs d)"
proof -
  have "entry_ok (set_dir name fs d) e" if "entry_ok d e" for e
    using that assms(2) by (auto simp: entry_ok_def)
  then have "index_ok (set_dir name fs d) es" if "index_ok d es" for es using that by (auto simp: index_ok_def)
  moreover have "files_ok name fs" using assms(3) by (simp add: files_ok_def)
  ultimately have "store_ok (set_dir name fs d)" using assms(1) by (auto simp: store_ok_def set_dir_def)
  then show ?thesis using assms(2) by (auto simp: keeps_def evolves_def)
qed

lemma sort_index_newest [simp]: "newest_first (sort_index es)"
  by (simp add: newest_first_def sort_index_def)

lemma sort_index_ok: "index_ok d (sort_index es) \<longleftrightarrow> index_ok d es"
proof -
  have "mset (map entry_job_id (sort_index es)) = mset (map entry_job_id es)" by (simp add: sort_index_def)
  then have "distinct (map entry_job_id (sort_index es)) = distinct (map entry_job_id es)"
    by (rule mset_eq_imp_distinct_iff)
  then show ?thesis by (simp add: index_ok_def sort_index_def)
qed

lemma entry_ok_index [simp]: "entry_ok (d\<lparr>index_file := x\<rparr>) e \<longleftrightarrow> entry_ok d e"
  by (simp add: entry_ok_def)

lemma index_ok_index [simp]: "index_ok (d\<lparr>index_file := x\<rparr>) es \<longleftrightarrow> index_ok d es"
  by (simp add: index_ok_def)

lemma keeps_index: "store_ok d \<Longrightarrow> index_ok d es \<Longrightarrow> keeps d (d\<lparr>index_file := Some (sort_index es)\<rparr>)"
  by (simp add: keeps_def store_ok_def evolves_def sort_index_ok)

text \<open>The index after a write of a job's state.\<close>

definition index_list :: "disk \<Rightarrow> index_entry list" where
  "index_list d = (case index_file d of None \<Rightarrow> [] | Some es \<Rightarrow> es)"

definition reindexed :: "job_state \<Rightarrow> index_entry list \<Rightarrow> disk \<Rightarrow> disk" where
  "reindexed s es d = d\<lparr>index_file := Some (sort_index
     (index_entry_of s (Option.bind (files_of (encode_job_id (state_job_id s)) request_file d) req_travel_mode) #
      filter (\<lambda>e. entry_job_id e \<noteq> state_job_id s) es))\<rparr>"

lemma wp_update_index [wps]:
  assumes "files_of (encode_job_id (state_job_id s)) request_file d = Some r"
    and "\<And>e. \<not> quiet env \<Longrightarrow> fs_error e \<Longrightarrow> Q (Inl e) d"
    and "\<And>es. es = [] \<or> es = index_list d \<Longrightarrow> quiet env \<longrightarrow> es = index_list d \<Longrightarrow> Q (Inr ()) (reindexed s es d)"
  shows "wp (update_index_entry env s) Q d"
proof -
  have empty: "\<not> quiet env \<or> index_file d = None \<Longrightarrow> Q (Inr ()) (reindexed s [] d)"
    using assms(3) [of "[]"] by (auto simp: index_list_def)
  have whole: "index_file d = Some es \<Longrightarrow> Q (Inr ()) (reindexed s es d)" for es
    using assms(3) [of "index_list d"] by (simp add: index_list_def)
  show ?thesis
    unfolding update_index_entry_def Let_def read_index_def atomic_write_index_def
    by (intro wps) (use assms(1,2) empty whole in \<open>auto intro!: wps simp: reindexed_def\<close>)
qed

lemma keeps_reindexed:
  assumes ok: "store_ok d" and dir: "job_dirs d (encode_job_id (state_job_id s)) = Some fs" "state_file fs = Some s"
    and es: "es = [] \<or> es = index_list d"
  shows "keeps d (reindexed s es d)"
proof -
  obtain r where r: "request_file fs = Some r"
    using ok dir unfolding store_ok_def files_ok_def by blast
  have "index_ok d es" using ok es by (auto simp: store_ok_def index_list_def index_ok_def split: option.splits)
  moreover have "entry_ok d (index_entry_of s (req_travel_mode r))"
    using dir r by (auto simp: entry_ok_def index_entry_of_def)
  ultimately have "index_ok d (index_entry_of s (req_travel_mode r) # filter (\<lambda>e. entry_job_id e \<noteq> state_job_id s) es)"
    by (auto simp: index_ok_def index_entry_of_def distinct_map_filter)
  then show ?thesis using keeps_index [OF ok] dir r by (simp add: reindexed_def files_of_def)
qed

text \<open>Writing a state, and then the index.\<close>

definition put_state :: "job_state \<Rightarrow> disk \<Rightarrow> disk" where
  "put_state s d = (let name = encode_job_id (state_job_id s) in
     set_dir name ((dir_of d name)\<lparr>state_file := Some s\<rparr>) d)"

lemma wp_write_state [wps]:
  "job_dirs d (encode_job_id (state_job_id s)) = Some fs \<Longrightarrow> (\<And>e. \<not> quiet env \<Longrightarrow> fs_error e \<Longrightarrow> Q (Inl e) d) \<Longrightarrow>
    Q (Inr ()) (put_state s d) \<Longrightarrow> wp (write_state env s) Q d"
  unfolding write_state_def by (rule wp_write) (auto simp: put_state_def dir_of_def)

text \<open>A state that may replace the one a job has.\<close>

definition may_follow :: "job_files \<Rightarrow> job_state \<Rightarrow> bool" where
  "may_follow fs s \<longleftrightarrow> (\<exists>old. state_file fs = Some old \<and> job_advances old s) \<and> job_progress s \<le> 100 \<and>
     (is_active (status s) \<longleftrightarrow> completed_at s = None) \<and>
     (status s = Completed \<longrightarrow> result_file fs \<noteq> None \<and> job_progress s = 100) \<and>
     (status s = JobFailed \<longrightarrow> error_file fs \<noteq> None)"

lemma store_okD:
  assumes "store_ok d" and "job_dirs d name = Some fs" and "state_file fs = Some s"
  shows "name = encode_job_id (state_job_id s)" "job_progress s \<le> 100"
    "is_active (status s) \<longleftrightarrow> completed_at s = None"
    "status s = Completed \<Longrightarrow> result_file fs \<noteq> None \<and> job_progress s = 100"
    "status s = JobFailed \<Longrightarrow> error_file fs \<noteq> None"
    "\<exists>r. request_file fs = Some r \<and> req_job_id r = state_job_id s"
  using assms unfolding store_ok_def files_ok_def by blast+

lemma keeps_put_state:
  assumes "store_ok d" and "job_dirs d (encode_job_id (state_job_id s)) = Some fs" and "may_follow fs s"
  shows "keeps d (put_state s d)"
proof -
  obtain old where old: "state_file fs = Some old" "job_advances old s" using assms(3) by (auto simp: may_follow_def)
  note o = store_okD [OF assms(1,2) old(1)]
  have "files_ok (encode_job_id (state_job_id s)) (fs\<lparr>state_file := Some s\<rparr>)"
    using assms(3) o(6) old(2) by (auto simp: files_ok_def may_follow_def job_advances_def)
  moreover have "files_advance fs (fs\<lparr>state_file := Some s\<rparr>)"
    using old by (simp add: files_advance_def)
  ultimately show ?thesis
    using keeps_files [OF assms(1,2)] assms(2) by (simp add: put_state_def dir_of_def)
qed

lemma keeps_written:
  assumes "keeps d (put_state s d)" and "es = [] \<or> es = index_list d"
  shows "keeps d (reindexed s es (put_state s d))"
proof -
  have "store_ok (put_state s d)" using assms(1) by (simp add: keeps_def)
  then have "keeps (put_state s d) (reindexed s es (put_state s d))"
    by (rule keeps_reindexed [where fs = "(dir_of d (encode_job_id (state_job_id s)))\<lparr>state_file := Some s\<rparr>"])
      (use assms(2) in \<open>simp_all add: put_state_def index_list_def Let_def\<close>)
  then show ?thesis by (rule keeps_trans [OF assms(1)])
qed

lemma files_of_put_state [simp]:
  "files_of name request_file (put_state s d) = (if job_dirs d name = None \<and> name \<noteq> encode_job_id (state_job_id s) then None
     else request_file (dir_of d name))"
  by (auto simp: files_of_def put_state_def dir_of_def no_files_def Let_def split: option.splits)

lemma index_list_put_state [simp]: "index_list (put_state s d) = index_list d"
  by (simp add: index_list_def put_state_def Let_def)

text \<open>A state written over the one before it, and the index after it: what an operation ends with.\<close>

lemma wp_store_state:
  assumes "store_ok d" and "job_dirs d (encode_job_id (state_job_id s)) = Some fs" and "may_follow fs s"
    and "\<And>e d'. \<not> quiet env \<Longrightarrow> fs_error e \<Longrightarrow> keeps d d' \<Longrightarrow> Q (Inl e) d'"
    and "\<And>es. keeps d (reindexed s es (put_state s d)) \<Longrightarrow> quiet env \<longrightarrow> es = index_list d \<Longrightarrow>
      wp m Q (reindexed s es (put_state s d))"
  shows "wp (next_do (write_state env s) (\<lambda>_. next_do (update_index_entry env s) (\<lambda>_. m))) Q d"
proof -
  have put: "keeps d (put_state s d)" by (rule keeps_put_state [OF assms(1-3)])
  obtain old where "state_file fs = Some old" "job_advances old s" using assms(3) by (auto simp: may_follow_def)
  then obtain r where r: "request_file fs = Some r" using store_okD(6) [OF assms(1,2)] by blast
  have request: "files_of (encode_job_id (state_job_id s)) request_file (put_state s d) = Some r"
    using assms(2) r by (simp add: dir_of_def)
  show ?thesis
    by (intro wp_next wp_write_state [OF assms(2)])
      (auto intro!: wp_next wp_update_index [OF request] assms(4,5) keeps_refl assms(1) put
        intro: keeps_written [OF put])
qed

lemma wp_store_last:
  assumes "store_ok d" and "job_dirs d (encode_job_id (state_job_id s)) = Some fs" and "may_follow fs s"
    and "\<And>e d'. \<not> quiet env \<Longrightarrow> fs_error e \<Longrightarrow> keeps d d' \<Longrightarrow> Q (Inl e) d'"
    and "\<And>es. keeps d (reindexed s es (put_state s d)) \<Longrightarrow> quiet env \<longrightarrow> es = index_list d \<Longrightarrow>
      Q (Inr ()) (reindexed s es (put_state s d))"
  shows "wp (next_do (write_state env s) (\<lambda>_. update_index_entry env s)) Q d"
proof -
  have "next_do (update_index_entry env s) (\<lambda>_. give ()) = update_index_entry env s"
    by (rule ext) (simp add: next_do_def give_def split: prod.split sum.split)
  moreover have "wp (next_do (write_state env s) (\<lambda>_. next_do (update_index_entry env s) (\<lambda>_. give ()))) Q d"
    by (rule wp_store_state [OF assms(1-3)]) (use assms(4,5) in \<open>auto intro: wp_give\<close>)
  ultimately show ?thesis by simp
qed

lemma wp_read_state [wps]:
  assumes "\<And>e. \<not> quiet env \<or> files_of (encode_job_id job) state_file d = None \<Longrightarrow> fs_error e \<Longrightarrow> Q (Inl e) d"
    and "\<And>fs s. job_dirs d (encode_job_id job) = Some fs \<Longrightarrow> state_file fs = Some s \<Longrightarrow> Q (Inr s) d"
  shows "wp (read_state env job) Q d"
  unfolding read_state_def Let_def
  by (rule wp_read) (use assms in \<open>auto simp: files_of_def split: Option.bind_splits\<close>)

end
