(* ===== verification/Storage_Facts.thy ===== *)
theory Storage_Facts
  imports Storage_Invariant
begin

text \<open>
  What the operations of the job store keep whatever action of the file system fails, and what
  they do when none fails.
\<close>

section \<open>Every operation keeps it\<close>

lemma wp_mutate:
  assumes ok: "store_ok d"
    and fail: "\<And>e. \<not> quiet env \<or> files_of (encode_job_id job) state_file d = None \<Longrightarrow> fs_error e \<Longrightarrow> Q (Inl e) d"
    and rejected: "\<And>fs s e. job_dirs d (encode_job_id job) = Some fs \<Longrightarrow> state_file fs = Some s \<Longrightarrow>
      mutate s = Inl e \<Longrightarrow> Q (Inl e) d"
    and follow: "\<And>fs s s' t. job_dirs d (encode_job_id job) = Some fs \<Longrightarrow> state_file fs = Some s \<Longrightarrow>
      mutate s = Inr s' \<Longrightarrow> may_follow fs (s'\<lparr>updated_at := t\<rparr>)"
    and torn: "\<And>e d'. \<not> quiet env \<Longrightarrow> fs_error e \<Longrightarrow> keeps d d' \<Longrightarrow> Q (Inl e) d'"
    and ended: "\<And>fs s s' t es. job_dirs d (encode_job_id job) = Some fs \<Longrightarrow> state_file fs = Some s \<Longrightarrow>
      mutate s = Inr s' \<Longrightarrow> quiet env \<longrightarrow> es = index_list d \<Longrightarrow>
      keeps d (reindexed (s'\<lparr>updated_at := t\<rparr>) es (put_state (s'\<lparr>updated_at := t\<rparr>) d)) \<Longrightarrow>
      Q (Inr ()) (reindexed (s'\<lparr>updated_at := t\<rparr>) es (put_state (s'\<lparr>updated_at := t\<rparr>) d))"
  shows "wp (mutate_state env job mutate) Q d"
  unfolding mutate_state_def
proof (intro wp_next wp_read_state)
  fix fs s assume s: "job_dirs d (encode_job_id job) = Some fs" "state_file fs = Some s"
  have id: "state_job_id s = job" using store_okD(1) [OF ok s] by simp
  show "case Inr s of Inl e \<Rightarrow> Q (Inl e) d | Inr v \<Rightarrow> wp (case mutate v of Inl e \<Rightarrow> fail_with e
      | Inr s' \<Rightarrow> next_do (now_ms env) (\<lambda>now. let s'' = s'\<lparr>updated_at := now\<rparr> in
          next_do (write_state env s'') (\<lambda>_. update_index_entry env s''))) Q d"
  proof (cases "mutate s")
    case (Inr s')
    have "wp (next_do (write_state env (s'\<lparr>updated_at := t\<rparr>)) (\<lambda>_. update_index_entry env (s'\<lparr>updated_at := t\<rparr>))) Q d" for t
    proof (rule wp_store_last [OF ok])
      show "may_follow fs (s'\<lparr>updated_at := t\<rparr>)" by (rule follow [OF s Inr])
      then have "state_job_id s' = state_job_id s" using s(2) by (auto simp: may_follow_def job_advances_def)
      then show "job_dirs d (encode_job_id (state_job_id (s'\<lparr>updated_at := t\<rparr>))) = Some fs" using s(1) id by simp
    qed (use torn ended [OF s Inr] in blast)+
    then show ?thesis using Inr by (auto intro!: wp_next wp_now simp: Let_def)
  qed (use rejected [OF s] in \<open>simp add: wp_fail\<close>)
qed (use fail in simp)


lemma wp_dir_present [wps]:
  assumes "\<And>b. b \<longrightarrow> job_dirs d (encode_job_id job) \<noteq> None \<Longrightarrow>
      quiet env \<longrightarrow> b = (job_dirs d (encode_job_id job) \<noteq> None) \<Longrightarrow> Q (Inr b) d"
  shows "wp (dir_present env job) Q d"
  unfolding dir_present_def by (rule wp_exists) (use assms in auto)

lemma running_follows:
  assumes "store_ok d" and "job_dirs d name = Some fs" and "state_file fs = Some s" and "running_state job s = Inr s'"
  shows "may_follow fs (s'\<lparr>updated_at := t\<rparr>)"
  using store_okD [OF assms(1-3)] assms(3,4)
  by (auto simp: running_state_def may_follow_def job_advances_def is_active_def split: if_splits)

lemma progressed_follows:
  assumes "store_ok d" and "job_dirs d name = Some fs" and "state_file fs = Some s"
    and "progressed_state job stage pct message s = Inr s'"
  shows "may_follow fs (s'\<lparr>updated_at := t\<rparr>)"
  using store_okD [OF assms(1-3)] assms(3,4)
  by (auto simp: progressed_state_def may_follow_def job_advances_def is_active_def split: if_splits option.splits)

lemma mark_running_keeps: "store_ok d \<Longrightarrow> wp (mark_running env job) (\<lambda>_. keeps d) d"
  unfolding mark_running_def by (rule wp_mutate) (auto intro: keeps_refl running_follows)

lemma update_progress_keeps: "store_ok d \<Longrightarrow> wp (update_progress env job stage pct message) (\<lambda>_. keeps d) d"
  unfolding update_progress_def by (rule wp_mutate) (auto intro: keeps_refl progressed_follows)

lemma cancelled_follows:
  assumes "store_ok d" and "job_dirs d name = Some fs" and "state_file fs = Some s" and "is_active (status s)"
  shows "may_follow fs (s\<lparr>status := JobCancelled, last_message := m, updated_at := t, completed_at := Some t\<rparr>)"
  using store_okD [OF assms(1-3)] assms(3,4)
  by (auto simp: may_follow_def job_advances_def is_active_def)

text \<open>The state in which an operation finds a job, and the one it leaves.\<close>

definition job_at :: "disk \<Rightarrow> string \<Rightarrow> job_files \<Rightarrow> job_state \<Rightarrow> bool" where
  "job_at d job fs s \<longleftrightarrow> job_dirs d (encode_job_id job) = Some fs \<and> state_file fs = Some s"

lemma job_at_id: "store_ok d \<Longrightarrow> job_at d job fs s \<Longrightarrow> state_job_id s = job"
  using store_okD(1) by (fastforce simp: job_at_def)

definition cancelled_state :: "job_state \<Rightarrow> string \<Rightarrow> i64 \<Rightarrow> job_state" where
  "cancelled_state s message t =
     s\<lparr>status := JobCancelled, last_message := Some message, updated_at := t, completed_at := Some t\<rparr>"

lemma wp_cancel_job:
  assumes ok: "store_ok d"
    and missing: "job_dirs d (encode_job_id job) = None \<or> \<not> quiet env \<Longrightarrow> Q (Inl (JobNotFound job)) d"
    and fail: "\<And>e. \<not> quiet env \<or> files_of (encode_job_id job) state_file d = None \<Longrightarrow> fs_error e \<Longrightarrow> Q (Inl e) d"
    and finished: "\<And>fs s. job_at d job fs s \<Longrightarrow> \<not> is_active (status s) \<Longrightarrow> Q (Inl (JobNotCancellable job (status s))) d"
    and torn: "\<And>e d'. \<not> quiet env \<Longrightarrow> fs_error e \<Longrightarrow> keeps d d' \<Longrightarrow> Q (Inl e) d'"
    and ended: "\<And>fs s t es. job_at d job fs s \<Longrightarrow> is_active (status s) \<Longrightarrow> quiet env \<longrightarrow> es = index_list d \<Longrightarrow>
      keeps d (reindexed (cancelled_state s message t) es (put_state (cancelled_state s message t) d)) \<Longrightarrow>
      Q (Inr (cancelled_state s message t))
        (reindexed (cancelled_state s message t) es (put_state (cancelled_state s message t) d))"
  shows "wp (cancel_job env job message) Q d"
proof -
  have store: "wp (let s' = cancelled_state s message t in
      next_do (write_state env s') (\<lambda>_. next_do (update_index_entry env s') (\<lambda>_. give s'))) Q d"
    if at: "job_at d job fs s" and act: "is_active (status s)" for fs s t
    unfolding Let_def
  proof (rule wp_store_state [OF ok])
    show "job_dirs d (encode_job_id (state_job_id (cancelled_state s message t))) = Some fs"
      using at job_at_id [OF ok at] by (simp add: cancelled_state_def job_at_def)
    show "may_follow fs (cancelled_state s message t)"
      using cancelled_follows [OF ok] at act unfolding cancelled_state_def job_at_def by blast
  qed (use torn ended [OF at act] in \<open>auto intro: wp_give\<close>)
  show ?thesis
    unfolding cancel_job_def cancelled_state_def [symmetric]
    by (intro wps) (use missing fail finished store in \<open>auto intro!: wps simp: job_at_def\<close>)
qed

lemma cancel_job_keeps: "store_ok d \<Longrightarrow> wp (cancel_job env job message) (\<lambda>_. keeps d) d"
  by (rule wp_cancel_job) (auto intro: keeps_refl)

lemma wp_prepare [wps]:
  assumes ok: "store_ok d"
    and missing: "job_dirs d (encode_job_id job) = None \<or> \<not> quiet env \<Longrightarrow> Q (Inl (JobNotFound job)) d"
    and fail: "\<And>e. \<not> quiet env \<or> files_of (encode_job_id job) state_file d = None \<Longrightarrow> fs_error e \<Longrightarrow> Q (Inl e) d"
    and finished: "\<And>fs s. job_at d job fs s \<Longrightarrow> status s \<noteq> Running \<Longrightarrow> status s \<noteq> JobCancelled \<Longrightarrow>
      Q (Inl (StoreInvalidTransition job (status s))) d"
    and cancelled: "\<And>fs s. job_at d job fs s \<Longrightarrow> status s = JobCancelled \<Longrightarrow> Q (Inr None) d"
    and ready: "\<And>fs s. job_at d job fs s \<Longrightarrow> status s = Running \<Longrightarrow> Q (Inr (Some s)) d"
  shows "wp (prepare_terminal_write env job) Q d"
  unfolding prepare_terminal_write_def
  by (intro wps) (use assms in \<open>auto intro!: wps simp: job_at_def\<close>)

text \<open>Writing the payload of a running job, and then its terminal state.\<close>

lemma terminal_follows:
  assumes "store_ok d" and "job_at d job fs s" and "status s = Running"
    and "st = Completed \<and> result_file fs \<noteq> None \<or> st = JobFailed \<and> error_file fs \<noteq> None"
  shows "may_follow fs (terminal_state s st t)"
  using store_okD [OF assms(1), of "encode_job_id job" fs s] assms(2-4)
  by (auto simp: may_follow_def job_advances_def is_active_def terminal_state_def job_at_def)

lemma wp_commit:
  assumes ok: "store_ok d" and at: "job_at d job fs s" and run: "status s = Running"
    and payload: "st = Completed \<and> result_file fs \<noteq> None \<or> st = JobFailed \<and> error_file fs \<noteq> None"
    and torn: "\<And>e d'. \<not> quiet env \<Longrightarrow> fs_error e \<Longrightarrow> keeps d d' \<Longrightarrow> Q (Inl e) d'"
    and ended: "\<And>t es. quiet env \<longrightarrow> es = index_list d \<Longrightarrow>
      keeps d (reindexed (terminal_state s st t) es (put_state (terminal_state s st t) d)) \<Longrightarrow>
      Q (Inr ()) (reindexed (terminal_state s st t) es (put_state (terminal_state s st t) d))"
  shows "wp (commit_terminal_state env s st) Q d"
proof -
  have "wp (next_do (write_state env (terminal_state s st t)) (\<lambda>_. update_index_entry env (terminal_state s st t))) Q d" for t
    by (rule wp_store_last [OF ok _ terminal_follows [OF ok at run payload]])
      (use torn ended at job_at_id [OF ok at] in \<open>auto simp: terminal_state_def job_at_def\<close>)
  then show ?thesis
    unfolding commit_terminal_state_def Let_def by (intro wps) simp
qed

text \<open>The disk with a payload of the job written.\<close>

definition put_payload :: "string \<Rightarrow> (job_files \<Rightarrow> job_files) \<Rightarrow> disk \<Rightarrow> disk" where
  "put_payload job update d = (let name = encode_job_id job in set_dir name (update (dir_of d name)) d)"

lemma keeps_payload:
  assumes ok: "store_ok d" and at: "job_at d job fs s" and run: "is_active (status s)"
    and update: "state_file (update fs) = state_file fs" "request_file (update fs) = request_file fs"
  shows "keeps d (put_payload job update d)" "job_at (put_payload job update d) job (update fs) s"
proof -
  have dir: "job_dirs d (encode_job_id job) = Some fs" "state_file fs = Some s" using at by (auto simp: job_at_def)
  note o = store_okD [OF ok dir]
  have "files_ok (encode_job_id job) (update fs)"
    using o dir run update by (auto simp: files_ok_def is_active_def)
  moreover have "files_advance fs (update fs)"
    using dir run update by (simp add: files_advance_def)
  ultimately show "keeps d (put_payload job update d)"
    using keeps_files [OF ok dir(1)] dir by (simp add: put_payload_def dir_of_def)
  show "job_at (put_payload job update d) job (update fs) s"
    using dir update by (simp add: put_payload_def job_at_def dir_of_def Let_def)
qed

definition finished_disk :: "job_state \<Rightarrow> job_status \<Rightarrow> i64 \<Rightarrow> index_entry list \<Rightarrow> disk \<Rightarrow> disk" where
  "finished_disk s st t es d = reindexed (terminal_state s st t) es (put_state (terminal_state s st t) d)"

lemma wp_save:
  assumes ok: "store_ok d"
    and missing: "job_dirs d (encode_job_id job) = None \<or> \<not> quiet env \<Longrightarrow> Q (Inl (JobNotFound job)) d"
    and fail: "\<And>e. \<not> quiet env \<or> files_of (encode_job_id job) state_file d = None \<Longrightarrow> fs_error e \<Longrightarrow> Q (Inl e) d"
    and finished: "\<And>fs s. job_at d job fs s \<Longrightarrow> status s \<noteq> Running \<Longrightarrow> status s \<noteq> JobCancelled \<Longrightarrow>
      Q (Inl (StoreInvalidTransition job (status s))) d"
    and cancelled: "\<And>fs s. job_at d job fs s \<Longrightarrow> status s = JobCancelled \<Longrightarrow> Q (Inr WriteCancelled) d"
    and torn: "\<And>e d'. \<not> quiet env \<Longrightarrow> fs_error e \<Longrightarrow> keeps d d' \<Longrightarrow> Q (Inl e) d'"
    and update: "\<And>fs. state_file (update fs) = state_file fs" "\<And>fs. request_file (update fs) = request_file fs"
      "\<And>fs. st = Completed \<and> result_file (update fs) \<noteq> None \<or> st = JobFailed \<and> error_file (update fs) \<noteq> None"
    and ended: "\<And>fs s t es. job_at d job fs s \<Longrightarrow> status s = Running \<Longrightarrow> quiet env \<longrightarrow> es = index_list d \<Longrightarrow>
      keeps d (finished_disk s st t es (put_payload job update d)) \<Longrightarrow>
      Q (Inr Applied) (finished_disk s st t es (put_payload job update d))"
  shows "wp (next_do (prepare_terminal_write env job) (\<lambda>ready. case ready of
       None \<Rightarrow> give WriteCancelled
     | Some s \<Rightarrow>
         next_do (atomic_write_file env (encode_job_id job) file update) (\<lambda>_.
         next_do (commit_terminal_state env s st) (\<lambda>_. give Applied)))) Q d"
proof -
  have writes: "wp (next_do (atomic_write_file env (encode_job_id job) file update) (\<lambda>_.
      next_do (commit_terminal_state env s st) (\<lambda>_. give Applied))) Q d"
    if at: "job_at d job fs s" and run: "status s = Running" for fs s
  proof -
    have active: "is_active (status s)" using run by (simp add: is_active_def)
    note paid = keeps_payload [OF ok at active, of update, OF update(1,2)]
    have ok': "store_ok (put_payload job update d)" using paid(1) by (simp add: keeps_def)
    have dir: "job_dirs d (encode_job_id job) = Some fs" using at by (simp add: job_at_def)
    have list: "index_list (put_payload job update d) = index_list d"
      by (simp add: index_list_def put_payload_def Let_def)
    have commit: "wp (next_do (commit_terminal_state env s st) (\<lambda>_. give Applied)) Q (put_payload job update d)"
      by (intro wp_next wp_commit [OF ok' paid(2) run update(3)])
        (auto intro!: wp_give torn ended [OF at run] intro: keeps_trans [OF paid(1)] simp: list finished_disk_def [symmetric])
    then show ?thesis
      by (intro wp_next wp_write [OF dir]) (use torn keeps_refl [OF ok] dir in \<open>auto simp: put_payload_def dir_of_def Let_def\<close>)
  qed
  show ?thesis
    by (intro wp_next wp_prepare [OF ok]) (use missing fail finished cancelled writes in \<open>auto intro!: wp_give\<close>)
qed

lemma save_result_keeps: "store_ok d \<Longrightarrow> wp (save_result env job result) (\<lambda>_. keeps d) d"
  unfolding save_result_def by (rule wp_save) (auto intro: keeps_refl)

lemma save_error_keeps: "store_ok d \<Longrightarrow> wp (save_error env job e) (\<lambda>_. keeps d) d"
  unfolding save_error_def by (rule wp_save) (auto intro: keeps_refl)


section \<open>Creation, recovery and the logs\<close>

lemma wp_write_new:
  assumes "\<And>e. \<not> quiet env \<Longrightarrow> fs_error e \<Longrightarrow> Q (Inl e) d" and "\<And>e. \<not> quiet env \<Longrightarrow> fs_error e \<Longrightarrow> Q (Inl e) (set_dir name (dir_of d name) d)"
    and "Q (Inr ()) (set_dir name (update (dir_of d name)) d)"
  shows "wp (atomic_write_file env name file update) Q d"
  unfolding atomic_write_file_def by (intro wps) (use assms in \<open>auto intro!: wps\<close>)

definition fresh_state :: "string \<Rightarrow> i64 \<Rightarrow> job_state" where
  "fresh_state job t = \<lparr>state_job_id = job, status = Pending, job_stage = None, job_progress = 0, last_message = None,
     created_at = t, updated_at = t, completed_at = None\<rparr>"

lemma fresh_state_id [simp]: "state_job_id (fresh_state job t) = job"
  by (simp add: fresh_state_def)

definition fresh_files :: "optimize_request \<Rightarrow> job_files" where
  "fresh_files r = no_files\<lparr>request_file := Some r, sequence_file := Some 0\<rparr>"

lemma fresh_files_simps [simp]: "state_file (fresh_files r) = None" "request_file (fresh_files r) = Some r"
  by (simp_all add: fresh_files_def no_files_def)

definition created_disk :: "optimize_request \<Rightarrow> i64 \<Rightarrow> index_entry list \<Rightarrow> disk \<Rightarrow> disk" where
  "created_disk r t es d = (let s = fresh_state (req_job_id r) t in
     reindexed s es (set_dir (encode_job_id (req_job_id r)) ((fresh_files r)\<lparr>state_file := Some s\<rparr>) d))"

lemma keeps_created:
  fixes t :: i64
  assumes ok: "store_ok d" and new: "job_dirs d (encode_job_id (req_job_id r)) = None" and es: "es = [] \<or> es = index_list d"
  defines "s \<equiv> fresh_state (req_job_id r) t"
  defines "d' \<equiv> set_dir (encode_job_id (req_job_id r)) ((fresh_files r)\<lparr>state_file := Some s\<rparr>) d"
  shows "keeps d d'" "keeps d (created_disk r t es d)"
proof -
  have "entry_ok d' e" if "entry_ok d e" for e
    using that new by (auto simp: entry_ok_def d'_def)
  then have "index_ok d' es" if "index_ok d es" for es using that by (auto simp: index_ok_def)
  moreover have "files_ok (encode_job_id (req_job_id r)) ((fresh_files r)\<lparr>state_file := Some s\<rparr>)"
    by (simp add: files_ok_def fresh_files_def s_def fresh_state_def is_active_def)
  ultimately have "store_ok d'" using ok by (auto simp: store_ok_def set_dir_def d'_def)
  moreover have "evolves d d'" using new by (auto simp: evolves_def d'_def)
  ultimately show first: "keeps d d'" by (simp add: keeps_def)
  have "keeps d' (reindexed s es d')"
    by (rule keeps_reindexed [where fs = "(fresh_files r)\<lparr>state_file := Some s\<rparr>"])
      (use \<open>store_ok d'\<close> es in \<open>simp_all add: d'_def s_def fresh_state_def index_list_def\<close>)
  then show "keeps d (created_disk r t es d)"
    using keeps_trans [OF first] by (simp add: created_disk_def d'_def s_def Let_def)
qed

lemma wp_create_job:
  assumes ok: "store_ok d"
    and dup: "job_dirs d (encode_job_id (req_job_id r)) \<noteq> None \<Longrightarrow> Q (Inl (DuplicateJob (req_job_id r))) d"
    and torn: "\<And>e d'. \<not> quiet env \<Longrightarrow> fs_error e \<Longrightarrow> keeps d d' \<Longrightarrow> Q (Inl e) d'"
    and ended: "\<And>t es. job_dirs d (encode_job_id (req_job_id r)) = None \<Longrightarrow> quiet env \<longrightarrow> es = index_list d \<Longrightarrow>
      keeps d (created_disk r t es d) \<Longrightarrow> Q (Inr (fresh_state (req_job_id r) t)) (created_disk r t es d)"
  shows "wp (create_job env r) Q d"
proof (cases "job_dirs d (encode_job_id (req_job_id r)) = None")
  case False
  then show ?thesis
    unfolding create_job_def ensure_directories_def Let_def
    by (intro wps) (use torn [OF _ _ keeps_refl [OF ok]] dup in \<open>auto intro!: wps\<close>)
next
  case True
  let ?name = "encode_job_id (req_job_id r)"
  have new: "keeps d (set_dir ?name fs d)" if "state_file fs = None" for fs
    by (rule keeps_new_dir [OF ok True that])
  have store: "wp (next_do (write_state env (fresh_state (req_job_id r) t)) (\<lambda>_.
      next_do (update_index_entry env (fresh_state (req_job_id r) t)) (\<lambda>_. give (fresh_state (req_job_id r) t))))
      Q (set_dir ?name (fresh_files r) d)" for t
  proof -
    have put: "put_state (fresh_state (req_job_id r) t) (set_dir ?name (fresh_files r) d) =
        set_dir ?name ((fresh_files r)\<lparr>state_file := Some (fresh_state (req_job_id r) t)\<rparr>) d"
      by (simp add: put_state_def fresh_state_def Let_def)
    have list: "index_list (set_dir ?name fs d) = index_list d" for fs by (simp add: index_list_def)
    have middle: "keeps d (set_dir ?name ((fresh_files r)\<lparr>state_file := Some (fresh_state (req_job_id r) t)\<rparr>) d)"
      using keeps_created(1) [OF ok True, of "[]"] by simp
    have last: "Q (Inr (fresh_state (req_job_id r) t)) (created_disk r t es d)"
      if "es = [] \<or> es = index_list d" "quiet env \<longrightarrow> es = index_list d" for es
      using ended [OF True that(2)] keeps_created(2) [OF ok True that(1)] by simp
    have created: "reindexed (fresh_state (req_job_id r) t) es
        (set_dir ?name ((fresh_files r)\<lparr>state_file := Some (fresh_state (req_job_id r) t)\<rparr>) d) = created_disk r t es d" for es
      by (simp add: created_disk_def Let_def)
    show ?thesis
      by (intro wp_next wp_write_state [where fs = "fresh_files r"])
        (use torn new middle last in \<open>auto intro!: wp_next wp_update_index [where r = r] wp_give torn
          simp: put files_of_def list created\<close>)
  qed
  show ?thesis
    unfolding create_job_def ensure_directories_def Let_def fresh_state_def [symmetric]
    by (intro wps wp_write_new)
      (use torn torn [OF _ _ new] torn [OF _ _ keeps_refl [OF ok]] store True in
        \<open>auto intro!: wps wp_write_new simp: no_files_def fresh_files_def dir_of_def\<close>)
qed

lemma create_job_keeps: "store_ok d \<Longrightarrow> wp (create_job env r) (\<lambda>_. keeps d) d"
  by (rule wp_create_job) (auto intro: keeps_refl)


text \<open>A write to the other files of a job.\<close>

lemma keeps_extra:
  assumes ok: "store_ok d" and dir: "job_dirs d name = Some fs"
    and same: "state_file fs' = state_file fs" "request_file fs' = request_file fs"
      "result_file fs' = result_file fs" "error_file fs' = error_file fs"
  shows "keeps d (set_dir name fs' d)"
proof (rule keeps_files [OF ok dir])
  show "files_ok name fs'" using ok dir same unfolding store_ok_def files_ok_def by metis
  show "files_advance fs fs'" using same by (simp add: files_advance_def)
qed

lemma record_event_sequence_keeps:
  assumes ok: "store_ok d"
  shows "wp (record_event_sequence env job n) (\<lambda>_. keeps d) d"
proof -
  have "keeps d (set_dir name (fs\<lparr>sequence_file := Some n\<rparr>) d)" if "job_dirs d name = Some fs" for name fs
    by (rule keeps_extra [OF ok that]) simp_all
  then show ?thesis
    unfolding record_event_sequence_def by (intro wps) (use keeps_refl [OF ok] in \<open>auto intro!: wps\<close>)
qed

lemma set_telemetry_keeps:
  assumes ok: "store_ok d"
  shows "keeps d (set_telemetry name f d)"
  using keeps_extra [OF ok] keeps_refl [OF ok] by (auto simp: set_telemetry_def split: option.split)

lemma write_event_keeps: "store_ok d \<Longrightarrow> wp (write_event env name e) (\<lambda>_. keeps d) d"
  by (auto simp: wp_def write_event_def set_telemetry_keeps keeps_refl split: option.split fault.split)

lemma append_solver_event_keeps:
  assumes ok: "store_ok d"
  shows "wp (append_solver_event env job e) (\<lambda>_. keeps d) d"
proof -
  let ?name = "encode_job_id job"
  have opened: "keeps d (set_telemetry ?name (\<lambda>l. l) d)" by (rule set_telemetry_keeps [OF ok])
  then have "wp (write_event env ?name e) (\<lambda>_. keeps d) (set_telemetry ?name (\<lambda>l. l) d)"
    using wp_mono [OF write_event_keeps] keeps_trans by (meson keeps_def)
  then show ?thesis
    unfolding append_solver_event_def Let_def
    by (intro wps) (use keeps_refl [OF ok] in \<open>auto intro!: wps split: option.split\<close>)
qed

section \<open>Recovery after a restart\<close>

definition recovered_state :: "job_state \<Rightarrow> i64 \<Rightarrow> job_state" where
  "recovered_state s t = s\<lparr>status := JobFailed, updated_at := t, completed_at := Some t\<rparr>"

definition recovered_files :: "i64 \<Rightarrow> job_files \<Rightarrow> job_files" where
  "recovered_files t fs = (case state_file fs of
     None \<Rightarrow> fs
   | Some s \<Rightarrow>
       if is_active (status s)
       then fs\<lparr>error_file := Some interrupted_error, state_file := Some (recovered_state s t),
         sequence_file := Some (saturating_add_u64 (case sequence_file fs of None \<Rightarrow> 0 | Some v \<Rightarrow> v) 1)\<rparr>
       else fs)"

definition active_dir :: "disk \<Rightarrow> string \<Rightarrow> bool" where
  "active_dir d name \<longleftrightarrow> (\<exists>fs s. job_dirs d name = Some fs \<and> state_file fs = Some s \<and> is_active (status s))"

lemma keeps_recovered:
  assumes ok: "store_ok d" and dir: "job_dirs d name = Some fs" "state_file fs = Some s" and active: "is_active (status s)"
  shows "keeps d (set_dir name (fs\<lparr>error_file := Some e\<rparr>) d)"
    and "keeps d (set_dir name (fs\<lparr>error_file := Some e, state_file := Some (recovered_state s t)\<rparr>) d)"
    and "keeps d (set_dir name (fs\<lparr>error_file := Some e, state_file := Some (recovered_state s t), sequence_file := n\<rparr>) d)"
proof -
  note o = store_okD [OF ok dir]
  show "keeps d (set_dir name (fs\<lparr>error_file := Some e\<rparr>) d)"
    by (rule keeps_files [OF ok dir(1)])
      (use o dir active in \<open>auto simp: files_ok_def files_advance_def is_active_def\<close>)
  have adv: "job_advances s (recovered_state s t)" using active by (auto simp: job_advances_def recovered_state_def)
  have files: "files_ok name (fs\<lparr>error_file := Some e, state_file := Some (recovered_state s t)\<rparr>)"
    "files_advance fs (fs\<lparr>error_file := Some e, state_file := Some (recovered_state s t)\<rparr>)"
    using o dir active adv by (auto simp: files_ok_def files_advance_def recovered_state_def is_active_def)
  show "keeps d (set_dir name (fs\<lparr>error_file := Some e, state_file := Some (recovered_state s t)\<rparr>) d)"
    by (rule keeps_files [OF ok dir(1) files])
  show "keeps d (set_dir name (fs\<lparr>error_file := Some e, state_file := Some (recovered_state s t), sequence_file := n\<rparr>) d)"
    by (rule keeps_files [OF ok dir(1)]) (use files in \<open>simp_all add: files_ok_def files_advance_def\<close>)
qed

text \<open>What recovering one directory does.\<close>

definition only_dir :: "string \<Rightarrow> disk \<Rightarrow> disk \<Rightarrow> bool" where
  "only_dir name d d' \<longleftrightarrow> index_file d' = index_file d \<and> (\<forall>n. n \<noteq> name \<longrightarrow> job_dirs d' n = job_dirs d n) \<and>
     dom (job_dirs d') = dom (job_dirs d)"

lemma wp_recover_dir:
  assumes ok: "store_ok d" and dir: "job_dirs d name = Some fs"
  shows "wp (recover_dir env name) (\<lambda>r d'. keeps d d' \<and> only_dir name d d' \<and>
    (quiet env \<longrightarrow> r = Inr (active_dir d name) \<and> (\<exists>t. job_dirs d' name = Some (recovered_files t fs)))) d"
    (is "wp _ ?Q d")
proof -
  have same: "?Q (Inr False) d" if "\<not> active_dir d name"
    using that keeps_refl [OF ok] dir
    by (auto simp: only_dir_def active_dir_def recovered_files_def split: option.split)
  have only: "only_dir name d (set_dir name fs' d)" for fs'
    using dir by (auto simp: only_dir_def set_dir_def)
  have failed: "?Q (Inl e) d" if "\<not> quiet env" for e
    using that keeps_refl [OF ok] by (simp add: only_dir_def)
  have main: "wp (next_do (atomic_write_file env name ''error.json'' (error_file_update (\<lambda>_. Some interrupted_error))) (\<lambda>_.
      next_do (now_ms env) (\<lambda>now.
      next_do (atomic_write_file env name ''state.json'' (state_file_update (\<lambda>_. Some (recovered_state s now)))) (\<lambda>_.
      next_do (read_optional_json env (JobFile name ''event-sequence.json'') (files_of name sequence_file)) (\<lambda>n.
      next_do (atomic_write_file env name ''event-sequence.json''
        (sequence_file_update (\<lambda>_. Some (saturating_add_u64 (case n of None \<Rightarrow> 0 | Some v \<Rightarrow> v) 1)))) (\<lambda>_.
      give True)))))) ?Q d"
    if s: "state_file fs = Some s" "is_active (status s)" for s
  proof -
    note k = keeps_recovered [OF ok dir s]
    have act: "active_dir d name" using dir s by (auto simp: active_dir_def)
    have at: "dir_of d name = fs" "set_dir name fs d = d" using dir by (simp_all add: dir_of_def set_dir_same)
    show ?thesis
      apply (intro wp_next wp_write_new wp_now wp_read_optional)
      using failed k only act s at
       apply (auto intro!: wp_next wp_now wp_write_new wp_read_optional wp_give
          simp: recovered_files_def files_of_def)
      by (rule exI, rule refl)+
  qed
  show ?thesis
    unfolding recover_dir_def recovered_state_def [symmetric]
    by (intro wps) (use same failed main dir in \<open>auto intro!: wps simp: files_of_def active_dir_def\<close>)
qed


lemma only_dir_unaffected: "only_dir name d d' \<Longrightarrow> n \<noteq> name \<Longrightarrow> active_dir d' n = active_dir d n"
  by (simp add: only_dir_def active_dir_def)

lemma wp_recover_dirs:
  assumes "store_ok d" and "distinct names" and "set names \<subseteq> dom (job_dirs d)"
  shows "wp (recover_dirs env names c) (\<lambda>r d'. keeps d d' \<and>
    index_file d' = index_file d \<and> dom (job_dirs d') = dom (job_dirs d) \<and>
    (\<forall>n. n \<notin> set names \<longrightarrow> job_dirs d' n = job_dirs d n) \<and>
    (quiet env \<longrightarrow> r = Inr (c + length (filter (active_dir d) names)) \<and>
      (\<forall>n\<in>set names. \<exists>t. job_dirs d' n = map_option (recovered_files t) (job_dirs d n)))) d"
  using assms
proof (induction names arbitrary: c d)
  case Nil
  then show ?case by (simp add: wp_give keeps_refl)
next
  case (Cons name names)
  then obtain fs where dir: "job_dirs d name = Some fs" by auto
  have rest: "wp (recover_dirs env names (if changed then c + 1 else c)) (\<lambda>r d'. keeps d d' \<and>
      index_file d' = index_file d \<and> dom (job_dirs d') = dom (job_dirs d) \<and>
      (\<forall>n. n \<notin> set (name # names) \<longrightarrow> job_dirs d' n = job_dirs d n) \<and>
      (quiet env \<longrightarrow> r = Inr (c + length (filter (active_dir d) (name # names))) \<and>
        (\<forall>n\<in>set (name # names). \<exists>t. job_dirs d' n = map_option (recovered_files t) (job_dirs d n)))) d1"
    if kept: "keeps d d1" and only: "only_dir name d d1"
      and quiet: "quiet env \<longrightarrow> changed = active_dir d name \<and> (\<exists>t. job_dirs d1 name = Some (recovered_files t fs))"
    for changed d1
  proof -
    have prems: "store_ok d1" "distinct names" "set names \<subseteq> dom (job_dirs d1)"
      using kept only Cons.prems by (auto simp: keeps_def only_dir_def)
    have other: "job_dirs d1 n = job_dirs d n" "active_dir d1 n = active_dir d n" if "n \<in> set names" for n
    proof -
      have "n \<noteq> name" using that Cons.prems(2) by auto
      then show "job_dirs d1 n = job_dirs d n" "active_dir d1 n = active_dir d n"
        using only only_dir_unaffected [OF only] by (simp_all add: only_dir_def)
    qed
    then have same: "filter (active_dir d1) names = filter (active_dir d) names" by (metis filter_cong)
    show ?thesis
      by (rule wp_mono [OF Cons.IH [OF prems]])
        (use kept only quiet other same dir Cons.prems(2) in \<open>auto intro: keeps_trans simp: only_dir_def\<close>)
  qed
  show ?case
    unfolding recover_dirs.simps
  proof (rule wp_next, rule wp_mono [OF wp_recover_dir [OF Cons.prems(1) dir]], elim conjE)
    fix r d1
    assume one: "keeps d d1" "only_dir name d d1"
      "quiet env \<longrightarrow> r = Inr (active_dir d name) \<and> (\<exists>t. job_dirs d1 name = Some (recovered_files t fs))"
    show "case r of Inl e \<Rightarrow> keeps d d1 \<and> index_file d1 = index_file d \<and> dom (job_dirs d1) = dom (job_dirs d) \<and>
        (\<forall>n. n \<notin> set (name # names) \<longrightarrow> job_dirs d1 n = job_dirs d n) \<and>
        (quiet env \<longrightarrow> Inl e = Inr (c + length (filter (active_dir d) (name # names))) \<and>
          (\<forall>n\<in>set (name # names). \<exists>t. job_dirs d1 n = map_option (recovered_files t) (job_dirs d n)))
      | Inr changed \<Rightarrow> wp (recover_dirs env names (if changed then c + 1 else c)) (\<lambda>r d'. keeps d d' \<and>
          index_file d' = index_file d \<and> dom (job_dirs d') = dom (job_dirs d) \<and>
          (\<forall>n. n \<notin> set (name # names) \<longrightarrow> job_dirs d' n = job_dirs d n) \<and>
          (quiet env \<longrightarrow> r = Inr (c + length (filter (active_dir d) (name # names))) \<and>
            (\<forall>n\<in>set (name # names). \<exists>t. job_dirs d' n = map_option (recovered_files t) (job_dirs d n)))) d1"
    proof (cases r)
      case (Inl e)
      then show ?thesis using one by (auto simp: only_dir_def)
    next
      case (Inr changed)
      then show ?thesis using rest [OF one(1,2), of changed] one(3) by simp
    qed
  qed
qed

definition dir_entries :: "disk \<Rightarrow> string \<Rightarrow> index_entry list" where
  "dir_entries d name = (case job_dirs d name of
     None \<Rightarrow> []
   | Some fs \<Rightarrow> (case (state_file fs, request_file fs) of
         (Some s, Some r) \<Rightarrow> [index_entry_of s (req_travel_mode r)]
       | _ \<Rightarrow> []))"

lemma dir_entries_index [simp]: "dir_entries (d\<lparr>index_file := x\<rparr>) = dir_entries d"
  by (rule ext) (simp add: dir_entries_def)

lemma dir_entries_Some:
  "store_ok d \<Longrightarrow> job_dirs d name = Some fs \<Longrightarrow> state_file fs = Some s \<Longrightarrow>
    \<exists>r. request_file fs = Some r \<and> dir_entries d name = [index_entry_of s (req_travel_mode r)] \<and>
      name = encode_job_id (state_job_id s)"
  using store_okD(1,6) by (fastforce simp: dir_entries_def)

text \<open>The entries of some of the directories listed.\<close>

definition indexed_from :: "disk \<Rightarrow> string list \<Rightarrow> index_entry list \<Rightarrow> index_entry list \<Rightarrow> bool" where
  "indexed_from d names entries es \<longleftrightarrow> (\<exists>names'. es = entries @ concat (map (dir_entries d) names') \<and>
     set names' \<subseteq> set names \<and> (distinct names \<longrightarrow> distinct names'))"

lemma indexed_none: "indexed_from d [] entries entries"
  unfolding indexed_from_def by (intro exI [of _ "[]"]) simp

lemma indexed_skip: "indexed_from d names entries es \<Longrightarrow> indexed_from d (name # names) entries es"
  unfolding indexed_from_def by auto

lemma indexed_take:
  assumes "indexed_from d names (entries @ dir_entries d name) es"
  shows "indexed_from d (name # names) entries es"
proof -
  obtain names' where "es = (entries @ dir_entries d name) @ concat (map (dir_entries d) names')"
    "set names' \<subseteq> set names" "distinct names \<longrightarrow> distinct names'"
    using assms unfolding indexed_from_def by blast
  then show ?thesis unfolding indexed_from_def by (intro exI [of _ "name # names'"]) auto
qed

definition index_post :: "store_env \<Rightarrow> disk \<Rightarrow> string list \<Rightarrow> index_entry list \<Rightarrow> store_error + index_entry list \<Rightarrow>
    disk \<Rightarrow> bool" where
  "index_post env d names entries r d' \<longleftrightarrow> d' = d \<and> (\<forall>es. r = Inr es \<longrightarrow> indexed_from d names entries es) \<and>
     (quiet env \<longrightarrow> r = Inr (entries @ concat (map (dir_entries d) names)))"

lemma wp_indexed_dirs:
  assumes "store_ok d"
  shows "wp (indexed_dirs env names entries) (index_post env d names entries) d"
proof (induction names arbitrary: entries)
  case Nil
  then show ?case by (auto intro!: wp_give simp: index_post_def indexed_none)
next
  case (Cons name names)
  have skip: "wp (indexed_dirs env names entries) (index_post env d (name # names) entries) d"
    if "quiet env \<longrightarrow> dir_entries d name = []"
    by (rule wp_mono [OF Cons.IH]) (use that in \<open>auto simp: index_post_def indexed_skip\<close>)
  have take: "wp (indexed_dirs env names (entries @ dir_entries d name)) (index_post env d (name # names) entries) d"
    by (rule wp_mono [OF Cons.IH]) (auto simp: index_post_def indexed_take)
  have none: "dir_entries d name = []" if "files_of name state_file d = None"
    using that by (auto simp: dir_entries_def files_of_def split: option.split)
  have failed: "index_post env d (name # names) entries (Inl e) d" if "\<not> quiet env" for e
    using that by (simp add: index_post_def)
  show ?case
    unfolding indexed_dirs.simps
  proof (intro wp_next wp_exists)
    fix b assume b: "b \<longrightarrow> files_of name state_file d \<noteq> None" "quiet env \<longrightarrow> b = (files_of name state_file d \<noteq> None)"
    show "case Inr b of Inl e \<Rightarrow> index_post env d (name # names) entries (Inl e) d
      | Inr present \<Rightarrow> wp (if \<not> present then indexed_dirs env names entries
          else next_do (read_json env (JobFile name ''state.json'') (files_of name state_file)) (\<lambda>s.
            next_do (read_json env (JobFile name ''request.json'') (files_of name request_file)) (\<lambda>r.
            indexed_dirs env names (entries @ [index_entry_of s (req_travel_mode r)]))))
          (index_post env d (name # names) entries) d"
    proof (cases b)
      case True
      then obtain fs s where dir: "job_dirs d name = Some fs" "state_file fs = Some s"
        using b by (auto simp: files_of_def bind_eq_Some_conv)
      then obtain r where r: "request_file fs = Some r" "dir_entries d name = [index_entry_of s (req_travel_mode r)]"
        using dir_entries_Some [OF assms] by blast
      show ?thesis
        using True dir r take failed by (auto intro!: wp_next wp_read simp: files_of_def)
    next
      case False
      then show ?thesis using skip none b by simp
    qed
  qed
qed

lemma dir_entries_names:
  assumes "store_ok d"
  shows "map (\<lambda>e. encode_job_id (entry_job_id e)) (concat (map (dir_entries d) names)) =
    filter (\<lambda>n. dir_entries d n \<noteq> []) names"
proof (induction names)
  case (Cons n names)
  have "map (\<lambda>e. encode_job_id (entry_job_id e)) (dir_entries d n) = (if dir_entries d n \<noteq> [] then [n] else [])"
    using store_okD(1) [OF assms] by (auto simp: dir_entries_def index_entry_of_def split: option.splits)
  then show ?case using Cons.IH by simp
qed simp

lemma indexed_ok:
  assumes "store_ok d" and "indexed_from d names [] es" and "distinct names"
  shows "index_ok d es"
proof -
  obtain names' where es: "es = concat (map (dir_entries d) names')" and "distinct names'"
    using assms(2,3) by (auto simp: indexed_from_def)
  then have "distinct (map (\<lambda>e. encode_job_id (entry_job_id e)) es)"
    by (simp add: dir_entries_names [OF assms(1)])
  then have "distinct (map entry_job_id es)" by (simp add: distinct_map inj_on_def)
  moreover have "entry_ok d e" if listed: "e \<in> set (dir_entries d n)" for e n
  proof -
    obtain fs where fs: "job_dirs d n = Some fs"
      using listed by (cases "job_dirs d n") (simp_all add: dir_entries_def)
    obtain s where s: "state_file fs = Some s"
      using listed fs by (cases "state_file fs") (simp_all add: dir_entries_def)
    obtain r where r: "request_file fs = Some r"
      using listed fs s by (cases "request_file fs") (simp_all add: dir_entries_def)
    have "e = index_entry_of s (req_travel_mode r)" using listed fs s r by (simp add: dir_entries_def)
    with fs s r show ?thesis using store_okD(1) [OF assms(1)] by (auto simp: entry_ok_def index_entry_of_def)
  qed
  ultimately show ?thesis by (auto simp: index_ok_def es)
qed

definition lists_dirs :: "store_env \<Rightarrow> bool" where
  "lists_dirs env \<longleftrightarrow> (\<forall>m. finite (dom m) \<longrightarrow> set (listing env m) = dom m \<and> distinct (listing env m))"

text \<open>The index that shows every job.\<close>

definition whole_index :: "store_env \<Rightarrow> disk \<Rightarrow> index_entry list" where
  "whole_index env d = sort_index (concat (map (dir_entries d) (listing env (job_dirs d))))"

lemma wp_rebuild_index:
  assumes ok: "store_ok d" and ls: "lists_dirs env"
  shows "wp (rebuild_index env) (\<lambda>r d'. keeps d d' \<and>
    (quiet env \<longrightarrow> r = Inr () \<and> d' = d\<lparr>index_file := Some (whole_index env d)\<rparr>)) d" (is "wp _ ?Q d")
proof -
  let ?names = "listing env (job_dirs d)"
  have dist: "distinct ?names" using ok ls by (simp add: lists_dirs_def store_ok_def)
  have failed: "?Q (Inl e) d" if "\<not> quiet env" for e using that keeps_refl [OF ok] by simp
  have last: "wp (atomic_write_index env (sort_index es)) ?Q d"
    if "indexed_from d ?names [] es" "quiet env \<longrightarrow> es = concat (map (dir_entries d) ?names)" for es
    unfolding atomic_write_index_def
    by (rule wp_action) (use that failed keeps_index [OF ok indexed_ok [OF ok _ dist]] in \<open>auto simp: whole_index_def\<close>)
  have inner: "wp (next_do (indexed_dirs env ?names []) (\<lambda>es. atomic_write_index env (sort_index es))) ?Q d"
  proof (rule wp_next, rule wp_mono [OF wp_indexed_dirs [OF ok]])
    fix r d' assume post: "index_post env d ?names [] r d'"
    then show "case r of Inl e \<Rightarrow> ?Q (Inl e) d' | Inr es \<Rightarrow> wp (atomic_write_index env (sort_index es)) ?Q d'"
      using failed last by (cases r) (simp_all add: index_post_def)
  qed
  show ?thesis
    unfolding rebuild_index_def read_directories_def
    by (rule wp_next, rule wp_action) (use failed inner in \<open>simp_all only: sum.case simp_thms\<close>)
qed

lemma wp_recover:
  assumes ok: "store_ok d" and ls: "lists_dirs env"
  shows "wp (recover_interrupted env) (\<lambda>r d'. keeps d d' \<and>
    (quiet env \<longrightarrow> r = Inr (card {name. active_dir d name}) \<and>
      index_file d' = Some (whole_index env d') \<and>
      (\<forall>name. \<exists>t. job_dirs d' name = map_option (recovered_files t) (job_dirs d name)))) d" (is "wp _ ?Q d")
proof -
  let ?names = "listing env (job_dirs d)"
  have names: "set ?names = dom (job_dirs d)" "distinct ?names"
    using ok ls by (simp_all add: lists_dirs_def store_ok_def)
  have failed: "?Q (Inl e) d'" if "\<not> quiet env" "keeps d d'" for e d' using that by simp
  have "{name. active_dir d name} = set (filter (active_dir d) ?names)"
    using names(1) by (auto simp: active_dir_def)
  then have count: "card {name. active_dir d name} = length (filter (active_dir d) ?names)"
    using names(2) by (metis distinct_card distinct_filter)
  have rest: "wp (next_do (rebuild_index env) (\<lambda>_. give c)) ?Q d1"
    if kept: "keeps d d1" and dom: "dom (job_dirs d1) = dom (job_dirs d)"
      and finish: "quiet env \<longrightarrow> c = length (filter (active_dir d) ?names) \<and>
        (\<forall>n\<in>set ?names. \<exists>t. job_dirs d1 n = map_option (recovered_files t) (job_dirs d n))" for c d1
  proof -
    have all: "\<exists>t. job_dirs d1 n = map_option (recovered_files t) (job_dirs d n)" if "quiet env" for n
      using that dom finish names(1) by (cases "n \<in> dom (job_dirs d)") (auto simp: domIff)
    have ok1: "store_ok d1" using kept by (simp add: keeps_def)
    show ?thesis
      by (rule wp_next, rule wp_mono [OF wp_rebuild_index [OF ok1 ls]])
        (use kept all finish count in \<open>auto intro!: wp_give intro: keeps_trans simp: whole_index_def split: sum.split\<close>)
  qed
  have inner: "wp (next_do (recover_dirs env ?names 0) (\<lambda>c. next_do (rebuild_index env) (\<lambda>_. give c))) ?Q d"
  proof (rule wp_next, rule wp_mono [OF wp_recover_dirs [OF ok names(2)]])
    show "set ?names \<subseteq> dom (job_dirs d)" using names(1) by simp
  next
    fix r :: "store_error + usize" and d1
    assume post: "keeps d d1 \<and> index_file d1 = index_file d \<and> dom (job_dirs d1) = dom (job_dirs d) \<and>
      (\<forall>n. n \<notin> set ?names \<longrightarrow> job_dirs d1 n = job_dirs d n) \<and>
      (quiet env \<longrightarrow> r = Inr (0 + length (filter (active_dir d) ?names)) \<and>
        (\<forall>n\<in>set ?names. \<exists>t. job_dirs d1 n = map_option (recovered_files t) (job_dirs d n)))"
    then show "case r of Inl e \<Rightarrow> ?Q (Inl e) d1 | Inr c \<Rightarrow> wp (next_do (rebuild_index env) (\<lambda>_. give c)) ?Q d1"
      using failed rest [of d1] by (cases r) simp_all
  qed
  have second: "wp (next_do (fs_action env JobsPath (\<lambda>d. Inr (listing env (job_dirs d))) (\<lambda>d. d)) (\<lambda>names.
      next_do (recover_dirs env names 0) (\<lambda>c. next_do (rebuild_index env) (\<lambda>_. give c)))) ?Q d"
    by (rule wp_next, rule wp_action)
      (use failed keeps_refl [OF ok] inner in \<open>simp_all only: sum.case simp_thms\<close>)
  show ?thesis
    unfolding recover_interrupted_def ensure_directories_def read_directories_def
    by (rule wp_next, rule wp_action)
      (use failed keeps_refl [OF ok] second in \<open>simp_all only: sum.case simp_thms\<close>)
qed

end
