(* ===== verification/Store_Steps.thy ===== *)
theory Store_Steps
  imports Storage_Facts
begin

text \<open>
  The job store as a state machine: any operation, in any environment, is a step from the disk it
  finds to the disk it leaves, also when it fails or the process dies in the middle of it. The
  contract the job runner relies on is the locale \<open>job_lifecycle\<close>.
\<close>

section \<open>Steps\<close>

inductive store_step :: "disk \<Rightarrow> disk \<Rightarrow> bool" where
  creating: "create_job env r (d, k) = (res, d', k') \<Longrightarrow> store_step d d'"
| starting: "mark_running env job (d, k) = (res, d', k') \<Longrightarrow> store_step d d'"
| progressing: "update_progress env job stage pct message (d, k) = (res, d', k') \<Longrightarrow> store_step d d'"
| completing: "save_result env job result (d, k) = (res, d', k') \<Longrightarrow> store_step d d'"
| failing: "save_error env job e (d, k) = (res, d', k') \<Longrightarrow> store_step d d'"
| cancelling: "cancel_job env job message (d, k) = (res, d', k') \<Longrightarrow> store_step d d'"
| recovering: "lists_dirs env \<Longrightarrow> recover_interrupted env (d, k) = (res, d', k') \<Longrightarrow> store_step d d'"
| observing: "append_solver_event env job event (d, k) = (res, d', k') \<Longrightarrow> store_step d d'"
| publishing: "record_event_sequence env job n (d, k) = (res, d', k') \<Longrightarrow> store_step d d'"

inductive_cases store_stepE: "store_step d d'"

definition empty_disk :: disk where
  "empty_disk = \<lparr>job_dirs = Map.empty, index_file = None\<rparr>"

lemma kept: "wp m (\<lambda>_. keeps d) d \<Longrightarrow> m (d, k) = (r, d', k') \<Longrightarrow> keeps d d'"
  by (rule wpD)

lemmas operations_keep = create_job_keeps mark_running_keeps update_progress_keeps save_result_keeps save_error_keeps
  cancel_job_keeps append_solver_event_keeps record_event_sequence_keeps

lemma store_step_keeps:
  assumes "store_ok d" and "store_step d d'"
  shows "keeps d d'"
  using assms(2,1)
proof cases
  case recovering
  then show ?thesis using wpD [OF wp_recover] assms(1) by blast
qed (erule kept [rotated], rule operations_keep, assumption)+

section \<open>The contract of a store\<close>

definition state_of :: "disk \<Rightarrow> string \<Rightarrow> job_state option" where
  "state_of d job = files_of (encode_job_id job) state_file d"

locale job_lifecycle =
  fixes ok :: "'d \<Rightarrow> bool" and job_in :: "'d \<Rightarrow> string \<Rightarrow> job_state option" and step :: "'d \<Rightarrow> 'd \<Rightarrow> bool"
  assumes ok_step: "ok d \<Longrightarrow> step d d' \<Longrightarrow> ok d'"
    and job_step: "ok d \<Longrightarrow> step d d' \<Longrightarrow> job_in d job = Some s \<Longrightarrow> \<exists>s'. job_in d' job = Some s' \<and> job_advances s s'"
begin

lemma ok_steps: "step\<^sup>*\<^sup>* d d' \<Longrightarrow> ok d \<Longrightarrow> ok d'"
  by (induction rule: rtranclp_induct) (auto intro: ok_step)

lemma job_steps:
  "step\<^sup>*\<^sup>* d d' \<Longrightarrow> ok d \<Longrightarrow> job_in d job = Some s \<Longrightarrow> \<exists>s'. job_in d' job = Some s' \<and> job_advances s s'"
proof (induction rule: rtranclp_induct)
  case (step d1 d2)
  then obtain s1 where s1: "job_in d1 job = Some s1" "job_advances s s1" by blast
  have "ok d1" using ok_steps step.hyps(1) step.prems(1) .
  then show ?case using job_step [OF _ step.hyps(2) s1(1)] job_advances_trans [OF s1(2)] by blast
qed auto

lemma finished_stays:
  "step\<^sup>*\<^sup>* d d' \<Longrightarrow> ok d \<Longrightarrow> job_in d job = Some s \<Longrightarrow> \<not> is_active (status s) \<Longrightarrow> job_in d' job = Some s"
  using job_steps by (fastforce simp: job_advances_def)

lemma started_stays:
  "step\<^sup>*\<^sup>* d d' \<Longrightarrow> ok d \<Longrightarrow> job_in d job = Some s \<Longrightarrow> status s \<noteq> Pending \<Longrightarrow>
    \<exists>s'. job_in d' job = Some s' \<and> status s' \<noteq> Pending"
proof -
  assume steps: "step\<^sup>*\<^sup>* d d'" "ok d" "job_in d job = Some s" and started: "status s \<noteq> Pending"
  then obtain s' where s': "job_in d' job = Some s'" "job_advances s s'" using job_steps by blast
  then have "status s' \<noteq> Pending" using started by (cases "status s") (auto simp: job_advances_def is_active_def)
  then show ?thesis using s'(1) by blast
qed

end

interpretation file_store: job_lifecycle store_ok state_of store_step
proof
  fix d d'
  assume "store_ok d" "store_step d d'"
  then have "keeps d d'" by (rule store_step_keeps)
  then show "store_ok d'" by (simp add: keeps_def)
next
  fix d d' job s
  assume "store_ok d" "store_step d d'" "state_of d job = Some s"
  then show "\<exists>s'. state_of d' job = Some s' \<and> job_advances s s'"
    using store_step_keeps
    by (fastforce simp: keeps_def evolves_def files_advance_def state_of_def files_of_def bind_eq_Some_conv)
qed

lemma keeps_steps:
  assumes "store_step\<^sup>*\<^sup>* d d'" and "store_ok d"
  shows "keeps d d'"
  using assms
proof (induction rule: rtranclp_induct)
  case (step d1 d2)
  then have "keeps d d1" by simp
  then show ?case using keeps_trans store_step_keeps step.hyps(2) by (auto simp: keeps_def)
qed (rule keeps_refl)

lemma empty_ok: "store_ok empty_disk"
  by (simp add: store_ok_def empty_disk_def)

section \<open>Reading a job back\<close>

lemma wp_get_job:
  assumes "job_at d job fs s" and "request_file fs = Some r"
  shows "wp (get_job env job) (\<lambda>res d'. d' = d \<and> (quiet env \<longrightarrow> res = Inr (Some
    \<lparr>stored_request = r, stored_state = s, stored_result = result_file fs, stored_error = error_file fs\<rparr>))) d"
  using assms unfolding get_job_def Let_def
  by (intro wps) (auto intro!: wps simp: files_of_def job_at_def)

lemma job_at_finished:
  assumes "store_ok d" and "job_at d job fs s"
  shows "job_at (finished_disk s st t es (put_payload job update d)) job
    ((update fs)\<lparr>state_file := Some (terminal_state s st t)\<rparr>) (terminal_state s st t)"
proof -
  have "state_job_id (terminal_state s st t) = job" using job_at_id [OF assms] by (simp add: terminal_state_def)
  then show ?thesis
    using assms(2) by (simp add: finished_disk_def job_at_def reindexed_def put_state_def put_payload_def dir_of_def Let_def)
qed

lemma recovered_inactive: "state_file (recovered_files t fs) = Some s \<Longrightarrow> \<not> is_active (status s)"
  by (cases "state_file fs") (auto simp: recovered_files_def recovered_state_def is_active_def split: if_splits)

section \<open>Properties\<close>

definition calm_env :: store_env where
  "calm_env = \<lparr>fault = (\<lambda>_. None), clock_ms = (\<lambda>k. 1000 + k), listing = (\<lambda>m. sorted_list_of_set (dom m)),
     event_bytes = (\<lambda>_. Some 100)\<rparr>"

lemma calm_env_facts: "quiet calm_env" "lists_dirs calm_env"
  by (simp_all add: calm_env_def quiet_def lists_dirs_def)

definition sample_state :: "job_status \<Rightarrow> job_state" where
  "sample_state st = \<lparr>state_job_id = ''a'', status = st, job_stage = None, job_progress = 0, last_message = None,
     created_at = 0, updated_at = 0, completed_at = (if is_active st then None else Some 0)\<rparr>"

definition sample_files :: "job_status \<Rightarrow> job_files" where
  "sample_files st = no_files\<lparr>request_file := Some ((readme_request Latest)\<lparr>req_job_id := ''a''\<rparr>),
     sequence_file := Some 3, state_file := Some (sample_state st)\<rparr>"

definition sample_disk :: "job_status \<Rightarrow> disk" where
  "sample_disk st = \<lparr>job_dirs = [encode_job_id ''a'' \<mapsto> sample_files st], index_file = None\<rparr>"

lemma sample_ok: "st \<in> {Pending, Running, JobCancelled} \<Longrightarrow> store_ok (sample_disk st)"
  by (auto simp: store_ok_def sample_disk_def files_ok_def sample_files_def sample_state_def is_active_def)

lemma sample_at: "job_at (sample_disk st) ''a'' (sample_files st) (sample_state st)"
  by (simp add: job_at_def sample_disk_def sample_files_def)

lemma sample_state_of: "state_of (sample_disk st) ''a'' = Some (sample_state st)"
  using sample_at [of st] by (simp add: job_at_def state_of_def files_of_def)

text \<open>
  C22. Whatever operations run, in whatever order, and wherever the file system fails or the process
  dies, what is on the disk stays consistent: every state belongs to its directory and request, a
  completed job has its result and a failed one its error, and the index lists existing jobs once,
  newest first, and never calls a job finished otherwise than its state does.
\<close>

theorem store_invariant:
  assumes "store_step\<^sup>*\<^sup>* empty_disk d"
  shows "store_ok d"
  using file_store.ok_steps [OF assms empty_ok] .

theorem store_invariant_witness:
  "store_ok (fst (snd (create_job calm_env (readme_request Latest) (empty_disk, 0))))"
proof (rule store_invariant, rule r_into_rtranclp)
  show "store_step empty_disk (fst (snd (create_job calm_env (readme_request Latest) (empty_disk, 0))))"
    by (cases "create_job calm_env (readme_request Latest) (empty_disk, 0)") (auto intro: creating)
qed

text \<open>
  C23. A job only moves forward: its request stays, its progress and its stage never step back, it
  does not return to pending, and once it is completed, failed or cancelled neither its state nor
  its result or error ever changes.
\<close>

theorem jobs_only_advance:
  assumes "store_step\<^sup>*\<^sup>* d d'" and "store_ok d" and "job_at d job fs s"
  shows "\<exists>fs' s'. job_at d' job fs' s' \<and> request_file fs' = request_file fs \<and>
    job_progress s \<le> job_progress s' \<and> created_at s' = created_at s \<and>
    (status s' = Pending \<longrightarrow> status s = Pending) \<and>
    (\<forall>a. job_stage s = Some a \<longrightarrow> (\<exists>b. job_stage s' = Some b \<and> a \<le> b)) \<and>
    (\<not> is_active (status s) \<longrightarrow> s' = s \<and> result_file fs' = result_file fs \<and> error_file fs' = error_file fs)"
proof -
  have "keeps d d'" by (rule keeps_steps [OF assms(1,2)])
  then obtain fs' where dir: "job_dirs d' (encode_job_id job) = Some fs'" and files: "files_advance fs fs'"
    using assms(3) by (auto simp: keeps_def evolves_def job_at_def)
  have "state_file fs = Some s" using assms(3) by (simp add: job_at_def)
  then have after: "(\<exists>s'. state_file fs' = Some s' \<and> job_advances s s') \<and> request_file fs' = request_file fs \<and>
      (\<not> is_active (status s) \<longrightarrow> result_file fs' = result_file fs \<and> error_file fs' = error_file fs)"
    using files by (simp add: files_advance_def)
  then obtain s' where s': "state_file fs' = Some s'" and adv: "job_advances s s'" by blast
  have at: "job_at d' job fs' s'" using dir s' by (simp add: job_at_def)
  have "status s' = Pending \<longrightarrow> status s = Pending"
    using adv by (cases "status s") (auto simp: job_advances_def is_active_def)
  with at after adv [unfolded job_advances_def] show ?thesis by blast
qed

theorem jobs_only_advance_witness:
  "\<exists>fs'. job_at (fst (snd (mark_running calm_env ''a'' (sample_disk JobCancelled, 0)))) ''a'' fs' (sample_state JobCancelled)"
proof -
  let ?d = "sample_disk JobCancelled" and ?run = "mark_running calm_env ''a'' (sample_disk JobCancelled, 0)"
  have "store_step ?d (fst (snd ?run))" by (cases ?run) (auto intro: starting)
  then have "store_step\<^sup>*\<^sup>* ?d (fst (snd ?run))" by blast
  from jobs_only_advance [OF this _ sample_at] show ?thesis
    using sample_ok [of JobCancelled] by (auto simp: sample_state_def is_active_def)
qed

text \<open>
  C24. When no action of the file system fails, saving a result of a running job is applied, and
  reading the job back gives the request, the result and a completed state at 100 percent; a
  cancelled job is left as it is, and in any other state the write is refused.
\<close>

theorem saved_result_is_read:
  assumes "quiet env" and "store_ok d" and "job_at d job fs s" and "request_file fs = Some r"
    and "save_result env job result (d, k) = (res, d', k')" and "get_job env job (d', k') = (read, d'', k'')"
  shows "if status s = Running
    then res = Inr Applied \<and> (\<exists>t. read = Inr (Some \<lparr>stored_request = r,
      stored_state = s\<lparr>status := Completed, job_progress := 100, updated_at := t, completed_at := Some t\<rparr>,
      stored_result = Some result, stored_error = error_file fs\<rparr>))
    else d' = d \<and> res = (if status s = JobCancelled then Inr WriteCancelled
      else Inl (StoreInvalidTransition job (status s)))"
proof -
  have dir: "files_of (encode_job_id job) state_file d = Some s"
    using assms(3) by (simp add: job_at_def files_of_def)
  let ?files = "\<lambda>t. fs\<lparr>result_file := Some result, state_file := Some (terminal_state s Completed t)\<rparr>"
  have "wp (save_result env job result) (\<lambda>res d'. if status s = Running
      then res = Inr Applied \<and> (\<exists>t. job_at d' job (?files t) (terminal_state s Completed t))
      else d' = d \<and> res = (if status s = JobCancelled then Inr WriteCancelled
        else Inl (StoreInvalidTransition job (status s)))) d"
    unfolding save_result_def
  proof (rule wp_save [OF assms(2)])
    fix fs' s' t es
    assume "job_at d job fs' s'" "status s' = Running"
    then have "s' = s" "status s = Running" using assms(3) by (simp_all add: job_at_def)
    then show "if status s = Running
      then (Inr Applied :: store_error + write_outcome) = Inr Applied \<and> (\<exists>u. job_at (finished_disk s' Completed t es
        (put_payload job (result_file_update (\<lambda>_. Some result)) d)) job (?files u) (terminal_state s Completed u))
      else finished_disk s' Completed t es (put_payload job (result_file_update (\<lambda>_. Some result)) d) = d \<and> (Inr Applied :: store_error + write_outcome) =
        (if status s = JobCancelled then Inr WriteCancelled else Inl (StoreInvalidTransition job (status s)))"
      using job_at_finished [OF assms(2,3), of Completed t es "result_file_update (\<lambda>_. Some result)"] by auto
  qed (use assms(1,3) dir in \<open>auto simp: job_at_def\<close>)
  then have saved: "if status s = Running
      then res = Inr Applied \<and> (\<exists>t. job_at d' job (?files t) (terminal_state s Completed t))
      else d' = d \<and> res = (if status s = JobCancelled then Inr WriteCancelled
        else Inl (StoreInvalidTransition job (status s)))"
    using assms(5) by (rule wpD)
  show ?thesis
  proof (cases "status s = Running")
    case True
    then obtain t where at: "job_at d' job (?files t) (terminal_state s Completed t)" using saved by auto
    have "read = Inr (Some \<lparr>stored_request = r, stored_state = terminal_state s Completed t,
        stored_result = Some result, stored_error = error_file fs\<rparr>)"
      using wpD [OF wp_get_job [OF at, of r env] assms(6)] assms(1,4) by simp
    then show ?thesis using saved True by (auto simp: terminal_state_def)
  qed (use saved in simp)
qed

theorem saved_result_is_read_witness:
  "\<forall>result. fst (save_result calm_env ''a'' result (sample_disk Running, 0)) = Inr Applied"
proof
  fix result
  have r: "request_file (sample_files Running) = Some ((readme_request Latest)\<lparr>req_job_id := ''a''\<rparr>)"
    by (simp add: sample_files_def)
  show "fst (save_result calm_env ''a'' result (sample_disk Running, 0)) = Inr Applied"
    using saved_result_is_read [OF calm_env_facts(1) sample_ok [of Running] sample_at r, of result 0]
    by (cases "save_result calm_env ''a'' result (sample_disk Running, 0)";
        cases "get_job calm_env ''a'' (snd (save_result calm_env ''a'' result (sample_disk Running, 0)))")
      (simp add: sample_state_def)
qed

text \<open>
  C25. Recovery after a restart, when no action fails, counts and fails exactly the jobs that were
  still pending or running, with the interruption as their error and their event sequence
  advanced, leaves every other job alone, and makes the index show every job.
\<close>

theorem recovery_fails_interrupted:
  assumes "quiet env" and "lists_dirs env" and "store_ok d" and "recover_interrupted env (d, k) = (res, d', k')"
  shows "res = Inr (card {name. active_dir d name}) \<and>
    (\<forall>name. \<not> active_dir d' name) \<and>
    (\<forall>name. \<not> active_dir d name \<longrightarrow> job_dirs d' name = job_dirs d name) \<and>
    (\<forall>job fs s. job_at d job fs s \<longrightarrow> is_active (status s) \<longrightarrow>
      (\<exists>fs' s'. job_at d' job fs' s' \<and> status s' = JobFailed \<and> error_file fs' = Some interrupted_error \<and>
        result_file fs' = result_file fs)) \<and>
    index_file d' = Some (whole_index env d')"
proof -
  have post: "res = Inr (card {name. active_dir d name})" "index_file d' = Some (whole_index env d')"
    "\<exists>t. job_dirs d' name = map_option (recovered_files t) (job_dirs d name)" for name
    using wpD [OF wp_recover [OF assms(3,2)] assms(4)] assms(1) by blast+
  have "\<not> active_dir d' name" for name
    using post(3) [of name] by (cases "job_dirs d name") (auto simp: active_dir_def recovered_inactive)
  moreover have "job_dirs d' name = job_dirs d name" if "\<not> active_dir d name" for name
    using post(3) [of name] that by (cases "job_dirs d name") (auto simp: active_dir_def recovered_files_def split: option.split)
  moreover have "\<exists>fs' s'. job_at d' job fs' s' \<and> status s' = JobFailed \<and> error_file fs' = Some interrupted_error \<and>
      result_file fs' = result_file fs" if "job_at d job fs s" "is_active (status s)" for job fs s
    using post(3) [of "encode_job_id job"] that by (auto simp: job_at_def recovered_files_def recovered_state_def)
  ultimately show ?thesis using post(1,2) by blast
qed

theorem recovery_fails_interrupted_witness:
  "\<forall>name. \<not> active_dir (fst (snd (recover_interrupted calm_env (sample_disk Running, 0)))) name"
  using recovery_fails_interrupted [OF calm_env_facts sample_ok [of Running]]
  by (cases "recover_interrupted calm_env (sample_disk Running, 0)") simp

text \<open>
  C26. The directory name of a job id can be decoded, so different jobs never share a directory.
\<close>

theorem encode_job_id_roundtrip: "decode_job_id (encode_job_id job) = job"
  by (rule decode_encode)

end
