(* ===== verification/Jobs.thy ===== *)
theory Jobs
  imports Error_Text Remediation Store_Steps
begin

text \<open>
  \<open>src/jobs.rs\<close>, \<open>src/jobs/cancellation.rs\<close>, \<open>src/cancellation.rs\<close> and \<open>src/job_pacing.rs\<close>: a job runs
  on its own task while requests, other jobs and a cancellation act on the same store. The world
  is what they share: the disk, the job's cancellation token, its event sequence and the events
  sent to its subscribers. Before every access the others may act.
\<close>

section \<open>Events on the wire\<close>

record job_client_error =
  client_code :: string
  client_message :: string
  client_detail :: string
  client_failure_detail :: "failure_detail option"
  client_suggestions :: "suggestion list option"

record job_client_state =
  client_job_id :: string
  client_status :: job_status
  client_stage :: "progress_stage option"
  client_progress :: u8
  client_last_message :: "string option"
  client_result :: "optimize_response option"
  client_error :: "job_client_error option"

record job_event_envelope =
  env_sequence :: u64
  env_updated_at :: i64
  env_state :: job_client_state

datatype job_event_kind = EventProgress | EventCompleted | EventFailed | EventCancelled

fun event_kind_str :: "job_event_kind \<Rightarrow> string" where
  "event_kind_str EventProgress = ''progress''"
| "event_kind_str EventCompleted = ''completed''"
| "event_kind_str EventFailed = ''failed''"
| "event_kind_str EventCancelled = ''cancelled''"

record job_event =
  event_kind :: job_event_kind
  event_envelope :: job_event_envelope

definition client_error_of :: "stored_job_error \<Rightarrow> job_client_error" where
  "client_error_of e = \<lparr>client_code = error_code e, client_message = error_message e, client_detail = error_detail e,
     client_failure_detail = stored_failure_detail e, client_suggestions = stored_suggestions e\<rparr>"

definition from_stored_job :: "u64 \<Rightarrow> stored_job \<Rightarrow> job_event_envelope" where
  "from_stored_job n job = (let s = stored_state job in
     \<lparr>env_sequence = n, env_updated_at = updated_at s,
      env_state = \<lparr>client_job_id = state_job_id s, client_status = status s, client_stage = job_stage s,
        client_progress = job_progress s, client_last_message = last_message s,
        client_result = stored_result job, client_error = map_option client_error_of (stored_error job)\<rparr>\<rparr>)"

definition is_valid_for_event :: "job_event_envelope \<Rightarrow> string \<Rightarrow> bool" where
  "is_valid_for_event envelope event =
     (let s = env_state envelope;
          payload_is_valid = (case client_status s of
              Pending \<Rightarrow> client_result s = None \<and> client_error s = None
            | Running \<Rightarrow> client_result s = None \<and> client_error s = None
            | Completed \<Rightarrow> client_result s \<noteq> None \<and> client_error s = None
            | JobFailed \<Rightarrow> client_result s = None \<and> client_error s \<noteq> None
            | JobCancelled \<Rightarrow> client_result s = None \<and> client_error s = None)
      in payload_is_valid \<and>
         (if event = ''snapshot'' then True
          else if event = ''progress'' then is_active (client_status s) \<and> client_stage s \<noteq> None
          else if event = ''completed'' then client_status s = Completed
          else if event = ''failed'' then client_status s = JobFailed
          else if event = ''cancelled'' then client_status s = JobCancelled
          else False))"

section \<open>The stored form of an error\<close>

definition routing_code :: "routing_error \<Rightarrow> string \<times> string" where
  "routing_code e = (case e of
     ProviderResolution _ \<Rightarrow> (''ROUTE_PROVIDER_RESOLUTION_ERROR'', ''No route provider could be selected.'')
   | ProviderOverrideDisabled \<Rightarrow>
       (''PROVIDER_OVERRIDE_DISABLED'', ''Request-level route provider override is disabled.'')
   | ProviderNotConfigured _ _ \<Rightarrow> (''PROVIDER_NOT_CONFIGURED'', ''The selected route provider is not configured.'')
   | UnsupportedProviderCapability _ _ \<Rightarrow>
       (''UNSUPPORTED_PROVIDER_CAPABILITY'', ''The selected route provider does not support this travel mode.'')
   | MatrixBuild _ _ _ _ _ _ _ \<Rightarrow> (''ROUTING_PAIR_FAILED'', ''A route could not be found for one location pair.'')
   | _ \<Rightarrow> (''ROUTING_UNAVAILABLE'', ''Travel-time routing is temporarily unavailable.''))"

definition infeasible_code :: "schedule_error \<Rightarrow> failure_detail option \<Rightarrow> string \<times> string" where
  "infeasible_code e detail = (case detail of
     Some (StartPolicyInfeasible _ _) \<Rightarrow>
       (''START_POLICY_INFEASIBLE'', ''The selected start policy cannot produce a feasible route.'')
   | Some (DetailTimeWindowViolation _ _ _ _ _ _) \<Rightarrow>
       (''TIME_WINDOW_VIOLATION'', ''A location cannot be visited within its opening window.'')
   | _ \<Rightarrow> (''NO_FEASIBLE_ROUTE'', ''No feasible route was found.''))"

definition error_texts :: "(f64 \<Rightarrow> string) \<Rightarrow> service_error \<Rightarrow> failure_detail option \<Rightarrow> (string \<times> string) \<times> string" where
  "error_texts show e detail = (case e of
     ServiceCancelled \<Rightarrow> ((''JOB_CANCELLED'', ''The optimization job was cancelled.''), service_error_str show e)
   | InvalidRequest source \<Rightarrow>
       ((''INVALID_REQUEST'', ''The optimize request is invalid.''), request_error_str show source)
   | RoutingFailed source \<Rightarrow> (routing_code source, routing_error_str source)
   | SolverFailed NoFeasibleRoute \<Rightarrow> (case detail of
         Some (StartPolicyInfeasible _ _) \<Rightarrow>
           ((''START_POLICY_INFEASIBLE'', ''The selected start policy cannot produce a feasible route.''),
            ''the route requires an earlier start'')
       | _ \<Rightarrow> ((''NO_FEASIBLE_ROUTE'', ''No feasible route was found.''), ''solver found no feasible route''))
   | ScheduleFailed OutsideSingleDay \<Rightarrow> (infeasible_code OutsideSingleDay detail, schedule_error_str OutsideSingleDay)
   | ScheduleFailed (TimeWindowViolation v) \<Rightarrow>
       (infeasible_code (TimeWindowViolation v) detail, schedule_error_str (TimeWindowViolation v))
   | SolverFailed source \<Rightarrow>
       ((''SOLVER_ERROR'', ''Route optimization failed unexpectedly.''), solver_error_str source)
   | ScheduleFailed source \<Rightarrow>
       ((''SCHEDULE_ERROR'', ''Route scheduling failed unexpectedly.''), schedule_error_str source))"

definition stored_error_of :: "(f64 \<Rightarrow> string) \<Rightarrow> service_error \<Rightarrow> suggestion list \<Rightarrow> failure_detail option \<Rightarrow>
    stored_job_error" where
  "stored_error_of show e gs detail =
     (let ((code, message), text) = error_texts show e detail in
      \<lparr>error_code = code, error_message = message, error_detail = text, stored_failure_detail = detail,
       stored_suggestions = (if gs = [] then None else Some gs)\<rparr>)"

section \<open>The world of a job\<close>

record job_world =
  wdisk :: disk
  wactions :: nat
  wpauses :: nat
  wtoken :: bool
  wsequence :: u64
  wsent :: "job_event list"
  wregistered :: bool

text \<open>
  What the worker did: the updates it sent, and what it returned, with its suggestions and the
  failure detail, or the text of a panic.
\<close>

datatype execution_update =
    UpdateProgress progress_stage u8 "string option"
  | UpdateTelemetry telemetry_event
  | UpdateResult optimize_response

type_synonym worker_result = "(service_error + optimize_response) \<times> suggestion list \<times> failure_detail option"

record run_env =
  run_store :: store_env
  others :: "nat \<Rightarrow> job_world \<Rightarrow> job_world"
  elapsed_now :: "nat \<Rightarrow> nat"
  show_f64 :: "f64 \<Rightarrow> string"
  limited :: bool
  updates_of :: "execution_update list"
  worker_of :: "string + worker_result"

text \<open>The others act.\<close>

definition pause :: "run_env \<Rightarrow> job_world \<Rightarrow> job_world" where
  "pause env w = (let w' = others env (wpauses w) w in w'\<lparr>wpauses := wpauses w + 1\<rparr>)"

definition storing :: "run_env \<Rightarrow> (store_env \<Rightarrow> 'a storing) \<Rightarrow> job_world \<Rightarrow> (store_error + 'a) \<times> job_world" where
  "storing env op w =
     (let w' = pause env w; (r, d, k) = op (run_store env) (wdisk w', wactions w')
      in (r, w'\<lparr>wdisk := d, wactions := k\<rparr>))"

definition token_set :: "run_env \<Rightarrow> job_world \<Rightarrow> bool \<times> job_world" where
  "token_set env w = (let w' = pause env w in (wtoken w', w'))"

definition cancel_token :: "run_env \<Rightarrow> job_world \<Rightarrow> job_world" where
  "cancel_token env w = (pause env w)\<lparr>wtoken := True\<rparr>"

section \<open>Publishing\<close>

definition publish :: "run_env \<Rightarrow> job_event_kind \<Rightarrow> stored_job \<Rightarrow> job_world \<Rightarrow> job_world" where
  "publish env kind job w =
     (let w1 = pause env w;
          n = (wsequence w1 + 1) mod 2 ^ 64;
          (_, w2) = storing env (\<lambda>s. record_event_sequence s (state_job_id (stored_state job)) n) (w1\<lparr>wsequence := n\<rparr>);
          w3 = pause env w2
      in w3\<lparr>wsent := wsent w3 @ [\<lparr>event_kind = kind, event_envelope = from_stored_job n job\<rparr>]\<rparr>)"

definition activity_publish_persisted :: "run_env \<Rightarrow> string \<Rightarrow> job_event_kind \<Rightarrow> job_world \<Rightarrow> job_world" where
  "activity_publish_persisted env job kind w =
     (case storing env (\<lambda>s. get_job s job) w of
        (Inr (Some j), w') \<Rightarrow>
          if kind = EventProgress \<and> \<not> is_active (status (stored_state j)) then w' else publish env kind j w'
      | (_, w') \<Rightarrow> w')"

definition publish_persisted :: "run_env \<Rightarrow> string \<Rightarrow> job_event_kind \<Rightarrow> job_world \<Rightarrow> job_world" where
  "publish_persisted env job kind w =
     (let w' = pause env w in if wregistered w' then activity_publish_persisted env job kind w' else w')"

section \<open>Pacing\<close>

definition pacer_minimum :: "debug_options option \<Rightarrow> u64 option" where
  "pacer_minimum debug = (case Option.bind debug min_job_duration_ms of
     Some d \<Rightarrow> if d > 0 then Some d else None | None \<Rightarrow> None)"

text \<open>Waits until the share of the minimum duration has passed; false when the job was cancelled.\<close>

definition wait_until_percentage :: "run_env \<Rightarrow> u64 option \<Rightarrow> nat \<Rightarrow> job_world \<Rightarrow> bool \<times> job_world" where
  "wait_until_percentage env minimum pct w = (case minimum of
     None \<Rightarrow> let (c, w') = token_set env w in (\<not> c, w')
   | Some ms \<Rightarrow>
       let target = min (ms * pct) (2 ^ 64 - 1) div 100 in
       if elapsed_now env (wpauses w) \<ge> target then let (c, w') = token_set env w in (\<not> c, w')
       else let (c, w') = token_set env w in
         if c then (False, w') else let (c, w'') = token_set env w' in (\<not> c, w''))"

definition wait_for_stage :: "run_env \<Rightarrow> u64 option \<Rightarrow> progress_stage \<Rightarrow> job_world \<Rightarrow> bool \<times> job_world" where
  "wait_for_stage env minimum stage = wait_until_percentage env minimum (range_start (stage_range stage))"

definition wait_until_minimum :: "run_env \<Rightarrow> u64 option \<Rightarrow> job_world \<Rightarrow> bool \<times> job_world" where
  "wait_until_minimum env minimum = wait_until_percentage env minimum 100"

section \<open>Running a job\<close>

text \<open>The transition was refused because the job is cancelled.\<close>

definition says_cancelled :: "store_error \<Rightarrow> bool" where
  "says_cancelled e \<longleftrightarrow> (case e of StoreInvalidTransition _ st \<Rightarrow> st = JobCancelled | _ \<Rightarrow> False)"

fun consume_updates :: "run_env \<Rightarrow> string \<Rightarrow> u64 option \<Rightarrow> execution_update list \<Rightarrow> optimize_response option \<Rightarrow>
    job_world \<Rightarrow> optimize_response option \<times> job_world" where
  "consume_updates env job minimum [] full w = (full, w)"
| "consume_updates env job minimum (UpdateProgress stage pct message # us) full w =
     (let (ready, w1) = wait_for_stage env minimum stage w in
      if \<not> ready then (full, w1)
      else case storing env (\<lambda>s. update_progress s job stage pct message) w1 of
          (Inr _, w2) \<Rightarrow> consume_updates env job minimum us full (publish_persisted env job EventProgress w2)
        | (Inl e, w2) \<Rightarrow>
            if says_cancelled e
            then (full, cancel_token env w2) else consume_updates env job minimum us full w2)"
| "consume_updates env job minimum (UpdateTelemetry event # us) full w =
     consume_updates env job minimum us full (snd (storing env (\<lambda>s. append_solver_event s job event) w))"
| "consume_updates env job minimum (UpdateResult result # us) full w =
     consume_updates env job minimum us (Some result) w"

record job_completion =
  completion_result :: "service_error + optimize_response"
  persisted_error :: "stored_job_error option"

definition cancelled_completion :: job_completion where
  "cancelled_completion = \<lparr>completion_result = Inl ServiceCancelled, persisted_error = None\<rparr>"

type_synonym run_result = "(store_error + job_completion) \<times> job_world"

definition cancel_message :: string where
  "cancel_message = ''Optimization cancelled at the user's request.''"

definition persist_cancelled :: "run_env \<Rightarrow> string \<Rightarrow> job_world \<Rightarrow> (store_error + unit) \<times> job_world" where
  "persist_cancelled env job w = (case storing env (\<lambda>s. cancel_job s job cancel_message) w of
     (Inr _, w') \<Rightarrow> (Inr (), publish_persisted env job EventCancelled w')
   | (Inl (JobNotCancellable _ _), w') \<Rightarrow> (Inr (), w')
   | (Inl e, w') \<Rightarrow> (Inl e, w'))"

definition cancelled_run :: "run_env \<Rightarrow> string \<Rightarrow> job_world \<Rightarrow> run_result" where
  "cancelled_run env job w = (case persist_cancelled env job w of
     (Inl e, w') \<Rightarrow> (Inl e, w')
   | (Inr _, w') \<Rightarrow> (Inr cancelled_completion, w'))"

text \<open>What follows a terminal write.\<close>

definition after_write :: "run_env \<Rightarrow> string \<Rightarrow> job_event_kind \<Rightarrow> job_completion \<Rightarrow>
    (store_error + write_outcome) \<times> job_world \<Rightarrow> run_result" where
  "after_write env job kind completion = (\<lambda>(r, w). case r of
     Inl e \<Rightarrow> (Inl e, w)
   | Inr Applied \<Rightarrow> (Inr completion, publish_persisted env job kind w)
   | Inr WriteCancelled \<Rightarrow> (Inr cancelled_completion, w))"

definition failed_run :: "run_env \<Rightarrow> string \<Rightarrow> service_error \<Rightarrow> stored_job_error \<Rightarrow> job_world \<Rightarrow> run_result" where
  "failed_run env job e stored w = after_write env job EventFailed
     \<lparr>completion_result = Inl e, persisted_error = Some stored\<rparr> (storing env (\<lambda>s. save_error s job stored) w)"

definition join_failure :: "string \<Rightarrow> stored_job_error" where
  "join_failure detail = \<lparr>error_code = ''JOB_EXECUTION_FAILED'',
     error_message = ''Route optimization failed unexpectedly.'', error_detail = detail,
     stored_failure_detail = None, stored_suggestions = None\<rparr>"

definition persist_execution :: "run_env \<Rightarrow> string \<Rightarrow> string + worker_result \<Rightarrow> optimize_response option \<Rightarrow>
    job_world \<Rightarrow> run_result" where
  "persist_execution env job execution full w = (case execution of
     Inr (Inr result, _, _) \<Rightarrow>
       let result = (case full of Some f \<Rightarrow> f | None \<Rightarrow> result) in
       after_write env job EventCompleted \<lparr>completion_result = Inr result, persisted_error = None\<rparr>
         (storing env (\<lambda>s. save_result s job result) w)
   | Inr (Inl ServiceCancelled, _, _) \<Rightarrow> cancelled_run env job w
   | Inr (Inl e, gs, detail) \<Rightarrow> failed_run env job e (stored_error_of (show_f64 env) e gs detail) w
   | Inl detail \<Rightarrow> failed_run env job (SolverFailed (Failed detail)) (join_failure detail) w)"

definition run_inner :: "run_env \<Rightarrow> optimize_request \<Rightarrow> job_world \<Rightarrow> run_result" where
  "run_inner env r w =
     (let job = req_job_id r; minimum = pacer_minimum (req_debug r);
          (turned_away, w1) = (if limited env then token_set env w else (False, w)) in
      if turned_away then (Inr cancelled_completion, w1)
      else let (c, w2) = token_set env w1 in
      if c then (Inr cancelled_completion, w2)
      else case storing env (\<lambda>s. mark_running s job) w2 of
          (Inl e, w3) \<Rightarrow>
            if says_cancelled e
            then (Inr cancelled_completion, w3) else (Inl e, w3)
        | (Inr _, w3) \<Rightarrow>
            let (full, w4) = consume_updates env job minimum (updates_of env) None w3;
                execution = worker_of env in
            if (case execution of Inr (Inl ServiceCancelled, _, _) \<Rightarrow> True | _ \<Rightarrow> False)
            then cancelled_run env job w4
            else let (waited, w5) = wait_until_minimum env minimum w4 in
              if \<not> waited then cancelled_run env job w5 else persist_execution env job execution full w5)"

definition run :: "run_env \<Rightarrow> optimize_request \<Rightarrow> job_world \<Rightarrow> run_result" where
  "run env r w = (let (outcome, w') = run_inner env r w in (outcome, w'\<lparr>wregistered := False\<rparr>))"

section \<open>Cancellation\<close>

text \<open>\<open>cancel_job\<close> of \<open>src/http/handlers/jobs.rs\<close>, which runs beside the job.\<close>

definition cancel_request :: "run_env \<Rightarrow> string \<Rightarrow> job_world \<Rightarrow> (store_error + job_status) \<times> job_world" where
  "cancel_request env job w =
     (let w0 = pause env w; active = wregistered w0 in
      case storing env (\<lambda>s. cancel_job s job cancel_message) w0 of
        (Inl e, w1) \<Rightarrow> (Inl e, w1)
      | (Inr s, w1) \<Rightarrow> (Inr (status s),
          if active then cancel_token env (activity_publish_persisted env job EventCancelled w1) else w1))"

section \<open>Submission\<close>

text \<open>\<open>outstanding\<close> counts the admission permits in use, which a run gives back when it ends.\<close>

definition try_admit :: "usize option \<Rightarrow> usize \<Rightarrow> store_error + usize" where
  "try_admit most outstanding = (case most of
     None \<Rightarrow> Inr outstanding
   | Some m \<Rightarrow> if outstanding < m then Inr (outstanding + 1) else Inl (CapacityExceeded m))"

definition effective_limit :: "usize option \<Rightarrow> usize option" where
  "effective_limit limit = (case limit of Some m \<Rightarrow> if m > 0 then Some m else None | None \<Rightarrow> None)"

definition new_job_world :: "disk \<times> nat \<Rightarrow> job_world" where
  "new_job_world = (\<lambda>(d, k). \<lparr>wdisk = d, wactions = k, wpauses = 0, wtoken = False, wsequence = 0, wsent = [],
     wregistered = True\<rparr>)"

text \<open>The submission, and the world in which the run that it schedules starts.\<close>

definition submit :: "store_env \<Rightarrow> usize option \<Rightarrow> optimize_request \<Rightarrow> usize \<Rightarrow> disk \<times> nat \<Rightarrow>
    (store_error + job_state \<times> job_world) \<times> usize \<times> disk \<times> nat" where
  "submit env most r outstanding dk = (case try_admit most outstanding of
     Inl e \<Rightarrow> (Inl e, outstanding, dk)
   | Inr admitted \<Rightarrow> (case create_job env r dk of
       (Inl e, dk') \<Rightarrow> (Inl e, outstanding, dk')
     | (Inr s, dk') \<Rightarrow> (Inr (s, new_job_world dk'), admitted, dk')))"

section \<open>The service as the worker\<close>

text \<open>The forwarder sends reports on as updates and drops errors.\<close>

fun forward :: "report \<Rightarrow> execution_update list" where
  "forward (ProgressReport stage pct message) = [UpdateProgress stage pct (Some message)]"
| "forward (ErrorReport code message e) = []"
| "forward (ResultReport response) = [UpdateResult response]"
| "forward (TelemetryReport event) = [UpdateTelemetry event]"

definition forwarded :: "report list \<Rightarrow> execution_update list" where
  "forwarded rs = concat (map forward rs)"

text \<open>
  What the blocking task does with the service: \<open>None\<close> when it never returns. The text of a panic
  is the runtime's; the remediation after a failure can panic too.
\<close>

definition service_worker :: "('date, 'zone) service_env \<Rightarrow> remediation_env \<Rightarrow> (string option \<Rightarrow> string) \<Rightarrow>
    optimize_request \<Rightarrow> (execution_update list \<times> (string + worker_result)) option" where
  "service_worker env renv join_text r = (let (out, s) = optimize env r initial_pipeline; sent = forwarded (reports s) in
     case out of
       Returned response \<Rightarrow> Some (sent, Inr (Inr response, [], None))
     | Failing e \<Rightarrow> Some (sent, case failure_suggestions env renv r e of
           None \<Rightarrow> Inl (join_text None)
         | Some gs \<Rightarrow> Inr (Inl e, gs, Some (service_failure_detail e (Some r))))
     | Panicking message \<Rightarrow> Some (sent, Inl (join_text (Some message)))
     | Diverging \<Rightarrow> None)"

end
