(* ===== verification/Jobs_Store.thy ===== *)
theory Jobs_Store
  imports Jobs
begin

text \<open>
  What a run relies on in the store: a job's payloads go with its status (\<open>clean\<close>), no operation
  spoils this when no file action fails, and each result of an operation says what the disk shows.
\<close>

section \<open>Clean disks\<close>

definition clean_files :: "job_files \<Rightarrow> bool" where
  "clean_files fs \<longleftrightarrow>
     (result_file fs \<noteq> None \<longleftrightarrow> (\<exists>s. state_file fs = Some s \<and> status s = Completed)) \<and>
     (error_file fs \<noteq> None \<longleftrightarrow> (\<exists>s. state_file fs = Some s \<and> status s = JobFailed))"

definition clean :: "disk \<Rightarrow> bool" where
  "clean d \<longleftrightarrow> (\<forall>name fs. job_dirs d name = Some fs \<longrightarrow> clean_files fs)"

lemma cleanD: "clean d \<Longrightarrow> job_dirs d name = Some fs \<Longrightarrow> clean_files fs"
  by (simp add: clean_def)

lemma clean_set_dir: "clean d \<Longrightarrow> clean_files fs \<Longrightarrow> clean (set_dir name fs d)"
  by (auto simp: clean_def)

lemma clean_reindexed [simp]: "clean (reindexed s es d) = clean d"
  by (simp add: clean_def reindexed_def)

lemma clean_put_state:
  "clean d \<Longrightarrow> job_dirs d (encode_job_id (state_job_id s)) = Some fs \<Longrightarrow> clean_files (fs\<lparr>state_file := Some s\<rparr>) \<Longrightarrow>
    clean (put_state s d)"
  by (simp add: put_state_def dir_of_def Let_def clean_set_dir)

lemma clean_active: "clean_files fs \<Longrightarrow> state_file fs = Some s \<Longrightarrow> is_active (status s) \<Longrightarrow>
    result_file fs = None \<and> error_file fs = None"
  by (auto simp: clean_files_def is_active_def)

text \<open>What an operation may do: keep the invariant, and tidiness when nothing fails.\<close>

definition tidy :: "store_env \<Rightarrow> disk \<Rightarrow> disk \<Rightarrow> bool" where
  "tidy env d d' \<longleftrightarrow> keeps d d' \<and> (quiet env \<longrightarrow> clean d \<longrightarrow> clean d')"

lemma tidy_refl: "store_ok d \<Longrightarrow> tidy env d d"
  by (simp add: tidy_def keeps_refl)

lemma tidy_trans: "tidy env a b \<Longrightarrow> tidy env b c \<Longrightarrow> tidy env a c"
  by (auto simp: tidy_def intro: keeps_trans)

lemma tidy_torn: "\<not> quiet env \<Longrightarrow> keeps d d' \<Longrightarrow> tidy env d d'"
  by (simp add: tidy_def)

definition cancelled_on :: "disk \<Rightarrow> string \<Rightarrow> bool" where
  "cancelled_on d job \<longleftrightarrow> (\<exists>s. state_of d job = Some s \<and> status s = JobCancelled)"

lemma says_cancelled_fs [simp]: "fs_error e \<Longrightarrow> \<not> says_cancelled e"
  by (auto simp: says_cancelled_def fs_error_def)

section \<open>The operations\<close>

lemma active_result:
  assumes "store_ok d" and "job_dirs d (encode_job_id job) = Some fs" and "state_file fs = Some s"
    and "state_job_id s' = job" and "is_active (status s)" and "is_active (status s')"
  shows "clean d \<longrightarrow> clean (put_state s' d)"
proof
  assume c: "clean d"
  have "clean_files fs" by (rule cleanD [OF c assms(2)])
  then have "clean_files (fs\<lparr>state_file := Some s'\<rparr>)"
    using assms(3,5,6) by (auto simp: clean_files_def is_active_def)
  then show "clean (put_state s' d)" using clean_put_state [OF c] assms(2,4) by blast
qed

lemma wp_marked:
  assumes "store_ok d"
  shows "wp (mark_running env job) (\<lambda>r d'. tidy env d d' \<and>
    (\<forall>e. r = Inl e \<longrightarrow> says_cancelled e \<longrightarrow> cancelled_on d' job)) d"
  unfolding mark_running_def
proof (rule wp_mutate [OF assms])
  fix fs s e
  assume "job_dirs d (encode_job_id job) = Some fs" "state_file fs = Some s" "running_state job s = Inl e"
  then show "tidy env d d \<and> (\<forall>e'. (Inl e :: store_error + unit) = Inl e' \<longrightarrow> says_cancelled e' \<longrightarrow> cancelled_on d job)"
    using tidy_refl [OF assms]
    by (auto simp: running_state_def says_cancelled_def cancelled_on_def state_of_def files_of_def split: if_splits)
next
  fix fs s s' t es
  assume at: "job_dirs d (encode_job_id job) = Some fs" "state_file fs = Some s" "running_state job s = Inr s'"
    and kept: "keeps d (reindexed (s'\<lparr>updated_at := t\<rparr>) es (put_state (s'\<lparr>updated_at := t\<rparr>) d))"
  have "clean d \<longrightarrow> clean (put_state (s'\<lparr>updated_at := t\<rparr>) d)"
    by (rule active_result [OF assms at(1,2)])
      (use at(3) store_okD(1) [OF assms at(1,2)] in \<open>auto simp: running_state_def is_active_def split: if_splits\<close>)
  then show "tidy env d (reindexed (s'\<lparr>updated_at := t\<rparr>) es (put_state (s'\<lparr>updated_at := t\<rparr>) d)) \<and>
      (\<forall>e. (Inr () :: store_error + unit) = Inl e \<longrightarrow> says_cancelled e \<longrightarrow>
        cancelled_on (reindexed (s'\<lparr>updated_at := t\<rparr>) es (put_state (s'\<lparr>updated_at := t\<rparr>) d)) job)"
    using kept by (simp add: tidy_def)
qed (use tidy_refl [OF assms] in \<open>auto simp: tidy_torn intro: running_follows [OF assms]\<close>)

lemma state_of_put [simp]:
  "state_of (reindexed s es (put_state s d)) job = (if job = state_job_id s then Some s else state_of d job)"
  by (simp add: state_of_def files_of_def reindexed_def put_state_def Let_def)

lemma wp_progressed:
  assumes "store_ok d"
  shows "wp (update_progress env job stage pct message) (\<lambda>r d'. tidy env d d' \<and>
    (\<forall>e. r = Inl e \<longrightarrow> says_cancelled e \<longrightarrow> cancelled_on d' job) \<and>
    (r = Inr () \<longrightarrow> (\<exists>s. state_of d' job = Some s \<and> job_stage s \<noteq> None))) d"
  unfolding update_progress_def
proof (rule wp_mutate [OF assms])
  fix fs s e
  assume "job_dirs d (encode_job_id job) = Some fs" "state_file fs = Some s"
    "progressed_state job stage pct message s = Inl e"
  then show "tidy env d d \<and> (\<forall>e'. (Inl e :: store_error + unit) = Inl e' \<longrightarrow> says_cancelled e' \<longrightarrow> cancelled_on d job) \<and>
      ((Inl e :: store_error + unit) = Inr () \<longrightarrow> (\<exists>s. state_of d job = Some s \<and> job_stage s \<noteq> None))"
    using tidy_refl [OF assms]
    by (auto simp: progressed_state_def says_cancelled_def cancelled_on_def state_of_def files_of_def split: if_splits)
next
  fix fs s s' t es
  assume at: "job_dirs d (encode_job_id job) = Some fs" "state_file fs = Some s"
      "progressed_state job stage pct message s = Inr s'"
    and kept: "keeps d (reindexed (s'\<lparr>updated_at := t\<rparr>) es (put_state (s'\<lparr>updated_at := t\<rparr>) d))"
  have s': "is_active (status s)" "is_active (status s')" "job_stage s' \<noteq> None" "state_job_id s' = job"
    using at(3) store_okD(1) [OF assms at(1,2)]
    by (auto simp: progressed_state_def is_active_def split: if_splits option.splits)
  have "clean d \<longrightarrow> clean (put_state (s'\<lparr>updated_at := t\<rparr>) d)"
    by (rule active_result [OF assms at(1,2)]) (use s' in simp_all)
  then show "tidy env d (reindexed (s'\<lparr>updated_at := t\<rparr>) es (put_state (s'\<lparr>updated_at := t\<rparr>) d)) \<and>
      (\<forall>e. (Inr () :: store_error + unit) = Inl e \<longrightarrow> says_cancelled e \<longrightarrow>
        cancelled_on (reindexed (s'\<lparr>updated_at := t\<rparr>) es (put_state (s'\<lparr>updated_at := t\<rparr>) d)) job) \<and>
      ((Inr () :: store_error + unit) = Inr () \<longrightarrow>
        (\<exists>u. state_of (reindexed (s'\<lparr>updated_at := t\<rparr>) es (put_state (s'\<lparr>updated_at := t\<rparr>) d)) job = Some u \<and> job_stage u \<noteq> None))"
    using kept s' by (simp add: tidy_def)
qed (use tidy_refl [OF assms] in \<open>auto simp: tidy_torn intro: progressed_follows [OF assms]\<close>)

lemma wp_cancelled:
  assumes "store_ok d"
  shows "wp (cancel_job env job message) (\<lambda>r d'. tidy env d d' \<and> (\<forall>s. r = Inr s \<longrightarrow> cancelled_on d' job) \<and>
    (\<forall>j st. r = Inl (JobNotCancellable j st) \<longrightarrow> (\<exists>s. state_of d' job = Some s \<and> \<not> is_active (status s)))) d"
proof (rule wp_cancel_job [OF assms])
  fix fs s
  assume "job_at d job fs s" "\<not> is_active (status s)"
  then show "tidy env d d \<and> (\<forall>u. (Inl (JobNotCancellable job (status s)) :: store_error + job_state) = Inr u \<longrightarrow> cancelled_on d job) \<and>
      (\<forall>j st. (Inl (JobNotCancellable job (status s)) :: store_error + job_state) = Inl (JobNotCancellable j st) \<longrightarrow>
        (\<exists>s. state_of d job = Some s \<and> \<not> is_active (status s)))"
    using tidy_refl [OF assms] by (auto simp: job_at_def state_of_def files_of_def)
next
  fix fs s t es
  let ?s = "cancelled_state s message t"
  assume at: "job_at d job fs s" "is_active (status s)" and kept: "keeps d (reindexed ?s es (put_state ?s d))"
  have id: "state_job_id ?s = job" using job_at_id [OF assms at(1)] by (simp add: cancelled_state_def)
  have "clean (put_state ?s d)" if c: "clean d"
  proof (rule clean_put_state [OF c])
    show "job_dirs d (encode_job_id (state_job_id ?s)) = Some fs" using at(1) id by (simp add: job_at_def)
    then have "clean_files fs" by (rule cleanD [OF c])
    then show "clean_files (fs\<lparr>state_file := Some ?s\<rparr>)"
      using at by (auto simp: clean_files_def job_at_def is_active_def cancelled_state_def)
  qed
  then show "tidy env d (reindexed ?s es (put_state ?s d)) \<and>
      (\<forall>u. (Inr ?s :: store_error + job_state) = Inr u \<longrightarrow> cancelled_on (reindexed ?s es (put_state ?s d)) job) \<and>
      (\<forall>j st. (Inr ?s :: store_error + job_state) = Inl (JobNotCancellable j st) \<longrightarrow>
        (\<exists>s. state_of (reindexed ?s es (put_state ?s d)) job = Some s \<and> \<not> is_active (status s)))"
    using kept id by (simp add: tidy_def cancelled_on_def) (simp add: cancelled_state_def)
qed (use tidy_refl [OF assms] in \<open>auto simp: tidy_torn\<close>)

definition finished_as :: "disk \<Rightarrow> string \<Rightarrow> job_status \<Rightarrow> (job_files \<Rightarrow> bool) \<Rightarrow> bool" where
  "finished_as d job st payload \<longleftrightarrow> (\<exists>fs s. job_at d job fs s \<and> status s = st \<and> payload fs)"

lemma clean_finished:
  assumes ok: "store_ok d" and at: "job_at d job fs s" and run: "status s = Running" and c: "clean d"
    and payload: "st = Completed \<and> update = result_file_update (\<lambda>_. Some result) \<or>
      st = JobFailed \<and> update = error_file_update (\<lambda>_. Some e)"
  shows "clean (finished_disk s st t es (put_payload job update d))"
proof -
  have dir: "job_dirs d (encode_job_id job) = Some fs" "state_file fs = Some s" using at by (auto simp: job_at_def)
  have fs: "result_file fs = None \<and> error_file fs = None"
    by (rule clean_active [OF cleanD [OF c dir(1)] dir(2)]) (simp add: run is_active_def)
  have id: "state_job_id (terminal_state s st t) = job" using job_at_id [OF ok at] by (simp add: terminal_state_def)
  have "clean_files ((update fs)\<lparr>state_file := Some (terminal_state s st t)\<rparr>)"
    using payload fs by (auto simp: clean_files_def terminal_state_def)
  then show ?thesis
    unfolding finished_disk_def clean_reindexed
    using clean_set_dir [OF c] dir by (simp add: put_state_def put_payload_def dir_of_def id Let_def)
qed

lemma wp_saved:
  assumes ok: "store_ok d"
  shows "wp (save_result env job result) (\<lambda>r d'. tidy env d d' \<and>
      (r = Inr Applied \<longrightarrow> finished_as d' job Completed (\<lambda>fs. result_file fs = Some result)) \<and>
      (r = Inr WriteCancelled \<longrightarrow> cancelled_on d' job)) d" (is "wp _ ?Q d")
    and "wp (save_error env job e) (\<lambda>r d'. tidy env d d' \<and>
      (r = Inr Applied \<longrightarrow> finished_as d' job JobFailed (\<lambda>fs. error_file fs = Some e)) \<and>
      (r = Inr WriteCancelled \<longrightarrow> cancelled_on d' job)) d" (is "wp _ ?R d")
proof -
  have stopped: "?Q (Inr WriteCancelled) d" "?R (Inr WriteCancelled) d"
    if "job_at d job fs s" "status s = JobCancelled" for fs s
    using that tidy_refl [OF ok] by (auto simp: cancelled_on_def state_of_def files_of_def job_at_def)
  have applied: "?Q (Inr Applied) (finished_disk s Completed t es (put_payload job (result_file_update (\<lambda>_. Some result)) d))"
    if at: "job_at d job fs s" "status s = Running"
      and kept: "keeps d (finished_disk s Completed t es (put_payload job (result_file_update (\<lambda>_. Some result)) d))" for fs s t es
  proof -
    let ?d = "finished_disk s Completed t es (put_payload job (result_file_update (\<lambda>_. Some result)) d)"
    have "finished_as ?d job Completed (\<lambda>fs. result_file fs = Some result)"
      using job_at_finished [OF ok at(1), of Completed t es "result_file_update (\<lambda>_. Some result)"]
      by (fastforce simp: finished_as_def terminal_state_def)
    then show ?thesis using kept clean_finished [OF ok at] by (simp add: tidy_def)
  qed
  show "wp (save_result env job result) ?Q d"
    unfolding save_result_def
    by (rule wp_save [OF ok]) (use stopped applied tidy_refl [OF ok] in \<open>auto simp: tidy_torn\<close>)
  have applied: "?R (Inr Applied) (finished_disk s JobFailed t es (put_payload job (error_file_update (\<lambda>_. Some e)) d))"
    if at: "job_at d job fs s" "status s = Running"
      and kept: "keeps d (finished_disk s JobFailed t es (put_payload job (error_file_update (\<lambda>_. Some e)) d))" for fs s t es
  proof -
    let ?d = "finished_disk s JobFailed t es (put_payload job (error_file_update (\<lambda>_. Some e)) d)"
    have "finished_as ?d job JobFailed (\<lambda>fs. error_file fs = Some e)"
      using job_at_finished [OF ok at(1), of JobFailed t es "error_file_update (\<lambda>_. Some e)"]
      by (fastforce simp: finished_as_def terminal_state_def)
    then show ?thesis using kept clean_finished [OF ok at] by (simp add: tidy_def)
  qed
  show "wp (save_error env job e) ?R d"
    unfolding save_error_def
    by (rule wp_save [OF ok]) (use stopped applied tidy_refl [OF ok] in \<open>auto simp: tidy_torn\<close>)
qed

text \<open>Writes beside the state and the payloads.\<close>

lemma clean_extra:
  assumes "clean d" and "job_dirs d name = Some fs" and "state_file fs' = state_file fs"
    and "result_file fs' = result_file fs" and "error_file fs' = error_file fs"
  shows "clean (set_dir name fs' d)"
  using clean_set_dir [OF assms(1)] cleanD [OF assms(1,2)] assms(3-5) by (simp add: clean_files_def)

lemma wp_conj: "wp m P d \<Longrightarrow> wp m Q d \<Longrightarrow> wp m (\<lambda>r d'. P r d' \<and> Q r d') d"
  by (simp add: wp_def case_prod_unfold)

lemma clean_telemetry: "clean d \<Longrightarrow> clean (set_telemetry name f d)"
  by (auto simp: set_telemetry_def intro: clean_extra split: option.split)

lemma wp_observed:
  assumes "store_ok d"
  shows "wp (append_solver_event env job e) (\<lambda>_. tidy env d) d"
proof (cases "clean d")
  case True
  have "wp (write_event env name e) (\<lambda>_. clean) d'" if "clean d'" for name d'
    using that by (auto simp: wp_def write_event_def clean_telemetry split: option.split fault.split)
  then have "wp (append_solver_event env job e) (\<lambda>_. clean) d"
    unfolding append_solver_event_def Let_def
    by (intro wps) (use True clean_telemetry [OF True] in \<open>auto intro!: wps split: option.split\<close>)
  from wp_conj [OF append_solver_event_keeps [OF assms] this]
  show ?thesis by (rule wp_mono) (simp add: tidy_def)
qed (rule wp_mono [OF append_solver_event_keeps [OF assms]], simp add: tidy_def)

lemma wp_recorded:
  assumes "store_ok d"
  shows "wp (record_event_sequence env job n) (\<lambda>_. tidy env d) d"
proof (cases "clean d")
  case True
  have "wp (record_event_sequence env job n) (\<lambda>_. clean) d"
    unfolding record_event_sequence_def
    by (intro wps) (use True clean_extra [OF True] in \<open>auto intro!: wps\<close>)
  from wp_conj [OF record_event_sequence_keeps [OF assms] this]
  show ?thesis by (rule wp_mono) (simp add: tidy_def)
qed (rule wp_mono [OF record_event_sequence_keeps [OF assms]], simp add: tidy_def)

lemma wp_created:
  assumes "store_ok d"
  shows "wp (create_job env r) (\<lambda>_. tidy env d) d"
proof (rule wp_create_job [OF assms])
  fix t es
  assume kept: "keeps d (created_disk r t es d)"
  have "clean_files ((fresh_files r)\<lparr>state_file := Some (fresh_state (req_job_id r) t)\<rparr>)"
    by (simp add: clean_files_def fresh_files_def no_files_def fresh_state_def)
  then show "tidy env d (created_disk r t es d)"
    using kept clean_set_dir by (simp add: tidy_def created_disk_def Let_def)
qed (use tidy_refl [OF assms] in \<open>auto simp: tidy_torn\<close>)

lemma wp_recovered:
  assumes "store_ok d" and "lists_dirs env"
  shows "wp (recover_interrupted env) (\<lambda>_. tidy env d) d"
proof (rule wp_mono [OF wp_recover [OF assms]])
  fix r d'
  assume post: "keeps d d' \<and> (quiet env \<longrightarrow> r = Inr (card {name. active_dir d name}) \<and>
      index_file d' = Some (whole_index env d') \<and>
      (\<forall>name. \<exists>t. job_dirs d' name = map_option (recovered_files t) (job_dirs d name)))"
  have "clean_files fs'" if c: "clean d" and q: "quiet env" and dir: "job_dirs d' name = Some fs'" for name fs'
  proof -
    obtain t fs where fs: "job_dirs d name = Some fs" "fs' = recovered_files t fs"
      using post q dir by (metis map_option_eq_Some)
    show ?thesis
      using cleanD [OF c fs(1)] by (auto simp: fs(2) recovered_files_def clean_files_def recovered_state_def is_active_def split: option.splits)
  qed
  then show "tidy env d d'" using post by (simp add: tidy_def clean_def)
qed

text \<open>Every step of the store in an environment in which nothing fails is tidy.\<close>

inductive calm_step :: "disk \<Rightarrow> disk \<Rightarrow> bool" where
  calm_create: "quiet env \<Longrightarrow> create_job env r (d, k) = (res, d', k') \<Longrightarrow> calm_step d d'"
| calm_start: "quiet env \<Longrightarrow> mark_running env job (d, k) = (res, d', k') \<Longrightarrow> calm_step d d'"
| calm_progress: "quiet env \<Longrightarrow> update_progress env job stage pct message (d, k) = (res, d', k') \<Longrightarrow> calm_step d d'"
| calm_complete: "quiet env \<Longrightarrow> save_result env job result (d, k) = (res, d', k') \<Longrightarrow> calm_step d d'"
| calm_fail: "quiet env \<Longrightarrow> save_error env job e (d, k) = (res, d', k') \<Longrightarrow> calm_step d d'"
| calm_cancel: "quiet env \<Longrightarrow> cancel_job env job message (d, k) = (res, d', k') \<Longrightarrow> calm_step d d'"
| calm_recover: "quiet env \<Longrightarrow> lists_dirs env \<Longrightarrow> recover_interrupted env (d, k) = (res, d', k') \<Longrightarrow> calm_step d d'"
| calm_observe: "quiet env \<Longrightarrow> append_solver_event env job event (d, k) = (res, d', k') \<Longrightarrow> calm_step d d'"
| calm_publish: "quiet env \<Longrightarrow> record_event_sequence env job n (d, k) = (res, d', k') \<Longrightarrow> calm_step d d'"

lemma calm_step_tidy:
  assumes "calm_step d d'" and "store_ok d"
  shows "keeps d d'" "clean d \<longrightarrow> clean d'"
proof -
  have "\<exists>env. quiet env \<and> tidy env d d'"
    using assms
  proof cases
    case calm_start then show ?thesis using wpD [OF wp_marked [OF assms(2)]] by blast
  next
    case calm_progress then show ?thesis using wpD [OF wp_progressed [OF assms(2)]] by blast
  next
    case calm_complete then show ?thesis using wpD [OF wp_saved(1) [OF assms(2)]] by blast
  next
    case calm_fail then show ?thesis using wpD [OF wp_saved(2) [OF assms(2)]] by blast
  next
    case calm_cancel then show ?thesis using wpD [OF wp_cancelled [OF assms(2)]] by blast
  next
    case calm_create then show ?thesis using wpD [OF wp_created [OF assms(2)]] by blast
  next
    case calm_recover then show ?thesis using wpD [OF wp_recovered [OF assms(2)]] by blast
  next
    case calm_observe then show ?thesis using wpD [OF wp_observed [OF assms(2)]] by blast
  next
    case calm_publish then show ?thesis using wpD [OF wp_recorded [OF assms(2)]] by blast
  qed
  then show "keeps d d'" "clean d \<longrightarrow> clean d'" by (auto simp: tidy_def)
qed

end
