(* ===== verification/Jobs_Facts.thy ===== *)
theory Jobs_Facts
  imports Jobs_Store
begin

text \<open>
  The run of a job beside others: what they and the run may do to the world (\<open>grows\<close>), that
  every part of the run does no more, and what its completion and the events it sends say.
\<close>

section \<open>What stays\<close>

lemma keeps_job:
  assumes "keeps d d'" and "state_of d job = Some s"
  shows "\<exists>s'. state_of d' job = Some s' \<and> job_advances s s'"
  using assms by (fastforce simp: keeps_def evolves_def files_advance_def state_of_def files_of_def bind_eq_Some_conv)

interpretation kept_store: job_lifecycle store_ok state_of keeps
  by unfold_locales (auto simp: keeps_def intro: keeps_job)

lemma cancelled_stays: "keeps d d' \<Longrightarrow> cancelled_on d job \<Longrightarrow> cancelled_on d' job"
  using keeps_job by (fastforce simp: cancelled_on_def job_advances_def is_active_def)

lemma inactive_stays:
  "keeps d d' \<Longrightarrow> \<exists>s. state_of d job = Some s \<and> \<not> is_active (status s) \<Longrightarrow>
    \<exists>s. state_of d' job = Some s \<and> \<not> is_active (status s)"
  using keeps_job by (fastforce simp: job_advances_def)

lemma finished_as_stays:
  assumes "keeps d d'" and "finished_as d job st payload" and "\<not> is_active st"
    and "\<And>fs fs'. result_file fs' = result_file fs \<Longrightarrow> error_file fs' = error_file fs \<Longrightarrow> payload fs = payload fs'"
  shows "finished_as d' job st payload"
proof -
  obtain fs s where fs: "job_dirs d (encode_job_id job) = Some fs" "state_file fs = Some s" "status s = st" "payload fs"
    using assms(2) by (auto simp: finished_as_def job_at_def)
  then obtain fs' where fs': "job_dirs d' (encode_job_id job) = Some fs'" "files_advance fs fs'"
    using assms(1) unfolding keeps_def evolves_def by blast
  then have "result_file fs' = result_file fs" "error_file fs' = error_file fs" "state_file fs' = Some s"
    using fs(2,3) assms(3) by (auto simp: files_advance_def job_advances_def)
  moreover from this have "payload fs'" using assms(4) [of fs' fs] fs(4) by simp
  ultimately show ?thesis using fs(3) fs'(1) unfolding finished_as_def job_at_def by blast
qed

section \<open>What may happen to the world\<close>

definition valid_event :: "job_event \<Rightarrow> bool" where
  "valid_event e \<longleftrightarrow> is_valid_for_event (event_envelope e) (event_kind_str (event_kind e))"

definition orderly :: "run_env \<Rightarrow> job_world \<Rightarrow> bool" where
  "orderly env w \<longleftrightarrow> quiet (run_store env) \<and> clean (wdisk w)"

definition grows :: "run_env \<Rightarrow> string \<Rightarrow> job_world \<Rightarrow> job_world \<Rightarrow> bool" where
  "grows env job w w' \<longleftrightarrow> tidy (run_store env) (wdisk w) (wdisk w') \<and>
     (wtoken w \<longrightarrow> wtoken w') \<and> (wtoken w' \<longrightarrow> wtoken w \<or> cancelled_on (wdisk w') job) \<and>
     (orderly env w \<longrightarrow> (\<exists>es. wsent w' = wsent w @ es \<and> (\<forall>e\<in>set es. valid_event e)))"

definition rely :: "run_env \<Rightarrow> string \<Rightarrow> bool" where
  "rely env job \<longleftrightarrow> (\<forall>n w. store_ok (wdisk w) \<longrightarrow> grows env job w (others env n w))"

definition sound_world :: "string \<Rightarrow> job_world \<Rightarrow> bool" where
  "sound_world job w \<longleftrightarrow> store_ok (wdisk w) \<and> (wtoken w \<longrightarrow> cancelled_on (wdisk w) job)"

lemma grows_keeps: "grows env job w w' \<Longrightarrow> keeps (wdisk w) (wdisk w')"
  by (simp add: grows_def tidy_def)

lemma grows_ok: "grows env job w w' \<Longrightarrow> store_ok (wdisk w')"
  using grows_keeps by (auto simp: keeps_def)

lemma grows_refl: "store_ok (wdisk w) \<Longrightarrow> grows env job w w"
  by (simp add: grows_def tidy_refl)

lemma grows_sound: "grows env job w w' \<Longrightarrow> sound_world job w \<Longrightarrow> sound_world job w'"
  unfolding sound_world_def using grows_ok grows_keeps cancelled_stays
  by (metis grows_def)

lemma grows_trans:
  assumes ab: "grows env job a b" and bc: "grows env job b c"
  shows "grows env job a c"
proof -
  have orderly: "orderly env b" if "orderly env a" using that ab by (simp add: orderly_def grows_def tidy_def)
  have "\<exists>es. wsent c = wsent a @ es \<and> (\<forall>e\<in>set es. valid_event e)" if o: "orderly env a"
  proof -
    obtain es fs where "wsent b = wsent a @ es" "\<forall>e\<in>set es. valid_event e" "wsent c = wsent b @ fs" "\<forall>e\<in>set fs. valid_event e"
      using ab bc o orderly [OF o] unfolding grows_def by blast
    then show ?thesis by (intro exI [of _ "es @ fs"]) auto
  qed
  moreover have "cancelled_on (wdisk b) job \<Longrightarrow> cancelled_on (wdisk c) job"
    by (rule cancelled_stays [OF grows_keeps [OF bc]])
  ultimately show ?thesis using ab bc tidy_trans unfolding grows_def by blast
qed

lemma grows_pauses [simp]: "grows env job w (w'\<lparr>wpauses := n\<rparr>) = grows env job w w'"
  by (simp add: grows_def)

lemma grows_sequence [simp]: "grows env job w (w'\<lparr>wsequence := n\<rparr>) = grows env job w w'"
  by (simp add: grows_def)

lemma grows_registered [simp]: "grows env job w (w'\<lparr>wregistered := b\<rparr>) = grows env job w w'"
  by (simp add: grows_def)

lemma pause_grows: "rely env job \<Longrightarrow> store_ok (wdisk w) \<Longrightarrow> grows env job w (pause env w)"
  by (simp add: pause_def rely_def Let_def)

lemma storing_grows:
  assumes rely: "rely env job" and ok: "store_ok (wdisk w)" and run: "storing env op w = (r, w')"
    and op: "\<And>d. store_ok d \<Longrightarrow> keeps (wdisk w) d \<Longrightarrow> wp (op (run_store env)) (\<lambda>r d'. tidy (run_store env) d d' \<and> P r d') d"
  shows "grows env job w w'" "P r (wdisk w')"
proof -
  let ?w = "pause env w"
  have paused: "grows env job w ?w" by (rule pause_grows [OF rely ok])
  obtain d k where res: "op (run_store env) (wdisk ?w, wactions ?w) = (r, d, k)" "w' = ?w\<lparr>wdisk := d, wactions := k\<rparr>"
    using run by (auto simp: storing_def Let_def split: prod.splits)
  have post: "tidy (run_store env) (wdisk ?w) d" "P r d" 
    using wpD [OF op [OF grows_ok [OF paused] grows_keeps [OF paused]] res(1)] by auto
  then have "grows env job ?w w'" using res(2) cancelled_stays by (auto simp: grows_def tidy_def)
  then show "grows env job w w'" by (rule grows_trans [OF paused])
  show "P r (wdisk w')" using post(2) res(2) by simp
qed

lemma token_set_grows:
  "rely env job \<Longrightarrow> store_ok (wdisk w) \<Longrightarrow> token_set env w = (c, w') \<Longrightarrow> grows env job w w' \<and> c = wtoken w'"
  using pause_grows by (auto simp: token_set_def Let_def)

lemma cancel_token_grows:
  assumes "rely env job" and "store_ok (wdisk w)" and "cancelled_on (wdisk w) job"
  shows "grows env job w (cancel_token env w)"
  using pause_grows [OF assms(1,2)] cancelled_stays [OF grows_keeps assms(3)]
  by (auto simp: cancel_token_def grows_def)

section \<open>Publishing\<close>

text \<open>When a job can be published under a kind, which holds from then on.\<close>

definition publishable :: "job_event_kind \<Rightarrow> disk \<Rightarrow> string \<Rightarrow> bool" where
  "publishable kind d job \<longleftrightarrow> (\<exists>s. state_of d job = Some s \<and> (case kind of
     EventProgress \<Rightarrow> job_stage s \<noteq> None
   | EventCompleted \<Rightarrow> status s = Completed
   | EventFailed \<Rightarrow> status s = JobFailed
   | EventCancelled \<Rightarrow> status s = JobCancelled))"

lemma publishable_stays:
  assumes "keeps d d'" and "publishable kind d job"
  shows "publishable kind d' job"
proof -
  obtain s where s: "state_of d job = Some s" using assms(2) by (auto simp: publishable_def)
  obtain s' where s': "state_of d' job = Some s'" "job_advances s s'" using keeps_job [OF assms(1) s] by blast
  show ?thesis
    using assms(2) s s' by (cases kind) (auto simp: publishable_def job_advances_def is_active_def)
qed

lemma publish_grows:
  assumes rely: "rely env job" and ok: "store_ok (wdisk w)"
    and valid: "\<And>n. orderly env w \<Longrightarrow> is_valid_for_event (from_stored_job n j) (event_kind_str kind)"
  shows "grows env job w (publish env kind j w)"
proof -
  define w1 where "w1 = pause env w"
  define n where "n = (wsequence w1 + 1) mod 2 ^ 64"
  obtain r w2 where w2: "storing env (\<lambda>s. record_event_sequence s (state_job_id (stored_state j)) n) (w1\<lparr>wsequence := n\<rparr>) = (r, w2)"
    by (cases "storing env (\<lambda>s. record_event_sequence s (state_job_id (stored_state j)) n) (w1\<lparr>wsequence := n\<rparr>)")
  define w3 where "w3 = pause env w2"
  have g1: "grows env job w (w1\<lparr>wsequence := n\<rparr>)" using pause_grows [OF rely ok] by (simp add: w1_def)
  have g2: "grows env job (w1\<lparr>wsequence := n\<rparr>) w2"
    by (rule storing_grows(1) [OF rely grows_ok [OF g1] w2, of "\<lambda>_ _. True"]) (use wp_recorded in simp)
  have g3: "grows env job w2 w3" unfolding w3_def by (rule pause_grows [OF rely grows_ok [OF g2]])
  have all: "grows env job w w3" by (rule grows_trans [OF g1 grows_trans [OF g2 g3]])
  have "grows env job w (w3\<lparr>wsent := wsent w3 @ [\<lparr>event_kind = kind, event_envelope = from_stored_job n j\<rparr>]\<rparr>)"
    using all valid [of n] by (fastforce simp: grows_def valid_event_def)
  then show ?thesis using w2 by (simp add: publish_def Let_def w1_def n_def w3_def)
qed

lemma stored_job_valid:
  assumes clean: "clean_files fs" and ok: "files_ok name fs" and s: "state_file fs = Some s"
    and kind: "case kind of EventProgress \<Rightarrow> job_stage s \<noteq> None \<and> is_active (status s)
      | EventCompleted \<Rightarrow> status s = Completed | EventFailed \<Rightarrow> status s = JobFailed | EventCancelled \<Rightarrow> status s = JobCancelled"
  shows "is_valid_for_event (from_stored_job n \<lparr>stored_request = r, stored_state = s, stored_result = result_file fs,
    stored_error = error_file fs\<rparr>) (event_kind_str kind)"
  using assms
  by (cases kind; cases "status s")
    (auto simp: is_valid_for_event_def from_stored_job_def clean_files_def is_active_def Let_def)

text \<open>The job read under a publishable kind, when no action fails, is the one on the disk.\<close>

definition read_from :: "run_env \<Rightarrow> string \<Rightarrow> store_error + stored_job option \<Rightarrow> disk \<Rightarrow> bool" where
  "read_from env job r d \<longleftrightarrow> (\<forall>j. r = Inr (Some j) \<longrightarrow> quiet (run_store env) \<longrightarrow> (\<exists>fs s req. job_at d job fs s \<and>
     j = \<lparr>stored_request = req, stored_state = s, stored_result = result_file fs, stored_error = error_file fs\<rparr>))"

lemma wp_read_job:
  assumes ok: "store_ok d" and there: "state_of d job = Some s"
  shows "wp (get_job (run_store env) job) (\<lambda>r d'. tidy (run_store env) d d' \<and> read_from env job r d') d"
proof -
  obtain fs where at: "job_at d job fs s" using there by (auto simp: state_of_def files_of_def job_at_def bind_eq_Some_conv)
  then have "job_dirs d (encode_job_id job) = Some fs" "state_file fs = Some s" by (auto simp: job_at_def)
  from store_okD(6) [OF ok this] obtain req where req: "request_file fs = Some req" by blast
  show ?thesis
    by (rule wp_mono [OF wp_get_job [OF at req]]) (use at tidy_refl [OF ok] in \<open>auto simp: read_from_def\<close>)
qed

lemma activity_publish_grows:
  assumes rely: "rely env job" and ok: "store_ok (wdisk w)" and kind: "publishable kind (wdisk w) job"
  shows "grows env job w (activity_publish_persisted env job kind w)"
proof -
  obtain r w1 where w1: "storing env (\<lambda>s. get_job s job) w = (r, w1)"
    by (cases "storing env (\<lambda>s. get_job s job) w")
  have "\<exists>s. state_of d job = Some s" if "keeps (wdisk w) d" for d
    using publishable_stays [OF that kind] by (auto simp: publishable_def)
  then have read: "wp (get_job (run_store env) job) (\<lambda>r d'. tidy (run_store env) d d' \<and> read_from env job r d') d"
    if "store_ok d" "keeps (wdisk w) d" for d
    using wp_read_job that by blast
  note g = storing_grows [OF rely ok w1 read]
  have kind1: "publishable kind (wdisk w1) job" by (rule publishable_stays [OF grows_keeps [OF g(1)] kind])
  have ok1: "store_ok (wdisk w1)" by (rule grows_ok [OF g(1)])
  have "grows env job w1 (publish env kind j w1)"
    if j: "r = Inr (Some j)" "\<not> (kind = EventProgress \<and> \<not> is_active (status (stored_state j)))" for j
  proof (rule publish_grows [OF rely ok1])
    fix n
    assume o: "orderly env w1"
    then obtain fs s req where at: "job_at (wdisk w1) job fs s"
      and j': "j = \<lparr>stored_request = req, stored_state = s, stored_result = result_file fs, stored_error = error_file fs\<rparr>"
      using g(2) j(1) unfolding read_from_def orderly_def by blast
    have dir: "job_dirs (wdisk w1) (encode_job_id job) = Some fs" "state_file fs = Some s" using at by (auto simp: job_at_def)
    have "clean_files fs" using o dir(1) by (auto simp: orderly_def clean_def)
    moreover have "files_ok (encode_job_id job) fs" using ok1 dir(1) by (auto simp: store_ok_def)
    moreover have "case kind of EventProgress \<Rightarrow> job_stage s \<noteq> None \<and> is_active (status s)
        | EventCompleted \<Rightarrow> status s = Completed | EventFailed \<Rightarrow> status s = JobFailed | EventCancelled \<Rightarrow> status s = JobCancelled"
      using kind1 dir j(2) by (auto simp: publishable_def state_of_def files_of_def j' split: job_event_kind.splits)
    ultimately show "is_valid_for_event (from_stored_job n j) (event_kind_str kind)"
      unfolding j' using stored_job_valid dir(2) by blast
  qed
  then show ?thesis
    using g(1) w1 by (auto simp: activity_publish_persisted_def intro: grows_trans split: sum.split option.split)
qed

lemma publish_persisted_grows:
  assumes rely: "rely env job" and ok: "store_ok (wdisk w)" and kind: "publishable kind (wdisk w) job"
  shows "grows env job w (publish_persisted env job kind w)"
proof -
  note g = pause_grows [OF rely ok]
  have "grows env job (pause env w) (activity_publish_persisted env job kind (pause env w))"
    by (rule activity_publish_grows [OF rely grows_ok [OF g] publishable_stays [OF grows_keeps [OF g] kind]])
  then show ?thesis using g by (simp add: publish_persisted_def Let_def grows_trans [OF g])
qed

section \<open>The parts of a run\<close>

lemma wait_grows:
  assumes rely: "rely env job" and ok: "store_ok (wdisk w)" and run: "wait_until_percentage env minimum pct w = (go, w')"
  shows "grows env job w w'" "\<not> go \<longrightarrow> wtoken w'"
proof -
  obtain c w1 where 1: "token_set env w = (c, w1)" by (cases "token_set env w")
  obtain c' w2 where 2: "token_set env w1 = (c', w2)" by (cases "token_set env w1")
  note g1 = token_set_grows [OF rely ok 1]
  note g2 = token_set_grows [OF rely grows_ok [OF conjunct1 [OF g1]] 2]
  have "grows env job w w2" using g1 g2 grows_trans by blast
  then show "grows env job w w'" "\<not> go \<longrightarrow> wtoken w'"
    using run g1 g2 by (auto simp: wait_until_percentage_def 1 2 Let_def split: option.splits if_splits)
qed

lemma update_grows:
  assumes rely: "rely env job" and ok: "store_ok (wdisk w)"
    and run: "storing env (\<lambda>s. update_progress s job stage pct message) w = (r, w')"
  shows "grows env job w w'" "\<forall>e. r = Inl e \<longrightarrow> says_cancelled e \<longrightarrow> cancelled_on (wdisk w') job"
    "r = Inr () \<longrightarrow> publishable EventProgress (wdisk w') job"
  using storing_grows [OF rely ok run wp_progressed] by (auto simp: publishable_def)

lemma consume_grows:
  assumes rely: "rely env job"
  shows "store_ok (wdisk w) \<Longrightarrow> consume_updates env job minimum us full w = (full', w') \<Longrightarrow> grows env job w w'"
proof (induction us arbitrary: full w)
  case Nil
  then show ?case by (simp add: grows_refl)
next
  case (Cons u us)
  show ?case
  proof (cases u)
    case (UpdateProgress stage pct message)
    obtain go w1 where wait: "wait_for_stage env minimum stage w = (go, w1)" by (cases "wait_for_stage env minimum stage w")
    then have g1: "grows env job w w1" using wait_grows [OF rely Cons.prems(1)] by (simp add: wait_for_stage_def)
    obtain r w2 where put: "storing env (\<lambda>s. update_progress s job stage pct message) w1 = (r, w2)"
      by (cases "storing env (\<lambda>s. update_progress s job stage pct message) w1")
    note g2 = update_grows [OF rely grows_ok [OF g1] put]
    have both: "grows env job w w2" by (rule grows_trans [OF g1 g2(1)])
    show ?thesis
    proof (cases "\<not> go")
      case True
      then show ?thesis using Cons.prems(2) wait g1 UpdateProgress by simp
    next
      case go: False
      show ?thesis
      proof (cases r)
        case (Inl e)
        then show ?thesis
          using Cons.prems(2) wait put go both UpdateProgress Cons.IH [OF grows_ok [OF both]]
            cancel_token_grows [OF rely grows_ok [OF both]] g2(2)
          by (auto intro: grows_trans split: if_splits)
      next
        case (Inr x)
        have g3: "grows env job w2 (publish_persisted env job EventProgress w2)"
          by (rule publish_persisted_grows [OF rely grows_ok [OF both]]) (use g2(3) Inr in simp)
        then have "grows env job (publish_persisted env job EventProgress w2) w'"
          using Cons.prems(2) wait put go UpdateProgress Inr Cons.IH [OF grows_ok [OF g3]] by simp
        then show ?thesis using grows_trans [OF both g3] grows_trans by blast
      qed
    qed
  next
    case (UpdateTelemetry event)
    obtain r w1 where put: "storing env (\<lambda>s. append_solver_event s job event) w = (r, w1)"
      by (cases "storing env (\<lambda>s. append_solver_event s job event) w")
    have g: "grows env job w w1"
      by (rule storing_grows(1) [OF rely Cons.prems(1) put, of "\<lambda>_ _. True"]) (use wp_observed in simp)
    show ?thesis
      using Cons.prems(2) UpdateTelemetry put Cons.IH [OF grows_ok [OF g]] grows_trans [OF g] by simp
  next
    case (UpdateResult x3)
    then show ?thesis using Cons by simp
  qed
qed

section \<open>The whole run\<close>

definition truthful :: "disk \<Rightarrow> string \<Rightarrow> job_completion \<Rightarrow> bool" where
  "truthful d job c \<longleftrightarrow> (case completion_result c of
     Inr response \<Rightarrow> persisted_error c = None \<and> finished_as d job Completed (\<lambda>fs. result_file fs = Some response)
   | Inl e \<Rightarrow> (case persisted_error c of
       Some stored \<Rightarrow> finished_as d job JobFailed (\<lambda>fs. error_file fs = Some stored)
     | None \<Rightarrow> e = ServiceCancelled \<and> (\<exists>s. state_of d job = Some s \<and> \<not> is_active (status s))))"

lemma truthful_stays: "keeps d d' \<Longrightarrow> truthful d job c \<Longrightarrow> truthful d' job c"
  unfolding truthful_def
  using inactive_stays [of d d' job] finished_as_stays [of d d' job]
  by (auto simp: is_active_def split: sum.splits option.splits)

lemma cancelled_truthful: "cancelled_on d job \<Longrightarrow> truthful d job cancelled_completion"
  by (auto simp: truthful_def cancelled_completion_def cancelled_on_def is_active_def)

text \<open>What is shown of a part of the run that ends it.\<close>

definition ends :: "run_env \<Rightarrow> string \<Rightarrow> job_world \<Rightarrow> run_result \<Rightarrow> bool" where
  "ends env job w res \<longleftrightarrow> grows env job w (snd res) \<and> (\<forall>c. fst res = Inr c \<longrightarrow> truthful (wdisk (snd res)) job c)"

lemma ends_after: "grows env job w w1 \<Longrightarrow> ends env job w1 res \<Longrightarrow> ends env job w res"
  using grows_trans by (auto simp: ends_def)

lemma cancelled_run_ends:
  assumes rely: "rely env job" and ok: "store_ok (wdisk w)"
  shows "ends env job w (cancelled_run env job w)"
proof -
  obtain r w1 where put: "storing env (\<lambda>s. cancel_job s job cancel_message) w = (r, w1)"
    by (cases "storing env (\<lambda>s. cancel_job s job cancel_message) w")
  note g = storing_grows [OF rely ok put wp_cancelled]
  show ?thesis
  proof (cases r)
    case (Inl e)
    have "truthful (wdisk w1) job cancelled_completion" if "e = JobNotCancellable j st" for j st
      using g(2) Inl that by (auto simp: truthful_def cancelled_completion_def)
    then show ?thesis
      using g(1) Inl put by (cases e) (auto simp: ends_def cancelled_run_def persist_cancelled_def)
  next
    case (Inr s)
    then have on: "cancelled_on (wdisk w1) job" using g(2) by blast
    then have kind: "publishable EventCancelled (wdisk w1) job" by (simp add: publishable_def cancelled_on_def)
    have g2: "grows env job w1 (publish_persisted env job EventCancelled w1)"
      by (rule publish_persisted_grows [OF rely grows_ok [OF g(1)] kind])
    then have "truthful (wdisk (publish_persisted env job EventCancelled w1)) job cancelled_completion"
      using cancelled_truthful cancelled_stays [OF grows_keeps [OF g2] on] by blast
    then show ?thesis
      using put Inr grows_trans [OF g(1) g2] by (simp add: ends_def cancelled_run_def persist_cancelled_def)
  qed
qed

lemma after_write_ends:
  assumes rely: "rely env job" and g: "grows env job w w1"
    and applied: "r = Inr Applied \<Longrightarrow> truthful (wdisk w1) job c \<and> publishable kind (wdisk w1) job"
    and cancelled: "r = Inr WriteCancelled \<Longrightarrow> cancelled_on (wdisk w1) job"
  shows "ends env job w (after_write env job kind c (r, w1))"
proof (cases r)
  case (Inl e)
  then show ?thesis using g by (simp add: ends_def after_write_def)
next
  case (Inr outcome)
  show ?thesis
  proof (cases outcome)
    case Applied
    then have "publishable kind (wdisk w1) job" "truthful (wdisk w1) job c" using applied Inr by simp_all
    moreover from this have g2: "grows env job w1 (publish_persisted env job kind w1)"
      by (intro publish_persisted_grows [OF rely grows_ok [OF g]])
    ultimately have "truthful (wdisk (publish_persisted env job kind w1)) job c"
      using truthful_stays [OF grows_keeps] by blast
    then show ?thesis using Inr Applied grows_trans [OF g g2] by (simp add: ends_def after_write_def)
  next
    case WriteCancelled
    then show ?thesis using Inr g cancelled cancelled_truthful by (simp add: ends_def after_write_def)
  qed
qed

lemma finished_publishable:
  "finished_as d job Completed payload \<Longrightarrow> publishable EventCompleted d job"
  "finished_as d job JobFailed payload \<Longrightarrow> publishable EventFailed d job"
  by (auto simp: finished_as_def publishable_def job_at_def state_of_def files_of_def)

lemma failed_run_ends:
  assumes rely: "rely env job" and ok: "store_ok (wdisk w)"
  shows "ends env job w (failed_run env job e stored w)"
proof -
  obtain r w1 where put: "storing env (\<lambda>s. save_error s job stored) w = (r, w1)"
    by (cases "storing env (\<lambda>s. save_error s job stored) w")
  note g = storing_grows [OF rely ok put wp_saved(2)]
  show ?thesis
    unfolding failed_run_def put
    by (rule after_write_ends [OF rely g(1)]) (use g(2) finished_publishable(2) in \<open>auto simp: truthful_def\<close>)
qed

lemma persist_execution_ends:
  assumes rely: "rely env job" and ok: "store_ok (wdisk w)"
  shows "ends env job w (persist_execution env job execution full w)"
proof (cases execution)
  case (Inl detail)
  then show ?thesis using failed_run_ends [OF assms] by (simp add: persist_execution_def)
next
  case (Inr worked)
  obtain res gs detail where worked: "worked = (res, gs, detail)" by (cases worked)
  show ?thesis
  proof (cases res)
    case (Inl e)
    then show ?thesis
      using failed_run_ends [OF assms] cancelled_run_ends [OF assms] Inr worked
      by (cases e) (simp_all add: persist_execution_def)
  next
    case result: (Inr result)
    let ?result = "case full of Some f \<Rightarrow> f | None \<Rightarrow> result"
    obtain r w1 where put: "storing env (\<lambda>s. save_result s job ?result) w = (r, w1)"
      by (cases "storing env (\<lambda>s. save_result s job ?result) w")
    note g = storing_grows [OF rely ok put wp_saved(1)]
    have "ends env job w (after_write env job EventCompleted \<lparr>completion_result = Inr ?result, persisted_error = None\<rparr> (r, w1))"
      by (rule after_write_ends [OF rely g(1)]) (use g(2) finished_publishable(1) in \<open>auto simp: truthful_def\<close>)
    then show ?thesis using Inr worked result put by (simp add: persist_execution_def Let_def)
  qed
qed

lemma run_inner_ends:
  assumes rely: "rely env (req_job_id r)" and sound: "sound_world (req_job_id r) w"
  shows "ends env (req_job_id r) w (run_inner env r w)"
proof -
  let ?job = "req_job_id r" and ?minimum = "pacer_minimum (req_debug r)"
  have ok: "store_ok (wdisk w)" using sound by (simp add: sound_world_def)
  have stopped: "ends env ?job w (Inr cancelled_completion, w')"
    if "grows env ?job w w'" "wtoken w' \<or> cancelled_on (wdisk w') ?job" for w'
  proof -
    have "sound_world ?job w'" by (rule grows_sound [OF that(1) sound])
    then have "cancelled_on (wdisk w') ?job" using that(2) by (auto simp: sound_world_def)
    then show ?thesis using that(1) cancelled_truthful by (simp add: ends_def)
  qed
  obtain c1 w1 where 1: "(if limited env then token_set env w else (False, w)) = (c1, w1)" by force
  have g1: "grows env ?job w w1" "c1 \<longrightarrow> wtoken w1"
    using 1 token_set_grows [OF rely ok] grows_refl [OF ok] by (auto split: if_splits)
  obtain c2 w2 where 2: "token_set env w1 = (c2, w2)" by (cases "token_set env w1")
  have g2: "grows env ?job w w2" "c2 \<longrightarrow> wtoken w2"
    using token_set_grows [OF rely grows_ok [OF g1(1)] 2] grows_trans [OF g1(1)] by auto
  obtain m w3 where 3: "storing env (\<lambda>s. mark_running s ?job) w2 = (m, w3)"
    by (cases "storing env (\<lambda>s. mark_running s ?job) w2")
  note marked = storing_grows [OF rely grows_ok [OF g2(1)] 3 wp_marked]
  have g3: "grows env ?job w w3" by (rule grows_trans [OF g2(1) marked(1)])
  obtain full w4 where 4: "consume_updates env ?job ?minimum (updates_of env) None w3 = (full, w4)"
    by (cases "consume_updates env ?job ?minimum (updates_of env) None w3")
  have g4: "grows env ?job w w4"
    by (rule grows_trans [OF g3 consume_grows [OF rely grows_ok [OF g3] 4]])
  obtain go w5 where 5: "wait_until_minimum env ?minimum w4 = (go, w5)" by (cases "wait_until_minimum env ?minimum w4")
  have g5: "grows env ?job w w5"
    by (rule grows_trans [OF g4 wait_grows(1) [OF rely grows_ok [OF g4] 5 [unfolded wait_until_minimum_def]]])
  have early: "ends env ?job w (cancelled_run env ?job w4)" "ends env ?job w (cancelled_run env ?job w5)"
    using ends_after [OF g4 cancelled_run_ends [OF rely grows_ok [OF g4]]]
      ends_after [OF g5 cancelled_run_ends [OF rely grows_ok [OF g5]]] by blast+
  have finished: "ends env ?job w (persist_execution env ?job (worker_of env) full w5)"
    by (rule ends_after [OF g5 persist_execution_ends [OF rely grows_ok [OF g5]]])
  have failed: "ends env ?job w (Inl e, w3)" for e using g3 by (simp add: ends_def)
  show ?thesis
    using stopped [OF g1(1)] g1(2) stopped [OF g2(1)] g2(2) stopped [OF g3] marked(2) early finished failed
    by (cases m) (auto simp: run_inner_def Let_def 1 2 3 4 5)
qed

lemma run_ends:
  assumes "rely env (req_job_id r)" and "sound_world (req_job_id r) w" and "run env r w = (res, w')"
  shows "grows env (req_job_id r) w w'" "res = Inr c \<Longrightarrow> truthful (wdisk w') (req_job_id r) c"
  using run_inner_ends [OF assms(1,2)] assms(3) by (auto simp: run_def ends_def Let_def split: prod.splits)

section \<open>A cancellation beside the run\<close>

lemma grows_env: "run_store e = run_store e' \<Longrightarrow> grows e = grows e'"
  by (intro ext) (simp add: grows_def orderly_def)

lemma cancel_request_grows:
  assumes rely: "rely env job" and ok: "store_ok (wdisk w)"
  shows "grows env job w (snd (cancel_request env job w))"
proof -
  note g0 = pause_grows [OF rely ok]
  obtain r w1 where put: "storing env (\<lambda>s. cancel_job s job cancel_message) (pause env w) = (r, w1)"
    by (cases "storing env (\<lambda>s. cancel_job s job cancel_message) (pause env w)")
  note g = storing_grows [OF rely grows_ok [OF g0] put wp_cancelled]
  have g1: "grows env job w w1" by (rule grows_trans [OF g0 g(1)])
  show ?thesis
  proof (cases r)
    case (Inl e)
    then show ?thesis using g1 put by (simp add: cancel_request_def Let_def)
  next
    case (Inr s)
    let ?w = "activity_publish_persisted env job EventCancelled w1"
    have on: "cancelled_on (wdisk w1) job" using g(2) Inr by blast
    have "publishable EventCancelled (wdisk w1) job" using on by (simp add: publishable_def cancelled_on_def)
    from activity_publish_grows [OF rely grows_ok [OF g1] this] have g2: "grows env job w1 ?w" .
    have "grows env job ?w (cancel_token env ?w)"
      by (rule cancel_token_grows [OF rely grows_ok [OF g2] cancelled_stays [OF grows_keeps [OF g2] on]])
    then have "grows env job w (cancel_token env ?w)" by (rule grows_trans [OF grows_trans [OF g1 g2]])
    then show ?thesis using g1 put Inr by (simp add: cancel_request_def Let_def)
  qed
qed

lemma alone_rely: "(\<And>n w. others env n w = w) \<Longrightarrow> rely env job"
  by (simp add: rely_def grows_refl)

end
