(* ===== verification/Job_Runs.thy ===== *)
theory Job_Runs
  imports Jobs_Facts
begin

text \<open>
  What a run of a job promises: its completion is what the disk shows, its events are valid on the
  wire, and alone and without failures it brings the worker's outcome to the disk.
\<close>

section \<open>A run that is alone\<close>

definition running_on :: "disk \<Rightarrow> string \<Rightarrow> bool" where
  "running_on d job \<longleftrightarrow> (\<exists>s. state_of d job = Some s \<and> status s = Running)"

definition lone :: "run_env \<Rightarrow> bool" where
  "lone env \<longleftrightarrow> quiet (run_store env) \<and> (\<forall>n w. others env n w = w)"

text \<open>What a lone run keeps while the worker is running.\<close>

definition at_work :: "string \<Rightarrow> job_world \<Rightarrow> bool" where
  "at_work job w \<longleftrightarrow> store_ok (wdisk w) \<and> \<not> wtoken w \<and> running_on (wdisk w) job"

lemma lone_rely: "lone env \<Longrightarrow> rely env job"
  by (simp add: lone_def alone_rely)

lemma lone_pause [simp]: "lone env \<Longrightarrow> pause env w = w\<lparr>wpauses := wpauses w + 1\<rparr>"
  by (simp add: lone_def pause_def Let_def)

lemma at_work_pauses [simp]: "at_work job (w\<lparr>wpauses := n\<rparr>) = at_work job w"
  by (simp add: at_work_def)

lemma lone_storing:
  assumes lone: "lone env" and ok: "store_ok (wdisk w)" and run: "storing env op w = (r, w')"
    and op: "wp (op (run_store env)) (\<lambda>r d'. keeps (wdisk w) d' \<and> P r d') (wdisk w)"
  shows "store_ok (wdisk w')" "wtoken w' = wtoken w" "P r (wdisk w')"
proof -
  obtain d k where res: "op (run_store env) (wdisk w, wactions w) = (r, d, k)" "wdisk w' = d" "wtoken w' = wtoken w"
    using run lone by (auto simp: storing_def Let_def split: prod.splits)
  show "store_ok (wdisk w')" "wtoken w' = wtoken w" "P r (wdisk w')"
    using wpD [OF op res(1)] res(2,3) by (auto simp: keeps_def)
qed

lemma wp_marks:
  assumes ok: "store_ok d" and q: "quiet env" and there: "state_of d job = Some s" "is_active (status s)"
  shows "wp (mark_running env job) (\<lambda>r d'. keeps d d' \<and> r = Inr () \<and> running_on d' job) d"
  unfolding mark_running_def
proof (rule wp_mutate [OF ok])
  fix fs s' e
  assume "job_dirs d (encode_job_id job) = Some fs" "state_file fs = Some s'" "running_state job s' = Inl e"
  then show "keeps d d \<and> (Inl e :: store_error + unit) = Inr () \<and> running_on d job"
    using there by (simp add: running_state_def state_of_def files_of_def)
next
  fix fs s0 s' t es
  assume at: "job_dirs d (encode_job_id job) = Some fs" "state_file fs = Some s0" "running_state job s0 = Inr s'"
    and kept: "keeps d (reindexed (s'\<lparr>updated_at := t\<rparr>) es (put_state (s'\<lparr>updated_at := t\<rparr>) d))"
  have "state_job_id s0 = job" using store_okD(1) [OF ok at(1,2)] by simp
  then have "state_job_id s' = job" "status s' = Running" using at(3) by (auto simp: running_state_def split: if_splits)
  then show "keeps d (reindexed (s'\<lparr>updated_at := t\<rparr>) es (put_state (s'\<lparr>updated_at := t\<rparr>) d)) \<and>
      (Inr () :: store_error + unit) = Inr () \<and>
      running_on (reindexed (s'\<lparr>updated_at := t\<rparr>) es (put_state (s'\<lparr>updated_at := t\<rparr>) d)) job"
    using kept by (simp add: running_on_def)
qed (use q there in \<open>auto simp: state_of_def intro: running_follows [OF ok]\<close>)

lemma wp_progresses:
  assumes ok: "store_ok d" and q: "quiet env" and there: "running_on d job"
  shows "wp (update_progress env job stage pct message) (\<lambda>r d'. keeps d d' \<and> r = Inr () \<and> running_on d' job) d"
  unfolding update_progress_def
proof (rule wp_mutate [OF ok])
  fix fs s' e
  assume "job_dirs d (encode_job_id job) = Some fs" "state_file fs = Some s'" "progressed_state job stage pct message s' = Inl e"
  then show "keeps d d \<and> (Inl e :: store_error + unit) = Inr () \<and> running_on d job"
    using there by (auto simp: progressed_state_def running_on_def state_of_def files_of_def is_active_def split: if_splits)
next
  fix fs s0 s' t es
  assume at: "job_dirs d (encode_job_id job) = Some fs" "state_file fs = Some s0"
      "progressed_state job stage pct message s0 = Inr s'"
    and kept: "keeps d (reindexed (s'\<lparr>updated_at := t\<rparr>) es (put_state (s'\<lparr>updated_at := t\<rparr>) d))"
  have run: "status s0 = Running" using there at(1,2) by (auto simp: running_on_def state_of_def files_of_def)
  have "state_job_id s0 = job" using store_okD(1) [OF ok at(1,2)] by simp
  then have "state_job_id s' = job" "status s' = Running"
    using at(3) run by (auto simp: progressed_state_def is_active_def split: if_splits option.splits)
  then show "keeps d (reindexed (s'\<lparr>updated_at := t\<rparr>) es (put_state (s'\<lparr>updated_at := t\<rparr>) d)) \<and>
      (Inr () :: store_error + unit) = Inr () \<and>
      running_on (reindexed (s'\<lparr>updated_at := t\<rparr>) es (put_state (s'\<lparr>updated_at := t\<rparr>) d)) job"
    using kept by (simp add: running_on_def)
qed (use q there in \<open>auto simp: state_of_def running_on_def intro: progressed_follows [OF ok]\<close>)

lemma running_set_dir:
  "running_on d job \<Longrightarrow> job_dirs d name = Some fs \<Longrightarrow> state_file fs' = state_file fs \<Longrightarrow> running_on (set_dir name fs' d) job"
  by (auto simp: running_on_def state_of_def files_of_def)

lemma running_telemetry: "running_on d job \<Longrightarrow> running_on (set_telemetry name f d) job"
  by (auto simp: set_telemetry_def intro: running_set_dir split: option.split)

lemma wp_observes:
  assumes "store_ok d" and "running_on d job"
  shows "wp (append_solver_event env j e) (\<lambda>r d'. keeps d d' \<and> running_on d' job) d"
proof (rule wp_conj [OF append_solver_event_keeps [OF assms(1)]])
  have "wp (write_event env name e) (\<lambda>_ d'. running_on d' job) d'" if "running_on d' job" for name d'
    using that by (auto simp: wp_def write_event_def running_telemetry split: option.split fault.split)
  then show "wp (append_solver_event env j e) (\<lambda>_ d'. running_on d' job) d"
    unfolding append_solver_event_def Let_def
    by (intro wps) (use assms(2) running_telemetry [OF assms(2)] in \<open>auto intro!: wps split: option.split\<close>)
qed

lemma wp_records:
  assumes "store_ok d" and "running_on d job"
  shows "wp (record_event_sequence env j n) (\<lambda>r d'. keeps d d' \<and> running_on d' job) d"
proof (rule wp_conj [OF record_event_sequence_keeps [OF assms(1)]])
  show "wp (record_event_sequence env j n) (\<lambda>_ d'. running_on d' job) d"
    unfolding record_event_sequence_def
    by (intro wps) (use assms(2) running_set_dir [OF assms(2)] in \<open>auto intro!: wps\<close>)
qed

lemma wp_reads:
  assumes "store_ok d"
  shows "wp (get_job env j) (\<lambda>r d'. keeps d d' \<and> d' = d) d"
  unfolding get_job_def Let_def by (intro wps) (use keeps_refl [OF assms] in \<open>auto intro!: wps\<close>)

lemma wp_completes:
  assumes ok: "store_ok d" and q: "quiet env" and there: "running_on d job"
  shows "wp (save_result env job result) (\<lambda>r d'. keeps d d' \<and> r = Inr Applied) d"
    and "wp (save_error env job e) (\<lambda>r d'. keeps d d' \<and> r = Inr Applied) d"
    and "wp (cancel_job env job m) (\<lambda>r d'. keeps d d' \<and> (\<exists>s. r = Inr s)) d"
proof -
  have dir: "job_dirs d (encode_job_id job) \<noteq> None" "files_of (encode_job_id job) state_file d \<noteq> None"
    using there by (auto simp: running_on_def state_of_def files_of_def bind_eq_Some_conv)
  have run: "status s = Running" if "job_at d job fs s" for fs s
    using that there by (auto simp: running_on_def state_of_def files_of_def job_at_def)
  show "wp (save_result env job result) (\<lambda>r d'. keeps d d' \<and> r = Inr Applied) d"
    unfolding save_result_def by (rule wp_save [OF ok]) (use q dir run in auto)
  show "wp (save_error env job e) (\<lambda>r d'. keeps d d' \<and> r = Inr Applied) d"
    unfolding save_error_def by (rule wp_save [OF ok]) (use q dir run in auto)
  show "wp (cancel_job env job m) (\<lambda>r d'. keeps d d' \<and> (\<exists>s. r = Inr s)) d"
    by (rule wp_cancel_job [OF ok]) (use q dir run in \<open>auto simp: is_active_def\<close>)
qed

section \<open>The parts of a lone run\<close>

lemma storing_at_work:
  assumes "lone env" and "at_work job w" and "storing env op w = (r, w')"
    and "\<And>d. store_ok d \<Longrightarrow> running_on d job \<Longrightarrow>
      wp (op (run_store env)) (\<lambda>r d'. keeps d d' \<and> P r \<and> running_on d' job) d"
  shows "at_work job w'" "P r"
proof -
  have at: "store_ok (wdisk w)" "\<not> wtoken w" "running_on (wdisk w) job" using assms(2) by (simp_all add: at_work_def)
  note res = lone_storing [OF assms(1) at(1) assms(3) assms(4) [OF at(1,3)]]
  show "at_work job w'" "P r" using res at(2) by (simp_all add: at_work_def)
qed

lemma publish_at_work:
  assumes lone: "lone env" and at: "at_work job w"
  shows "at_work job (publish env kind j w)"
proof -
  define n where "n = (wsequence w + 1) mod 2 ^ 64"
  let ?w = "w\<lparr>wpauses := wpauses w + 1, wsequence := n\<rparr>"
  obtain r w2 where w2: "storing env (\<lambda>s. record_event_sequence s (state_job_id (stored_state j)) n) ?w = (r, w2)"
    by (cases "storing env (\<lambda>s. record_event_sequence s (state_job_id (stored_state j)) n) ?w")
  have "at_work job ?w" using at by (simp add: at_work_def)
  then have "at_work job w2"
    by (rule storing_at_work(1) [OF lone _ w2, of _ "\<lambda>_. True"]) (use wp_records in simp)
  then show ?thesis using w2 lone by (simp add: publish_def Let_def n_def at_work_def)
qed

lemma publish_persisted_at_work:
  assumes lone: "lone env" and at: "at_work job w"
  shows "at_work job (publish_persisted env job kind w)"
proof -
  let ?w = "w\<lparr>wpauses := wpauses w + 1\<rparr>"
  obtain r w1 where w1: "storing env (\<lambda>s. get_job s job) ?w = (r, w1)" by (cases "storing env (\<lambda>s. get_job s job) ?w")
  have "at_work job ?w" using at by simp
  then have "at_work job w1"
    by (rule storing_at_work(1) [OF lone _ w1, of _ "\<lambda>_. True"])
      (rule wp_mono [OF wp_reads], auto)
  then show ?thesis
    using w1 lone at publish_at_work [OF lone]
    by (auto simp: publish_persisted_def activity_publish_persisted_def Let_def split: sum.split option.split)
qed

lemma lone_token: "lone env \<Longrightarrow> at_work job w \<Longrightarrow> token_set env w = (False, w\<lparr>wpauses := wpauses w + 1\<rparr>)"
  by (simp add: token_set_def at_work_def Let_def)

lemma lone_wait:
  assumes lone: "lone env" and at: "at_work job w"
  shows "\<exists>w'. wait_until_percentage env minimum pct w = (True, w') \<and> at_work job w'"
proof -
  have "token_set env w' = (False, w'\<lparr>wpauses := wpauses w' + 1\<rparr>)" "at_work job (w'\<lparr>wpauses := wpauses w' + 1\<rparr>)"
    if "at_work job w'" for w'
    using lone_token [OF lone that] that by simp_all
  from this [OF at] this [OF this(2) [OF at]] show ?thesis
    by (auto simp: wait_until_percentage_def Let_def simp del: One_nat_def add_Suc_right split: option.split)
qed

text \<open>The result that is kept: the last snapshot, or what the worker returned.\<close>

fun last_snapshot :: "execution_update list \<Rightarrow> optimize_response option \<Rightarrow> optimize_response option" where
  "last_snapshot [] full = full"
| "last_snapshot (UpdateResult result # us) full = last_snapshot us (Some result)"
| "last_snapshot (_ # us) full = last_snapshot us full"

lemma lone_consume:
  assumes lone: "lone env"
  shows "at_work job w \<Longrightarrow> \<exists>w'. consume_updates env job minimum us full w = (last_snapshot us full, w') \<and> at_work job w'"
proof (induction us arbitrary: full w)
  case Nil
  then show ?case by simp
next
  case (Cons u us)
  show ?case
  proof (cases u)
    case (UpdateProgress stage pct message)
    obtain w1 where wait: "wait_for_stage env minimum stage w = (True, w1)" "at_work job w1"
      using lone_wait [OF lone Cons.prems] unfolding wait_for_stage_def by blast
    obtain r w2 where put: "storing env (\<lambda>s. update_progress s job stage pct message) w1 = (r, w2)"
      by (cases "storing env (\<lambda>s. update_progress s job stage pct message) w1")
    have q: "quiet (run_store env)" using lone by (simp add: lone_def)
    note at = storing_at_work [OF lone wait(2) put wp_progresses [OF _ q]]
    show ?thesis
      using Cons.IH [OF publish_persisted_at_work [OF lone at(1), of EventProgress]] wait put at(2) UpdateProgress by simp
  next
    case (UpdateTelemetry event)
    obtain r w1 where put: "storing env (\<lambda>s. append_solver_event s job event) w = (r, w1)"
      by (cases "storing env (\<lambda>s. append_solver_event s job event) w")
    have "at_work job w1"
      by (rule storing_at_work(1) [OF lone Cons.prems put, of "\<lambda>_. True"]) (use wp_observes in simp)
    then show ?thesis using Cons.IH UpdateTelemetry put by simp
  next
    case (UpdateResult result)
    then show ?thesis using Cons.IH [OF Cons.prems] by simp
  qed
qed

text \<open>The completion a worker's outcome leads to.\<close>

definition lone_completion :: "run_env \<Rightarrow> job_completion" where
  "lone_completion env = (case worker_of env of
     Inr (Inr response, _, _) \<Rightarrow> \<lparr>completion_result =
       Inr (case last_snapshot (updates_of env) None of Some full \<Rightarrow> full | None \<Rightarrow> response), persisted_error = None\<rparr>
   | Inr (Inl e, gs, detail) \<Rightarrow>
       if e = ServiceCancelled then cancelled_completion
       else \<lparr>completion_result = Inl e, persisted_error = Some (stored_error_of (show_f64 env) e gs detail)\<rparr>
   | Inl detail \<Rightarrow> \<lparr>completion_result = Inl (SolverFailed (Failed detail)), persisted_error = Some (join_failure detail)\<rparr>)"

lemma lone_saves:
  assumes lone: "lone env" and at: "at_work job w"
  shows "fst (cancelled_run env job w) = Inr cancelled_completion"
    and "fst (failed_run env job e stored w) = Inr \<lparr>completion_result = Inl e, persisted_error = Some stored\<rparr>"
    and "fst (after_write env job kind c (storing env (\<lambda>s. save_result s job result) w)) = Inr c"
proof -
  have q: "quiet (run_store env)" and ok: "store_ok (wdisk w)" "running_on (wdisk w) job"
    using lone at by (simp_all add: lone_def at_work_def)
  obtain r1 w1 where 1: "storing env (\<lambda>s. cancel_job s job cancel_message) w = (r1, w1)"
    by (cases "storing env (\<lambda>s. cancel_job s job cancel_message) w")
  obtain r2 w2 where 2: "storing env (\<lambda>s. save_error s job stored) w = (r2, w2)"
    by (cases "storing env (\<lambda>s. save_error s job stored) w")
  obtain r3 w3 where 3: "storing env (\<lambda>s. save_result s job result) w = (r3, w3)"
    by (cases "storing env (\<lambda>s. save_result s job result) w")
  have "\<exists>s. r1 = Inr s"
    using lone_storing(3) [OF lone ok(1) 1, of "\<lambda>r _. \<exists>s. r = Inr s"] wp_completes(3) [OF ok(1) q ok(2)] by blast
  moreover have "r2 = Inr Applied"
    using lone_storing(3) [OF lone ok(1) 2, of "\<lambda>r _. r = Inr Applied"] wp_completes(2) [OF ok(1) q ok(2)] by blast
  moreover have "r3 = Inr Applied"
    using lone_storing(3) [OF lone ok(1) 3, of "\<lambda>r _. r = Inr Applied"] wp_completes(1) [OF ok(1) q ok(2)] by blast
  ultimately show "fst (cancelled_run env job w) = Inr cancelled_completion"
    "fst (failed_run env job e stored w) = Inr \<lparr>completion_result = Inl e, persisted_error = Some stored\<rparr>"
    "fst (after_write env job kind c (storing env (\<lambda>s. save_result s job result) w)) = Inr c"
    using 1 2 3 by (auto simp: cancelled_run_def persist_cancelled_def failed_run_def after_write_def)
qed

lemma lone_run_inner:
  assumes lone: "lone env" and ok: "store_ok (wdisk w)" and clear: "\<not> wtoken w"
    and there: "state_of (wdisk w) (req_job_id r) = Some s" "is_active (status s)"
  shows "fst (run_inner env r w) = Inr (lone_completion env)"
proof -
  let ?job = "req_job_id r" and ?minimum = "pacer_minimum (req_debug r)"
  have q: "quiet (run_store env)" using lone by (simp add: lone_def)
  have "\<exists>w1. (if limited env then token_set env w else (False, w)) = (False, w1) \<and> wdisk w1 = wdisk w \<and> \<not> wtoken w1"
    using lone clear by (simp add: token_set_def Let_def)
  then obtain w1 where 1: "(if limited env then token_set env w else (False, w)) = (False, w1)"
      "wdisk w1 = wdisk w" "\<not> wtoken w1"
    by blast
  define w2 where "w2 = w1\<lparr>wpauses := wpauses w1 + 1\<rparr>"
  have w2: "wdisk w2 = wdisk w" "\<not> wtoken w2" using 1 by (simp_all add: w2_def)
  have 2: "token_set env w1 = (False, w2)" using lone 1(3) by (simp add: token_set_def Let_def w2_def)
  obtain m w3 where 3: "storing env (\<lambda>s. mark_running s ?job) w2 = (m, w3)"
    by (cases "storing env (\<lambda>s. mark_running s ?job) w2")
  have "store_ok (wdisk w2)" using ok w2 by simp
  note marked = lone_storing [OF lone this 3, of "\<lambda>r d'. r = Inr () \<and> running_on d' ?job"]
  have marks: "wp (mark_running (run_store env) ?job) (\<lambda>r d'. keeps (wdisk w2) d' \<and> r = Inr () \<and> running_on d' ?job) (wdisk w2)"
    using wp_marks [OF ok q there] w2 by simp
  have at3: "at_work ?job w3" "m = Inr ()" using marked [OF marks] w2 by (auto simp: at_work_def)
  obtain w4 where 4: "consume_updates env ?job ?minimum (updates_of env) None w3 = (last_snapshot (updates_of env) None, w4)"
      "at_work ?job w4"
    using lone_consume [OF lone at3(1)] by blast
  obtain w5 where 5: "wait_until_minimum env ?minimum w4 = (True, w5)" "at_work ?job w5"
    using lone_wait [OF lone 4(2)] unfolding wait_until_minimum_def by blast
  let ?full = "last_snapshot (updates_of env) None"
  have cancelled: "fst (run_inner env r w) = fst (cancelled_run env ?job w4)"
    if "worker_of env = Inr (Inl ServiceCancelled, gs, detail)" for gs detail
    using that by (simp add: run_inner_def Let_def 1(1) 2 3 at3(2) 4(1))
  have persisted: "fst (run_inner env r w) = fst (persist_execution env ?job (worker_of env) ?full w5)"
    if "\<And>gs detail. worker_of env \<noteq> Inr (Inl ServiceCancelled, gs, detail)"
  proof -
    have "\<not> (case worker_of env of Inr (Inl ServiceCancelled, _, _) \<Rightarrow> True | _ \<Rightarrow> False)"
      using that by (auto split: sum.split service_error.split)
    then show ?thesis by (simp add: run_inner_def Let_def 1(1) 2 3 at3(2) 4(1) 5(1))
  qed
  show ?thesis
  proof (cases "worker_of env")
    case (Inl detail)
    then show ?thesis
      using persisted lone_saves(2) [OF lone 5(2)] by (simp add: persist_execution_def lone_completion_def)
  next
    case (Inr worked)
    obtain res gs detail where worked: "worked = (res, gs, detail)" by (cases worked)
    show ?thesis
    proof (cases res)
      case (Inl e)
      show ?thesis
      proof (cases "e = ServiceCancelled")
        case True
        then show ?thesis
          using cancelled Inr Inl worked lone_saves(1) [OF lone 4(2)] by (simp add: lone_completion_def)
      next
        case False
        then have "fst (run_inner env r w) = fst (failed_run env ?job e (stored_error_of (show_f64 env) e gs detail) w5)"
          using persisted Inr Inl worked by (cases e) (simp_all add: persist_execution_def)
        then show ?thesis
          using lone_saves(2) [OF lone 5(2)] False Inr Inl worked by (simp add: lone_completion_def)
      qed
    next
      case result: (Inr response)
      then show ?thesis
        using persisted Inr worked lone_saves(3) [OF lone 5(2)]
        by (simp add: persist_execution_def lone_completion_def Let_def)
    qed
  qed
qed

section \<open>Properties\<close>

text \<open>A job of the sample disk, alone, and one with a cancellation that comes in at the second pause.\<close>

definition lone_env :: "string + worker_result \<Rightarrow> run_env" where
  "lone_env worked = \<lparr>run_store = calm_env, others = (\<lambda>_ w. w), elapsed_now = (\<lambda>n. 10 * n), show_f64 = (\<lambda>_. ''0''),
     limited = True, updates_of = [UpdateProgress OptimizingRoute 70 (Some ''searching'')], worker_of = worked\<rparr>"

definition contested_env :: "string + worker_result \<Rightarrow> run_env" where
  "contested_env worked = (lone_env worked)\<lparr>others :=
     (\<lambda>n w. if n = 2 then snd (cancel_request (lone_env worked) ''a'' w) else w)\<rparr>"

definition sample_request :: optimize_request where
  "sample_request = (readme_request Latest)\<lparr>req_job_id := ''a''\<rparr>"

definition sample_world :: job_world where
  "sample_world = new_job_world (sample_disk Pending, 0)"

lemma sample_world_facts:
  "store_ok (wdisk sample_world)" "\<not> wtoken sample_world" "wsent sample_world = []"
  "state_of (wdisk sample_world) ''a'' = Some (sample_state Pending)" "clean (wdisk sample_world)"
  "req_job_id sample_request = ''a''"
  using sample_ok [of Pending]
  by (auto simp: sample_world_def new_job_world_def sample_disk_def sample_files_def sample_request_def state_of_def
      files_of_def no_files_def clean_def clean_files_def is_active_def sample_state_def)

lemma lone_env_lone: "lone (lone_env worked)"
  by (simp add: lone_def lone_env_def calm_env_facts)

lemma contested_rely: "rely (contested_env worked) ''a''"
proof -
  have "grows (lone_env worked) ''a'' w (snd (cancel_request (lone_env worked) ''a'' w))" if "store_ok (wdisk w)" for w
    by (rule cancel_request_grows [OF lone_rely [OF lone_env_lone] that])
  then show ?thesis
    using grows_env [of "contested_env worked" "lone_env worked"]
    by (simp add: rely_def contested_env_def grows_refl)
qed

text \<open>
  C27. A run that completes tells the truth: it reports a result only when the disk has the job
  completed with that result, an error with its stored form only when the disk has the job failed
  with it, and otherwise the cancellation of a job that is finished; whatever file actions fail
  and whatever store operations, publications and cancellations come in between.
\<close>

theorem run_completion_truthful:
  assumes "rely env (req_job_id r)" and "sound_world (req_job_id r) w" and "run env r w = (Inr c, w')"
  shows "case completion_result c of
      Inr response \<Rightarrow> persisted_error c = None \<and> (\<exists>fs s. job_at (wdisk w') (req_job_id r) fs s \<and>
        status s = Completed \<and> result_file fs = Some response)
    | Inl e \<Rightarrow> (case persisted_error c of
        Some stored \<Rightarrow> (\<exists>fs s. job_at (wdisk w') (req_job_id r) fs s \<and> status s = JobFailed \<and> error_file fs = Some stored)
      | None \<Rightarrow> e = ServiceCancelled \<and> (\<exists>fs s. job_at (wdisk w') (req_job_id r) fs s \<and> \<not> is_active (status s)))"
  using run_ends(2) [OF assms refl]
  by (auto simp: truthful_def finished_as_def job_at_def state_of_def files_of_def bind_eq_Some_conv
      split: sum.split option.split)

theorem run_completion_truthful_witness:
  "\<exists>fs s. job_at (wdisk (snd (run (lone_env (Inl ''panic'')) sample_request sample_world))) ''a'' fs s \<and>
    status s = JobFailed \<and> error_file fs = Some (join_failure ''panic'')"
proof -
  let ?env = "lone_env (Inl ''panic'')"
  let ?c = "\<lparr>completion_result = Inl (SolverFailed (Failed ''panic'')), persisted_error = Some (join_failure ''panic'')\<rparr>"
  have "lone_completion ?env = ?c" by (simp add: lone_completion_def lone_env_def)
  then have inner: "fst (run_inner ?env sample_request sample_world) = Inr ?c"
    using lone_run_inner [OF lone_env_lone sample_world_facts(1,2), of sample_request "sample_state Pending" "Inl ''panic''"]
      sample_world_facts(4,6) by (simp add: sample_state_def is_active_def)
  obtain w' where finished: "run ?env sample_request sample_world = (Inr ?c, w')"
    using inner by (cases "run_inner ?env sample_request sample_world") (simp add: run_def)
  show ?thesis
    using finished run_completion_truthful [OF _ _ finished, unfolded sample_world_facts(6)] lone_rely [OF lone_env_lone]
      sample_world_facts(1,2) by (simp add: sound_world_def)
qed

text \<open>
  C28. On a disk where the payloads of every job go with its status, while no file action fails,
  and beside others who change the store only as its operations do, set the token only of a job
  that the disk shows as cancelled, and send only valid events themselves, every event that is
  sent during a run satisfies the contract of its kind, so that the assertion of the event stream
  does not fire. A cancellation through the handler is such an other, by cancel_request_grows.
\<close>

theorem sent_events_valid:
  assumes "rely env (req_job_id r)" and "sound_world (req_job_id r) w"
    and "quiet (run_store env)" and "clean (wdisk w)" and "wsent w = []" and "run env r w = (res, w')"
  shows "\<forall>e\<in>set (wsent w'). is_valid_for_event (event_envelope e) (event_kind_str (event_kind e))"
  using run_ends(1) [OF assms(1,2,6)] assms(3-5) by (auto simp: grows_def orderly_def valid_event_def)

theorem sent_events_valid_witness:
  "list_all (\<lambda>e. is_valid_for_event (event_envelope e) (event_kind_str (event_kind e)))
    (wsent (snd (run (contested_env (Inl ''panic'')) sample_request sample_world)))"
proof -
  let ?env = "contested_env (Inl ''panic'')"
  have "sound_world ''a'' sample_world" using sample_world_facts by (simp add: sound_world_def)
  moreover have "quiet (run_store ?env)" by (simp add: contested_env_def lone_env_def calm_env_facts)
  ultimately show ?thesis
    using sent_events_valid [of ?env sample_request sample_world, unfolded sample_world_facts(6), OF contested_rely
        _ _ sample_world_facts(5,3)]
    by (cases "run ?env sample_request sample_world") (simp add: list_all_iff)
qed

text \<open>
  C29. A run of a job that waits to be run, alone and with no file action failing, completes with
  the worker's outcome: the last result snapshot or else the returned response, the stored form of
  the error, or the cancellation.
\<close>

theorem lone_run_completes:
  assumes "lone env" and "store_ok (wdisk w)" and "\<not> wtoken w"
    and "state_of (wdisk w) (req_job_id r) = Some s" and "is_active (status s)"
  shows "\<exists>w'. run env r w = (Inr (lone_completion env), w')"
  using lone_run_inner [OF assms] by (auto simp: run_def split: prod.splits)

theorem lone_run_completes_witness:
  "\<forall>response. \<exists>w'. run (lone_env (Inr (Inr response, [], None))) sample_request sample_world =
    (Inr \<lparr>completion_result = Inr response, persisted_error = None\<rparr>, w')"
proof
  fix response
  let ?env = "lone_env (Inr (Inr response, [], None))"
  have "lone_completion ?env = \<lparr>completion_result = Inr response, persisted_error = None\<rparr>"
    by (simp add: lone_completion_def lone_env_def)
  then show "\<exists>w'. run ?env sample_request sample_world = (Inr \<lparr>completion_result = Inr response, persisted_error = None\<rparr>, w')"
    using lone_run_completes [OF lone_env_lone sample_world_facts(1,2), of sample_request "sample_state Pending"
        "Inr (Inr response, [], None)"] sample_world_facts(4,6)
    by (simp add: sample_state_def is_active_def)
qed

section \<open>A completion that is interrupted\<close>

text \<open>The file system of the sample disk, with one write that fails: that of the completed state.\<close>

definition torn_env :: store_env where
  "torn_env = calm_env\<lparr>fault := (\<lambda>k. if k = 5 then Some IoFault else None)\<rparr>"

lemma torn_save:
  "\<exists>e k. save_result torn_env ''a'' result (sample_disk Running, 0) =
    (Inl e, put_payload ''a'' (result_file_update (\<lambda>_. Some result)) (sample_disk Running), k)"
  by (simp add: save_result_def prepare_terminal_write_def dir_present_def fs_exists_def next_do_def torn_env_def calm_env_def
      read_state_def read_json_def fs_action_def files_of_def sample_disk_def sample_files_def sample_state_def give_def
      atomic_write_file_def commit_terminal_state_def now_ms_def write_state_def terminal_state_def put_payload_def
      dir_of_def set_dir_def Let_def no_files_def)

text \<open>
  When the process dies, or a write fails, between a result and the completed state, the recovery
  after the restart fails the job and leaves it with both a result and an error, which no event may
  show: the assertion of the event stream fires for its snapshot.
\<close>

lemma interrupted_completion_unshowable:
  "\<exists>env e d k job. save_result env ''a'' result (sample_disk Running, 0) = (Inl e, d, k) \<and>
    fst (get_job calm_env ''a'' (snd (recover_interrupted calm_env (d, k)))) = Inr (Some job) \<and>
    status (stored_state job) = JobFailed \<and> stored_result job = Some result \<and> stored_error job = Some interrupted_error \<and>
    (\<forall>n. \<not> is_valid_for_event (from_stored_job n job) ''snapshot'')"
proof -
  let ?update = "result_file_update (\<lambda>_. Some result) :: job_files \<Rightarrow> job_files"
  let ?d = "put_payload ''a'' ?update (sample_disk Running)" and ?fs = "?update (sample_files Running)"
  obtain e k where torn: "save_result torn_env ''a'' result (sample_disk Running, 0) = (Inl e, ?d, k)"
    using torn_save by blast
  have active: "is_active (status (sample_state Running))" by (simp add: sample_state_def is_active_def)
  note paid = keeps_payload [OF sample_ok [of Running] sample_at active, of ?update]
  have ok: "store_ok ?d" and at: "job_at ?d ''a'' ?fs (sample_state Running)"
    using paid by (simp_all add: keeps_def)
  obtain c d' k' where rec: "recover_interrupted calm_env (?d, k) = (c, d', k')"
    by (cases "recover_interrupted calm_env (?d, k)")
  have "\<exists>t. job_dirs d' (encode_job_id ''a'') = map_option (recovered_files t) (job_dirs ?d (encode_job_id ''a''))"
    using wpD [OF wp_recover [OF ok calm_env_facts(2)] rec] calm_env_facts(1) by blast
  then obtain t where dir: "job_dirs d' (encode_job_id ''a'') = Some (recovered_files t ?fs)"
    using at by (auto simp: job_at_def)
  let ?fs' = "recovered_files t ?fs" and ?s' = "recovered_state (sample_state Running) t"
  have fs': "state_file ?fs' = Some ?s'" "error_file ?fs' = Some interrupted_error" "result_file ?fs' = Some result"
      "request_file ?fs' = request_file (sample_files Running)"
    using at active by (simp_all add: recovered_files_def job_at_def)
  then have at': "job_at d' ''a'' ?fs' ?s'" using dir by (simp add: job_at_def)
  have req: "request_file ?fs' = Some ((readme_request Latest)\<lparr>req_job_id := ''a''\<rparr>)"
    using fs'(4) by (simp add: sample_files_def)
  let ?job = "\<lparr>stored_request = (readme_request Latest)\<lparr>req_job_id := ''a''\<rparr>, stored_state = ?s',
    stored_result = Some result, stored_error = Some interrupted_error\<rparr>"
  obtain r d2 k2 where read: "get_job calm_env ''a'' (d', k') = (r, d2, k2)" by (cases "get_job calm_env ''a'' (d', k')")
  have "r = Inr (Some ?job)" using wpD [OF wp_get_job [OF at' req] read] calm_env_facts(1) fs' by simp
  moreover have "\<not> is_valid_for_event (from_stored_job n ?job) ''snapshot''" for n
    by (simp add: is_valid_for_event_def from_stored_job_def recovered_state_def Let_def)
  ultimately show ?thesis
    using torn rec read by (intro exI [of _ torn_env] exI [of _ e] exI [of _ ?d] exI [of _ k] exI [of _ ?job])
      (simp add: recovered_state_def)
qed

end
