(* ===== verification/Matrix_Builder.thy ===== *)
theory Matrix_Builder
  imports Routing
begin

text \<open>
  \<open>src/routing/matrix_builder.rs\<close>: the matrix of a provider that answers pairs, built by worker
  threads beside a watchdog. Each access of a thread to the shared state, the clock or the token is
  one step, and the steps of the threads interleave in any order.
\<close>

section \<open>The state\<close>

record pair_failure =
  failure_from :: string
  failure_to :: string
  failure_cause :: routing_error

text \<open>
  Where a worker is: about to read the token, to take a pair, to read token and clock for it, to ask
  the provider, to look at the clock after an answer, to store it, to count it; about to raise the
  time-out flag for a failure, to record it, to cancel the others; or gone.
\<close>

datatype worker =
    AtLoop
  | Taking
  | Checking usize
  | Timing usize
  | Abandoning usize
  | Querying usize
  | Answered usize "routing_error + u32"
  | Storing usize "u32 option"
  | Counting
  | Raising pair_failure bool
  | Recording pair_failure
  | Cancelling
  | Stopped

datatype watchdog = WatchToken | WatchClock | WatchCancel | WatchWait | WatchOff

record build_state =
  next_pair :: usize
  completed_pairs :: usize
  matrix_timed_out :: bool
  caller_cancelled :: bool
  cancellation :: bool
  results :: "u32 option option list"
  first_error :: "pair_failure option"
  crew :: "worker list"
  dog :: watchdog
  all_done :: bool
  caller_token :: bool
  deadline_past :: bool
  observed :: "(usize \<times> usize) list"

text \<open>The locations, the workers allowed, and what the provider may answer for a pair.\<close>

record build_config =
  build_locations :: "location list"
  max_concurrency :: usize
  answers :: "usize \<Rightarrow> usize \<Rightarrow> routing_error + u32 \<Rightarrow> bool"

definition directed_pairs :: "usize \<Rightarrow> (usize \<times> usize) list" where
  "directed_pairs n = concat (map (\<lambda>from. map (\<lambda>to. (from, to)) (filter (\<lambda>to. from \<noteq> to) [0..<n])) [0..<n])"

definition build_pairs :: "build_config \<Rightarrow> (usize \<times> usize) list" where
  "build_pairs c = directed_pairs (length (build_locations c))"

definition failure_of :: "build_config \<Rightarrow> usize \<Rightarrow> routing_error \<Rightarrow> pair_failure" where
  "failure_of c index cause = (let (from, to) = build_pairs c ! index in
     \<lparr>failure_from = location_id (build_locations c ! from), failure_to = location_id (build_locations c ! to),
      failure_cause = cause\<rparr>)"

definition start_build :: "build_config \<Rightarrow> bool \<Rightarrow> build_state" where
  "start_build c token = (let n = length (build_pairs c) in
     \<lparr>next_pair = 0, completed_pairs = 0, matrix_timed_out = False, caller_cancelled = False, cancellation = False,
      results = replicate n None, first_error = None, crew = replicate (min (max_concurrency c) n) AtLoop,
      dog = WatchToken, all_done = False, caller_token = token, deadline_past = False, observed = []\<rparr>)"

section \<open>Steps\<close>

definition before_start :: string where
  "before_start = ''matrix deadline reached before pair query started''"

definition after_deadline :: string where
  "after_deadline = ''pair completed after matrix deadline''"

definition is_unreachable :: "routing_error \<Rightarrow> bool" where
  "is_unreachable e \<longleftrightarrow> (case e of Unreachable _ _ _ \<Rightarrow> True | _ \<Rightarrow> False)"

text \<open>One step of a worker; the provider's answer is used when it is asked.\<close>

fun advance :: "build_config \<Rightarrow> routing_error + u32 \<Rightarrow> worker \<Rightarrow> build_state \<Rightarrow> worker \<times> build_state" where
  "advance c a AtLoop s = (if cancellation s then Stopped else Taking, s)"
| "advance c a Taking s =
     (if next_pair s < length (build_pairs c) then Checking (next_pair s) else Stopped,
      s\<lparr>next_pair := next_pair s + 1\<rparr>)"
| "advance c a (Checking i) s = (if cancellation s then Abandoning i else Timing i, s)"
| "advance c a (Timing i) s = (if deadline_past s then Abandoning i else Querying i, s)"
| "advance c a (Abandoning i) s =
     (if deadline_past s then Raising (failure_of c i (ProviderFailed before_start)) True else Stopped, s)"
| "advance c a (Querying i) s = (Answered i a, s)"
| "advance c a (Answered i r) s =
     (case r of
        Inr m \<Rightarrow> if deadline_past s then Raising (failure_of c i (ProviderFailed after_deadline)) True
                 else Storing i (Some m)
      | Inl e \<Rightarrow> if is_unreachable e then Storing i None else Raising (failure_of c i e) (deadline_past s), s)"
| "advance c a (Storing i v) s = (Counting, s\<lparr>results := (results s)[i := Some v]\<rparr>)"
| "advance c a Counting s =
     (AtLoop, s\<lparr>completed_pairs := completed_pairs s + 1,
        observed := observed s @ [(completed_pairs s + 1, length (build_pairs c))]\<rparr>)"
| "advance c a (Raising f timed) s = (Recording f, if timed then s\<lparr>matrix_timed_out := True\<rparr> else s)"
| "advance c a (Recording f) s =
     (if first_error s = None then (Cancelling, s\<lparr>first_error := Some f\<rparr>) else (Stopped, s))"
| "advance c a Cancelling s = (Stopped, s\<lparr>cancellation := True\<rparr>)"
| "advance c a Stopped s = (Stopped, s)"

definition watch :: "build_state \<Rightarrow> build_state" where
  "watch s = (case dog s of
     WatchToken \<Rightarrow> if caller_token s then s\<lparr>caller_cancelled := True, dog := WatchCancel\<rparr> else s\<lparr>dog := WatchClock\<rparr>
   | WatchClock \<Rightarrow> if deadline_past s then s\<lparr>matrix_timed_out := True, dog := WatchCancel\<rparr> else s\<lparr>dog := WatchWait\<rparr>
   | WatchCancel \<Rightarrow> s\<lparr>cancellation := True, dog := WatchOff\<rparr>
   | WatchWait \<Rightarrow> if all_done s then s\<lparr>dog := WatchOff\<rparr> else s\<lparr>dog := WatchToken\<rparr>
   | WatchOff \<Rightarrow> s)"

definition crew_gone :: "build_state \<Rightarrow> bool" where
  "crew_gone s \<longleftrightarrow> (\<forall>w\<in>set (crew s). w = Stopped)"

definition answer_allowed :: "build_config \<Rightarrow> worker \<Rightarrow> routing_error + u32 \<Rightarrow> bool" where
  "answer_allowed c w a \<longleftrightarrow> (case w of
     Querying i \<Rightarrow> (let (from, to) = build_pairs c ! i in answers c from to a) | _ \<Rightarrow> True)"

inductive build_step :: "build_config \<Rightarrow> build_state \<Rightarrow> build_state \<Rightarrow> bool" for c where
  working: "k < length (crew s) \<Longrightarrow> crew s ! k \<noteq> Stopped \<Longrightarrow> answer_allowed c (crew s ! k) a \<Longrightarrow>
    advance c a (crew s ! k) s = (w, s') \<Longrightarrow> build_step c s (s'\<lparr>crew := (crew s)[k := w]\<rparr>)"
| watching: "dog s \<noteq> WatchOff \<Longrightarrow> build_step c s (watch s)"
| joining: "crew_gone s \<Longrightarrow> build_step c s (s\<lparr>all_done := True\<rparr>)"
| caller_cancels: "build_step c s (s\<lparr>caller_token := True\<rparr>)"
| deadline_passes: "build_step c s (s\<lparr>deadline_past := True\<rparr>)"

section \<open>The result\<close>

definition missing_index :: "build_state \<Rightarrow> usize option" where
  "missing_index s = List.find (\<lambda>i. results s ! i = None) [0..<length (results s)]"

text \<open>\<open>None\<close> is the panic of \<open>an incomplete matrix must have a missing pair\<close>.\<close>

definition final_failure :: "build_config \<Rightarrow> build_state \<Rightarrow> pair_failure option option" where
  "final_failure c s =
     (if first_error s = None \<and> matrix_timed_out s \<and> completed_pairs s < length (build_pairs c)
      then map_option (\<lambda>i. Some (failure_of c i (ProviderFailed ''matrix deadline reached''))) (missing_index s)
      else Some (first_error s))"

definition put_cell :: "(usize \<times> usize) \<times> u32 option \<Rightarrow> u32 option list list \<Rightarrow> u32 option list list" where
  "put_cell = (\<lambda>((from, to), v) rows. rows[from := (rows ! from)[to := v]])"

definition empty_rows :: "usize \<Rightarrow> u32 option list list" where
  "empty_rows n = map (\<lambda>i. (replicate n None)[i := Some 0]) [0..<n]"

text \<open>The outer \<open>None\<close> is the panic of a pair that did not complete.\<close>

definition filled_rows :: "build_config \<Rightarrow> build_state \<Rightarrow> u32 option list list option" where
  "filled_rows c s = map_option (\<lambda>vs. fold put_cell (zip (build_pairs c) vs) (empty_rows (length (build_locations c))))
     (those (results s))"

definition finish_build :: "build_config \<Rightarrow> u64 \<Rightarrow> build_state \<Rightarrow> (routing_error + travel_time_matrix) option" where
  "finish_build c elapsed s =
     (if caller_cancelled s \<or> caller_token s then Some (Inl RoutingCancelled)
      else case final_failure c s of
        None \<Rightarrow> None
      | Some (Some f) \<Rightarrow> Some (Inl (MatrixBuild (matrix_timed_out s) elapsed (completed_pairs s)
          (length (build_pairs c)) (failure_from f) (failure_to f) (failure_cause f)))
      | Some None \<Rightarrow> map_option (\<lambda>rows. case new_sparse rows of Inl e \<Rightarrow> Inl (InvalidMatrix e) | Inr m \<Rightarrow> Inr m)
          (filled_rows c s))"

text \<open>
  The build: its possible results, when the caller's token is set or not at the start. Without
  pairs no thread is started; the end of the time allowed may not be representable. The provider
  is one that returns.
\<close>

inductive builds :: "build_config \<Rightarrow> bool \<Rightarrow> u64 \<Rightarrow> (routing_error + travel_time_matrix) option \<Rightarrow> bool" for c where
  turned_away: "builds c True elapsed (Some (Inl RoutingCancelled))"
| trivial: "build_pairs c = [] \<Longrightarrow> builds c False elapsed (Some
    (case new_matrix (replicate (length (build_locations c)) (replicate (length (build_locations c)) 0)) of
       Inl e \<Rightarrow> Inl (InvalidMatrix e) | Inr m \<Rightarrow> Inr m))"
| no_deadline: "build_pairs c \<noteq> [] \<Longrightarrow>
    builds c False elapsed (Some (Inl (ProviderFailed ''matrix total timeout exceeds the supported range'')))"
| finished: "build_pairs c \<noteq> [] \<Longrightarrow> (build_step c)\<^sup>*\<^sup>* (start_build c False) s \<Longrightarrow> all_done s \<Longrightarrow> dog s = WatchOff \<Longrightarrow>
    builds c False elapsed (finish_build c elapsed s)"

end
