(* ===== verification/Matrix_Builds.thy ===== *)
theory Matrix_Builds
  imports Matrix_Builder
begin

text \<open>
  Whatever the interleaving of workers, watchdog, caller and clock: the build never panics, what it
  returns is what the provider answered, its progress counts up, and the workers come to an end.
\<close>

section \<open>The invariant\<close>

fun in_flight :: "worker \<Rightarrow> usize option" where
  "in_flight (Checking i) = Some i"
| "in_flight (Timing i) = Some i"
| "in_flight (Abandoning i) = Some i"
| "in_flight (Querying i) = Some i"
| "in_flight (Answered i r) = Some i"
| "in_flight (Storing i v) = Some i"
| "in_flight w = None"

fun failing_worker :: "worker \<Rightarrow> bool" where
  "failing_worker (Raising f timed) = True"
| "failing_worker (Recording f) = True"
| "failing_worker w = False"

text \<open>Why a build may stop before its time.\<close>

definition reason :: "build_state \<Rightarrow> bool" where
  "reason s \<longleftrightarrow> first_error s \<noteq> None \<or> matrix_timed_out s \<or> caller_cancelled s"

definition pair_answers :: "build_config \<Rightarrow> usize \<Rightarrow> routing_error + u32 \<Rightarrow> bool" where
  "pair_answers c i r = (let (from, to) = build_pairs c ! i in answers c from to r)"

text \<open>A cell the provider accounts for.\<close>

definition legit :: "build_config \<Rightarrow> usize \<Rightarrow> u32 option \<Rightarrow> bool" where
  "legit c i v \<longleftrightarrow> (case v of Some m \<Rightarrow> pair_answers c i (Inr m) | None \<Rightarrow> \<exists>e. is_unreachable e \<and> pair_answers c i (Inl e))"

definition worker_ok :: "build_config \<Rightarrow> build_state \<Rightarrow> worker \<Rightarrow> bool" where
  "worker_ok c s w \<longleftrightarrow>
     (\<forall>i. in_flight w = Some i \<longrightarrow> i < length (build_pairs c) \<and> i < next_pair s \<and> results s ! i = None) \<and>
     (case w of Answered i r \<Rightarrow> pair_answers c i r
      | Storing i v \<Rightarrow> legit c i v
      | Cancelling \<Rightarrow> first_error s \<noteq> None
      | Abandoning i \<Rightarrow> deadline_past s \<or> reason s
      | Stopped \<Rightarrow> reason s \<or> length (build_pairs c) \<le> next_pair s
      | _ \<Rightarrow> True)"

definition cells_ok :: "build_config \<Rightarrow> build_state \<Rightarrow> bool" where
  "cells_ok c s \<longleftrightarrow> length (results s) = length (build_pairs c) \<and>
     (\<forall>i<length (build_pairs c). \<forall>v. results s ! i = Some v \<longrightarrow> legit c i v \<and> i < next_pair s)"

definition accounted :: "build_config \<Rightarrow> build_state \<Rightarrow> bool" where
  "accounted c s \<longleftrightarrow> (\<forall>i<length (build_pairs c). i < next_pair s \<longrightarrow>
     results s ! i \<noteq> None \<or> reason s \<or> (\<exists>w\<in>set (crew s). in_flight w = Some i \<or> failing_worker w))"

definition apart :: "worker list \<Rightarrow> bool" where
  "apart ws \<longleftrightarrow> (\<forall>j<length ws. \<forall>k<length ws. \<forall>i. in_flight (ws ! j) = Some i \<longrightarrow> in_flight (ws ! k) = Some i \<longrightarrow> j = k)"

definition counted :: "build_config \<Rightarrow> build_state \<Rightarrow> bool" where
  "counted c s \<longleftrightarrow>
     completed_pairs s + length (filter (\<lambda>w. w = Counting) (crew s)) = length (filter (\<lambda>r. r \<noteq> None) (results s)) \<and>
     observed s = map (\<lambda>k. (k, length (build_pairs c))) [1..<completed_pairs s + 1]"

definition controlled :: "build_state \<Rightarrow> bool" where
  "controlled s \<longleftrightarrow> (cancellation s \<longrightarrow> reason s) \<and> (dog s = WatchCancel \<longrightarrow> reason s) \<and>
     (caller_cancelled s \<longrightarrow> caller_token s) \<and> (all_done s \<longrightarrow> crew_gone s) \<and> crew s \<noteq> []"

definition build_ok :: "build_config \<Rightarrow> build_state \<Rightarrow> bool" where
  "build_ok c s \<longleftrightarrow> cells_ok c s \<and> (\<forall>w\<in>set (crew s). worker_ok c s w) \<and> accounted c s \<and> apart (crew s) \<and>
     counted c s \<and> controlled s"

section \<open>One step of a worker\<close>

lemma filter_update:
  "k < length xs \<Longrightarrow> length (filter P (xs[k := x])) + (if P (xs ! k) then 1 else 0) =
    length (filter P xs) + (if P x then 1 else (0 :: nat))"
proof (induction xs arbitrary: k)
  case (Cons y ys)
  show ?case
  proof (cases k)
    case (Suc j)
    then show ?thesis using Cons.IH [of j] Cons.prems by (cases "P y") (simp_all split: if_splits)
  qed simp
qed simp

text \<open>What a step changes of what the others see.\<close>

lemma advance_frame:
  assumes "advance c a w s = (w', s')"
  shows "crew s' = crew s \<and> dog s' = dog s \<and> all_done s' = all_done s \<and> caller_token s' = caller_token s \<and>
    caller_cancelled s' = caller_cancelled s \<and> deadline_past s' = deadline_past s"
  using assms by (cases w) (auto split: if_splits)

lemma advance_reason:
  assumes "advance c a w s = (w', s')" and "reason s"
  shows "reason s'"
  using assms by (cases w) (auto simp: reason_def split: if_splits)

lemma advance_error:
  assumes "advance c a w s = (w', s')" and "first_error s \<noteq> None"
  shows "first_error s' \<noteq> None"
  using assms by (cases w) (auto split: if_splits)

lemma advance_token:
  assumes "advance c a w s = (w', s')" and "cancellation s'"
  shows "cancellation s \<or> w = Cancelling"
  using assms by (cases w) (auto split: if_splits)

lemma advance_failing:
  assumes "advance c a w s = (w', s')" and "failing_worker w"
  shows "failing_worker w' \<or> reason s'"
  using assms by (cases w) (auto simp: reason_def split: if_splits)

lemma advance_results:
  assumes "advance c a w s = (w', s')"
  shows "results s' = results s \<and> (\<forall>i v. w \<noteq> Storing i v) \<or>
    (\<exists>i v. w = Storing i v \<and> w' = Counting \<and> s' = s\<lparr>results := (results s)[i := Some v]\<rparr>)"
  using assms by (cases w) (auto split: if_splits)

lemma advance_taking:
  assumes "advance c a w s = (w', s')"
  shows "next_pair s' = next_pair s \<or> w = Taking \<and> s' = s\<lparr>next_pair := Suc (next_pair s)\<rparr> \<and>
    w' = (if next_pair s < length (build_pairs c) then Checking (next_pair s) else Stopped)"
  using assms by (cases w) (auto split: if_splits)

lemma advance_flight:
  assumes "advance c a w s = (w', s')" and "worker_ok c s w"
  shows "in_flight w' = in_flight w \<or> in_flight w' = None \<and> (in_flight w = None \<or> failing_worker w' \<or> reason s \<or> (\<exists>i v. w = Storing i v)) \<or>
    w = Taking \<and> w' = Checking (next_pair s)"
  using assms by (cases w) (auto simp: worker_ok_def split: if_splits sum.splits)

lemma advance_counting:
  assumes "advance c a w s = (w', s')"
  shows "w = Counting \<and> w' = AtLoop \<and> s' = s\<lparr>completed_pairs := completed_pairs s + 1,
      observed := observed s @ [(completed_pairs s + 1, length (build_pairs c))]\<rparr> \<or>
    w \<noteq> Counting \<and> completed_pairs s' = completed_pairs s \<and> observed s' = observed s \<and>
      (w' = Counting \<longleftrightarrow> (\<exists>i v. w = Storing i v))"
  using assms by (cases w) (auto split: if_splits sum.splits)

lemma advance_ok:
  assumes "advance c a w s = (w', s')" and "worker_ok c s w" and "cancellation s \<longrightarrow> reason s" and "cells_ok c s"
    and "answer_allowed c w a"
  shows "worker_ok c s' w'"
proof (cases w)
  case (Answered i r)
  then show ?thesis using assms(1,2) by (cases r) (auto simp: worker_ok_def legit_def split: if_splits)
next
  case (Abandoning i)
  then show ?thesis using assms(1,2) by (auto simp: worker_ok_def reason_def split: if_splits)
next
  case Taking
  then show ?thesis using assms(1,4) by (auto simp: worker_ok_def cells_ok_def split: if_splits)
next
  case (Querying i)
  then show ?thesis using assms(1,2,5) by (auto simp: worker_ok_def answer_allowed_def pair_answers_def)
qed (use assms in \<open>auto simp: worker_ok_def reason_def split: if_splits\<close>)

section \<open>Every step keeps it\<close>

lemma worker_ok_other:
  assumes "worker_ok c s w" and "next_pair s \<le> next_pair s'" and "deadline_past s \<longrightarrow> deadline_past s'"
    and "first_error s \<noteq> None \<longrightarrow> first_error s' \<noteq> None" and "reason s \<longrightarrow> reason s'"
    and "\<And>i. in_flight w = Some i \<Longrightarrow> results s' ! i = results s ! i"
  shows "worker_ok c s' w"
  using assms by (cases w) (auto simp: worker_ok_def)

text \<open>A worker's step from a state in which the invariant holds.\<close>

definition works :: "build_config \<Rightarrow> build_state \<Rightarrow> nat \<Rightarrow> worker \<Rightarrow> worker \<Rightarrow> build_state \<Rightarrow> bool" where
  "works c s k w w' s' \<longleftrightarrow> build_ok c s \<and> k < length (crew s) \<and> w = crew s ! k \<and> w \<noteq> Stopped \<and>
     (\<exists>a. answer_allowed c w a \<and> advance c a w s = (w', s'))"

lemma worksD:
  assumes "works c s k w w' s'"
  shows "worker_ok c s w" "cells_ok c s" "accounted c s" "apart (crew s)" "counted c s" "controlled s"
    "k < length (crew s)" "w = crew s ! k" "w \<noteq> Stopped"
    "\<exists>a. answer_allowed c w a \<and> advance c a w s = (w', s')" "\<forall>u\<in>set (crew s). worker_ok c s u"
  using assms by (auto simp: works_def build_ok_def)

lemma works_grow: "works c s k w w' s' \<Longrightarrow> next_pair s \<le> next_pair s'"
  using worksD(10) advance_taking by fastforce

lemma works_cells:
  assumes W: "works c s k w w' s'"
  shows "cells_ok c s'"
proof -
  note d = worksD [OF W]
  obtain a where step: "advance c a w s = (w', s')" using d(10) by blast
  have *: "legit c i v \<and> i < next_pair s'" if "i < length (build_pairs c)" "results s ! i = Some v" for i v
    using d(2) that works_grow [OF W] by (auto simp: cells_ok_def intro: less_le_trans)
  show ?thesis
    using advance_results [OF step]
  proof (elim disjE exE conjE)
    assume "results s' = results s"
    then show ?thesis using * d(2) by (simp add: cells_ok_def)
  next
    fix i v
    assume u: "w = Storing i v" "s' = s\<lparr>results := (results s)[i := Some v]\<rparr>"
    then have new: "legit c i v \<and> i < next_pair s'" using d(1) by (auto simp: worker_ok_def)
    have "legit c j x \<and> j < next_pair s'" if "j < length (build_pairs c)" "results s' ! j = Some x" for j x
      using that * [of j x] new u(2) d(2) by (cases "j = i") (auto simp: cells_ok_def)
    then show ?thesis using d(2) u(2) by (simp add: cells_ok_def)
  qed
qed

lemma works_apart:
  "works c s k w w' s' \<Longrightarrow> j < length (crew s) \<Longrightarrow> j \<noteq> k \<Longrightarrow> in_flight (crew s ! j) = Some i \<Longrightarrow> in_flight w \<noteq> Some i"
  using worksD(4,7,8) by (auto simp: apart_def)

lemma works_others:
  assumes W: "works c s k w w' s'" and j: "j < length (crew s)" "j \<noteq> k"
  shows "worker_ok c s' (crew s ! j)"
proof -
  obtain a where step: "advance c a w s = (w', s')" using worksD(10) [OF W] by blast
  show ?thesis
  proof (rule worker_ok_other [where s = s])
    show "worker_ok c s (crew s ! j)" using worksD(11) [OF W] j(1) by simp
  next
    fix i
    assume "in_flight (crew s ! j) = Some i"
    from works_apart [OF W j this] show "results s' ! i = results s ! i"
      using advance_results [OF step] by auto
  qed (use works_grow [OF W] advance_frame [OF step] advance_error [OF step] advance_reason [OF step] in auto)
qed

lemma works_crew:
  assumes W: "works c s k w w' s'"
  shows "\<forall>u\<in>set ((crew s)[k := w']). worker_ok c s' u"
proof
  note d = worksD [OF W]
  obtain a where a: "answer_allowed c w a" "advance c a w s = (w', s')" using d(10) by blast
  fix u
  assume "u \<in> set ((crew s)[k := w'])"
  then obtain j where j: "j < length (crew s)" "u = (crew s)[k := w'] ! j" by (auto simp: in_set_conv_nth)
  have "worker_ok c s' w'"
    by (rule advance_ok [OF a(2) d(1) _ d(2) a(1)]) (use d(6) in \<open>simp add: controlled_def\<close>)
  then show "worker_ok c s' u" using j works_others [OF W, of j] d(7) by (cases "j = k") auto
qed

lemma works_still_apart:
  assumes W: "works c s k w w' s'"
  shows "apart ((crew s)[k := w'])"
proof -
  note d = worksD [OF W]
  obtain a where step: "advance c a w s = (w', s')" using d(10) by blast
  have "in_flight (crew s ! j) \<noteq> Some i" if "in_flight w' = Some i" "j < length (crew s)" "j \<noteq> k" for i j
  proof
    assume j: "in_flight (crew s ! j) = Some i"
    then have "i < next_pair s" using d(11) that(2) by (auto simp: worker_ok_def)
    moreover have "in_flight w' = in_flight w \<or> i = next_pair s"
      using advance_flight [OF step d(1)] that(1) by auto
    ultimately show False using works_apart [OF W that(2,3) j] that(1) by auto
  qed
  then show ?thesis using d(4,7) by (auto simp: apart_def nth_list_update)
qed

lemma works_accounted:
  assumes W: "works c s k w w' s'"
  shows "accounted c (s'\<lparr>crew := (crew s)[k := w']\<rparr>)"
  unfolding accounted_def
proof (intro allI impI)
  note d = worksD [OF W]
  obtain a where step: "advance c a w s = (w', s')" using d(10) by blast
  fix i
  assume i: "i < length (build_pairs c)" "i < next_pair (s'\<lparr>crew := (crew s)[k := w']\<rparr>)"
  let ?goal = "results s' ! i \<noteq> None \<or> reason s' \<or> (\<exists>u\<in>set ((crew s)[k := w']). in_flight u = Some i \<or> failing_worker u)"
  have mem: "w' \<in> set ((crew s)[k := w'])" "j < length (crew s) \<Longrightarrow> j \<noteq> k \<Longrightarrow> crew s ! j \<in> set ((crew s)[k := w'])" for j
    using d(7) by (auto simp: set_update_memI) (metis length_list_update nth_list_update_neq nth_mem)
  have fresh: ?goal if "\<not> i < next_pair s"
  proof -
    have "in_flight w' = Some i" using advance_taking [OF step] that i by (auto split: if_splits)
    then show ?thesis using mem(1) by blast
  qed
  have kept: ?goal if "results s ! i \<noteq> None"
  proof -
    have "i < length (results s)" using d(2) i(1) by (simp add: cells_ok_def)
    then have "(results s)[j := Some v] ! i \<noteq> None" for j v using that by (cases "j = i") simp_all
    then have "results s' ! i \<noteq> None" using that advance_results [OF step] by auto
    then show ?thesis by blast
  qed
  have other: ?goal if "j < length (crew s)" "in_flight (crew s ! j) = Some i \<or> failing_worker (crew s ! j)" for j
  proof (cases "j = k")
    case False
    then show ?thesis using that mem(2) by blast
  next
    case True
    have stored: "results s' ! u \<noteq> None" if "w = Storing u v" for u v
      using that step d(1,2) by (auto simp: cells_ok_def worker_ok_def)
    have "in_flight w' = Some i \<or> failing_worker w' \<or> reason s' \<or> results s' ! i \<noteq> None"
      using that(2) True d(8) advance_flight [OF step d(1)] advance_failing [OF step] advance_reason [OF step] stored by auto
    then show ?thesis using mem(1) by blast
  qed
  have "results s ! i \<noteq> None \<or> reason s \<or> (\<exists>u\<in>set (crew s). in_flight u = Some i \<or> failing_worker u)" if "i < next_pair s"
    using d(3) i(1) that by (simp add: accounted_def)
  then have ?goal using fresh kept other advance_reason [OF step] by (metis in_set_conv_nth)
  then show "results (s'\<lparr>crew := (crew s)[k := w']\<rparr>) ! i \<noteq> None \<or> reason (s'\<lparr>crew := (crew s)[k := w']\<rparr>) \<or>
      (\<exists>u\<in>set (crew (s'\<lparr>crew := (crew s)[k := w']\<rparr>)). in_flight u = Some i \<or> failing_worker u)"
    by (simp add: reason_def)
qed

lemma works_counted:
  assumes W: "works c s k w w' s'"
  shows "counted c (s'\<lparr>crew := (crew s)[k := w']\<rparr>)"
proof -
  note d = worksD [OF W]
  obtain a where step: "advance c a w s = (w', s')" using d(10) by blast
  have crew: "length (filter (\<lambda>u. u = Counting) ((crew s)[k := w'])) + (if w = Counting then 1 else 0) =
      length (filter (\<lambda>u. u = Counting) (crew s)) + (if w' = Counting then 1 else 0)"
    using filter_update [OF d(7), of "\<lambda>u. u = Counting" w'] d(8) by simp
  have stored: "length (filter (\<lambda>r. r \<noteq> None) (results s')) =
      length (filter (\<lambda>r. r \<noteq> None) (results s)) + (if \<exists>i v. w = Storing i v then 1 else 0)"
    using advance_results [OF step]
  proof (elim disjE exE conjE)
    fix i v
    assume u: "w = Storing i v" "s' = s\<lparr>results := (results s)[i := Some v]\<rparr>"
    have "i < length (results s)" "results s ! i = None" using d(1,2) u(1) by (auto simp: worker_ok_def cells_ok_def)
    then show ?thesis using filter_update [of i "results s" "\<lambda>r. r \<noteq> None" "Some v"] u by simp
  qed simp
  show ?thesis
    using advance_counting [OF step]
  proof (elim disjE conjE)
    assume u: "w = Counting" "w' = AtLoop" "s' = s\<lparr>completed_pairs := completed_pairs s + 1,
        observed := observed s @ [(completed_pairs s + 1, length (build_pairs c))]\<rparr>"
    then show ?thesis using d(5) crew by (simp add: counted_def)
  next
    assume u: "w \<noteq> Counting" "completed_pairs s' = completed_pairs s" "observed s' = observed s"
      "(w' = Counting) = (\<exists>i v. w = Storing i v)"
    then show ?thesis using d(5) crew stored by (simp add: counted_def split: if_splits)
  qed
qed

lemma works_controlled:
  assumes W: "works c s k w w' s'"
  shows "controlled (s'\<lparr>crew := (crew s)[k := w']\<rparr>)"
proof -
  note d = worksD [OF W]
  obtain a where step: "advance c a w s = (w', s')" using d(10) by blast
  have "\<not> crew_gone s" using d(7-9) by (auto simp: crew_gone_def)
  then have "\<not> all_done s" using d(6) by (simp add: controlled_def)
  moreover have "reason s'" if "cancellation s'"
    using advance_token [OF step that] d(6) advance_reason [OF step] d(1) advance_error [OF step]
    by (auto simp: controlled_def worker_ok_def reason_def)
  moreover have "(crew s)[k := w'] \<noteq> []" using d(7) by auto
  ultimately show ?thesis
    using d(6) advance_frame [OF step] advance_reason [OF step] by (auto simp: controlled_def reason_def)
qed

lemma works_ok:
  assumes W: "works c s k w w' s'"
  shows "build_ok c (s'\<lparr>crew := (crew s)[k := w']\<rparr>)"
proof -
  have "worker_ok c (s'\<lparr>crew := ws\<rparr>) u = worker_ok c s' u" "cells_ok c (s'\<lparr>crew := ws\<rparr>) = cells_ok c s'" for ws u
    by (auto simp: worker_ok_def cells_ok_def reason_def split: worker.split)
  then show ?thesis
    using works_cells [OF W] works_crew [OF W] works_still_apart [OF W] works_accounted [OF W] works_counted [OF W]
      works_controlled [OF W] by (simp add: build_ok_def)
qed

section \<open>Every reachable state\<close>

lemma watch_ok:
  assumes "build_ok c s" and "dog s \<noteq> WatchOff"
  shows "build_ok c (watch s)"
proof -
  have reason: "reason s \<Longrightarrow> reason (watch s)"
    by (auto simp: watch_def reason_def split: watchdog.split)
  have same: "crew (watch s) = crew s" "results (watch s) = results s" "next_pair (watch s) = next_pair s"
    "completed_pairs (watch s) = completed_pairs s" "observed (watch s) = observed s" "deadline_past (watch s) = deadline_past s"
    "first_error (watch s) = first_error s" "caller_token (watch s) = caller_token s" "all_done (watch s) = all_done s"
    by (auto simp: watch_def split: watchdog.split)
  have "worker_ok c (watch s) w" if "worker_ok c s w" for w
    using worker_ok_other [OF that] same reason by simp
  moreover have "controlled (watch s)"
    using assms by (cases "dog s") (auto simp: build_ok_def controlled_def watch_def reason_def crew_gone_def)
  ultimately show ?thesis
    using assms(1) reason by (auto simp: build_ok_def cells_ok_def accounted_def counted_def same)
qed

lemma outside_ok:
  assumes ok: "build_ok c s"
    and same: "crew s' = crew s" "results s' = results s" "next_pair s' = next_pair s"
      "completed_pairs s' = completed_pairs s" "observed s' = observed s" "first_error s' = first_error s" "dog s' = dog s"
      "cancellation s' = cancellation s" "caller_cancelled s' = caller_cancelled s" "matrix_timed_out s' = matrix_timed_out s"
    and more: "deadline_past s \<longrightarrow> deadline_past s'" "caller_token s \<longrightarrow> caller_token s'" "all_done s' \<longrightarrow> all_done s \<or> crew_gone s"
  shows "build_ok c s'"
proof -
  have reason: "reason s' = reason s" using same by (simp add: reason_def)
  have "worker_ok c s' w" if "worker_ok c s w" for w
    by (rule worker_ok_other [OF that]) (use same more reason in simp_all)
  moreover have "controlled s'" using ok same more reason by (auto simp: build_ok_def controlled_def crew_gone_def)
  ultimately show ?thesis using ok same reason by (simp add: build_ok_def cells_ok_def accounted_def counted_def)
qed

lemma build_step_ok:
  assumes "build_step c s s'" and "build_ok c s"
  shows "build_ok c s'"
  using assms
proof cases
  case (working k a w s1)
  have "works c s k (crew s ! k) w s1" using working assms(2) by (auto simp: works_def)
  then show ?thesis using works_ok working(1) by blast
next
  case watching
  then show ?thesis using watch_ok assms(2) by simp
qed (rule outside_ok [OF assms(2)]; simp)+

lemma start_ok:
  assumes "build_pairs c \<noteq> []" and "max_concurrency c > 0"
  shows "build_ok c (start_build c False)"
  using assms
  by (auto simp: build_ok_def start_build_def cells_ok_def worker_ok_def accounted_def apart_def counted_def controlled_def
      reason_def Let_def)

lemma builds_ok:
  assumes "build_pairs c \<noteq> []" and "max_concurrency c > 0" and "(build_step c)\<^sup>*\<^sup>* (start_build c False) s"
  shows "build_ok c s"
  using assms(3) by (induction rule: rtranclp_induct) (use start_ok [OF assms(1,2)] build_step_ok in blast)+

section \<open>The end of a build\<close>

lemma all_cells: "(\<forall>i<length xs. xs ! i \<noteq> None) \<longleftrightarrow> None \<notin> set xs"
  by (metis in_set_conv_nth)

lemma complete_count: "length (filter (\<lambda>r. r \<noteq> None) xs) = length xs \<longleftrightarrow> (\<forall>i<length xs. xs ! i \<noteq> None)"
proof -
  have "length (filter (\<lambda>r. r \<noteq> None) xs) = length xs \<longleftrightarrow> None \<notin> set xs"
  proof (induction xs)
    case (Cons x xs)
    have le: "length (filter (\<lambda>r. r \<noteq> None) xs) < Suc (length xs)" by (simp add: le_imp_less_Suc del: not_None_eq)
    show ?case using Cons.IH le by (cases "x = None") (simp_all del: not_None_eq)
  qed simp
  then show ?thesis by (simp only: all_cells)
qed

lemma those_Some: "(\<forall>i<length xs. xs ! i \<noteq> None) \<Longrightarrow> those xs = Some (map the xs)"
  unfolding all_cells
proof (induction xs)
  case (Cons x xs)
  then show ?case by (cases x) auto
qed simp

text \<open>When every thread is gone, without an error every pair was answered or the time ran out.\<close>

lemma ended:
  assumes ok: "build_ok c s" and gone: "all_done s" and clear: "\<not> caller_cancelled s" "first_error s = None"
  shows "completed_pairs s = length (filter (\<lambda>r. r \<noteq> None) (results s))"
    "matrix_timed_out s \<or> (\<forall>i<length (results s). results s ! i \<noteq> None)"
proof -
  have crew: "\<forall>w\<in>set (crew s). w = Stopped" "crew s \<noteq> []"
    using ok gone by (auto simp: build_ok_def controlled_def crew_gone_def)
  then have "filter (\<lambda>w. w = Counting) (crew s) = []" by (auto simp: filter_empty_conv)
  then show "completed_pairs s = length (filter (\<lambda>r. r \<noteq> None) (results s))"
    using ok by (simp add: build_ok_def counted_def)
  have "results s ! i \<noteq> None" if "\<not> matrix_timed_out s" "i < length (results s)" for i
  proof -
    have no: "\<not> reason s" using that(1) clear by (simp add: reason_def)
    obtain w where "w \<in> set (crew s)" using crew(2) by (meson list.set_sel(1))
    then have "worker_ok c s Stopped" using crew(1) ok by (metis build_ok_def)
    then have "length (build_pairs c) \<le> next_pair s" using no by (simp add: worker_ok_def)
    then have "i < next_pair s" "i < length (build_pairs c)" using ok that(2) by (auto simp: build_ok_def cells_ok_def)
    then show ?thesis using ok no crew(1) by (fastforce simp: build_ok_def accounted_def)
  qed
  then show "matrix_timed_out s \<or> (\<forall>i<length (results s). results s ! i \<noteq> None)" by blast
qed

lemma missing_found:
  assumes "length (filter (\<lambda>r. r \<noteq> None) (results s)) < length (results s)"
  shows "missing_index s \<noteq> None"
proof -
  have "\<exists>i<length (results s). results s ! i = None" using assms complete_count [of "results s"] by auto
  then show ?thesis by (auto simp: missing_index_def find_None_iff)
qed

lemma finish_no_panic:
  assumes ok: "build_ok c s" and gone: "all_done s"
  shows "finish_build c elapsed s \<noteq> None"
proof (cases "caller_cancelled s \<or> caller_token s \<or> first_error s \<noteq> None")
  case True
  then show ?thesis by (auto simp: finish_build_def final_failure_def split: option.split)
next
  case False
  note e = ended [OF ok gone] 
  have len: "length (results s) = length (build_pairs c)" using ok by (simp add: build_ok_def cells_ok_def)
  show ?thesis
  proof (cases "completed_pairs s < length (build_pairs c)")
    case True
    then have "matrix_timed_out s" using e False complete_count [of "results s"] len by auto
    moreover have "missing_index s \<noteq> None" using missing_found e(1) False True len by simp
    ultimately show ?thesis using False True by (auto simp: finish_build_def final_failure_def)
  next
    case complete: False
    then have "\<forall>i<length (results s). results s ! i \<noteq> None"
      using e(1) False complete_count [of "results s"] len length_filter_le [of "\<lambda>r. r \<noteq> None" "results s"]
      by (metis le_antisym not_less)
    then show ?thesis
      using False complete those_Some [of "results s"] by (simp add: finish_build_def final_failure_def filled_rows_def)
  qed
qed

end
