(* ===== verification/Matrix_Outcomes.thy ===== *)
theory Matrix_Outcomes
  imports Matrix_Builds Readme_Example
begin

text \<open>What a finished build returns: the provider's answers in their cells, or an error that happened.\<close>

section \<open>Errors that happened\<close>

text \<open>The pair was refused by the provider, or the deadline had passed.\<close>

definition blamed :: "build_config \<Rightarrow> bool \<Rightarrow> pair_failure \<Rightarrow> bool" where
  "blamed c late f \<longleftrightarrow> (\<exists>i e. i < length (build_pairs c) \<and> f = failure_of c i e \<and>
     (late \<or> \<not> is_unreachable e \<and> pair_answers c i (Inl e)))"

definition honest_worker :: "build_config \<Rightarrow> bool \<Rightarrow> worker \<Rightarrow> bool" where
  "honest_worker c late w \<longleftrightarrow> (case w of
     Raising f timed \<Rightarrow> blamed c late f \<and> (timed \<longrightarrow> late) | Recording f \<Rightarrow> blamed c late f | _ \<Rightarrow> True)"

definition honest :: "build_config \<Rightarrow> build_state \<Rightarrow> bool" where
  "honest c s \<longleftrightarrow> (\<forall>w\<in>set (crew s). honest_worker c (deadline_past s) w) \<and>
     (\<forall>f. first_error s = Some f \<longrightarrow> blamed c (deadline_past s) f) \<and> (matrix_timed_out s \<longrightarrow> deadline_past s)"

lemma blamedI:
  "i < length (build_pairs c) \<Longrightarrow> late \<or> \<not> is_unreachable e \<and> pair_answers c i (Inl e) \<Longrightarrow> blamed c late (failure_of c i e)"
  by (auto simp: blamed_def)

lemma advance_honest:
  assumes "advance c a w s = (w', s')" and "worker_ok c s w" and "honest_worker c (deadline_past s) w" and "honest c s"
  shows "honest_worker c (deadline_past s) w'" "\<forall>f. first_error s' = Some f \<longrightarrow> blamed c (deadline_past s) f"
    "matrix_timed_out s' \<longrightarrow> deadline_past s"
proof -
  show "honest_worker c (deadline_past s) w'"
  proof (cases w)
    case (Answered i r)
    then show ?thesis
      using assms(1,2) by (cases r) (auto simp: honest_worker_def worker_ok_def intro!: blamedI split: if_splits)
  next
    case (Abandoning i)
    then show ?thesis using assms(1,2) by (auto simp: honest_worker_def worker_ok_def intro!: blamedI split: if_splits)
  qed (use assms in \<open>auto simp: honest_worker_def split: if_splits\<close>)
  show "\<forall>f. first_error s' = Some f \<longrightarrow> blamed c (deadline_past s) f"
    using assms(1,3,4) by (cases w) (auto simp: honest_worker_def honest_def split: if_splits)
  show "matrix_timed_out s' \<longrightarrow> deadline_past s"
    using assms(1,3,4) by (cases w) (auto simp: honest_worker_def honest_def split: if_splits)
qed

lemma blamed_late: "blamed c late f \<Longrightarrow> blamed c True f"
  by (auto simp: blamed_def)

lemma honest_worker_late: "honest_worker c late w \<Longrightarrow> honest_worker c True w"
  by (auto simp: honest_worker_def intro: blamed_late split: worker.splits)

lemma build_step_honest:
  assumes "build_step c s s'" and "build_ok c s" and "honest c s"
  shows "honest c s'"
  using assms
proof cases
  case (working k a w s1)
  have w: "worker_ok c s (crew s ! k)" "honest_worker c (deadline_past s) (crew s ! k)"
    using working(2) assms(2,3) by (auto simp: build_ok_def honest_def)
  note h = advance_honest [OF working(5) w assms(3)]
  have late: "deadline_past s1 = deadline_past s" using advance_frame [OF working(5)] by simp
  show ?thesis
    using h assms(3) set_update_subset_insert [of "crew s" k w] by (auto simp: working(1) honest_def late)
next
  case watching
  then show ?thesis using assms(3) by (cases "dog s") (auto simp: watch_def honest_def)
next
  case deadline_passes
  then show ?thesis using assms(3) by (auto simp: honest_def intro: blamed_late honest_worker_late)
qed (use assms(3) in \<open>auto simp: honest_def\<close>)

lemma builds_honest:
  assumes "build_pairs c \<noteq> []" and "max_concurrency c > 0" and "(build_step c)\<^sup>*\<^sup>* (start_build c False) s"
  shows "honest c s"
  using assms(3)
proof (induction rule: rtranclp_induct)
  case base
  then show ?case by (auto simp: honest_def start_build_def honest_worker_def Let_def)
next
  case (step s s')
  then show ?case using build_step_honest builds_ok [OF assms(1,2)] by blast
qed

section \<open>The cells of the matrix\<close>

lemma directed_pairs_set: "set (directed_pairs n) = {(i, j). i < n \<and> j < n \<and> i \<noteq> j}"
  by (auto simp: directed_pairs_def)

lemma directed_pairs_distinct: "distinct (directed_pairs n)"
proof -
  have "distinct (concat (map (\<lambda>from. map (\<lambda>to. (from, to)) (filter (\<lambda>to. from \<noteq> to) [0..<n])) froms))" if "distinct froms" for froms
    using that by (induction froms) (auto simp: distinct_map inj_on_def)
  then show ?thesis by (simp add: directed_pairs_def)
qed

lemma put_row_nth: "i < length rs \<Longrightarrow> rs[a := (rs ! a)[b := v]] ! i = (if a = i then (rs ! i)[b := v] else rs ! i)"
  by (cases "a = i") simp_all

lemma put_cell_shape: "length (put_cell x rs) = length rs" "map length (put_cell x rs) = map length rs"
  by (auto simp: put_cell_def put_row_nth split: prod.splits intro!: nth_equalityI)

lemma fold_put_shape: "map length (fold put_cell xs rs) = map length rs"
  by (induction xs arbitrary: rs) (simp_all add: put_cell_shape(2))

lemma put_cell_nth:
  assumes "i < length rs" and "j < length (rs ! i)"
  shows "put_cell ((a, b), v) rs ! i ! j = (if (a, b) = (i, j) then v else rs ! i ! j)"
  using assms by (auto simp: put_cell_def put_row_nth nth_list_update)

lemma fold_put_nth:
  assumes "distinct (map fst xs)" and "i < length rs" and "j < length (rs ! i)"
  shows "fold put_cell xs rs ! i ! j = (case map_of xs (i, j) of Some v \<Rightarrow> v | None \<Rightarrow> rs ! i ! j)"
  using assms
proof (induction xs arbitrary: rs)
  case (Cons x xs)
  obtain p v where x: "x = (p, v)" by (cases x)
  obtain a b where p: "p = (a, b)" by (cases p)
  have "i < length (put_cell x rs)" using Cons.prems(2) by (simp add: put_cell_shape)
  moreover have "length (put_cell x rs ! i) = length (rs ! i)"
    using put_cell_shape(2) [of x rs] Cons.prems(2) calculation by (metis nth_map)
  ultimately have "fold put_cell xs (put_cell x rs) ! i ! j =
      (case map_of xs (i, j) of Some v \<Rightarrow> v | None \<Rightarrow> put_cell x rs ! i ! j)"
    using Cons.IH [of "put_cell x rs"] Cons.prems by simp
  moreover have "map_of xs (i, j) = None" if "p = (i, j)"
    using Cons.prems(1) that x by (auto simp: map_of_eq_None_iff)
  ultimately show ?case
    using put_cell_nth [OF Cons.prems(2,3), of a b v] by (auto simp: x p split: option.split)
qed simp

lemma filled_facts:
  assumes "filled_rows c s = Some rs" and "length (results s) = length (build_pairs c)"
  defines "n \<equiv> length (build_locations c)"
  shows "length rs = n" "\<forall>r\<in>set rs. length r = n"
    "\<And>i. i < n \<Longrightarrow> rs ! i ! i = Some 0"
    "\<And>k. k < length (build_pairs c) \<Longrightarrow> results s ! k = Some (rs ! fst (build_pairs c ! k) ! snd (build_pairs c ! k))"
proof -
  obtain vs where vs: "those (results s) = Some vs" "rs = fold put_cell (zip (build_pairs c) vs) (empty_rows n)"
    using assms(1) by (auto simp: filled_rows_def n_def)
  have len: "length vs = length (results s)" "\<And>k. k < length vs \<Longrightarrow> results s ! k = Some (vs ! k)"
  proof -
    have "those xs = Some ys \<Longrightarrow> length ys = length xs \<and> (\<forall>k<length ys. xs ! k = Some (ys ! k))" for xs :: "u32 option option list" and ys
    proof (induction xs arbitrary: ys)
      case (Cons x xs)
      then show ?case by (auto split: option.splits simp: nth_Cons split: nat.split)
    qed simp
    from this [OF vs(1)] show "length vs = length (results s)" "\<And>k. k < length vs \<Longrightarrow> results s ! k = Some (vs ! k)"
      by blast+
  qed
  have shape: "map length rs = replicate n n"
    unfolding vs(2) fold_put_shape by (auto simp: empty_rows_def intro!: nth_equalityI)
  then show "length rs = n" by (metis length_map length_replicate)
  show "\<forall>r\<in>set rs. length r = n" using shape by (metis imageI in_set_replicate list.set_map)
  have keys: "map fst (zip (build_pairs c) vs) = build_pairs c" using len(1) assms(2) by simp
  then have distinct: "distinct (map fst (zip (build_pairs c) vs))" by (simp add: build_pairs_def directed_pairs_distinct)
  have cell: "rs ! i ! j = (case map_of (zip (build_pairs c) vs) (i, j) of Some v \<Rightarrow> v | None \<Rightarrow> empty_rows n ! i ! j)"
    if "i < n" "j < n" for i j
    unfolding vs(2) by (rule fold_put_nth [OF distinct]) (use that in \<open>simp_all add: empty_rows_def\<close>)
  show "rs ! i ! i = Some 0" if "i < n" for i
  proof -
    have "(i, i) \<notin> set (build_pairs c)" by (simp add: build_pairs_def directed_pairs_set)
    then have "map_of (zip (build_pairs c) vs) (i, i) = None" using keys by (simp add: map_of_eq_None_iff flip: set_map)
    then show ?thesis using cell [OF that that] that by (simp add: empty_rows_def)
  qed
  show "results s ! k = Some (rs ! fst (build_pairs c ! k) ! snd (build_pairs c ! k))" if k: "k < length (build_pairs c)" for k
  proof -
    obtain i j where ij: "build_pairs c ! k = (i, j)" by force
    then have "(i, j) \<in> set (build_pairs c)" using k by (metis nth_mem)
    then have bounds: "i < n" "j < n" by (auto simp: build_pairs_def directed_pairs_set n_def)
    have "((i, j), vs ! k) \<in> set (zip (build_pairs c) vs)"
      using k ij len(1) assms(2) by (auto simp: in_set_zip)
    then have "map_of (zip (build_pairs c) vs) (i, j) = Some (vs ! k)" using distinct by simp
    then show ?thesis using cell [OF bounds] len k assms(2) ij by simp
  qed
qed

section \<open>The work that is left\<close>

fun weight :: "worker \<Rightarrow> nat" where
  "weight (Checking i) = 12"
| "weight (Timing i) = 11"
| "weight (Querying i) = 10"
| "weight (Abandoning i) = 10"
| "weight (Answered i r) = 9"
| "weight (Storing i v) = 8"
| "weight Counting = 7"
| "weight (Raising f timed) = 6"
| "weight (Recording f) = 5"
| "weight Cancelling = 4"
| "weight AtLoop = 2"
| "weight Taking = 1"
| "weight Stopped = 0"

definition work_left :: "build_config \<Rightarrow> build_state \<Rightarrow> nat" where
  "work_left c s = 12 * (length (build_pairs c) - next_pair s) + sum_list (map weight (crew s))"

lemma advance_weight:
  assumes "advance c a w s = (w', s')" and "w \<noteq> Stopped"
  shows "12 * (length (build_pairs c) - next_pair s') + weight w' < 12 * (length (build_pairs c) - next_pair s) + weight w"
  using assms by (cases w) (auto split: if_splits sum.splits)

lemma sum_update: "k < length ws \<Longrightarrow> sum_list (map weight (ws[k := w])) + weight (ws ! k) = sum_list (map weight ws) + weight w"
proof (induction ws arbitrary: k)
  case (Cons u ws)
  then show ?case by (cases k) simp_all
qed simp

lemma working_work:
  assumes "k < length (crew s)" and "crew s ! k \<noteq> Stopped" and "advance c a (crew s ! k) s = (w, s')"
  shows "work_left c (s'\<lparr>crew := (crew s)[k := w]\<rparr>) < work_left c s"
  using advance_weight [OF assms(3,2)] sum_update [OF assms(1), of w] by (simp add: work_left_def)

section \<open>A build that is driven\<close>

text \<open>The first worker's steps alone, with one answer for every pair.\<close>

definition drive :: "build_config \<Rightarrow> routing_error + u32 \<Rightarrow> build_state \<Rightarrow> build_state" where
  "drive c a s = (let (w, s') = advance c a (crew s ! 0) s in s'\<lparr>crew := (crew s)[0 := w]\<rparr>)"

lemma drive_steps:
  assumes "\<forall>i j. answers c i j a"
  shows "crew s \<noteq> [] \<Longrightarrow> (build_step c)\<^sup>*\<^sup>* s ((drive c a ^^ n) s) \<and> crew ((drive c a ^^ n) s) \<noteq> []"
proof (induction n)
  case (Suc n)
  let ?s = "(drive c a ^^ n) s"
  have s: "(build_step c)\<^sup>*\<^sup>* s ?s" "crew ?s \<noteq> []" using Suc by simp_all
  obtain w s' where step: "advance c a (crew ?s ! 0) ?s = (w, s')" by force
  have "build_step c ?s (drive c a ?s) \<or> drive c a ?s = ?s"
  proof (cases "crew ?s ! 0 = Stopped")
    case True
    then show ?thesis by (simp add: drive_def list_update_same_conv s(2))
  next
    case False
    have "answer_allowed c (crew ?s ! 0) a" using assms by (auto simp: answer_allowed_def split: worker.split prod.split)
    then show ?thesis using working [OF _ False _ step] s(2) step by (simp add: drive_def)
  qed
  moreover have "crew (drive c a ?s) \<noteq> []" using s(2) by (auto simp: drive_def split: prod.split)
  ultimately show ?case using s by auto
qed simp

definition sample_build :: "routing_error + u32 \<Rightarrow> build_config" where
  "sample_build a = \<lparr>build_locations = [readme_location ''hotel'' 540 1080 0, readme_location ''station'' 540 1200 0],
     max_concurrency = 1, answers = (\<lambda>_ _ r. r = a)\<rparr>"

text \<open>The driven build, joined, with the watchdog at its end.\<close>

definition sample_end :: "routing_error + u32 \<Rightarrow> build_state" where
  "sample_end a = (watch ^^ 3) (((drive (sample_build a) a ^^ 18) (start_build (sample_build a) False))\<lparr>all_done := True\<rparr>)"

lemma sample_pairs [simp]: "build_pairs (sample_build a) = [(0, 1), (1, 0)]"
  by (simp add: build_pairs_def sample_build_def directed_pairs_def upt_rec)

lemma sample_workers [simp]: "max_concurrency (sample_build a) = 1"
  by (simp add: sample_build_def)

lemma eighteen: "(f ^^ 18) x = f (f (f (f (f (f (f (f (f (f (f (f (f (f (f (f (f (f x)))))))))))))))))"
  by (simp add: eval_nat_numeral)

lemma sample_size [simp]: "length (build_locations (sample_build a)) = 2"
  by (simp add: sample_build_def)

lemma sample_driven:
  "(drive (sample_build (Inr 10)) (Inr 10) ^^ 18) (start_build (sample_build (Inr 10)) False) =
    \<lparr>next_pair = 3, completed_pairs = 2, matrix_timed_out = False, caller_cancelled = False, cancellation = False,
      results = [Some (Some 10), Some (Some 10)], first_error = None, crew = [Stopped], dog = WatchToken, all_done = False,
      caller_token = False, deadline_past = False, observed = [(1, 2), (2, 2)]\<rparr>"
  by (simp add: eighteen start_build_def drive_def Let_def)

lemma sample_refused:
  "(drive (sample_build (Inl (ProviderFailed ''down''))) (Inl (ProviderFailed ''down'')) ^^ 18)
      (start_build (sample_build (Inl (ProviderFailed ''down''))) False) =
    \<lparr>next_pair = 1, completed_pairs = 0, matrix_timed_out = False, caller_cancelled = False, cancellation = True,
      results = [None, None], first_error = Some \<lparr>failure_from = ''hotel'', failure_to = ''station'',
        failure_cause = ProviderFailed ''down''\<rparr>, crew = [Stopped], dog = WatchToken, all_done = False,
      caller_token = False, deadline_past = False, observed = []\<rparr>"
  by (simp add: eighteen start_build_def drive_def is_unreachable_def failure_of_def sample_build_def readme_defs Let_def
      build_pairs_def directed_pairs_def upt_rec)

lemma sample_builds:
  assumes "(drive (sample_build a) a ^^ 18) (start_build (sample_build a) False) = s" and "crew s = [Stopped]"
    and "dog s = WatchToken" and "\<not> caller_token s" and "\<not> deadline_past s"
  shows "(build_step (sample_build a))\<^sup>*\<^sup>* (start_build (sample_build a) False) (s\<lparr>all_done := True, dog := WatchOff\<rparr>)"
    and "builds (sample_build a) False elapsed (finish_build (sample_build a) elapsed (s\<lparr>all_done := True, dog := WatchOff\<rparr>))"
proof -
  let ?c = "sample_build a"
  have "\<forall>i j. answers ?c i j a" by (simp add: sample_build_def)
  from drive_steps [OF this, of "start_build ?c False" 18]
  have "(build_step ?c)\<^sup>*\<^sup>* (start_build ?c False) s" by (simp add: assms(1)) (simp add: start_build_def)
  also have "build_step ?c s (s\<lparr>all_done := True\<rparr>)" by (rule joining) (simp add: crew_gone_def assms(2))
  also have "build_step ?c (s\<lparr>all_done := True\<rparr>) (s\<lparr>all_done := True, dog := WatchClock\<rparr>)"
    using watching [of "s\<lparr>all_done := True\<rparr>" ?c] assms(3,4) by (simp add: watch_def)
  also have "build_step ?c (s\<lparr>all_done := True, dog := WatchClock\<rparr>) (s\<lparr>all_done := True, dog := WatchWait\<rparr>)"
    using watching [of "s\<lparr>all_done := True, dog := WatchClock\<rparr>" ?c] assms(5) by (simp add: watch_def)
  also have "build_step ?c (s\<lparr>all_done := True, dog := WatchWait\<rparr>) (s\<lparr>all_done := True, dog := WatchOff\<rparr>)"
    using watching [of "s\<lparr>all_done := True, dog := WatchWait\<rparr>" ?c] by (simp add: watch_def)
  finally show "(build_step ?c)\<^sup>*\<^sup>* (start_build ?c False) (s\<lparr>all_done := True, dog := WatchOff\<rparr>)" .
  then show "builds ?c False elapsed (finish_build ?c elapsed (s\<lparr>all_done := True, dog := WatchOff\<rparr>))"
    by (rule finished [rotated]) simp_all
qed

lemma sample_success:
  "builds (sample_build (Inr 10)) False elapsed (Some (Inr \<lparr>rows = [[Some 0, Some 10], [Some 10, Some 0]]\<rparr>))"
  using sample_builds(2) [OF sample_driven, of elapsed]
  by (simp add: finish_build_def final_failure_def filled_rows_def put_cell_def empty_rows_def new_sparse_def bind_result_def
      upt_rec numeral_2_eq_2)

lemma sample_failure:
  "builds (sample_build (Inl (ProviderFailed ''down''))) False elapsed
    (Some (Inl (MatrixBuild False elapsed 0 2 ''hotel'' ''station'' (ProviderFailed ''down''))))"
  using sample_builds(2) [OF sample_refused, of elapsed]
  by (simp add: finish_build_def final_failure_def numeral_2_eq_2 [symmetric])

section \<open>Properties\<close>

text \<open>
  The matrix build never reaches one of its expect calls, however workers, watchdog, caller and
  clock interleave and whatever the provider answers.
\<close>

lemma build_never_panics:
  assumes "max_concurrency c > 0" and "builds c token elapsed r"
  shows "r \<noteq> None"
  using assms(2)
proof cases
  case (finished s)
  then show ?thesis using finish_no_panic [OF builds_ok [OF _ assms(1)]] by blast
qed auto

text \<open>
  C30. A matrix that is built has in each cell off the diagonal what the provider answered for the
  pair, an unreachable pair as a known gap, and zeros on the diagonal: with a provider that always
  answers the same it is the matrix of the sequential loop over all pairs.
\<close>

theorem built_matrix_is_answered:
  assumes "max_concurrency c > 0" and "builds c token elapsed (Some (Inr m))"
  shows "matrix_size m = length (build_locations c) \<and> wf_matrix m \<and>
    (\<forall>i<matrix_size m. \<forall>j<matrix_size m. if i = j then travel_minutes m i j = Some 0
      else case travel_minutes m i j of
          Some t \<Rightarrow> answers c i j (Inr t)
        | None \<Rightarrow> \<exists>e. is_unreachable e \<and> answers c i j (Inl e))"
  using assms(2)
proof cases
  case trivial
  let ?n = "length (build_locations c)"
  have "?n = 0 \<or> ?n = 1"
  proof (rule ccontr)
    assume "\<not> (?n = 0 \<or> ?n = 1)"
    then have "0 < ?n" "1 < ?n" by linarith+
    then have "(0, 1) \<in> set (build_pairs c)" by (simp add: build_pairs_def directed_pairs_set)
    then show False using trivial by simp
  qed
  moreover have "?n \<noteq> 0" using trivial by (auto simp: new_matrix_def new_sparse_def)
  ultimately have "m = \<lparr>rows = [[Some 0]]\<rparr>" "?n = 1" using trivial by (auto simp: new_matrix_def new_sparse_def bind_result_def)
  then show ?thesis by (simp add: matrix_size_def wf_matrix_def travel_minutes_def get_def)
next
  case (finished s)
  have ok: "build_ok c s" by (rule builds_ok [OF finished(3) assms(1) finished(4)])
  then have cells: "length (results s) = length (build_pairs c)"
    "\<And>k v. k < length (build_pairs c) \<Longrightarrow> results s ! k = Some v \<Longrightarrow> legit c k v"
    by (auto simp: build_ok_def cells_ok_def)
  have "\<exists>rs. filled_rows c s = Some rs \<and> new_sparse rs = Inr m"
  proof (cases "filled_rows c s")
    case None
    then show ?thesis using finished(2) by (auto simp: finish_build_def split: if_splits option.splits)
  next
    case (Some rs)
    then show ?thesis
      using finished(2) by (cases "new_sparse rs") (auto simp: finish_build_def split: if_splits option.splits)
  qed
  then obtain rs where rs: "filled_rows c s = Some rs" "new_sparse rs = Inr m" by blast
  note f = filled_facts [OF rs(1) cells(1)]
  have m: "rows m = rs" "wf_matrix m" using rs(2) new_sparse_Inr by auto
  have size: "matrix_size m = length (build_locations c)" using f(1) m(1) by (simp add: matrix_size_def)
  have cell: "legit_cell" if "legit_cell = (case travel_minutes m i j of Some t \<Rightarrow> answers c i j (Inr t)
      | None \<Rightarrow> \<exists>e. is_unreachable e \<and> answers c i j (Inl e))" "i < matrix_size m" "j < matrix_size m" "i \<noteq> j" for i j legit_cell
  proof -
    have "(i, j) \<in> set (build_pairs c)" using that(2-4) size by (simp add: build_pairs_def directed_pairs_set)
    then obtain k where k: "k < length (build_pairs c)" "build_pairs c ! k = (i, j)" by (auto simp: in_set_conv_nth)
    have "legit c k (travel_minutes m i j)"
      using cells(2) [OF k(1) f(4) [OF k(1)]] wf_matrix_cell [OF m(2) that(2,3)] k(2) m(1) by simp
    then show ?thesis using k(2) that(1) by (auto simp: legit_def pair_answers_def split: option.splits)
  qed
  have "travel_minutes m i i = Some 0" if "i < matrix_size m" for i
    using wf_matrix_cell [OF m(2) that that] f(3) that size m(1) by simp
  then show ?thesis using size m(2) cell by auto
qed

theorem built_matrix_is_answered_witness:
  "matrix_size \<lparr>rows = [[Some 0, Some 10], [Some 10, Some 0]]\<rparr> = length (build_locations (sample_build (Inr 10)))"
  using built_matrix_is_answered [OF _ sample_success [of 7]] by simp

text \<open>
  An error of a build is one that happened: it names a pair of locations which the provider
  refused with that cause, unless the deadline had passed, and it says that the matrix timed out
  only when the deadline had passed; the completed pairs it counts were reported one by one.
\<close>

lemma build_errors_happened:
  assumes "max_concurrency c > 0" and "build_pairs c \<noteq> []" and "(build_step c)\<^sup>*\<^sup>* (start_build c False) s"
    and "all_done s" and "finish_build c elapsed s = Some (Inl (MatrixBuild timed spent completed pairs from to cause))"
  shows "\<exists>i<length (build_locations c). \<exists>j<length (build_locations c). i \<noteq> j \<and>
      from = location_id (build_locations c ! i) \<and> to = location_id (build_locations c ! j) \<and>
      (deadline_past s \<or> \<not> is_unreachable cause \<and> answers c i j (Inl cause)) \<and>
      (timed \<longrightarrow> deadline_past s) \<and> pairs = length (build_locations c) * (length (build_locations c) - 1) \<and>
      observed s = map (\<lambda>k. (k, pairs)) [1..<completed + 1]"
proof -
  have ok: "build_ok c s" and h: "honest c s"
    using builds_ok [OF assms(2,1,3)] builds_honest [OF assms(2,1,3)] by simp_all
  have len: "length (results s) = length (build_pairs c)" using ok by (simp add: build_ok_def cells_ok_def)
  obtain f where f: "final_failure c s = Some (Some f)" "timed = matrix_timed_out s" "completed = completed_pairs s"
      "pairs = length (build_pairs c)" "from = failure_from f" "to = failure_to f" "cause = failure_cause f"
  proof (cases "final_failure c s")
    case (Some failure)
    then show ?thesis
    proof (cases failure)
      case None
      have "(case new_sparse rs of Inl e \<Rightarrow> Inl (InvalidMatrix e) | Inr m \<Rightarrow> Inr m) \<noteq>
          Inl (MatrixBuild timed spent completed pairs from to cause)" for rs
        by (simp split: sum.split)
      then show ?thesis using assms(5) Some None by (auto simp: finish_build_def split: if_splits)
    qed (use assms(5) that in \<open>auto simp: finish_build_def split: if_splits\<close>)
  qed (use assms(5) in \<open>simp add: finish_build_def split: if_splits\<close>)
  have "blamed c (deadline_past s) f"
  proof (cases "first_error s = None \<and> matrix_timed_out s \<and> completed_pairs s < length (build_pairs c)")
    case True
    then obtain i where i: "missing_index s = Some i" "f = failure_of c i (ProviderFailed ''matrix deadline reached'')"
      using f(1) by (auto simp: final_failure_def)
    then have "i < length (build_pairs c)" using len by (auto simp: missing_index_def find_Some_iff)
    then show ?thesis using h True i(2) by (auto simp: honest_def intro!: blamedI)
  next
    case False
    then have "first_error s = Some f" using f(1) by (auto simp: final_failure_def)
    then show ?thesis using h by (simp add: honest_def)
  qed
  then obtain k e where k: "k < length (build_pairs c)" "f = failure_of c k e"
      "deadline_past s \<or> \<not> is_unreachable e \<and> pair_answers c k (Inl e)"
    by (auto simp: blamed_def)
  obtain i j where ij: "build_pairs c ! k = (i, j)" by force
  then have bounds: "i < length (build_locations c)" "j < length (build_locations c)" "i \<noteq> j"
    using nth_mem [OF k(1)] by (auto simp: build_pairs_def directed_pairs_set)
  have "length (build_pairs c) = card (set (build_pairs c))"
    by (metis build_pairs_def directed_pairs_distinct distinct_card)
  also have "\<dots> = length (build_locations c) * (length (build_locations c) - 1)"
  proof -
    let ?n = "length (build_locations c)"
    have "set (build_pairs c) = {..<?n} \<times> {..<?n} - (\<lambda>i. (i, i)) ` {..<?n}"
      by (auto simp: build_pairs_def directed_pairs_set)
    moreover have "card ({..<?n} \<times> {..<?n} - (\<lambda>i. (i, i)) ` {..<?n}) = ?n * ?n - ?n"
      by (subst card_Diff_subset) (auto simp: card_image inj_on_def)
    ultimately show ?thesis by (simp add: diff_mult_distrib2)
  qed
  finally have "pairs = length (build_locations c) * (length (build_locations c) - 1)" using f(4) by simp
  moreover have "observed s = map (\<lambda>k. (k, pairs)) [1..<completed + 1]"
    using ok f(3,4) by (simp add: build_ok_def counted_def)
  moreover have "timed \<longrightarrow> deadline_past s" using h f(2) by (simp add: honest_def)
  ultimately show ?thesis
    using bounds k(2,3) ij f(5-7) by (auto simp: failure_of_def pair_answers_def)
qed

end
