(* ===== verification/Float64.thy ===== *)
theory Float64
  imports Complex_Main "HOL-Library.Log_Nat"
begin

text \<open>
  The \<open>f64\<close> of the language, as the code computes with it: a sign and a non-negative rational, an
  infinity, or the one value that is not a number. Sums, differences, products, quotients and
  square roots are those of the exact numbers, rounded to 53 binary digits, to the even neighbor
  on a tie, with gradual underflow and overflow to infinity. The functions whose precision the
  standard library leaves open (\<open>exp\<close>, \<open>ln\<close>, \<open>cos\<close>, \<open>powf\<close>) are parameters where they are used.
\<close>

datatype float64 = Finite64 bool rat | Infinite64 bool | NaN64

section \<open>Rounding\<close>

definition two_to :: "int \<Rightarrow> rat" where
  "two_to e = (if e \<ge> 0 then 2 ^ nat e else 1 / 2 ^ nat (- e))"

text \<open>The exponent of the leading binary digit of a positive number.\<close>

definition leading :: "rat \<Rightarrow> int" where
  "leading m = (case quotient_of m of (a, b) \<Rightarrow>
     let e = bitlen a - bitlen b in if two_to e \<le> m then e else e - 1)"

definition round_even :: "rat \<Rightarrow> int" where
  "round_even q = (let f = \<lfloor>q\<rfloor>; r = q - of_int f in
     if r < 1 / 2 then f else if 1 / 2 < r then f + 1 else if even f then f else f + 1)"

text \<open>The last place of a number: that of its binade, or of the subnormal numbers.\<close>

definition last_place :: "rat \<Rightarrow> rat" where
  "last_place m = two_to (max (leading m) (- 1022) - 52)"

definition round_magnitude :: "rat \<Rightarrow> rat" where
  "round_magnitude m = (if m = 0 then 0 else of_int (round_even (m / last_place m)) * last_place m)"

definition overflow64 :: rat where
  "overflow64 = 2 ^ 1024"

definition float_magnitude :: "bool \<Rightarrow> rat \<Rightarrow> float64" where
  "float_magnitude s m = (let r = round_magnitude m in if r \<ge> overflow64 then Infinite64 s else Finite64 s r)"

text \<open>The float of an exact result; \<open>s\<close> is the sign of a zero.\<close>

definition float_of :: "bool \<Rightarrow> rat \<Rightarrow> float64" where
  "float_of s v = (if v = 0 then Finite64 s 0 else float_magnitude (v < 0) \<bar>v\<bar>)"

definition signed :: "bool \<Rightarrow> rat \<Rightarrow> rat" where
  "signed s m = (if s then - m else m)"

section \<open>Operations\<close>

fun is_finite64 :: "float64 \<Rightarrow> bool" where
  "is_finite64 (Finite64 _ _) = True"
| "is_finite64 _ = False"

definition float_of_nat :: "nat \<Rightarrow> float64" where
  "float_of_nat n = float_of False (of_nat n)"

fun float_neg :: "float64 \<Rightarrow> float64" where
  "float_neg (Finite64 s a) = Finite64 (\<not> s) a"
| "float_neg (Infinite64 s) = Infinite64 (\<not> s)"
| "float_neg NaN64 = NaN64"

fun float_add :: "float64 \<Rightarrow> float64 \<Rightarrow> float64" where
  "float_add NaN64 _ = NaN64"
| "float_add _ NaN64 = NaN64"
| "float_add (Infinite64 s) (Infinite64 t) = (if s = t then Infinite64 s else NaN64)"
| "float_add (Infinite64 s) (Finite64 _ _) = Infinite64 s"
| "float_add (Finite64 _ _) (Infinite64 t) = Infinite64 t"
| "float_add (Finite64 s a) (Finite64 t b) = float_of (s \<and> t) (signed s a + signed t b)"

definition float_sub :: "float64 \<Rightarrow> float64 \<Rightarrow> float64" where
  "float_sub x y = float_add x (float_neg y)"

fun float_mul :: "float64 \<Rightarrow> float64 \<Rightarrow> float64" where
  "float_mul NaN64 _ = NaN64"
| "float_mul _ NaN64 = NaN64"
| "float_mul (Infinite64 s) (Infinite64 t) = Infinite64 (s \<noteq> t)"
| "float_mul (Infinite64 s) (Finite64 t b) = (if b = 0 then NaN64 else Infinite64 (s \<noteq> t))"
| "float_mul (Finite64 s a) (Infinite64 t) = (if a = 0 then NaN64 else Infinite64 (s \<noteq> t))"
| "float_mul (Finite64 s a) (Finite64 t b) = float_magnitude (s \<noteq> t) (a * b)"

fun float_div :: "float64 \<Rightarrow> float64 \<Rightarrow> float64" where
  "float_div NaN64 _ = NaN64"
| "float_div _ NaN64 = NaN64"
| "float_div (Infinite64 s) (Infinite64 t) = NaN64"
| "float_div (Infinite64 s) (Finite64 t b) = Infinite64 (s \<noteq> t)"
| "float_div (Finite64 s a) (Infinite64 t) = Finite64 (s \<noteq> t) 0"
| "float_div (Finite64 s a) (Finite64 t b) =
     (if b = 0 then (if a = 0 then NaN64 else Infinite64 (s \<noteq> t)) else float_magnitude (s \<noteq> t) (a / b))"

text \<open>\<open><\<close> and \<open><=\<close>, false on a value that is not a number.\<close>

fun float_less :: "float64 \<Rightarrow> float64 \<Rightarrow> bool" where
  "float_less NaN64 _ = False"
| "float_less _ NaN64 = False"
| "float_less (Infinite64 s) (Infinite64 t) = (s \<and> \<not> t)"
| "float_less (Infinite64 s) (Finite64 _ _) = s"
| "float_less (Finite64 _ _) (Infinite64 t) = (\<not> t)"
| "float_less (Finite64 s a) (Finite64 t b) = (signed s a < signed t b)"

fun float_le :: "float64 \<Rightarrow> float64 \<Rightarrow> bool" where
  "float_le NaN64 _ = False"
| "float_le _ NaN64 = False"
| "float_le x y = (\<not> float_less y x)"

definition float_zero :: float64 where
  "float_zero = Finite64 False 0"

definition float_one :: float64 where
  "float_one = Finite64 False 1"

text \<open>A literal: the float nearest to a decimal fraction.\<close>

definition literal :: "rat \<Rightarrow> float64" where
  "literal v = float_of False v"

section \<open>Powers of two\<close>

lemma two_to_pos [simp]: "0 < two_to e"
  by (simp add: two_to_def)

lemma two_to_nonzero [simp]: "two_to e \<noteq> 0"
  using two_to_pos [of e] by linarith

lemma two_to_powr: "two_to e = (if 0 \<le> e then 2 ^ nat e else inverse (2 ^ nat (- e)))"
  by (simp add: two_to_def inverse_eq_divide)

lemma two_to_powi: "two_to e = 2 powi e"
  by (simp add: two_to_def power_int_def inverse_eq_divide power_one_over)

lemma two_to_add: "two_to (a + b) = two_to a * two_to b"
  by (simp add: two_to_powi power_int_add)

lemma two_to_mono: "a \<le> b \<Longrightarrow> two_to a \<le> two_to b"
  by (simp add: two_to_powi power_int_increasing)

lemma two_to_less: "a < b \<Longrightarrow> two_to a < two_to b"
  by (simp add: two_to_powi power_int_strict_increasing)

lemma two_to_nat: "two_to (int n) = 2 ^ n"
  by (simp add: two_to_def)

lemma two_to_plus: "two_to (numeral k + e) = 2 ^ numeral k * two_to e"
  using two_to_nat [of "numeral k"] by (simp add: two_to_add)

lemma leading_bounds:
  assumes "0 < m"
  shows "two_to (leading m) \<le> m" "m < two_to (leading m + 1)"
proof -
  obtain a b where q: "quotient_of m = (a, b)" by fastforce
  have b: "0 < b" using quotient_of_denom_pos [OF q] .
  have m: "m = of_int a / of_int b" using quotient_of_div [OF q] .
  then have a: "0 < a" using assms b by (simp add: zero_less_divide_iff)
  define e where "e = bitlen a - bitlen b"
  have pow: "two_to (bitlen x - 1) \<le> of_int x" "of_int x < two_to (bitlen x)" if "0 < x" for x :: int
  proof -
    have "1 \<le> bitlen x" using bitlen_bounds [OF that] bitlen_nonneg [of x] that by (cases "bitlen x = 0") auto
    then have "two_to (bitlen x - 1) = of_int (2 ^ nat (bitlen x - 1))" "two_to (bitlen x) = of_int (2 ^ nat (bitlen x))"
      by (simp_all add: two_to_def)
    then show "two_to (bitlen x - 1) \<le> of_int x" "of_int x < two_to (bitlen x)"
      using bitlen_bounds [OF that] by (simp_all only: of_int_le_iff of_int_less_iff)
  qed
  have up: "m < two_to (e + 1)"
  proof -
    have "of_int a < two_to (bitlen a)" by (rule pow(2) [OF a])
    also have "\<dots> = two_to (e + 1) * two_to (bitlen b - 1)" by (simp add: e_def flip: two_to_add)
    also have "\<dots> \<le> two_to (e + 1) * of_int b" using pow(1) [OF b] by simp
    finally show ?thesis using b by (simp add: m divide_less_eq)
  qed
  have low: "two_to (e - 1) \<le> m"
  proof -
    have "two_to (e - 1) * of_int b \<le> two_to (e - 1) * two_to (bitlen b)" using pow(2) [OF b] by simp
    also have "\<dots> = two_to (bitlen a - 1)" by (simp add: e_def flip: two_to_add)
    also have "\<dots> \<le> of_int a" by (rule pow(1) [OF a])
    finally show ?thesis using b by (simp add: m le_divide_eq)
  qed
  have l: "leading m = (if two_to e \<le> m then e else e - 1)" by (simp add: leading_def q e_def Let_def)
  show "two_to (leading m) \<le> m" "m < two_to (leading m + 1)" using up low by (auto simp: l)
qed

lemma leading_eq:
  assumes "two_to e \<le> m" and "m < two_to (e + 1)"
  shows "leading m = e"
proof -
  have m: "0 < m" using assms(1) two_to_pos [of e] by linarith
  note b = leading_bounds [OF m]
  have "leading m < e + 1"
  proof (rule ccontr)
    assume "\<not> ?thesis"
    then have "two_to (e + 1) \<le> two_to (leading m)" by (intro two_to_mono) simp
    then show False using b(1) assms(2) by simp
  qed
  moreover have "e < leading m + 1"
  proof (rule ccontr)
    assume "\<not> ?thesis"
    then have "two_to (leading m + 1) \<le> two_to e" by (intro two_to_mono) simp
    then show False using b(2) assms(1) by simp
  qed
  ultimately show ?thesis by simp
qed

end
