(* ===== verification/Loops.thy ===== *)
theory Loops
  imports Prelude "HOL-Library.While_Combinator"
begin

text \<open>
  Loops that leave a function through \<open>?\<close>, and \<open>while\<close> loops. A \<open>for\<close> loop whose body may
  return an error is \<open>fold_result\<close>; a \<open>while\<close> loop is \<open>while_option\<close> of the library, whose
  value \<open>None\<close> means that the loop does not end. The rules below take an invariant per
  iteration (and a measure) and give the invariant of the result.
\<close>

fun fold_result :: "('a \<Rightarrow> 's \<Rightarrow> 'e + 's) \<Rightarrow> 'a list \<Rightarrow> 's \<Rightarrow> 'e + 's" where
  "fold_result f [] s = Inr s"
| "fold_result f (x # xs) s = bind_result (f x s) (fold_result f xs)"

lemma fold_result_append:
  "fold_result f (xs @ ys) s = bind_result (fold_result f xs s) (fold_result f ys)"
  by (induction xs arbitrary: s) (auto simp: bind_result_def split: sum.splits)

text \<open>What a fallible step keeps: an error is an allowed one, a state satisfies the invariant.\<close>

definition ok_in :: "('e \<Rightarrow> bool) \<Rightarrow> ('s \<Rightarrow> bool) \<Rightarrow> 'e + 's \<Rightarrow> bool" where
  "ok_in E I r = (case r of Inl e \<Rightarrow> E e | Inr s \<Rightarrow> I s)"

lemma ok_in_simps [simp]: "ok_in E I (Inl e) = E e" "ok_in E I (Inr s) = I s"
  by (simp_all add: ok_in_def)

lemma ok_in_Inl: "ok_in E I r \<Longrightarrow> r = Inl e \<Longrightarrow> E e"
  and ok_in_Inr: "ok_in E I r \<Longrightarrow> r = Inr s \<Longrightarrow> I s"
  by simp_all

lemma ok_in_bind:
  "ok_in E I r \<Longrightarrow> (\<And>s. r = Inr s \<Longrightarrow> I s \<Longrightarrow> ok_in E J (f s)) \<Longrightarrow> ok_in E J (bind_result r f)"
  by (cases r) simp_all

lemma ok_in_mono:
  "ok_in E I r \<Longrightarrow> (\<And>e. E e \<Longrightarrow> E' e) \<Longrightarrow> (\<And>s. r = Inr s \<Longrightarrow> I s \<Longrightarrow> I' s) \<Longrightarrow> ok_in E' I' r"
  by (cases r) simp_all

lemma fold_result_invariant:
  assumes "I s" and "\<And>x s. x \<in> set xs \<Longrightarrow> I s \<Longrightarrow> ok_in E I (f x s)"
  shows "ok_in E I (fold_result f xs s)"
  using assms
proof (induction xs arbitrary: s)
  case (Cons x xs)
  then show ?case by (auto intro!: ok_in_bind [where I = I])
qed simp

lemma fold_result_upt:
  assumes "a \<le> b" and "I a s" and "\<And>k s. a \<le> k \<Longrightarrow> k < b \<Longrightarrow> I k s \<Longrightarrow> ok_in E (I (Suc k)) (f k s)"
  shows "ok_in E (I b) (fold_result f [a..<b] s)"
  using assms
proof (induction "b - a" arbitrary: a s)
  case (Suc d)
  then have "[a..<b] = a # [Suc a..<b]" by (simp add: upt_conv_Cons)
  moreover have "ok_in E (I (Suc a)) (f a s)" using Suc by auto
  ultimately show ?case using Suc by (auto intro!: ok_in_bind [where I = "I (Suc a)"])
qed simp

lemma fold_upt:
  assumes "a \<le> b" and "I a s" and "\<And>k s. a \<le> k \<Longrightarrow> k < b \<Longrightarrow> I k s \<Longrightarrow> I (Suc k) (f k s)"
  shows "I b (fold f [a..<b] s)"
  using assms
proof (induction "b - a" arbitrary: a s)
  case (Suc d)
  then have "[a..<b] = a # [Suc a..<b]" by (simp add: upt_conv_Cons)
  then show ?case using Suc by simp
qed simp

text \<open>A loop with an invariant and a measure ends in a state of the invariant.\<close>

lemma while_option_ends:
  assumes "I s" and step: "\<And>s. I s \<Longrightarrow> b s \<Longrightarrow> I (c s) \<and> (f (c s) :: nat) < f s"
  obtains t where "while_option b c s = Some t" "I t" "\<not> b t"
proof -
  obtain t where t: "while_option b c s = Some t"
    using measure_while_option_Some [of I b c f s] assms by blast
  moreover have "I t" using while_option_rule [of I b c s t] t assms by blast
  moreover have "\<not> b t" by (rule while_option_stop [OF t])
  ultimately show thesis by (rule that)
qed

text \<open>\<open>Vec::iter().position\<close> followed by \<open>remove\<close> and \<open>push\<close> moves an element to the end.\<close>

definition position_of :: "'a \<Rightarrow> 'a list \<Rightarrow> nat option" where
  "position_of x xs = find (\<lambda>k. xs ! k = x) [0..<length xs]"

definition remove_at :: "nat \<Rightarrow> 'a list \<Rightarrow> 'a list" where
  "remove_at k xs = take k xs @ drop (Suc k) xs"

definition insert_at :: "nat \<Rightarrow> 'a \<Rightarrow> 'a list \<Rightarrow> 'a list" where
  "insert_at k x xs = take k xs @ x # drop k xs"

definition swap_at :: "nat \<Rightarrow> nat \<Rightarrow> 'a list \<Rightarrow> 'a list" where
  "swap_at a b xs = xs[a := xs ! b, b := xs ! a]"

lemma position_of_Some:
  assumes "position_of x xs = Some k"
  shows "k < length xs" "xs ! k = x"
  using assms by (auto simp: position_of_def find_Some_iff)

lemma position_of_None: "position_of x xs = None \<longleftrightarrow> x \<notin> set xs"
  by (auto simp: position_of_def find_None_iff in_set_conv_nth)

lemma remove_at_distinct:
  assumes "distinct xs" and "k < length xs"
  shows "distinct (remove_at k xs)" "set (remove_at k xs) = set xs - {xs ! k}"
proof -
  have xs: "xs = take k xs @ xs ! k # drop (Suc k) xs" by (rule id_take_nth_drop [OF assms(2)])
  have d: "distinct (take k xs @ xs ! k # drop (Suc k) xs)" using assms(1) xs by metis
  then show "distinct (remove_at k xs)" by (auto simp: remove_at_def)
  have "set xs = set (take k xs @ xs ! k # drop (Suc k) xs)" using xs by metis
  then show "set (remove_at k xs) = set xs - {xs ! k}" using d by (auto simp: remove_at_def)
qed

lemma remove_at_length: "k < length xs \<Longrightarrow> length (remove_at k xs) = length xs - 1"
  by (simp add: remove_at_def)

lemma remove_at_hd: "0 < k \<Longrightarrow> xs \<noteq> [] \<Longrightarrow> hd (remove_at k xs) = hd xs"
  by (cases xs; cases k) (simp_all add: remove_at_def)

end
