(* ===== verification/Penalty.thy ===== *)
theory Penalty
  imports Evaluate Float64 Loops
begin

text \<open>
  \<open>src/solver/heuristic/annealing/penalty.rs\<close>: the evaluation of annealing, which gives every
  route an energy. Routes that break a constraint are not rejected but pay for it; a route that
  breaks none is handed to the common evaluator.
\<close>

record infeasible_penalty_weights =
  late_minute_weight :: float64
  day_overflow_minute_weight :: float64
  required_location_violation_penalty :: float64
  latest_start_minute_reward :: float64

definition default_penalty_weights :: infeasible_penalty_weights where
  "default_penalty_weights =
     \<lparr>late_minute_weight = literal 100, day_overflow_minute_weight = literal 500,
      required_location_violation_penalty = literal 1000000, latest_start_minute_reward = literal 1\<rparr>"

definition check_weight :: "string \<times> float64 \<Rightarrow> unit \<Rightarrow> solver_error + unit" where
  "check_weight = (\<lambda>(name, v) _.
     if \<not> is_finite64 v \<or> float_less v float_zero
     then Inl (InvalidConfiguration (name @ '' must be finite and non-negative'')) else Inr ())"

definition validate_weights :: "infeasible_penalty_weights \<Rightarrow> solver_error + infeasible_penalty_weights" where
  "validate_weights w =
     bind_result (fold_result check_weight
       [(''late_minute_weight'', late_minute_weight w),
        (''day_overflow_minute_weight'', day_overflow_minute_weight w),
        (''required_location_violation_penalty'', required_location_violation_penalty w),
        (''latest_start_minute_reward'', latest_start_minute_reward w)] ()) (\<lambda>_. Inr w)"

record penalized_route_evaluation =
  energy :: float64
  pen_feasible :: bool
  feasible_metrics :: "solution_metrics option"
  pen_travel_minutes :: u32
  pen_wait_minutes :: u32
  pen_late_minutes :: u32
  pen_day_overflow_minutes :: u32
  required_location_violations :: u32
  penalty :: float64

definition u32_max :: u32 where
  "u32_max = 2 ^ 32 - 1"

definition saturating_mul_u32 :: "u32 \<Rightarrow> u32 \<Rightarrow> u32" where
  "saturating_mul_u32 a b = min u32_max (a * b)"

text \<open>The violations of the order itself: length, range, repetition, missing stops, ends.\<close>

definition mark_visit :: "nat \<Rightarrow> usize \<Rightarrow> u32 \<times> bool list \<Rightarrow> u32 \<times> bool list" where
  "mark_visit n k = (\<lambda>(violations, seen).
     if k \<ge> n \<or> seen ! k then (saturating_add_u32 violations 1, seen) else (violations, seen[k := True]))"

definition order_violations :: "optimization_problem \<Rightarrow> usize list \<Rightarrow> u32" where
  "order_violations p order =
     (let n = length (locations p);
          start = (if visit_policy p = AllRequired
            then ((length order - n) + (n - length order)) mod 2 ^ 32 else 0);
          (marked, seen) = fold (mark_visit n) order (start, replicate n False);
          missed = saturating_add_u32 marked
            (length (filter (\<lambda>k. required (locations p ! k) \<and> \<not> seen ! k) [0..<n]) mod 2 ^ 32);
          first = (if get order 0 \<noteq> Some (start_location_index p) then saturating_add_u32 missed 1 else missed)
      in if order = [] \<or> List.last order \<noteq> end_location_index p then saturating_add_u32 first 1 else first)"

record penalty_walk =
  pw_slot :: u32
  pw_travel :: u32
  pw_wait :: u32
  pw_late :: u32
  pw_violations :: u32

definition open_slot :: "location \<Rightarrow> u32" where
  "open_slot l = minutes_to_slot_ceil (minutes (window_open (time_window l)))"

definition close_slot :: "location \<Rightarrow> u32" where
  "close_slot l = minutes (window_close (time_window l)) div time_slot_minutes"

definition penalty_start :: "optimization_problem \<Rightarrow> u32 \<Rightarrow> penalty_walk" where
  "penalty_start p violations =
     (let l = start_location p; earliest = minutes_to_slot_ceil (minutes (start_time p));
          service = max earliest (open_slot l);
          slot = saturating_add_u32 service (minutes_to_slot_ceil (stay_minutes l)) in
      \<lparr>pw_slot = slot, pw_travel = 0,
       pw_wait = saturating_mul_u32 (service - earliest) time_slot_minutes,
       pw_late = saturating_mul_u32 (slot - close_slot l) time_slot_minutes,
       pw_violations = violations\<rparr>)"

definition penalty_edge :: "solver_input \<Rightarrow> usize \<Rightarrow> usize \<Rightarrow> penalty_walk \<Rightarrow> penalty_walk" where
  "penalty_edge i a b st =
     (let n = length (locations (input_problem i)) in
      if a \<ge> n \<or> b \<ge> n then st
      else case travel_minutes (input_matrix i) a b of
          None \<Rightarrow> st\<lparr>pw_violations := saturating_add_u32 (pw_violations st) 1\<rparr>
        | Some travel \<Rightarrow>
            let l = locations (input_problem i) ! b;
                arrival = saturating_add_u32 (pw_slot st) (minutes_to_slot_ceil travel);
                service = max arrival (open_slot l);
                finish = saturating_add_u32 service (minutes_to_slot_ceil (stay_minutes l))
            in st\<lparr>pw_travel := saturating_add_u32 (pw_travel st) travel,
                  pw_wait := saturating_add_u32 (pw_wait st) (saturating_mul_u32 (service - arrival) time_slot_minutes),
                  pw_late := saturating_add_u32 (pw_late st) (saturating_mul_u32 (finish - close_slot l) time_slot_minutes),
                  pw_slot := finish\<rparr>)"

text \<open>The loop over \<open>windows(2)\<close>.\<close>

fun penalty_edges :: "solver_input \<Rightarrow> usize list \<Rightarrow> penalty_walk \<Rightarrow> penalty_walk" where
  "penalty_edges i (a # b # rest) st = penalty_edges i (b # rest) (penalty_edge i a b st)"
| "penalty_edges i _ st = st"

definition start_reward_minutes :: "solver_input \<Rightarrow> solution_metrics option \<Rightarrow> u32" where
  "start_reward_minutes i candidate =
     (case candidate of
        Some m \<Rightarrow> if start_policy (input_problem i) = Latest
          then saturating_mul_u32 (start_time_slot m - minutes_to_slot_ceil (minutes (start_time (input_problem i))))
            time_slot_minutes
          else 0
      | None \<Rightarrow> 0)"

definition evaluate_solution_with_penalties ::
  "objective_policy \<Rightarrow> solver_input \<Rightarrow> solver_solution \<Rightarrow> infeasible_penalty_weights \<Rightarrow>
    solver_error + penalized_route_evaluation" where
  "evaluate_solution_with_penalties obj i sol weights =
     bind_result (validate_weights weights) (\<lambda>w.
       let p = input_problem i; n = length (locations p) in
       if is_cancelled i PollPenalties then Inl Cancelled
       else if matrix_size (input_matrix i) \<noteq> n then Inl (MatrixSizeMismatch (matrix_size (input_matrix i)) n)
       else
         let st = penalty_edges i (visit_order sol) (penalty_start p (order_violations p (visit_order sol)));
             overflow = (if pw_slot st \<ge> slots_per_day
               then saturating_mul_u32 (pw_slot st - (slots_per_day - 1)) time_slot_minutes else 0);
             constraint_free = (pw_violations st = 0 \<and> pw_late st = 0 \<and> overflow = 0);
             candidate = (if constraint_free
               then (case evaluate_solution obj (inner_input 0 i) sol of Inl _ \<Rightarrow> None | Inr m \<Rightarrow> Some m) else None);
             base = (case candidate of Some m \<Rightarrow> metric_score m | None \<Rightarrow> score obj (pw_travel st) (pw_wait st));
             paid = float_add (float_add
                 (float_mul (float_of_nat (pw_late st)) (late_minute_weight w))
                 (float_mul (float_of_nat overflow) (day_overflow_minute_weight w)))
               (float_mul (float_of_nat (pw_violations st)) (required_location_violation_penalty w))
         in Inr \<lparr>energy = float_sub (float_add (float_of_nat base) paid)
                   (float_mul (float_of_nat (start_reward_minutes i candidate)) (latest_start_minute_reward w)),
                 pen_feasible = (candidate \<noteq> None), feasible_metrics = candidate,
                 pen_travel_minutes = pw_travel st, pen_wait_minutes = pw_wait st, pen_late_minutes = pw_late st,
                 pen_day_overflow_minutes = overflow, required_location_violations = pw_violations st,
                 penalty = paid\<rparr>)"

end
