(* ===== verification/Neighbor.thy ===== *)
theory Neighbor
  imports Evaluate Float64 Loops "HOL-Library.Multiset"
begin

text \<open>
  \<open>src/solver/heuristic/annealing/neighbor.rs\<close>: the moves of annealing and the mixed strategy that
  draws them. The generator of random numbers of the crate \<open>rand\<close> is a record of the two draws
  the code makes; its state is passed along. A drawing that never ends is \<open>None\<close>.
\<close>

record 'g rng =
  gen_range :: "nat \<Rightarrow> nat \<Rightarrow> 'g \<Rightarrow> nat \<times> 'g"
  gen_unit :: "'g \<Rightarrow> float64 \<times> 'g"

text \<open>What the crate documents: a draw from \<open>a..b\<close> is at least \<open>a\<close> and below \<open>b\<close>.\<close>

definition in_range_rng :: "'g rng \<Rightarrow> bool" where
  "in_range_rng r \<longleftrightarrow> (\<forall>a b g. a < b \<longrightarrow> a \<le> fst (gen_range r a b g) \<and> fst (gen_range r a b g) < b)"

datatype neighborhood_move =
    MoveSwap usize usize
  | MoveRelocate usize usize
  | MoveTwoOpt usize usize
  | InsertOptional usize usize
  | RemoveOptional usize
  | ReplaceOptional usize usize

definition interior_position :: "usize list \<Rightarrow> usize \<Rightarrow> bool" where
  "interior_position route k \<longleftrightarrow> 0 < k \<and> k + 1 < length route"

text \<open>\<open>None\<close>: the move does not apply and the route stays as it is.\<close>

fun apply_neighborhood_move :: "usize list \<Rightarrow> neighborhood_move \<Rightarrow> usize list option" where
  "apply_neighborhood_move route (MoveSwap left right) =
     (if left \<noteq> right \<and> interior_position route left \<and> interior_position route right then Some (swap_at left right route) else None)"
| "apply_neighborhood_move route (MoveRelocate from to) =
     (if from \<noteq> to \<and> interior_position route from \<and> interior_position route to
      then Some (insert_at to (route ! from) (remove_at from route)) else None)"
| "apply_neighborhood_move route (MoveTwoOpt start stop) =
     (if start < stop \<and> interior_position route start \<and> interior_position route stop
      then Some (take start route @ rev (take (stop + 1 - start) (drop start route)) @ drop (stop + 1) route) else None)"
| "apply_neighborhood_move route (InsertOptional location position) =
     (if position > 0 \<and> position < length route \<and> location \<notin> set route
      then Some (insert_at position location route) else None)"
| "apply_neighborhood_move route (RemoveOptional position) =
     (if interior_position route position then Some (remove_at position route) else None)"
| "apply_neighborhood_move route (ReplaceOptional position location) =
     (if interior_position route position \<and> location \<notin> set route then Some (route[position := location]) else None)"

definition moved :: "usize list \<Rightarrow> neighborhood_move \<Rightarrow> (usize list \<times> neighborhood_move) option" where
  "moved route movement = map_option (\<lambda>neighbor. (neighbor, movement)) (apply_neighborhood_move route movement)"

text \<open>The second position is drawn again while it equals the first.\<close>

definition draw_other :: "'g rng \<Rightarrow> usize \<Rightarrow> usize \<Rightarrow> nat \<times> 'g \<Rightarrow> (nat \<times> 'g) option" where
  "draw_other r stop left start =
     while_option (\<lambda>(right, _). left = right) (\<lambda>(_, g). gen_range r 1 stop g) start"

definition mixed_neighbor ::
  "'g rng \<Rightarrow> usize list \<Rightarrow> 'g \<Rightarrow> ((usize list \<times> neighborhood_move) option \<times> 'g) option" where
  "mixed_neighbor r route g =
     (if length route < 4 then Some (None, g)
      else let (left, g1) = gen_range r 1 (length route - 1) g in
        case draw_other r (length route - 1) left (gen_range r 1 (length route - 1) g1) of
          None \<Rightarrow> None
        | Some (right, g2) \<Rightarrow>
            let (kind, g3) = gen_range r 0 3 g2;
                movement = (if kind = 0 then MoveSwap left right
                  else if kind = 1 then MoveRelocate left right
                  else MoveTwoOpt (min left right) (max left right))
            in Some (moved route movement, g3))"

definition unvisited_optional :: "optimization_problem \<Rightarrow> usize list \<Rightarrow> usize list" where
  "unvisited_optional p route =
     filter (\<lambda>k. \<not> required (locations p ! k) \<and> k \<notin> set route) [1..<end_location_index p]"

definition removable_positions :: "optimization_problem \<Rightarrow> usize list \<Rightarrow> usize list" where
  "removable_positions p route =
     filter (\<lambda>position. \<not> required (locations p ! (route ! position))) [1..<length route - 1]"

definition move_kinds :: "usize list \<Rightarrow> usize list \<Rightarrow> usize list \<Rightarrow> nat list" where
  "move_kinds route unvisited removable =
     (if length route \<ge> 4 then [0] else []) @ (if unvisited \<noteq> [] then [1] else []) @
     (if removable \<noteq> [] then [2] else []) @ (if unvisited \<noteq> [] \<and> removable \<noteq> [] then [3] else [])"

definition mixed_neighbor_for_problem ::
  "'g rng \<Rightarrow> usize list \<Rightarrow> optimization_problem \<Rightarrow> 'g \<Rightarrow> ((usize list \<times> neighborhood_move) option \<times> 'g) option" where
  "mixed_neighbor_for_problem r route p g =
     (if visit_policy p = AllRequired then mixed_neighbor r route g
      else let unvisited = unvisited_optional p route; removable = removable_positions p route;
               kinds = move_kinds route unvisited removable in
        if kinds = [] then Some (None, g)
        else let (idx, g1) = gen_range r 0 (length kinds) g; kind = kinds ! idx in
          if kind = 0 then mixed_neighbor r route g1
          else if kind = 1 then
            let (u, g2) = gen_range r 0 (length unvisited) g1;
                (position, g3) = gen_range r 1 (length route) g2
            in Some (moved route (InsertOptional (unvisited ! u) position), g3)
          else if kind = 2 then
            let (d, g2) = gen_range r 0 (length removable) g1
            in Some (moved route (RemoveOptional (removable ! d)), g2)
          else
            let (d, g2) = gen_range r 0 (length removable) g1;
                (u, g3) = gen_range r 0 (length unvisited) g2
            in Some (moved route (ReplaceOptional (removable ! d) (unvisited ! u)), g3))"

text \<open>The trait of the strategies.\<close>

type_synonym 'g neighborhood_strategy =
  "usize list \<Rightarrow> optimization_problem \<Rightarrow> 'g \<Rightarrow> ((usize list \<times> neighborhood_move) option \<times> 'g) option"

section \<open>Moves keep a route valid\<close>

text \<open>
  The contract annealing relies on: a neighbor of a valid route is a valid route of the problem.
\<close>

locale neighborhood =
  fixes neighbor :: "'g rng \<Rightarrow> 'g neighborhood_strategy"
  assumes neighbor_valid: "in_range_rng r \<Longrightarrow> wf_problem p \<Longrightarrow> valid_order p route \<Longrightarrow>
    neighbor r route p g = Some (Some (route', movement), g') \<Longrightarrow> valid_order p route'"

text \<open>A route with fixed ends and the same stops in between, in any order.\<close>

lemma valid_order_perm:
  assumes "valid_order p route" and "mset route' = mset route" and "hd route' = hd route" "List.last route' = List.last route"
  shows "valid_order p route'"
proof -
  have "set route' = set route" "distinct route' = distinct route"
    using mset_eq_setD [OF assms(2)] mset_eq_imp_distinct_iff [OF assms(2)] by auto
  moreover have "route' = [] \<longleftrightarrow> route = []" using assms(2) by (metis mset_zero_iff)
  ultimately show ?thesis using assms(1,3,4) unfolding valid_order_def Let_def by simp
qed

lemma ends_by_nth:
  assumes "route \<noteq> []" and "length route' = length route" and "route' ! 0 = route ! 0"
    and "route' ! (length route - 1) = route ! (length route - 1)"
  shows "hd route' = hd route" "List.last route' = List.last route"
proof -
  have "route' \<noteq> []" using assms(1,2) by auto
  then show "hd route' = hd route" "List.last route' = List.last route"
    using assms by (simp_all add: hd_conv_nth last_conv_nth)
qed

lemma mset_insert_at: "mset (insert_at k x xs) = add_mset x (mset xs)"
  using arg_cong [OF append_take_drop_id [of k xs], of mset] unfolding insert_at_def mset_append by simp

lemma mset_remove_at:
  assumes "k < length xs"
  shows "mset xs = add_mset (xs ! k) (mset (remove_at k xs))"
  using arg_cong [OF id_take_nth_drop [OF assms], of mset] by (simp add: remove_at_def)

lemma insert_at_ends:
  assumes "0 < k" and "k < length xs"
  shows "hd (insert_at k x xs) = hd xs" "List.last (insert_at k x xs) = List.last xs"
  using assms by (auto simp: insert_at_def hd_append hd_take last_drop)

lemma remove_at_ends:
  assumes "0 < k" and "k + 1 < length xs"
  shows "hd (remove_at k xs) = hd xs" "List.last (remove_at k xs) = List.last xs"
  using assms by (auto simp: remove_at_def hd_append hd_take last_append last_drop)

lemma valid_order_best_effort:
  assumes "valid_order p route" and "visit_policy p \<noteq> AllRequired"
    and "route' \<noteq> []" "hd route' = hd route" "List.last route' = List.last route"
    and "distinct route'" "set route' \<subseteq> {..<length (locations p)}"
    and "\<forall>k\<in>set route - set route'. \<not> required (locations p ! k)"
  shows "valid_order p route'"
  using assms unfolding valid_order_def Let_def by simp blast

text \<open>What each move is allowed to touch.\<close>

definition move_allowed :: "optimization_problem \<Rightarrow> usize list \<Rightarrow> neighborhood_move \<Rightarrow> bool" where
  "move_allowed p route movement = (case movement of
     InsertOptional location _ \<Rightarrow> visit_policy p \<noteq> AllRequired \<and> location < length (locations p)
   | RemoveOptional position \<Rightarrow> visit_policy p \<noteq> AllRequired \<and> \<not> required (locations p ! (route ! position))
   | ReplaceOptional position location \<Rightarrow> visit_policy p \<noteq> AllRequired \<and>
       \<not> required (locations p ! (route ! position)) \<and> location < length (locations p)
   | _ \<Rightarrow> True)"

lemma apply_move_valid:
  assumes valid: "valid_order p route" and allowed: "move_allowed p route movement"
    and moved: "apply_neighborhood_move route movement = Some route'"
  shows "valid_order p route'"
proof -
  have ne: "route \<noteq> []" and d: "distinct route" and sub: "set route \<subseteq> {..<length (locations p)}"
    using valid unfolding valid_order_def Let_def by blast+
  show ?thesis
  proof (cases movement)
    case (MoveSwap left right)
    then have g: "interior_position route left" "interior_position route right" and r: "route' = swap_at left right route"
      using moved by (auto split: if_splits)
    have "mset route' = mset route" using g unfolding r swap_at_def by (simp add: interior_position_def mset_swap)
    moreover have "hd route' = hd route" "List.last route' = List.last route"
      using g unfolding r by (intro ends_by_nth [OF ne]; auto simp: swap_at_def interior_position_def nth_list_update)+
    ultimately show ?thesis by (rule valid_order_perm [OF valid])
  next
    case (MoveRelocate a b)
    then have g: "interior_position route a" "interior_position route b" and r: "route' = insert_at b (route ! a) (remove_at a route)"
      using moved by (auto split: if_splits)
    have a: "0 < a" "a + 1 < length route" "a < length route" and b: "0 < b" "b < length (remove_at a route)"
      using g remove_at_length [of a route] by (auto simp: interior_position_def)
    have "mset route' = mset route" unfolding r mset_insert_at mset_remove_at [OF a(3)] ..
    moreover have "hd route' = hd route" "List.last route' = List.last route"
      using insert_at_ends [OF b] remove_at_ends [OF a(1,2)] unfolding r by simp_all
    ultimately show ?thesis by (rule valid_order_perm [OF valid])
  next
    case (MoveTwoOpt start stop)
    then have g: "start < stop" "0 < start" "stop + 1 < length route"
      and r: "route' = take start route @ rev (take (stop + 1 - start) (drop start route)) @ drop (stop + 1) route"
      using moved by (auto simp: interior_position_def split: if_splits)
    have "drop (stop + 1) route = drop (stop + 1 - start) (drop start route)" using g by simp
    then have "mset route' = mset (take start route @ take (stop + 1 - start) (drop start route) @ drop (stop + 1 - start) (drop start route))"
      unfolding r by simp
    then have "mset route' = mset route" by (simp only: append_take_drop_id)
    moreover have "hd route' = hd route" using g ne unfolding r by (simp add: hd_append)
    moreover have "List.last route' = List.last route" using g unfolding r by (simp add: last_drop)
    ultimately show ?thesis by (rule valid_order_perm [OF valid])
  next
    case (InsertOptional location position)
    then have g: "0 < position" "position < length route" "location \<notin> set route"
      and r: "route' = insert_at position location route" using moved by (auto split: if_splits)
    have perm: "mset route' = add_mset location (mset route)" unfolding r by (rule mset_insert_at)
    have "set route' = insert location (set route)" using arg_cong [OF perm, of set_mset] by simp
    moreover have "distinct route'"
      using d g(3) by (subst mset_eq_imp_distinct_iff [of route' "location # route"]) (simp_all add: perm)
    ultimately show ?thesis
      using allowed InsertOptional sub insert_at_ends [OF g(1,2)] unfolding r
      by (intro valid_order_best_effort [OF valid]) (auto simp: move_allowed_def insert_at_def)
  next
    case (RemoveOptional position)
    then have g: "0 < position" "position + 1 < length route" and r: "route' = remove_at position route"
      using moved by (auto simp: interior_position_def split: if_splits)
    have "distinct route'" "set route' = set route - {route ! position}"
      using remove_at_distinct [OF d, of position] g unfolding r by auto
    moreover have "route' \<noteq> []" using remove_at_length [of position route] g unfolding r by auto
    ultimately show ?thesis
      using allowed RemoveOptional sub remove_at_ends [OF g] unfolding r
      by (intro valid_order_best_effort [OF valid]) (auto simp: move_allowed_def)
  next
    case (ReplaceOptional position location)
    then have g: "0 < position" "position + 1 < length route" "location \<notin> set route"
      and r: "route' = route[position := location]" using moved by (auto simp: interior_position_def split: if_splits)
    have pos: "position < length route" using g by simp
    have new: "mset route' = add_mset location (mset (remove_at position route))"
      unfolding r mset_update [OF pos] using mset_remove_at [OF pos] by simp
    have rest: "distinct (remove_at position route)" "set (remove_at position route) = set route - {route ! position}"
      using remove_at_distinct [OF d pos] by auto
    have "set route' = insert location (set route - {route ! position})"
      using arg_cong [OF new, of set_mset] rest(2) by simp
    moreover have "distinct route'"
      using rest g(3) by (subst mset_eq_imp_distinct_iff [of route' "location # remove_at position route"]) (auto simp: new)
    moreover have "hd route' = hd route" "List.last route' = List.last route"
      using g unfolding r by (intro ends_by_nth [OF ne]; simp)+
    ultimately show ?thesis
      using allowed ReplaceOptional sub ne unfolding r
      by (intro valid_order_best_effort [OF valid]) (auto simp: move_allowed_def)
  qed
qed

declare apply_neighborhood_move.simps [simp del]

lemma moved_valid:
  "moved route movement = Some (route', m) \<Longrightarrow> valid_order p route \<Longrightarrow> move_allowed p route movement \<Longrightarrow>
    valid_order p route'"
  by (auto simp: moved_def intro: apply_move_valid)

lemma mixed_neighbor_valid:
  assumes "valid_order p route" and "mixed_neighbor r route g = Some (Some (route', movement), g')"
  shows "valid_order p route'"
  using assms
  by (auto simp: mixed_neighbor_def move_allowed_def Let_def split: if_splits option.splits prod.splits
      elim!: moved_valid)

lemma mixed_problem_valid:
  assumes rng: "in_range_rng r" and p: "wf_problem p" and valid: "valid_order p route"
    and n: "mixed_neighbor_for_problem r route p g = Some (Some (route', movement), g')"
  shows "valid_order p route'"
proof (cases "visit_policy p = AllRequired")
  case True
  then show ?thesis using n mixed_neighbor_valid [OF valid] by (simp add: mixed_neighbor_for_problem_def)
next
  case False
  let ?u = "unvisited_optional p route" and ?d = "removable_positions p route"
  let ?kinds = "move_kinds route ?u ?d"
  have pick: "xs ! fst (gen_range r 0 (length xs) g) \<in> set xs" if "xs \<noteq> []" for xs :: "nat list" and g
    using rng that by (simp add: in_range_rng_def)
  have u: "k < length (locations p)" if "k \<in> set ?u" for k
    using that by (auto simp: unvisited_optional_def end_location_index_def)
  have dd: "\<not> required (locations p ! (route ! k))" if "k \<in> set ?d" for k
    using that by (simp add: removable_positions_def)
  obtain idx g1 where idx: "gen_range r 0 (length ?kinds) g = (idx, g1)" by fastforce
  have ne: "?kinds \<noteq> []" using n False by (auto simp: mixed_neighbor_for_problem_def Let_def)
  have kind: "?kinds ! idx \<in> set ?kinds" using pick [OF ne, of g] by (simp add: idx)
  have run: "mixed_neighbor_for_problem r route p g =
    (if ?kinds ! idx = 0 then mixed_neighbor r route g1
     else if ?kinds ! idx = 1 then
       let (u, g2) = gen_range r 0 (length ?u) g1; (position, g3) = gen_range r 1 (length route) g2
       in Some (moved route (InsertOptional (?u ! u) position), g3)
     else if ?kinds ! idx = 2 then
       let (d, g2) = gen_range r 0 (length ?d) g1 in Some (moved route (RemoveOptional (?d ! d)), g2)
     else let (d, g2) = gen_range r 0 (length ?d) g1; (u, g3) = gen_range r 0 (length ?u) g2
       in Some (moved route (ReplaceOptional (?d ! d) (?u ! u)), g3))"
    using False ne by (simp add: mixed_neighbor_for_problem_def idx Let_def)
  obtain u g2 where u2: "gen_range r 0 (length ?u) g1 = (u, g2)" by fastforce
  obtain d gd where d2: "gen_range r 0 (length ?d) g1 = (d, gd)" by fastforce
  obtain v gv where v2: "gen_range r 0 (length ?u) gd = (v, gv)" by fastforce
  consider "?kinds ! idx = 0" | "?kinds ! idx = 1" "?u \<noteq> []" | "?kinds ! idx = 2" "?d \<noteq> []"
    | "?kinds ! idx \<noteq> 0" "?kinds ! idx \<noteq> 1" "?kinds ! idx \<noteq> 2" "?u \<noteq> []" "?d \<noteq> []"
    using kind by (auto simp: move_kinds_def split: if_splits)
  then show ?thesis
  proof cases
    case 1
    then show ?thesis using n run mixed_neighbor_valid [OF valid] by simp
  next
    case 2
    have "?u ! u < length (locations p)" using u pick [OF 2(2), of g1] by (simp add: u2)
    then show ?thesis using n 2(1) False unfolding run u2
      by (auto simp: Let_def move_allowed_def split: prod.splits elim!: moved_valid [OF _ valid])
  next
    case 3
    have "\<not> required (locations p ! (route ! (?d ! d)))" using dd pick [OF 3(2), of g1] by (simp add: d2)
    then show ?thesis using n 3(1) False unfolding run d2
      by (auto simp: Let_def move_allowed_def split: prod.splits elim!: moved_valid [OF _ valid])
  next
    case 4
    have "\<not> required (locations p ! (route ! (?d ! d)))" "?u ! v < length (locations p)"
      using dd pick [OF 4(5), of g1] u pick [OF 4(4), of gd] by (simp_all add: d2 v2)
    then show ?thesis using n 4(1-3) False unfolding run d2
      by (auto simp: Let_def move_allowed_def v2 split: prod.splits elim!: moved_valid [OF _ valid])
  qed
qed

interpretation mixed: neighborhood mixed_neighbor_for_problem
  by unfold_locales (rule mixed_problem_valid)

text \<open>A generator that counts: the second draw differs from the first at once.\<close>

definition counter_rng :: "nat rng" where
  "counter_rng = \<lparr>gen_range = (\<lambda>a b g. (a + g mod (b - a), g + 1)), gen_unit = (\<lambda>g. (literal (1 / 2), g + 1))\<rparr>"

lemma counter_in_range: "in_range_rng counter_rng"
proof -
  have "a + g mod (b - a) < b" if "a < b" for a b g :: nat
    using that mod_less_divisor [of "b - a" g] by linarith
  then show ?thesis by (simp add: in_range_rng_def counter_rng_def)
qed

lemma counter_draw_differs:
  assumes "2 \<le> n"
  shows "(g :: nat) mod n \<noteq> (g + 1) mod n"
  using assms by (simp add: mod_Suc)

lemma counter_mixed_ends: "mixed_neighbor counter_rng route g \<noteq> None"
proof (cases "length route < 4")
  case False
  then have "2 \<le> length route - 1 - 1" by simp
  from counter_draw_differs [OF this, of g] show ?thesis
    using False by (simp add: mixed_neighbor_def counter_rng_def draw_other_def Let_def while_option_unfold)
qed (simp add: mixed_neighbor_def)

lemma counter_neighbor_ends: "mixed_neighbor_for_problem counter_rng route p g \<noteq> None"
  using counter_mixed_ends
  by (auto simp: mixed_neighbor_for_problem_def Let_def split: prod.splits if_splits)

end
