(* ===== verification/Mst.thy ===== *)
theory Mst
  imports Initial Loops
begin

text \<open>
  \<open>src/solver/initial/mst.rs\<close> and \<open>mst/\<close>: the symmetric weights taken from the directed
  matrix, the minimum spanning tree (Prim's algorithm with stable ties), the walk around the
  doubled tree, the shortcut of a walk to an order of the locations, and the generator that
  composes them.
\<close>

section \<open>Symmetric distances\<close>

type_synonym distance_fn = "usize \<Rightarrow> usize \<Rightarrow> solver_error + u64"

record symmetric_distance_strategy =
  distance_name :: string
  symmetric_distance :: "travel_time_matrix \<Rightarrow> distance_fn"

definition directed_pair :: "travel_time_matrix \<Rightarrow> usize \<Rightarrow> usize \<Rightarrow> solver_error + u32 \<times> u32" where
  "directed_pair m left right =
     bind_result (ok_or NoFeasibleRoute (travel_minutes m left right)) (\<lambda>forward.
     bind_result (ok_or NoFeasibleRoute (travel_minutes m right left)) (\<lambda>reverse.
       Inr (forward, reverse)))"

definition average_symmetric_distance :: symmetric_distance_strategy where
  "average_symmetric_distance =
     \<lparr>distance_name = ''average_bidirectional'',
      symmetric_distance = (\<lambda>m left right.
        bind_result (directed_pair m left right) (\<lambda>(forward, reverse). Inr ((forward + reverse) div 2)))\<rparr>"

definition min_symmetric_distance :: symmetric_distance_strategy where
  "min_symmetric_distance =
     \<lparr>distance_name = ''minimum_bidirectional'',
      symmetric_distance = (\<lambda>m left right.
        bind_result (directed_pair m left right) (\<lambda>(forward, reverse). Inr (min forward reverse)))\<rparr>"

definition max_symmetric_distance :: symmetric_distance_strategy where
  "max_symmetric_distance =
     \<lparr>distance_name = ''maximum_bidirectional'',
      symmetric_distance = (\<lambda>m left right.
        bind_result (directed_pair m left right) (\<lambda>(forward, reverse). Inr (max forward reverse)))\<rparr>"

section \<open>The minimum spanning tree\<close>

record mst_edge =
  edge_from :: usize
  edge_to :: usize
  edge_distance :: u64

record prim_state =
  included :: "bool list"
  best_distance :: "u64 list"
  parents :: "usize option list"
  tree_edges :: "mst_edge list"

definition u64_max :: u64 where
  "u64_max = 2 ^ 64 - 1"

definition prim_relax :: "distance_fn \<Rightarrow> usize \<Rightarrow> usize \<Rightarrow> prim_state \<Rightarrow> solver_error + prim_state" where
  "prim_relax distance next candidate st =
     (if included st ! candidate \<or> candidate = next then Inr st
      else bind_result (distance next candidate) (\<lambda>candidate_distance.
        let better_parent = (case parents st ! candidate of Some old_parent \<Rightarrow> next < old_parent | None \<Rightarrow> True);
            is_better = candidate_distance < best_distance st ! candidate \<or>
              (candidate_distance = best_distance st ! candidate \<and> better_parent)
        in Inr (if is_better
                then st\<lparr>best_distance := (best_distance st)[candidate := candidate_distance],
                        parents := (parents st)[candidate := Some next]\<rparr>
                else st)))"

definition prim_round :: "distance_fn \<Rightarrow> usize \<Rightarrow> nat \<Rightarrow> prim_state \<Rightarrow> solver_error + prim_state" where
  "prim_round distance node_count round st =
     (case min_by_key (\<lambda>node. (best_distance st ! node, node))
             (filter (\<lambda>node. \<not> included st ! node) [0..<node_count]) of
        None \<Rightarrow> Inl (Failed ''MST construction failed'')
      | Some next \<Rightarrow>
          if best_distance st ! next = u64_max then Inl (Failed ''MST graph is not connected'')
          else fold_result (prim_relax distance next) [0..<node_count]
            (st\<lparr>included := (included st)[next := True],
                tree_edges := (case parents st ! next of
                   None \<Rightarrow> tree_edges st
                 | Some from \<Rightarrow> tree_edges st @
                     [\<lparr>edge_from = from, edge_to = next, edge_distance = best_distance st ! next\<rparr>])\<rparr>))"

definition prim_start :: "usize \<Rightarrow> prim_state" where
  "prim_start node_count =
     \<lparr>included = replicate node_count False,
      best_distance = (replicate node_count u64_max)[0 := 0],
      parents = replicate node_count None,
      tree_edges = []\<rparr>"

definition minimum_spanning_tree :: "usize \<Rightarrow> distance_fn \<Rightarrow> solver_error + mst_edge list" where
  "minimum_spanning_tree node_count distance =
     (if node_count = 0 then Inl (InvalidConfiguration ''an MST requires at least one node'')
      else bind_result (fold_result (prim_round distance node_count) [0..<node_count] (prim_start node_count))
        (\<lambda>st. Inr (tree_edges st)))"

section \<open>The walk around the doubled tree\<close>

definition add_tree_edge ::
  "usize \<Rightarrow> mst_edge \<Rightarrow> (usize \<times> u64) list list \<Rightarrow> solver_error + (usize \<times> u64) list list" where
  "add_tree_edge node_count e adjacency =
     (if edge_from e \<ge> node_count \<or> edge_to e \<ge> node_count \<or> edge_from e = edge_to e
      then Inl (InvalidConfiguration ''MST edge contains an invalid endpoint'')
      else
        let pushed = adjacency[edge_from e := adjacency ! edge_from e @ [(edge_to e, edge_distance e)]]
        in Inr (pushed[edge_to e := pushed ! edge_to e @ [(edge_from e, edge_distance e)]]))"

text \<open>The vectors \<open>seen\<close> and \<open>tour\<close>, and the stack with its top first.\<close>

record walk_state =
  walk_seen :: "bool list"
  walk_tour :: "usize list"
  walk_stack :: "(usize \<times> nat) list"

definition walk_step :: "(usize \<times> u64) list list \<Rightarrow> walk_state \<Rightarrow> walk_state" where
  "walk_step adjacency st =
     (case walk_stack st of
        [] \<Rightarrow> st
      | (node, next_neighbor) # below \<Rightarrow>
          if next_neighbor < length (adjacency ! node)
          then let child = fst (adjacency ! node ! next_neighbor);
                   advanced = (node, Suc next_neighbor) # below
               in if \<not> walk_seen st ! child
                  then \<lparr>walk_seen = (walk_seen st)[child := True], walk_tour = walk_tour st @ [child],
                        walk_stack = (child, 0) # advanced\<rparr>
                  else st\<lparr>walk_stack := advanced\<rparr>
          else st\<lparr>walk_stack := below,
                  walk_tour := (case below of [] \<Rightarrow> walk_tour st | (parent, _) # _ \<Rightarrow> walk_tour st @ [parent])\<rparr>)"

definition walk_start :: "usize \<Rightarrow> usize \<Rightarrow> walk_state" where
  "walk_start node_count root =
     \<lparr>walk_seen = (replicate node_count False)[root := True], walk_tour = [root], walk_stack = [(root, 0)]\<rparr>"

text \<open>The outer option is \<open>None\<close> when the loop would not end.\<close>

definition doubled_tree_euler_tour ::
  "usize \<Rightarrow> mst_edge list \<Rightarrow> usize \<Rightarrow> (solver_error + usize list) option" where
  "doubled_tree_euler_tour node_count edges root =
     (if node_count = 0 \<or> root \<ge> node_count \<or> length edges \<noteq> node_count - 1
      then Some (Inl (InvalidConfiguration ''Euler tour input must be a rooted spanning tree''))
      else case fold_result (add_tree_edge node_count) edges (replicate node_count []) of
          Inl e \<Rightarrow> Some (Inl e)
        | Inr neighbors \<Rightarrow>
            let adjacency = map (sort_key (\<lambda>(node, distance). (distance, node))) neighbors in
            case while_option (\<lambda>st. walk_stack st \<noteq> []) (walk_step adjacency) (walk_start node_count root) of
              None \<Rightarrow> None
            | Some st \<Rightarrow> Some (if False \<in> set (walk_seen st)
                then Inl (InvalidConfiguration ''MST edges do not connect every node'')
                else Inr (walk_tour st)))"

definition shortcut_step :: "usize \<Rightarrow> usize \<Rightarrow> bool list \<times> usize list \<Rightarrow> solver_error + bool list \<times> usize list" where
  "shortcut_step node_count node = (\<lambda>(seen, route).
     if node \<ge> node_count then Inl InvalidVisitOrder
     else Inr (if \<not> seen ! node then (seen[node := True], route @ [node]) else (seen, route)))"

definition shortcut_euler_tour :: "usize \<Rightarrow> usize list \<Rightarrow> solver_error + usize list" where
  "shortcut_euler_tour node_count euler_tour =
     bind_result (fold_result (shortcut_step node_count) euler_tour (replicate node_count False, []))
       (\<lambda>(seen, route). if length route \<noteq> node_count then Inl InvalidVisitOrder else Inr route)"

section \<open>The generator\<close>

record mst_double_tree_result =
  mst_distance_strategy :: string
  mst_edges :: "mst_edge list"
  mst_euler_tour :: "usize list"
  mst_solution :: solver_solution

definition mst_generate_detailed ::
  "symmetric_distance_strategy \<Rightarrow> solver_input \<Rightarrow> (solver_error + mst_double_tree_result) option" where
  "mst_generate_detailed strategy i =
     (let p = input_problem i; n = length (locations p) in
      case bind_result (validate_generator_input i) (\<lambda>_.
          minimum_spanning_tree n (symmetric_distance strategy (input_matrix i))) of
        Inl e \<Rightarrow> Some (Inl e)
      | Inr edges \<Rightarrow> map_option (\<lambda>toured.
          bind_result toured (\<lambda>euler_tour.
          bind_result (shortcut_euler_tour n euler_tour) (\<lambda>order.
          bind_result (if n > 1
              then bind_result (ok_or InvalidVisitOrder (position_of (end_location_index p) order))
                (\<lambda>k. Inr (remove_at k order @ [end_location_index p]))
              else Inr order) (\<lambda>visits.
            Inr \<lparr>mst_distance_strategy = distance_name strategy, mst_edges = edges,
                 mst_euler_tour = euler_tour, mst_solution = \<lparr>visit_order = visits\<rparr>\<rparr>))))
        (doubled_tree_euler_tour n edges 0))"

definition mst_route :: "symmetric_distance_strategy \<Rightarrow> solver_input \<Rightarrow> (solver_error + solver_solution) option" where
  "mst_route strategy i =
     map_option (\<lambda>r. bind_result r (\<lambda>result. Inr (mst_solution result))) (mst_generate_detailed strategy i)"

end
