(* ===== verification/Matching.thy ===== *)
theory Matching
  imports Mst Exact_Masks
begin

text \<open>
  \<open>src/solver/initial/christofides/matching.rs\<close> and \<open>matching/\<close>: minimum-weight perfect
  matchings. The exact one is a dynamic program over the set of matched vertices; the other is
  an adapter around the crate \<open>integer_blossom\<close>, a parameter here; the automatic one takes the
  first below a threshold of vertices.
\<close>

record perfect_matching_edge =
  match_left :: usize
  match_right :: usize
  match_distance :: u64

text \<open>The trait. The outer option is \<open>None\<close> for a run that does not return.\<close>

record perfect_matching_strategy =
  matching_name :: "usize \<Rightarrow> string"
  perfect_matching :: "usize list \<Rightarrow> u64 list list \<Rightarrow> (solver_error + perfect_matching_edge list) option"

definition validate_matching_problem :: "usize list \<Rightarrow> u64 list list \<Rightarrow> solver_error + unit" where
  "validate_matching_problem vertices distances =
     (if length vertices mod 2 \<noteq> 0
      then Inl (InvalidConfiguration ''perfect matching requires an even number of vertices'')
      else if card (set vertices) \<noteq> length vertices
      then Inl (InvalidConfiguration ''perfect matching vertices must be unique'')
      else if length distances \<noteq> length vertices \<or> list_ex (\<lambda>row. length row \<noteq> length vertices) distances
      then Inl (InvalidConfiguration ''perfect matching distance matrix must match the vertex count'')
      else if list_ex (\<lambda>left. list_ex (\<lambda>right. distances ! left ! right \<noteq> distances ! right ! left)
             [Suc left..<length distances]) [0..<length distances]
      then Inl (InvalidConfiguration ''perfect matching distances must be symmetric'')
      else Inr ())"

section \<open>The dynamic program\<close>

definition max_bit_dp_matching_vertices :: usize where
  "max_bit_dp_matching_vertices = 20"

definition bit_dp_new :: "usize \<Rightarrow> solver_error + usize" where
  "bit_dp_new max_vertices =
     (if max_vertices > max_bit_dp_matching_vertices
      then Inl (InvalidConfiguration ''bit-DP perfect matching limit must not exceed 20'')
      else Inr max_vertices)"

text \<open>\<open>usize::trailing_zeros\<close>: 64 for zero.\<close>

fun trailing_zeros :: "usize \<Rightarrow> nat" where
  "trailing_zeros m = (if m = 0 then 64 else if odd m then 0 else Suc (trailing_zeros (m div 2)))"

declare trailing_zeros.simps [simp del]

type_synonym matching_table = "u64 list \<times> (usize \<times> usize \<times> usize) option list"

definition match_pair ::
  "u64 list list \<Rightarrow> usize \<Rightarrow> usize \<Rightarrow> usize \<Rightarrow> usize \<Rightarrow> matching_table \<Rightarrow> solver_error + matching_table" where
  "match_pair distances unmatched msk first second = (\<lambda>(dp, predecessor).
     if \<not> has_bit unmatched second then Inr (dp, predecessor)
     else let next_mask = with_bit (with_bit msk first) second in
       case checked_add_u64 (dp ! msk) (distances ! first ! second) of
         None \<Rightarrow> Inl (Failed ''matching cost overflow'')
       | Some candidate \<Rightarrow>
           if candidate < dp ! next_mask
           then Inr (dp[next_mask := candidate], predecessor[next_mask := Some (msk, first, second)])
           else Inr (dp, predecessor))"

definition match_mask :: "u64 list list \<Rightarrow> usize \<Rightarrow> usize \<Rightarrow> matching_table \<Rightarrow> solver_error + matching_table" where
  "match_mask distances full msk table =
     (if fst table ! msk = u64_max \<or> msk = full then Inr table
      else let unmatched = Bit_Operations.xor full msk; first = trailing_zeros unmatched in
        fold_result (match_pair distances unmatched msk first) [first + 1..<length (distances ! first)] table)"

text \<open>The walk back along the predecessors; an error leaves the loop.\<close>

definition trace_step ::
  "usize list \<Rightarrow> u64 list list \<Rightarrow> (usize \<times> usize \<times> usize) option list \<Rightarrow>
    solver_error + usize \<times> perfect_matching_edge list \<Rightarrow> solver_error + usize \<times> perfect_matching_edge list" where
  "trace_step vertices distances predecessor st =
     bind_result st (\<lambda>(msk, matching).
     bind_result (ok_or (Failed ''perfect matching predecessor is missing'') (predecessor ! msk))
       (\<lambda>(previous, left, right).
         Inr (previous, matching @ [\<lparr>match_left = vertices ! left, match_right = vertices ! right,
           match_distance = distances ! left ! right\<rparr>])))"

definition tracing :: "solver_error + usize \<times> perfect_matching_edge list \<Rightarrow> bool" where
  "tracing st = (case st of Inl _ \<Rightarrow> False | Inr (msk, _) \<Rightarrow> msk \<noteq> 0)"

definition bit_dp_matching ::
  "usize \<Rightarrow> usize list \<Rightarrow> u64 list list \<Rightarrow> (solver_error + perfect_matching_edge list) option" where
  "bit_dp_matching max_vertices vertices distances =
     (case validate_matching_problem vertices distances of
        Inl e \<Rightarrow> Some (Inl e)
      | Inr _ \<Rightarrow>
        let vertex_count = length vertices in
        if vertex_count > max_vertices
        then Some (Inl (UnsupportedMatchingVertexCount max_vertices vertex_count))
        else if vertex_count = 0 then Some (Inr [])
        else
          let state_count = push_bit vertex_count 1; full = state_count - 1 in
          case fold_result (match_mask distances full) [0..<state_count]
              ((replicate state_count u64_max)[0 := 0], replicate state_count None) of
            Inl e \<Rightarrow> Some (Inl e)
          | Inr (dp, predecessor) \<Rightarrow>
              if dp ! full = u64_max then Some (Inl (Failed ''perfect matching could not be constructed''))
              else map_option (\<lambda>st. bind_result st (\<lambda>(msk, matching). Inr (rev matching)))
                (while_option tracing (trace_step vertices distances predecessor) (Inr (full, []))))"

definition bit_dp_perfect_matching :: "usize \<Rightarrow> perfect_matching_strategy" where
  "bit_dp_perfect_matching max_vertices =
     \<lparr>matching_name = (\<lambda>_. ''bit_dp''), perfect_matching = bit_dp_matching max_vertices\<rparr>"

section \<open>The adapter around the crate\<close>

text \<open>
  \<open>integer_blossom::min_weight_perfect_matching\<close>: the mate of each vertex from the flattened
  costs, \<open>None\<close> when it panics.
\<close>

type_synonym blossom = "int list \<Rightarrow> usize \<Rightarrow> usize list option"

definition validate_blossom_mates :: "usize list \<Rightarrow> usize \<Rightarrow> solver_error + unit" where
  "validate_blossom_mates mates vertex_count =
     (if length mates \<noteq> vertex_count
      then Inl (PerfectMatchingFailed (''integer-blossom returned '' @ nat_to_string (length mates) @
        '' mates for '' @ nat_to_string vertex_count @ '' vertices''))
      else case find (\<lambda>vertex. mates ! vertex \<ge> vertex_count \<or> mates ! vertex = vertex \<or>
               get mates (mates ! vertex) \<noteq> Some vertex) [0..<length mates] of
          Some vertex \<Rightarrow> Inl (PerfectMatchingFailed
            (''integer-blossom returned an invalid mate for vertex '' @ nat_to_string vertex))
        | None \<Rightarrow> Inr ())"

definition blossom_matching ::
  "blossom \<Rightarrow> usize list \<Rightarrow> u64 list list \<Rightarrow> solver_error + perfect_matching_edge list" where
  "blossom_matching solve vertices distances =
     bind_result (validate_matching_problem vertices distances) (\<lambda>_.
       if vertices = [] then Inr []
       else let vertex_count = length vertices; costs = map int (concat distances) in
         bind_result (ok_or (PerfectMatchingFailed ''integer-blossom panicked while solving the matching'')
             (solve costs vertex_count)) (\<lambda>mates.
         bind_result (validate_blossom_mates mates vertex_count) (\<lambda>_.
           Inr (map (\<lambda>left. \<lparr>match_left = vertices ! left, match_right = vertices ! (mates ! left),
               match_distance = distances ! left ! (mates ! left)\<rparr>)
             (filter (\<lambda>left. left < mates ! left) [0..<vertex_count])))))"

definition blossom_perfect_matching :: "blossom \<Rightarrow> perfect_matching_strategy" where
  "blossom_perfect_matching solve =
     \<lparr>matching_name = (\<lambda>_. ''blossom''),
      perfect_matching = (\<lambda>vertices distances. Some (blossom_matching solve vertices distances))\<rparr>"

section \<open>Choice of the strategy\<close>

datatype matching_strategy_choice = AutoMatching | BitDpMatching | BlossomMatching

fun choice_str :: "matching_strategy_choice \<Rightarrow> string" where
  "choice_str AutoMatching = ''auto''"
| "choice_str BitDpMatching = ''bitdp''"
| "choice_str BlossomMatching = ''blossom''"

definition choice_of_str :: "string \<Rightarrow> solver_error + matching_strategy_choice" where
  "choice_of_str value =
     (if value = ''auto'' then Inr AutoMatching
      else if value = ''bitdp'' then Inr BitDpMatching
      else if value = ''blossom'' then Inr BlossomMatching
      else Inl (InvalidConfiguration
        (''MATCHING_STRATEGY must be auto, bitdp, or blossom (actual '' @ value @ '')'')))"

record matching_strategy_config =
  matching_choice :: matching_strategy_choice
  bit_dp_threshold :: usize

definition matching_config_new :: "matching_strategy_choice \<Rightarrow> usize \<Rightarrow> solver_error + matching_strategy_config" where
  "matching_config_new choice threshold =
     (if threshold > max_bit_dp_matching_vertices
      then Inl (InvalidConfiguration ''MATCHING_BIT_DP_THRESHOLD must be between 0 and 20'')
      else Inr \<lparr>matching_choice = choice, bit_dp_threshold = threshold\<rparr>)"

definition default_matching_config :: matching_strategy_config where
  "default_matching_config =
     \<lparr>matching_choice = AutoMatching, bit_dp_threshold = max_bit_dp_matching_vertices\<rparr>"

definition parse_usize :: "string \<Rightarrow> usize option" where
  "parse_usize s =
     (if s = [] \<or> s = ''+'' \<or> s = ''-'' then None
      else digits_value (2 ^ 64) 0 (if hd s = CHR ''+'' then tl s else s))"

definition matching_config_from_sources :: "string option \<Rightarrow> string option \<Rightarrow> solver_error + matching_strategy_config" where
  "matching_config_from_sources strategy threshold =
     bind_result (choice_of_str (case strategy of None \<Rightarrow> ''auto'' | Some v \<Rightarrow> v)) (\<lambda>choice.
     bind_result (case threshold of
         None \<Rightarrow> Inr max_bit_dp_matching_vertices
       | Some v \<Rightarrow> ok_or (InvalidConfiguration
           ''MATCHING_BIT_DP_THRESHOLD must be an integer between 0 and 20'') (parse_usize v)) (\<lambda>limit.
       matching_config_new choice limit))"

definition selected_choice :: "matching_strategy_config \<Rightarrow> usize \<Rightarrow> matching_strategy_choice" where
  "selected_choice config vertex_count =
     (case matching_choice config of
        AutoMatching \<Rightarrow> if vertex_count \<le> bit_dp_threshold config then BitDpMatching else BlossomMatching
      | forced \<Rightarrow> forced)"

definition chosen_strategy :: "blossom \<Rightarrow> matching_strategy_choice \<Rightarrow> perfect_matching_strategy" where
  "chosen_strategy solve choice =
     (case choice of
        BitDpMatching \<Rightarrow> bit_dp_perfect_matching max_bit_dp_matching_vertices
      | _ \<Rightarrow> blossom_perfect_matching solve)"

definition auto_perfect_matching_new ::
  "blossom \<Rightarrow> matching_strategy_config \<Rightarrow> solver_error + perfect_matching_strategy" where
  "auto_perfect_matching_new solve config =
     bind_result (matching_config_new (matching_choice config) (bit_dp_threshold config)) (\<lambda>checked. Inr
       \<lparr>matching_name = (\<lambda>n. matching_name (chosen_strategy solve (selected_choice checked n)) n),
        perfect_matching = (\<lambda>vertices distances.
          perfect_matching (chosen_strategy solve (selected_choice checked (length vertices))) vertices distances)\<rparr>)"

end
