(* ===== verification/Christofides.thy ===== *)
theory Christofides
  imports Mst Matching
begin

text \<open>
  \<open>src/solver/initial/christofides/\<close> and the two remaining generators of
  \<open>src/solver/initial/\<close>: the vertices of odd degree of the tree, the Eulerian tour of the tree
  with the matching (Hierholzer), the generator that composes them, and the random order.
\<close>

section \<open>Degrees\<close>

definition count_degree :: "string \<Rightarrow> usize \<Rightarrow> mst_edge \<Rightarrow> usize list \<Rightarrow> solver_error + usize list" where
  "count_degree message node_count e degrees =
     (if edge_from e \<ge> node_count \<or> edge_to e \<ge> node_count \<or> edge_from e = edge_to e
      then Inl (InvalidConfiguration message)
      else let one = degrees[edge_from e := degrees ! edge_from e + 1]
           in Inr (one[edge_to e := one ! edge_to e + 1]))"

definition odd_degree_vertices :: "usize \<Rightarrow> mst_edge list \<Rightarrow> solver_error + usize list" where
  "odd_degree_vertices node_count edges =
     bind_result (fold_result (count_degree ''graph edge contains an invalid endpoint'' node_count) edges
         (replicate node_count 0)) (\<lambda>degrees.
       Inr (filter (\<lambda>v. degrees ! v mod 2 = 1) [0..<length degrees]))"

section \<open>The Eulerian tour\<close>

type_synonym euler_lists = "(usize \<times> u64 \<times> usize) list list"

definition add_euler_edge ::
  "usize \<Rightarrow> usize \<times> mst_edge \<Rightarrow> euler_lists \<times> usize list \<Rightarrow> solver_error + euler_lists \<times> usize list" where
  "add_euler_edge node_count = (\<lambda>(edge_id, e) (adjacency, degrees).
     bind_result (count_degree ''Euler graph edge contains an invalid endpoint'' node_count e degrees) (\<lambda>counted.
       let pushed = adjacency[edge_from e := adjacency ! edge_from e @ [(edge_to e, edge_distance e, edge_id)]]
       in Inr (pushed[edge_to e := pushed ! edge_to e @ [(edge_from e, edge_distance e, edge_id)]], counted)))"

text \<open>The vectors of the traversal; the stack has its top first.\<close>

record euler_state =
  used_edges :: "bool list"
  cursors :: "usize list"
  euler_stack :: "usize list"
  reverse_tour :: "usize list"

function skip_used :: "bool list \<Rightarrow> (usize \<times> u64 \<times> usize) list \<Rightarrow> usize \<Rightarrow> usize" where
  "skip_used used entries cursor =
     (if cursor < length entries \<and> used ! snd (snd (entries ! cursor))
      then skip_used used entries (Suc cursor) else cursor)"
  by pat_completeness auto
termination
  by (relation "measure (\<lambda>(used, entries, cursor). length entries - cursor)") auto

declare skip_used.simps [simp del]

definition euler_step :: "euler_lists \<Rightarrow> euler_state \<Rightarrow> euler_state" where
  "euler_step adjacency st =
     (case euler_stack st of
        [] \<Rightarrow> st
      | vertex # below \<Rightarrow>
          let cursor = skip_used (used_edges st) (adjacency ! vertex) (cursors st ! vertex)
          in if cursor < length (adjacency ! vertex)
             then case adjacency ! vertex ! cursor of (next, _, edge_id) \<Rightarrow>
               st\<lparr>cursors := (cursors st)[vertex := cursor + 1],
                  used_edges := (used_edges st)[edge_id := True],
                  euler_stack := next # euler_stack st\<rparr>
             else st\<lparr>cursors := (cursors st)[vertex := cursor],
                  reverse_tour := reverse_tour st @ [vertex],
                  euler_stack := below\<rparr>)"

definition euler_start :: "usize \<Rightarrow> usize \<Rightarrow> usize \<Rightarrow> euler_state" where
  "euler_start node_count edge_count root =
     \<lparr>used_edges = replicate edge_count False, cursors = replicate node_count 0,
      euler_stack = [root], reverse_tour = []\<rparr>"

definition eulerian_multigraph_tour ::
  "usize \<Rightarrow> mst_edge list \<Rightarrow> usize \<Rightarrow> (solver_error + usize list) option" where
  "eulerian_multigraph_tour node_count edges root =
     (if node_count = 0 \<or> root \<ge> node_count
      then Some (Inl (InvalidConfiguration ''Euler tour root must be inside a non-empty graph''))
      else case fold_result (add_euler_edge node_count) (zip [0..<length edges] edges)
          (replicate node_count [], replicate node_count 0) of
          Inl e \<Rightarrow> Some (Inl e)
        | Inr (neighbors, degrees) \<Rightarrow>
            if list_ex (\<lambda>degree. degree mod 2 \<noteq> 0) degrees
            then Some (Inl (InvalidConfiguration ''Euler graph must have even degree at every vertex''))
            else
              let adjacency = map (sort_key (\<lambda>(vertex, distance, edge_id). (distance, vertex, edge_id))) neighbors in
              map_option (\<lambda>st.
                if False \<in> set (used_edges st) \<or>
                   \<not> list_all (\<lambda>vertex. vertex \<in> set (reverse_tour st)) [0..<node_count] \<or>
                   length (reverse_tour st) \<noteq> length edges + 1
                then Inl (InvalidConfiguration ''Euler graph must be connected'')
                else Inr (rev (reverse_tour st)))
              (while_option (\<lambda>st. euler_stack st \<noteq> []) (euler_step adjacency)
                (euler_start node_count (length edges) root)))"

section \<open>The generator\<close>

record christofides_result =
  chr_distance_strategy :: string
  chr_matching_strategy :: string
  chr_mst_edges :: "mst_edge list"
  chr_odd_vertices :: "usize list"
  chr_matching_edges :: "perfect_matching_edge list"
  chr_eulerian_edges :: "mst_edge list"
  chr_euler_tour :: "usize list"
  chr_solution :: solver_solution

definition fill_pair ::
  "distance_fn \<Rightarrow> usize list \<Rightarrow> usize \<Rightarrow> usize \<Rightarrow> u64 list list \<Rightarrow> solver_error + u64 list list" where
  "fill_pair distance odds left right table =
     bind_result (distance (odds ! left) (odds ! right)) (\<lambda>d.
       let half = table[left := (table ! left)[right := d]]
       in Inr (half[right := (half ! right)[left := d]]))"

definition odd_distances :: "distance_fn \<Rightarrow> usize list \<Rightarrow> solver_error + u64 list list" where
  "odd_distances distance odds =
     (let k = length odds in
      fold_result (\<lambda>left. fold_result (fill_pair distance odds left) [left + 1..<k]) [0..<k]
        (replicate k (replicate k 0)))"

definition insert_matched :: "perfect_matching_edge \<Rightarrow> usize set \<Rightarrow> solver_error + usize set" where
  "insert_matched e actual =
     (if match_left e = match_right e \<or> match_left e \<in> actual \<or> match_right e \<in> insert (match_left e) actual
      then Inl (InvalidConfiguration ''perfect matching must use every odd vertex exactly once'')
      else Inr (insert (match_right e) (insert (match_left e) actual)))"

definition validate_matching_result :: "usize list \<Rightarrow> perfect_matching_edge list \<Rightarrow> solver_error + unit" where
  "validate_matching_result odds matching =
     (if length matching * 2 \<noteq> length odds
      then Inl (InvalidConfiguration ''perfect matching does not cover every odd vertex'')
      else bind_result (fold_result insert_matched matching {}) (\<lambda>actual.
        if actual \<noteq> set odds
        then Inl (InvalidConfiguration ''perfect matching contains a non-odd vertex'')
        else Inr ()))"

definition move_fixed_destination_to_end :: "usize list \<Rightarrow> usize \<Rightarrow> solver_error + usize list" where
  "move_fixed_destination_to_end order destination =
     (if length order \<le> 1 then Inr order
      else bind_result (ok_or InvalidVisitOrder (position_of destination order)) (\<lambda>k.
        Inr (remove_at k order @ [destination])))"

text \<open>The closure handed to the tree: it polls the token before each distance.\<close>

definition polled_distance :: "symmetric_distance_strategy \<Rightarrow> solver_input \<Rightarrow> distance_fn" where
  "polled_distance strategy i left right =
     (if is_cancelled i (PollDistance left right) then Inl Cancelled
      else symmetric_distance strategy (input_matrix i) left right)"

definition as_mst_edge :: "perfect_matching_edge \<Rightarrow> mst_edge" where
  "as_mst_edge e = \<lparr>edge_from = match_left e, edge_to = match_right e, edge_distance = match_distance e\<rparr>"

text \<open>The part before the matching, and the part after it.\<close>

definition christofides_tree ::
  "symmetric_distance_strategy \<Rightarrow> solver_input \<Rightarrow> solver_error + mst_edge list \<times> usize list \<times> u64 list list" where
  "christofides_tree strategy i =
     bind_result (validate_generator_input i) (\<lambda>_.
     bind_result (minimum_spanning_tree (length (locations (input_problem i))) (polled_distance strategy i)) (\<lambda>edges.
     bind_result (odd_degree_vertices (length (locations (input_problem i))) edges) (\<lambda>odds.
     bind_result (odd_distances (symmetric_distance strategy (input_matrix i)) odds) (\<lambda>distances.
       Inr (edges, odds, distances)))))"

definition christofides_order ::
  "solver_input \<Rightarrow> mst_edge list \<Rightarrow> (solver_error + usize list \<times> usize list) option" where
  "christofides_order i eulerian =
     (let n = length (locations (input_problem i)) in
      map_option (\<lambda>toured.
        bind_result toured (\<lambda>tour.
        bind_result (shortcut_euler_tour n tour) (\<lambda>order.
        bind_result (move_fixed_destination_to_end order (end_location_index (input_problem i))) (\<lambda>visits.
          Inr (tour, visits)))))
      (eulerian_multigraph_tour n eulerian 0))"

definition christofides_generate_detailed ::
  "symmetric_distance_strategy \<Rightarrow> perfect_matching_strategy \<Rightarrow> solver_input \<Rightarrow>
    (solver_error + christofides_result) option" where
  "christofides_generate_detailed strategy matcher i =
     (case christofides_tree strategy i of
        Inl e \<Rightarrow> Some (Inl e)
      | Inr (edges, odds, distances) \<Rightarrow>
          case perfect_matching matcher odds distances of
            None \<Rightarrow> None
          | Some (Inl e) \<Rightarrow> Some (Inl e)
          | Some (Inr matching) \<Rightarrow>
              case validate_matching_result odds matching of
                Inl e \<Rightarrow> Some (Inl e)
              | Inr _ \<Rightarrow>
                  let eulerian = edges @ map as_mst_edge matching in
                  map_option (\<lambda>r. bind_result r (\<lambda>(tour, visits). Inr
                    \<lparr>chr_distance_strategy = distance_name strategy,
                     chr_matching_strategy = matching_name matcher (length odds),
                     chr_mst_edges = edges, chr_odd_vertices = odds, chr_matching_edges = matching,
                     chr_eulerian_edges = eulerian, chr_euler_tour = tour,
                     chr_solution = \<lparr>visit_order = visits\<rparr>\<rparr>))
                  (christofides_order i eulerian))"

definition christofides_route ::
  "symmetric_distance_strategy \<Rightarrow> perfect_matching_strategy \<Rightarrow> solver_input \<Rightarrow> (solver_error + solver_solution) option" where
  "christofides_route strategy matcher i =
     map_option (\<lambda>r. bind_result r (\<lambda>result. Inr (chr_solution result))) (christofides_generate_detailed strategy matcher i)"

section \<open>The random order\<close>

text \<open>
  \<open>SliceRandom::shuffle\<close> is a parameter: a function of the list and the state of the generator
  of random numbers, which it returns advanced.
\<close>

type_synonym 'g shuffle = "usize list \<Rightarrow> 'g \<Rightarrow> usize list \<times> 'g"

definition random_route :: "'g shuffle \<Rightarrow> solver_input \<Rightarrow> 'g \<Rightarrow> (solver_error + solver_solution) \<times> 'g" where
  "random_route shuffle i rng =
     (case validate_generator_input i of
        Inl e \<Rightarrow> (Inl e, rng)
      | Inr _ \<Rightarrow>
          let finish = end_location_index (input_problem i) in
          if finish = 0 then (Inr \<lparr>visit_order = [0]\<rparr>, rng)
          else case shuffle [1..<finish] rng of (intermediate, rng') \<Rightarrow>
            (Inr \<lparr>visit_order = start_location_index (input_problem i) # intermediate @ [finish]\<rparr>, rng'))"

end
