(* ===== verification/Annealing.thy ===== *)
theory Annealing
  imports Penalty Neighbor Christofides
begin

text \<open>
  \<open>src/solver/heuristic/annealing/config.rs\<close> and \<open>solver.rs\<close>: simulated annealing from an initial
  route, which keeps the best feasible route it has seen. The generator of random numbers, the
  clock and the exponential function are the environment; the start and the neighborhood are
  strategies, as in the code. A run that would not end is \<open>None\<close>.
\<close>

section \<open>Configuration\<close>

record simulated_annealing_config =
  initial_temperature :: float64
  cooling_rate :: float64
  minimum_temperature :: float64
  iteration_limit :: "u64 option"
  time_limit_ms :: "u64 option"
  sa_seed :: "u64 option"
  sa_penalties :: infeasible_penalty_weights

definition default_annealing_config :: simulated_annealing_config where
  "default_annealing_config =
     \<lparr>initial_temperature = literal 1000, cooling_rate = literal (995 / 1000),
      minimum_temperature = literal (1 / 100), iteration_limit = Some 10000, time_limit_ms = None,
      sa_seed = None, sa_penalties = default_penalty_weights\<rparr>"

definition validate_annealing_config ::
  "simulated_annealing_config \<Rightarrow> solver_error + simulated_annealing_config" where
  "validate_annealing_config c =
     (if \<not> is_finite64 (initial_temperature c) \<or> float_le (initial_temperature c) float_zero
      then Inl (InvalidConfiguration ''initial_temperature must be finite and positive'')
      else if \<not> is_finite64 (cooling_rate c) \<or>
        \<not> (float_le float_zero (cooling_rate c) \<and> float_less (cooling_rate c) float_one)
      then Inl (InvalidConfiguration ''cooling_rate must be finite and between 0 and 1'')
      else if \<not> is_finite64 (minimum_temperature c) \<or> float_le (minimum_temperature c) float_zero \<or>
        float_le (initial_temperature c) (minimum_temperature c)
      then Inl (InvalidConfiguration ''minimum_temperature must be positive and below initial_temperature'')
      else if iteration_limit c = Some 0
      then Inl (InvalidConfiguration ''iteration_limit must be positive when set'')
      else if time_limit_ms c = Some 0
      then Inl (InvalidConfiguration ''time_limit_ms must be positive when set'')
      else bind_result (validate_weights (sa_penalties c)) (\<lambda>_. Inr c))"

section \<open>The search\<close>

record 'g annealing_env =
  env_rng :: "'g rng"
  env_seeded :: "u64 \<Rightarrow> 'g"
  env_entropy :: 'g
  env_exp :: "float64 \<Rightarrow> float64"
  env_clock_ns :: "nat \<Rightarrow> nat"

text \<open>The trait \<open>InitialRouteStrategy\<close>, and the strategy that starts from a given route.\<close>

type_synonym 'g initial_route_strategy = "solver_input \<Rightarrow> 'g \<Rightarrow> (solver_error + solver_solution) option \<times> 'g"

definition fixed_initial_route :: "solver_solution \<Rightarrow> 'g initial_route_strategy" where
  "fixed_initial_route solution i g =
     (Some (if is_cancelled i PollGenerate then Inl Cancelled else Inr solution), g)"

record annealing_stats =
  stat_iterations :: u64
  stat_accepted :: u64
  stat_improved :: u64
  stat_swap :: u64
  stat_relocate :: u64
  stat_two_opt :: u64
  stat_insert_optional :: u64
  stat_remove_optional :: u64
  stat_replace_optional :: u64
  stat_accepted_worse :: u64
  stat_infeasible :: u64
  stat_accepted_infeasible :: u64
  stat_initial_temperature :: float64
  stat_final_temperature :: float64
  stat_cooling_rate :: float64
  stat_elapsed_ns :: nat

record simulated_annealing_result =
  sa_initial_solution :: solver_solution
  sa_initial_metrics :: "solution_metrics option"
  sa_solution :: solver_solution
  sa_metrics :: solution_metrics
  sa_stats :: annealing_stats

record annealing_search_state =
  current :: solver_solution
  current_evaluation :: penalized_route_evaluation
  best_feasible :: "(solver_solution \<times> solution_metrics) option"
  temperature :: float64
  iterations :: u64
  accepted_moves :: u64
  improved_moves :: u64
  swap_moves :: u64
  relocate_moves :: u64
  two_opt_moves :: u64
  insert_optional_moves :: u64
  remove_optional_moves :: u64
  replace_optional_moves :: u64
  accepted_worse_moves :: u64
  infeasible_candidates :: u64
  accepted_infeasible_moves :: u64
  interrupted :: bool

definition new_search_state ::
  "solver_solution \<Rightarrow> penalized_route_evaluation \<Rightarrow> float64 \<Rightarrow> annealing_search_state" where
  "new_search_state start evaluation temp =
     \<lparr>current = start, current_evaluation = evaluation,
      best_feasible = map_option (\<lambda>metrics. (start, metrics)) (feasible_metrics evaluation),
      temperature = temp, iterations = 0, accepted_moves = 0, improved_moves = 0, swap_moves = 0,
      relocate_moves = 0, two_opt_moves = 0, insert_optional_moves = 0, remove_optional_moves = 0,
      replace_optional_moves = 0, accepted_worse_moves = 0, infeasible_candidates = 0,
      accepted_infeasible_moves = 0, interrupted = False\<rparr>"

fun record_movement :: "neighborhood_move \<Rightarrow> annealing_search_state \<Rightarrow> annealing_search_state" where
  "record_movement (MoveSwap _ _) st = st\<lparr>swap_moves := swap_moves st + 1\<rparr>"
| "record_movement (MoveRelocate _ _) st = st\<lparr>relocate_moves := relocate_moves st + 1\<rparr>"
| "record_movement (MoveTwoOpt _ _) st = st\<lparr>two_opt_moves := two_opt_moves st + 1\<rparr>"
| "record_movement (InsertOptional _ _) st = st\<lparr>insert_optional_moves := insert_optional_moves st + 1\<rparr>"
| "record_movement (RemoveOptional _) st = st\<lparr>remove_optional_moves := remove_optional_moves st + 1\<rparr>"
| "record_movement (ReplaceOptional _ _) st = st\<lparr>replace_optional_moves := replace_optional_moves st + 1\<rparr>"

definition simulated_annealing_accept ::
  "(float64 \<Rightarrow> float64) \<Rightarrow> float64 \<Rightarrow> float64 \<Rightarrow> float64 \<Rightarrow> bool" where
  "simulated_annealing_accept expo delta temp unit \<longleftrightarrow>
     float_le delta float_zero \<or>
     (float_less float_zero temp \<and> (float_le float_zero unit \<and> float_less unit float_one) \<and>
      float_less unit (expo (float_div (float_neg delta) temp)))"

definition note_feasible ::
  "objective_policy \<Rightarrow> solver_solution \<Rightarrow> penalized_route_evaluation \<Rightarrow> annealing_search_state \<Rightarrow> annealing_search_state" where
  "note_feasible obj candidate evaluation st =
     (case feasible_metrics evaluation of
        None \<Rightarrow> st
      | Some metrics \<Rightarrow>
          if (case best_feasible st of Some (_, best) \<Rightarrow> compare obj metrics best = Less | None \<Rightarrow> True)
          then st\<lparr>best_feasible := Some (candidate, metrics)\<rparr> else st)"

definition accept_candidate ::
  "solver_solution \<Rightarrow> penalized_route_evaluation \<Rightarrow> float64 \<Rightarrow> annealing_search_state \<Rightarrow> annealing_search_state" where
  "accept_candidate candidate evaluation delta st =
     st\<lparr>accepted_moves := accepted_moves st + 1,
        improved_moves := (if float_less delta float_zero then improved_moves st + 1 else improved_moves st),
        accepted_worse_moves := (if \<not> float_less delta float_zero \<and> float_less float_zero delta
          then accepted_worse_moves st + 1 else accepted_worse_moves st),
        accepted_infeasible_moves := (if \<not> pen_feasible evaluation
          then accepted_infeasible_moves st + 1 else accepted_infeasible_moves st),
        current := candidate, current_evaluation := evaluation\<rparr>"

definition consider_candidate ::
  "objective_policy \<Rightarrow> (float64 \<Rightarrow> float64) \<Rightarrow> solver_solution \<Rightarrow> penalized_route_evaluation \<Rightarrow> float64 \<Rightarrow>
    annealing_search_state \<Rightarrow> annealing_search_state" where
  "consider_candidate obj expo candidate evaluation unit st =
     (let counted = (if \<not> pen_feasible evaluation
            then st\<lparr>infeasible_candidates := infeasible_candidates st + 1\<rparr> else st);
          noted = note_feasible obj candidate evaluation counted;
          delta = float_sub (energy evaluation) (energy (current_evaluation noted))
      in if simulated_annealing_accept expo delta (temperature noted) unit
         then accept_candidate candidate evaluation delta noted else noted)"

definition finish_iteration :: "float64 \<Rightarrow> annealing_search_state \<Rightarrow> annealing_search_state" where
  "finish_iteration rate st =
     st\<lparr>iterations := iterations st + 1, temperature := float_mul (temperature st) rate\<rparr>"

definition annealing_stats_of ::
  "simulated_annealing_config \<Rightarrow> nat \<Rightarrow> annealing_search_state \<Rightarrow> annealing_stats" where
  "annealing_stats_of c elapsed st =
     \<lparr>stat_iterations = iterations st, stat_accepted = accepted_moves st, stat_improved = improved_moves st,
      stat_swap = swap_moves st, stat_relocate = relocate_moves st, stat_two_opt = two_opt_moves st,
      stat_insert_optional = insert_optional_moves st, stat_remove_optional = remove_optional_moves st,
      stat_replace_optional = replace_optional_moves st, stat_accepted_worse = accepted_worse_moves st,
      stat_infeasible = infeasible_candidates st, stat_accepted_infeasible = accepted_infeasible_moves st,
      stat_initial_temperature = initial_temperature c, stat_final_temperature = temperature st,
      stat_cooling_rate = cooling_rate c, stat_elapsed_ns = elapsed\<rparr>"

section \<open>The loop\<close>

datatype run_status = Running | Stopped | Raised solver_error | Hanging

record 'g annealing_run =
  run_search :: annealing_search_state
  run_rng :: 'g
  run_status :: run_status

definition optional_limit_allows :: "u64 option \<Rightarrow> u64 \<Rightarrow> bool" where
  "optional_limit_allows limit reached = (case limit of Some n \<Rightarrow> reached < n | None \<Rightarrow> True)"

definition optional_duration_allows :: "nat option \<Rightarrow> nat \<Rightarrow> bool" where
  "optional_duration_allows limit elapsed = (case limit of Some n \<Rightarrow> elapsed < n | None \<Rightarrow> True)"

text \<open>The condition of the loop; the clock is read once per iteration.\<close>

definition annealing_continues :: "simulated_annealing_config \<Rightarrow> (nat \<Rightarrow> nat) \<Rightarrow> annealing_search_state \<Rightarrow> bool" where
  "annealing_continues c clock_ns st \<longleftrightarrow>
     optional_limit_allows (iteration_limit c) (iterations st) \<and>
     optional_duration_allows (map_option (\<lambda>ms. ms * 1000000) (time_limit_ms c)) (clock_ns (iterations st)) \<and>
     float_le (minimum_temperature c) (temperature st)"

definition annealing_step ::
  "'g annealing_env \<Rightarrow> objective_policy \<Rightarrow> 'g neighborhood_strategy \<Rightarrow> simulated_annealing_config \<Rightarrow> solver_input \<Rightarrow>
    'g annealing_run \<Rightarrow> 'g annealing_run" where
  "annealing_step env obj neighbor c i r =
     (let st = run_search r in
      if is_cancelled i (PollLoop (iterations st))
      then r\<lparr>run_search := st\<lparr>interrupted := True\<rparr>, run_status := Stopped\<rparr>
      else case neighbor (visit_order (current st)) (input_problem i) (run_rng r) of
          None \<Rightarrow> r\<lparr>run_status := Hanging\<rparr>
        | Some (None, g) \<Rightarrow> r\<lparr>run_rng := g, run_status := Stopped\<rparr>
        | Some (Some (order, movement), g) \<Rightarrow>
            let counted = record_movement movement st; candidate = \<lparr>visit_order = order\<rparr> in
            case evaluate_solution_with_penalties obj (inner_input (iterations st + 4) i) candidate (sa_penalties c) of
              Inl Cancelled \<Rightarrow> r\<lparr>run_search := counted\<lparr>interrupted := True\<rparr>, run_rng := g, run_status := Stopped\<rparr>
            | Inl e \<Rightarrow> r\<lparr>run_search := counted, run_rng := g, run_status := Raised e\<rparr>
            | Inr evaluation \<Rightarrow>
                let (unit, g') = gen_unit (env_rng env) g in
                r\<lparr>run_search := finish_iteration (cooling_rate c)
                     (consider_candidate obj (env_exp env) candidate evaluation unit counted),
                  run_rng := g'\<rparr>)"

definition annealing_loop ::
  "'g annealing_env \<Rightarrow> objective_policy \<Rightarrow> 'g neighborhood_strategy \<Rightarrow> simulated_annealing_config \<Rightarrow> solver_input \<Rightarrow>
    'g annealing_run \<Rightarrow> 'g annealing_run option" where
  "annealing_loop env obj neighbor c i =
     while_option (\<lambda>r. run_status r = Running \<and> annealing_continues c (env_clock_ns env) (run_search r))
       (annealing_step env obj neighbor c i)"

section \<open>The solver\<close>

definition is_structurally_valid_initial_solution :: "solver_solution \<Rightarrow> optimization_problem \<Rightarrow> bool" where
  "is_structurally_valid_initial_solution sol p =
     (let n = length (locations p); order = visit_order sol in
      if (visit_policy p = AllRequired \<and> length order \<noteq> n) \<or> length order < 2 \<or>
         get order 0 \<noteq> Some 0 \<or> n = 0 \<or> get order (length order - 1) \<noteq> Some (n - 1)
      then False
      else case mark_all (replicate n False) order of
          None \<Rightarrow> False
        | Some seen \<Rightarrow> list_all (\<lambda>k. \<not> required (locations p ! k) \<or> seen ! k) [0..<n])"

text \<open>After the loop: the best feasible route, evaluated once more unless the run was cancelled.\<close>

definition annealing_finish ::
  "'g annealing_env \<Rightarrow> objective_policy \<Rightarrow> simulated_annealing_config \<Rightarrow> solver_input \<Rightarrow> solver_solution \<Rightarrow>
    solution_metrics option \<Rightarrow> annealing_search_state \<Rightarrow> solver_error + simulated_annealing_result" where
  "annealing_finish env obj c i start start_metrics st =
     (case best_feasible st of
        None \<Rightarrow> Inl NoFeasibleRoute
      | Some (solution, metrics) \<Rightarrow>
          bind_result (if interrupted st \<or> is_cancelled i PollEnd then Inr metrics
              else evaluate_solution obj (inner_input 3 i) solution) (\<lambda>verified.
            Inr \<lparr>sa_initial_solution = start, sa_initial_metrics = start_metrics, sa_solution = solution,
                 sa_metrics = verified, sa_stats = annealing_stats_of c (env_clock_ns env (iterations st + 1)) st\<rparr>))"

definition annealing_search ::
  "'g annealing_env \<Rightarrow> objective_policy \<Rightarrow> 'g neighborhood_strategy \<Rightarrow> simulated_annealing_config \<Rightarrow> solver_input \<Rightarrow>
    solver_solution \<Rightarrow> 'g \<Rightarrow> (solver_error + simulated_annealing_result) option" where
  "annealing_search env obj neighbor c i start g =
     (case evaluate_solution_with_penalties obj (inner_input 2 i) start (sa_penalties c) of
        Inl e \<Rightarrow> Some (Inl e)
      | Inr evaluation \<Rightarrow>
          case annealing_loop env obj neighbor c i
              \<lparr>run_search = new_search_state start evaluation (initial_temperature c), run_rng = g, run_status = Running\<rparr> of
            None \<Rightarrow> None
          | Some r \<Rightarrow> (case run_status r of
              Hanging \<Rightarrow> None
            | Raised e \<Rightarrow> Some (Inl e)
            | _ \<Rightarrow> Some (annealing_finish env obj c i start (feasible_metrics evaluation) (run_search r))))"

definition annealing_start ::
  "'g initial_route_strategy \<Rightarrow> 'g shuffle \<Rightarrow> solver_input \<Rightarrow> 'g \<Rightarrow> (solver_error + solver_solution) option \<times> 'g" where
  "annealing_start initial shuffle i g =
     (case initial (inner_input 0 i) g of
        (Some (Inr start), g') \<Rightarrow>
          if is_structurally_valid_initial_solution start (input_problem i) then (Some (Inr start), g')
          else map_prod Some id (random_route shuffle (inner_input 1 i) g')
      | other \<Rightarrow> other)"

definition seeded_rng :: "'g annealing_env \<Rightarrow> simulated_annealing_config \<Rightarrow> 'g" where
  "seeded_rng env c = (case sa_seed c of Some seed \<Rightarrow> env_seeded env seed | None \<Rightarrow> env_entropy env)"

definition annealing_solve_detailed ::
  "'g annealing_env \<Rightarrow> objective_policy \<Rightarrow> 'g initial_route_strategy \<Rightarrow> 'g shuffle \<Rightarrow> 'g neighborhood_strategy \<Rightarrow>
    simulated_annealing_config \<Rightarrow> solver_input \<Rightarrow> (solver_error + simulated_annealing_result) option" where
  "annealing_solve_detailed env obj initial shuffle neighbor config i =
     (case validate_annealing_config config of
        Inl e \<Rightarrow> Some (Inl e)
      | Inr c \<Rightarrow>
          let n = length (locations (input_problem i)) in
          if is_cancelled i PollStart then Some (Inl Cancelled)
          else if matrix_size (input_matrix i) \<noteq> n then Some (Inl (MatrixSizeMismatch (matrix_size (input_matrix i)) n))
          else case annealing_start initial shuffle i (seeded_rng env c) of
            (None, _) \<Rightarrow> None
          | (Some (Inl e), _) \<Rightarrow> Some (Inl e)
          | (Some (Inr start), g) \<Rightarrow> annealing_search env obj neighbor c i start g)"

definition annealing_solve ::
  "'g annealing_env \<Rightarrow> objective_policy \<Rightarrow> 'g initial_route_strategy \<Rightarrow> 'g shuffle \<Rightarrow> 'g neighborhood_strategy \<Rightarrow>
    simulated_annealing_config \<Rightarrow> solver_input \<Rightarrow> (solver_error + solver_solution) option" where
  "annealing_solve env obj initial shuffle neighbor config i =
     map_option (\<lambda>r. bind_result r (\<lambda>result. Inr (sa_solution result)))
       (annealing_solve_detailed env obj initial shuffle neighbor config i)"

end
