(* ===== verification/Float64_Facts.thy ===== *)
theory Float64_Facts
  imports Float64
begin

text \<open>
  What rounding keeps: a result has 53 binary digits again, rounding is monotone against integers
  of the last place, and a float in the normal range shrinks strictly when it is multiplied by a
  float below one. The last fact is what makes a cooling schedule end.
\<close>

section \<open>Rounding to an integer\<close>

lemma round_even_le:
  assumes "q < of_int n + 1 / 2"
  shows "round_even q \<le> n"
proof -
  have f: "of_int \<lfloor>q\<rfloor> \<le> q" "q < of_int \<lfloor>q\<rfloor> + 1" by linarith+
  have "\<lfloor>q\<rfloor> < n + 1" using assms f(1) by linarith
  then consider "\<lfloor>q\<rfloor> = n" | "\<lfloor>q\<rfloor> + 1 \<le> n" by linarith
  then show ?thesis
  proof cases
    case 1
    then have "q - of_int \<lfloor>q\<rfloor> < 1 / 2" using assms by linarith
    then show ?thesis using 1 by (simp add: round_even_def Let_def)
  qed (auto simp: round_even_def Let_def)
qed

lemma round_even_le_int: "q \<le> of_int n \<Longrightarrow> round_even q \<le> n"
  by (rule round_even_le) simp

lemma round_even_ge:
  assumes "of_int n \<le> q"
  shows "n \<le> round_even q"
proof -
  have "n \<le> \<lfloor>q\<rfloor>" using assms by (simp add: le_floor_iff)
  then show ?thesis by (auto simp: round_even_def Let_def)
qed

lemma two_to_52: "two_to (52 + e) = 2 ^ 52 * two_to e"
  and two_to_53: "two_to (53 + e) = 2 ^ 53 * two_to e"
  by (rule two_to_plus)+

section \<open>Floats\<close>

definition representable :: "rat \<Rightarrow> bool" where
  "representable m \<longleftrightarrow> (\<exists>n e. 0 \<le> n \<and> n < 2 ^ 53 \<and> - 1074 \<le> e \<and> m = of_int n * two_to e)"

definition valid_float :: "float64 \<Rightarrow> bool" where
  "valid_float x = (case x of Finite64 _ a \<Rightarrow> representable a \<and> a < overflow64 | _ \<Rightarrow> True)"

lemma representable_nonneg: "representable m \<Longrightarrow> 0 \<le> m"
  by (auto simp: representable_def less_imp_le)

lemma representable_zero: "representable 0"
  unfolding representable_def by (intro exI [of _ 0] exI [of _ 0]) simp

lemma round_magnitude_bounds:
  assumes "0 < m"
  shows "0 \<le> round_even (m / last_place m)" "round_even (m / last_place m) \<le> 2 ^ 53"
proof -
  have p: "0 < last_place m" by (simp add: last_place_def)
  show "0 \<le> round_even (m / last_place m)" using assms p by (intro round_even_ge) simp
  have "m < two_to (leading m + 1)" by (rule leading_bounds(2) [OF assms])
  also have "\<dots> \<le> two_to (53 + (max (leading m) (- 1022) - 52))" by (intro two_to_mono) simp
  also have "\<dots> = 2 ^ 53 * last_place m" unfolding two_to_plus last_place_def ..
  finally have "m / last_place m \<le> of_int (2 ^ 53)" using p by (simp add: divide_le_eq)
  then show "round_even (m / last_place m) \<le> 2 ^ 53" by (rule round_even_le_int)
qed

lemma round_magnitude_representable:
  assumes "0 \<le> m"
  shows "representable (round_magnitude m)"
proof (cases "m = 0")
  case True
  then show ?thesis by (simp add: round_magnitude_def representable_zero)
next
  case False
  define n e where "n = round_even (m / last_place m)" and "e = max (leading m) (- 1022) - 52"
  have n: "0 \<le> n" "n \<le> 2 ^ 53" using round_magnitude_bounds [of m] assms False by (auto simp: n_def)
  have r: "round_magnitude m = of_int n * two_to e"
    using False by (simp add: round_magnitude_def n_def e_def last_place_def)
  have e: "- 1074 \<le> e" by (simp add: e_def)
  show ?thesis
  proof (cases "n = 2 ^ 53")
    case True
    have "of_int n * two_to e = of_int (2 ^ 52) * two_to (e + 1)"
      unfolding True two_to_add by (simp add: two_to_def)
    then show ?thesis using r e unfolding representable_def by (intro exI [of _ "2 ^ 52"] exI [of _ "e + 1"]) simp
  next
    case False
    then show ?thesis using r e n unfolding representable_def by (intro exI [of _ n] exI [of _ e]) simp
  qed
qed

text \<open>A float in the normal range has exactly 53 binary digits.\<close>

lemma normalized:
  assumes "representable x" and "0 < x"
  obtains M where "M < 2 ^ 53" "2 ^ 52 \<le> M" "x = of_int M * two_to (leading x - 52)"
proof -
  obtain n k where x: "0 \<le> n" "n < 2 ^ 53" "- 1074 \<le> k" "x = of_int n * two_to k"
    using assms(1) by (auto simp: representable_def)
  define e where "e = leading x"
  note b = leading_bounds [OF assms(2), folded e_def]
  have "two_to e < two_to (53 + k)"
  proof -
    have "x < of_int (2 ^ 53) * two_to k" unfolding x(4) using x(2) by (intro mult_strict_right_mono) (simp_all only: of_int_less_iff two_to_pos)
    also have "\<dots> = two_to (53 + k)" unfolding two_to_plus by simp
    finally show ?thesis using b(1) by simp
  qed
  then have "e < 53 + k" using two_to_mono [of "53 + k" e] by (meson leD leI)
  then have d: "0 \<le> k - (e - 52)" by simp
  define M where "M = n * 2 ^ nat (k - (e - 52))"
  have "two_to k = 2 ^ nat (k - (e - 52)) * two_to (e - 52)"
    using d two_to_add [of "k - (e - 52)" "e - 52"] by (simp add: two_to_def)
  then have xM: "x = of_int M * two_to (e - 52)" by (simp add: x(4) M_def)
  have "of_int (2 ^ 52) * two_to (e - 52) \<le> of_int M * two_to (e - 52)"
    using b(1) two_to_52 [of "e - 52"] by (simp add: xM [symmetric])
  then have "(of_int (2 ^ 52) :: rat) \<le> of_int M" by (simp only: mult_le_cancel_right_pos [OF two_to_pos])
  moreover have "of_int M * two_to (e - 52) < of_int (2 ^ 53) * two_to (e - 52)"
    using b(2) two_to_53 [of "e - 52"] by (simp add: xM [symmetric] add.commute)
  then have "(of_int M :: rat) < of_int (2 ^ 53)" by (simp only: mult_less_cancel_right_pos [OF two_to_pos])
  ultimately show thesis using that xM unfolding e_def by (simp only: of_int_le_iff of_int_less_iff)
qed

lemma representable_below_one:
  assumes "representable r" and "r < 1"
  shows "r \<le> 1 - 1 / 2 ^ 53"
proof (cases "r < 1 / 2")
  case True
  have "(1 :: rat) / 2 \<le> 1 - 1 / 2 ^ 53" by simp
  with True show ?thesis by linarith
next
  case False
  have "leading r = - 1"
    using False assms(2) by (intro leading_eq) (simp_all add: two_to_def)
  moreover obtain M where M: "M < 2 ^ 53" "r = of_int M * two_to (leading r - 52)"
    using normalized [OF assms(1)] False by (metis half_gt_zero_iff linorder_not_less not_less_iff_gr_or_eq order_less_trans zero_less_one)
  ultimately have r: "r = of_int M / 2 ^ 53" by (simp add: two_to_def)
  have "of_int M \<le> (of_int (2 ^ 53 - 1) :: rat)" using M(1) by (simp only: of_int_le_iff)
  then show ?thesis by (simp add: r field_simps)
qed

section \<open>Cooling\<close>

lemma round_magnitude_le:
  assumes "0 < m" and "m / last_place m < of_int n + 1 / 2"
  shows "round_magnitude m \<le> of_int n * last_place m"
proof -
  have "(of_int (round_even (m / last_place m)) :: rat) \<le> of_int n"
    using round_even_le [OF assms(2)] by (simp only: of_int_le_iff)
  then show ?thesis
    using assms(1) by (simp add: round_magnitude_def last_place_def mult_right_mono less_imp_le)
qed

lemma round_shrinks:
  assumes x: "representable x" "two_to (- 1021) \<le> x" and r: "0 \<le> r" "r \<le> 1 - 1 / 2 ^ 53"
  shows "round_magnitude (x * r) < x"
proof (cases "x * r = 0")
  case True
  have "0 < x" using x(2) two_to_pos [of "- 1021"] by linarith
  then show ?thesis using True by (simp add: round_magnitude_def)
next
  case False
  have xp: "0 < x" using x(2) two_to_pos [of "- 1021"] by linarith
  define e z where "e = leading x" and "z = x * r"
  have z: "0 < z" using False xp r(1) by (simp add: z_def mult_nonneg_nonneg less_le)
  obtain M where M: "M < 2 ^ 53" "2 ^ 52 \<le> M" "x = of_int M * two_to (e - 52)"
    using normalized [OF x(1) xp] unfolding e_def by blast
  note b = leading_bounds [OF xp, folded e_def]
  have e: "- 1021 \<le> e"
  proof (rule ccontr)
    assume "\<not> ?thesis"
    then have "two_to (e + 1) \<le> two_to (- 1021)" by (intro two_to_mono) simp
    then show False using b(2) x(2) by linarith
  qed
  have top: "two_to e = 2 ^ 52 * two_to (e - 52)" using two_to_52 [of "e - 52"] by simp
  have zx: "z \<le> x * (1 - 1 / 2 ^ 53)" unfolding z_def using r(2) xp by (intro mult_left_mono) auto
  have "x * (1 - 1 / 2 ^ 53) < x" using xp by (simp add: algebra_simps)
  then have less: "z < x" using zx by linarith
  have lz: "leading z \<le> e"
  proof (rule ccontr)
    assume "\<not> ?thesis"
    then have "two_to (e + 1) \<le> two_to (leading z)" by (intro two_to_mono) simp
    then show False using leading_bounds(1) [OF z] b(2) less by linarith
  qed
  text \<open>A power of two that is a multiple of the last place of \<open>z\<close> bounds the rounded value.\<close>
  have grid: "round_magnitude z \<le> of_int N * two_to d" if "z \<le> of_int N * two_to d" "max (leading z) (- 1022) - 52 \<le> d" for N d
  proof -
    define k where "k = nat (d - (max (leading z) (- 1022) - 52))"
    have d: "two_to d = of_int (2 ^ k) * last_place z"
      using that(2) two_to_add [of "int k" "max (leading z) (- 1022) - 52"]
      by (simp add: last_place_def k_def two_to_nat [symmetric])
    have "z / last_place z \<le> of_int (N * 2 ^ k)"
      using that(1) unfolding d by (simp add: divide_le_eq last_place_def mult.assoc)
    then have "z / last_place z < of_int (N * 2 ^ k) + 1 / 2" by linarith
    from round_magnitude_le [OF z this] show ?thesis unfolding d by (simp add: mult.assoc)
  qed
  show ?thesis
  proof (cases "M = 2 ^ 52")
    case True
    have xe: "x = two_to e" unfolding M(3) True top by simp
    have half: "two_to e = 2 ^ 53 * two_to (e - 53)" using two_to_53 [of "e - 53"] by simp
    have "x * (1 - 1 / 2 ^ 53) = of_int (2 ^ 53 - 1) * two_to (e - 53)" unfolding xe half by (simp add: field_simps)
    then have zh: "z \<le> of_int (2 ^ 53 - 1) * two_to (e - 53)" using zx by simp
    have "leading z < e"
    proof (rule ccontr)
      assume "\<not> ?thesis"
      then have "two_to e \<le> two_to (leading z)" by (intro two_to_mono) simp
      then show False using leading_bounds(1) [OF z] less xe by linarith
    qed
    then have "round_magnitude z \<le> of_int (2 ^ 53 - 1) * two_to (e - 53)" using zh e by (intro grid) auto
    also have "\<dots> < 2 ^ 53 * two_to (e - 53)" by (intro mult_strict_right_mono) auto
    finally have "round_magnitude z < x" unfolding xe half .
    then show ?thesis unfolding z_def .
  next
    case False
    then have big: "2 ^ 52 + 1 \<le> M" using M(2) by simp
    show ?thesis
    proof (cases "leading z = e")
      case True
      have place: "last_place z = two_to (e - 52)" using e by (simp add: last_place_def True)
      have "z \<le> of_int M * (1 - 1 / 2 ^ 53) * two_to (e - 52)" using zx by (simp add: M(3) mult.commute mult.left_commute)
      then have "z / last_place z \<le> of_int M * (1 - 1 / 2 ^ 53)" unfolding place by (simp add: divide_le_eq)
      moreover have "(of_int (2 ^ 52 + 1) :: rat) \<le> of_int M" using big by (simp only: of_int_le_iff)
      then have "of_int M * (1 - 1 / 2 ^ 53 :: rat) < of_int (M - 1) + 1 / 2" by (simp add: field_simps)
      ultimately have "z / last_place z < of_int (M - 1) + 1 / 2" by linarith
      from round_magnitude_le [OF z this] have "round_magnitude z \<le> of_int (M - 1) * two_to (e - 52)" unfolding place .
      also have "\<dots> < x" unfolding M(3) by (intro mult_strict_right_mono) auto
      finally show ?thesis unfolding z_def .
    next
      case False
      then have lt: "leading z < e" using lz by simp
      have "z < two_to (leading z + 1)" by (rule leading_bounds(2) [OF z])
      also have "\<dots> \<le> two_to e" using lt by (intro two_to_mono) simp
      finally have "z \<le> of_int (2 ^ 52) * two_to (e - 52)" unfolding top by simp
      then have "round_magnitude z \<le> of_int (2 ^ 52) * two_to (e - 52)" using lt e by (intro grid) auto
      also have "\<dots> < of_int M * two_to (e - 52)" using big by (intro mult_strict_right_mono) (simp_all only: of_int_less_iff two_to_pos)
      finally show ?thesis unfolding z_def M(3) .
    qed
  qed
qed

text \<open>How many floats lie below a float: a measure for loops that go down.\<close>

definition grid_steps :: "rat \<Rightarrow> nat" where
  "grid_steps m = nat \<lfloor>m * 2 ^ 1074\<rfloor>"

lemma grid_steps_less:
  assumes "representable x" and "representable y" and "y < x"
  shows "grid_steps y < grid_steps x"
proof -
  have whole: "\<exists>k. 0 \<le> k \<and> m * 2 ^ 1074 = of_int k" if m: "representable m" for m
  proof -
    obtain n e where n: "0 \<le> n" "- 1074 \<le> e" "m = of_int n * two_to e" using m by (auto simp: representable_def)
    have "two_to e * 2 ^ 1074 = two_to (e + int 1074)" by (simp only: two_to_add two_to_nat)
    also have "\<dots> = of_int (2 ^ nat (e + 1074))" using n(2) by (simp add: two_to_def)
    finally have "m * 2 ^ 1074 = of_int (n * 2 ^ nat (e + 1074))" by (simp only: n(3) mult.assoc of_int_mult)
    then show ?thesis using n(1) by (intro exI [of _ "n * 2 ^ nat (e + 1074)"]) simp
  qed
  obtain a b where a: "0 \<le> a" "x * 2 ^ 1074 = of_int a" and b: "0 \<le> b" "y * 2 ^ 1074 = of_int b"
    using whole assms(1,2) by blast
  have "y * 2 ^ 1074 < x * 2 ^ 1074" using assms(3) by (intro mult_strict_right_mono) simp_all
  then have "b < a" unfolding a(2) b(2) by simp
  then show ?thesis unfolding grid_steps_def a(2) b(2) using b(1) by simp
qed

section \<open>Literals\<close>

lemma round_even_int [simp]: "round_even (of_int k) = k"
  by (simp add: round_even_def)

lemma round_representable:
  assumes "representable m"
  shows "round_magnitude m = m"
proof (cases "m = 0")
  case False
  have m: "0 < m" using representable_nonneg [OF assms] False by simp
  have "\<exists>k. m = of_int k * last_place m"
  proof (cases "- 1022 \<le> leading m")
    case True
    then show ?thesis by (rule_tac normalized [OF assms m]) (auto simp: last_place_def max_def)
  next
    case low: False
    obtain n e where n: "- 1074 \<le> e" "m = of_int n * two_to e" using assms by (auto simp: representable_def)
    obtain k where "e + 1074 = int k" using n(1) zero_le_imp_eq_int [of "e + 1074"] by auto
    then have e: "e = int k + - 1074" by simp
    have "m = of_int (n * 2 ^ k) * two_to (- 1074)" unfolding n(2) e two_to_add two_to_nat by simp
    then show ?thesis using low by (intro exI [of _ "n * 2 ^ k"]) (simp add: last_place_def max_def)
  qed
  then obtain k where k: "m = of_int k * last_place m" by blast
  have "last_place m \<noteq> 0" by (simp add: last_place_def)
  then have "m / last_place m = of_int k" by (subst k) simp
  then show ?thesis using False k by (simp add: round_magnitude_def)
qed (simp add: round_magnitude_def)

lemma representable_nat: "n < 2 ^ 53 \<Longrightarrow> representable (of_nat n)"
  unfolding representable_def by (intro exI [of _ "int n"] exI [of _ 0]) (simp add: two_to_def)

lemma literal_whole:
  assumes "n < 2 ^ 53"
  shows "literal (of_nat n) = Finite64 False (of_nat n)"
proof -
  have "(of_nat n :: rat) < of_nat (2 ^ 53)" using assms by (simp only: of_nat_less_iff)
  also have "(of_nat (2 ^ 53) :: rat) \<le> overflow64" by (simp add: overflow64_def)
  finally show ?thesis
    using round_representable [OF representable_nat [OF assms]]
    by (simp add: literal_def float_of_def float_magnitude_def Let_def)
qed

lemma literal_numeral:
  "(numeral k :: nat) < 2 ^ 53 \<Longrightarrow> literal (numeral k) = Finite64 False (numeral k)"
  "literal 1 = Finite64 False 1"
  using literal_whole [of "numeral k"] literal_whole [of 1] by simp_all

text \<open>A fraction is rounded within its binade.\<close>

lemma literal_fraction:
  assumes e: "two_to e \<le> m" "m < two_to (e + 1)" "- 1022 \<le> e" and n: "m \<le> of_int n * two_to (e - 52)"
    and small: "of_int n * two_to (e - 52) < overflow64"
  obtains r where "literal m = Finite64 False r" "two_to e \<le> r" "r \<le> of_int n * two_to (e - 52)" "representable r"
proof
  have lp: "last_place m = two_to (e - 52)" using leading_eq [OF e(1,2)] e(3) by (simp add: last_place_def)
  have pos: "0 < m" using e(1) two_to_pos [of e] by linarith
  have one: "two_to e = of_int (2 ^ 52) * two_to (e - 52)" using two_to_52 [of "e - 52"] by simp
  then have "of_int (2 ^ 52) \<le> m / two_to (e - 52)" using e(1) by (simp add: le_divide_eq)
  then have "(of_int (2 ^ 52) :: rat) \<le> of_int (round_even (m / two_to (e - 52)))"
    by (simp only: of_int_le_iff round_even_ge)
  then show "two_to e \<le> round_magnitude m"
    unfolding one round_magnitude_def lp if_not_P [OF less_imp_neq [OF pos, symmetric]]
    by (rule mult_right_mono) (simp add: less_imp_le)
  have "m / two_to (e - 52) \<le> of_int n" using n by (simp add: divide_le_eq)
  then show up: "round_magnitude m \<le> of_int n * two_to (e - 52)"
    using round_magnitude_le [OF pos, of n] by (simp add: lp)
  show "representable (round_magnitude m)" using pos by (intro round_magnitude_representable) simp
  show "literal m = Finite64 False (round_magnitude m)"
    using pos up small by (simp add: literal_def float_of_def float_magnitude_def Let_def)
qed
end
