(* ===== verification/Penalty_Facts.thy ===== *)
theory Penalty_Facts
  imports Penalty Float64_Facts
begin

text \<open>
  The penalized evaluation agrees with the common evaluator: a route it accepts breaks none of
  the counted constraints, so the shortcut past the evaluator never hides a feasible route.
\<close>

lemma saturating_add_zero [simp]: "saturating_add_u32 a 0 = min a u32_max" "saturating_add_u32 0 a = min a u32_max"
  by (simp_all add: saturating_add_u32_def u32_max_def)

lemma saturating_mul_zero [simp]: "saturating_mul_u32 0 a = 0"
  by (simp add: saturating_mul_u32_def)

lemma mark_visits:
  assumes "distinct order" and "\<forall>k\<in>set order. k < n \<and> \<not> seen ! k" and "length seen = n"
  shows "\<exists>seen'. fold (mark_visit n) order (v, seen) = (v, seen') \<and> length seen' = n \<and>
    (\<forall>k<n. seen' ! k \<longleftrightarrow> seen ! k \<or> k \<in> set order)"
  using assms
proof (induction order arbitrary: seen)
  case (Cons a order)
  have "mark_visit n a (v, seen) = (v, seen[a := True])"
    using Cons.prems by (simp add: mark_visit_def)
  moreover have "\<forall>k\<in>set order. k < n \<and> \<not> seen[a := True] ! k"
    using Cons.prems by (auto simp: nth_list_update)
  ultimately show ?case
    using Cons.IH [of "seen[a := True]"] Cons.prems by (fastforce simp: nth_list_update)
qed simp

lemma valid_order_violations:
  assumes "valid_order p order"
  shows "order_violations p order = 0"
proof -
  let ?n = "length (locations p)"
  have v: "order \<noteq> []" "hd order = 0" "List.last order = ?n - 1" "distinct order" "set order \<subseteq> {..<?n}"
    "\<And>k. k < ?n \<Longrightarrow> required (locations p ! k) \<Longrightarrow> k \<in> set order"
    "visit_policy p = AllRequired \<Longrightarrow> set order = {..<?n}"
    using assms unfolding valid_order_def Let_def by blast+
  have len: "length order = ?n" if "visit_policy p = AllRequired"
    using distinct_card [OF v(4)] v(7) [OF that] by simp
  have start: "(if visit_policy p = AllRequired
      then ((length order - ?n) + (?n - length order)) mod 2 ^ 32 else 0) = 0"
    using len by auto
  have "\<forall>k\<in>set order. k < ?n \<and> \<not> replicate ?n False ! k" using v(5) by auto
  from mark_visits [OF v(4) this, of 0] obtain seen where seen:
    "fold (mark_visit ?n) order (0, replicate ?n False) = (0, seen)" "length seen = ?n"
    "\<And>k. k < ?n \<Longrightarrow> seen ! k \<longleftrightarrow> replicate ?n False ! k \<or> k \<in> set order"
    by auto
  have "filter (\<lambda>k. required (locations p ! k) \<and> \<not> seen ! k) [0..<?n] = []"
    using seen(3) v(6) by (auto simp: filter_empty_conv)
  moreover have "get order 0 = Some (start_location_index p)"
    using v(1,2) by (simp add: get_hd start_location_index_def)
  ultimately show ?thesis
    unfolding order_violations_def Let_def start seen(1) prod.case
    using v(1,3) by (simp add: end_location_index_def)
qed

text \<open>A route that can be walked is walked at the same times, without a delay to pay for.\<close>

lemma penalty_edges_walk:
  assumes "wf_problem (input_problem i)" and "set order \<subseteq> {..<length (locations (input_problem i))}"
    and "walk (input_problem i) (input_matrix i) order (t, travel, wait) = Some (t', c)" and "t < 1440"
    and "pw_slot st = t" "pw_late st = 0" "pw_violations st = 0"
  shows "pw_slot (penalty_edges i order st) = t' \<and> t' < 1440 \<and>
    pw_late (penalty_edges i order st) = 0 \<and> pw_violations (penalty_edges i order st) = 0"
  using assms(2-)
proof (induction order arbitrary: t travel wait st rule: induct_list012)
  case (3 a b rest)
  let ?l = "locations (input_problem i) ! b"
  have ab: "a < length (locations (input_problem i))" "b < length (locations (input_problem i))" using "3.prems"(1) by auto
  have l: "wf_location ?l" using ab assms(1) by (simp add: wf_problem_nth)
  obtain d w f where d: "travel_minutes (input_matrix i) a b = Some d" "serve ?l (t + d) = Some (w, f)"
    and rest: "walk (input_problem i) (input_matrix i) (b # rest) (f, travel + d, wait + w) = Some (t', c)"
    using "3.prems"(2) by (auto simp: walk.simps(1) split: option.splits)
  have f: "f < 1440" using serve_before_midnight [OF l d(2)] by simp
  note s = d(2) [unfolded serve_Some]
  have small: "t + d \<le> f" "max (t + d) (minutes (window_open (time_window ?l))) \<le> f" using s by auto
  let ?st = "penalty_edge i a b st"
  have arrival: "saturating_add_u32 (pw_slot st) d = t + d"
    using small f "3.prems"(4) by (simp add: saturating_add_u32_def)
  have "saturating_add_u32 (max (t + d) (minutes (window_open (time_window ?l)))) (stay_minutes ?l) = f"
    using s f by (simp add: saturating_add_u32_def)
  then have "pw_slot ?st = f \<and> pw_late ?st = 0 \<and> pw_violations ?st = 0"
    using ab d(1) s "3.prems"(5,6) arrival
    by (simp add: penalty_edge_def Let_def open_slot_def close_slot_def)
  moreover have "set (b # rest) \<subseteq> {..<length (locations (input_problem i))}" using "3.prems"(1) by auto
  ultimately show ?case using "3.IH"(2) [OF _ rest f, of ?st] by simp
qed auto

lemma evaluated_constraint_free:
  assumes wf: "wf_input i" and ev: "evaluate_solution obj (inner_input k i) sol = Inr m"
  defines "st \<equiv> penalty_edges i (visit_order sol)
    (penalty_start (input_problem i) (order_violations (input_problem i) (visit_order sol)))"
  shows "pw_violations st = 0 \<and> pw_late st = 0 \<and> pw_slot st < 1440"
proof -
  let ?p = "input_problem i" and ?m = "input_matrix i"
  have wfu: "wf_input (uncancelled i)" using wf by simp
  note e = evaluate_solution_Inr [OF wfu uncancelled_never inner_input_evaluates [OF ev], simplified]
  have valid: "valid_order ?p (visit_order sol)" by (rule e(1))
  have p: "wf_problem ?p" using wf by (simp add: wf_input_def)
  have n: "0 < length (locations ?p)" by (rule wf_problem_length [OF p])
  obtain s where "route_walk ?p ?m (visit_order sol) (start_time_slot m) = Some s" using e(5) by auto
  then have "route_walk ?p ?m (visit_order sol) (start_time_slot m) \<noteq> None" by simp
  then have "route_walk ?p ?m (visit_order sol) (minutes (start_time ?p)) \<noteq> None"
    by (rule route_start.antitone [OF e(3)])
  then obtain w f t' c where first: "serve (locations ?p ! 0) (minutes (start_time ?p)) = Some (w, f)"
    and walk: "walk ?p ?m (visit_order sol) (f, 0, w) = Some (t', c)"
    by (auto simp: route_walk_def split: option.splits)
  have f: "f < 1440" using serve_before_midnight [OF wf_problem_nth [OF p n] first] by simp
  let ?st = "penalty_start ?p (order_violations ?p (visit_order sol))"
  have "saturating_add_u32 (max (minutes (start_time ?p)) (minutes (window_open (time_window (locations ?p ! 0)))))
      (stay_minutes (locations ?p ! 0)) = f"
    using first f by (simp add: serve_Some saturating_add_u32_def)
  then have "pw_slot ?st = f" "pw_late ?st = 0" "pw_violations ?st = 0"
    using first valid_order_violations [OF valid]
    by (simp_all add: penalty_start_def Let_def open_slot_def close_slot_def start_location_nth [OF p] serve_Some)
  from penalty_edges_walk [OF p _ walk f this] valid
  show ?thesis unfolding st_def by (auto simp: valid_order_def Let_def)
qed

lemma default_penalty_weights_valid: "validate_weights default_penalty_weights = Inr default_penalty_weights"
  by (simp add: validate_weights_def check_weight_def default_penalty_weights_def literal_numeral float_zero_def signed_def)

lemma penalized_metrics:
  assumes "wf_input i" and "evaluate_solution_with_penalties obj i sol weights = Inr e"
  shows "feasible_metrics e = (case evaluate_solution obj (inner_input 0 i) sol of Inr m \<Rightarrow> Some m | Inl _ \<Rightarrow> None)"
proof (cases "evaluate_solution obj (inner_input 0 i) sol")
  case (Inl x)
  then show ?thesis
    using assms(2) by (auto simp: evaluate_solution_with_penalties_def Let_def bind_result_Inr split: if_splits)
next
  case (Inr m)
  from evaluated_constraint_free [OF assms(1) this] Inr assms(2) show ?thesis
    by (auto simp: evaluate_solution_with_penalties_def Let_def bind_result_Inr split: if_splits)
qed

lemma penalized_error:
  assumes "evaluate_solution_with_penalties obj i sol w = Inl e" and "validate_weights w = Inr w"
    and "matrix_size (input_matrix i) = length (locations (input_problem i))"
  shows "e = Cancelled"
  using assms by (auto simp: evaluate_solution_with_penalties_def Let_def split: if_splits)

section \<open>Properties\<close>

text \<open>
  C36. Annealing sees exactly the feasible routes: the penalized evaluation marks a route feasible
  if and only if the common evaluator accepts it, and then it carries the evaluator's metrics;
  no route that works is charged a penalty, and none that does not work passes for feasible.
\<close>

theorem penalized_feasible_iff:
  assumes "wf_input i" and "evaluate_solution_with_penalties obj i sol weights = Inr e"
  shows "feasible_metrics e = (case evaluate_solution obj (inner_input 0 i) sol of Inr m \<Rightarrow> Some m | Inl _ \<Rightarrow> None) \<and>
    (pen_feasible e \<longleftrightarrow> is_ok (evaluate_solution obj (inner_input 0 i) sol)) \<and>
    (pen_feasible e \<longrightarrow> pen_late_minutes e = 0 \<and> pen_day_overflow_minutes e = 0 \<and> required_location_violations e = 0)"
proof -
  have "pen_feasible e \<longleftrightarrow> feasible_metrics e \<noteq> None"
    "feasible_metrics e \<noteq> None \<Longrightarrow>
      pen_late_minutes e = 0 \<and> pen_day_overflow_minutes e = 0 \<and> required_location_violations e = 0"
    using assms(2)
    by (auto simp: evaluate_solution_with_penalties_def Let_def bind_result_Inr split: if_splits)
  then show ?thesis using penalized_metrics [OF assms] by (auto split: sum.splits)
qed

theorem penalized_feasible_iff_witness:
  "\<exists>e. evaluate_solution_with_penalties default_objective (readme_input Latest) readme_route default_penalty_weights = Inr e \<and>
    pen_feasible e \<and> required_location_violations e = 0"
proof -
  obtain e where e: "evaluate_solution_with_penalties default_objective (readme_input Latest) readme_route
      default_penalty_weights = Inr e"
    by (auto simp: evaluate_solution_with_penalties_def default_penalty_weights_valid Let_def readme_input_def
        matrix_size_def readme_defs)
  have "is_ok (evaluate_solution default_objective (inner_input 0 (readme_input Latest)) readme_route)"
    using readme_evaluates never_uncancelled [of "inner_input 0 (readme_input Latest)"]
      never_uncancelled [OF readme_not_cancelled [of Latest]] inner_input_never [OF readme_not_cancelled [of Latest], of 0]
    by simp
  then show ?thesis using penalized_feasible_iff [OF readme_wf(1) e] e by blast
qed

end
