(* ===== verification/Annealing_Facts.thy ===== *)
theory Annealing_Facts
  imports Annealing Float64_Facts Penalty_Facts
begin

text \<open>
  What a run of annealing gives: the route it reports is one the common evaluator accepts with the
  reported metrics, it is never worse than the start, and the counters fit together; the run ends
  under an iteration limit, or because the temperature falls.
\<close>

section \<open>Single steps\<close>

lemma penalized_evaluates:
  assumes "evaluate_solution_with_penalties obj (inner_input k i) sol w = Inr e" and "feasible_metrics e = Some m"
  shows "evaluate_solution obj (uncancelled i) sol = Inr m"
proof -
  have "evaluate_solution obj (inner_input 0 (inner_input k i)) sol = Inr m"
    using assms by (auto simp: evaluate_solution_with_penalties_def Let_def bind_result_Inr split: if_splits sum.splits)
  from inner_input_evaluates [OF this] show ?thesis by simp
qed

lemma penalized_feasible_metrics:
  "evaluate_solution_with_penalties obj i sol w = Inr e \<Longrightarrow> pen_feasible e \<longleftrightarrow> feasible_metrics e \<noteq> None"
  by (auto simp: evaluate_solution_with_penalties_def Let_def bind_result_Inr split: if_splits)

definition moves_of :: "annealing_search_state \<Rightarrow> nat" where
  "moves_of st = swap_moves st + relocate_moves st + two_opt_moves st + insert_optional_moves st +
     remove_optional_moves st + replace_optional_moves st"

lemma record_movement_simps [simp]:
  "best_feasible (record_movement m st) = best_feasible st"
  "iterations (record_movement m st) = iterations st"
  "temperature (record_movement m st) = temperature st"
  "accepted_moves (record_movement m st) = accepted_moves st"
  "improved_moves (record_movement m st) = improved_moves st"
  "accepted_worse_moves (record_movement m st) = accepted_worse_moves st"
  "infeasible_candidates (record_movement m st) = infeasible_candidates st"
  "accepted_infeasible_moves (record_movement m st) = accepted_infeasible_moves st"
  "current (record_movement m st) = current st"
  "current_evaluation (record_movement m st) = current_evaluation st"
  "interrupted (record_movement m st) = interrupted st"
  "moves_of (record_movement m st) = moves_of st + 1"
  by (cases m; simp add: moves_of_def)+

lemma note_feasible_simps [simp]:
  "iterations (note_feasible obj sol e st) = iterations st"
  "temperature (note_feasible obj sol e st) = temperature st"
  "accepted_moves (note_feasible obj sol e st) = accepted_moves st"
  "improved_moves (note_feasible obj sol e st) = improved_moves st"
  "accepted_worse_moves (note_feasible obj sol e st) = accepted_worse_moves st"
  "infeasible_candidates (note_feasible obj sol e st) = infeasible_candidates st"
  "accepted_infeasible_moves (note_feasible obj sol e st) = accepted_infeasible_moves st"
  "moves_of (note_feasible obj sol e st) = moves_of st"
  by (auto simp: note_feasible_def moves_of_def split: option.splits)

lemma consider_candidate_simps [simp]:
  "iterations (consider_candidate obj ex sol e u st) = iterations st"
  "temperature (consider_candidate obj ex sol e u st) = temperature st"
  "moves_of (consider_candidate obj ex sol e u st) = moves_of st"
  by (auto simp: consider_candidate_def accept_candidate_def Let_def moves_of_def note_feasible_def split: option.splits)

lemma finish_iteration_simps [simp]:
  "best_feasible (finish_iteration rate st) = best_feasible st"
  "iterations (finish_iteration rate st) = iterations st + 1"
  "temperature (finish_iteration rate st) = float_mul (temperature st) rate"
  "moves_of (finish_iteration rate st) = moves_of st"
  by (simp_all add: finish_iteration_def moves_of_def)

lemma considered_best:
  "best_feasible (consider_candidate obj ex sol e u st) = best_feasible (note_feasible obj sol e st)"
  by (auto simp: consider_candidate_def accept_candidate_def note_feasible_def Let_def split: option.splits)

section \<open>The counters\<close>

definition counters_ok :: "annealing_search_state \<Rightarrow> bool" where
  "counters_ok st \<longleftrightarrow> improved_moves st + accepted_worse_moves st \<le> accepted_moves st \<and>
     accepted_moves st \<le> iterations st \<and> accepted_infeasible_moves st \<le> infeasible_candidates st \<and>
     infeasible_candidates st \<le> iterations st"

lemma counters_movement [simp]: "counters_ok (record_movement m st) = counters_ok st"
  by (simp add: counters_ok_def)

lemma interrupted_simps [simp]:
  "counters_ok (st\<lparr>interrupted := b\<rparr>) = counters_ok st" "moves_of (st\<lparr>interrupted := b\<rparr>) = moves_of st"
  by (simp_all add: counters_ok_def moves_of_def)

lemma counters_step:
  "counters_ok st \<Longrightarrow> counters_ok (finish_iteration rate (consider_candidate obj ex sol e u st))"
  by (auto simp: counters_ok_def consider_candidate_def accept_candidate_def finish_iteration_def Let_def)

section \<open>The best route\<close>

definition best_ok :: "solver_input \<Rightarrow> solution_metrics option \<Rightarrow> annealing_search_state \<Rightarrow> bool" where
  "best_ok i before st \<longleftrightarrow>
     (\<forall>sol m. best_feasible st = Some (sol, m) \<longrightarrow> evaluate_solution default_objective (uncancelled i) sol = Inr m) \<and>
     (\<forall>m0. before = Some m0 \<longrightarrow> metric_start_policy m0 = start_policy (input_problem i) \<and>
        (\<exists>sol m. best_feasible st = Some (sol, m) \<and> default_compare m m0 \<noteq> Greater))"

lemma best_ok_start:
  assumes "wf_input i" and "evaluate_solution_with_penalties default_objective (inner_input k i) start w = Inr e"
  shows "best_ok i (feasible_metrics e) (new_search_state start e t)"
proof -
  have ev: "evaluate_solution default_objective (uncancelled i) start = Inr m" if "feasible_metrics e = Some m" for m
    by (rule penalized_evaluates [OF assms(2) that])
  then have "metric_start_policy m = start_policy (input_problem i)" if "feasible_metrics e = Some m" for m
    using evaluated_start_policy [OF assms(1)] that by blast
  then show ?thesis
    using ev default_order.refl by (auto simp: best_ok_def new_search_state_def)
qed

lemma best_ok_noted:
  assumes wf: "wf_input i" and ok: "best_ok i before st"
    and ev: "\<And>m. feasible_metrics e = Some m \<Longrightarrow> evaluate_solution default_objective (uncancelled i) sol = Inr m"
  shows "best_ok i before (note_feasible default_objective sol e st)"
proof (cases "feasible_metrics e")
  case None
  then show ?thesis using ok by (simp add: note_feasible_def)
next
  case (Some m)
  have pol: "metric_start_policy m' = start_policy (input_problem i)"
    if "evaluate_solution default_objective (uncancelled i) sol' = Inr m'" for sol' m'
    by (rule evaluated_start_policy [OF wf that])
  show ?thesis
  proof (cases "best_feasible st")
    case None
    then show ?thesis using ok ev [OF Some] Some by (auto simp: best_ok_def note_feasible_def)
  next
    case (Some b)
    then obtain bs bm where b: "best_feasible st = Some (bs, bm)" by (cases b) simp
    have "default_compare m m0 \<noteq> Greater" if "default_compare m bm = Less" "before = Some m0" for m0
    proof -
      have "default_compare bm m0 \<noteq> Greater" "metric_start_policy m0 = start_policy (input_problem i)"
        "evaluate_solution default_objective (uncancelled i) bs = Inr bm"
        using ok that(2) b by (auto simp: best_ok_def)
      then show ?thesis
        using default_order.trans [of m "start_policy (input_problem i)" bm m0] pol ev \<open>feasible_metrics e = Some m\<close> that(1)
        by (metis ordering.distinct(3))
    qed
    then show ?thesis using ok ev \<open>feasible_metrics e = Some m\<close> b by (auto simp: best_ok_def note_feasible_def)
  qed
qed

lemma best_ok_cong: "best_feasible st' = best_feasible st \<Longrightarrow> best_ok i before st' = best_ok i before st"
  by (simp add: best_ok_def)

section \<open>Cooling\<close>

lemma cooling_shrinks:
  assumes t: "t = Finite64 s a" "representable a" "a < overflow64"
    and m: "is_finite64 m" "float_le m t" "float_le (Finite64 False (two_to (- 1021))) m"
    and r: "is_finite64 rate" "valid_float rate" "float_le float_zero rate" "float_less rate float_one"
  obtains s' a' where "float_mul t rate = Finite64 s' a'" "representable a'" "a' < a"
proof -
  obtain sm b where b: "m = Finite64 sm b" using m(1) by (cases m) auto
  obtain sr q where q: "rate = Finite64 sr q" using r(1) by (cases rate) auto
  have low: "two_to (- 1021) \<le> signed s a" using m t(1) b by (simp add: signed_def [of False])
  have a0: "0 \<le> a" using representable_nonneg [OF t(2)] .
  have a: "\<not> s" "two_to (- 1021) \<le> a"
    using low a0 two_to_pos [of "- 1021"] by (auto simp: signed_def simp del: two_to_pos split: if_splits)
  have qr: "representable q" using r(2) q by (simp add: valid_float_def)
  have "0 \<le> signed sr q" "signed sr q < 1" using r(3,4) q by (simp_all add: float_zero_def float_one_def signed_def)
  then have "q < 1" using representable_nonneg [OF qr] by (cases sr) (simp_all add: signed_def)
  then have small: "round_magnitude (a * q) < a"
    using round_shrinks [OF t(2) a(2)] representable_nonneg [OF qr] representable_below_one [OF qr] by blast
  have rep: "representable (round_magnitude (a * q))"
    using a0 representable_nonneg [OF qr] by (intro round_magnitude_representable) simp
  have "float_mul t rate = Finite64 (s \<noteq> sr) (round_magnitude (a * q))"
    using small t(3) by (simp add: t(1) q float_magnitude_def Let_def)
  from that [OF this rep small] show thesis .
qed

text \<open>
  A configuration that brings a run to its end by itself: it limits the iterations, or its lowest
  temperature is at least \<open>2 ^ - 1021\<close>. Below that the product with the rate can round back to
  the same subnormal number, and the temperature would not fall.
\<close>

definition bounded_run :: "simulated_annealing_config \<Rightarrow> bool" where
  "bounded_run c \<longleftrightarrow> iteration_limit c \<noteq> None \<or>
     valid_float (initial_temperature c) \<and> valid_float (cooling_rate c) \<and>
     float_le (Finite64 False (two_to (- 1021))) (minimum_temperature c)"

definition steps_left :: "simulated_annealing_config \<Rightarrow> annealing_search_state \<Rightarrow> nat" where
  "steps_left c st = (case iteration_limit c of
     Some n \<Rightarrow> n - iterations st
   | None \<Rightarrow> (case temperature st of Finite64 _ a \<Rightarrow> grid_steps a | _ \<Rightarrow> 0))"

definition temperature_ok :: "simulated_annealing_config \<Rightarrow> annealing_search_state \<Rightarrow> bool" where
  "temperature_ok c st \<longleftrightarrow> iteration_limit c = None \<longrightarrow>
     (\<exists>s a. temperature st = Finite64 s a \<and> representable a \<and> a < overflow64)"

lemma cooled:
  assumes c: "validate_annealing_config c = Inr c" "bounded_run c"
    and go: "annealing_continues c clk st" "temperature_ok c st"
    and st': "iterations st' = iterations st + 1" "temperature st' = float_mul (temperature st) (cooling_rate c)"
  shows "temperature_ok c st' \<and> steps_left c st' < steps_left c st"
proof (cases "iteration_limit c")
  case (Some n)
  then show ?thesis
    using go(1) st'(1) by (auto simp: steps_left_def temperature_ok_def annealing_continues_def optional_limit_allows_def)
next
  case None
  obtain s a where t: "temperature st = Finite64 s a" "representable a" "a < overflow64"
    using go(2) None by (auto simp: temperature_ok_def)
  have v: "is_finite64 (minimum_temperature c)" "is_finite64 (cooling_rate c)"
    "float_le float_zero (cooling_rate c)" "float_less (cooling_rate c) float_one"
    using c(1) by (auto simp: validate_annealing_config_def split: if_splits)
  have "float_le (minimum_temperature c) (temperature st)" using go(1) by (simp add: annealing_continues_def)
  then obtain s' a' where t': "float_mul (temperature st) (cooling_rate c) = Finite64 s' a'" "representable a'" "a' < a"
    using c(2) None v by (auto simp: bounded_run_def intro: cooling_shrinks [OF t])
  then show ?thesis
    using t grid_steps_less [OF t(2) t'(2,3)] None by (simp add: temperature_ok_def steps_left_def st'(2))
qed

section \<open>The loop\<close>

definition run_ok :: "solver_input \<Rightarrow> solution_metrics option \<Rightarrow> simulated_annealing_config \<Rightarrow> 'g annealing_run \<Rightarrow> bool" where
  "run_ok i before c r \<longleftrightarrow>
     best_ok i before (run_search r) \<and> counters_ok (run_search r) \<and>
     (\<forall>n. iteration_limit c = Some n \<longrightarrow> iterations (run_search r) \<le> n) \<and>
     iterations (run_search r) \<le> moves_of (run_search r) \<and> moves_of (run_search r) \<le> iterations (run_search r) + 1 \<and>
     (run_status r = Running \<longrightarrow> moves_of (run_search r) = iterations (run_search r))"

text \<open>What one pass of the loop does, in the words of the proofs.\<close>

lemma annealing_step_cases:
  assumes "run_status r = Running"
  obtains (hanging) "neighbor (visit_order (current (run_search r))) (input_problem i) (run_rng r) = None"
      "annealing_step env obj neighbor c i r = r\<lparr>run_status := Hanging\<rparr>"
    | (stopped) st g where "annealing_step env obj neighbor c i r = r\<lparr>run_search := st, run_rng := g, run_status := Stopped\<rparr>"
      "best_feasible st = best_feasible (run_search r)" "counters_ok st = counters_ok (run_search r)"
      "iterations st = iterations (run_search r)" "moves_of (run_search r) \<le> moves_of st"
      "moves_of st \<le> moves_of (run_search r) + 1"
    | (raised) st g e sol where "annealing_step env obj neighbor c i r = r\<lparr>run_search := st, run_rng := g, run_status := Raised e\<rparr>"
      "evaluate_solution_with_penalties obj (inner_input (iterations (run_search r) + 4) i) sol (sa_penalties c) = Inl e" "e \<noteq> Cancelled"
      "best_feasible st = best_feasible (run_search r)" "counters_ok st = counters_ok (run_search r)"
      "iterations st = iterations (run_search r)" "moves_of st = moves_of (run_search r) + 1"
    | (considered) sol movement e u g where
      "annealing_step env obj neighbor c i r = r\<lparr>run_search := finish_iteration (cooling_rate c)
         (consider_candidate obj (env_exp env) sol e u (record_movement movement (run_search r))), run_rng := g\<rparr>"
      "evaluate_solution_with_penalties obj (inner_input (iterations (run_search r) + 4) i) sol (sa_penalties c) = Inr e"
proof (cases "is_cancelled i (PollLoop (iterations (run_search r)))")
  case True
  show thesis
  proof (rule stopped)
    show "annealing_step env obj neighbor c i r =
      r\<lparr>run_search := (run_search r)\<lparr>interrupted := True\<rparr>, run_rng := run_rng r, run_status := Stopped\<rparr>"
      using True by (simp add: annealing_step_def Let_def)
  qed simp_all
next
  case calm: False
  let ?st = "run_search r"
  show thesis
  proof (cases "neighbor (visit_order (current ?st)) (input_problem i) (run_rng r)")
    case None
    then show thesis using calm by (intro hanging) (simp_all add: annealing_step_def Let_def)
  next
    case (Some ng)
    obtain n g where ng: "ng = (n, g)" by fastforce
    show thesis
    proof (cases n)
      case None
      show thesis
        by (rule stopped [where st = ?st and g = g]) (use calm Some ng None in \<open>simp_all add: annealing_step_def Let_def\<close>)
    next
      case (Some om)
      obtain order movement where om: "om = (order, movement)" by fastforce
      note nb = \<open>neighbor _ _ _ = Some ng\<close> [unfolded ng Some om]
      let ?counted = "record_movement movement ?st" and ?sol = "\<lparr>visit_order = order\<rparr>"
      show thesis
      proof (cases "evaluate_solution_with_penalties obj (inner_input (iterations ?st + 4) i) ?sol (sa_penalties c)")
        case (Inl e)
        show thesis
        proof (cases "e = Cancelled")
          case True
          show thesis
          proof (rule stopped)
            show "annealing_step env obj neighbor c i r =
              r\<lparr>run_search := ?counted\<lparr>interrupted := True\<rparr>, run_rng := g, run_status := Stopped\<rparr>"
              using calm nb Inl True by (simp add: annealing_step_def Let_def)
          qed simp_all
        next
          case False
          show thesis
            by (rule raised [where st = ?counted and g = g, OF _ Inl False])
              (use calm nb Inl False in \<open>simp_all add: annealing_step_def Let_def split: solver_error.splits\<close>)
        qed
      next
        case (Inr e)
        obtain u g' where u: "gen_unit (env_rng env) g = (u, g')" by fastforce
        show thesis
          by (rule considered [where movement = movement and u = u and g = g', OF _ Inr]) (use calm nb Inr u in \<open>simp add: annealing_step_def Let_def\<close>)
      qed
    qed
  qed
qed

lemma annealing_step_ok:
  assumes wf: "wf_input i" and ok: "run_ok i before c r" and go: "run_status r = Running" "annealing_continues c clk (run_search r)"
  shows "run_ok i before c (annealing_step env default_objective neighbor c i r)"
  using go(1)
proof (cases rule: annealing_step_cases [where env = env and obj = default_objective and neighbor = neighbor and c = c and i = i])
  case hanging
  then show ?thesis using ok go(1) by (simp add: run_ok_def)
next
  case (stopped st g)
  then show ?thesis using ok go(1) best_ok_cong [OF stopped(2), of i before] by (simp add: run_ok_def)
next
  case (raised st g e sol)
  then show ?thesis using ok go(1) best_ok_cong [OF raised(4), of i before] by (simp add: run_ok_def)
next
  case (considered sol movement e u g)
  let ?st = "record_movement movement (run_search r)"
  have "best_ok i before ?st" using ok best_ok_cong [of ?st "run_search r"] by (simp add: run_ok_def)
  then have "best_ok i before (note_feasible default_objective sol e ?st)"
    by (rule best_ok_noted [OF wf _ penalized_evaluates [OF considered(2)]])
  then have "best_ok i before (finish_iteration (cooling_rate c) (consider_candidate default_objective (env_exp env) sol e u ?st))"
    by (subst best_ok_cong [where st = "note_feasible default_objective sol e ?st"]) (simp_all add: considered_best)
  moreover have "iterations (run_search r) + 1 \<le> n" if "iteration_limit c = Some n" for n
    using go(2) that by (simp add: annealing_continues_def optional_limit_allows_def)
  ultimately show ?thesis
    using ok go(1) counters_step [of ?st] by (simp add: considered(1) run_ok_def)
qed

lemma annealing_loop_ok:
  assumes "wf_input i" and "annealing_loop env default_objective neighbor c i r = Some r'" and "run_ok i before c r"
  shows "run_ok i before c r'"
  using assms(2,3) unfolding annealing_loop_def
  by (rule while_option_rule [where P = "run_ok i before c", rotated]) (blast intro: annealing_step_ok [OF assms(1)])

end
