(* ===== verification/Annealing_Result.thy ===== *)
theory Annealing_Result
  imports Annealing_Facts
begin

text \<open>
  The runs of annealing as a whole: the loop ends, the route in hand stays a valid order of the
  problem, and the result is what the common evaluator says of it.
\<close>

section \<open>The loop ends\<close>

text \<open>The strategy always answers: it does not draw positions forever.\<close>

definition draws_end :: "'g neighborhood_strategy \<Rightarrow> optimization_problem \<Rightarrow> bool" where
  "draws_end neighbor p \<longleftrightarrow> (\<forall>route g. neighbor route p g \<noteq> None)"

text \<open>What holds of a run with valid weights and a matrix of the right size.\<close>

definition steady :: "simulated_annealing_config \<Rightarrow> bool \<Rightarrow> 'g annealing_run \<Rightarrow> bool" where
  "steady c found r \<longleftrightarrow>
     (run_status r = Running \<or> run_status r = Stopped) \<and>
     (run_status r = Running \<longrightarrow> temperature_ok c (run_search r)) \<and>
     (found \<longrightarrow> best_feasible (run_search r) \<noteq> None)"

lemma validated:
  assumes "validate_annealing_config config = Inr c"
  shows "c = config" "validate_weights (sa_penalties c) = Inr (sa_penalties c)"
  using assms by (auto simp: validate_annealing_config_def bind_result_Inr validate_weights_def split: if_splits)

lemma annealing_step_steady:
  assumes c: "validate_annealing_config c = Inr c" "bounded_run c"
    and size: "matrix_size (input_matrix i) = length (locations (input_problem i))"
    and draws: "draws_end neighbor (input_problem i)"
    and ok: "steady c found r" and go: "run_status r = Running" "annealing_continues c clk (run_search r)"
  shows "steady c found (annealing_step env obj neighbor c i r) \<and>
    (run_status (annealing_step env obj neighbor c i r) = Running \<longrightarrow>
      steps_left c (run_search (annealing_step env obj neighbor c i r)) < steps_left c (run_search r))"
  using go(1)
proof (cases rule: annealing_step_cases [where env = env and obj = obj and neighbor = neighbor and c = c and i = i])
  case hanging
  then show ?thesis using draws by (metis draws_end_def)
next
  case (stopped st g)
  then show ?thesis using ok by (simp add: steady_def)
next
  case (raised st g e sol)
  have "e = Cancelled"
    using penalized_error [OF raised(2) validated(2) [OF c(1)]] size by simp
  then show ?thesis using raised(3) by blast
next
  case (considered sol movement e u g)
  let ?st = "finish_iteration (cooling_rate c)
    (consider_candidate obj (env_exp env) sol e u (record_movement movement (run_search r)))"
  have "temperature_ok c (run_search r)" using ok go(1) by (simp add: steady_def)
  then have "temperature_ok c ?st \<and> steps_left c ?st < steps_left c (run_search r)"
    by (intro cooled [OF c go(2)]) simp_all
  moreover have "best_feasible ?st \<noteq> None" if "best_feasible (run_search r) \<noteq> None"
    using that by (simp add: considered_best note_feasible_def split: option.splits)
  ultimately show ?thesis using ok go(1) by (simp add: considered(1) steady_def)
qed

lemma annealing_loop_ends:
  assumes c: "validate_annealing_config c = Inr c" "bounded_run c"
    and size: "matrix_size (input_matrix i) = length (locations (input_problem i))"
    and draws: "draws_end neighbor (input_problem i)"
    and ok: "steady c found r"
  obtains r' where "annealing_loop env obj neighbor c i r = Some r'" "steady c found r'"
proof -
  let ?f = "\<lambda>r. if run_status r = Running then Suc (steps_left c (run_search r)) else 0"
  note step = annealing_step_steady [OF c size draws, of found _ "env_clock_ns env" env obj]
  obtain r' where "while_option (\<lambda>r. run_status r = Running \<and> annealing_continues c (env_clock_ns env) (run_search r))
      (annealing_step env obj neighbor c i) r = Some r'" "steady c found r'"
    by (rule while_option_ends [where I = "steady c found" and f = ?f and s = r and
          b = "\<lambda>r. run_status r = Running \<and> annealing_continues c (env_clock_ns env) (run_search r)" and
          c = "annealing_step env obj neighbor c i"])
      (use ok step in auto)
  then show thesis by (intro that) (simp_all add: annealing_loop_def)
qed

text \<open>Where a run starts.\<close>

lemma start_run_ok:
  assumes "wf_input i" and "evaluate_solution_with_penalties default_objective (inner_input k i) start w = Inr e"
  shows "run_ok i (feasible_metrics e) c
    \<lparr>run_search = new_search_state start e t, run_rng = g, run_status = Running\<rparr>"
  using best_ok_start [OF assms]
  by (simp add: run_ok_def counters_ok_def moves_of_def new_search_state_def)

lemma start_steady:
  assumes "validate_annealing_config c = Inr c" and "bounded_run c"
  shows "steady c (feasible_metrics e \<noteq> None)
    \<lparr>run_search = new_search_state start e (initial_temperature c), run_rng = g, run_status = Running\<rparr>"
proof -
  have "is_finite64 (initial_temperature c)" using assms(1) by (simp add: validate_annealing_config_def split: if_splits)
  then show ?thesis
    using assms(2)
    by (cases "initial_temperature c") (auto simp: steady_def temperature_ok_def new_search_state_def bounded_run_def valid_float_def)
qed

section \<open>The result\<close>

lemma evaluated_again:
  assumes "evaluate_solution obj (uncancelled i) sol = Inr m"
  shows "evaluate_solution obj (inner_input k i) sol \<in> {Inr m, Inl Cancelled, Inl NoFeasibleRoute}"
  using assms
  by (cases "validate_visit_order (input_problem i) sol")
    (auto simp: evaluate_solution_def inner_input_def simulate_solution_poll Let_def split: if_splits)

lemma annealing_search_result:
  assumes wf: "wf_input i" and res: "annealing_search env default_objective neighbor c i start g = Some (Inr r)"
  shows "evaluate_solution default_objective (uncancelled i) (sa_solution r) = Inr (sa_metrics r)"
    and "sa_initial_solution r = start"
    and "sa_initial_metrics r = Some m \<Longrightarrow> default_compare (sa_metrics r) m \<noteq> Greater"
    and "sa_initial_metrics r = (case evaluate_solution default_objective (inner_input 0 (inner_input 2 i)) start of
      Inr m \<Rightarrow> Some m | Inl _ \<Rightarrow> None)"
    and "\<exists>st. sa_stats r = annealing_stats_of c (env_clock_ns env (iterations st + 1)) st \<and> counters_ok st \<and>
      (\<forall>n. iteration_limit c = Some n \<longrightarrow> iterations st \<le> n) \<and> iterations st \<le> moves_of st \<and> moves_of st \<le> iterations st + 1"
proof -
  obtain e where e: "evaluate_solution_with_penalties default_objective (inner_input 2 i) start (sa_penalties c) = Inr e"
    using res by (auto simp: annealing_search_def split: sum.splits)
  let ?r0 = "\<lparr>run_search = new_search_state start e (initial_temperature c), run_rng = g, run_status = Running\<rparr>"
  obtain r' where loop: "annealing_loop env default_objective neighbor c i ?r0 = Some r'"
    and fin: "annealing_finish env default_objective c i start (feasible_metrics e) (run_search r') = Inr r"
    using res e by (auto simp: annealing_search_def split: option.splits run_status.splits)
  have ok: "run_ok i (feasible_metrics e) c r'"
    by (rule annealing_loop_ok [OF wf loop start_run_ok [OF wf e]])
  obtain sol m where best: "best_feasible (run_search r') = Some (sol, m)"
    using fin by (auto simp: annealing_finish_def split: option.splits)
  have ev: "evaluate_solution default_objective (uncancelled i) sol = Inr m"
    using ok best by (simp add: run_ok_def best_ok_def)
  then have r: "r = \<lparr>sa_initial_solution = start, sa_initial_metrics = feasible_metrics e, sa_solution = sol,
      sa_metrics = m, sa_stats = annealing_stats_of c (env_clock_ns env (iterations (run_search r') + 1)) (run_search r')\<rparr>"
    using fin best evaluated_again [OF ev, of 3]
    by (auto simp: annealing_finish_def bind_result_Inr split: if_splits)
  show "evaluate_solution default_objective (uncancelled i) (sa_solution r) = Inr (sa_metrics r)"
    and "sa_initial_solution r = start" using ev by (simp_all add: r)
  show "default_compare (sa_metrics r) m0 \<noteq> Greater" if "sa_initial_metrics r = Some m0" for m0
    using that ok best by (auto simp: r run_ok_def best_ok_def)
  show "sa_initial_metrics r = (case evaluate_solution default_objective (inner_input 0 (inner_input 2 i)) start of
      Inr m \<Rightarrow> Some m | Inl _ \<Rightarrow> None)"
    using penalized_metrics [OF _ e] wf by (simp add: r)
  show "\<exists>st. sa_stats r = annealing_stats_of c (env_clock_ns env (iterations st + 1)) st \<and> counters_ok st \<and>
      (\<forall>n. iteration_limit c = Some n \<longrightarrow> iterations st \<le> n) \<and> iterations st \<le> moves_of st \<and> moves_of st \<le> iterations st + 1"
    using ok by (intro exI [of _ "run_search r'"]) (simp add: r run_ok_def)
qed

lemma annealing_solve_search:
  assumes "annealing_solve_detailed env obj initial shuffle neighbor config i = Some (Inr r)"
  obtains start g where "validate_annealing_config config = Inr config"
    "annealing_start initial shuffle i (seeded_rng env config) = (Some (Inr start), g)"
    "annealing_search env obj neighbor config i start g = Some (Inr r)"
  using assms validated(1) that
  by (fastforce simp: annealing_solve_detailed_def Let_def split: sum.splits if_splits prod.splits option.splits)

lemma annealing_search_outcome:
  assumes wf: "wf_input i" and size: "matrix_size (input_matrix i) = length (locations (input_problem i))"
    and c: "validate_annealing_config c = Inr c" "bounded_run c"
    and draws: "draws_end neighbor (input_problem i)"
  obtains r where "annealing_search env default_objective neighbor c i start g = Some r"
    "\<And>e. r = Inl e \<Longrightarrow> e = NoFeasibleRoute \<or> e = Cancelled \<and> \<not> never_cancelled i"
    "never_cancelled i \<Longrightarrow> is_ok (evaluate_solution default_objective i start) \<Longrightarrow> is_ok r"
proof (cases "evaluate_solution_with_penalties default_objective (inner_input 2 i) start (sa_penalties c)")
  case (Inl x)
  have "x = Cancelled" using penalized_error [OF Inl validated(2) [OF c(1)]] size by simp
  moreover have "\<not> never_cancelled i"
    using Inl validated(2) [OF c(1)] size
    by (auto simp: evaluate_solution_with_penalties_def Let_def never_cancelled_def split: if_splits)
  ultimately show thesis using that [of "Inl x"] Inl by (simp add: annealing_search_def)
next
  case (Inr e)
  let ?r0 = "\<lparr>run_search = new_search_state start e (initial_temperature c), run_rng = g, run_status = Running\<rparr>"
  obtain r' where loop: "annealing_loop env default_objective neighbor c i ?r0 = Some r'"
    and steady: "steady c (feasible_metrics e \<noteq> None) r'"
    by (rule annealing_loop_ends [OF c size draws start_steady [OF c]])
  have ok: "run_ok i (feasible_metrics e) c r'"
    by (rule annealing_loop_ok [OF wf loop start_run_ok [OF wf Inr]])
  let ?r = "annealing_finish env default_objective c i start (feasible_metrics e) (run_search r')"
  have run: "annealing_search env default_objective neighbor c i start g = Some ?r"
    using loop steady by (auto simp: annealing_search_def Inr steady_def)
  have un: "evaluate_solution default_objective (inner_input k j) sol = evaluate_solution default_objective i sol"
    if "uncancelled j = i" "never_cancelled j" for k j sol
    using never_uncancelled [OF inner_input_never [OF that(2)], of k] that(1) by simp
  have "x = NoFeasibleRoute \<or> x = Cancelled" if "?r = Inl x" for x
    using that ok evaluated_again [of default_objective i _ _ 3]
    by (fastforce simp: annealing_finish_def run_ok_def best_ok_def bind_result_Inl split: option.splits if_splits)
  moreover have "x = NoFeasibleRoute" if calm: "never_cancelled i" and failed: "?r = Inl x" for x
  proof (cases "best_feasible (run_search r')")
    case None
    then show ?thesis using failed by (simp add: annealing_finish_def)
  next
    case (Some best)
    have i: "uncancelled i = i" by (rule never_uncancelled [OF calm])
    obtain sol m where best: "best = (sol, m)" by (cases best)
    then have "evaluate_solution default_objective i sol = Inr m" using ok i Some by (simp add: run_ok_def best_ok_def)
    then show ?thesis using Some best un [OF i calm] failed by (simp add: annealing_finish_def split: if_splits)
  qed
  ultimately have err: "x = NoFeasibleRoute \<or> x = Cancelled \<and> \<not> never_cancelled i" if "?r = Inl x" for x
    using that by blast
  have "is_ok ?r" if calm: "never_cancelled i" and good: "is_ok (evaluate_solution default_objective i start)"
  proof -
    have i: "uncancelled i = i" by (rule never_uncancelled [OF calm])
    have "uncancelled (inner_input 2 i) = i" "never_cancelled (inner_input 2 i)"
      using i inner_input_never [OF calm] by simp_all
    from un [OF this] have "feasible_metrics e \<noteq> None"
      using penalized_metrics [OF _ Inr] wf good by (auto simp: is_ok_iff)
    then obtain sol m where best: "best_feasible (run_search r') = Some (sol, m)"
      using steady by (auto simp: steady_def)
    then have "evaluate_solution default_objective i sol = Inr m" using ok i by (simp add: run_ok_def best_ok_def)
    then show ?thesis using best un [OF i calm] by (simp add: annealing_finish_def)
  qed
  from that [OF run err this] show thesis .
qed

section \<open>The route in hand\<close>

context neighborhood begin

text \<open>With a strategy that keeps its contract, the search never leaves the valid orders.\<close>

lemma loop_stays_valid:
  assumes rng: "in_range_rng rng" and p: "wf_problem (input_problem i)"
    and valid: "valid_order (input_problem i) (visit_order (current (run_search r)))"
    and loop: "annealing_loop env obj (neighbor rng) c i r = Some r'"
  shows "valid_order (input_problem i) (visit_order (current (run_search r')))"
proof -
  let ?P = "\<lambda>r. valid_order (input_problem i) (visit_order (current (run_search r)))"
  have step: "?P (annealing_step env obj (neighbor rng) c i r)" if ok: "?P r" for r
  proof -
    have "valid_order (input_problem i) order"
      if "neighbor rng (visit_order (current (run_search r))) (input_problem i) (run_rng r) = Some (Some (order, mv), g)" for order mv g
      by (rule neighbor_valid [OF rng p ok that])
    then show ?thesis using ok
      by (auto simp: annealing_step_def consider_candidate_def accept_candidate_def note_feasible_def finish_iteration_def
          Let_def split: option.splits sum.splits solver_error.splits prod.splits)
  qed
  show ?thesis
    by (rule while_option_rule [where P = ?P, OF _ loop [unfolded annealing_loop_def] valid]) (rule step)
qed

end

lemma structurally_valid:
  assumes "is_structurally_valid_initial_solution sol p"
  shows "valid_order p (visit_order sol)"
proof -
  let ?n = "length (locations p)" and ?o = "visit_order sol"
  obtain seen where seen: "mark_all (replicate ?n False) ?o = Some seen"
    and req: "list_all (\<lambda>k. \<not> required (locations p ! k) \<or> seen ! k) [0..<?n]"
    and shape: "visit_policy p = AllRequired \<Longrightarrow> length ?o = ?n" "2 \<le> length ?o" "get ?o 0 = Some 0" "?n \<noteq> 0"
      "get ?o (length ?o - 1) = Some (?n - 1)"
    using assms by (auto simp: is_structurally_valid_initial_solution_def Let_def split: if_splits option.splits)
  have d: "distinct ?o" "\<forall>k\<in>set ?o. k < ?n" "\<forall>k<?n. seen ! k = (k \<in> set ?o)"
    using seen by (auto simp: mark_all_Some)
  have ends: "?o \<noteq> []" "hd ?o = 0" "List.last ?o = ?n - 1"
    using shape get_last [of ?o] by (auto simp: get_hd)
  have "set ?o = {..<?n}" if "visit_policy p = AllRequired"
    using distinct_covers [OF d(1), of ?n] d(2) shape(1) [OF that] by auto
  then show ?thesis
    using d ends req by (auto simp: valid_order_def Let_def list_all_iff)
qed

section \<open>The example\<close>

lemma default_annealing_config_valid:
  "validate_annealing_config default_annealing_config = Inr default_annealing_config"
proof -
  have rate: "is_finite64 (literal (995 / 1000)) \<and> float_le float_zero (literal (995 / 1000)) \<and>
    float_less (literal (995 / 1000)) float_one"
    by (rule literal_fraction [of "- 1" "995 / 1000" "2 ^ 53 - 1"])
      (auto simp: two_to_def overflow64_def float_zero_def float_one_def signed_def)
  have lowest: "is_finite64 (literal (1 / 100)) \<and> \<not> float_le (literal (1 / 100)) float_zero \<and>
    \<not> float_le (Finite64 False 1000) (literal (1 / 100))"
    by (rule literal_fraction [of "- 7" "1 / 100" "2 ^ 53"])
      (auto simp: two_to_def overflow64_def float_zero_def signed_def)
  have "\<not> float_le (Finite64 False 1000) float_zero" by (simp add: float_zero_def signed_def)
  then show ?thesis
    using rate lowest
    by (simp add: validate_annealing_config_def default_annealing_config_def default_penalty_weights_valid literal_numeral)
qed

lemma default_annealing_bounded: "bounded_run default_annealing_config"
  by (simp add: bounded_run_def default_annealing_config_def)

definition counter_env :: "nat annealing_env" where
  "counter_env = \<lparr>env_rng = counter_rng, env_seeded = (\<lambda>seed. seed), env_entropy = 0,
     env_exp = (\<lambda>_. literal (1 / 2)), env_clock_ns = (\<lambda>_. 0)\<rparr>"

lemma counter_env_draws: "draws_end (mixed_neighbor_for_problem (env_rng counter_env)) p"
  by (simp add: draws_end_def counter_env_def counter_neighbor_ends del: not_None_eq)

lemma readme_structure: "is_structurally_valid_initial_solution readme_route (readme_problem sp)"
  by (simp add: is_structurally_valid_initial_solution_def readme_route_def readme_defs get_def Let_def upt_rec)

lemma readme_start:
  "annealing_start (fixed_initial_route readme_route) shuffle (readme_input sp) g = (Some (Inr readme_route), g)"
  using readme_structure [of sp]
  by (simp add: annealing_start_def fixed_initial_route_def readme_input_def)

lemma readme_feasible: "is_ok (evaluate_solution default_objective (readme_input Latest) readme_route)"
  by (simp add: readme_evaluates)

lemma readme_size: "matrix_size (input_matrix (readme_input sp)) = length (locations (input_problem (readme_input sp)))"
  by (simp add: readme_input_def matrix_size_def readme_defs)

lemma readme_annealing:
  obtains r where "annealing_solve_detailed counter_env default_objective (fixed_initial_route readme_route) shuffle
    (mixed_neighbor_for_problem (env_rng counter_env)) default_annealing_config (readme_input Latest) = Some (Inr r)"
proof (rule annealing_search_outcome [OF readme_wf(1) readme_size default_annealing_config_valid default_annealing_bounded
      counter_env_draws])
  fix r
  assume run: "annealing_search counter_env default_objective (mixed_neighbor_for_problem (env_rng counter_env))
      default_annealing_config (readme_input Latest) readme_route (seeded_rng counter_env default_annealing_config) = Some r"
    and ok: "never_cancelled (readme_input Latest) \<Longrightarrow>
      is_ok (evaluate_solution default_objective (readme_input Latest) readme_route) \<Longrightarrow> is_ok r"
  obtain x where "r = Inr x" using ok [OF readme_not_cancelled readme_feasible] by (auto simp: is_ok_iff)
  then show thesis
    using that run readme_size readme_not_cancelled [of Latest]
    by (simp add: annealing_solve_detailed_def default_annealing_config_valid readme_start never_cancelled_def)
qed

section \<open>Properties\<close>

text \<open>
  C37. A route annealing returns is sound: the common evaluator accepts it, with exactly the
  reported metrics; it is never worse than the start, when the start was feasible; no more moves
  are accepted than there were iterations, improving and worsening moves are among the accepted,
  accepted infeasible moves among the infeasible, every iteration but a last interrupted one
  counts exactly one move, and the iterations stay within the limit.
\<close>

theorem annealing_result_sound:
  assumes "wf_input i"
    and "annealing_solve_detailed env default_objective initial shuffle neighbor c i = Some (Inr r)"
  shows "evaluate_solution default_objective (uncancelled i) (sa_solution r) = Inr (sa_metrics r) \<and>
    (\<forall>m. sa_initial_metrics r = Some m \<longrightarrow> default_compare (sa_metrics r) m \<noteq> Greater) \<and>
    (let s = sa_stats r; moves = stat_swap s + stat_relocate s + stat_two_opt s + stat_insert_optional s +
         stat_remove_optional s + stat_replace_optional s in
      stat_improved s + stat_accepted_worse s \<le> stat_accepted s \<and> stat_accepted s \<le> stat_iterations s \<and>
      stat_accepted_infeasible s \<le> stat_infeasible s \<and> stat_infeasible s \<le> stat_iterations s \<and>
      stat_iterations s \<le> moves \<and> moves \<le> stat_iterations s + 1 \<and>
      (\<forall>n. iteration_limit c = Some n \<longrightarrow> stat_iterations s \<le> n))"
proof -
  obtain start g where search: "annealing_search env default_objective neighbor c i start g = Some (Inr r)"
    by (rule annealing_solve_search [OF assms(2)])
  note res = annealing_search_result [OF assms(1) search]
  from res(5) show ?thesis
    using res(1,3) by (auto simp: annealing_stats_of_def counters_ok_def moves_of_def Let_def)
qed

theorem annealing_result_sound_witness:
  "\<exists>r. annealing_solve_detailed counter_env default_objective (fixed_initial_route readme_route) (\<lambda>xs g. (xs, g))
      (mixed_neighbor_for_problem (env_rng counter_env)) default_annealing_config (readme_input Latest) = Some (Inr r) \<and>
    evaluate_solution default_objective (uncancelled (readme_input Latest)) (sa_solution r) = Inr (sa_metrics r) \<and>
    stat_iterations (sa_stats r) \<le> 10000"
proof (rule readme_annealing)
  fix r
  assume run: "annealing_solve_detailed counter_env default_objective (fixed_initial_route readme_route) (\<lambda>xs g. (xs, g))
      (mixed_neighbor_for_problem (env_rng counter_env)) default_annealing_config (readme_input Latest) = Some (Inr r)"
  from annealing_result_sound [OF readme_wf(1) run] run show ?thesis
    by (intro exI [of _ r]) (simp add: Let_def default_annealing_config_def)
qed



text \<open>
  C39. The search never leaves the valid orders: whatever moves the mixed strategy draws, however
  long the run, the route in hand starts and ends where it must, repeats no location and visits
  every required one.
\<close>

theorem annealing_stays_valid:
  assumes "in_range_rng (env_rng env)" and "wf_problem (input_problem i)"
    and "is_structurally_valid_initial_solution start (input_problem i)"
    and "annealing_loop env obj (mixed_neighbor_for_problem (env_rng env)) c i
      \<lparr>run_search = new_search_state start e t, run_rng = g, run_status = Running\<rparr> = Some r"
  shows "valid_order (input_problem i) (visit_order (current (run_search r)))"
  using structurally_valid [OF assms(3)]
  by (intro mixed.loop_stays_valid [OF assms(1,2) _ assms(4)]) (simp add: new_search_state_def)

theorem annealing_stays_valid_witness:
  "\<exists>r. valid_order (readme_problem Latest) (visit_order (current (run_search (r :: nat annealing_run))))"
proof -
  obtain e :: penalized_route_evaluation where True by simp
  let ?r0 = "\<lparr>run_search = new_search_state readme_route e (initial_temperature default_annealing_config),
    run_rng = 0, run_status = Running\<rparr>"
  obtain r where "annealing_loop counter_env default_objective (mixed_neighbor_for_problem (env_rng counter_env))
      default_annealing_config (readme_input Latest) ?r0 = Some r"
    by (rule annealing_loop_ends [OF default_annealing_config_valid default_annealing_bounded readme_size counter_env_draws
          start_steady [OF default_annealing_config_valid default_annealing_bounded]])
  from annealing_stays_valid [OF _ _ _ this] show ?thesis
    using counter_in_range readme_structure [of Latest] readme_wf(2) by (auto simp: counter_env_def readme_input_def)
qed

end
