(* ===== verification/Mst_Prim.thy ===== *)
theory Mst_Prim
  imports Mst
begin

text \<open>
  What Prim's algorithm is worth: connected sets of edges, the exchange of one edge for another,
  the invariant of the rounds, and the result as a spanning tree of least weight.
\<close>

section \<open>Connected vertices\<close>

definition joined :: "(nat \<times> nat) set \<Rightarrow> (nat \<times> nat) set" where
  "joined E = (E \<union> E\<inverse>)\<^sup>*"

definition connects :: "nat \<Rightarrow> (nat \<times> nat) set \<Rightarrow> bool" where
  "connects n E \<longleftrightarrow> (\<forall>v<n. (0, v) \<in> joined E)"

definition ends :: "mst_edge list \<Rightarrow> (nat \<times> nat) set" where
  "ends es = (\<lambda>e. (edge_from e, edge_to e)) ` set es"

definition weight_of :: "(nat \<Rightarrow> nat \<Rightarrow> nat) \<Rightarrow> (nat \<times> nat) set \<Rightarrow> nat" where
  "weight_of w E = (\<Sum>(a, b)\<in>E. w a b)"

lemma joined_sym: "(a, b) \<in> joined E \<Longrightarrow> (b, a) \<in> joined E"
proof -
  have "sym (joined E)" unfolding joined_def by (intro sym_rtrancl) (auto simp: sym_def)
  then show "(a, b) \<in> joined E \<Longrightarrow> (b, a) \<in> joined E" by (rule symD)
qed

lemma joined_trans: "(a, b) \<in> joined E \<Longrightarrow> (b, c) \<in> joined E \<Longrightarrow> (a, c) \<in> joined E"
  by (simp add: joined_def)

lemma joined_refl [simp]: "(a, a) \<in> joined E"
  by (simp add: joined_def)

lemma joined_edge: "(a, b) \<in> E \<Longrightarrow> (a, b) \<in> joined E"
  by (auto simp: joined_def)

lemma joined_either: "(a, b) \<in> E \<or> (b, a) \<in> E \<Longrightarrow> (a, b) \<in> joined E"
  by (auto simp: joined_def)

lemma joined_within:
  assumes "E \<subseteq> joined D"
  shows "joined E \<subseteq> joined D"
proof -
  have "E \<union> E\<inverse> \<subseteq> joined D" using assms joined_sym by fastforce
  then show ?thesis unfolding joined_def by (rule rtrancl_subset_rtrancl)
qed

lemma joined_mono: "E \<subseteq> D \<Longrightarrow> joined E \<subseteq> joined D"
  by (rule joined_within) (auto intro: joined_edge)

lemma ends_simps [simp]: "ends [] = {}" "ends (es @ fs) = ends es \<union> ends fs"
  "ends (e # es) = insert (edge_from e, edge_to e) (ends es)"
  by (auto simp: ends_def)

text \<open>A path from the tree to a vertex outside leaves the tree for the last time somewhere.\<close>

lemma crossing_edge:
  assumes "v \<notin> S" and "(x, v) \<in> joined E"
  shows "x \<notin> S \<and> (x, v) \<in> joined {(a, b) \<in> E. a \<notin> S \<and> b \<notin> S} \<or>
    (\<exists>a\<in>S. \<exists>b. b \<notin> S \<and> ((a, b) \<in> E \<or> (b, a) \<in> E) \<and> (b, v) \<in> joined {(a, b) \<in> E. a \<notin> S \<and> b \<notin> S})"
    (is "?out x \<or> ?cross")
  using assms(2) unfolding joined_def [of E]
proof (induction rule: converse_rtrancl_induct)
  case base
  then show ?case using assms(1) by simp
next
  case (step x y)
  show ?case
  proof (cases ?cross)
    case False
    then have y: "y \<notin> S" "(y, v) \<in> joined {(a, b) \<in> E. a \<notin> S \<and> b \<notin> S}" using step.IH by auto
    show ?thesis
    proof (cases "x \<in> S")
      case True
      then show ?thesis using y step.hyps(1) by blast
    next
      case False
      then have "(x, y) \<in> joined {(a, b) \<in> E. a \<notin> S \<and> b \<notin> S}"
        using y(1) step.hyps(1) by (intro joined_either) auto
      then show ?thesis using False y(2) joined_trans by blast
    qed
  qed simp
qed

text \<open>The exchange: an edge of \<open>F\<close> that leaves \<open>S\<close> is replaced by the edge \<open>(u, v)\<close>.\<close>

lemma exchange_edge:
  assumes S: "0 \<in> S" "v \<notin> S" "u \<in> S" and T: "T \<subseteq> S \<times> S" "\<forall>x\<in>S. (0, x) \<in> joined T"
    and F: "connects n (F \<union> T)" "v < n"
  obtains a b f where "a \<in> S" "b \<notin> S" "f \<in> F" "f = (a, b) \<or> f = (b, a)"
    "connects n ((F - {f}) \<union> insert (u, v) T)"
proof -
  have "(0, v) \<in> joined (F \<union> T)" using F by (simp add: connects_def)
  from crossing_edge [OF S(2) this] S(1) obtain a b where ab: "a \<in> S" "b \<notin> S"
    "(a, b) \<in> F \<union> T \<or> (b, a) \<in> F \<union> T"
    and bv: "(b, v) \<in> joined {(a, b) \<in> F \<union> T. a \<notin> S \<and> b \<notin> S}" by blast
  then obtain f where f: "f \<in> F" "f = (a, b) \<or> f = (b, a)" using T(1) by auto
  let ?G = "(F - {f}) \<union> insert (u, v) T"
  have T': "joined T \<subseteq> joined ?G" by (rule joined_mono) auto
  have "{(a, b) \<in> F \<union> T. a \<notin> S \<and> b \<notin> S} \<subseteq> ?G" using f(2) ab(1) T(1) by auto
  then have "(b, v) \<in> joined ?G" using bv joined_mono by blast
  moreover have "(u, v) \<in> joined ?G" by (rule joined_edge) simp
  moreover have "(a, u) \<in> joined T"
    by (rule joined_trans [OF joined_sym]) (use T(2) ab(1) S(3) in auto)
  ultimately have "(a, b) \<in> joined ?G"
    using T' by (meson joined_trans joined_sym subsetD)
  then have "f \<in> joined ?G" using f(2) joined_sym by auto
  moreover have "F \<union> T \<subseteq> insert f ?G" by blast
  moreover have "?G \<subseteq> joined ?G" using joined_edge by (intro subrelI)
  ultimately have "joined (F \<union> T) \<subseteq> joined ?G" by (intro joined_within) blast
  then have "connects n ?G" using F(1) unfolding connects_def by blast
  then show thesis using that ab f by blast
qed

section \<open>Prim's algorithm\<close>

definition edge_weights :: "nat \<Rightarrow> distance_fn \<Rightarrow> bool" where
  "edge_weights n distance \<longleftrightarrow> (\<forall>u<n. \<forall>v<n. distance u v = distance v u \<and>
     (\<forall>d. distance u v = Inr d \<longrightarrow> d < u64_max))"

definition weight_at :: "distance_fn \<Rightarrow> nat \<Rightarrow> nat \<Rightarrow> nat" where
  "weight_at distance u v = (case distance u v of Inl _ \<Rightarrow> 0 | Inr d \<Rightarrow> d)"

definition tree_set :: "nat \<Rightarrow> prim_state \<Rightarrow> nat set" where
  "tree_set n st = {v. v < n \<and> included st ! v}"

text \<open>What is stored for a vertex outside the tree: its nearest vertex in the tree.\<close>

definition nearest :: "distance_fn \<Rightarrow> nat set \<Rightarrow> prim_state \<Rightarrow> nat \<Rightarrow> bool" where
  "nearest distance S st v \<longleftrightarrow>
     (\<exists>u\<in>S. parents st ! v = Some u \<and> distance u v = Inr (best_distance st ! v)) \<and>
     (\<forall>u\<in>S. \<exists>d. distance u v = Inr d \<and> best_distance st ! v \<le> d)"

definition untouched :: "prim_state \<Rightarrow> nat \<Rightarrow> bool" where
  "untouched st v \<longleftrightarrow> best_distance st ! v = u64_max \<and> parents st ! v = None"

definition sized :: "nat \<Rightarrow> prim_state \<Rightarrow> bool" where
  "sized n st \<longleftrightarrow> length (included st) = n \<and> length (best_distance st) = n \<and> length (parents st) = n"

text \<open>The tree so far: inside \<open>S\<close>, connected, and no heavier than what it replaces.\<close>

definition saves :: "nat \<Rightarrow> distance_fn \<Rightarrow> mst_edge list \<Rightarrow> bool" where
  "saves n distance es \<longleftrightarrow> (\<forall>F. F \<subseteq> {..<n} \<times> {..<n} \<longrightarrow> connects n F \<longrightarrow>
     (\<exists>F'\<subseteq>F. connects n (F' \<union> ends es) \<and>
       weight_of (weight_at distance) F' + sum_list (map edge_distance es) \<le> weight_of (weight_at distance) F))"

definition grown :: "nat \<Rightarrow> distance_fn \<Rightarrow> nat set \<Rightarrow> mst_edge list \<Rightarrow> bool" where
  "grown n distance S es \<longleftrightarrow>
     ends es \<subseteq> S \<times> S \<and> (\<forall>v\<in>S. (0, v) \<in> joined (ends es)) \<and>
     (\<forall>e\<in>set es. edge_from e \<noteq> edge_to e \<and> distance (edge_from e) (edge_to e) = Inr (edge_distance e)) \<and>
     Suc (length es) = card S \<and> saves n distance es"

definition prim_invariant :: "nat \<Rightarrow> distance_fn \<Rightarrow> nat \<Rightarrow> prim_state \<Rightarrow> bool" where
  "prim_invariant n distance k st \<longleftrightarrow>
     sized n st \<and> card (tree_set n st) = k \<and>
     (if k = 0 then st = prim_start n
      else 0 \<in> tree_set n st \<and> grown n distance (tree_set n st) (tree_edges st) \<and>
        (\<forall>v<n. v \<notin> tree_set n st \<longrightarrow> nearest distance (tree_set n st) st v) \<and>
        (\<forall>u\<in>tree_set n st. \<forall>v\<in>tree_set n st. u \<noteq> v \<longrightarrow> is_ok (distance u v)))"

lemma prim_relax_nearest:
  assumes "sized n st" and "v < n" "next < n" and "edge_weights n distance"
    and "S = {} \<and> untouched st v \<or> nearest distance S st v"
    and "\<not> included st ! v" "v \<noteq> next"
  shows "ok_in (\<lambda>e. distance next v = Inl e)
    (\<lambda>st'. sized n st' \<and> included st' = included st \<and> tree_edges st' = tree_edges st \<and>
      nearest distance (insert next S) st' v \<and>
      (\<forall>x. x \<noteq> v \<longrightarrow> best_distance st' ! x = best_distance st ! x \<and> parents st' ! x = parents st ! x))
    (prim_relax distance next v st)"
proof (cases "distance next v")
  case (Inl e)
  then show ?thesis using assms by (simp add: prim_relax_def)
next
  case (Inr d)
  then have "d < u64_max" using assms by (auto simp: edge_weights_def)
  then show ?thesis
    using assms Inr
    by (auto simp: prim_relax_def Let_def sized_def nearest_def untouched_def split: option.splits)
qed

text \<open>The errors that come out of the weights themselves.\<close>

definition distance_error :: "nat \<Rightarrow> distance_fn \<Rightarrow> solver_error \<Rightarrow> bool" where
  "distance_error n distance e \<longleftrightarrow> (\<exists>u<n. \<exists>v<n. u \<noteq> v \<and> distance u v = Inl e)"

lemma prim_relax_all:
  assumes "sized n st" and "next < n" and "edge_weights n distance" and "S \<subseteq> {..<n}"
    and inc: "\<forall>v<n. included st ! v \<longleftrightarrow> v \<in> insert next S"
    and out: "\<forall>v<n. v \<notin> insert next S \<longrightarrow> S = {} \<and> untouched st v \<or> nearest distance S st v"
  shows "ok_in (distance_error n distance)
    (\<lambda>st'. sized n st' \<and> included st' = included st \<and> tree_edges st' = tree_edges st \<and>
      (\<forall>v<n. v \<notin> insert next S \<longrightarrow> nearest distance (insert next S) st' v))
    (fold_result (prim_relax distance next) [0..<n] st)"
proof -
  let ?I = "\<lambda>c st'. sized n st' \<and> included st' = included st \<and> tree_edges st' = tree_edges st \<and>
      (\<forall>v<n. v \<notin> insert next S \<longrightarrow> (if v < c then nearest distance (insert next S) st' v
         else S = {} \<and> untouched st' v \<or> nearest distance S st' v))"
  have "ok_in (distance_error n distance) (?I n) (fold_result (prim_relax distance next) [0..<n] st)"
  proof (rule fold_result_upt [where I = ?I])
    fix c st'
    assume c: "c < n" and I: "?I c st'"
    show "ok_in (distance_error n distance) (?I (Suc c)) (prim_relax distance next c st')"
    proof (cases "c \<in> insert next S")
      case True
      then have "prim_relax distance next c st' = Inr st'"
        using I inc c by (auto simp: prim_relax_def)
      then show ?thesis using I True by (auto simp: less_Suc_eq)
    next
      case False
      then have "ok_in (\<lambda>e. distance next c = Inl e)
        (\<lambda>st''. sized n st'' \<and> included st'' = included st' \<and> tree_edges st'' = tree_edges st' \<and>
          nearest distance (insert next S) st'' c \<and>
          (\<forall>x. x \<noteq> c \<longrightarrow> best_distance st'' ! x = best_distance st' ! x \<and> parents st'' ! x = parents st' ! x))
        (prim_relax distance next c st')"
        using I c inc assms by (intro prim_relax_nearest) auto
      then show ?thesis
      proof (rule ok_in_mono)
        fix e assume "distance next c = Inl e"
        then show "distance_error n distance e" using c False assms(2) by (auto simp: distance_error_def)
      next
        fix st'' assume st'': "sized n st'' \<and> included st'' = included st' \<and> tree_edges st'' = tree_edges st' \<and>
          nearest distance (insert next S) st'' c \<and>
          (\<forall>x. x \<noteq> c \<longrightarrow> best_distance st'' ! x = best_distance st' ! x \<and> parents st'' ! x = parents st' ! x)"
        have "nearest distance R st'' v = nearest distance R st' v" "untouched st'' v = untouched st' v"
          if "v \<noteq> c" for R v
          using st'' that by (simp_all add: nearest_def untouched_def)
        then show "?I (Suc c) st''" using I st'' by (auto simp: less_Suc_eq)
      qed
    qed
  qed (use assms in auto)
  then show ?thesis by (rule ok_in_mono) auto
qed

lemma weight_of_remove:
  assumes "finite F" and "f \<in> F"
  shows "weight_of w F = w (fst f) (snd f) + weight_of w (F - {f})"
  using sum.remove [OF assms, of "\<lambda>(a, b). w a b"] by (simp add: weight_of_def split_beta)

lemma grown_extend:
  assumes grown: "grown n distance S es" and weights: "edge_weights n distance"
    and S: "0 \<in> S" "S \<subseteq> {..<n}" "v < n" "v \<notin> S" "u \<in> S" and d: "distance u v = Inr d"
    and least: "\<And>a b. a \<in> S \<Longrightarrow> b < n \<Longrightarrow> b \<notin> S \<Longrightarrow> \<exists>d'. distance a b = Inr d' \<and> d \<le> d'"
  shows "grown n distance (insert v S) (es @ [\<lparr>edge_from = u, edge_to = v, edge_distance = d\<rparr>])"
    (is "grown n distance _ (es @ [?e])")
proof -
  have fin: "finite S" by (rule finite_subset [OF S(2)]) simp
  have ends: "ends (es @ [?e]) = insert (u, v) (ends es)" by simp
  define D where "D = ends (es @ [?e])"
  have up: "joined (ends es) \<subseteq> joined D" by (intro joined_mono) (auto simp: ends D_def)
  have old: "\<forall>x\<in>S. (0, x) \<in> joined (ends es)" "ends es \<subseteq> S \<times> S" using grown by (simp_all add: grown_def)
  have uv: "(u, v) \<in> joined D" by (intro joined_edge) (simp add: D_def)
  have kept: "(0, x) \<in> joined D" if "x \<in> S" for x
    by (rule subsetD [OF up bspec [OF old(1) that]])
  have new: "\<forall>x\<in>insert v S. (0, x) \<in> joined D"
    using kept joined_trans [OF kept [OF S(5)] uv] by blast
  have "saves n distance (es @ [?e])" unfolding saves_def
  proof (intro allI impI)
    fix F :: "(nat \<times> nat) set"
    assume F: "F \<subseteq> {..<n} \<times> {..<n}" "connects n F"
    then obtain F' where F': "F' \<subseteq> F" "connects n (F' \<union> ends es)"
      "weight_of (weight_at distance) F' + sum_list (map edge_distance es) \<le> weight_of (weight_at distance) F"
      using grown unfolding grown_def saves_def by blast
    obtain a b f where f: "a \<in> S" "b \<notin> S" "f \<in> F'" "f = (a, b) \<or> f = (b, a)"
      "connects n ((F' - {f}) \<union> insert (u, v) (ends es))"
      by (rule exchange_edge [OF S(1,4,5) old(2,1) F'(2) S(3)])
    have ab: "a < n" "b < n" using f(3,4) F'(1) F(1) by auto
    have "distance b a = distance a b" using weights ab by (simp add: edge_weights_def)
    then have "d \<le> weight_at distance (fst f) (snd f)"
      using least [OF f(1) ab(2) f(2)] f(4) by (auto simp: weight_at_def)
    moreover have "finite F'" by (rule finite_subset [OF subset_trans [OF F'(1) F(1)]]) simp
    ultimately have "weight_of (weight_at distance) (F' - {f}) + sum_list (map edge_distance (es @ [?e]))
        \<le> weight_of (weight_at distance) F"
      using F'(3) weight_of_remove [OF _ f(3), of "weight_at distance"] by simp
    then show "\<exists>F''\<subseteq>F. connects n (F'' \<union> ends (es @ [?e])) \<and>
      weight_of (weight_at distance) F'' + sum_list (map edge_distance (es @ [?e])) \<le> weight_of (weight_at distance) F"
      using f(5) F'(1) unfolding ends by blast
  qed
  then show ?thesis using grown new old(2) S fin d unfolding D_def grown_def by (auto simp del: ends_simps(2) simp: ends)
qed

lemma set_True_nth:
  "v < length xs \<Longrightarrow> xs[v := True] ! x \<longleftrightarrow> x = v \<or> xs ! x"
  by (cases "x = v") simp_all

lemma tree_set_update:
  assumes "v < n" and "length (included st) = n"
  shows "tree_set n (st\<lparr>included := (included st)[v := True], tree_edges := es\<rparr>) = insert v (tree_set n st)"
  using assms by (auto simp: tree_set_def set_True_nth)

lemma tree_set_outside:
  assumes "card (tree_set n st) < n"
  shows "filter (\<lambda>v. \<not> included st ! v) [0..<n] \<noteq> []"
proof
  assume "filter (\<lambda>v. \<not> included st ! v) [0..<n] = []"
  then have "tree_set n st = {..<n}" by (auto simp: tree_set_def filter_empty_conv)
  then show False using assms by simp
qed

lemma prim_start_nth: "v < n \<Longrightarrow> best_distance (prim_start n) ! v = (if v = 0 then 0 else u64_max)"
  and prim_start_parent: "v < n \<Longrightarrow> parents (prim_start n) ! v = None"
  and prim_start_included: "v < n \<Longrightarrow> \<not> included (prim_start n) ! v"
  and prim_start_sized: "sized n (prim_start n)"
  and prim_start_edges: "tree_edges (prim_start n) = []"
  by (auto simp: prim_start_def sized_def nth_list_update)

lemma prim_start_tree: "tree_set n (prim_start n) = {}"
  by (auto simp: tree_set_def prim_start_included)

text \<open>After the chosen vertex joined the tree, the scan of the others restores the invariant.\<close>

lemma prim_scan:
  assumes weights: "edge_weights n distance" and v: "v < n" "v \<notin> tree_set n st"
    and sized: "sized n st" and card: "card (tree_set n st) = k"
    and zero: "0 \<in> insert v (tree_set n st)" and grown: "grown n distance (insert v (tree_set n st)) es"
    and out: "\<forall>x<n. x \<notin> insert v (tree_set n st) \<longrightarrow>
      tree_set n st = {} \<and> untouched st x \<or> nearest distance (tree_set n st) st x"
    and pairs: "\<forall>u\<in>insert v (tree_set n st). \<forall>x\<in>insert v (tree_set n st). u \<noteq> x \<longrightarrow> is_ok (distance u x)"
  shows "ok_in (distance_error n distance) (prim_invariant n distance (Suc k))
    (fold_result (prim_relax distance v) [0..<n]
      (st\<lparr>included := (included st)[v := True], tree_edges := es\<rparr>))"
proof -
  let ?S = "tree_set n st" and ?st = "st\<lparr>included := (included st)[v := True], tree_edges := es\<rparr>"
  have S: "?S \<subseteq> {..<n}" by (auto simp: tree_set_def)
  then have fin: "finite ?S" by (rule finite_subset) simp
  have len: "length (included st) = n" using sized by (simp add: sized_def)
  have ok: "ok_in (distance_error n distance)
    (\<lambda>st'. sized n st' \<and> included st' = included ?st \<and> tree_edges st' = tree_edges ?st \<and>
      (\<forall>x<n. x \<notin> insert v ?S \<longrightarrow> nearest distance (insert v ?S) st' x))
    (fold_result (prim_relax distance v) [0..<n] ?st)"
  proof (rule prim_relax_all [OF _ v(1) weights S])
    show "sized n ?st" using sized by (simp add: sized_def)
    show "\<forall>x<n. included ?st ! x \<longleftrightarrow> x \<in> insert v ?S"
      using len v(1) by (auto simp: tree_set_def set_True_nth)
    show "\<forall>x<n. x \<notin> insert v ?S \<longrightarrow> ?S = {} \<and> untouched ?st x \<or> nearest distance ?S ?st x"
      using out by (simp add: untouched_def nearest_def)
  qed
  show ?thesis
  proof (rule ok_in_mono [OF ok])
    fix st' assume st': "sized n st' \<and> included st' = included ?st \<and> tree_edges st' = tree_edges ?st \<and>
      (\<forall>x<n. x \<notin> insert v ?S \<longrightarrow> nearest distance (insert v ?S) st' x)"
    then have "tree_set n st' = tree_set n ?st" by (simp add: tree_set_def)
    then have S': "tree_set n st' = insert v ?S" using tree_set_update [OF v(1) len] by simp
    show "prim_invariant n distance (Suc k) st'"
      unfolding prim_invariant_def S' using st' zero grown pairs fin v(2) card by simp
  qed
qed

lemma prim_round_keeps:
  assumes weights: "edge_weights n distance" and k: "k < n" and inv: "prim_invariant n distance k st"
  shows "ok_in (distance_error n distance) (prim_invariant n distance (Suc k)) (prim_round distance n r st)"
proof -
  let ?S = "tree_set n st"
  let ?key = "\<lambda>v. (best_distance st ! v, v)"
  have sized: "sized n st" and card: "card ?S = k" using inv by (simp_all add: prim_invariant_def)
  obtain v where v: "min_by_key ?key (filter (\<lambda>v. \<not> included st ! v) [0..<n]) = Some v"
    using tree_set_outside [of n st] card k by (cases "min_by_key ?key (filter (\<lambda>v. \<not> included st ! v) [0..<n])") auto
  note chosen = min_by_key_Some [OF v]
  have vn: "v < n" "v \<notin> ?S" using chosen(1) by (auto simp: tree_set_def)
  have least: "?key v \<le> ?key x" if "x < n" "x \<notin> ?S" for x
    using chosen(2) that by (simp add: tree_set_def)
  show ?thesis
  proof (cases "k = 0")
    case True
    then have st: "st = prim_start n" using inv by (simp add: prim_invariant_def)
    then have S: "?S = {}" by (simp add: prim_start_tree)
    have v0: "v = 0" using least [of 0] k S vn by (auto simp: st prim_start_nth split: if_splits)
    have "grown n distance {0} []"
      unfolding grown_def by (auto simp: saves_def)
    then have "ok_in (distance_error n distance) (prim_invariant n distance (Suc k))
      (fold_result (prim_relax distance v) [0..<n] (st\<lparr>included := (included st)[v := True], tree_edges := []\<rparr>))"
      using S v0 st by (intro prim_scan [OF weights vn sized card])
        (auto simp: untouched_def prim_start_nth prim_start_parent)
    then show ?thesis using v v0 k
      by (simp add: prim_round_def st prim_start_nth prim_start_parent prim_start_edges u64_max_def)
  next
    case False
    then have I: "0 \<in> ?S" "grown n distance ?S (tree_edges st)"
      "\<forall>x<n. x \<notin> ?S \<longrightarrow> nearest distance ?S st x"
      "\<forall>u\<in>?S. \<forall>x\<in>?S. u \<noteq> x \<longrightarrow> is_ok (distance u x)"
      using inv by (simp_all add: prim_invariant_def)
    have near: "nearest distance ?S st v" using I(3) vn by blast
    then obtain u where u: "u \<in> ?S" "parents st ! v = Some u" "distance u v = Inr (best_distance st ! v)"
      by (auto simp: nearest_def)
    have un: "u < n" using u(1) by (simp add: tree_set_def)
    then have small: "best_distance st ! v < u64_max" using weights u(3) vn(1) by (simp add: edge_weights_def)
    let ?e = "\<lparr>edge_from = u, edge_to = v, edge_distance = best_distance st ! v\<rparr>"
    have "grown n distance (insert v ?S) (tree_edges st @ [?e])"
    proof (rule grown_extend [OF I(2) weights I(1) _ vn u(1,3)])
      show "?S \<subseteq> {..<n}" by (auto simp: tree_set_def)
      fix a b assume ab: "a \<in> ?S" "b < n" "b \<notin> ?S"
      then obtain d' where "distance a b = Inr d'" "best_distance st ! b \<le> d'"
        using I(3) by (auto simp: nearest_def)
      moreover have "best_distance st ! v \<le> best_distance st ! b" using least [OF ab(2,3)] by auto
      ultimately show "\<exists>d'. distance a b = Inr d' \<and> best_distance st ! v \<le> d'" by auto
    qed
    moreover have "is_ok (distance x v)" "is_ok (distance v x)" if "x \<in> ?S" for x
    proof -
      have "x < n" using that by (simp add: tree_set_def)
      then have "distance v x = distance x v" using weights vn(1) by (simp add: edge_weights_def)
      then show "is_ok (distance x v)" "is_ok (distance v x)" using near that by (auto simp: nearest_def)
    qed
    ultimately have "ok_in (distance_error n distance) (prim_invariant n distance (Suc k))
      (fold_result (prim_relax distance v) [0..<n]
        (st\<lparr>included := (included st)[v := True], tree_edges := tree_edges st @ [?e]\<rparr>))"
      using I by (intro prim_scan [OF weights vn sized card]) auto
    then show ?thesis using v u(2) small by (simp add: prim_round_def)
  qed
qed

text \<open>
  A spanning tree of least weight: \<open>n - 1\<close> edges with the weights of the code, which connect
  every location, and no connecting set of edges is lighter.
\<close>

definition least_tree :: "nat \<Rightarrow> distance_fn \<Rightarrow> mst_edge list \<Rightarrow> bool" where
  "least_tree n distance es \<longleftrightarrow>
     Suc (length es) = n \<and> connects n (ends es) \<and>
     (\<forall>e\<in>set es. edge_from e < n \<and> edge_to e < n \<and> edge_from e \<noteq> edge_to e \<and>
        distance (edge_from e) (edge_to e) = Inr (edge_distance e)) \<and>
     (\<forall>F. F \<subseteq> {..<n} \<times> {..<n} \<longrightarrow> connects n F \<longrightarrow>
        sum_list (map edge_distance es) \<le> weight_of (weight_at distance) F)"

lemma minimum_spanning_tree_ok:
  assumes weights: "edge_weights n distance" and "0 < n"
  shows "ok_in (distance_error n distance)
    (\<lambda>es. least_tree n distance es \<and> (\<forall>u<n. \<forall>v<n. u \<noteq> v \<longrightarrow> is_ok (distance u v)))
    (minimum_spanning_tree n distance)"
proof -
  have "ok_in (distance_error n distance) (prim_invariant n distance n)
    (fold_result (prim_round distance n) [0..<n] (prim_start n))"
  proof (rule fold_result_upt [where I = "prim_invariant n distance"])
    show "prim_invariant n distance 0 (prim_start n)"
      by (simp add: prim_invariant_def prim_start_sized prim_start_tree)
  qed (use prim_round_keeps [OF weights] in auto)
  then have "ok_in (distance_error n distance)
    (\<lambda>es. least_tree n distance es \<and> (\<forall>u<n. \<forall>v<n. u \<noteq> v \<longrightarrow> is_ok (distance u v)))
    (bind_result (fold_result (prim_round distance n) [0..<n] (prim_start n)) (\<lambda>st. Inr (tree_edges st)))"
  proof (rule ok_in_bind)
    fix st assume inv: "prim_invariant n distance n st"
    have "tree_set n st \<subseteq> {..<n}" by (auto simp: tree_set_def)
    then have S: "tree_set n st = {..<n}" using inv by (intro card_subset_eq) (auto simp: prim_invariant_def)
    have g: "grown n distance {..<n} (tree_edges st)" and p: "\<forall>u<n. \<forall>v<n. u \<noteq> v \<longrightarrow> is_ok (distance u v)"
      using inv S assms(2) by (auto simp: prim_invariant_def)
    have "least_tree n distance (tree_edges st)"
      unfolding least_tree_def
    proof (intro conjI)
      show "Suc (length (tree_edges st)) = n" "connects n (ends (tree_edges st))"
        using g by (simp_all add: grown_def connects_def)
      show "\<forall>e\<in>set (tree_edges st). edge_from e < n \<and> edge_to e < n \<and> edge_from e \<noteq> edge_to e \<and>
          distance (edge_from e) (edge_to e) = Inr (edge_distance e)"
        using g by (fastforce simp: grown_def ends_def)
      show "\<forall>F. F \<subseteq> {..<n} \<times> {..<n} \<longrightarrow> connects n F \<longrightarrow>
          sum_list (map edge_distance (tree_edges st)) \<le> weight_of (weight_at distance) F"
        using g unfolding grown_def saves_def by (meson add_leE)
    qed
    then show "ok_in (distance_error n distance)
      (\<lambda>es. least_tree n distance es \<and> (\<forall>u<n. \<forall>v<n. u \<noteq> v \<longrightarrow> is_ok (distance u v))) (Inr (tree_edges st))"
      using p by simp
  qed
  then show ?thesis using assms(2) by (simp add: minimum_spanning_tree_def)
qed

end
