(* ===== verification/Mst_Walk.thy ===== *)
theory Mst_Walk
  imports Mst_Prim
begin

text \<open>
  The walk around the doubled tree, with the measure that makes it end, its shortcut, and the
  double tree generator as a whole.
\<close>

section \<open>The walk around the doubled tree\<close>

definition beside :: "(nat \<times> nat) set \<Rightarrow> nat \<Rightarrow> nat set" where
  "beside E v = {u. (v, u) \<in> E \<or> (u, v) \<in> E}"

lemma beside_simps [simp]: "beside {} v = {}" "beside (E \<union> D) v = beside E v \<union> beside D v"
  "beside (insert (a, b) E) v = (if v = a then {b} else {}) \<union> (if v = b then {a} else {}) \<union> beside E v"
  by (auto simp: beside_def)

lemma add_tree_edges:
  assumes "\<forall>e\<in>set es. edge_from e < n \<and> edge_to e < n \<and> edge_from e \<noteq> edge_to e" and "length A = n"
  obtains B where "fold_result (add_tree_edge n) es A = Inr B" "length B = n"
    "\<forall>v<n. fst ` set (B ! v) = fst ` set (A ! v) \<union> beside (ends es) v"
proof -
  have "\<exists>B. fold_result (add_tree_edge n) es A = Inr B \<and> length B = n \<and>
    (\<forall>v<n. fst ` set (B ! v) = fst ` set (A ! v) \<union> beside (ends es) v)"
    using assms
  proof (induction es arbitrary: A)
    case (Cons e es)
    define A' where "A' = A[edge_from e := A ! edge_from e @ [(edge_to e, edge_distance e)]]"
    define A'' where "A'' = A'[edge_to e := A' ! edge_to e @ [(edge_from e, edge_distance e)]]"
    have e: "edge_from e < n" "edge_to e < n" "edge_from e \<noteq> edge_to e" using Cons.prems by simp_all
    then have step: "add_tree_edge n e A = Inr A''"
      by (simp add: add_tree_edge_def A'_def A''_def Let_def)
    have A'': "fst ` set (A'' ! v) = fst ` set (A ! v) \<union> (if v = edge_from e then {edge_to e} else {}) \<union>
        (if v = edge_to e then {edge_from e} else {})" if "v < n" for v
      using that e Cons.prems(2) unfolding A''_def A'_def
      by (cases "v = edge_from e"; cases "v = edge_to e") auto
    obtain B where B: "fold_result (add_tree_edge n) es A'' = Inr B" "length B = n"
      "\<forall>v<n. fst ` set (B ! v) = fst ` set (A'' ! v) \<union> beside (ends es) v"
      using Cons.IH [of A''] Cons.prems by (auto simp: A''_def A'_def)
    have "\<forall>v<n. fst ` set (B ! v) = fst ` set (A ! v) \<union> beside (ends (e # es)) v"
      using B(3) A'' by auto
    then show ?case using step B(1,2) by (intro exI [of _ B]) simp
  qed simp
  then show thesis using that by blast
qed

definition seen_set :: "walk_state \<Rightarrow> nat set" where
  "seen_set st = {v. v < length (walk_seen st) \<and> walk_seen st ! v}"

text \<open>The neighbours of the adjacency lists are the vertices beside one another in a graph.\<close>

definition lists_graph :: "nat \<Rightarrow> (nat \<times> nat) set \<Rightarrow> (nat \<times> 'a) list list \<Rightarrow> bool" where
  "lists_graph n E adjacency \<longleftrightarrow> length adjacency = n \<and> E \<subseteq> {..<n} \<times> {..<n} \<and>
     (\<forall>v<n. fst ` set (adjacency ! v) = beside E v)"

definition walk_invariant :: "nat \<Rightarrow> (nat \<times> nat) set \<Rightarrow> (nat \<times> u64) list list \<Rightarrow> nat \<Rightarrow> walk_state \<Rightarrow> bool" where
  "walk_invariant n E adjacency root st \<longleftrightarrow>
     length (walk_seen st) = n \<and> root \<in> seen_set st \<and>
     (\<forall>(v, k)\<in>set (walk_stack st). v \<in> seen_set st \<and> k \<le> length (adjacency ! v) \<and>
        (\<forall>j<k. fst (adjacency ! v ! j) \<in> seen_set st)) \<and>
     (\<forall>v\<in>seen_set st. v \<in> fst ` set (walk_stack st) \<or> beside E v \<subseteq> seen_set st) \<and>
     successively (\<lambda>a b. a \<in> beside E b) (map fst (walk_stack st)) \<and>
     set (walk_tour st) = seen_set st \<and> walk_tour st \<noteq> [] \<and> hd (walk_tour st) = root \<and>
     successively (\<lambda>a b. b \<in> beside E a) (walk_tour st) \<and>
     (walk_stack st \<noteq> [] \<longrightarrow> fst (hd (walk_stack st)) = List.last (walk_tour st)) \<and>
     (if walk_stack st = [] then List.last (walk_tour st) else fst (List.last (walk_stack st))) = root \<and>
     length (walk_tour st) + max 1 (length (walk_stack st)) = 2 * card (seen_set st)"

definition walk_left :: "nat \<Rightarrow> (nat \<times> u64) list list \<Rightarrow> walk_state \<Rightarrow> nat" where
  "walk_left n adjacency st =
     sum_list (map (\<lambda>(v, k). length (adjacency ! v) - k + 1) (walk_stack st)) +
     (\<Sum>v\<in>{..<n} - seen_set st. length (adjacency ! v) + 2)"

lemma beside_sym: "a \<in> beside E b \<longleftrightarrow> b \<in> beside E a"
  by (auto simp: beside_def)

lemma finite_seen [simp]: "finite (seen_set st)"
  by (simp add: seen_set_def)

lemma seen_set_push:
  "child < length (walk_seen st) \<Longrightarrow> seen_set \<lparr>walk_seen = (walk_seen st)[child := True], walk_tour = t, walk_stack = s\<rparr> =
    insert child (seen_set st)"
  by (auto simp: seen_set_def set_True_nth)

lemma walk_step_keeps:
  assumes graph: "lists_graph n E adjacency" and inv: "walk_invariant n E adjacency root st"
    and busy: "walk_stack st \<noteq> []"
  shows "walk_invariant n E adjacency root (walk_step adjacency st) \<and>
    walk_left n adjacency (walk_step adjacency st) < walk_left n adjacency st"
proof -
  obtain v k below where top: "walk_stack st = (v, k) # below" using busy by (cases "walk_stack st") auto
  have v: "v \<in> seen_set st" "v < n" "k \<le> length (adjacency ! v)"
    using inv top by (auto simp: walk_invariant_def seen_set_def)
  have lists: "fst ` set (adjacency ! v) = beside E v" "E \<subseteq> {..<n} \<times> {..<n}"
    using graph v(2) by (simp_all add: lists_graph_def)
  show ?thesis
  proof (cases "k < length (adjacency ! v)")
    case False
    then have k: "k = length (adjacency ! v)" using v(3) by simp
    have "\<forall>j<k. fst (adjacency ! v ! j) \<in> seen_set st" using inv unfolding walk_invariant_def top by auto
    then have all: "beside E v \<subseteq> seen_set st"
      unfolding lists(1) [symmetric] k by (metis image_subsetI in_set_conv_nth)
    define st' where "st' = st\<lparr>walk_stack := below,
      walk_tour := (case below of [] \<Rightarrow> walk_tour st | (parent, _) # _ \<Rightarrow> walk_tour st @ [parent])\<rparr>"
    have step: "walk_step adjacency st = st'" using False top by (simp add: walk_step_def st'_def)
    have seen: "seen_set st' = seen_set st" by (simp add: st'_def seen_set_def)
    have "walk_invariant n E adjacency root st'"
    proof (cases below)
      case Nil
      then show ?thesis using inv top all unfolding walk_invariant_def seen
        by (auto simp: st'_def)
    next
      case (Cons q rest)
      obtain u j where q: "q = (u, j)" by (cases q)
      have u: "u \<in> seen_set st" "u \<in> beside E v" "List.last (walk_tour st) = v"
        using inv top Cons q by (auto simp: walk_invariant_def beside_sym)
      then show ?thesis using inv top all Cons q unfolding walk_invariant_def seen
        by (auto simp: st'_def successively_append_iff hd_append)
    qed
    moreover have "walk_left n adjacency st' < walk_left n adjacency st"
      using top False by (simp add: walk_left_def seen) (simp add: st'_def)
    ultimately show ?thesis using step by simp
  next
    case True
    define child where "child = fst (adjacency ! v ! k)"
    have child: "child \<in> beside E v"
      using True lists(1) unfolding child_def by (metis imageI nth_mem)
    then have "child < n" using lists(2) by (auto simp: beside_def)
    show ?thesis
    proof (cases "walk_seen st ! child")
      case seen: True
      define st' where "st' = st\<lparr>walk_stack := (v, Suc k) # below\<rparr>"
      have step: "walk_step adjacency st = st'" using True seen top by (simp add: walk_step_def st'_def child_def Let_def)
      have same: "seen_set st' = seen_set st" by (simp add: st'_def seen_set_def)
      have c: "child \<in> seen_set st" using seen \<open>child < n\<close> inv by (simp add: seen_set_def walk_invariant_def)
      have "walk_invariant n E adjacency root st'"
        using inv top True c unfolding walk_invariant_def same
        by (auto simp: st'_def child_def less_Suc_eq)
      moreover have "walk_left n adjacency st' < walk_left n adjacency st"
        using top True by (simp add: walk_left_def same) (simp add: st'_def)
      ultimately show ?thesis using step by simp
    next
      case fresh: False
      define st' where "st' = \<lparr>walk_seen = (walk_seen st)[child := True], walk_tour = walk_tour st @ [child],
        walk_stack = (child, 0) # (v, Suc k) # below\<rparr>"
      have step: "walk_step adjacency st = st'" using True fresh top by (simp add: walk_step_def st'_def child_def Let_def)
      have len: "length (walk_seen st) = n" using inv by (simp add: walk_invariant_def)
      have more: "seen_set st' = insert child (seen_set st)" using \<open>child < n\<close> len by (simp add: st'_def seen_set_push)
      have new: "child \<notin> seen_set st" using fresh by (simp add: seen_set_def)
      have last: "List.last (walk_tour st) = v" using inv top by (simp add: walk_invariant_def)
      have "walk_invariant n E adjacency root st'"
        unfolding walk_invariant_def more
      proof (intro conjI)
        note I = inv [unfolded walk_invariant_def top]
        show "length (walk_seen st') = n" using len by (simp add: st'_def)
        show "root \<in> insert child (seen_set st)" using I by simp
        show "\<forall>(v, k)\<in>set (walk_stack st'). v \<in> insert child (seen_set st) \<and> k \<le> length (adjacency ! v) \<and>
            (\<forall>j<k. fst (adjacency ! v ! j) \<in> insert child (seen_set st))"
          using I True by (auto simp: st'_def child_def less_Suc_eq)
        show "\<forall>v\<in>insert child (seen_set st). v \<in> fst ` set (walk_stack st') \<or> beside E v \<subseteq> insert child (seen_set st)"
          using I by (auto simp: st'_def)
        show "successively (\<lambda>a b. a \<in> beside E b) (map fst (walk_stack st'))"
          using I child by (auto simp: st'_def)
        show "set (walk_tour st') = insert child (seen_set st)" using I by (simp add: st'_def)
        show "walk_tour st' \<noteq> []" by (simp add: st'_def)
        show "hd (walk_tour st') = root" using I by (simp add: st'_def)
        show "successively (\<lambda>a b. b \<in> beside E a) (walk_tour st')"
          using I child by (auto simp: st'_def successively_append_iff)
        show "walk_stack st' \<noteq> [] \<longrightarrow> fst (hd (walk_stack st')) = List.last (walk_tour st')" by (simp add: st'_def)
        show "(if walk_stack st' = [] then List.last (walk_tour st') else fst (List.last (walk_stack st'))) = root"
          using I by (auto simp: st'_def split: if_splits)
        show "length (walk_tour st') + max 1 (length (walk_stack st')) = 2 * card (insert child (seen_set st))"
          using I new by (simp add: st'_def)
      qed
      moreover have "walk_left n adjacency st' < walk_left n adjacency st"
      proof -
        have "{..<n} - seen_set st' = ({..<n} - seen_set st) - {child}" using more by auto
        then have "(\<Sum>x\<in>{..<n} - seen_set st. length (adjacency ! x) + 2) =
            length (adjacency ! child) + 2 + (\<Sum>x\<in>{..<n} - seen_set st'. length (adjacency ! x) + 2)"
          using sum.remove [of "{..<n} - seen_set st" child "\<lambda>x. length (adjacency ! x) + 2"] \<open>child < n\<close> new by simp
        then show ?thesis using top True by (simp add: walk_left_def) (simp add: st'_def)
      qed
      ultimately show ?thesis using step by simp
    qed
  qed
qed

text \<open>The walk: back at the root, along the tree, every location, \<open>2 n - 1\<close> entries.\<close>

definition closed_walk :: "nat \<Rightarrow> (nat \<times> nat) set \<Rightarrow> nat \<Rightarrow> nat list \<Rightarrow> bool" where
  "closed_walk n E root tour \<longleftrightarrow> tour \<noteq> [] \<and> hd tour = root \<and> List.last tour = root \<and> set tour = {..<n} \<and>
     successively (\<lambda>a b. b \<in> beside E a) tour \<and> Suc (length tour) = 2 * n"

lemma joined_closed:
  assumes "(a, b) \<in> joined E" and "a \<in> S" and "\<forall>v\<in>S. beside E v \<subseteq> S"
  shows "b \<in> S"
  using assms(1) unfolding joined_def
  by (induction rule: rtrancl_induct) (use assms(2,3) in \<open>auto simp: beside_def\<close>)

lemma sorted_lists_graph:
  assumes "length B = n" and "E \<subseteq> {..<n} \<times> {..<n}" and "\<forall>v<n. fst ` set (B ! v) = beside E v"
  shows "lists_graph n E (map (sort_key f) B)"
  using assms by (simp add: lists_graph_def)

lemma walk_start_invariant:
  assumes "root < n"
  shows "walk_invariant n E adjacency root (walk_start n root)"
proof -
  have "seen_set (walk_start n root) = {root}"
    using assms by (auto simp: seen_set_def walk_start_def set_True_nth)
  then show ?thesis by (simp add: walk_invariant_def) (simp add: walk_start_def)
qed

lemma doubled_tree_euler_tour_ok:
  assumes edges: "\<forall>e\<in>set es. edge_from e < n \<and> edge_to e < n \<and> edge_from e \<noteq> edge_to e"
    and "Suc (length es) = n" "connects n (ends es)" "root < n"
  obtains tour where "doubled_tree_euler_tour n es root = Some (Inr tour)" "closed_walk n (ends es) root tour"
proof -
  let ?E = "ends es"
  obtain B where B: "fold_result (add_tree_edge n) es (replicate n []) = Inr B" "length B = n"
    "\<forall>v<n. fst ` set (B ! v) = fst ` set (replicate n ([] :: (nat \<times> nat) list) ! v) \<union> beside ?E v"
    using add_tree_edges [OF edges, of "replicate n []"] by auto
  define adjacency where "adjacency = map (sort_key (\<lambda>(node, distance). (distance, node))) B"
  have "?E \<subseteq> {..<n} \<times> {..<n}" using edges by (auto simp: ends_def)
  then have graph: "lists_graph n ?E adjacency"
    unfolding adjacency_def using B(2,3) by (intro sorted_lists_graph) auto
  obtain st where st: "while_option (\<lambda>st. walk_stack st \<noteq> []) (walk_step adjacency) (walk_start n root) = Some st"
    "walk_invariant n ?E adjacency root st" "\<not> walk_stack st \<noteq> []"
    using while_option_ends [where I = "walk_invariant n ?E adjacency root" and f = "walk_left n adjacency"
        and b = "\<lambda>st. walk_stack st \<noteq> []" and c = "walk_step adjacency",
        OF walk_start_invariant [OF assms(4)] walk_step_keeps [OF graph]] by blast
  note I = st(2) [unfolded walk_invariant_def]
  have "v \<in> seen_set st" if "v < n" for v
  proof (rule joined_closed)
    have "(0, root) \<in> joined ?E" "(0, v) \<in> joined ?E" using assms(3,4) that by (simp_all add: connects_def)
    then show "(root, v) \<in> joined ?E" using joined_sym joined_trans by blast
    show "root \<in> seen_set st" "\<forall>v\<in>seen_set st. beside ?E v \<subseteq> seen_set st" using I st(3) by auto
  qed
  then have seen: "seen_set st = {..<n}" using I by (auto simp: seen_set_def)
  then have "False \<notin> set (walk_seen st)" using I by (auto simp: in_set_conv_nth seen_set_def)
  then have "doubled_tree_euler_tour n es root = Some (Inr (walk_tour st))"
    using assms B(1) st(1) by (simp add: doubled_tree_euler_tour_def adjacency_def Let_def)
  moreover have "closed_walk n ?E root (walk_tour st)"
    using I st(3) seen by (simp add: closed_walk_def)
  ultimately show thesis by (rule that)
qed

lemma shortcut_fold:
  assumes "set tour \<subseteq> {..<n}" and "length seen = n" and "\<forall>v<n. seen ! v \<longleftrightarrow> v \<in> set route" and "distinct route"
    and "set route \<subseteq> {..<n}"
  obtains seen' route' where "fold_result (shortcut_step n) tour (seen, route) = Inr (seen', route @ route')"
    "distinct (route @ route')" "set (route @ route') = set route \<union> set tour" "route = [] \<longrightarrow> tour \<noteq> [] \<longrightarrow> hd route' = hd tour"
proof -
  have "\<exists>seen' route'. fold_result (shortcut_step n) tour (seen, route) = Inr (seen', route @ route') \<and>
    distinct (route @ route') \<and> set (route @ route') = set route \<union> set tour \<and>
    (route = [] \<longrightarrow> tour \<noteq> [] \<longrightarrow> hd route' = hd tour)"
    using assms
  proof (induction tour arbitrary: seen route)
    case (Cons v tour)
    show ?case
    proof (cases "seen ! v")
      case True
      then have "v \<in> set route" using Cons.prems by auto
      moreover have "route \<noteq> []" using \<open>v \<in> set route\<close> by auto
      moreover obtain seen' route' where "fold_result (shortcut_step n) tour (seen, route) = Inr (seen', route @ route')"
        "distinct (route @ route')" "set (route @ route') = set route \<union> set tour"
        using Cons.IH [of seen route] Cons.prems by auto
      moreover have "fold_result (shortcut_step n) (v # tour) (seen, route) = fold_result (shortcut_step n) tour (seen, route)"
        using True Cons.prems(1) by (simp add: shortcut_step_def)
      ultimately show ?thesis by (intro exI [of _ seen'] exI [of _ route']) auto
    next
      case False
      then have "\<exists>seen' route'. fold_result (shortcut_step n) tour (seen[v := True], route @ [v]) =
          Inr (seen', (route @ [v]) @ route') \<and> distinct ((route @ [v]) @ route') \<and>
          set ((route @ [v]) @ route') = set (route @ [v]) \<union> set tour"
        using Cons.IH [of "seen[v := True]" "route @ [v]"] Cons.prems by (auto simp: set_True_nth)
      then obtain seen' route' where "fold_result (shortcut_step n) tour (seen[v := True], route @ [v]) =
          Inr (seen', route @ v # route')" "distinct (route @ v # route')"
          "set (route @ v # route') = set route \<union> set (v # tour)" by auto
      moreover have "fold_result (shortcut_step n) (v # tour) (seen, route) =
          fold_result (shortcut_step n) tour (seen[v := True], route @ [v])"
        using False Cons.prems(1) by (simp add: shortcut_step_def)
      ultimately show ?thesis by (intro exI [of _ seen'] exI [of _ "v # route'"]) simp
    qed
  qed simp
  then show thesis using that by blast
qed

lemma shortcut_euler_tour_ok:
  assumes "set tour = {..<n}"
  obtains route where "shortcut_euler_tour n tour = Inr route" "distinct route" "set route = {..<n}"
    "tour \<noteq> [] \<longrightarrow> hd route = hd tour"
proof -
  obtain seen' route' where r: "fold_result (shortcut_step n) tour (replicate n False, []) = Inr (seen', [] @ route')"
    "distinct ([] @ route')" "set ([] @ route') = set [] \<union> set tour" "[] = [] \<longrightarrow> tour \<noteq> [] \<longrightarrow> hd route' = hd tour"
    by (rule shortcut_fold [of tour n "replicate n False" "[]"]) (use assms in auto)
  then have "length route' = n" using assms distinct_card [of route'] by simp
  then show thesis using that r assms by (simp add: shortcut_euler_tour_def)
qed

section \<open>Complete orders\<close>

definition whole_route :: "nat \<Rightarrow> nat list \<Rightarrow> bool" where
  "whole_route n order \<longleftrightarrow>
     order \<noteq> [] \<and> distinct order \<and> set order = {..<n} \<and> hd order = 0 \<and> List.last order = n - 1"

lemma whole_route_valid: "whole_route (length (locations p)) order \<Longrightarrow> valid_order p order"
  by (auto simp: whole_route_def valid_order_def Let_def)

lemma set_upto_nonempty: "set xs = {..<n} \<Longrightarrow> 0 < n \<Longrightarrow> xs \<noteq> []"
  by (metis empty_iff lessThan_iff list.set(1))

lemma destination_last:
  assumes "distinct order" and "set order = {..<n}" and "hd order = 0" and "1 < n"
  obtains k where "position_of (n - 1) order = Some k" "whole_route n (remove_at k order @ [n - 1])"
proof -
  have "n - 1 \<in> set order" using assms by simp
  then obtain k where k: "position_of (n - 1) order = Some k"
    using position_of_None [of "n - 1" order] by (cases "position_of (n - 1) order") auto
  note at = position_of_Some [OF k]
  have ne: "order \<noteq> []" using set_upto_nonempty [OF assms(2)] assms(4) by linarith
  have "k \<noteq> 0"
  proof
    assume "k = 0"
    then have "n - 1 = 0" using at(2) ne assms(3) by (simp add: hd_conv_nth)
    then show False using assms(4) by linarith
  qed
  then have hd: "hd (remove_at k order) = 0" using remove_at_hd [of k order] ne assms(3) by simp
  note r = remove_at_distinct [OF assms(1) at(1)]
  have rest: "set (remove_at k order) = {..<n} - {n - 1}" using r(2) at(2) assms(2) by simp
  then have "0 \<in> set (remove_at k order)" using assms(4) by simp
  then have "remove_at k order \<noteq> []" by auto
  then have "hd (remove_at k order @ [n - 1]) = 0" using hd by simp
  moreover have "insert (n - 1) ({..<n} - {n - 1}) = {..<n}" using assms(4) by auto
  ultimately have "whole_route n (remove_at k order @ [n - 1])"
    using r(1) rest by (simp add: whole_route_def)
  with k show thesis by (rule that)
qed

section \<open>The built-in weights\<close>

definition built_in_distance :: "symmetric_distance_strategy \<Rightarrow> bool" where
  "built_in_distance s \<longleftrightarrow>
     s = average_symmetric_distance \<or> s = min_symmetric_distance \<or> s = max_symmetric_distance"

lemmas built_in_distances =
  built_in_distance_def average_symmetric_distance_def min_symmetric_distance_def max_symmetric_distance_def

definition both_ways :: "travel_time_matrix \<Rightarrow> nat \<Rightarrow> nat \<Rightarrow> bool" where
  "both_ways m u v \<longleftrightarrow> travel_minutes m u v \<noteq> None \<and> travel_minutes m v u \<noteq> None"

lemma directed_pair_cases:
  "directed_pair m u v = (case (travel_minutes m u v, travel_minutes m v u) of
     (Some f, Some r) \<Rightarrow> Inr (f, r) | _ \<Rightarrow> Inl NoFeasibleRoute)"
  by (auto simp: directed_pair_def split: option.splits)

lemma built_in_result:
  assumes "built_in_distance s"
  shows "if both_ways m u v then is_ok (symmetric_distance s m u v)
    else symmetric_distance s m u v = Inl NoFeasibleRoute"
  using assms by (auto simp: built_in_distances directed_pair_cases both_ways_def split: option.splits)

lemma built_in_weights:
  assumes "built_in_distance s" and "u32_cells m"
  shows "edge_weights n (symmetric_distance s m)"
proof -
  have small: "t < u64_max" if "travel_minutes m u v = Some t" for t u v
    using travel_minutes_bound [OF assms(2) that] by (simp add: u64_max_def)
  have half: "(f + r) div 2 < u64_max" if "travel_minutes m u v = Some f" "travel_minutes m v u = Some r" for u v f r
    using travel_minutes_bound [OF assms(2) that(1)] travel_minutes_bound [OF assms(2) that(2)]
    by (simp add: u64_max_def)
  show ?thesis using assms(1) small half
    by (auto simp: edge_weights_def built_in_distances directed_pair_cases add.commute min.commute max.commute
        split: option.splits) (auto simp: min_def max_def)
qed

text \<open>The outcome of the tree: the first unreachable pair ends it, otherwise it is a least tree.\<close>

lemma built_in_tree:
  assumes s: "built_in_distance s" and m: "u32_cells m" and n: "0 < n"
  shows "if \<forall>u<n. \<forall>v<n. u \<noteq> v \<longrightarrow> both_ways m u v
    then \<exists>es. minimum_spanning_tree n (symmetric_distance s m) = Inr es \<and> least_tree n (symmetric_distance s m) es
    else minimum_spanning_tree n (symmetric_distance s m) = Inl NoFeasibleRoute"
proof -
  note r = built_in_result [OF s, of m]
  have ok: "ok_in (distance_error n (symmetric_distance s m))
    (\<lambda>es. least_tree n (symmetric_distance s m) es \<and>
      (\<forall>u<n. \<forall>v<n. u \<noteq> v \<longrightarrow> is_ok (symmetric_distance s m u v)))
    (minimum_spanning_tree n (symmetric_distance s m))"
    by (rule minimum_spanning_tree_ok [OF built_in_weights [OF s m] n])
  show ?thesis
  proof (cases "minimum_spanning_tree n (symmetric_distance s m)")
    case (Inl e)
    then obtain u v where "u < n" "v < n" "u \<noteq> v" "symmetric_distance s m u v = Inl e"
      using ok by (auto simp: distance_error_def)
    then show ?thesis using r [of u v] Inl by (auto split: if_splits)
  next
    case (Inr es)
    have "both_ways m u v" if "u < n" "v < n" "u \<noteq> v" for u v
    proof -
      have "is_ok (symmetric_distance s m u v)" using ok Inr that by simp
      then show ?thesis using r [of u v] by (cases "both_ways m u v") auto
    qed
    then show ?thesis using ok Inr by auto
  qed
qed

lemma wf_input_simps:
  assumes "wf_input i"
  shows "0 < length (locations (input_problem i))" "u32_cells (input_matrix i)"
  using assms wf_problem_length unfolding wf_input_def by blast+

text \<open>One run of the generator.\<close>

lemma mst_generate_ok:
  assumes "length (locations (input_problem i)) = n" and "validate_generator_input i = Inr ()"
    and "minimum_spanning_tree n (symmetric_distance s (input_matrix i)) = Inr es"
    and "doubled_tree_euler_tour n es 0 = Some (Inr tour)" and "shortcut_euler_tour n tour = Inr order"
    and "(if n > 1
        then bind_result (ok_or InvalidVisitOrder (position_of (n - 1) order)) (\<lambda>k. Inr (remove_at k order @ [n - 1]))
        else Inr order) = Inr visits"
  shows "mst_generate_detailed s i = Some (Inr \<lparr>mst_distance_strategy = distance_name s, mst_edges = es,
    mst_euler_tour = tour, mst_solution = \<lparr>visit_order = visits\<rparr>\<rparr>)"
  unfolding mst_generate_detailed_def Let_def end_location_index_def
  by (simp only: assms bind_result_simps sum.case option.map)

lemma mst_generates:
  assumes wf: "wf_input i" and s: "built_in_distance s"
    and ok: "validate_generator_input i = Inr ()"
    and reach: "\<forall>u<length (locations (input_problem i)). \<forall>v<length (locations (input_problem i)).
      u \<noteq> v \<longrightarrow> both_ways (input_matrix i) u v"
  obtains r where "mst_generate_detailed s i = Some (Inr r)"
    "whole_route (length (locations (input_problem i))) (visit_order (mst_solution r))"
    "least_tree (length (locations (input_problem i))) (symmetric_distance s (input_matrix i)) (mst_edges r)"
    "closed_walk (length (locations (input_problem i))) (ends (mst_edges r)) 0 (mst_euler_tour r)"
proof -
  let ?n = "length (locations (input_problem i))"
  note n = wf_input_simps [OF wf]
  obtain es where es: "minimum_spanning_tree ?n (symmetric_distance s (input_matrix i)) = Inr es"
    "least_tree ?n (symmetric_distance s (input_matrix i)) es"
    using built_in_tree [OF s n(2,1)] reach by auto
  obtain tour where tour: "doubled_tree_euler_tour ?n es 0 = Some (Inr tour)" "closed_walk ?n (ends es) 0 tour"
    by (rule doubled_tree_euler_tour_ok [of es ?n 0]) (use es(2) n(1) in \<open>auto simp: least_tree_def\<close>)
  obtain order where order: "shortcut_euler_tour ?n tour = Inr order" "distinct order" "set order = {..<?n}"
    "hd order = 0"
    by (rule shortcut_euler_tour_ok [of tour ?n]) (use tour(2) in \<open>auto simp: closed_walk_def\<close>)
  have "\<exists>visits. (if ?n > 1
        then bind_result (ok_or InvalidVisitOrder (position_of (?n - 1) order)) (\<lambda>k. Inr (remove_at k order @ [?n - 1]))
        else Inr order) = Inr visits \<and> whole_route ?n visits"
  proof (cases "1 < ?n")
    case True
    obtain k where k: "position_of (?n - 1) order = Some k" "whole_route ?n (remove_at k order @ [?n - 1])"
      by (rule destination_last [OF order(2,3,4) True])
    then show ?thesis using True by (simp only: if_True ok_or_simps bind_result_simps sum.inject ex_simps simp_thms)
  next
    case False
    then have "?n = 1" using n(1) by linarith
    moreover have "order \<noteq> []" by (rule set_upto_nonempty [OF order(3) n(1)])
    moreover have "List.last order \<in> set order" using \<open>order \<noteq> []\<close> by simp
    ultimately have "whole_route ?n order" using order by (simp add: whole_route_def)
    then show ?thesis using False by (simp only: if_False sum.inject simp_thms)
  qed
  then obtain visits where visits: "(if ?n > 1
        then bind_result (ok_or InvalidVisitOrder (position_of (?n - 1) order)) (\<lambda>k. Inr (remove_at k order @ [?n - 1]))
        else Inr order) = Inr visits" "whole_route ?n visits" by blast
  show thesis
    by (rule that [OF mst_generate_ok [OF refl ok es(1) tour(1) order(1) visits(1)]])
      (simp_all only: mst_double_tree_result.simps solver_solution.simps visits(2) es(2) tour(2))
qed

section \<open>The example request\<close>

lemma average_built_in: "built_in_distance average_symmetric_distance"
  by (simp add: built_in_distance_def)

lemma readme_validates: "validate_generator_input (readme_input sp) = Inr ()"
  by (simp add: validate_generator_input_def readme_defs matrix_size_def)

lemma readme_reaches: "\<forall>u<4. \<forall>v<4. u \<noteq> v \<longrightarrow> both_ways readme_matrix u v"
  by (simp add: both_ways_def readme_matrix_def travel_minutes_def get_def numeral_eq_Suc less_Suc_eq)

text \<open>
  The double tree generator ends on every input, and it fails only for a cancelled run, a
  matrix of the wrong size or a pair of locations that cannot be travelled both ways: otherwise
  its route visits every location once between the fixed endpoints.
\<close>

lemma mst_route_outcome:
  assumes "wf_input i" and "built_in_distance s"
  shows "case validate_generator_input i of
      Inl e \<Rightarrow> mst_route s i = Some (Inl e)
    | Inr _ \<Rightarrow>
        (let n = length (locations (input_problem i)) in
         if \<forall>u<n. \<forall>v<n. u \<noteq> v \<longrightarrow> both_ways (input_matrix i) u v
         then \<exists>sol. mst_route s i = Some (Inr sol) \<and> valid_order (input_problem i) (visit_order sol) \<and>
           set (visit_order sol) = {..<n}
         else mst_route s i = Some (Inl NoFeasibleRoute))"
proof (cases "validate_generator_input i")
  case (Inl e)
  then show ?thesis by (simp add: mst_route_def mst_generate_detailed_def Let_def)
next
  case (Inr u)
  let ?n = "length (locations (input_problem i))"
  have ok: "validate_generator_input i = Inr ()" using Inr by simp
  show ?thesis
  proof (cases "\<forall>u<?n. \<forall>v<?n. u \<noteq> v \<longrightarrow> both_ways (input_matrix i) u v")
    case True
    obtain r where r: "mst_generate_detailed s i = Some (Inr r)" "whole_route ?n (visit_order (mst_solution r))"
      by (rule mst_generates [OF assms ok True])
    then have "mst_route s i = Some (Inr (mst_solution r))" by (simp add: mst_route_def)
    moreover have "set (visit_order (mst_solution r)) = {..<?n}" using r(2) by (simp add: whole_route_def)
    ultimately show ?thesis
      unfolding ok Let_def if_P [OF True] using whole_route_valid [OF r(2)] by simp
  next
    case False
    then have "minimum_spanning_tree ?n (symmetric_distance s (input_matrix i)) = Inl NoFeasibleRoute"
      using built_in_tree [OF assms(2) wf_input_simps(2,1) [OF assms(1)]] by (simp only: if_False)
    then have "mst_route s i = Some (Inl NoFeasibleRoute)"
      by (simp add: mst_route_def mst_generate_detailed_def ok Let_def)
    then show ?thesis unfolding ok Let_def if_not_P [OF False] by simp
  qed
qed

section \<open>Properties\<close>

text \<open>
  C33. The tree of the generator is a minimum spanning tree: it connects all locations with the
  weights of the chosen symmetric distance, no connecting set of pairs is lighter, and the
  Euler tour walks around it, back to the start, with each of its edges taken twice.
\<close>

theorem mst_is_minimum:
  assumes "wf_input i" and "built_in_distance s"
    and "mst_generate_detailed s i = Some (Inr r)"
  shows "let n = length (locations (input_problem i)); distance = symmetric_distance s (input_matrix i) in
    connects n (ends (mst_edges r)) \<and>
    (\<forall>e\<in>set (mst_edges r). distance (edge_from e) (edge_to e) = Inr (edge_distance e)) \<and>
    (\<forall>F. F \<subseteq> {..<n} \<times> {..<n} \<and> connects n F \<longrightarrow>
       sum_list (map edge_distance (mst_edges r)) \<le> weight_of (weight_at distance) F) \<and>
    closed_walk n (ends (mst_edges r)) 0 (mst_euler_tour r)"
proof -
  define n where "n = length (locations (input_problem i))"
  define distance where "distance = symmetric_distance s (input_matrix i)"
  have ok: "validate_generator_input i = Inr ()"
    using assms(3) by (cases "validate_generator_input i") (auto simp: mst_generate_detailed_def Let_def)
  have "minimum_spanning_tree n distance \<noteq> Inl NoFeasibleRoute"
    using assms(3) ok by (auto simp: mst_generate_detailed_def Let_def n_def distance_def)
  then have reach: "\<forall>u<n. \<forall>v<n. u \<noteq> v \<longrightarrow> both_ways (input_matrix i) u v"
    using built_in_tree [OF assms(2) wf_input_simps(2,1) [OF assms(1)]]
    unfolding n_def distance_def by (meson)
  obtain r' where r': "mst_generate_detailed s i = Some (Inr r')" "least_tree n distance (mst_edges r')"
    "closed_walk n (ends (mst_edges r')) 0 (mst_euler_tour r')"
    using mst_generates [OF assms(1,2) ok reach [unfolded n_def]] unfolding n_def distance_def by blast
  then have "r' = r" using assms(3) by simp
  then show ?thesis
    using r'(2,3) unfolding n_def [symmetric] distance_def [symmetric] by (simp add: least_tree_def)
qed

theorem mst_is_minimum_witness:
  "\<exists>r. mst_generate_detailed average_symmetric_distance (readme_input Latest) = Some (Inr r) \<and>
    connects 4 (ends (mst_edges r))"
proof -
  obtain r where r: "mst_generate_detailed average_symmetric_distance (readme_input Latest) = Some (Inr r)"
    by (rule mst_generates [OF readme_wf(1) average_built_in readme_validates])
      (use readme_reaches in simp_all)
  then show ?thesis using mst_is_minimum [OF readme_wf(1) average_built_in r] by (auto simp: Let_def)
qed

end
