(* ===== verification/Matching_Facts.thy ===== *)
theory Matching_Facts
  imports Matching "HOL-Library.Multiset"
begin

text \<open>
  The pairings of a set of vertices, the invariant of the dynamic program over the masks in
  increasing order, and the two strategies as perfect matchings.
\<close>

section \<open>Pairings\<close>

text \<open>The pairs \<open>(l, r)\<close> with \<open>l < r\<close> cover \<open>A\<close>, each element once.\<close>

definition flat :: "(nat \<times> nat) list \<Rightarrow> nat list" where
  "flat ps = concat (map (\<lambda>(l, r). [l, r]) ps)"

definition pairs_up :: "nat set \<Rightarrow> (nat \<times> nat) list \<Rightarrow> bool" where
  "pairs_up A ps \<longleftrightarrow> distinct (flat ps) \<and> set (flat ps) = A \<and> (\<forall>(l, r)\<in>set ps. l < r)"

definition pair_cost :: "u64 list list \<Rightarrow> (nat \<times> nat) list \<Rightarrow> nat" where
  "pair_cost distances ps = sum_list (map (\<lambda>(l, r). distances ! l ! r) ps)"

lemma flat_simps [simp]: "flat [] = []" "flat ((l, r) # ps) = l # r # flat ps" "flat (ps @ qs) = flat ps @ flat qs"
  by (simp_all add: flat_def)

lemma pair_cost_simps [simp]: "pair_cost d [] = 0" "pair_cost d ((l, r) # ps) = d ! l ! r + pair_cost d ps"
  "pair_cost d (ps @ qs) = pair_cost d ps + pair_cost d qs"
  by (simp_all add: pair_cost_def)

lemma pair_cost_rev [simp]: "pair_cost d (rev ps) = pair_cost d ps"
  by (simp add: pair_cost_def rev_map [symmetric])

lemma pairs_up_nil [simp]: "pairs_up A [] \<longleftrightarrow> A = {}"
  by (auto simp: pairs_up_def)

lemma pairs_up_snoc:
  assumes "pairs_up A ps" and "l < r" and "l \<notin> A" "r \<notin> A"
  shows "pairs_up (insert l (insert r A)) (ps @ [(l, r)])"
  using assms by (auto simp: pairs_up_def)

lemma mset_flat_rev: "mset (flat (rev ps)) = mset (flat ps)"
  by (induction ps) (auto simp: flat_def)

lemma pairs_up_rev [simp]: "pairs_up A (rev ps) \<longleftrightarrow> pairs_up A ps"
  unfolding pairs_up_def
  using mset_eq_imp_distinct_iff [OF mset_flat_rev [of ps]] mset_eq_setD [OF mset_flat_rev [of ps]] by simp

text \<open>The least element is the left end of its pair; without the pair the rest is still paired.\<close>

lemma pairs_up_least:
  assumes "pairs_up A ps" and "f \<in> A" and "\<And>x. x \<in> A \<Longrightarrow> f \<le> x"
  obtains s as bs where "ps = as @ (f, s) # bs" "f < s" "s \<in> A" "pairs_up (A - {f, s}) (as @ bs)"
proof -
  obtain l r where lr: "(l, r) \<in> set ps" "f = l \<or> f = r"
    using assms(1,2) by (auto simp: pairs_up_def flat_def)
  then have "l \<in> set (flat ps)" "r \<in> set (flat ps)" by (force simp: flat_def)+
  then have mem: "l \<in> A" "r \<in> A" using assms(1) by (simp_all add: pairs_up_def)
  moreover have "l < r" using assms(1) lr(1) by (auto simp: pairs_up_def)
  ultimately have f: "f = l" using lr(2) assms(3) [of l] by auto
  obtain as bs where ps: "ps = as @ (l, r) # bs" using lr(1) by (meson split_list)
  have "pairs_up (A - {f, r}) (as @ bs)" using assms(1) f ps by (auto simp: pairs_up_def)
  then show thesis using that ps f mem \<open>l < r\<close> by blast
qed

lemma pairing_exists:
  assumes "even (card A)" and "finite A"
  shows "\<exists>ps. pairs_up (A :: nat set) ps"
  using assms
proof (induction "card A" arbitrary: A rule: less_induct)
  case less
  show ?case
  proof (cases "A = {}")
    case False
    define f where "f = Min A"
    have f: "f \<in> A" using less.prems(2) False by (simp add: f_def)
    have c: "card A = Suc (card (A - {f}))" using card.remove [OF less.prems(2) f] .
    then have "A - {f} \<noteq> {}" using less.prems by (metis card.empty even_Suc even_zero)
    define s where "s = Min (A - {f})"
    have s: "s \<in> A - {f}" using less.prems(2) \<open>A - {f} \<noteq> {}\<close> unfolding s_def by (intro Min_in) auto
    have "f \<le> s" using s less.prems(2) by (simp add: f_def)
    then have fs: "f < s" using s by auto
    have "card (A - {f}) = Suc (card (A - {f} - {s}))" using card.remove [of "A - {f}" s] less.prems(2) s by simp
    then have "card (A - {f} - {s}) < card A" "even (card (A - {f} - {s}))" using c less.prems(1) by auto
    then obtain ps where "pairs_up (A - {f} - {s}) ps" using less.hyps less.prems(2) by blast
    from pairs_up_snoc [OF this fs] have "pairs_up (insert f (insert s (A - {f} - {s}))) (ps @ [(f, s)])" by simp
    moreover have "insert f (insert s (A - {f} - {s})) = A" using f s by auto
    ultimately show ?thesis by auto
  qed (auto intro: exI [of _ "[]"])
qed

section \<open>The first vertex that is left\<close>

lemma trailing_zeros_least:
  assumes "m \<noteq> 0"
  shows "bit m (trailing_zeros m)" "k < trailing_zeros m \<Longrightarrow> \<not> bit m k"
proof -
  have "bit m (trailing_zeros m) \<and> (\<forall>k<trailing_zeros m. \<not> bit m k)"
    using assms
  proof (induction m rule: trailing_zeros.induct)
    case (1 m)
    show ?case
    proof (cases "odd m")
      case True
      then have "trailing_zeros m = 0" using "1.prems" by (simp add: trailing_zeros.simps)
      then show ?thesis using True by (simp add: bit_0)
    next
      case False
      then have "trailing_zeros m = Suc (trailing_zeros (m div 2))" using "1.prems" by (subst trailing_zeros.simps) simp
      moreover have "m div 2 \<noteq> 0" using False "1.prems" by (metis dvd_mult_div_cancel mult_0_right)
      ultimately show ?thesis using "1.IH" [OF "1.prems"] False
        by (auto simp: bit_Suc bit_0 less_Suc_eq_0_disj)
    qed
  qed
  then show "bit m (trailing_zeros m)" "k < trailing_zeros m \<Longrightarrow> \<not> bit m k" by blast+
qed

definition matched :: "nat \<Rightarrow> nat set" where
  "matched m = {k. bit m k}"

definition left_over :: "nat \<Rightarrow> nat \<Rightarrow> nat set" where
  "left_over n m = {k. k < n \<and> \<not> bit m k}"

lemma bit_unmatched: "m < 2 ^ n \<Longrightarrow> bit (Bit_Operations.xor (full_mask n) m) k \<longleftrightarrow> k \<in> left_over n m"
  using less_exp_iff_bits [of m n] by (auto simp: bit_xor_iff left_over_def not_less)

lemma first_left_over:
  fixes n m :: nat
  defines "f \<equiv> trailing_zeros (Bit_Operations.xor (full_mask n) m)"
  assumes "m < 2 ^ n" and "m \<noteq> full_mask n"
  shows "f \<in> left_over n m" "x \<in> left_over n m \<Longrightarrow> f \<le> x"
proof -
  have "Bit_Operations.xor (full_mask n) m \<noteq> 0" using assms(3) by (metis xor_self_eq xor.assoc xor.left_neutral xor.commute)
  note least = trailing_zeros_least [OF this, folded f_def]
  show "f \<in> left_over n m" using least(1) bit_unmatched [OF assms(2)] by simp
  show "f \<le> x" if "x \<in> left_over n m"
    using least(2) [of x] bit_unmatched [OF assms(2), of x] that by (meson not_le)
qed

lemma left_over_with: "left_over n (with_bit (with_bit m f) s) = left_over n m - {f, s}"
  by (auto simp: left_over_def)

lemma matched_with: "matched (with_bit (with_bit m f) s) = insert f (insert s (matched m))"
  by (auto simp: matched_def)

lemma left_over_full: "left_over n (full_mask n) = {}"
  by (simp add: left_over_def)

lemma left_over_empty:
  assumes "m < 2 ^ n" and "left_over n m = {}"
  shows "m = full_mask n"
proof (rule bit_eqI)
  fix k
  show "bit m k \<longleftrightarrow> bit (full_mask n) k"
    using assms less_exp_iff_bits [of m n] by (cases "k < n") (auto simp: left_over_def)
qed

lemma matched_finite: "m < 2 ^ n \<Longrightarrow> matched m \<subseteq> {..<n}"
  using less_exp_iff_bits [of m n] by (auto simp: matched_def not_less [symmetric])

lemma with_pair_greater:
  assumes "\<not> bit m f" "\<not> bit m s"
  shows "m < with_bit (with_bit m f) s"
proof (cases "f = s")
  case False
  then have "\<not> bit (with_bit m f) s" using assms by simp
  then show ?thesis using with_bit_greater [OF assms(1)] with_bit_greater less_trans by blast
qed (use with_bit_greater [OF assms(1)] in \<open>simp add: with_bit_def or.assoc\<close>)

section \<open>The table\<close>

definition reached :: "matching_table \<Rightarrow> nat \<Rightarrow> bool" where
  "reached t m \<longleftrightarrow> fst t ! m < u64_max"

text \<open>Where the value of a cell comes from.\<close>

definition cell_origin :: "nat \<Rightarrow> nat \<Rightarrow> u64 list list \<Rightarrow> matching_table \<Rightarrow> nat \<Rightarrow> bool" where
  "cell_origin n k d t m \<longleftrightarrow> (\<exists>p l r. snd t ! m = Some (p, l, r) \<and> p \<le> k \<and> l < r \<and> r < n \<and> \<not> bit p l \<and> \<not> bit p r \<and>
     m = with_bit (with_bit p l) r \<and> reached t p \<and> fst t ! m = fst t ! p + d ! l ! r)"

text \<open>The choices of a processed mask: its first free vertex with every other free one.\<close>

definition cell_settled :: "nat \<Rightarrow> u64 list list \<Rightarrow> matching_table \<Rightarrow> nat \<Rightarrow> nat \<Rightarrow> bool" where
  "cell_settled n d t m s \<longleftrightarrow> (let f = trailing_zeros (Bit_Operations.xor (full_mask n) m) in
     s \<in> left_over n m \<longrightarrow> f < s \<longrightarrow> fst t ! (with_bit (with_bit m f) s) \<le> fst t ! m + d ! f ! s)"

definition table_invariant :: "nat \<Rightarrow> nat \<Rightarrow> u64 list list \<Rightarrow> nat \<Rightarrow> matching_table \<Rightarrow> bool" where
  "table_invariant n k d bound t \<longleftrightarrow>
     length (fst t) = 2 ^ n \<and> length (snd t) = 2 ^ n \<and> fst t ! 0 = 0 \<and>
     (\<forall>m<2 ^ n. fst t ! m \<le> u64_max \<and>
       (reached t m \<longrightarrow> (m = 0 \<or> cell_origin n k d t m) \<and> 2 * fst t ! m \<le> card (matched m) * bound))"

text \<open>Every mask below \<open>k\<close> is processed.\<close>

definition processed :: "nat \<Rightarrow> u64 list list \<Rightarrow> nat \<Rightarrow> matching_table \<Rightarrow> bool" where
  "processed n d k t \<longleftrightarrow> (\<forall>m<k. reached t m \<longrightarrow> m \<noteq> full_mask n \<longrightarrow> (\<forall>s. cell_settled n d t m s))"

lemma u64_max_less: "x < u64_max \<Longrightarrow> x < 2 ^ 64"
  by (simp add: u64_max_def)

lemma table_invariant_mono: "table_invariant n k d bound t \<Longrightarrow> k \<le> k' \<Longrightarrow> table_invariant n k' d bound t"
  unfolding table_invariant_def cell_origin_def by (meson order_trans)

lemma next_cost:
  assumes inv: "table_invariant n k d bound t" and m: "m < 2 ^ n" "reached t m"
    and "f \<in> left_over n m" "s \<in> left_over n m" "f \<noteq> s" and "d ! f ! s \<le> bound" and "n * bound < 2 * u64_max"
  shows "with_bit (with_bit m f) s < 2 ^ n" "m < with_bit (with_bit m f) s"
    and "2 * (fst t ! m + d ! f ! s) \<le> card (matched (with_bit (with_bit m f) s)) * bound"
    and "fst t ! m + d ! f ! s < u64_max"
proof -
  let ?x = "with_bit (with_bit m f) s"
  have free: "\<not> bit m f" "\<not> bit m s" "f < n" "s < n" using assms(4,5) by (simp_all add: left_over_def)
  show x: "?x < 2 ^ n" "m < ?x" using with_pair_greater [OF free(1,2)] with_bit_less m(1) free(3,4) by simp_all
  have "finite (matched m)" by (rule finite_subset [OF matched_finite [OF m(1)]]) simp
  then have card: "card (matched ?x) = card (matched m) + 2"
    using free assms(6) unfolding matched_with by (simp add: matched_def)
  have "2 * fst t ! m \<le> card (matched m) * bound" using inv m by (simp add: table_invariant_def)
  then show cost: "2 * (fst t ! m + d ! f ! s) \<le> card (matched ?x) * bound"
    using assms(7) by (simp add: card algebra_simps)
  have "card (matched ?x) \<le> n" using card_mono [OF _ matched_finite [OF x(1)]] by simp
  then have "card (matched ?x) * bound \<le> n * bound" by (rule mult_right_mono) simp
  then have "2 * (fst t ! m + d ! f ! s) < 2 * u64_max"
    by (rule le_less_trans [OF order_trans [OF cost] assms(8)])
  then show "fst t ! m + d ! f ! s < u64_max" by simp
qed

text \<open>One relaxation from the mask \<open>m\<close>.\<close>

lemma match_pair_keeps:
  assumes inv: "table_invariant n m d bound t" and m: "m < 2 ^ n" "reached t m"
    and f: "f \<in> left_over n m" "f < s" "s < n"
    and d: "d ! f ! s \<le> bound" and bound: "n * bound < 2 * u64_max"
  obtains t' where "match_pair d (Bit_Operations.xor (full_mask n) m) m f s t = Inr t'"
    "table_invariant n m d bound t'" "\<forall>x\<le>m. fst t' ! x = fst t ! x"
    "\<forall>x. fst t' ! x \<le> fst t ! x"
    "s \<in> left_over n m \<longrightarrow> fst t' ! (with_bit (with_bit m f) s) \<le> fst t ! m + d ! f ! s"
proof (cases "s \<in> left_over n m")
  case False
  then have "match_pair d (Bit_Operations.xor (full_mask n) m) m f s t = Inr t"
    using bit_unmatched [OF m(1)] by (simp add: match_pair_def split_beta)
  then show thesis using that [of t] inv False by simp
next
  case True
  define x where "x = with_bit (with_bit m f) s"
  define candidate where "candidate = fst t ! m + d ! f ! s"
  have free: "\<not> bit m f" "\<not> bit m s" "f < n" using f(1) True by (simp_all add: left_over_def)
  have step_up: "x < 2 ^ n" "m < x" "2 * candidate \<le> card (matched x) * bound" "candidate < u64_max"
    using next_cost [OF inv m f(1) True _ d bound] f(2) by (simp_all add: x_def candidate_def)
  note x = step_up(2,1) and cost = step_up(3) and small = step_up(4)
  have add: "checked_add_u64 (fst t ! m) (d ! f ! s) = Some candidate"
    using u64_max_less [OF small] by (simp add: candidate_def)
  show thesis
  proof (cases "candidate < fst t ! x")
    case False
    then have "match_pair d (Bit_Operations.xor (full_mask n) m) m f s t = Inr t"
      using bit_unmatched [OF m(1)] True
      unfolding match_pair_def split_beta Let_def x_def [symmetric] add by simp
    then show thesis using that [of t] inv False by (simp add: x_def candidate_def)
  next
    case less: True
    define t' where "t' = ((fst t)[x := candidate], (snd t)[x := Some (m, f, s)])"
    have step: "match_pair d (Bit_Operations.xor (full_mask n) m) m f s t = Inr t'"
      using bit_unmatched [OF m(1)] True less
      unfolding match_pair_def split_beta Let_def x_def [symmetric] add by (simp add: t'_def)
    have len: "length (fst t) = 2 ^ n" "length (snd t) = 2 ^ n" using inv by (simp_all add: table_invariant_def)
    have at: "fst t' ! x = candidate" "snd t' ! x = Some (m, f, s)" using len x(2) by (simp_all add: t'_def)
    have other: "fst t' ! y = fst t ! y" "snd t' ! y = snd t ! y" if "y \<noteq> x" for y
      using that by (simp_all add: t'_def)
    have down: "fst t' ! y \<le> fst t ! y" for y using at(1) other(1) less by (cases "y = x") auto
    have origin: "cell_origin n m d t' x"
      unfolding cell_origin_def reached_def
      using at other x(1) free f m(2) by (auto simp: candidate_def x_def reached_def)
    have "table_invariant n m d bound t'"
      unfolding table_invariant_def
    proof (intro conjI allI impI)
      show "length (fst t') = 2 ^ n" "length (snd t') = 2 ^ n" using len by (simp_all add: t'_def)
      show "fst t' ! 0 = 0" using other(1) [of 0] x(1) inv by (simp add: table_invariant_def)
      fix y :: nat assume y: "y < 2 ^ n"
      show "fst t' ! y \<le> u64_max" using down [of y] inv y by (meson order_trans table_invariant_def)
      assume r: "reached t' y"
      show "y = 0 \<or> cell_origin n m d t' y"
      proof (cases "y = x")
        case False
        then have "reached t y" using r other(1) by (simp add: reached_def)
        then have "y = 0 \<or> cell_origin n m d t y" using inv y by (simp add: table_invariant_def)
        moreover have "cell_origin n m d t' y" if o: "cell_origin n m d t y"
        proof -
          have "fst t' ! p = fst t ! p" if "p \<le> m" for p using other(1) that x(1) by auto
          then show ?thesis using o other [OF False] unfolding cell_origin_def reached_def by metis
        qed
        ultimately show ?thesis by blast
      qed (use origin in simp)
      show "2 * fst t' ! y \<le> card (matched y) * bound"
        using cost at(1) other(1) [of y] inv y r by (cases "y = x") (auto simp: table_invariant_def reached_def)
    qed
    then show thesis
      using that [OF step] down other(1) x(1) at(1) by (auto simp: x_def candidate_def)
  qed
qed

text \<open>All choices of one mask, and all masks.\<close>

lemma match_mask_keeps:
  assumes inv: "table_invariant n m d bound t" and handled: "processed n d m t" and m: "m < 2 ^ n"
    and d: "\<forall>l<n. length (d ! l) = n \<and> (\<forall>r<n. d ! l ! r \<le> bound)" and bound: "n * bound < 2 * u64_max"
  shows "ok_in (\<lambda>e. False) (\<lambda>t'. table_invariant n (Suc m) d bound t' \<and> processed n d (Suc m) t')
    (match_mask d (full_mask n) m t)"
proof (cases "reached t m \<and> m \<noteq> full_mask n")
  case False
  have "fst t ! m \<le> u64_max" using inv m by (simp add: table_invariant_def)
  then have "match_mask d (full_mask n) m t = Inr t" using False by (auto simp: match_mask_def reached_def)
  moreover have "processed n d (Suc m) t" using handled False by (auto simp: processed_def less_Suc_eq)
  ultimately show ?thesis using table_invariant_mono [OF inv] by simp
next
  case True
  define f where "f = trailing_zeros (Bit_Operations.xor (full_mask n) m)"
  have r: "reached t m" using True by simp
  note least = first_left_over [OF m conjunct2 [OF True], folded f_def]
  have fn: "f < n" using least(1) by (simp add: left_over_def)
  let ?J = "\<lambda>s t'. table_invariant n m d bound t' \<and> (\<forall>x\<le>m. fst t' ! x = fst t ! x) \<and> (\<forall>x. fst t' ! x \<le> fst t ! x) \<and>
    (\<forall>s'<s. f < s' \<longrightarrow> s' \<in> left_over n m \<longrightarrow> fst t' ! (with_bit (with_bit m f) s') \<le> fst t ! m + d ! f ! s')"
  have "ok_in (\<lambda>e. False) (?J n)
    (fold_result (match_pair d (Bit_Operations.xor (full_mask n) m) m f) [f + 1..<n] t)"
  proof (rule fold_result_upt [where I = ?J])
    show "f + 1 \<le> n" using fn by simp
    show "?J (f + 1) t" using inv by auto
    fix s t' assume s: "f + 1 \<le> s" "s < n" and J: "?J s t'"
    have "reached t' m" using J r by (simp add: reached_def)
    moreover have "f < s" "d ! f ! s \<le> bound" using s d fn by simp_all
    ultimately obtain t'' where t'': "match_pair d (Bit_Operations.xor (full_mask n) m) m f s t' = Inr t''"
      "table_invariant n m d bound t''" "\<forall>x\<le>m. fst t'' ! x = fst t' ! x" "\<forall>x. fst t'' ! x \<le> fst t' ! x"
      "s \<in> left_over n m \<longrightarrow> fst t'' ! (with_bit (with_bit m f) s) \<le> fst t' ! m + d ! f ! s"
      using match_pair_keeps [of n m d bound t' f s] J m least(1) s(2) bound by metis
    have "?J (Suc s) t''"
      using J t''(2-5) by (auto simp: less_Suc_eq intro: order_trans)
    then show "ok_in (\<lambda>e. False) (?J (Suc s)) (match_pair d (Bit_Operations.xor (full_mask n) m) m f s t')"
      using t''(1) by simp
  qed
  then have "ok_in (\<lambda>e. False) (?J n) (match_mask d (full_mask n) m t)"
    using True d fn by (simp add: match_mask_def reached_def f_def [symmetric] Let_def)
  then show ?thesis
  proof (rule ok_in_mono)
    fix t' assume J: "?J n t'"
    have "cell_settled n d t' m' s" if m': "m' < Suc m" "reached t' m'" "m' \<noteq> full_mask n" for m' s
    proof (cases "m' = m")
      case True
      then show ?thesis using J by (auto simp: cell_settled_def f_def [symmetric] Let_def left_over_def)
    next
      case False
      then have "m' < m" using m'(1) by simp
      then have same: "fst t' ! m' = fst t ! m'" using J by simp
      then have "cell_settled n d t m' s"
        using handled m'(2,3) \<open>m' < m\<close> by (simp add: processed_def reached_def)
      then show ?thesis using J same unfolding cell_settled_def Let_def by (metis order_trans)
    qed
    then show "table_invariant n (Suc m) d bound t' \<and> processed n d (Suc m) t'"
      using J table_invariant_mono [of n m d bound t' "Suc m"] by (simp add: processed_def)
  qed simp
qed

definition start_table :: "nat \<Rightarrow> matching_table" where
  "start_table n = ((replicate (2 ^ n) u64_max)[0 := 0], replicate (2 ^ n) None)"

lemma matching_table:
  assumes "\<forall>l<n. length (d ! l) = n \<and> (\<forall>r<n. d ! l ! r \<le> bound)" and "n * bound < 2 * u64_max"
  obtains t where "fold_result (match_mask d (full_mask n)) [0..<2 ^ n] (start_table n) = Inr t"
    "table_invariant n (2 ^ n) d bound t" "processed n d (2 ^ n) t"
proof -
  have nth: "fst (start_table n) ! m = (if m = 0 then 0 else u64_max)" if "m < 2 ^ n" for m
    using that by (simp add: start_table_def nth_list_update)
  have start: "table_invariant n 0 d bound (start_table n) \<and> processed n d 0 (start_table n)"
    using nth by (auto simp: table_invariant_def processed_def reached_def) (simp_all add: start_table_def)
  have "ok_in (\<lambda>e. False) (\<lambda>t. table_invariant n (2 ^ n) d bound t \<and> processed n d (2 ^ n) t)
    (fold_result (match_mask d (full_mask n)) [0..<2 ^ n] (start_table n))"
    by (rule fold_result_upt [where I = "\<lambda>m t. table_invariant n m d bound t \<and> processed n d m t"])
      (use start match_mask_keeps assms in auto)
  then show thesis using that
    by (cases "fold_result (match_mask d (full_mask n)) [0..<2 ^ n] (start_table n)") auto
qed

text \<open>The full mask costs no more than any pairing.\<close>

lemma table_optimal:
  assumes inv: "table_invariant n k d bound t" and handled: "processed n d (2 ^ n) t"
    and d: "\<forall>l<n. \<forall>r<n. d ! l ! r \<le> bound" and bound: "n * bound < 2 * u64_max"
    and "m < 2 ^ n" "reached t m" "pairs_up (left_over n m) ps"
  shows "reached t (full_mask n) \<and> fst t ! full_mask n \<le> fst t ! m + pair_cost d ps"
  using assms(5-)
proof (induction "length ps" arbitrary: m ps)
  case 0
  then have "m = full_mask n" by (intro left_over_empty) auto
  then show ?case using 0 by simp
next
  case (Suc len)
  have "left_over n m \<noteq> {}" using Suc.prems(3) Suc.hyps(2) by (cases ps) (auto simp: pairs_up_def)
  then have m: "m \<noteq> full_mask n" using left_over_full by auto
  define f where "f = trailing_zeros (Bit_Operations.xor (full_mask n) m)"
  note least = first_left_over [OF Suc.prems(1) m, folded f_def]
  obtain s as bs where ps: "ps = as @ (f, s) # bs" "f < s" "s \<in> left_over n m"
    "pairs_up (left_over n m - {f, s}) (as @ bs)"
    using pairs_up_least [OF Suc.prems(3) least] by blast
  let ?x = "with_bit (with_bit m f) s"
  have "d ! f ! s \<le> bound" using d least(1) ps(3) by (simp add: left_over_def)
  note next' = next_cost [OF inv Suc.prems(1,2) least(1) ps(3) _ this bound]
  have "cell_settled n d t m s" using handled Suc.prems(1,2) m by (simp add: processed_def)
  then have le: "fst t ! ?x \<le> fst t ! m + d ! f ! s"
    using ps(2,3) by (simp add: cell_settled_def f_def Let_def)
  then have "reached t ?x" using next'(4) ps(2) by (simp add: reached_def)
  then have "reached t (full_mask n) \<and> fst t ! full_mask n \<le> fst t ! ?x + pair_cost d (as @ bs)"
    using Suc.hyps(1) [of "as @ bs" ?x] Suc.hyps(2) next'(1) ps(1,2,4) by (simp add: left_over_with)
  then show ?case using le ps(1) by simp
qed

section \<open>The walk back\<close>

definition pair_edge :: "nat list \<Rightarrow> u64 list list \<Rightarrow> nat \<times> nat \<Rightarrow> perfect_matching_edge" where
  "pair_edge vertices d = (\<lambda>(l, r). \<lparr>match_left = vertices ! l, match_right = vertices ! r, match_distance = d ! l ! r\<rparr>)"

lemma trace_ends:
  assumes inv: "table_invariant n k d bound t" and full: "reached t (full_mask n)"
  obtains ps where "while_option tracing (trace_step vertices d (snd t)) (Inr (full_mask n, [])) =
      Some (Inr (0, map (pair_edge vertices d) ps))"
    "pairs_up {..<n} ps" "pair_cost d ps = fst t ! full_mask n"
proof -
  let ?I = "\<lambda>st. \<exists>m ps. st = Inr (m, map (pair_edge vertices d) ps) \<and> m < 2 ^ n \<and> reached t m \<and>
    pairs_up (left_over n m) ps \<and> fst t ! m + pair_cost d ps = fst t ! full_mask n"
  have step: "?I (trace_step vertices d (snd t) st) \<and>
    (case trace_step vertices d (snd t) st of Inl e \<Rightarrow> 0 | Inr (m, es) \<Rightarrow> m) < (case st of Inl e \<Rightarrow> 0 | Inr (m, es) \<Rightarrow> m)"
    if I: "?I st" and busy: "tracing st" for st
  proof -
    obtain m ps where m: "st = Inr (m, map (pair_edge vertices d) ps)" "m < 2 ^ n" "reached t m"
      "pairs_up (left_over n m) ps" "fst t ! m + pair_cost d ps = fst t ! full_mask n" using I by blast
    have "m \<noteq> 0" using busy m(1) by (simp add: tracing_def)
    then have "cell_origin n k d t m" using inv m(2,3) unfolding table_invariant_def by blast
    then obtain p l r where o: "snd t ! m = Some (p, l, r)" "l < r" "r < n" "\<not> bit p l" "\<not> bit p r"
      "m = with_bit (with_bit p l) r" "reached t p" "fst t ! m = fst t ! p + d ! l ! r"
      by (auto simp: cell_origin_def)
    have p: "p < m" using with_pair_greater [OF o(4,5)] o(6) by simp
    have step: "trace_step vertices d (snd t) st = Inr (p, map (pair_edge vertices d) (ps @ [(l, r)]))"
      using m(1) o(1) by (simp add: trace_step_def pair_edge_def)
    have "l \<notin> left_over n m" "r \<notin> left_over n m" using o(6) by (auto simp: left_over_def)
    then have "pairs_up (insert l (insert r (left_over n m))) (ps @ [(l, r)])"
      by (intro pairs_up_snoc m(4) o(2))
    moreover have "insert l (insert r (left_over n m)) = left_over n p"
      using o(2-6) by (auto simp: left_over_def)
    ultimately have "pairs_up (left_over n p) (ps @ [(l, r)])" by simp
    then show ?thesis using step m p o(7,8) by (auto intro!: exI [of _ "ps @ [(l, r)]"])
  qed
  have start: "?I (Inr (full_mask n, []))"
    using full full_mask_less [of n] by (auto simp: left_over_full)
  obtain st where st: "while_option tracing (trace_step vertices d (snd t)) (Inr (full_mask n, [])) = Some st"
    "?I st" "\<not> tracing st"
    using while_option_ends [where I = ?I and b = tracing and c = "trace_step vertices d (snd t)"
        and f = "\<lambda>st. case st of Inl e \<Rightarrow> 0 | Inr (m, es) \<Rightarrow> m", OF start step] by blast
  then obtain ps where "st = Inr (0, map (pair_edge vertices d) ps)" "pairs_up (left_over n 0) ps"
    "pair_cost d ps = fst t ! full_mask n"
    using inv by (auto simp: tracing_def table_invariant_def)
  moreover have "left_over n 0 = {..<n}" by (auto simp: left_over_def)
  ultimately show thesis using that st(1) by simp
qed

section \<open>The two strategies\<close>

lemma list_ex_pairs:
  "list_ex (\<lambda>l. list_ex (\<lambda>r. P l r) [Suc l..<n]) [0..<n] \<longleftrightarrow> (\<exists>r<n. \<exists>l<r. P l r)"
  by (auto simp: list_ex_iff Suc_le_eq Bex_def) (meson less_trans)

lemma validate_matching_Inr:
  "validate_matching_problem vertices d = Inr () \<longleftrightarrow>
    even (length vertices) \<and> distinct vertices \<and> length d = length vertices \<and>
    (\<forall>row\<in>set d. length row = length vertices) \<and>
    (\<forall>r<length d. \<forall>l<r. d ! l ! r = d ! r ! l)"
proof -
  have "card (set vertices) \<noteq> length vertices \<longleftrightarrow> \<not> distinct vertices" using distinct_card card_distinct by blast
  moreover have "list_ex (\<lambda>row. length row \<noteq> length vertices) d \<longleftrightarrow> \<not> (\<forall>row\<in>set d. length row = length vertices)"
    by (auto simp: list_ex_iff)
  ultimately show ?thesis
    unfolding validate_matching_problem_def list_ex_pairs even_iff_mod_2_eq_zero by (simp only: split: if_split) auto
qed

lemma bit_dp_matching_pairs:
  assumes valid: "validate_matching_problem vertices d = Inr ()" and few: "length vertices \<le> limit"
    and bound: "\<forall>l<length vertices. \<forall>r<length vertices. d ! l ! r \<le> bound" "length vertices * bound < 2 * u64_max"
  obtains ps where "bit_dp_matching limit vertices d = Some (Inr (map (pair_edge vertices d) ps))"
    "pairs_up {..<length vertices} ps"
    "\<And>qs. pairs_up {..<length vertices} qs \<Longrightarrow> pair_cost d ps \<le> pair_cost d qs"
proof (cases "vertices = []")
  case True
  then have "bit_dp_matching limit vertices d = Some (Inr [])" using valid by (simp add: bit_dp_matching_def)
  then show thesis using that [of "[]"] True by simp
next
  case False
  let ?n = "length vertices"
  have v: "even ?n" "\<forall>l<?n. length (d ! l) = ?n" using valid unfolding validate_matching_Inr by auto
  have rows: "\<forall>l<?n. length (d ! l) = ?n \<and> (\<forall>r<?n. d ! l ! r \<le> bound)" using v(2) bound(1) by simp
  obtain t where t: "fold_result (match_mask d (full_mask ?n)) [0..<2 ^ ?n] (start_table ?n) = Inr t"
    "table_invariant ?n (2 ^ ?n) d bound t" "processed ?n d (2 ^ ?n) t"
    by (rule matching_table [OF rows bound(2)])
  have zero: "reached t 0" "left_over ?n 0 = {..<?n}"
    using t(2) by (auto simp: reached_def table_invariant_def u64_max_def left_over_def)
  have best: "reached t (full_mask ?n) \<and> fst t ! full_mask ?n \<le> pair_cost d qs" if "pairs_up {..<?n} qs" for qs
    using table_optimal [OF t(2,3) bound(1,2), of 0 qs] zero that t(2) by (simp add: table_invariant_def)
  obtain qs where "pairs_up {..<?n} qs" using pairing_exists [of "{..<?n}"] v(1) by auto
  then have full: "reached t (full_mask ?n)" using best by blast
  obtain ps where ps: "while_option tracing (trace_step vertices d (snd t)) (Inr (full_mask ?n, [])) =
      Some (Inr (0, map (pair_edge vertices d) ps))" "pairs_up {..<?n} ps" "pair_cost d ps = fst t ! full_mask ?n"
    by (rule trace_ends [OF t(2) full])
  have start: "((replicate (2 ^ ?n) u64_max)[0 := 0], replicate (2 ^ ?n) None) = start_table ?n"
    by (simp add: start_table_def)
  have masks: "(2 :: nat) ^ ?n - 1 = full_mask ?n" by (simp add: full_mask_eq)
  have "bit_dp_matching limit vertices d = Some (Inr (rev (map (pair_edge vertices d) ps)))"
    using valid few False full ps(1) t(1)
    unfolding bit_dp_matching_def Let_def push_bit_of_1 masks start by (simp add: split_beta reached_def)
  then have "bit_dp_matching limit vertices d = Some (Inr (map (pair_edge vertices d) (rev ps)))"
    by (simp add: rev_map)
  moreover have "pairs_up {..<?n} (rev ps)" using ps(2) by simp
  ultimately show thesis using that ps(3) best by simp
qed

lemma flat_map_pairs:
  assumes "distinct xs" and "inj_on g (set xs)" and "g ` set xs \<inter> set xs = {}"
  shows "distinct (flat (map (\<lambda>x. (x, g x)) xs))" "set (flat (map (\<lambda>x. (x, g x)) xs)) = set xs \<union> g ` set xs"
proof -
  show S: "set (flat (map (\<lambda>x. (x, g x)) xs)) = set xs \<union> g ` set xs" for xs by (induction xs) auto
  show "distinct (flat (map (\<lambda>x. (x, g x)) xs))"
    using assms by (induction xs) (auto simp: S)
qed

lemma blossom_matching_pairs:
  assumes "blossom_matching solve vertices d = Inr edges"
  obtains ps where "edges = map (pair_edge vertices d) ps" "pairs_up {..<length vertices} ps"
proof (cases "vertices = []")
  case True
  then have "edges = []" using assms by (auto simp: blossom_matching_def bind_result_Inr)
  then show thesis using that [of "[]"] True by simp
next
  case False
  let ?n = "length vertices"
  obtain mates where m: "validate_blossom_mates mates ?n = Inr ()"
    and edges: "edges = map (\<lambda>left. \<lparr>match_left = vertices ! left, match_right = vertices ! (mates ! left),
      match_distance = d ! left ! (mates ! left)\<rparr>) (filter (\<lambda>left. left < mates ! left) [0..<?n])"
    using assms False by (auto simp: blossom_matching_def bind_result_Inr Let_def)
  have len: "length mates = ?n" using m by (auto simp: validate_blossom_mates_def split: if_splits)
  then have mate: "mates ! v < ?n" "mates ! v \<noteq> v" "mates ! (mates ! v) = v" if "v < ?n" for v
    using m that by (auto simp: validate_blossom_mates_def find_None_iff get_def split: option.splits if_splits)
  let ?xs = "filter (\<lambda>left. left < mates ! left) [0..<?n]"
  let ?ps = "map (\<lambda>x. (x, mates ! x)) ?xs"
  have inj: "inj_on ((!) mates) (set ?xs)" by (rule inj_on_inverseI [of _ "(!) mates"]) (use mate(3) in auto)
  have disjoint: "(!) mates ` set ?xs \<inter> set ?xs = {}" using mate(3) by auto
  have "x \<in> set ?xs \<union> (!) mates ` set ?xs" if x: "x < ?n" for x
  proof (cases "x < mates ! x")
    case False
    then have "mates ! x \<in> set ?xs" using mate [OF x] by auto
    then show ?thesis using mate(3) [OF x] by (metis UnI2 image_eqI)
  qed (use x in auto)
  then have "set ?xs \<union> (!) mates ` set ?xs = {..<?n}" using mate(1) by auto
  then have "pairs_up {..<?n} ?ps"
    using flat_map_pairs [OF _ inj disjoint] by (auto simp: pairs_up_def)
  moreover have "edges = map (pair_edge vertices d) ?ps" by (simp add: edges pair_edge_def)
  ultimately show thesis by (rule that [rotated])
qed

section \<open>Properties\<close>

text \<open>
  C32. The dynamic program returns a minimum-weight perfect matching: on a valid problem within
  its limit of vertices whose costs fit 64 bits, it ends, its edges pair up all vertices, and
  no other pairing costs less.
\<close>

theorem bit_dp_matching_optimal:
  assumes "validate_matching_problem vertices distances = Inr ()" and "length vertices \<le> limit"
    and "\<forall>l<length vertices. \<forall>r<length vertices. distances ! l ! r \<le> bound"
    and "length vertices * bound < 2 * (2 ^ 64 - 1)"
  shows "\<exists>ps. bit_dp_matching limit vertices distances = Some (Inr (map (pair_edge vertices distances) ps)) \<and>
    pairs_up {..<length vertices} ps \<and>
    (\<forall>qs. pairs_up {..<length vertices} qs \<longrightarrow> pair_cost distances ps \<le> pair_cost distances qs)"
proof -
  have "length vertices * bound < 2 * u64_max" using assms(4) by (simp add: u64_max_def)
  from bit_dp_matching_pairs [OF assms(1,2,3) this] show ?thesis by metis
qed

definition sample_distances :: "u64 list list" where
  "sample_distances = [[0, 2, 9, 4], [2, 0, 6, 3], [9, 6, 0, 8], [4, 3, 8, 0]]"

theorem bit_dp_matching_optimal_witness:
  "\<exists>ps. bit_dp_matching 20 [0, 3, 5, 6] sample_distances = Some (Inr (map (pair_edge [0, 3, 5, 6] sample_distances) ps)) \<and>
    pair_cost sample_distances ps \<le> 10"
proof -
  have "validate_matching_problem [0, 3, 5, 6] sample_distances = Inr ()"
    by (simp add: validate_matching_problem_def sample_distances_def upt_rec)
  moreover have "\<forall>l<length [0, 3, 5, 6 :: nat]. \<forall>r<length [0, 3, 5, 6 :: nat]. sample_distances ! l ! r \<le> 9"
    by (simp add: sample_distances_def numeral_eq_Suc less_Suc_eq)
  ultimately obtain ps where ps:
    "bit_dp_matching 20 [0, 3, 5, 6] sample_distances = Some (Inr (map (pair_edge [0, 3, 5, 6] sample_distances) ps))"
    "\<forall>qs. pairs_up {..<length [0, 3, 5, 6 :: nat]} qs \<longrightarrow> pair_cost sample_distances ps \<le> pair_cost sample_distances qs"
    using bit_dp_matching_optimal [of "[0, 3, 5, 6]" sample_distances 20 9] by auto
  have "pairs_up {..<length [0, 3, 5, 6 :: nat]} [(0, 1), (2, 3)]" by (auto simp: pairs_up_def numeral_eq_Suc)
  moreover have "pair_cost sample_distances [(0, 1), (2, 3)] = 10" by (simp add: sample_distances_def)
  ultimately show ?thesis using ps by metis
qed

end
