(* ===== verification/Christofides_Tour.thy ===== *)
theory Christofides_Tour
  imports Christofides Mst_Walk Matching_Facts
begin

text \<open>
  The traversal of the tree with its matching: degrees, trails of edges, the invariant of the
  traversal with its parity argument, and the tour as an Eulerian circuit.
\<close>

section \<open>Degrees\<close>

definition incident :: "mst_edge list \<Rightarrow> nat \<Rightarrow> nat set" where
  "incident es v = {k. k < length es \<and> (edge_from (es ! k) = v \<or> edge_to (es ! k) = v)}"

definition degree :: "mst_edge list \<Rightarrow> nat \<Rightarrow> nat" where
  "degree es v = length (filter (\<lambda>e. edge_from e = v \<or> edge_to e = v) es)"

definition edges_within :: "nat \<Rightarrow> mst_edge list \<Rightarrow> bool" where
  "edges_within n es \<longleftrightarrow> (\<forall>e\<in>set es. edge_from e < n \<and> edge_to e < n \<and> edge_from e \<noteq> edge_to e)"

lemma degree_simps [simp]: "degree [] v = 0" "degree (es @ fs) v = degree es v + degree fs v"
  "degree (e # es) v = of_bool (edge_from e = v \<or> edge_to e = v) + degree es v"
  by (simp_all add: degree_def)

lemma degree_incident: "degree es v = card (incident es v)"
  unfolding degree_def incident_def length_filter_conv_card by simp

lemma finite_incident [simp]: "finite (incident es v)"
  by (simp add: incident_def)

lemma edges_within_simps [simp]: "edges_within n []" "edges_within n (es @ fs) \<longleftrightarrow> edges_within n es \<and> edges_within n fs"
  "edges_within n (e # es) \<longleftrightarrow> edge_from e < n \<and> edge_to e < n \<and> edge_from e \<noteq> edge_to e \<and> edges_within n es"
  by (auto simp: edges_within_def)

lemma count_degree_step:
  assumes "edge_from e < n" "edge_to e < n" "edge_from e \<noteq> edge_to e" and "length D = n"
  obtains D' where "count_degree message n e D = Inr D'" "length D' = n"
    "\<forall>v<n. D' ! v = D ! v + of_bool (edge_from e = v \<or> edge_to e = v)"
proof -
  define D' where "D' = D[edge_from e := D ! edge_from e + 1, edge_to e := D ! edge_to e + 1]"
  have "count_degree message n e D = Inr D'"
    using assms by (simp add: count_degree_def D'_def Let_def)
  moreover have "D' ! v = D ! v + of_bool (edge_from e = v \<or> edge_to e = v)" if "v < n" for v
    using that assms by (cases "v = edge_from e"; cases "v = edge_to e") (auto simp: D'_def)
  ultimately show thesis using that [of D'] assms(4) by (simp add: D'_def)
qed

lemma count_degrees:
  assumes "edges_within n es" and "length D = n"
  obtains D' where "fold_result (count_degree message n) es D = Inr D'" "length D' = n"
    "\<forall>v<n. D' ! v = D ! v + degree es v"
proof -
  have "\<exists>D'. fold_result (count_degree message n) es D = Inr D' \<and> length D' = n \<and> (\<forall>v<n. D' ! v = D ! v + degree es v)"
    using assms
  proof (induction es arbitrary: D)
    case (Cons e es)
    then have e: "edge_from e < n" "edge_to e < n" "edge_from e \<noteq> edge_to e" "edges_within n es" by simp_all
    obtain D1 where D1: "count_degree message n e D = Inr D1" "length D1 = n"
      "\<forall>v<n. D1 ! v = D ! v + of_bool (edge_from e = v \<or> edge_to e = v)"
      by (rule count_degree_step [OF e(1-3) Cons.prems(2)])
    then obtain D' where "fold_result (count_degree message n) es D1 = Inr D'" "length D' = n"
      "\<forall>v<n. D' ! v = D1 ! v + degree es v" using Cons.IH [OF e(4) D1(2)] by blast
    then show ?case using D1 by auto
  qed simp
  then show thesis using that by blast
qed

lemma odd_degree_vertices_ok:
  assumes "edges_within n es"
  shows "odd_degree_vertices n es = Inr (filter (\<lambda>v. odd (degree es v)) [0..<n])"
proof -
  obtain D where D: "fold_result (count_degree ''graph edge contains an invalid endpoint'' n) es (replicate n 0) = Inr D"
    "length D = n" "\<forall>v<n. D ! v = (replicate n 0) ! v + degree es v"
    by (rule count_degrees [OF assms, of "replicate n 0"]) auto
  have "filter (\<lambda>v. D ! v mod 2 = 1) [0..<n] = filter (\<lambda>v. odd (degree es v)) [0..<n]"
    using D(3) by (intro filter_cong) (auto simp: odd_iff_mod_2_eq_one)
  then show ?thesis using D(1,2) by (simp add: odd_degree_vertices_def)
qed

text \<open>Handshakes: the degrees add up to twice the number of edges, so few of them are odd.\<close>

lemma degree_sum: "edges_within n es \<Longrightarrow> (\<Sum>v<n. degree es v) = 2 * length es"
proof (induction es)
  case (Cons e es)
  have "{v \<in> {..<n}. edge_from e = v \<or> edge_to e = v} = {edge_from e, edge_to e}" using Cons.prems by auto
  then have "(\<Sum>v<n. of_bool (edge_from e = v \<or> edge_to e = v)) = card {edge_from e, edge_to e}"
    by (simp add: of_bool_def sum.If_cases Int_def conj_commute)
  then show ?case using Cons by (simp add: sum.distrib)
qed simp

lemma even_odd_vertices:
  assumes "edges_within n es"
  shows "even (length (filter (\<lambda>v. odd (degree es v)) [0..<n]))"
proof -
  have "even (\<Sum>v<n. degree es v)" using degree_sum [OF assms] by simp
  then have "even (card {v \<in> {..<n}. odd (degree es v)})" by (simp add: even_sum_iff)
  moreover have "{v \<in> {..<n}. odd (degree es v)} = set (filter (\<lambda>v. odd (degree es v)) [0..<n])" by auto
  ultimately show ?thesis by (metis distinct_card distinct_filter distinct_upt)
qed

section \<open>Adjacency with edge numbers\<close>

definition joins :: "mst_edge \<Rightarrow> nat \<Rightarrow> nat \<Rightarrow> bool" where
  "joins e a b \<longleftrightarrow> (edge_from e = a \<and> edge_to e = b) \<or> (edge_from e = b \<and> edge_to e = a)"

lemma joins_sym: "joins e a b \<longleftrightarrow> joins e b a"
  by (auto simp: joins_def)

text \<open>The list of a vertex holds its incident edges, each with the vertex across.\<close>

definition euler_graph :: "nat \<Rightarrow> mst_edge list \<Rightarrow> euler_lists \<Rightarrow> bool" where
  "euler_graph n es adjacency \<longleftrightarrow> length adjacency = n \<and> edges_within n es \<and>
     (\<forall>v<n. (\<forall>(u, w, k)\<in>set (adjacency ! v). k < length es \<and> joins (es ! k) v u) \<and>
        incident es v \<subseteq> (\<lambda>(u, w, k). k) ` set (adjacency ! v))"

lemma add_euler_edges:
  assumes "edges_within n (map snd ks)" and "\<forall>(k, e)\<in>set ks. k < length es \<and> es ! k = e"
    and "length A = n" "length D = n"
    and "\<forall>v<n. \<forall>(u, w, k)\<in>set (A ! v). k < length es \<and> joins (es ! k) v u"
  obtains A' D' where "fold_result (add_euler_edge n) ks (A, D) = Inr (A', D')" "length A' = n" "length D' = n"
    "\<forall>v<n. D' ! v = D ! v + degree (map snd ks) v"
    "\<forall>v<n. \<forall>(u, w, k)\<in>set (A' ! v). k < length es \<and> joins (es ! k) v u"
    "\<forall>v<n. set (A ! v) \<subseteq> set (A' ! v) \<and>
      (\<forall>(k, e)\<in>set ks. edge_from e = v \<or> edge_to e = v \<longrightarrow> k \<in> (\<lambda>(u, w, k). k) ` set (A' ! v))"
proof -
  have "\<exists>A' D'. fold_result (add_euler_edge n) ks (A, D) = Inr (A', D') \<and> length A' = n \<and> length D' = n \<and>
    (\<forall>v<n. D' ! v = D ! v + degree (map snd ks) v) \<and>
    (\<forall>v<n. \<forall>(u, w, k)\<in>set (A' ! v). k < length es \<and> joins (es ! k) v u) \<and>
    (\<forall>v<n. set (A ! v) \<subseteq> set (A' ! v) \<and>
      (\<forall>(k, e)\<in>set ks. edge_from e = v \<or> edge_to e = v \<longrightarrow> k \<in> (\<lambda>(u, w, k). k) ` set (A' ! v)))"
    using assms
  proof (induction ks arbitrary: A D)
    case (Cons ke ks)
    obtain k e where ke: "ke = (k, e)" by (cases ke)
    have e: "edge_from e < n" "edge_to e < n" "edge_from e \<noteq> edge_to e" "edges_within n (map snd ks)"
      and k: "k < length es" "es ! k = e"
      using Cons.prems(1,2) ke by auto
    obtain D1 where D1: "count_degree ''Euler graph edge contains an invalid endpoint'' n e D = Inr D1" "length D1 = n"
      "\<forall>v<n. D1 ! v = D ! v + of_bool (edge_from e = v \<or> edge_to e = v)"
      by (rule count_degree_step [OF e(1-3) Cons.prems(4)])
    define A1 where "A1 = A[edge_from e := A ! edge_from e @ [(edge_to e, edge_distance e, k)],
      edge_to e := A ! edge_to e @ [(edge_from e, edge_distance e, k)]]"
    have step: "add_euler_edge n ke (A, D) = Inr (A1, D1)"
      using D1(1) e by (simp add: add_euler_edge_def ke A1_def Let_def)
    have A1: "set (A1 ! v) = set (A ! v) \<union> (if v = edge_from e then {(edge_to e, edge_distance e, k)} else {}) \<union>
        (if v = edge_to e then {(edge_from e, edge_distance e, k)} else {})" if "v < n" for v
      using that e Cons.prems(3) by (cases "v = edge_from e"; cases "v = edge_to e") (auto simp: A1_def)
    have good: "\<forall>v<n. \<forall>(u, w, k)\<in>set (A1 ! v). k < length es \<and> joins (es ! k) v u"
    proof (intro allI impI ballI)
      fix v q assume v: "v < n" and q: "q \<in> set (A1 ! v)"
      then consider "q \<in> set (A ! v)" | "v = edge_from e" "q = (edge_to e, edge_distance e, k)"
        | "v = edge_to e" "q = (edge_from e, edge_distance e, k)" using A1 by (auto split: if_splits)
      then show "case q of (u, w, k) \<Rightarrow> k < length es \<and> joins (es ! k) v u"
        using Cons.prems(5) v k by cases (auto simp: joins_def)
    qed
    have "length A1 = n" "\<forall>(k, e)\<in>set ks. k < length es \<and> es ! k = e" using Cons.prems(2,3) by (simp_all add: A1_def)
    then obtain A' D' where r: "fold_result (add_euler_edge n) ks (A1, D1) = Inr (A', D')" "length A' = n" "length D' = n"
      "\<forall>v<n. D' ! v = D1 ! v + degree (map snd ks) v"
      "\<forall>v<n. \<forall>(u, w, k)\<in>set (A' ! v). k < length es \<and> joins (es ! k) v u"
      "\<forall>v<n. set (A1 ! v) \<subseteq> set (A' ! v) \<and>
        (\<forall>(k, e)\<in>set ks. edge_from e = v \<or> edge_to e = v \<longrightarrow> k \<in> (\<lambda>(u, w, k). k) ` set (A' ! v))"
      using Cons.IH [OF e(4) _ _ D1(2) good] by blast
    have "k \<in> (\<lambda>(u, w, k). k) ` set (A' ! v)" if v: "v < n" and inc: "edge_from e = v \<or> edge_to e = v" for v
    proof -
      define q where "q = (if edge_from e = v then edge_to e else edge_from e, edge_distance e, k)"
      have q: "q \<in> set (A1 ! v)" "k = (\<lambda>(u, w, k). k) q"
        using inc A1 [OF v] by (auto simp: q_def)
      have "set (A1 ! v) \<subseteq> set (A' ! v)" using r(6) v by simp
      then show ?thesis using q by (intro image_eqI [of _ _ q]) auto
    qed
    then have "\<forall>v<n. set (A ! v) \<subseteq> set (A' ! v) \<and>
      (\<forall>(k, e)\<in>set (ke # ks). edge_from e = v \<or> edge_to e = v \<longrightarrow> k \<in> (\<lambda>(u, w, k). k) ` set (A' ! v))"
      using r(6) A1 ke by auto
    then show ?case using step r D1(3) ke by auto
  qed auto
  then show thesis using that by blast
qed

lemma sort_key_euler_graph:
  assumes "length A = n" "edges_within n es"
    and "\<forall>v<n. \<forall>(u, w, k)\<in>set (A ! v). k < length es \<and> joins (es ! k) v u"
    and "\<forall>v<n. incident es v \<subseteq> (\<lambda>(u, w, k). k) ` set (A ! v)"
  shows "euler_graph n es (map (sort_key f) A)"
  using assms by (simp add: euler_graph_def)

section \<open>Trails\<close>

text \<open>The vertices of a walk and the numbers of the edges it takes.\<close>

fun trail :: "mst_edge list \<Rightarrow> nat list \<Rightarrow> nat list \<Rightarrow> bool" where
  "trail es [v] [] \<longleftrightarrow> True"
| "trail es (a # b # vs) (k # ks) \<longleftrightarrow> joins (es ! k) a b \<and> trail es (b # vs) ks"
| "trail es _ _ \<longleftrightarrow> False"

lemma trail_length: "trail es vs ks \<Longrightarrow> length vs = Suc (length ks)"
  by (induction es vs ks rule: trail.induct) auto

lemma trail_ends: "trail es vs ks \<Longrightarrow> k \<in> set ks \<Longrightarrow> edge_from (es ! k) \<in> set vs \<and> edge_to (es ! k) \<in> set vs"
  by (induction es vs ks rule: trail.induct) (auto simp: joins_def)

lemma trail_Cons: "trail es (a # vs) ks \<Longrightarrow> joins (es ! k) b a \<Longrightarrow> trail es (b # a # vs) (k # ks)"
  by simp

lemma trail_Cons2: "trail es (a # b # vs) ks \<Longrightarrow> \<exists>k ks'. ks = k # ks' \<and> joins (es ! k) a b \<and> trail es (b # vs) ks'"
  by (cases ks) auto

lemma trail_single [simp]: "trail es [v] ks \<longleftrightarrow> ks = []"
  by (cases ks) auto

lemma skip_used_spec:
  assumes "k \<le> length entries"
  shows "k \<le> skip_used used entries k" "skip_used used entries k \<le> length entries"
    "k \<le> j \<Longrightarrow> j < skip_used used entries k \<Longrightarrow> used ! snd (snd (entries ! j))"
    "skip_used used entries k < length entries \<Longrightarrow> \<not> used ! snd (snd (entries ! skip_used used entries k))"
proof -
  have "k \<le> skip_used used entries k \<and> skip_used used entries k \<le> length entries \<and>
    (\<forall>j. k \<le> j \<longrightarrow> j < skip_used used entries k \<longrightarrow> used ! snd (snd (entries ! j))) \<and>
    (skip_used used entries k < length entries \<longrightarrow> \<not> used ! snd (snd (entries ! skip_used used entries k)))"
    using assms
  proof (induction used entries k rule: skip_used.induct)
    case (1 used entries k)
    show ?case
    proof (cases "k < length entries \<and> used ! snd (snd (entries ! k))")
      case True
      then have "skip_used used entries k = skip_used used entries (Suc k)" by (simp add: skip_used.simps)
      then show ?thesis using "1.IH" True by (metis Suc_leD Suc_leI le_eq_less_or_eq)
    next
      case False
      then have "skip_used used entries k = k" by (auto simp: skip_used.simps)
      then show ?thesis using False "1.prems" by auto
    qed
  qed
  then show "k \<le> skip_used used entries k" "skip_used used entries k \<le> length entries"
    "k \<le> j \<Longrightarrow> j < skip_used used entries k \<Longrightarrow> used ! snd (snd (entries ! j))"
    "skip_used used entries k < length entries \<Longrightarrow> \<not> used ! snd (snd (entries ! skip_used used entries k))"
    by blast+
qed

section \<open>The traversal\<close>

definition used_set :: "euler_state \<Rightarrow> nat set" where
  "used_set st = {k. k < length (used_edges st) \<and> used_edges st ! k}"

text \<open>
  The stack is a trail from its top down to the root. What was popped is a trail too; the edge
  between the two leads from a vertex \<open>anchor\<close> to the vertex popped last. The vertices with an
  odd number of unused edges are the top of the stack and the anchor, or none.
\<close>

definition two_trails ::
  "mst_edge list \<Rightarrow> nat \<Rightarrow> nat list \<Rightarrow> nat list \<Rightarrow> nat \<Rightarrow> nat list \<Rightarrow> nat list \<Rightarrow> nat list \<Rightarrow> bool" where
  "two_trails es root stack popped anchor sids link rids \<longleftrightarrow>
     (if stack = [] then sids = [] \<and> link = [] else trail es stack sids \<and> List.last stack = root) \<and>
     (if popped = [] then rids = [] \<and> link = [] \<and> anchor = root \<and> stack \<noteq> []
      else trail es (rev popped) rids \<and> hd popped = root \<and>
        (if stack = [] then List.last popped = root
         else \<exists>k. link = [k] \<and> joins (es ! k) anchor (List.last popped)))"

definition odd_ends :: "mst_edge list \<Rightarrow> nat set \<Rightarrow> nat \<Rightarrow> nat \<Rightarrow> bool" where
  "odd_ends es U tip anchor \<longleftrightarrow> (\<forall>v. odd (card (incident es v - U)) \<longleftrightarrow> (v = tip) \<noteq> (v = anchor))"

definition tour_invariant :: "nat \<Rightarrow> mst_edge list \<Rightarrow> euler_lists \<Rightarrow> nat \<Rightarrow> euler_state \<Rightarrow> bool" where
  "tour_invariant n es adjacency root st \<longleftrightarrow>
     length (used_edges st) = length es \<and> length (cursors st) = n \<and>
     (\<forall>v<n. cursors st ! v \<le> length (adjacency ! v) \<and>
        (\<forall>j<cursors st ! v. snd (snd (adjacency ! v ! j)) \<in> used_set st)) \<and>
     set (euler_stack st) \<union> set (reverse_tour st) \<subseteq> {..<n} \<and>
     (\<forall>v\<in>set (reverse_tour st). incident es v \<subseteq> used_set st) \<and>
     (\<exists>anchor sids link rids. two_trails es root (euler_stack st) (reverse_tour st) anchor sids link rids \<and>
        distinct (sids @ link @ rids) \<and> set (sids @ link @ rids) = used_set st \<and>
        (euler_stack st \<noteq> [] \<longrightarrow> odd_ends es (used_set st) (hd (euler_stack st)) anchor))"

definition tour_left :: "mst_edge list \<Rightarrow> euler_state \<Rightarrow> nat" where
  "tour_left es st = 2 * card ({..<length es} - used_set st) + length (euler_stack st)"

lemma odd_ends_push:
  assumes "odd_ends es U v anchor" and "k < length es" "k \<notin> U" and "joins (es ! k) v u" "v \<noteq> u"
  shows "odd_ends es (insert k U) u anchor"
  unfolding odd_ends_def
proof
  fix x
  have old: "odd (card (incident es x - U)) \<longleftrightarrow> (x = v) \<noteq> (x = anchor)" using assms(1) by (simp add: odd_ends_def)
  show "odd (card (incident es x - insert k U)) \<longleftrightarrow> (x = u) \<noteq> (x = anchor)"
  proof (cases "x = v \<or> x = u")
    case True
    then have "k \<in> incident es x - U" using assms(2-4) by (auto simp: incident_def joins_def)
    then have "card (incident es x - U) = Suc (card (incident es x - U - {k}))"
      by (intro card.remove) auto
    moreover have "incident es x - insert k U = incident es x - U - {k}" by auto
    ultimately show ?thesis using old True assms(5) by auto
  next
    case False
    then have "k \<notin> incident es x" using assms(4) by (auto simp: incident_def joins_def)
    then have "incident es x - insert k U = incident es x - U" by auto
    then show ?thesis using old False by simp
  qed
qed

lemma odd_ends_pop:
  assumes "odd_ends es U v anchor" and "incident es v \<subseteq> U"
  shows "anchor = v" "odd_ends es U b b"
proof -
  have "incident es v - U = {}" using assms(2) by auto
  then have "even (card (incident es v - U))" by (metis card.empty even_zero)
  then show "anchor = v" using assms(1) unfolding odd_ends_def by metis
  then show "odd_ends es U b b" using assms(1) unfolding odd_ends_def by metis
qed

lemma two_trails_push:
  assumes "two_trails es root (v # below) popped anchor sids link rids" and "joins (es ! k) v u"
  shows "two_trails es root (u # v # below) popped anchor (k # sids) link rids"
  using assms by (auto simp: two_trails_def joins_sym)

lemma two_trails_pop:
  assumes "two_trails es root (v # below) popped anchor sids link rids" and "anchor = v"
  obtains anchor' sids' link' rids' where "two_trails es root below (popped @ [v]) anchor' sids' link' rids'"
    "mset (sids' @ link' @ rids') = mset (sids @ link @ rids)" "below \<noteq> [] \<longrightarrow> anchor' = hd below"
proof -
  let ?rids = "link @ rids"
  have stack: "trail es (v # below) sids" "List.last (v # below) = root" using assms(1) by (simp_all add: two_trails_def)
  have popped: "trail es (rev (popped @ [v])) ?rids \<and> hd (popped @ [v]) = root"
  proof (cases "popped = []")
    case True
    then show ?thesis using assms by (auto simp: two_trails_def)
  next
    case False
    then obtain k where "link = [k]" "joins (es ! k) v (List.last popped)" "trail es (rev popped) rids" "hd popped = root"
      using assms by (auto simp: two_trails_def)
    then show ?thesis using False by (cases popped rule: rev_cases) (auto simp: hd_append)
  qed
  show thesis
  proof (cases below)
    case Nil
    then have "sids = []" "v = root" using stack by simp_all
    then show thesis using popped Nil
      by (intro that [of root "[]" "[]" ?rids]) (auto simp: two_trails_def)
  next
    case (Cons b bs)
    then obtain k sids' where s: "sids = k # sids'" "joins (es ! k) v b" "trail es (b # bs) sids'"
      using trail_Cons2 [of es v b bs sids] stack(1) by auto
    then show thesis using popped Cons stack(2)
      by (intro that [of b sids' "[k]" ?rids]) (auto simp: two_trails_def joins_sym)
  qed
qed

lemma used_set_mark:
  "k < length (used_edges st) \<Longrightarrow> used_set (st\<lparr>cursors := c, used_edges := (used_edges st)[k := True], euler_stack := s\<rparr>) =
    insert k (used_set st)"
  by (auto simp: used_set_def set_True_nth)

lemma used_set_keep:
  "used_set (st\<lparr>cursors := c, reverse_tour := r, euler_stack := s\<rparr>) = used_set st"
  by (simp add: used_set_def)

lemma nth_update_all:
  assumes "\<forall>x<n. P x (xs ! x)" and "P v c" and "length xs = n"
  shows "\<forall>x<n. P x (xs[v := c] ! x)"
proof (intro allI impI)
  fix x assume "x < n"
  then show "P x (xs[v := c] ! x)" using assms by (cases "x = v") auto
qed

lemma euler_step_keeps:
  assumes graph: "euler_graph n es adjacency" and inv: "tour_invariant n es adjacency root st"
    and busy: "euler_stack st \<noteq> []"
  shows "tour_invariant n es adjacency root (euler_step adjacency st) \<and>
    tour_left es (euler_step adjacency st) < tour_left es st"
proof -
  obtain v below where top: "euler_stack st = v # below" using busy by (cases "euler_stack st") auto
  let ?U = "used_set st"
  have len: "length (used_edges st) = length es" "length (cursors st) = n" using inv by (simp_all add: tour_invariant_def)
  have vn: "v < n" using inv top by (simp add: tour_invariant_def)
  have cur: "\<forall>x<n. cursors st ! x \<le> length (adjacency ! x) \<and>
      (\<forall>j<cursors st ! x. snd (snd (adjacency ! x ! j)) \<in> ?U)"
    using inv by (simp add: tour_invariant_def)
  have within: "set (euler_stack st) \<union> set (reverse_tour st) \<subseteq> {..<n}"
    and closed: "\<forall>x\<in>set (reverse_tour st). incident es x \<subseteq> ?U" using inv by (simp_all add: tour_invariant_def)
  obtain anchor sids link rids where trails: "two_trails es root (v # below) (reverse_tour st) anchor sids link rids"
    and ids: "distinct (sids @ link @ rids)" "set (sids @ link @ rids) = ?U" and parity: "odd_ends es ?U v anchor"
    using inv top by (auto simp: tour_invariant_def)
  have entries: "\<forall>(u, w, k)\<in>set (adjacency ! v). k < length es \<and> joins (es ! k) v u"
    "incident es v \<subseteq> (\<lambda>(u, w, k). k) ` set (adjacency ! v)" and es: "edges_within n es"
    using graph vn by (simp_all add: euler_graph_def)
  define c where "c = skip_used (used_edges st) (adjacency ! v) (cursors st ! v)"
  have start: "cursors st ! v \<le> length (adjacency ! v)" using cur vn by simp
  note skip = skip_used_spec [OF start, where used = "used_edges st", folded c_def]
  have id: "snd (snd (adjacency ! v ! j)) < length es" if "j < length (adjacency ! v)" for j
    using bspec [OF entries(1) nth_mem [OF that]] by (simp add: split_beta)
  have before: "snd (snd (adjacency ! v ! j)) \<in> ?U" if "j < c" for j
  proof (cases "j < cursors st ! v")
    case False
    then show ?thesis using skip(2) skip(3) [of j] that id [of j] len(1) by (simp add: used_set_def)
  qed (use cur vn in blast)
  show ?thesis
  proof (cases "c < length (adjacency ! v)")
    case False
    then have c: "c = length (adjacency ! v)" using skip(2) by simp
    define st' where "st' = st\<lparr>cursors := (cursors st)[v := c], reverse_tour := reverse_tour st @ [v], euler_stack := below\<rparr>"
    have step: "euler_step adjacency st = st'"
      using False top by (simp add: euler_step_def c_def [symmetric] st'_def Let_def)
    have cs: "cursors st' = (cursors st)[v := c]" by (simp add: st'_def)
    have U: "used_set st' = ?U" by (simp add: st'_def used_set_keep)
    have "(\<lambda>(u, w, k). k) ` set (adjacency ! v) \<subseteq> ?U"
      using before unfolding c by (auto simp: in_set_conv_nth) (metis snd_conv)
    then have exhausted: "incident es v \<subseteq> ?U" using entries(2) by blast
    note ends = odd_ends_pop [OF parity exhausted]
    obtain anchor' sids' link' rids' where t: "two_trails es root below (reverse_tour st @ [v]) anchor' sids' link' rids'"
      "mset (sids' @ link' @ rids') = mset (sids @ link @ rids)" "below \<noteq> [] \<longrightarrow> anchor' = hd below"
      by (rule two_trails_pop [OF trails ends(1)])
    have "tour_invariant n es adjacency root st'"
      unfolding tour_invariant_def U
    proof (intro conjI exI)
      show "length (used_edges st') = length es" "length (cursors st') = n" using len by (simp_all add: st'_def)
      show "\<forall>x<n. cursors st' ! x \<le> length (adjacency ! x) \<and> (\<forall>j<cursors st' ! x. snd (snd (adjacency ! x ! j)) \<in> ?U)"
        unfolding cs
        by (rule nth_update_all [where P = "\<lambda>x k. k \<le> length (adjacency ! x) \<and>
            (\<forall>j<k. snd (snd (adjacency ! x ! j)) \<in> ?U)", OF cur _ len(2)]) (use before c in simp)
      show "set (euler_stack st') \<union> set (reverse_tour st') \<subseteq> {..<n}" using within top by (auto simp: st'_def)
      show "\<forall>x\<in>set (reverse_tour st'). incident es x \<subseteq> ?U" using closed exhausted by (auto simp: st'_def)
      show "two_trails es root (euler_stack st') (reverse_tour st') anchor' sids' link' rids'" using t(1) by (simp add: st'_def)
      show "distinct (sids' @ link' @ rids')" "set (sids' @ link' @ rids') = ?U"
        using mset_eq_imp_distinct_iff [OF t(2)] mset_eq_setD [OF t(2)] ids by simp_all
      show "euler_stack st' \<noteq> [] \<longrightarrow> odd_ends es ?U (hd (euler_stack st')) anchor'"
        using ends(2) t(3) by (simp add: st'_def)
    qed
    moreover have "tour_left es st' < tour_left es st"
      unfolding tour_left_def U by (simp add: st'_def top)
    ultimately show ?thesis using step by simp
  next
    case True
    obtain u w k where e: "adjacency ! v ! c = (u, w, k)" by (cases "adjacency ! v ! c") auto
    have k: "k < length es" "joins (es ! k) v u" using bspec [OF entries(1) nth_mem [OF True]] e by simp_all
    have fresh: "k \<notin> ?U" using skip(4) True e by (simp add: used_set_def)
    have "es ! k \<in> set es" using k(1) by simp
    then have u: "u < n" "v \<noteq> u" using es k(2) unfolding edges_within_def joins_def by metis+
    define st' where "st' = st\<lparr>cursors := (cursors st)[v := c + 1], used_edges := (used_edges st)[k := True],
      euler_stack := u # v # below\<rparr>"
    have step: "euler_step adjacency st = st'"
      using True top e by (simp add: euler_step_def c_def [symmetric] st'_def Let_def)
    have cs: "cursors st' = (cursors st)[v := c + 1]" by (simp add: st'_def)
    have U: "used_set st' = insert k ?U" unfolding st'_def by (rule used_set_mark) (simp add: len k)
    have "tour_invariant n es adjacency root st'"
      unfolding tour_invariant_def U
    proof (intro conjI exI)
      show "length (used_edges st') = length es" "length (cursors st') = n" using len by (simp_all add: st'_def)
      show "\<forall>x<n. cursors st' ! x \<le> length (adjacency ! x) \<and>
          (\<forall>j<cursors st' ! x. snd (snd (adjacency ! x ! j)) \<in> insert k ?U)"
        unfolding cs
        by (rule nth_update_all [where P = "\<lambda>x m. m \<le> length (adjacency ! x) \<and>
            (\<forall>j<m. snd (snd (adjacency ! x ! j)) \<in> insert k ?U)", OF _ _ len(2)])
          (use cur before True e in \<open>auto simp: less_Suc_eq\<close>)
      show "set (euler_stack st') \<union> set (reverse_tour st') \<subseteq> {..<n}" using within top u by (auto simp: st'_def)
      show "\<forall>x\<in>set (reverse_tour st'). incident es x \<subseteq> insert k ?U" using closed by (auto simp: st'_def)
      show "two_trails es root (euler_stack st') (reverse_tour st') anchor (k # sids) link rids"
        using two_trails_push [OF trails k(2)] by (simp add: st'_def)
      show "distinct ((k # sids) @ link @ rids)" using ids fresh by auto
      show "set ((k # sids) @ link @ rids) = insert k ?U" using ids(2) by auto
      show "euler_stack st' \<noteq> [] \<longrightarrow> odd_ends es (insert k ?U) (hd (euler_stack st')) anchor"
        using odd_ends_push [OF parity k(1) fresh k(2) u(2)] by (simp add: st'_def)
    qed
    moreover have "tour_left es st' < tour_left es st"
    proof -
      have "{..<length es} - insert k ?U = ({..<length es} - ?U) - {k}" by auto
      then have "card ({..<length es} - ?U) = Suc (card ({..<length es} - insert k ?U))"
        using card.remove [of "{..<length es} - ?U" k] k(1) fresh by simp
      then show ?thesis unfolding tour_left_def U by (simp add: st'_def top)
    qed
    ultimately show ?thesis using step by simp
  qed
qed

section \<open>The circuit\<close>

text \<open>A closed walk from the root over every edge exactly once, which meets every vertex.\<close>

definition eulerian_circuit :: "nat \<Rightarrow> mst_edge list \<Rightarrow> nat \<Rightarrow> nat list \<Rightarrow> bool" where
  "eulerian_circuit n es root tour \<longleftrightarrow>
     hd tour = root \<and> List.last tour = root \<and> set tour = {..<n} \<and>
     (\<exists>ids. trail es tour ids \<and> distinct ids \<and> set ids = {..<length es})"

lemma euler_start_invariant:
  assumes "root < n" and "\<forall>v. even (degree es v)"
  shows "tour_invariant n es adjacency root (euler_start n (length es) root)"
proof -
  have U: "used_set (euler_start n (length es) root) = {}" by (simp add: used_set_def euler_start_def)
  show ?thesis unfolding tour_invariant_def U
  proof (intro conjI exI)
    show "two_trails es root (euler_stack (euler_start n (length es) root)) (reverse_tour (euler_start n (length es) root)) root [] [] []"
      by (simp add: two_trails_def euler_start_def)
    show "euler_stack (euler_start n (length es) root) \<noteq> [] \<longrightarrow>
        odd_ends es {} (hd (euler_stack (euler_start n (length es) root))) root"
      using assms(2) by (simp add: odd_ends_def euler_start_def degree_incident)
  qed (use assms(1) in \<open>simp_all add: euler_start_def\<close>)
qed

lemma eulerian_multigraph_tour_ok:
  assumes es: "edges_within n es" and even: "\<forall>v. even (degree es v)" and conn: "connects n (ends es)" and "0 < n"
  obtains tour where "eulerian_multigraph_tour n es 0 = Some (Inr tour)" "eulerian_circuit n es 0 tour"
proof -
  have pairs: "map snd (zip [0..<length es] es) = es" by simp
  have numbered: "\<forall>(k, e)\<in>set (zip [0..<length es] es). k < length es \<and> es ! k = e"
    by (auto simp: in_set_zip)
  obtain A D where A: "fold_result (add_euler_edge n) (zip [0..<length es] es) (replicate n [], replicate n 0) = Inr (A, D)"
    "length A = n" "length D = n" "\<forall>v<n. D ! v = replicate n 0 ! v + degree (map snd (zip [0..<length es] es)) v"
    "\<forall>v<n. \<forall>(u, w, k)\<in>set (A ! v). k < length es \<and> joins (es ! k) v u"
    "\<forall>v<n. set (replicate n [] ! v) \<subseteq> set (A ! v) \<and>
      (\<forall>(k, e)\<in>set (zip [0..<length es] es). edge_from e = v \<or> edge_to e = v \<longrightarrow> k \<in> (\<lambda>(u, w, k). k) ` set (A ! v))"
    by (rule add_euler_edges [OF _ numbered, of n "replicate n []" "replicate n 0"]) (use es pairs in auto)
  have inc: "incident es v \<subseteq> (\<lambda>(u, w, k). k) ` set (A ! v)" if v: "v < n" for v
  proof
    fix k assume k: "k \<in> incident es v"
    then have "zip [0..<length es] es ! k = (k, es ! k)" "k < length (zip [0..<length es] es)"
      by (auto simp: incident_def)
    then have "(k, es ! k) \<in> set (zip [0..<length es] es)" by (metis nth_mem)
    then show "k \<in> (\<lambda>(u, w, k). k) ` set (A ! v)" using A(6) v k by (auto simp: incident_def)
  qed
  define adjacency where "adjacency = map (sort_key (\<lambda>(vertex, distance, edge_id). (distance, vertex, edge_id))) A"
  have graph: "euler_graph n es adjacency"
    unfolding adjacency_def by (rule sort_key_euler_graph [OF A(2) es A(5)]) (use inc in blast)
  obtain st where st: "while_option (\<lambda>st. euler_stack st \<noteq> []) (euler_step adjacency) (euler_start n (length es) 0) = Some st"
    "tour_invariant n es adjacency 0 st" "\<not> euler_stack st \<noteq> []"
    using while_option_ends [where I = "tour_invariant n es adjacency 0" and f = "tour_left es"
        and b = "\<lambda>st. euler_stack st \<noteq> []" and c = "euler_step adjacency",
        OF euler_start_invariant [OF assms(4) even] euler_step_keeps [OF graph]] by blast
  let ?r = "reverse_tour st" and ?U = "used_set st"
  obtain rids where r: "?r \<noteq> []" "trail es (rev ?r) rids" "hd ?r = 0" "List.last ?r = 0" "distinct rids" "set rids = ?U"
    using st(2,3) by (auto simp: tour_invariant_def two_trails_def split: if_splits)
  have within: "set ?r \<subseteq> {..<n}" and closed: "\<forall>v\<in>set ?r. incident es v \<subseteq> ?U" and len: "length (used_edges st) = length es"
    using st(2) by (simp_all add: tour_invariant_def)
  have beside: "beside (ends es) v \<subseteq> set ?r" if v: "v \<in> set ?r" for v
  proof
    fix u assume "u \<in> beside (ends es) v"
    then obtain k where k: "k < length es" "joins (es ! k) v u"
      by (auto simp: beside_def ends_def joins_def in_set_conv_nth)
    then have "k \<in> ?U" using closed v by (auto simp: incident_def joins_def)
    then show "u \<in> set ?r" using trail_ends [OF r(2), of k] r(6) k(2) by (auto simp: joins_def)
  qed
  have all: "set ?r = {..<n}"
  proof (rule subset_antisym [OF within], rule subsetI)
    fix v assume v: "v \<in> {..<n}"
    have "0 \<in> set ?r" using r(1,3) hd_in_set by metis
    then show "v \<in> set ?r"
      using joined_closed [of 0 v "ends es" "set ?r"] conn v beside by (auto simp: connects_def)
  qed
  have used: "?U = {..<length es}"
  proof (rule subset_antisym)
    show "?U \<subseteq> {..<length es}" by (auto simp: used_set_def len)
    show "{..<length es} \<subseteq> ?U"
    proof
      fix k assume k: "k \<in> {..<length es}"
      then have "edge_from (es ! k) \<in> set ?r" using es all by (auto simp: edges_within_def)
      then show "k \<in> ?U" using closed k by (auto simp: incident_def)
    qed
  qed
  then have "False \<notin> set (used_edges st)" using len by (auto simp: in_set_conv_nth used_set_def)
  moreover have "length ?r = Suc (length es)"
    using trail_length [OF r(2)] distinct_card [OF r(5)] r(6) used by simp
  moreover have "\<not> list_ex (\<lambda>degree. degree mod 2 \<noteq> 0) D"
    using A(3,4) even by (auto simp: list_ex_iff in_set_conv_nth even_iff_mod_2_eq_zero)
  ultimately have "eulerian_multigraph_tour n es 0 = Some (Inr (rev ?r))"
    using assms(4) A(1) st(1) all
    by (simp add: eulerian_multigraph_tour_def adjacency_def list_all_iff)
  moreover have "eulerian_circuit n es 0 (rev ?r)"
    using r used all by (auto simp: eulerian_circuit_def hd_rev last_rev)
  ultimately show thesis by (rule that)
qed

end
