(* ===== verification/Christofides_Facts.thy ===== *)
theory Christofides_Facts
  imports Christofides_Tour
begin

text \<open>
  The Christofides generator as a whole: the distances of the odd vertices, the matching as
  edges that repair the parity, and its orders.
\<close>

section \<open>The distances of the odd vertices\<close>

text \<open>
  The table while it is filled: square and symmetric, with the distances of the pairs in \<open>filled\<close>.
\<close>

definition odd_filled :: "(nat \<Rightarrow> nat \<Rightarrow> bool) \<Rightarrow> distance_fn \<Rightarrow> usize list \<Rightarrow> u64 list list \<Rightarrow> bool" where
  "odd_filled filled distance odds D \<longleftrightarrow>
     length D = length odds \<and> (\<forall>a<length odds. length (D ! a) = length odds \<and> D ! a ! a = 0) \<and>
     (\<forall>b<length odds. \<forall>a<b. D ! a ! b = D ! b ! a \<and> D ! a ! b < 2 ^ 32 \<and>
       (filled a b \<longrightarrow> distance (odds ! a) (odds ! b) = Inr (D ! a ! b)))"

definition odd_table :: "distance_fn \<Rightarrow> usize list \<Rightarrow> u64 list list \<Rightarrow> bool" where
  "odd_table = odd_filled (\<lambda>_ _. True)"

lemma odd_filled_cong:
  "odd_filled P distance odds D \<Longrightarrow> (\<And>a b. a < b \<Longrightarrow> b < length odds \<Longrightarrow> Q a b \<Longrightarrow> P a b) \<Longrightarrow> odd_filled Q distance odds D"
  unfolding odd_filled_def by blast

lemma fill_pair_keeps:
  assumes "odd_filled P distance odds D" and "left < right" "right < length odds"
    and "distance (odds ! left) (odds ! right) = Inr d" "d < 2 ^ 32"
  shows "ok_in (\<lambda>e. False) (odd_filled (\<lambda>a b. P a b \<or> a = left \<and> b = right) distance odds)
    (fill_pair distance odds left right D)"
proof -
  define D' where "D' = (D[left := (D ! left)[right := d]])[right := (D ! right)[left := d]]"
  have row: "D' ! a = (if a = left then (D ! left)[right := d] else if a = right then (D ! right)[left := d] else D ! a)"
    if "a < length odds" for a
    using assms(1-3) that by (auto simp: D'_def odd_filled_def nth_list_update)
  have cell: "D' ! a ! b = (if a = left \<and> b = right \<or> a = right \<and> b = left then d else D ! a ! b)"
    if "a < length odds" "b < length odds" for a b
    using assms(1-3) that by (simp add: row odd_filled_def nth_list_update)
  have shape: "length D' = length odds" "a < length odds \<Longrightarrow> length (D' ! a) = length odds" for a
    using assms(1-3) by (auto simp: row) (simp_all add: D'_def odd_filled_def)
  have "D' ! a ! a = 0" if "a < length odds" for a
    using assms(1-3) that by (auto simp: cell odd_filled_def)
  moreover have "D' ! a ! b = D' ! b ! a \<and> D' ! a ! b < 2 ^ 32 \<and>
      (P a b \<or> a = left \<and> b = right \<longrightarrow> distance (odds ! a) (odds ! b) = Inr (D' ! a ! b))"
    if "b < length odds" "a < b" for a b
    using assms that by (auto simp: cell odd_filled_def)
  ultimately have "odd_filled (\<lambda>a b. P a b \<or> a = left \<and> b = right) distance odds D'"
    using shape unfolding odd_filled_def by blast
  moreover have "fill_pair distance odds left right D = Inr D'"
    using assms by (simp add: fill_pair_def D'_def Let_def)
  ultimately show ?thesis by simp
qed

lemma fill_row:
  assumes pair: "\<forall>b<length odds. \<forall>a<b. \<exists>d<2 ^ 32. distance (odds ! a) (odds ! b) = Inr d"
    and "left < length odds" and "odd_filled (\<lambda>a b. a < left) distance odds D"
  shows "ok_in (\<lambda>e. False) (odd_filled (\<lambda>a b. a < Suc left) distance odds)
    (fold_result (fill_pair distance odds left) [left + 1..<length odds] D)"
proof -
  let ?I = "\<lambda>right. odd_filled (\<lambda>a b. a < left \<or> a = left \<and> b < right) distance odds"
  have "ok_in (\<lambda>e. False) (?I (length odds)) (fold_result (fill_pair distance odds left) [left + 1..<length odds] D)"
  proof (rule fold_result_upt [where I = ?I])
    show "?I (left + 1) D" using assms(3) by (rule odd_filled_cong) auto
    fix right D assume r: "left + 1 \<le> right" "right < length odds" and D: "?I right D"
    then obtain d where "d < 2 ^ 32" "distance (odds ! left) (odds ! right) = Inr d" using pair [rule_format, of right left] r by auto
    from fill_pair_keeps [OF D _ r(2) this(2,1)] r(1)
    show "ok_in (\<lambda>e. False) (?I (Suc right)) (fill_pair distance odds left right D)"
      by (cases "fill_pair distance odds left right D") (auto elim: odd_filled_cong)
  qed (use assms(2) in simp)
  then show ?thesis
    by (cases "fold_result (fill_pair distance odds left) [left + 1..<length odds] D")
      (auto elim: odd_filled_cong)
qed

lemma odd_distances_ok:
  assumes "distinct odds" and "\<forall>u\<in>set odds. \<forall>v\<in>set odds. u \<noteq> v \<longrightarrow> (\<exists>d<2 ^ 32. distance u v = Inr d)"
  obtains D where "odd_distances distance odds = Inr D" "odd_table distance odds D"
proof -
  let ?k = "length odds"
  let ?I = "\<lambda>left. odd_filled (\<lambda>a b. a < left) distance odds"
  have pair: "\<forall>b<?k. \<forall>a<b. \<exists>d<2 ^ 32. distance (odds ! a) (odds ! b) = Inr d"
    using assms by (simp add: nth_eq_iff_index_eq)
  have "ok_in (\<lambda>e. False) (?I ?k) (odd_distances distance odds)"
    unfolding odd_distances_def Let_def
  proof (rule fold_result_upt [where I = ?I])
    show "?I 0 (replicate ?k (replicate ?k 0))" by (simp add: odd_filled_def)
    fix left D assume "0 \<le> left" "left < ?k" "?I left D"
    then show "ok_in (\<lambda>e. False) (?I (Suc left)) (fold_result (fill_pair distance odds left) [left + 1..<?k] D)"
      using fill_row [OF pair] by blast
  qed simp
  then obtain D where D: "odd_distances distance odds = Inr D" "?I ?k D"
    by (cases "odd_distances distance odds") auto
  from D(2) have "odd_table distance odds D" unfolding odd_table_def by (rule odd_filled_cong) auto
  with D(1) show thesis by (rule that)
qed

lemma odd_table_valid:
  assumes "odd_table distance odds D" and "distinct odds" and "even (length odds)"
  shows "validate_matching_problem odds D = Inr ()"
  using assms unfolding validate_matching_Inr odd_table_def odd_filled_def by (auto simp: in_set_conv_nth)

lemma odd_table_bound:
  assumes "odd_table distance odds D"
  shows "\<forall>l<length odds. \<forall>r<length odds. D ! l ! r \<le> 2 ^ 32"
proof (intro allI impI)
  fix l r assume "l < length odds" "r < length odds"
  then show "D ! l ! r \<le> 2 ^ 32"
    using assms unfolding odd_table_def odd_filled_def by (cases l r rule: linorder_cases) (metis less_imp_le le0)+
qed

section \<open>The matching as edges\<close>

lemma flat_length: "length (flat ps) = 2 * length ps"
  by (induction ps) auto

lemma pairs_up_vertices:
  assumes "pairs_up {..<length odds} ps"
  shows "mset (map ((!) odds) (flat ps)) = mset odds"
proof -
  have "mset (flat ps) = mset [0..<length odds]"
    using assms set_eq_iff_mset_eq_distinct [of "flat ps" "[0..<length odds]"]
    by (auto simp: pairs_up_def atLeast0LessThan)
  then show ?thesis by (metis map_nth mset_map)
qed

lemma matched_distinct:
  assumes "pairs_up {..<length odds} ps" and "distinct odds"
  shows "distinct (map ((!) odds) (flat ps))" "set (map ((!) odds) (flat ps)) = set odds"
  using mset_eq_imp_distinct_iff [OF pairs_up_vertices [OF assms(1)]] mset_eq_setD [OF pairs_up_vertices [OF assms(1)]]
    assms(2) by simp_all

lemma insert_matched_fold:
  assumes "distinct (map ((!) odds) (flat ps))" and "set (map ((!) odds) (flat ps)) \<inter> A = {}"
  shows "fold_result insert_matched (map (pair_edge odds D) ps) A = Inr (A \<union> set (map ((!) odds) (flat ps)))"
  using assms
proof (induction ps arbitrary: A)
  case (Cons p ps)
  obtain l r where p: "p = (l, r)" by (cases p)
  let ?A = "insert (odds ! r) (insert (odds ! l) A)"
  have "insert_matched (pair_edge odds D p) A = Inr ?A"
    using Cons.prems p by (auto simp: insert_matched_def pair_edge_def)
  moreover have "fold_result insert_matched (map (pair_edge odds D) ps) ?A = Inr (?A \<union> set (map ((!) odds) (flat ps)))"
    using Cons.prems p by (intro Cons.IH) auto
  ultimately show ?case using p by (simp add: insert_commute)
qed simp

lemma validate_matching_result_ok:
  assumes "pairs_up {..<length odds} ps" and "distinct odds"
  shows "validate_matching_result odds (map (pair_edge odds D) ps) = Inr ()"
proof -
  have "length (flat ps) = length odds" using mset_eq_length [OF pairs_up_vertices [OF assms(1)]] by simp
  then have "length ps * 2 = length odds" using flat_length [of ps] by simp
  then show ?thesis
    using insert_matched_fold [of odds ps "{}" D] matched_distinct [OF assms]
    by (simp add: validate_matching_result_def)
qed

lemma matching_degree:
  assumes "\<forall>(l, r)\<in>set ps. odds ! l \<noteq> odds ! r"
  shows "degree (map as_mst_edge (map (pair_edge odds D) ps)) v = count (mset (map ((!) odds) (flat ps))) v"
  using assms by (induction ps) (auto simp: as_mst_edge_def pair_edge_def)

lemma matching_edges:
  assumes ps: "pairs_up {..<length odds} ps" and odds: "distinct odds" "set odds \<subseteq> {..<n}"
  shows "edges_within n (map as_mst_edge (map (pair_edge odds D) ps))"
    "degree (map as_mst_edge (map (pair_edge odds D) ps)) v = of_bool (v \<in> set odds)"
proof -
  have pair: "l < length odds" "r < length odds" "l < r" if "(l, r) \<in> set ps" for l r
  proof -
    have "{l, r} \<subseteq> set (flat ps)" using that by (force simp: flat_def)
    then show "l < length odds" "r < length odds" "l < r" using ps that by (auto simp: pairs_up_def)
  qed
  then have differ: "odds ! l \<noteq> odds ! r" if "(l, r) \<in> set ps" for l r
    using pair [OF that] nth_eq_iff_index_eq [OF odds(1)] by simp
  show "edges_within n (map as_mst_edge (map (pair_edge odds D) ps))"
    unfolding edges_within_def
  proof
    fix e assume "e \<in> set (map as_mst_edge (map (pair_edge odds D) ps))"
    then obtain l r where e: "(l, r) \<in> set ps" "e = as_mst_edge (pair_edge odds D (l, r))" by auto
    have "odds ! l \<in> set odds" "odds ! r \<in> set odds" using pair [OF e(1)] by simp_all
    then show "edge_from e < n \<and> edge_to e < n \<and> edge_from e \<noteq> edge_to e"
      using odds(2) differ [OF e(1)] by (auto simp: e(2) as_mst_edge_def pair_edge_def)
  qed
  have "degree (map as_mst_edge (map (pair_edge odds D) ps)) v = count (mset odds) v"
    using matching_degree [of ps odds D v] differ pairs_up_vertices [OF ps] by auto
  then show "degree (map as_mst_edge (map (pair_edge odds D) ps)) v = of_bool (v \<in> set odds)"
    using distinct_count_atmost_1 [of odds] odds(1) by simp
qed

section \<open>One run\<close>

lemma degree_outside: "edges_within n es \<Longrightarrow> n \<le> v \<Longrightarrow> degree es v = 0"
  by (induction es) auto

text \<open>The tree with a matching of its odd vertices has an Eulerian circuit.\<close>

lemma christofides_order_ok:
  assumes n: "length (locations (input_problem i)) = n" "0 < n"
    and es: "edges_within n es" "connects n (ends es)"
    and ms: "edges_within n ms" "\<forall>v. degree ms v = of_bool (v \<in> set (filter (\<lambda>v. odd (degree es v)) [0..<n]))"
  obtains tour visits where "christofides_order i (es @ ms) = Some (Inr (tour, visits))"
    "eulerian_circuit n (es @ ms) 0 tour" "whole_route n visits"
proof -
  have "even (degree (es @ ms) v)" for v
    using ms(2) degree_outside [OF es(1), of v] by (cases "v < n") auto
  moreover have "connects n (ends (es @ ms))"
    using es(2) joined_mono [of "ends es" "ends (es @ ms)"] by (auto simp: connects_def)
  moreover have "edges_within n (es @ ms)" using es(1) ms(1) by simp
  ultimately obtain tour where tour: "eulerian_multigraph_tour n (es @ ms) 0 = Some (Inr tour)"
    "eulerian_circuit n (es @ ms) 0 tour"
    using eulerian_multigraph_tour_ok [of n "es @ ms"] n(2) by blast
  have circuit: "set tour = {..<n}" "hd tour = 0" using tour(2) by (simp_all add: eulerian_circuit_def)
  obtain order where order: "shortcut_euler_tour n tour = Inr order" "distinct order" "set order = {..<n}"
    "tour \<noteq> [] \<longrightarrow> hd order = hd tour"
    by (rule shortcut_euler_tour_ok [OF circuit(1)])
  have hd: "hd order = 0" using order(4) circuit set_upto_nonempty [OF circuit(1) n(2)] by simp
  have len: "length order = n" using distinct_card [OF order(2)] order(3) by simp
  have "\<exists>visits. move_fixed_destination_to_end order (n - 1) = Inr visits \<and> whole_route n visits"
  proof (cases "1 < n")
    case True
    obtain k where k: "position_of (n - 1) order = Some k" "whole_route n (remove_at k order @ [n - 1])"
      by (rule destination_last [OF order(2,3) hd True])
    have "\<not> length order \<le> 1" using len True by simp
    then have "move_fixed_destination_to_end order (n - 1) = Inr (remove_at k order @ [n - 1])"
      unfolding move_fixed_destination_to_end_def k(1) by simp
    then show ?thesis using k(2) by blast
  next
    case False
    then have "n = 1" using n(2) by linarith
    moreover have "order \<noteq> []" by (rule set_upto_nonempty [OF order(3) n(2)])
    moreover have "List.last order \<in> set order" using \<open>order \<noteq> []\<close> by simp
    ultimately have "whole_route n order" using order(2,3) hd by (simp add: whole_route_def)
    then show ?thesis using len False by (simp add: move_fixed_destination_to_end_def)
  qed
  then obtain visits where v: "move_fixed_destination_to_end order (n - 1) = Inr visits" "whole_route n visits" by blast
  have "christofides_order i (es @ ms) = Some (Inr (tour, visits))"
    unfolding christofides_order_def Let_def end_location_index_def n(1) tour(1)
    by (simp only: option.map bind_result_simps order(1) v(1))
  then show thesis using that tour(2) v(2) by blast
qed

lemma built_in_small:
  assumes "built_in_distance s" and "u32_cells m" and "both_ways m u v"
  shows "\<exists>d<2 ^ 32. symmetric_distance s m u v = Inr d"
proof -
  obtain f r where fr: "travel_minutes m u v = Some f" "travel_minutes m v u = Some r"
    using assms(3) by (auto simp: both_ways_def)
  then have "f < 2 ^ 32" "r < 2 ^ 32" using travel_minutes_bound [OF assms(2)] by blast+
  then show ?thesis using assms(1) fr by (auto simp: built_in_distances directed_pair_cases)
qed

text \<open>Where the tree can be built at all, everything up to the matching succeeds.\<close>

lemma christofides_tree_ok:
  assumes wf: "wf_input i" and never: "never_cancelled i" and ok: "validate_generator_input i = Inr ()"
    and s: "built_in_distance s"
    and reach: "\<forall>u<length (locations (input_problem i)). \<forall>v<length (locations (input_problem i)).
      u \<noteq> v \<longrightarrow> both_ways (input_matrix i) u v"
  obtains es odds D where "christofides_tree s i = Inr (es, odds, D)"
    "least_tree (length (locations (input_problem i))) (symmetric_distance s (input_matrix i)) es"
    "odds = filter (\<lambda>v. odd (degree es v)) [0..<length (locations (input_problem i))]"
    "odd_table (symmetric_distance s (input_matrix i)) odds D"
proof -
  let ?n = "length (locations (input_problem i))" and ?d = "symmetric_distance s (input_matrix i)"
  note n = wf_input_simps [OF wf]
  have polled: "polled_distance s i = ?d"
    using never by (auto simp: polled_distance_def never_cancelled_def intro!: ext)
  obtain es where es: "minimum_spanning_tree ?n ?d = Inr es" "least_tree ?n ?d es"
    using built_in_tree [OF s n(2,1)] reach by auto
  have within: "edges_within ?n es" using es(2) by (auto simp: least_tree_def edges_within_def)
  define odds where "odds = filter (\<lambda>v. odd (degree es v)) [0..<?n]"
  have "\<forall>u\<in>set odds. \<forall>v\<in>set odds. u \<noteq> v \<longrightarrow> (\<exists>d<2 ^ 32. ?d u v = Inr d)"
    using built_in_small [OF s n(2)] reach by (simp add: odds_def)
  moreover have "distinct odds" by (simp add: odds_def)
  ultimately obtain D where D: "odd_distances ?d odds = Inr D" "odd_table ?d odds D"
    using odd_distances_ok [of odds ?d] by blast
  have "christofides_tree s i = Inr (es, odds, D)"
    unfolding christofides_tree_def polled ok es(1) odd_degree_vertices_ok [OF within] bind_result_simps
      odds_def [symmetric] D(1) by (rule refl)
  then show thesis using that es(2) odds_def D(2) by blast
qed

text \<open>
  An answer of the crate that is a perfect matching: each vertex has another one as its mate, and
  is the mate of its mate. Any other answer, a panic included, is refused.
\<close>

definition mates_pair_up :: "nat \<Rightarrow> usize list option \<Rightarrow> bool" where
  "mates_pair_up k answer \<longleftrightarrow>
     (case answer of None \<Rightarrow> False
      | Some mates \<Rightarrow> length mates = k \<and> (\<forall>v<k. mates ! v < k \<and> mates ! v \<noteq> v \<and> mates ! (mates ! v) = v))"

lemma validate_blossom_mates_Inr: "validate_blossom_mates mates k = Inr () \<longleftrightarrow> mates_pair_up k (Some mates)"
proof -
  have "find (\<lambda>v. mates ! v \<ge> length mates \<or> mates ! v = v \<or> get mates (mates ! v) \<noteq> Some v) [0..<length mates] = None \<longleftrightarrow>
      (\<forall>v<length mates. mates ! v < length mates \<and> mates ! v \<noteq> v \<and> mates ! (mates ! v) = v)"
    by (auto simp: find_None_iff get_def)
  then show ?thesis by (auto simp: validate_blossom_mates_def mates_pair_up_def split: option.splits)
qed

lemma validate_blossom_mates_Inl:
  assumes "validate_blossom_mates mates k = Inl e"
  shows "\<not> mates_pair_up k (Some mates) \<and> (\<exists>message. e = PerfectMatchingFailed message)"
proof -
  have "\<not> mates_pair_up k (Some mates)" using assms validate_blossom_mates_Inr [of mates k] by auto
  then show ?thesis using assms by (auto simp: validate_blossom_mates_def split: option.splits if_splits)
qed

text \<open>The automatic choice: the dynamic program up to 20 vertices, the crate beyond.\<close>

lemma auto_matching:
  assumes matcher: "auto_perfect_matching_new solve default_matching_config = Inr matcher"
    and D: "odd_table distance odds D" "distinct odds" "even (length odds)"
  shows "(\<exists>ps. perfect_matching matcher odds D = Some (Inr (map (pair_edge odds D) ps)) \<and> pairs_up {..<length odds} ps) \<or>
    20 < length odds \<and> \<not> mates_pair_up (length odds) (solve (map int (concat D)) (length odds)) \<and>
    (\<exists>message. perfect_matching matcher odds D = Some (Inl (PerfectMatchingFailed message)))"
proof (cases "length odds \<le> 20")
  case True
  then have "perfect_matching matcher odds D = bit_dp_matching 20 odds D"
    using matcher by (auto simp: auto_perfect_matching_new_def bind_result_Inr matching_config_new_def
        default_matching_config_def selected_choice_def chosen_strategy_def bit_dp_perfect_matching_def
        max_bit_dp_matching_vertices_def)
  moreover have "length odds * 2 ^ 32 < 2 * u64_max"
  proof -
    have "length odds * 2 ^ 32 \<le> 20 * 2 ^ 32" using True by (rule mult_right_mono) simp
    then show ?thesis by (simp add: u64_max_def)
  qed
  ultimately show ?thesis
    using bit_dp_matching_pairs [OF odd_table_valid [OF D] True odd_table_bound [OF D(1)]] by metis
next
  case False
  then have m: "perfect_matching matcher odds D = Some (blossom_matching solve odds D)"
    using matcher by (auto simp: auto_perfect_matching_new_def bind_result_Inr matching_config_new_def
        default_matching_config_def selected_choice_def chosen_strategy_def blossom_perfect_matching_def
        max_bit_dp_matching_vertices_def)
  show ?thesis
  proof (cases "blossom_matching solve odds D")
    case (Inl e)
    have "odds \<noteq> []" using False by auto
    then have "\<not> mates_pair_up (length odds) (solve (map int (concat D)) (length odds)) \<and> (\<exists>message. e = PerfectMatchingFailed message)"
      using Inl odd_table_valid [OF D] validate_blossom_mates_Inl
      by (cases "solve (map int (concat D)) (length odds)")
        (auto simp: blossom_matching_def bind_result_Inl Let_def mates_pair_up_def [of _ None])
    then show ?thesis using m Inl False by auto
  next
    case (Inr edges)
    then obtain ps where "edges = map (pair_edge odds D) ps" "pairs_up {..<length odds} ps"
      by (rule blossom_matching_pairs)
    then show ?thesis using m Inr by auto
  qed
qed

text \<open>A list of edges that pairs up the given vertices, each edge with its distance.\<close>

definition matched_up :: "distance_fn \<Rightarrow> usize list \<Rightarrow> perfect_matching_edge list \<Rightarrow> bool" where
  "matched_up distance odds matching \<longleftrightarrow>
     (let ends = concat (map (\<lambda>e. [match_left e, match_right e]) matching) in
      distinct ends \<and> set ends = set odds \<and>
      (\<forall>e\<in>set matching. distance (match_left e) (match_right e) = Inr (match_distance e)))"

lemma matched_up_pairs:
  assumes "pairs_up {..<length odds} ps" and "distinct odds" and "odd_table distance odds D"
  shows "matched_up distance odds (map (pair_edge odds D) ps)"
proof -
  have ends: "concat (map (\<lambda>e. [match_left e, match_right e]) (map (pair_edge odds D) ps)) = map ((!) odds) (flat ps)"
    by (induction ps) (auto simp: pair_edge_def)
  have "distance (odds ! l) (odds ! r) = Inr (D ! l ! r)" if "(l, r) \<in> set ps" for l r
  proof -
    have "{l, r} \<subseteq> set (flat ps)" using that by (force simp: flat_def)
    then have "l < r" "r < length odds" using assms(1) that by (auto simp: pairs_up_def)
    then show ?thesis using assms(3) by (simp add: odd_table_def odd_filled_def)
  qed
  then show ?thesis
    using matched_distinct [OF assms(1,2)] unfolding matched_up_def ends Let_def by (auto simp: pair_edge_def)
qed

text \<open>The parts of a result: the tree, its odd vertices, their matching, the circuit of both.\<close>

definition christofides_parts :: "distance_fn \<Rightarrow> nat \<Rightarrow> christofides_result \<Rightarrow> bool" where
  "christofides_parts distance n r \<longleftrightarrow>
     least_tree n distance (chr_mst_edges r) \<and>
     chr_odd_vertices r = filter (\<lambda>v. odd (degree (chr_mst_edges r) v)) [0..<n] \<and>
     matched_up distance (chr_odd_vertices r) (chr_matching_edges r) \<and>
     eulerian_circuit n (chr_mst_edges r @ map as_mst_edge (chr_matching_edges r)) 0 (chr_euler_tour r)"

text \<open>After the tree, a matching that pairs up the odd vertices gives the whole result.\<close>

lemma christofides_after_tree:
  assumes n: "length (locations (input_problem i)) = n" "0 < n"
    and tree: "christofides_tree s i = Inr (es, odds, D)" "least_tree n distance es"
      "odds = filter (\<lambda>v. odd (degree es v)) [0..<n]"
    and es: "edges_within n es" "connects n (ends es)"
    and D: "odd_table distance odds D" and odds: "distinct odds" "even (length odds)" "set odds \<subseteq> {..<n}"
    and m: "perfect_matching matcher odds D = Some (Inr (map (pair_edge odds D) ps))"
    and ps: "pairs_up {..<length odds} ps"
  shows "\<exists>r. christofides_generate_detailed s matcher i = Some (Inr r) \<and> christofides_parts distance n r \<and>
    chr_eulerian_edges r = chr_mst_edges r @ map as_mst_edge (chr_matching_edges r) \<and>
    valid_order (input_problem i) (visit_order (chr_solution r)) \<and> set (visit_order (chr_solution r)) = {..<n}"
proof -
  let ?matching = "map (pair_edge odds D) ps"
  note ms = matching_edges [OF ps odds(1,3), of D]
  obtain tour visits where order: "christofides_order i (es @ map as_mst_edge ?matching) = Some (Inr (tour, visits))"
    "eulerian_circuit n (es @ map as_mst_edge ?matching) 0 tour" "whole_route n visits"
    by (rule christofides_order_ok [OF n es ms(1)]) (use ms(2) tree(3) in blast)
  have "valid_order (input_problem i) visits" "set visits = {..<n}"
    using order(3) whole_route_valid [of "input_problem i" visits] by (simp_all add: n whole_route_def)
  moreover have "christofides_generate_detailed s matcher i = Some (Inr
      \<lparr>chr_distance_strategy = distance_name s, chr_matching_strategy = matching_name matcher (length odds),
       chr_mst_edges = es, chr_odd_vertices = odds, chr_matching_edges = ?matching,
       chr_eulerian_edges = es @ map as_mst_edge ?matching, chr_euler_tour = tour, chr_solution = \<lparr>visit_order = visits\<rparr>\<rparr>)"
    using order(1) tree(1) m validate_matching_result_ok [OF ps odds(1), of D]
    by (simp add: christofides_generate_detailed_def Let_def)
  ultimately show ?thesis
    using order(2) tree(2,3) matched_up_pairs [OF ps odds(1) D] by (simp add: christofides_parts_def)
qed

section \<open>Properties\<close>

text \<open>
  C31. The Christofides generator, with one of the built-in distances and the automatic choice of
  the matching, on a run that is not cancelled: where all pairs can be travelled both ways, the run
  ends. Its tree is a minimum spanning tree, its odd vertices are those of odd degree in the tree,
  its matching pairs up exactly these, at the distances of the matrix, and its Hierholzer tour
  takes every edge of the tree and of the matching exactly once and returns to the start; the route
  visits every location once between the fixed endpoints. It fails only beyond 20 odd vertices,
  when the answer of the external matching crate pairs them up wrongly or is a panic. If some pair
  cannot be travelled both ways, the answer is that there is no feasible route.
\<close>

theorem christofides_complete:
  assumes "wf_input i" and "never_cancelled i" and "built_in_distance s"
    and "matrix_size (input_matrix i) = length (locations (input_problem i))"
    and "auto_perfect_matching_new solve default_matching_config = Inr matcher"
  shows "let n = length (locations (input_problem i)) in
    if \<forall>u<n. \<forall>v<n. u \<noteq> v \<longrightarrow> both_ways (input_matrix i) u v
    then case christofides_generate_detailed s matcher i of
        None \<Rightarrow> False
      | Some (Inl e) \<Rightarrow> (\<exists>es odds D message. christofides_tree s i = Inr (es, odds, D) \<and> 20 < length odds \<and> length odds \<le> n \<and>
          \<not> mates_pair_up (length odds) (solve (map int (concat D)) (length odds)) \<and> e = PerfectMatchingFailed message)
      | Some (Inr r) \<Rightarrow>
          christofides_parts (symmetric_distance s (input_matrix i)) n r \<and>
          chr_eulerian_edges r = chr_mst_edges r @ map as_mst_edge (chr_matching_edges r) \<and>
          valid_order (input_problem i) (visit_order (chr_solution r)) \<and>
          set (visit_order (chr_solution r)) = {..<n}
    else christofides_generate_detailed s matcher i = Some (Inl NoFeasibleRoute)"
proof -
  define n where "n = length (locations (input_problem i))"
  let ?d = "symmetric_distance s (input_matrix i)"
  have ok: "validate_generator_input i = Inr ()"
    using assms(2,4) by (simp add: validate_generator_input_def never_cancelled_def Let_def)
  have pos: "0 < n" using wf_input_simps(1) [OF assms(1)] by (simp add: n_def)
  show ?thesis
  proof (cases "\<forall>u<n. \<forall>v<n. u \<noteq> v \<longrightarrow> both_ways (input_matrix i) u v")
    case False
    have polled: "polled_distance s i = ?d"
      using assms(2) by (auto simp: polled_distance_def never_cancelled_def intro!: ext)
    have "minimum_spanning_tree n ?d = Inl NoFeasibleRoute"
      using built_in_tree [OF assms(3) wf_input_simps(2) [OF assms(1)] pos] False by (simp only: if_False)
    then have "christofides_tree s i = Inl NoFeasibleRoute"
      by (simp add: christofides_tree_def ok polled n_def)
    then have "christofides_generate_detailed s matcher i = Some (Inl NoFeasibleRoute)"
      by (simp add: christofides_generate_detailed_def)
    then show ?thesis unfolding n_def [symmetric] Let_def if_not_P [OF False] .
  next
    case True
    obtain es odds D where tree: "christofides_tree s i = Inr (es, odds, D)"
      "least_tree n ?d es" "odds = filter (\<lambda>v. odd (degree es v)) [0..<n]" "odd_table ?d odds D"
      using christofides_tree_ok [OF assms(1,2) ok assms(3)] True unfolding n_def by blast
    have es: "edges_within n es" "connects n (ends es)"
      using tree(2) by (auto simp: least_tree_def edges_within_def)
    have odds: "distinct odds" "even (length odds)" "set odds \<subseteq> {..<n}"
      using even_odd_vertices [OF es(1)] by (auto simp: tree(3))
    have few: "length odds \<le> n" using length_filter_le [of "\<lambda>v. odd (degree es v)" "[0..<n]"] by (simp add: tree(3))
    note finished = christofides_after_tree [OF n_def [symmetric] pos tree(1-3) es tree(4) odds]
    from auto_matching [OF assms(5) tree(4) odds(1,2)] show ?thesis
      unfolding n_def [symmetric] Let_def if_P [OF True]
    proof (elim disjE exE conjE)
      fix ps assume "perfect_matching matcher odds D = Some (Inr (map (pair_edge odds D) ps))" "pairs_up {..<length odds} ps"
      from finished [OF this] show "case christofides_generate_detailed s matcher i of
          None \<Rightarrow> False
        | Some (Inl e) \<Rightarrow> (\<exists>es odds D message. christofides_tree s i = Inr (es, odds, D) \<and> 20 < length odds \<and> length odds \<le> n \<and>
            \<not> mates_pair_up (length odds) (solve (map int (concat D)) (length odds)) \<and> e = PerfectMatchingFailed message)
        | Some (Inr r) \<Rightarrow> christofides_parts ?d n r \<and>
            chr_eulerian_edges r = chr_mst_edges r @ map as_mst_edge (chr_matching_edges r) \<and>
            valid_order (input_problem i) (visit_order (chr_solution r)) \<and> set (visit_order (chr_solution r)) = {..<n}"
        by fastforce
    next
      fix message assume "20 < length odds" "\<not> mates_pair_up (length odds) (solve (map int (concat D)) (length odds))"
        and "perfect_matching matcher odds D = Some (Inl (PerfectMatchingFailed message))"
      moreover from this(3) have "christofides_generate_detailed s matcher i = Some (Inl (PerfectMatchingFailed message))"
        using tree(1) by (simp add: christofides_generate_detailed_def)
      ultimately show "case christofides_generate_detailed s matcher i of
          None \<Rightarrow> False
        | Some (Inl e) \<Rightarrow> (\<exists>es odds D message. christofides_tree s i = Inr (es, odds, D) \<and> 20 < length odds \<and> length odds \<le> n \<and>
            \<not> mates_pair_up (length odds) (solve (map int (concat D)) (length odds)) \<and> e = PerfectMatchingFailed message)
        | Some (Inr r) \<Rightarrow> christofides_parts ?d n r \<and>
            chr_eulerian_edges r = chr_mst_edges r @ map as_mst_edge (chr_matching_edges r) \<and>
            valid_order (input_problem i) (visit_order (chr_solution r)) \<and> set (visit_order (chr_solution r)) = {..<n}"
        using tree(1) few by auto
    qed
  qed
qed

theorem christofides_complete_witness:
  "\<exists>matcher r. auto_perfect_matching_new (\<lambda>_ _. None) default_matching_config = Inr matcher \<and>
    christofides_generate_detailed average_symmetric_distance matcher (readme_input Latest) = Some (Inr r) \<and>
    valid_order (readme_problem Latest) (visit_order (chr_solution r))"
proof -
  obtain matcher where m: "auto_perfect_matching_new (\<lambda>_ _. None) default_matching_config = Inr matcher"
    by (simp add: auto_perfect_matching_new_def matching_config_new_def default_matching_config_def
        max_bit_dp_matching_vertices_def)
  show ?thesis
    using christofides_complete [OF readme_wf(1) readme_not_cancelled average_built_in _ m, of Latest] readme_reaches m
    by (auto simp: Let_def split: option.splits sum.splits)
qed

end
