(* ===== verification/Clustered.thy ===== *)
theory Clustered
  imports Exact_Solver Mst
begin

text \<open>
  \<open>src/solver/heuristic/clustered/\<close>: the locations are split into small clusters, the clusters
  are put in order, the exact solver orders each cluster between the location before it and the
  nearest location after it, and swaps across the borders improve the joined route. The three
  traits of the code are records of their methods. The runs of other solvers and evaluations
  inside are numbered, so that each of them reads the token at sites of its own.
\<close>

section \<open>Configuration\<close>

definition default_max_exact_cluster_size :: usize where
  "default_max_exact_cluster_size = 10"

definition max_exact_cluster_size :: usize where
  "max_exact_cluster_size = exact_max_locations"

definition max_cluster_members_with_anchors :: usize where
  "max_cluster_members_with_anchors = exact_max_locations - 2"

record clustered_config =
  max_cluster_size :: usize

definition clustered_config_new :: "usize \<Rightarrow> solver_error + clustered_config" where
  "clustered_config_new n =
     (if \<not> (1 \<le> n \<and> n \<le> max_exact_cluster_size)
      then Inl (InvalidConfiguration (''max_cluster_size must be between 1 and '' @ nat_to_string max_exact_cluster_size))
      else Inr \<lparr>max_cluster_size = n\<rparr>)"

definition default_clustered_config :: clustered_config where
  "default_clustered_config = \<lparr>max_cluster_size = default_max_exact_cluster_size\<rparr>"

section \<open>Clusters\<close>

record cluster =
  members :: "usize list"

record cluster_strategy =
  cluster_strategy_name :: string
  make_clusters :: "optimization_problem \<Rightarrow> travel_time_matrix \<Rightarrow> usize \<Rightarrow> solver_error + cluster list"

definition minutes_or_max :: "travel_time_matrix \<Rightarrow> usize \<Rightarrow> usize \<Rightarrow> u32" where
  "minutes_or_max m a b = (case travel_minutes m a b of None \<Rightarrow> 2 ^ 32 - 1 | Some t \<Rightarrow> t)"

text \<open>
  The inner loop, from the members found so far, the last of them and the locations that are
  left (in the order of the set); then the outer loop.
\<close>

function grow_cluster ::
  "travel_time_matrix \<Rightarrow> usize \<Rightarrow> usize list \<Rightarrow> usize \<Rightarrow> usize list \<Rightarrow> usize list \<times> usize list" where
  "grow_cluster m limit found current remaining =
     (if length found < limit \<and> remaining \<noteq> []
      then case min_by_key (\<lambda>candidate. (minutes_or_max m current candidate, candidate)) remaining of
          None \<Rightarrow> (found, remaining)
        | Some next \<Rightarrow> grow_cluster m limit (found @ [next]) next (remove1 next remaining)
      else (found, remaining))"
  by pat_completeness auto
termination
  by (relation "measure (\<lambda>(m, limit, found, current, remaining). length remaining)")
    (auto simp: length_remove1 dest: min_by_key_Some(1) simp flip: length_greater_0_conv)

declare grow_cluster.simps [simp del]

lemma grow_cluster_remaining: "length (snd (grow_cluster m limit found current remaining)) \<le> length remaining"
proof (induction m limit found current remaining rule: grow_cluster.induct)
  case (1 m limit found current remaining)
  show ?case
  proof (cases "length found < limit \<and> remaining \<noteq> []")
    case True
    then obtain k where k: "min_by_key (\<lambda>candidate. (minutes_or_max m current candidate, candidate)) remaining = Some k"
      by (cases "min_by_key (\<lambda>candidate. (minutes_or_max m current candidate, candidate)) remaining") auto
    have "length (snd (grow_cluster m limit (found @ [k]) k (remove1 k remaining))) \<le> length remaining"
      using 1 [OF True k] by (simp add: length_remove1 split: if_splits)
    then show ?thesis using True k by (subst grow_cluster.simps) simp
  qed (subst grow_cluster.simps, auto)
qed

function nearest_clusters :: "travel_time_matrix \<Rightarrow> usize \<Rightarrow> usize list \<Rightarrow> cluster list" where
  "nearest_clusters m limit [] = []"
| "nearest_clusters m limit (seed # remaining) =
     \<lparr>members = fst (grow_cluster m limit [seed] seed remaining)\<rparr> #
       nearest_clusters m limit (snd (grow_cluster m limit [seed] seed remaining))"
  by pat_completeness auto
termination
  by (relation "measure (\<lambda>(m, limit, remaining). length remaining)")
    (auto simp: le_imp_less_Suc grow_cluster_remaining)

definition travel_time_cluster_strategy :: cluster_strategy where
  "travel_time_cluster_strategy =
     \<lparr>cluster_strategy_name = ''directed_nearest_neighbor'',
      make_clusters = (\<lambda>p m limit.
        if limit = 0 then Inl (InvalidConfiguration ''max_cluster_size must be positive'')
        else Inr (nearest_clusters m limit [1..<end_location_index p]))\<rparr>"

definition validate_cluster_member :: "usize \<Rightarrow> usize \<Rightarrow> bool list \<Rightarrow> solver_error + bool list" where
  "validate_cluster_member finish member seen =
     (if member = 0 \<or> member \<ge> finish \<or> seen ! member
      then Inl (InvalidConfiguration ''cluster strategy must include each intermediate location exactly once'')
      else Inr (seen[member := True]))"

definition validate_cluster :: "usize \<Rightarrow> usize \<Rightarrow> cluster \<Rightarrow> bool list \<Rightarrow> solver_error + bool list" where
  "validate_cluster limit finish c seen =
     (if members c = [] \<or> length (members c) > limit
      then Inl (InvalidConfiguration ''cluster strategy returned an invalid cluster size'')
      else fold_result (validate_cluster_member finish) (members c) seen)"

definition validate_clusters :: "cluster list \<Rightarrow> optimization_problem \<Rightarrow> usize \<Rightarrow> solver_error + unit" where
  "validate_clusters clusters p limit =
     (let finish = end_location_index p in
      bind_result (fold_result (validate_cluster limit finish) clusters (replicate (length (locations p)) False)) (\<lambda>seen.
        if list_ex (\<lambda>member. \<not> seen ! member) [1..<finish]
        then Inl (InvalidConfiguration ''cluster strategy omitted an intermediate location'')
        else Inr ()))"

section \<open>The order of the clusters\<close>

record cluster_order_strategy =
  order_strategy_name :: string
  order_clusters :: "cluster list \<Rightarrow> optimization_problem \<Rightarrow> travel_time_matrix \<Rightarrow> (solver_error + usize list) option"

text \<open>\<open>Iterator::min\<close>.\<close>

fun least_of :: "nat list \<Rightarrow> nat option" where
  "least_of [] = None"
| "least_of (x # xs) = Some (fold min xs x)"

definition bridge :: "travel_time_matrix \<Rightarrow> usize list \<Rightarrow> cluster \<Rightarrow> u32" where
  "bridge m previous c =
     (case least_of (concat (map (\<lambda>a. map (minutes_or_max m a) (members c)) previous)) of
        None \<Rightarrow> 2 ^ 32 - 1 | Some d \<Rightarrow> d)"

function bridge_steps ::
  "travel_time_matrix \<Rightarrow> cluster list \<Rightarrow> usize list \<Rightarrow> usize list \<Rightarrow> solver_error + usize list" where
  "bridge_steps m clusters previous remaining =
     (if remaining = [] then Inr []
      else case min_by_key (\<lambda>k. (bridge m previous (clusters ! k), k)) remaining of
          None \<Rightarrow> Inl (Failed ''cluster ordering failed'')
        | Some next \<Rightarrow>
            bind_result (bridge_steps m clusters (members (clusters ! next)) (remove1 next remaining)) (\<lambda>ordered.
              Inr (next # ordered)))"
  by pat_completeness auto
termination
  by (relation "measure (\<lambda>(m, clusters, previous, remaining). length remaining)")
    (auto simp: length_remove1 dest: min_by_key_Some(1) simp flip: length_greater_0_conv)

declare bridge_steps.simps [simp del]

definition greedy_cluster_order_strategy :: cluster_order_strategy where
  "greedy_cluster_order_strategy =
     \<lparr>order_strategy_name = ''greedy_bridge'',
      order_clusters = (\<lambda>clusters p m.
        Some (bridge_steps m clusters [start_location_index p] [0..<length clusters]))\<rparr>"

text \<open>The tree over the start (node 0) and the clusters.\<close>

definition node_members :: "cluster list \<Rightarrow> usize \<Rightarrow> usize list" where
  "node_members clusters node = (if node = 0 then [0] else members (clusters ! (node - 1)))"

definition cluster_distance :: "symmetric_distance_strategy \<Rightarrow> travel_time_matrix \<Rightarrow> cluster list \<Rightarrow> distance_fn" where
  "cluster_distance strategy m clusters left right =
     bind_result
       (fold_result (\<lambda>from. fold_result (\<lambda>to best.
            bind_result (symmetric_distance strategy m from to) (\<lambda>distance.
              Inr (Some (case best of None \<Rightarrow> distance | Some current \<Rightarrow> min current distance))))
          (node_members clusters right)) (node_members clusters left) None)
       (ok_or (Failed ''empty cluster cannot be ordered''))"

definition mst_cluster_order_strategy :: "symmetric_distance_strategy \<Rightarrow> cluster_order_strategy" where
  "mst_cluster_order_strategy strategy =
     \<lparr>order_strategy_name = ''mst_double_tree'',
      order_clusters = (\<lambda>clusters p m.
        if clusters = [] then Some (Inr [])
        else if matrix_size m \<noteq> length (locations p)
        then Some (Inl (MatrixSizeMismatch (matrix_size m) (length (locations p))))
        else let node_count = length clusters + 1 in
          case minimum_spanning_tree node_count (cluster_distance strategy m clusters) of
            Inl e \<Rightarrow> Some (Inl e)
          | Inr edges \<Rightarrow> map_option (\<lambda>toured.
              bind_result toured (\<lambda>euler.
              bind_result (shortcut_euler_tour node_count euler) (\<lambda>order.
                Inr (map (\<lambda>node. node - 1) (filter (\<lambda>node. node \<noteq> 0) order)))))
            (doubled_tree_euler_tour node_count edges 0))\<rparr>"

definition validate_order_index :: "usize \<Rightarrow> usize \<Rightarrow> bool list \<Rightarrow> solver_error + bool list" where
  "validate_order_index cluster_count index seen =
     (if index \<ge> cluster_count \<or> seen ! index
      then Inl (InvalidConfiguration ''cluster order must include each cluster exactly once'')
      else Inr (seen[index := True]))"

definition validate_cluster_order :: "usize list \<Rightarrow> usize \<Rightarrow> solver_error + unit" where
  "validate_cluster_order order cluster_count =
     (if length order \<noteq> cluster_count
      then Inl (InvalidConfiguration ''cluster order has the wrong length'')
      else bind_result (fold_result (validate_order_index cluster_count) order (replicate cluster_count False))
        (\<lambda>_. Inr ()))"

section \<open>One cluster\<close>

definition map_error :: "('e \<Rightarrow> 'f) \<Rightarrow> 'e + 'a \<Rightarrow> 'f + 'a" where
  "map_error f r = (case r of Inl e \<Rightarrow> Inl (f e) | Inr x \<Rightarrow> Inr x)"

definition all_day :: "solver_error + time_window" where
  "all_day =
     bind_result (map_error (\<lambda>e. Failed (time_parse_error_str e)) (from_minutes 0)) (\<lambda>op.
     bind_result (map_error (\<lambda>e. Failed (time_parse_error_str e)) (from_minutes 1439)) (\<lambda>cl.
       map_error (\<lambda>e. Failed (domain_error_str e)) (new_time_window op cl)))"

definition cluster_problem ::
  "solver_input \<Rightarrow> usize \<Rightarrow> u16 \<Rightarrow> cluster \<Rightarrow> solver_error + optimization_problem" where
  "cluster_problem i previous start_slot c =
     bind_result all_day (\<lambda>window.
       let anchor = (\<lambda>name. new_location name
             (routing_reference (locations (input_problem i) ! previous)) window 0)
       in bind_result (map_error (\<lambda>e. Failed (time_parse_error_str e))
            (from_minutes (start_slot * as_u16 time_slot_minutes))) (\<lambda>start.
         Inr (with_start_policy
           (anchor ''__troute_cluster_entry__'' # map (\<lambda>k. locations (input_problem i) ! k) (members c) @
             [anchor ''__troute_cluster_exit__'']) start Fixed)))"

definition cluster_matrix ::
  "travel_time_matrix \<Rightarrow> usize \<Rightarrow> cluster \<Rightarrow> usize list \<Rightarrow> solver_error + travel_time_matrix" where
  "cluster_matrix m previous c next_candidates =
     (let mapping = previous # members c; dummy = length (members c) + 1 in
      map_error (\<lambda>e. Failed (matrix_error_str e)) (new_sparse
        (map (\<lambda>from. map (\<lambda>to.
            if from = to then Some 0
            else if from < dummy \<and> to < dummy then travel_minutes m (mapping ! from) (mapping ! to)
            else if from < dummy then least_of (List.map_filter (travel_minutes m (mapping ! from)) next_candidates)
            else None) [0..<dummy + 1]) [0..<dummy + 1])))"

record solved_cluster =
  solved_order :: "usize list"
  solved_generated :: usize
  solved_frontier :: usize

definition solve_cluster ::
  "objective_policy \<Rightarrow> frontier_policy \<Rightarrow> solver_input \<Rightarrow> usize \<Rightarrow> u16 \<Rightarrow> cluster \<Rightarrow> usize list \<Rightarrow>
    solver_error + solved_cluster" where
  "solve_cluster obj dominates i previous start_slot c next_candidates =
     bind_result (cluster_problem i previous start_slot c) (\<lambda>subproblem.
     bind_result (cluster_matrix (input_matrix i) previous c next_candidates) (\<lambda>submatrix.
     bind_result (solve_detailed obj dominates
         \<lparr>input_matrix = submatrix, input_problem = subproblem, is_cancelled = is_cancelled i\<rparr>) (\<lambda>detailed.
       let order = visit_order (exact_solution detailed) in
       Inr \<lparr>solved_order = map (\<lambda>s. members c ! (s - 1)) (take (length order - 2) (drop 1 order)),
            solved_generated = generated_states (exact_stats detailed),
            solved_frontier = frontier_states (exact_stats detailed)\<rparr>)))"

section \<open>Improvement across the borders\<close>

record local_improvement_operations =
  allows_swap :: bool
  allows_relocate :: bool
  allows_two_opt :: bool

record local_improvement_result =
  improved_metrics :: solution_metrics
  accepted_local :: usize

text \<open>The method changes the route it is given: the changed route is part of the value.\<close>

record local_improvement_strategy =
  improvement_name :: string
  enabled_operations :: local_improvement_operations
  improve :: "usize list \<Rightarrow> usize list \<Rightarrow> solver_input \<Rightarrow> objective_policy \<Rightarrow>
    solver_error + usize list \<times> local_improvement_result"

definition try_boundary ::
  "objective_policy \<Rightarrow> solver_input \<Rightarrow> nat \<times> usize \<Rightarrow> usize list \<times> local_improvement_result \<Rightarrow>
    solver_error + usize list \<times> local_improvement_result" where
  "try_boundary obj i = (\<lambda>(site, boundary) (route, result).
     if is_cancelled i (PollLoop site) then Inl Cancelled
     else if boundary = 0 \<or> boundary + 1 \<ge> length route - 1 then Inr (route, result)
     else let swapped = swap_at boundary (boundary + 1) route in
       case evaluate_solution obj (inner_input (site + 1) i) \<lparr>visit_order = swapped\<rparr> of
         Inr candidate \<Rightarrow>
           if compare obj candidate (improved_metrics result) = Less
           then Inr (swapped, \<lparr>improved_metrics = candidate, accepted_local = accepted_local result + 1\<rparr>)
           else Inr (swap_at boundary (boundary + 1) swapped, result)
       | Inl NoFeasibleRoute \<Rightarrow> Inr (swap_at boundary (boundary + 1) swapped, result)
       | Inl e \<Rightarrow> Inl e)"

definition boundary_swap_improve ::
  "usize list \<Rightarrow> usize list \<Rightarrow> solver_input \<Rightarrow> objective_policy \<Rightarrow>
    solver_error + usize list \<times> local_improvement_result" where
  "boundary_swap_improve route boundaries i obj =
     bind_result (evaluate_solution obj (inner_input 0 i) \<lparr>visit_order = route\<rparr>) (\<lambda>metrics.
       fold_result (try_boundary obj i) (zip [0..<length boundaries] boundaries)
         (route, \<lparr>improved_metrics = metrics, accepted_local = 0\<rparr>))"

definition boundary_swap_local_improvement :: local_improvement_strategy where
  "boundary_swap_local_improvement =
     \<lparr>improvement_name = ''boundary_swap'',
      enabled_operations = \<lparr>allows_swap = True, allows_relocate = False, allows_two_opt = False\<rparr>,
      improve = boundary_swap_improve\<rparr>"

section \<open>The solver\<close>

record cluster_solve_stats =
  stat_cluster_index :: usize
  stat_members :: "usize list"
  stat_route :: "usize list"
  stat_entry :: "usize option"
  stat_exit :: "usize option"
  stat_generated :: usize
  stat_frontier :: usize

record clustered_solver_stats =
  cluster_count :: usize
  cluster_sizes :: "usize list"
  used_cluster_strategy :: string
  used_order_strategy :: string
  cluster_order :: "usize list"
  cluster_details :: "cluster_solve_stats list"
  exact_generated_states :: usize
  exact_frontier_states :: usize
  accepted_local_moves :: usize
  used_improvement :: string
  used_operations :: local_improvement_operations

record clustered_solve_result =
  clustered_solution :: solver_solution
  metrics_before_improvement :: solution_metrics
  clustered_metrics :: solution_metrics
  clustered_stats :: clustered_solver_stats

record clustered_solver =
  cs_config :: clustered_config
  cs_cluster_strategy :: cluster_strategy
  cs_order_strategy :: cluster_order_strategy
  cs_local_improvement :: local_improvement_strategy
  cs_objective :: objective_policy
  cs_dominates :: frontier_policy

definition with_config :: "clustered_config \<Rightarrow> clustered_solver" where
  "with_config config =
     \<lparr>cs_config = config, cs_cluster_strategy = travel_time_cluster_strategy,
      cs_order_strategy = greedy_cluster_order_strategy,
      cs_local_improvement = boundary_swap_local_improvement,
      cs_objective = default_objective, cs_dominates = time_cost_dominates\<rparr>"

definition default_clustered_solver :: clustered_solver where
  "default_clustered_solver = with_config default_clustered_config"

definition clustered_validate :: "clustered_solver \<Rightarrow> solver_input \<Rightarrow> solver_error + unit" where
  "clustered_validate s i =
     (let n = length (locations (input_problem i)) in
      if is_cancelled i PollGenerate then Inl Cancelled
      else if matrix_size (input_matrix i) \<noteq> n then Inl (MatrixSizeMismatch (matrix_size (input_matrix i)) n)
      else bind_result (clustered_config_new (max_cluster_size (cs_config s))) (\<lambda>_. Inr ()))"

text \<open>The variables of the loop over the clusters.\<close>

record traversal =
  tr_route :: "usize list"
  tr_boundaries :: "usize list"
  tr_location :: usize
  tr_slot :: u16
  tr_generated :: usize
  tr_frontier :: usize
  tr_details :: "cluster_solve_stats list"

definition visit_member :: "solver_input \<Rightarrow> usize \<Rightarrow> traversal \<Rightarrow> solver_error + traversal" where
  "visit_member i member st =
     bind_result (ok_or NoFeasibleRoute (transition_time i (tr_location st) member (tr_slot st))) (\<lambda>slot.
       Inr (st\<lparr>tr_slot := slot, tr_location := member, tr_route := tr_route st @ [member]\<rparr>))"

definition next_candidates :: "solver_input \<Rightarrow> cluster list \<Rightarrow> usize list \<Rightarrow> nat \<Rightarrow> usize list" where
  "next_candidates i clusters order position =
     (case get order (position + 1) of
        Some next \<Rightarrow> members (clusters ! next)
      | None \<Rightarrow> [end_location_index (input_problem i)])"

definition visit_cluster ::
  "clustered_solver \<Rightarrow> solver_input \<Rightarrow> cluster list \<Rightarrow> usize list \<Rightarrow> nat \<Rightarrow> traversal \<Rightarrow> solver_error + traversal" where
  "visit_cluster s i clusters order position st =
     (if is_cancelled i (PollLoop position) then Inl Cancelled
      else let index = order ! position; c = clusters ! index in
        bind_result (solve_cluster (cs_objective s) (cs_dominates s) (inner_input (position + 3) i)
            (tr_location st) (tr_slot st) c (next_candidates i clusters order position)) (\<lambda>solved.
        bind_result (fold_result (visit_member i) (solved_order solved)
            (st\<lparr>tr_generated := tr_generated st + solved_generated solved,
                tr_frontier := tr_frontier st + solved_frontier solved,
                tr_details := tr_details st @
                  [\<lparr>stat_cluster_index = index, stat_members = members c,
                    stat_route = solved_order solved,
                    stat_entry = get (solved_order solved) 0,
                    stat_exit = get (solved_order solved) (length (solved_order solved) - 1),
                    stat_generated = solved_generated solved, stat_frontier = solved_frontier solved\<rparr>]\<rparr>)) (\<lambda>visited.
          Inr (if position + 1 < length order
               then visited\<lparr>tr_boundaries := tr_boundaries visited @ [length (tr_route visited) - 1]\<rparr>
               else visited))))"

definition clustered_stats_of ::
  "clustered_solver \<Rightarrow> cluster list \<Rightarrow> usize list \<Rightarrow> traversal \<Rightarrow> usize \<Rightarrow> clustered_solver_stats" where
  "clustered_stats_of s clusters order st moves =
     \<lparr>cluster_count = length clusters, cluster_sizes = map (\<lambda>c. length (members c)) clusters,
      used_cluster_strategy = cluster_strategy_name (cs_cluster_strategy s),
      used_order_strategy = order_strategy_name (cs_order_strategy s),
      cluster_order = order, cluster_details = tr_details st,
      exact_generated_states = tr_generated st, exact_frontier_states = tr_frontier st,
      accepted_local_moves = moves,
      used_improvement = improvement_name (cs_local_improvement s),
      used_operations = enabled_operations (cs_local_improvement s)\<rparr>"

definition empty_traversal :: "u16 \<Rightarrow> traversal" where
  "empty_traversal slot =
     \<lparr>tr_route = [0], tr_boundaries = [], tr_location = 0, tr_slot = slot,
      tr_generated = 0, tr_frontier = 0, tr_details = []\<rparr>"

text \<open>From the order of the clusters to the result.\<close>

definition join_clusters ::
  "clustered_solver \<Rightarrow> solver_input \<Rightarrow> cluster list \<Rightarrow> usize list \<Rightarrow> solver_error + clustered_solve_result" where
  "join_clusters s i clusters order =
     (let p = input_problem i; obj = cs_objective s;
          requested = as_u16 (minutes_to_slot_ceil (minutes (start_time p))) in
      bind_result (ok_or NoFeasibleRoute (initial_service i requested)) (\<lambda>initial.
      bind_result (fold_result (visit_cluster s i clusters order) [0..<length order]
          (empty_traversal (departure_slot initial))) (\<lambda>st.
        let route = tr_route st @ [end_location_index p] in
        bind_result (evaluate_solution obj (inner_input 0 i) \<lparr>visit_order = route\<rparr>) (\<lambda>before.
        bind_result (improve (cs_local_improvement s) route (tr_boundaries st) (inner_input 1 i) obj) (\<lambda>(improved, result).
        bind_result (evaluate_solution obj (inner_input 2 i) \<lparr>visit_order = improved\<rparr>) (\<lambda>metrics.
          Inr \<lparr>clustered_solution = \<lparr>visit_order = improved\<rparr>,
               metrics_before_improvement = before, clustered_metrics = metrics,
               clustered_stats = clustered_stats_of s clusters order st (accepted_local result)\<rparr>))))))"

definition clustered_solve_detailed ::
  "clustered_solver \<Rightarrow> solver_input \<Rightarrow> (solver_error + clustered_solve_result) option" where
  "clustered_solve_detailed s i =
     (let p = input_problem i; m = input_matrix i in
      case clustered_validate s i of
        Inl e \<Rightarrow> Some (Inl e)
      | Inr _ \<Rightarrow>
          if length (locations p) = 1
          then Some (bind_result (evaluate_solution (cs_objective s) (inner_input 0 i) \<lparr>visit_order = [0]\<rparr>) (\<lambda>metrics.
            Inr \<lparr>clustered_solution = \<lparr>visit_order = [0]\<rparr>,
                 metrics_before_improvement = metrics, clustered_metrics = metrics,
                 clustered_stats = clustered_stats_of s [] [] (empty_traversal 0) 0\<rparr>))
          else let limit = min (max_cluster_size (cs_config s)) max_cluster_members_with_anchors in
            case bind_result (make_clusters (cs_cluster_strategy s) p m limit) (\<lambda>clusters.
                bind_result (validate_clusters clusters p limit) (\<lambda>_. Inr clusters)) of
              Inl e \<Rightarrow> Some (Inl e)
            | Inr clusters \<Rightarrow> map_option (\<lambda>ordered.
                bind_result ordered (\<lambda>order.
                bind_result (validate_cluster_order order (length clusters)) (\<lambda>_.
                  join_clusters s i clusters order)))
                (order_clusters (cs_order_strategy s) clusters p m))"

definition clustered_solve :: "clustered_solver \<Rightarrow> solver_input \<Rightarrow> (solver_error + solver_solution) option" where
  "clustered_solve s i =
     map_option (\<lambda>r. bind_result r (\<lambda>result. Inr (clustered_solution result))) (clustered_solve_detailed s i)"

definition clustered_selected_start_time ::
  "clustered_solver \<Rightarrow> solver_input \<Rightarrow> solver_solution \<Rightarrow> solver_error + time_of_day" where
  "clustered_selected_start_time s i sol =
     bind_result (evaluate_solution (cs_objective s) i sol) (selected_start_time (input_problem i))"

section \<open>The choice by size\<close>

datatype solver_kind = KindExact | KindClustered

definition threshold_new :: "usize \<Rightarrow> solver_error + usize" where
  "threshold_new exact_limit =
     (if exact_limit = 0 \<or> exact_limit > exact_max_locations
      then Inl (InvalidConfiguration (''exact_limit must be between 1 and '' @ nat_to_string exact_max_locations))
      else Inr exact_limit)"

definition threshold_select :: "usize \<Rightarrow> usize \<Rightarrow> solver_kind" where
  "threshold_select exact_limit location_count =
     (if location_count \<le> exact_limit then KindExact else KindClustered)"

definition automatic_solve ::
  "usize \<Rightarrow> clustered_solver \<Rightarrow> solver_input \<Rightarrow> (solver_error + solver_solution) option" where
  "automatic_solve exact_limit s i =
     (case threshold_select exact_limit (length (locations (input_problem i))) of
        KindExact \<Rightarrow> Some (bind_result (solve_detailed (cs_objective s) (cs_dominates s) i)
          (\<lambda>r. Inr (exact_solution r)))
      | KindClustered \<Rightarrow> clustered_solve s i)"

end
