(* ===== verification/Clustered_Facts.thy ===== *)
theory Clustered_Facts
  imports Clustered Mst_Walk
begin

text \<open>
  The contracts of the two strategies the clustered solver is built from, as locales with the
  strategies of the code as their instances: a clustering partitions the intermediate locations
  into small groups, an ordering lists every group once or finds no route.
\<close>

section \<open>The contracts\<close>

definition partitions :: "optimization_problem \<Rightarrow> usize \<Rightarrow> cluster list \<Rightarrow> bool" where
  "partitions p limit cs \<longleftrightarrow>
     (\<forall>c\<in>set cs. members c \<noteq> [] \<and> length (members c) \<le> limit) \<and>
     distinct (concat (map members cs)) \<and> set (concat (map members cs)) = {1..<end_location_index p}"

locale clustering =
  fixes make :: "optimization_problem \<Rightarrow> travel_time_matrix \<Rightarrow> usize \<Rightarrow> solver_error + cluster list"
  assumes splits: "0 < limit \<Longrightarrow> \<exists>cs. make p m limit = Inr cs \<and> partitions p limit cs"

locale cluster_ordering =
  fixes arrange :: "cluster list \<Rightarrow> optimization_problem \<Rightarrow> travel_time_matrix \<Rightarrow> (solver_error + usize list) option"
  assumes arranges: "wf_problem p \<Longrightarrow> wf_matrix m \<Longrightarrow> u32_cells m \<Longrightarrow> matrix_size m = length (locations p) \<Longrightarrow>
    partitions p limit cs \<Longrightarrow>
    arrange cs p m = Some (Inl NoFeasibleRoute) \<or>
    (\<exists>ks. arrange cs p m = Some (Inr ks) \<and> distinct ks \<and> set ks = {..<length cs})"

section \<open>Clusters of nearest neighbors\<close>

lemma grow_cluster_ok:
  assumes "distinct (found @ remaining)" and "length found \<le> limit" and "found \<noteq> []"
  shows "distinct (fst (grow_cluster m limit found current remaining) @ snd (grow_cluster m limit found current remaining)) \<and>
    set (fst (grow_cluster m limit found current remaining) @ snd (grow_cluster m limit found current remaining)) =
      set (found @ remaining) \<and>
    length (fst (grow_cluster m limit found current remaining)) \<le> limit \<and>
    fst (grow_cluster m limit found current remaining) \<noteq> []"
  using assms
proof (induction m limit found current remaining rule: grow_cluster.induct)
  case (1 m limit found current remaining)
  show ?case
  proof (cases "length found < limit \<and> remaining \<noteq> []")
    case True
    then obtain k where k: "min_by_key (\<lambda>candidate. (minutes_or_max m current candidate, candidate)) remaining = Some k"
      by (cases "min_by_key (\<lambda>candidate. (minutes_or_max m current candidate, candidate)) remaining") auto
    have "k \<in> set remaining" by (rule min_by_key_Some(1) [OF k])
    then have rest: "distinct ((found @ [k]) @ remove1 k remaining)"
      "set ((found @ [k]) @ remove1 k remaining) = set (found @ remaining)" "length (found @ [k]) \<le> limit"
      using 1(2) True by auto
    have "grow_cluster m limit found current remaining = grow_cluster m limit (found @ [k]) k (remove1 k remaining)"
      using True k by (subst grow_cluster.simps) simp
    then show ?thesis using 1(1) [OF True k rest(1,3)] rest(2) by simp
  next
    case False
    then have "grow_cluster m limit found current remaining = (found, remaining)"
      by (subst grow_cluster.simps) auto
    then show ?thesis using 1 by simp
  qed
qed

lemma nearest_clusters_ok:
  assumes "distinct remaining" and "0 < limit"
  shows "(\<forall>c\<in>set (nearest_clusters m limit remaining). members c \<noteq> [] \<and> length (members c) \<le> limit) \<and>
    distinct (concat (map members (nearest_clusters m limit remaining))) \<and>
    set (concat (map members (nearest_clusters m limit remaining))) = set remaining"
  using assms
proof (induction m limit remaining rule: nearest_clusters.induct)
  case (2 m limit seed remaining)
  let ?g = "grow_cluster m limit [seed] seed remaining"
  have g: "distinct (fst ?g @ snd ?g)" "set (fst ?g @ snd ?g) = set (seed # remaining)"
    "length (fst ?g) \<le> limit" "fst ?g \<noteq> []"
    using grow_cluster_ok [of "[seed]" remaining limit m seed] "2.prems" by auto
  then have "distinct (snd ?g)" by simp
  note ih = "2.IH" [OF this "2.prems"(2)]
  show ?case using ih g by auto
qed simp

interpretation travel_time: clustering "make_clusters travel_time_cluster_strategy"
proof
  fix limit :: usize and p m
  assume "0 < limit"
  then show "\<exists>cs. make_clusters travel_time_cluster_strategy p m limit = Inr cs \<and> partitions p limit cs"
    using nearest_clusters_ok [of "[1..<end_location_index p]" limit m]
    by (auto simp: travel_time_cluster_strategy_def partitions_def)
qed

text \<open>The checks of the solver accept a partition and an order of it.\<close>

lemma validate_members_ok:
  assumes "distinct ms" and "\<forall>k\<in>set ms. 1 \<le> k \<and> k < finish \<and> \<not> seen ! k" and "finish \<le> length seen"
  obtains seen' where "fold_result (validate_cluster_member finish) ms seen = Inr seen'"
    "length seen' = length seen" "\<And>k. k < length seen \<Longrightarrow> seen' ! k \<longleftrightarrow> seen ! k \<or> k \<in> set ms"
proof -
  have "\<exists>seen'. fold_result (validate_cluster_member finish) ms seen = Inr seen' \<and>
    length seen' = length seen \<and> (\<forall>k<length seen. seen' ! k \<longleftrightarrow> seen ! k \<or> k \<in> set ms)"
    using assms
  proof (induction ms arbitrary: seen)
    case (Cons a ms)
    have "validate_cluster_member finish a seen = Inr (seen[a := True])"
      using Cons.prems by (auto simp: validate_cluster_member_def)
    moreover have "\<forall>k\<in>set ms. 1 \<le> k \<and> k < finish \<and> \<not> seen[a := True] ! k"
      using Cons.prems by (auto simp: nth_list_update)
    ultimately show ?case
      using Cons.IH [of "seen[a := True]"] Cons.prems by (fastforce simp: nth_list_update)
  qed simp
  then show thesis using that by blast
qed

lemma validate_each_ok:
  assumes "\<forall>c\<in>set cs. members c \<noteq> [] \<and> length (members c) \<le> limit"
    and "distinct (concat (map members cs))"
    and "\<forall>k\<in>set (concat (map members cs)). 1 \<le> k \<and> k < finish \<and> \<not> seen ! k" and "finish \<le> length seen"
  shows "\<exists>seen'. fold_result (validate_cluster limit finish) cs seen = Inr seen' \<and>
    length seen' = length seen \<and> (\<forall>k<length seen. seen' ! k \<longleftrightarrow> seen ! k \<or> k \<in> set (concat (map members cs)))"
  using assms
proof (induction cs arbitrary: seen)
  case (Cons c cs)
  obtain seen1 where s1: "fold_result (validate_cluster_member finish) (members c) seen = Inr seen1"
    "length seen1 = length seen" "\<And>k. k < length seen \<Longrightarrow> seen1 ! k \<longleftrightarrow> seen ! k \<or> k \<in> set (members c)"
    by (rule validate_members_ok [of "members c" finish seen]) (use Cons.prems in auto)
  have "validate_cluster limit finish c seen = Inr seen1"
    using Cons.prems(1) s1(1) by (simp add: validate_cluster_def)
  moreover have "\<forall>k\<in>set (concat (map members cs)). 1 \<le> k \<and> k < finish \<and> \<not> seen1 ! k"
  proof
    fix k assume k: "k \<in> set (concat (map members cs))"
    then have "k \<in> set (concat (map members (c # cs)))" "k \<notin> set (members c)" using Cons.prems(2) by auto
    moreover from this(1) have "1 \<le> k \<and> k < finish \<and> \<not> seen ! k" by (rule bspec [OF Cons.prems(3)])
    ultimately show "1 \<le> k \<and> k < finish \<and> \<not> seen1 ! k" using s1(3) [of k] Cons.prems(4) by simp
  qed
  ultimately show ?case
    using Cons.IH [of seen1] Cons.prems s1(2,3) by (fastforce simp: s1(2))
qed simp

lemma validate_clusters_ok:
  assumes "partitions p limit cs"
  shows "validate_clusters cs p limit = Inr ()"
proof -
  let ?n = "length (locations p)" and ?f = "end_location_index p"
  have f: "?f \<le> ?n" by (simp add: end_location_index_def)
  have parts: "\<forall>c\<in>set cs. members c \<noteq> [] \<and> length (members c) \<le> limit"
    "distinct (concat (map members cs))" "set (concat (map members cs)) = {1..<?f}"
    using assms by (auto simp: partitions_def)
  have "\<forall>k\<in>set (concat (map members cs)). 1 \<le> k \<and> k < ?f \<and> \<not> replicate ?n False ! k"
    unfolding parts(3) using f by auto
  from validate_each_ok [OF parts(1,2) this] f
  obtain seen where "fold_result (validate_cluster limit ?f) cs (replicate ?n False) = Inr seen"
    "\<forall>k<?n. seen ! k \<longleftrightarrow> k \<in> set (concat (map members cs))"
    by auto
  then show ?thesis using parts(3) f by (auto simp: validate_clusters_def Let_def list_ex_iff)
qed

lemma validate_cluster_order_ok:
  assumes "distinct ks" and "set ks = {..<n}"
  shows "validate_cluster_order ks n = Inr ()"
proof -
  have "\<exists>seen'. fold_result (validate_order_index n) ks seen = Inr seen'"
    if "distinct ks" "\<forall>k\<in>set ks. k < n \<and> \<not> seen ! k" "length seen = n" for ks seen
    using that
  proof (induction ks arbitrary: seen)
    case (Cons a ks)
    then have "validate_order_index n a seen = Inr (seen[a := True])" by (simp add: validate_order_index_def)
    moreover have "\<forall>k\<in>set ks. k < n \<and> \<not> seen[a := True] ! k" using Cons.prems by (auto simp: nth_list_update)
    ultimately show ?case using Cons.IH [of "seen[a := True]"] Cons.prems by simp
  qed simp
  from this [OF assms(1), of "replicate n False"]
  obtain seen' where "fold_result (validate_order_index n) ks (replicate n False) = Inr seen'"
    using assms(2) by auto
  moreover have "length ks = n" using assms distinct_card [of ks] by simp
  ultimately show ?thesis by (simp add: validate_cluster_order_def)
qed

section \<open>Orders of clusters\<close>

lemma bridge_steps_total:
  "distinct remaining \<Longrightarrow>
    \<exists>ks. bridge_steps m clusters previous remaining = Inr ks \<and> distinct ks \<and> set ks = set remaining"
proof (induction "length remaining" arbitrary: previous remaining rule: less_induct)
  case less
  show ?case
  proof (cases "remaining = []")
    case True
    then show ?thesis by (simp add: bridge_steps.simps)
  next
    case False
    then obtain k where k: "min_by_key (\<lambda>k. (bridge m previous (clusters ! k), k)) remaining = Some k"
      by (cases "min_by_key (\<lambda>k. (bridge m previous (clusters ! k), k)) remaining") auto
    note chosen = min_by_key_Some(1) [OF k]
    then have "length (remove1 k remaining) < length remaining"
      using False by (simp add: length_remove1)
    from less.hyps [OF this, of "members (clusters ! k)"] less.prems obtain ks
      where "bridge_steps m clusters (members (clusters ! k)) (remove1 k remaining) = Inr ks" "distinct ks"
        "set ks = set remaining - {k}"
      by auto
    then show ?thesis using False k chosen by (subst bridge_steps.simps) auto
  qed
qed

interpretation greedy_bridge: cluster_ordering "order_clusters greedy_cluster_order_strategy"
proof
  fix p m limit and cs :: "cluster list"
  show "order_clusters greedy_cluster_order_strategy cs p m = Some (Inl NoFeasibleRoute) \<or>
    (\<exists>ks. order_clusters greedy_cluster_order_strategy cs p m = Some (Inr ks) \<and> distinct ks \<and> set ks = {..<length cs})"
    using bridge_steps_total [of "[0..<length cs]" m cs "[start_location_index p]"]
    by (auto simp: greedy_cluster_order_strategy_def)
qed

text \<open>The weight between two clusters is the least over their members, in any order.\<close>

lemma fold_result_product:
  "fold_result (\<lambda>a. fold_result (f a) ys) xs s = fold_result (\<lambda>(a, b). f a b) (List.product xs ys) s"
proof (induction xs arbitrary: s)
  case (Cons a xs)
  have "fold_result (\<lambda>(a, b). f a b) (map (Pair a) ys) s = fold_result (f a) ys s" for s
    by (induction ys arbitrary: s) (auto simp: bind_result_def split: sum.splits)
  moreover have "fold_result (\<lambda>a. fold_result (f a) ys) xs = fold_result (\<lambda>(a, b). f a b) (List.product xs ys)"
    by (rule ext) (rule Cons.IH)
  ultimately show ?case by (simp add: fold_result_append)
qed simp

definition least_value :: "nat set \<Rightarrow> nat option" where
  "least_value S = (if S = {} then None else Some (Min S))"

lemma fold_least_value:
  assumes "\<forall>x\<in>set xs. \<not> is_ok (D x) \<longrightarrow> D x = Inl NoFeasibleRoute"
  shows "fold_result (\<lambda>x best. bind_result (D x) (\<lambda>d. Inr (Some (case best of None \<Rightarrow> d | Some c \<Rightarrow> min c d)))) xs best =
    (if \<forall>x\<in>set xs. is_ok (D x) then Inr (least_value (set_option best \<union> projr ` D ` set xs))
     else Inl NoFeasibleRoute)"
  using assms
proof (induction xs arbitrary: best)
  case Nil
  then show ?case by (cases best) (simp_all add: least_value_def)
next
  case (Cons x xs)
  show ?case
  proof (cases "D x")
    case (Inl e)
    then show ?thesis using Cons.prems by auto
  next
    case (Inr d)
    have "least_value (set_option (Some (case best of None \<Rightarrow> d | Some c \<Rightarrow> min c d)) \<union> projr ` D ` set xs) =
        least_value (set_option best \<union> projr ` D ` set (x # xs))"
      using Inr by (cases best; cases "projr ` D ` set xs = {}")
        (simp_all add: least_value_def min.assoc)
    then show ?thesis using Cons Inr by simp
  qed
qed

lemma cluster_distance_cases:
  fixes l r :: usize and cs :: "cluster list" and m :: travel_time_matrix
  assumes "built_in_distance s"
  defines "D \<equiv> (\<lambda>(a, b). symmetric_distance s m a b)"
    and "X \<equiv> set (node_members cs l) \<times> set (node_members cs r)"
  shows "cluster_distance s m cs l r =
    (if \<forall>x\<in>X. is_ok (D x) then ok_or (Failed ''empty cluster cannot be ordered'') (least_value (projr ` D ` X))
     else Inl NoFeasibleRoute)"
proof -
  let ?xs = "List.product (node_members cs l) (node_members cs r)"
  have err: "\<forall>x\<in>set ?xs. \<not> is_ok (D x) \<longrightarrow> D x = Inl NoFeasibleRoute"
  proof
    fix x assume "x \<in> set ?xs"
    show "\<not> is_ok (D x) \<longrightarrow> D x = Inl NoFeasibleRoute"
      using built_in_result [OF assms(1), of m "fst x" "snd x"] by (auto simp: D_def case_prod_beta split: if_splits)
  qed
  have "cluster_distance s m cs l r = bind_result
      (fold_result (\<lambda>x best. bind_result (D x) (\<lambda>d. Inr (Some (case best of None \<Rightarrow> d | Some c \<Rightarrow> min c d)))) ?xs None)
      (ok_or (Failed ''empty cluster cannot be ordered''))"
    unfolding cluster_distance_def fold_result_product D_def by (simp add: case_prod_unfold)
  also have "\<dots> = (if \<forall>x\<in>X. is_ok (D x) then ok_or (Failed ''empty cluster cannot be ordered'') (least_value (projr ` D ` X))
     else Inl NoFeasibleRoute)"
    unfolding fold_least_value [OF err] by (simp add: X_def)
  finally show ?thesis .
qed

lemma cluster_weights:
  assumes s: "built_in_distance s" and m: "u32_cells m"
    and cs: "\<forall>c\<in>set cs. members c \<noteq> []"
  defines "n \<equiv> length cs + 1"
  shows "edge_weights n (cluster_distance s m cs)"
    and "u < n \<Longrightarrow> v < n \<Longrightarrow> \<not> is_ok (cluster_distance s m cs u v) \<Longrightarrow>
      cluster_distance s m cs u v = Inl NoFeasibleRoute"
proof -
  note w = built_in_weights [OF s m]
  define D where "D = (\<lambda>(a, b). symmetric_distance s m a b)"
  have D: "D (a, b) = D (b, a)" "D (a, b) = Inr d \<Longrightarrow> d < u64_max" for a b d
  proof -
    have "a < Suc (max a b)" "b < Suc (max a b)" by auto
    with w [of "Suc (max a b)"] show "D (a, b) = D (b, a)" "D (a, b) = Inr d \<Longrightarrow> d < u64_max"
      unfolding edge_weights_def D_def by simp_all
  qed
  have ne: "node_members cs u \<noteq> []" if "u < n" for u
    using cs that by (auto simp: node_members_def n_def)
  note c = cluster_distance_cases [OF s, of m cs, folded D_def]
  have sym: "cluster_distance s m cs u v = cluster_distance s m cs v u" for u v
  proof -
    have "D ` (set (node_members cs u) \<times> set (node_members cs v)) = D ` (set (node_members cs v) \<times> set (node_members cs u))"
      by (auto simp: image_iff) (metis D(1))+
    moreover have "(\<forall>x\<in>set (node_members cs u) \<times> set (node_members cs v). is_ok (D x)) \<longleftrightarrow>
        (\<forall>x\<in>set (node_members cs v) \<times> set (node_members cs u). is_ok (D x))"
      by (metis D(1) SigmaE SigmaI)
    ultimately show ?thesis unfolding c by simp
  qed
  have attained: "\<exists>x\<in>set (node_members cs u) \<times> set (node_members cs v). D x = Inr d"
    if "u < n" "v < n" "cluster_distance s m cs u v = Inr d" for u v d
  proof -
    let ?X = "set (node_members cs u) \<times> set (node_members cs v)"
    have ok: "\<forall>x\<in>?X. is_ok (D x)" using that(3) unfolding c by (auto split: if_splits)
    have full: "projr ` D ` ?X \<noteq> {}" "finite (projr ` D ` ?X)" using ne that(1,2) by auto
    have "d = Min (projr ` D ` ?X)"
      using that(3) ok full(1) unfolding c by (simp add: least_value_def del: image_is_empty)
    then have "d \<in> projr ` D ` ?X" using Min_in [OF full(2,1)] by simp
    then obtain x where x: "x \<in> ?X" "d = projr (D x)" by blast
    moreover have "is_ok (D x)" using ok x(1) by blast
    ultimately show ?thesis by (intro bexI [of _ x]) (auto simp: is_ok_iff)
  qed
  show "edge_weights n (cluster_distance s m cs)"
    unfolding edge_weights_def using sym attained D(2) by fastforce
  show "cluster_distance s m cs u v = Inl NoFeasibleRoute"
    if "u < n" "v < n" "\<not> is_ok (cluster_distance s m cs u v)"
  proof -
    have "least_value (projr ` D ` (set (node_members cs u) \<times> set (node_members cs v))) \<noteq> None"
      using ne that(1,2) by (simp add: least_value_def)
    then show ?thesis using that(3) unfolding c by (auto split: if_splits)
  qed
qed

lemma mst_cluster_order_arranges:
  assumes s: "built_in_distance s" and m: "u32_cells m" "matrix_size m = length (locations p)"
    and parts: "partitions p limit cs"
  shows "order_clusters (mst_cluster_order_strategy s) cs p m = Some (Inl NoFeasibleRoute) \<or>
    (\<exists>ks. order_clusters (mst_cluster_order_strategy s) cs p m = Some (Inr ks) \<and> distinct ks \<and> set ks = {..<length cs})"
proof (cases "cs = []")
  case True
  then show ?thesis by (simp add: mst_cluster_order_strategy_def)
next
  case False
  let ?n = "length cs + 1" and ?d = "cluster_distance s m cs"
  have ne: "\<forall>c\<in>set cs. members c \<noteq> []" using parts by (simp add: partitions_def)
  note w = cluster_weights [OF s m(1) ne]
  have tree: "ok_in (distance_error ?n ?d) (\<lambda>es. least_tree ?n ?d es \<and> (\<forall>u<?n. \<forall>v<?n. u \<noteq> v \<longrightarrow> is_ok (?d u v)))
      (minimum_spanning_tree ?n ?d)"
    by (rule minimum_spanning_tree_ok [OF w(1)]) simp
  show ?thesis
  proof (cases "minimum_spanning_tree ?n ?d")
    case (Inl e)
    then obtain u v where uv: "u < ?n" "v < ?n" "?d u v = Inl e" using tree by (auto simp: distance_error_def)
    then have "e = NoFeasibleRoute" using w(2) [OF uv(1,2)] by simp
    then show ?thesis using False m(2) Inl by (simp add: mst_cluster_order_strategy_def Let_def)
  next
    case (Inr es)
    then have es: "least_tree ?n ?d es" using tree by simp
    obtain tour where tour: "doubled_tree_euler_tour ?n es 0 = Some (Inr tour)" "closed_walk ?n (ends es) 0 tour"
      by (rule doubled_tree_euler_tour_ok [of es ?n 0]) (use es in \<open>auto simp: least_tree_def\<close>)
    obtain order where order: "shortcut_euler_tour ?n tour = Inr order" "distinct order" "set order = {..<?n}"
      by (rule shortcut_euler_tour_ok [of tour ?n]) (use tour(2) in \<open>auto simp: closed_walk_def\<close>)
    let ?ks = "map (\<lambda>node. node - 1) (filter (\<lambda>node. node \<noteq> 0) order)"
    have "distinct ?ks" using order(2) by (auto simp: distinct_map inj_on_def)
    moreover have "set ?ks = {..<length cs}"
    proof -
      have "set ?ks = (\<lambda>node. node - 1) ` {1..<?n}" using order(3) by auto
      also have "\<dots> = {..<length cs}"
      proof (rule set_eqI)
        fix k show "k \<in> (\<lambda>node. node - 1) ` {1..<?n} \<longleftrightarrow> k \<in> {..<length cs}"
          by (auto simp: image_iff intro!: bexI [of _ "Suc k"])
      qed
      finally show ?thesis .
    qed
    moreover have "order_clusters (mst_cluster_order_strategy s) cs p m = Some (Inr ?ks)"
      using False m(2) Inr tour(1) order(1) by (simp add: mst_cluster_order_strategy_def Let_def)
    ultimately show ?thesis by blast
  qed
qed

interpretation mst_bridge: cluster_ordering "order_clusters (mst_cluster_order_strategy average_symmetric_distance)"
  by unfold_locales (rule mst_cluster_order_arranges, auto simp: built_in_distance_def)

end
