(* ===== verification/Clustered_Route.thy ===== *)
theory Clustered_Route
  imports Clustered_Facts "HOL-Library.Multiset"
begin

text \<open>
  The clustered solver as a whole: the problem handed to the exact solver for one cluster is
  well formed and its answer orders the members of the cluster; the joined route visits every
  location once; the improvement never makes it worse; the only failure of a valid call is that
  no route is found.
\<close>

section \<open>The evaluator on valid routes\<close>

lemma evaluate_valid:
  assumes "wf_input i" and "never_cancelled i" and "matrix_size (input_matrix i) = length (locations (input_problem i))"
    and "valid_order (input_problem i) (visit_order sol)"
  shows "ok_in (\<lambda>e. e = NoFeasibleRoute) (\<lambda>_. True) (evaluate_solution obj i sol)"
  unfolding evaluate_solution_cases [OF assms(1,2)]
  by (simp add: assms(3,4) Let_def ok_or_def split: option.splits)

section \<open>One cluster\<close>

lemma least_of_Some:
  assumes "least_of xs = Some v"
  shows "v \<in> set xs" "x \<in> set xs \<Longrightarrow> v \<le> x"
proof -
  obtain y ys where xs: "xs = y # ys" "v = fold min ys y" using assms by (cases xs) auto
  then have v: "v = Min (set xs)" by (simp only: xs Min.set_eq_fold)
  show "v \<in> set xs" unfolding v by (rule Min_in) (use xs(1) in auto)
  show "x \<in> set xs \<Longrightarrow> v \<le> x" unfolding v by (rule Min_le) auto
qed

lemma all_day_ok: "all_day = Inr \<lparr>window_open = TimeOfDay 0, window_close = TimeOfDay 1439\<rparr>"
  by (simp add: all_day_def from_minutes_def map_error_def new_time_window_def less_time_of_day_def)

lemma cluster_problem_ok:
  assumes wf: "wf_problem (input_problem i)"
    and ms: "\<forall>k\<in>set (members c). k < length (locations (input_problem i))" and "start_slot < 1440"
  obtains p where "cluster_problem i previous start_slot c = Inr p" "wf_problem p"
    "length (locations p) = length (members c) + 2" "required (locations p ! 0)" "visit_policy p = AllRequired"
proof -
  define anchor where "anchor = (\<lambda>name. new_location name
    (routing_reference (locations (input_problem i) ! previous)) \<lparr>window_open = TimeOfDay 0, window_close = TimeOfDay 1439\<rparr> 0)"
  define ls where "ls = anchor ''__troute_cluster_entry__'' #
    map (\<lambda>k. locations (input_problem i) ! k) (members c) @ [anchor ''__troute_cluster_exit__'']"
  let ?p = "with_start_policy ls (TimeOfDay start_slot) Fixed"
  have anchors: "wf_location (anchor name)" for name
    by (simp add: anchor_def new_location_def wf_location_def wf_window_def wf_time_def less_eq_time_of_day_def)
  have "\<forall>l\<in>set ls. wf_location l"
    using anchors ms wf_problem_nth [OF wf] by (auto simp: ls_def)
  then have wfp: "wf_problem ?p"
    using assms(3) by (simp add: wf_problem_def with_start_policy_def with_policies_def wf_time_def ls_def)
  have "cluster_problem i previous start_slot c = Inr ?p"
    using assms(3)
    by (simp add: cluster_problem_def all_day_ok map_error_def from_minutes_def as_u16_def ls_def anchor_def Let_def)
  then show thesis using wfp
    by (rule that)
      (simp_all add: with_start_policy_def with_policies_def ls_def anchor_def new_location_def)
qed

lemma cluster_matrix_ok:
  assumes "u32_cells m"
  obtains sub where "cluster_matrix m previous c next = Inr sub" "wf_matrix sub" "u32_cells sub"
    "matrix_size sub = length (members c) + 2"
proof -
  define cell where "cell = (\<lambda>a b. let mapping = previous # members c; dummy = length (members c) + 1 in
    if a = b then Some 0
    else if a < dummy \<and> b < dummy then travel_minutes m (mapping ! a) (mapping ! b)
    else if a < dummy then least_of (List.map_filter (travel_minutes m (mapping ! a)) next)
    else None)"
  define rs where "rs = map (\<lambda>a. map (cell a) [0..<length (members c) + 2]) [0..<length (members c) + 2]"
  have small: "v < 2 ^ 32" if "cell a b = Some v" for a b v
    using that travel_minutes_bound [OF assms] least_of_Some(1)
    by (fastforce simp: cell_def Let_def List.map_filter_def split: if_splits)
  have diag: "cell k k = Some 0" for k by (simp add: cell_def)
  have len: "length rs = length (members c) + 2" "\<forall>r\<in>set rs. length r = length rs"
    by (auto simp: rs_def)
  have "new_sparse rs = Inr \<lparr>rows = rs\<rparr>"
    using len diag by (subst new_sparse_Inr) (auto simp: rs_def wf_matrix_def matrix_size_def simp del: upt_Suc)
  then have "cluster_matrix m previous c next = Inr \<lparr>rows = rs\<rparr>"
    by (simp add: cluster_matrix_def rs_def cell_def map_error_def Let_def del: upt_Suc)
  moreover have "wf_matrix \<lparr>rows = rs\<rparr>"
    using len diag by (auto simp: wf_matrix_def matrix_size_def rs_def simp del: upt_Suc)
  moreover have "u32_cells \<lparr>rows = rs\<rparr>"
    using small by (auto simp: u32_cells_def rs_def simp del: upt_Suc split: option.split)
  ultimately show thesis by (rule that) (simp add: matrix_size_def len)
qed

lemma framed_order:
  fixes order :: "nat list"
  assumes "distinct order" and "set order = {..<k + 2}" and "hd order = 0" and "List.last order = k + 1"
  obtains mid where "order = 0 # mid @ [k + 1]" "distinct mid" "set mid = {1..k}"
proof -
  have "order \<noteq> []" by (rule set_upto_nonempty [OF assms(2)]) simp
  then obtain xs where xs: "order = 0 # xs" using assms(3) by (cases order) auto
  have "xs \<noteq> []" using assms(4) xs by auto
  then obtain mid where mid: "xs = mid @ [k + 1]" using assms(4) xs by (cases xs rule: rev_cases) auto
  have order: "order = 0 # mid @ [k + 1]" by (simp only: xs mid)
  have d: "distinct (0 # mid @ [k + 1])" using assms(1) unfolding order .
  have "set mid = set (0 # mid @ [k + 1]) - {0, k + 1}" using d by auto
  also have "\<dots> = {..<k + 2} - {0, k + 1}" using assms(2) unfolding order by (simp only:)
  also have "\<dots> = {1..k}" by auto
  finally show thesis using that [OF order] d by simp
qed

lemma image_pred: "(\<lambda>s::nat. s - 1) ` {1..k} = {..<k}"
proof -
  have "{1..k} = Suc ` {..<k}" by (simp add: image_Suc_lessThan)
  then show ?thesis by (simp add: image_image)
qed

lemma solve_cluster_ok:
  assumes wf: "wf_input i" "never_cancelled i"
    and ms: "distinct (members c)" "\<forall>k\<in>set (members c). k < length (locations (input_problem i))"
      "length (members c) \<le> max_cluster_members_with_anchors"
    and "start_slot < 1440"
  shows "ok_in (\<lambda>e. e = NoFeasibleRoute) (\<lambda>r. mset (solved_order r) = mset (members c))
    (solve_cluster default_objective time_cost_dominates i previous start_slot c next)"
proof -
  let ?k = "length (members c)"
  obtain p where p: "cluster_problem i previous start_slot c = Inr p" "wf_problem p"
    "length (locations p) = ?k + 2" "required (locations p ! 0)" "visit_policy p = AllRequired"
    by (rule cluster_problem_ok [OF _ ms(2) assms(6)]) (use wf(1) in \<open>simp add: wf_input_def\<close>)
  obtain sub where sub: "cluster_matrix (input_matrix i) previous c next = Inr sub" "wf_matrix sub" "u32_cells sub"
    "matrix_size sub = ?k + 2"
    by (rule cluster_matrix_ok [of "input_matrix i" previous c "next"]) (use wf(1) in \<open>auto simp: wf_input_def\<close>)
  let ?i = "\<lparr>input_matrix = sub, input_problem = p, is_cancelled = is_cancelled i\<rparr>"
  have ex: "exact_input ?i"
    using p sub wf(2) ms(3)
    by (simp add: exact_input_def wf_input_def never_cancelled_def exact_max_locations_def
        max_cluster_members_with_anchors_def)
  have unfold_solve: "solve_cluster default_objective time_cost_dominates i previous start_slot c next =
    bind_result (solve_detailed default_objective time_cost_dominates ?i) (\<lambda>detailed.
       let order = visit_order (exact_solution detailed) in
       Inr \<lparr>solved_order = map (\<lambda>s. members c ! (s - 1)) (take (length order - 2) (drop 1 order)),
            solved_generated = generated_states (exact_stats detailed),
            solved_frontier = frontier_states (exact_stats detailed)\<rparr>)"
    by (simp only: solve_cluster_def p(1) sub(1) bind_result_simps)
  from solve_detailed_settled [OF ex] show ?thesis
  proof (elim disjE exE conjE)
    fix s res
    assume res: "solve_detailed default_objective time_cost_dominates ?i = Inr res" "settled ?i s res"
    have "best_from ?i s (Some res)" using res(2) unfolding settled_def Let_def by blast
    then have v: "valid_order p (visit_order (exact_solution res))"
      by (rule best_from_Some) simp
    obtain mid where mid: "visit_order (exact_solution res) = 0 # mid @ [?k + 1]" "distinct mid" "set mid = {1..?k}"
      by (rule framed_order [of "visit_order (exact_solution res)" ?k])
        (use v p(3,5) in \<open>auto simp: valid_order_def Let_def\<close>)
    have inj: "inj_on (\<lambda>s. s - 1) (set mid)" using mid(3) by (auto simp: inj_on_def)
    have "set (map (\<lambda>s. s - 1) mid) = {..<?k}" by (simp only: set_map mid(3) image_pred)
    then have perm: "mset (map (\<lambda>s. s - 1) mid) = mset [0..<?k]"
      using mid(2) inj by (intro set_eq_iff_mset_eq_distinct [THEN iffD1]) (auto simp: distinct_map lessThan_atLeast0)
    have "mset (map (\<lambda>s. members c ! (s - 1)) mid) = image_mset ((!) (members c)) (mset (map (\<lambda>s. s - 1) mid))"
      by (simp add: multiset.map_comp comp_def)
    also have "\<dots> = mset (map ((!) (members c)) [0..<?k])" unfolding perm by (simp only: mset_map)
    also have "\<dots> = mset (members c)" by (simp only: map_nth)
    finally have "mset (map (\<lambda>s. members c ! (s - 1)) mid) = mset (members c)" .
    then show ?thesis unfolding unfold_solve res(1) by (simp add: mid(1))
  qed (simp add: unfold_solve)
qed

section \<open>The joined route\<close>

lemma transition_time_less: "transition_time i a b t = Some t' \<Longrightarrow> t' < 1440"
  by (auto simp: transition_time_def as_u16_def Let_def bind_eq_Some_conv split: if_splits)

lemma visit_members_ok:
  assumes "tr_slot st < 1440" and "tr_location st < n" and "\<forall>k\<in>set ms. k < n"
  shows "ok_in (\<lambda>e. e = NoFeasibleRoute) (\<lambda>st'. tr_slot st' < 1440 \<and> tr_location st' < n \<and>
      tr_route st' = tr_route st @ ms \<and> tr_details st' = tr_details st \<and> tr_boundaries st' = tr_boundaries st)
    (fold_result (visit_member i) ms st)"
  using assms
proof (induction ms arbitrary: st)
  case (Cons a ms)
  show ?case
  proof (cases "transition_time i (tr_location st) a (tr_slot st)")
    case None
    then show ?thesis by (simp add: visit_member_def)
  next
    case (Some slot)
    let ?st = "st\<lparr>tr_slot := slot, tr_location := a, tr_route := tr_route st @ [a]\<rparr>"
    have step: "visit_member i a st = Inr ?st" by (simp add: visit_member_def Some)
    have "ok_in (\<lambda>e. e = NoFeasibleRoute) (\<lambda>st'. tr_slot st' < 1440 \<and> tr_location st' < n \<and>
        tr_route st' = tr_route ?st @ ms \<and> tr_details st' = tr_details ?st \<and> tr_boundaries st' = tr_boundaries ?st)
      (fold_result (visit_member i) ms ?st)"
      using Cons.prems transition_time_less [OF Some] by (intro Cons.IH) auto
    then show ?thesis by (simp add: step)
  qed
qed simp

text \<open>After \<open>k\<close> clusters the route is the start and, per cluster, an order of its members.\<close>

definition traversed :: "nat \<Rightarrow> cluster list \<Rightarrow> usize list \<Rightarrow> nat \<Rightarrow> traversal \<Rightarrow> bool" where
  "traversed n clusters ks k st \<longleftrightarrow> tr_slot st < 1440 \<and> tr_location st < n \<and>
     tr_route st = 0 # concat (map stat_route (tr_details st)) \<and>
     map stat_cluster_index (tr_details st) = take k ks \<and>
     (\<forall>d\<in>set (tr_details st). mset (stat_route d) = mset (members (clusters ! stat_cluster_index d)))"

lemma visit_cluster_ok:
  assumes wf: "wf_input i" "never_cancelled i"
    and s: "cs_objective s = default_objective" "cs_dominates s = time_cost_dominates"
    and parts: "partitions (input_problem i) max_cluster_members_with_anchors clusters"
    and ks: "\<forall>j\<in>set ks. j < length clusters" and k: "k < length ks"
    and st: "traversed (length (locations (input_problem i))) clusters ks k st"
  shows "ok_in (\<lambda>e. e = NoFeasibleRoute) (traversed (length (locations (input_problem i))) clusters ks (Suc k))
    (visit_cluster s i clusters ks k st)"
proof -
  let ?n = "length (locations (input_problem i))" and ?c = "clusters ! (ks ! k)"
  have c: "?c \<in> set clusters" using ks k by auto
  have ms: "distinct (members ?c)" "\<forall>j\<in>set (members ?c). j < ?n"
    "length (members ?c) \<le> max_cluster_members_with_anchors"
  proof -
    show "distinct (members ?c)" using parts c by (auto simp: partitions_def distinct_concat_iff)
    have "set (members ?c) \<subseteq> {1..<end_location_index (input_problem i)}"
      using parts c unfolding partitions_def by fastforce
    then show "\<forall>j\<in>set (members ?c). j < ?n" by (fastforce simp: end_location_index_def dest: subsetD)
    show "length (members ?c) \<le> max_cluster_members_with_anchors" using parts c by (auto simp: partitions_def)
  qed
  have inv: "tr_slot st < 1440" "tr_location st < ?n" "tr_route st = 0 # concat (map stat_route (tr_details st))"
    "map stat_cluster_index (tr_details st) = take k ks"
    "\<forall>d\<in>set (tr_details st). mset (stat_route d) = mset (members (clusters ! stat_cluster_index d))"
    using st by (auto simp: traversed_def)
  have calm: "\<not> is_cancelled i (PollLoop k)" using wf(2) by (simp add: never_cancelled_def)
  have solved: "ok_in (\<lambda>e. e = NoFeasibleRoute) (\<lambda>r. mset (solved_order r) = mset (members ?c))
    (solve_cluster default_objective time_cost_dominates (inner_input (k + 3) i) (tr_location st) (tr_slot st) ?c
      (next_candidates i clusters ks k))"
    using wf ms inv(1) by (intro solve_cluster_ok) (simp_all add: inner_input_never)
  show ?thesis
    unfolding visit_cluster_def Let_def s if_not_P [OF calm]
  proof (rule ok_in_bind [OF solved])
    fix r assume r: "mset (solved_order r) = mset (members ?c)"
    define d where "d = \<lparr>stat_cluster_index = ks ! k, stat_members = members ?c, stat_route = solved_order r,
      stat_entry = get (solved_order r) 0, stat_exit = get (solved_order r) (length (solved_order r) - 1),
      stat_generated = solved_generated r, stat_frontier = solved_frontier r\<rparr>"
    let ?st = "st\<lparr>tr_generated := tr_generated st + solved_generated r,
      tr_frontier := tr_frontier st + solved_frontier r, tr_details := tr_details st @ [d]\<rparr>"
    have "set (solved_order r) = set (members ?c)" using mset_eq_setD [OF r] .
    then have "ok_in (\<lambda>e. e = NoFeasibleRoute) (\<lambda>st'. tr_slot st' < 1440 \<and> tr_location st' < ?n \<and>
        tr_route st' = tr_route ?st @ solved_order r \<and> tr_details st' = tr_details ?st \<and> tr_boundaries st' = tr_boundaries ?st)
      (fold_result (visit_member i) (solved_order r) ?st)"
      using inv(1,2) ms(2) by (intro visit_members_ok) auto
    then show "ok_in (\<lambda>e. e = NoFeasibleRoute) (traversed ?n clusters ks (Suc k))
      (bind_result (fold_result (visit_member i) (solved_order r) (st\<lparr>tr_generated := tr_generated st + solved_generated r,
          tr_frontier := tr_frontier st + solved_frontier r,
          tr_details := tr_details st @ [\<lparr>stat_cluster_index = ks ! k, stat_members = members ?c, stat_route = solved_order r,
            stat_entry = get (solved_order r) 0, stat_exit = get (solved_order r) (length (solved_order r) - 1),
            stat_generated = solved_generated r, stat_frontier = solved_frontier r\<rparr>]\<rparr>)) (\<lambda>visited.
        Inr (if k + 1 < length ks
             then visited\<lparr>tr_boundaries := tr_boundaries visited @ [length (tr_route visited) - 1]\<rparr>
             else visited)))"
      unfolding d_def [symmetric]
    proof (rule ok_in_bind)
      fix v :: traversal assume v: "tr_slot v < 1440 \<and> tr_location v < ?n \<and>
        tr_route v = tr_route ?st @ solved_order r \<and> tr_details v = tr_details ?st \<and> tr_boundaries v = tr_boundaries ?st"
      have "take (Suc k) ks = take k ks @ [ks ! k]" using k by (rule take_Suc_conv_app_nth)
      then have "traversed ?n clusters ks (Suc k) (if k + 1 < length ks
             then v\<lparr>tr_boundaries := tr_boundaries v @ [length (tr_route v) - 1]\<rparr> else v)"
        using v inv r by (auto simp: traversed_def d_def)
      then show "ok_in (\<lambda>e. e = NoFeasibleRoute) (traversed ?n clusters ks (Suc k)) (Inr (if k + 1 < length ks
             then v\<lparr>tr_boundaries := tr_boundaries v @ [length (tr_route v) - 1]\<rparr> else v))"
        by simp
    qed
  qed
qed

lemma mset_concat_map: "mset (concat (map f xs)) = sum_mset (image_mset (\<lambda>j. mset (f j)) (mset xs))"
  by (induction xs) auto

lemma traversed_whole:
  assumes parts: "partitions p limit clusters" and n: "2 \<le> length (locations p)"
    and ks: "distinct ks" "set ks = {..<length clusters}"
    and st: "traversed (length (locations p)) clusters ks (length ks) st"
  shows "whole_route (length (locations p)) (tr_route st @ [end_location_index p])"
proof -
  let ?n = "length (locations p)" and ?ds = "tr_details st"
  let ?mid = "concat (map stat_route ?ds)"
  have inv: "tr_route st = 0 # ?mid" "map stat_cluster_index ?ds = ks"
    "\<forall>d\<in>set ?ds. mset (stat_route d) = mset (members (clusters ! stat_cluster_index d))"
    using st by (auto simp: traversed_def)
  have each: "mset (concat (map stat_route ds)) = mset (concat (map (\<lambda>j. members (clusters ! j)) (map stat_cluster_index ds)))"
    if "\<forall>d\<in>set ds. mset (stat_route d) = mset (members (clusters ! stat_cluster_index d))" for ds
    using that by (induction ds) auto
  have "mset ?mid = mset (concat (map (\<lambda>j. members (clusters ! j)) ks))"
    using each [OF inv(3)] by (simp add: inv(2))
  also have "\<dots> = sum_mset (image_mset (\<lambda>j. mset (members (clusters ! j))) (mset ks))"
    by (simp only: mset_concat_map)
  also have "mset ks = mset [0..<length clusters]"
    using ks by (intro set_eq_iff_mset_eq_distinct [THEN iffD1]) (auto simp: lessThan_atLeast0)
  also have "sum_mset (image_mset (\<lambda>j. mset (members (clusters ! j))) (mset [0..<length clusters])) =
      mset (concat (map (\<lambda>j. members (clusters ! j)) [0..<length clusters]))"
    by (simp only: mset_concat_map)
  also have "map (\<lambda>j. members (clusters ! j)) [0..<length clusters] = map members clusters"
    by (rule nth_equalityI) simp_all
  finally have perm: "mset ?mid = mset (concat (map members clusters))" .
  have "distinct ?mid" using parts mset_eq_imp_distinct_iff [OF perm] by (simp add: partitions_def)
  moreover have "set ?mid = {1..<?n - 1}"
    using parts mset_eq_setD [OF perm] by (simp add: partitions_def end_location_index_def)
  moreover have "insert 0 (insert (?n - 1) {1..<?n - 1}) = {..<?n}" using n by auto
  ultimately show ?thesis
    using n by (auto simp: whole_route_def inv(1) end_location_index_def)
qed

end
