(* ===== verification/Clustered_Result.thy ===== *)
theory Clustered_Result
  imports Clustered_Route "HOL-Library.Code_Target_Nat"
begin

text \<open>
  The contract of a local improvement, the swap across borders as its instance, and the clustered
  solver over any three strategies that keep their contracts.
\<close>

section \<open>The contract of an improvement\<close>

locale route_improvement =
  fixes improves :: "usize list \<Rightarrow> usize list \<Rightarrow> solver_input \<Rightarrow> objective_policy \<Rightarrow>
    solver_error + usize list \<times> local_improvement_result"
  assumes improves_sound: "wf_input i \<Longrightarrow> improves route bs i default_objective = Inr (route', result) \<Longrightarrow>
      \<exists>before. evaluate_solution default_objective (uncancelled i) \<lparr>visit_order = route\<rparr> = Inr before \<and>
        evaluate_solution default_objective (uncancelled i) \<lparr>visit_order = route'\<rparr> = Inr (improved_metrics result) \<and>
        default_compare (improved_metrics result) before \<noteq> Greater"
    and improves_total: "wf_input i \<Longrightarrow> never_cancelled i \<Longrightarrow>
      matrix_size (input_matrix i) = length (locations (input_problem i)) \<Longrightarrow>
      whole_route (length (locations (input_problem i))) route \<Longrightarrow>
      evaluate_solution default_objective i \<lparr>visit_order = route\<rparr> = Inr before \<Longrightarrow>
      \<exists>route' result. improves route bs i default_objective = Inr (route', result) \<and>
        whole_route (length (locations (input_problem i))) route'"

section \<open>Swaps across borders\<close>

lemma swap_at_twice: "a < length xs \<Longrightarrow> b < length xs \<Longrightarrow> swap_at a b (swap_at a b xs) = xs"
  by (rule nth_equalityI) (auto simp: swap_at_def nth_list_update)

lemma swap_at_whole:
  assumes "whole_route n route" and "0 < b" and "b + 1 < length route - 1"
  shows "whole_route n (swap_at b (b + 1) route)"
proof -
  let ?r = "swap_at b (b + 1) route"
  have perm: "mset ?r = mset route" using assms(3) by (simp add: swap_at_def mset_swap)
  have ne: "route \<noteq> []" "?r \<noteq> []" using assms(1,3) by (auto simp: whole_route_def swap_at_def)
  have len: "length ?r = length route" by (simp add: swap_at_def)
  have "hd ?r = hd route" using assms(2,3) ne by (simp add: hd_conv_nth swap_at_def nth_list_update)
  moreover have "List.last ?r = List.last route"
    using assms(3) by (simp only: last_conv_nth [OF ne(1)] last_conv_nth [OF ne(2)] len)
      (simp add: swap_at_def nth_list_update)
  moreover have "set ?r = set route" by (rule mset_eq_setD [OF perm])
  moreover have "distinct ?r = distinct route" by (rule mset_eq_imp_distinct_iff [OF perm])
  ultimately show ?thesis using assms(1) ne(2) unfolding whole_route_def by simp
qed

text \<open>One border keeps: the route evaluates to the stored metrics, which are no worse than at first.\<close>

definition improved ::
  "solver_input \<Rightarrow> solution_metrics \<Rightarrow> usize list \<times> local_improvement_result \<Rightarrow> bool" where
  "improved i before = (\<lambda>(route, result).
     evaluate_solution default_objective (uncancelled i) \<lparr>visit_order = route\<rparr> = Inr (improved_metrics result) \<and>
     default_compare (improved_metrics result) before \<noteq> Greater)"

lemma try_boundary_improves:
  assumes wf: "wf_input i" and st: "improved i before st"
    and before: "metric_start_policy before = start_policy (input_problem i)"
  shows "ok_in (\<lambda>_. True) (improved i before) (try_boundary default_objective i (site, b) st)"
proof -
  obtain route result where sr: "st = (route, result)" by (cases st)
  let ?swapped = "swap_at b (b + 1) route"
  consider (skip) "is_cancelled i (PollLoop site) \<or> b = 0 \<or> b + 1 \<ge> length route - 1"
    | (swap) "\<not> is_cancelled i (PollLoop site)" "\<not> (b = 0 \<or> b + 1 \<ge> length route - 1)" by blast
  then show ?thesis
  proof cases
    case skip
    then show ?thesis using st by (auto simp: try_boundary_def sr)
  next
    case swap
    then have undone: "swap_at b (b + 1) ?swapped = route" by (intro swap_at_twice) auto
    have unfold_try: "try_boundary default_objective i (site, b) st =
      (case evaluate_solution default_objective (inner_input (site + 1) i) \<lparr>visit_order = ?swapped\<rparr> of
         Inr candidate \<Rightarrow>
           if default_compare candidate (improved_metrics result) = Less
           then Inr (?swapped, \<lparr>improved_metrics = candidate, accepted_local = accepted_local result + 1\<rparr>)
           else Inr (route, result)
       | Inl NoFeasibleRoute \<Rightarrow> Inr (route, result)
       | Inl e \<Rightarrow> Inl e)"
      unfolding try_boundary_def sr prod.case Let_def if_not_P [OF swap(1)] if_not_P [OF swap(2)] undone
        default_objective_simps ..
    show ?thesis
    proof (cases "evaluate_solution default_objective (inner_input (site + 1) i) \<lparr>visit_order = ?swapped\<rparr>")
      case (Inl e)
      then show ?thesis unfolding unfold_try Inl using st sr by (cases e) simp_all
    next
      case (Inr candidate)
      show ?thesis
      proof (cases "default_compare candidate (improved_metrics result) = Less")
        case True
        have ev: "evaluate_solution default_objective (uncancelled i) \<lparr>visit_order = ?swapped\<rparr> = Inr candidate"
          by (rule inner_input_evaluates [OF Inr])
        have old: "evaluate_solution default_objective (uncancelled i) \<lparr>visit_order = route\<rparr> = Inr (improved_metrics result)"
          "default_compare (improved_metrics result) before \<noteq> Greater"
          using st by (auto simp: improved_def sr)
        have "default_compare candidate before \<noteq> Greater"
          using default_order.trans [of candidate "start_policy (input_problem i)" "improved_metrics result" before]
            evaluated_start_policy [OF wf ev] evaluated_start_policy [OF wf old(1)] before old(2) True by simp
        then show ?thesis unfolding unfold_try Inr using ev True by (simp add: improved_def)
      next
        case False
        then show ?thesis unfolding unfold_try Inr using st sr by simp
      qed
    qed
  qed
qed

lemma try_boundary_total:
  assumes wf: "wf_input i" "never_cancelled i" "matrix_size (input_matrix i) = length (locations (input_problem i))"
    and st: "whole_route (length (locations (input_problem i))) (fst st)"
  shows "ok_in (\<lambda>_. False) (\<lambda>st'. whole_route (length (locations (input_problem i))) (fst st'))
    (try_boundary default_objective i (site, b) st)"
proof -
  obtain route result where sr: "st = (route, result)" by (cases st)
  have calm: "\<not> is_cancelled i (PollLoop site)" using wf(2) by (simp add: never_cancelled_def)
  show ?thesis
  proof (cases "b = 0 \<or> b + 1 \<ge> length route - 1")
    case True
    then show ?thesis using st calm by (auto simp: try_boundary_def sr)
  next
    case False
    let ?swapped = "swap_at b (b + 1) route"
    have swapped: "whole_route (length (locations (input_problem i))) ?swapped"
      using st False by (intro swap_at_whole) (auto simp: sr)
    have undone: "swap_at b (b + 1) ?swapped = route" using False by (intro swap_at_twice) auto
    have "ok_in (\<lambda>e. e = NoFeasibleRoute) (\<lambda>_. True)
      (evaluate_solution default_objective (inner_input (site + 1) i) \<lparr>visit_order = ?swapped\<rparr>)"
      using wf whole_route_valid [OF swapped] by (intro evaluate_valid) (simp_all add: inner_input_never)
    then show ?thesis
      using calm False swapped undone st
      by (cases "evaluate_solution default_objective (inner_input (site + 1) i) \<lparr>visit_order = ?swapped\<rparr>")
        (auto simp: try_boundary_def sr Let_def)
  qed
qed

interpretation boundary_swap: route_improvement "improve boundary_swap_local_improvement"
proof
  fix i :: solver_input and route bs route' result
  assume wf: "wf_input i" and "improve boundary_swap_local_improvement route bs i default_objective = Inr (route', result)"
  then have run: "boundary_swap_improve route bs i default_objective = Inr (route', result)"
    by (simp add: boundary_swap_local_improvement_def)
  then obtain before where before: "evaluate_solution default_objective (inner_input 0 i) \<lparr>visit_order = route\<rparr> = Inr before"
    by (cases "evaluate_solution default_objective (inner_input 0 i) \<lparr>visit_order = route\<rparr>")
      (auto simp: boundary_swap_improve_def)
  note ev = inner_input_evaluates [OF before]
  have pol: "metric_start_policy before = start_policy (input_problem i)" by (rule evaluated_start_policy [OF wf ev])
  have start: "improved i before (route, \<lparr>improved_metrics = before, accepted_local = 0\<rparr>)"
    using ev default_order.refl [of before "start_policy (input_problem i)"] pol by (simp add: improved_def)
  have "ok_in (\<lambda>_. True) (improved i before) (fold_result (try_boundary default_objective i)
      (zip [0..<length bs] bs) (route, \<lparr>improved_metrics = before, accepted_local = 0\<rparr>))"
    by (rule fold_result_invariant [where I = "improved i before", OF start]) (use try_boundary_improves [OF wf _ pol] in auto)
  moreover have "fold_result (try_boundary default_objective i)
      (zip [0..<length bs] bs) (route, \<lparr>improved_metrics = before, accepted_local = 0\<rparr>) = Inr (route', result)"
    using run by (simp add: boundary_swap_improve_def before)
  ultimately have "improved i before (route', result)" by simp
  then show "\<exists>before. evaluate_solution default_objective (uncancelled i) \<lparr>visit_order = route\<rparr> = Inr before \<and>
        evaluate_solution default_objective (uncancelled i) \<lparr>visit_order = route'\<rparr> = Inr (improved_metrics result) \<and>
        default_compare (improved_metrics result) before \<noteq> Greater"
    using ev by (auto simp: improved_def)
next
  fix i :: solver_input and route bs before
  assume wf: "wf_input i" "never_cancelled i" "matrix_size (input_matrix i) = length (locations (input_problem i))"
    and whole: "whole_route (length (locations (input_problem i))) route"
    and before: "evaluate_solution default_objective i \<lparr>visit_order = route\<rparr> = Inr before"
  have "evaluate_solution default_objective (inner_input 0 i) \<lparr>visit_order = route\<rparr> = Inr before"
    using before never_uncancelled [OF wf(2)] never_uncancelled [OF inner_input_never [OF wf(2)], of 0]
    by (metis inner_input_uncancelled)
  moreover have "ok_in (\<lambda>_. False) (\<lambda>st'. whole_route (length (locations (input_problem i))) (fst st'))
    (fold_result (try_boundary default_objective i) (zip [0..<length bs] bs)
      (route, \<lparr>improved_metrics = before, accepted_local = 0\<rparr>))"
    by (rule fold_result_invariant) (use whole try_boundary_total [OF wf] in auto)
  ultimately show "\<exists>route' result. improve boundary_swap_local_improvement route bs i default_objective = Inr (route', result) \<and>
        whole_route (length (locations (input_problem i))) route'"
    by (cases "fold_result (try_boundary default_objective i) (zip [0..<length bs] bs)
        (route, \<lparr>improved_metrics = before, accepted_local = 0\<rparr>)")
      (auto simp: boundary_swap_local_improvement_def boundary_swap_improve_def)
qed

section \<open>The solver over its parts\<close>

text \<open>Whatever the other two strategies do, the metrics of a result are those of the evaluator.\<close>

context route_improvement
begin

lemma join_sound:
  assumes wf: "wf_input i" and s: "improve (cs_local_improvement s) = improves" "cs_objective s = default_objective"
    and run: "join_clusters s i clusters order = Inr r"
  shows "evaluate_solution default_objective (uncancelled i) (clustered_solution r) = Inr (clustered_metrics r)"
    and "default_compare (clustered_metrics r) (metrics_before_improvement r) \<noteq> Greater"
proof -
  obtain st :: traversal and before improved result metrics
    where before: "evaluate_solution default_objective (inner_input 0 i)
        \<lparr>visit_order = tr_route st @ [end_location_index (input_problem i)]\<rparr> = Inr before"
      and imp: "improves (tr_route st @ [end_location_index (input_problem i)]) (tr_boundaries st) (inner_input 1 i) default_objective
        = Inr (improved, result)"
      and fin: "evaluate_solution default_objective (inner_input 2 i) \<lparr>visit_order = improved\<rparr> = Inr metrics"
      and r: "clustered_solution r = \<lparr>visit_order = improved\<rparr>" "metrics_before_improvement r = before"
        "clustered_metrics r = metrics"
    using run by (auto simp: join_clusters_def s Let_def bind_result_Inr)
  obtain before' where b: "evaluate_solution default_objective (uncancelled i)
        \<lparr>visit_order = tr_route st @ [end_location_index (input_problem i)]\<rparr> = Inr before'"
      "evaluate_solution default_objective (uncancelled i) \<lparr>visit_order = improved\<rparr> = Inr (improved_metrics result)"
      "default_compare (improved_metrics result) before' \<noteq> Greater"
    using improves_sound [of "inner_input 1 i", OF _ imp] wf by auto
  note ev = inner_input_evaluates [OF before] inner_input_evaluates [OF fin]
  show "evaluate_solution default_objective (uncancelled i) (clustered_solution r) = Inr (clustered_metrics r)"
    using ev(2) r by simp
  show "default_compare (clustered_metrics r) (metrics_before_improvement r) \<noteq> Greater"
    using ev b r by simp
qed

lemma clustered_sound:
  assumes wf: "wf_input i" and s: "improve (cs_local_improvement s) = improves" "cs_objective s = default_objective" and run: "clustered_solve_detailed s i = Some (Inr r)"
  shows "evaluate_solution default_objective (uncancelled i) (clustered_solution r) = Inr (clustered_metrics r) \<and>
    default_compare (clustered_metrics r) (metrics_before_improvement r) \<noteq> Greater"
proof (cases "length (locations (input_problem i)) = 1")
  case True
  then have one: "evaluate_solution default_objective (inner_input 0 i) \<lparr>visit_order = [0]\<rparr> = Inr (clustered_metrics r)"
    "clustered_solution r = \<lparr>visit_order = [0]\<rparr>" "metrics_before_improvement r = clustered_metrics r"
    using run s by (auto simp: clustered_solve_detailed_def Let_def bind_result_Inr split: sum.splits)
  show ?thesis
    using inner_input_evaluates [OF one(1)] one default_order.refl [of "clustered_metrics r"] by simp
next
  case False
  then obtain clusters order where "join_clusters s i clusters order = Inr r"
    using run by (auto simp: clustered_solve_detailed_def Let_def bind_result_Inr split: sum.splits)
  then show ?thesis using join_sound [OF wf s] by blast
qed

end

text \<open>A solver that is built from the three parts and uses the default objective.\<close>

definition built_from ::
  "(optimization_problem \<Rightarrow> travel_time_matrix \<Rightarrow> usize \<Rightarrow> solver_error + cluster list) \<Rightarrow>
    (cluster list \<Rightarrow> optimization_problem \<Rightarrow> travel_time_matrix \<Rightarrow> (solver_error + usize list) option) \<Rightarrow>
    (usize list \<Rightarrow> usize list \<Rightarrow> solver_input \<Rightarrow> objective_policy \<Rightarrow> solver_error + usize list \<times> local_improvement_result) \<Rightarrow>
    clustered_solver \<Rightarrow> bool" where
  "built_from split arrange improves s \<longleftrightarrow>
     make_clusters (cs_cluster_strategy s) = split \<and> order_clusters (cs_order_strategy s) = arrange \<and>
     improve (cs_local_improvement s) = improves \<and>
     cs_objective s = default_objective \<and> cs_dominates s = time_cost_dominates"

locale clustered_parts = clustering make + cluster_ordering arrange + route_improvement improves
  for make arrange improves
begin

lemma join_outcome:
  assumes wf: "wf_input i" "never_cancelled i" "matrix_size (input_matrix i) = length (locations (input_problem i))"
    and s: "built_from make arrange improves s" and n: "2 \<le> length (locations (input_problem i))"
    and parts: "partitions (input_problem i) max_cluster_members_with_anchors clusters"
    and ks: "distinct ks" "set ks = {..<length clusters}"
  shows "ok_in (\<lambda>e. e = NoFeasibleRoute)
    (\<lambda>r. whole_route (length (locations (input_problem i))) (visit_order (clustered_solution r)))
    (join_clusters s i clusters ks)"
proof -
  let ?n = "length (locations (input_problem i))" and ?finish = "end_location_index (input_problem i)"
  have b: "improve (cs_local_improvement s) = improves" "cs_objective s = default_objective"
    "cs_dominates s = time_cost_dominates"
    using s by (auto simp: built_from_def)
  have valid: "ok_in (\<lambda>e. e = NoFeasibleRoute) (\<lambda>_. True) (evaluate_solution default_objective (inner_input k i) \<lparr>visit_order = route\<rparr>)"
    if "whole_route ?n route" for k route
    using wf whole_route_valid [OF that] by (intro evaluate_valid) (simp_all add: inner_input_never)
  show ?thesis
  proof (cases "initial_service i (as_u16 (minutes_to_slot_ceil (minutes (start_time (input_problem i)))))")
    case None
    then show ?thesis by (simp add: join_clusters_def Let_def)
  next
    case (Some initial)
    have early: "departure_slot initial < 1440"
      using Some by (auto simp: initial_service_def as_u16_def Let_def bind_eq_Some_conv split: if_splits)
    have loop: "ok_in (\<lambda>e. e = NoFeasibleRoute) (traversed ?n clusters ks (length ks))
      (fold_result (visit_cluster s i clusters ks) [0..<length ks] (empty_traversal (departure_slot initial)))"
    proof (rule fold_result_upt [where I = "traversed ?n clusters ks"])
      show "traversed ?n clusters ks 0 (empty_traversal (departure_slot initial))"
        using early n by (auto simp: traversed_def empty_traversal_def)
      fix k st assume "k < length ks" "traversed ?n clusters ks k st"
      then show "ok_in (\<lambda>e. e = NoFeasibleRoute) (traversed ?n clusters ks (Suc k)) (visit_cluster s i clusters ks k st)"
        using wf b parts ks by (intro visit_cluster_ok) auto
    qed simp
    show ?thesis
      unfolding join_clusters_def Let_def Some ok_or_simps bind_result_simps b
    proof (rule ok_in_bind [OF loop])
      fix st assume st: "traversed ?n clusters ks (length ks) st"
      have whole: "whole_route ?n (tr_route st @ [?finish])" by (rule traversed_whole [OF parts n ks st])
      show "ok_in (\<lambda>e. e = NoFeasibleRoute) (\<lambda>r. whole_route ?n (visit_order (clustered_solution r)))
        (bind_result (evaluate_solution default_objective (inner_input 0 i) \<lparr>visit_order = tr_route st @ [?finish]\<rparr>) (\<lambda>before.
         bind_result (improves (tr_route st @ [?finish]) (tr_boundaries st) (inner_input 1 i) default_objective) (\<lambda>(improved, result).
         bind_result (evaluate_solution default_objective (inner_input 2 i) \<lparr>visit_order = improved\<rparr>) (\<lambda>metrics.
          Inr \<lparr>clustered_solution = \<lparr>visit_order = improved\<rparr>,
               metrics_before_improvement = before, clustered_metrics = metrics,
               clustered_stats = clustered_stats_of s clusters ks st (accepted_local result)\<rparr>))))"
      proof (rule ok_in_bind [OF valid [OF whole]])
        fix before assume before: "evaluate_solution default_objective (inner_input 0 i) \<lparr>visit_order = tr_route st @ [?finish]\<rparr> = Inr before"
        have "evaluate_solution default_objective (inner_input 1 i) \<lparr>visit_order = tr_route st @ [?finish]\<rparr> = Inr before"
          using inner_input_evaluates [OF before] never_uncancelled [OF inner_input_never [OF wf(2)], of 1]
          by (metis inner_input_uncancelled)
        then have "\<exists>route' result. improves (tr_route st @ [?finish]) (tr_boundaries st) (inner_input 1 i) default_objective = Inr (route', result) \<and>
            whole_route ?n route'"
          using improves_total [of "inner_input 1 i" "tr_route st @ [?finish]" before "tr_boundaries st"] wf whole
          by (simp add: inner_input_never)
        then obtain route' result where imp: "improves (tr_route st @ [?finish]) (tr_boundaries st) (inner_input 1 i) default_objective = Inr (route', result)"
          "whole_route ?n route'"
          by blast
        show "ok_in (\<lambda>e. e = NoFeasibleRoute) (\<lambda>r. whole_route ?n (visit_order (clustered_solution r)))
          (bind_result (improves (tr_route st @ [?finish]) (tr_boundaries st) (inner_input 1 i) default_objective) (\<lambda>(improved, result).
           bind_result (evaluate_solution default_objective (inner_input 2 i) \<lparr>visit_order = improved\<rparr>) (\<lambda>metrics.
            Inr \<lparr>clustered_solution = \<lparr>visit_order = improved\<rparr>,
               metrics_before_improvement = before, clustered_metrics = metrics,
               clustered_stats = clustered_stats_of s clusters ks st (accepted_local result)\<rparr>)))"
          unfolding imp bind_result_simps prod.case
          by (rule ok_in_bind [OF valid [OF imp(2)]]) (simp add: imp(2))
      qed
    qed
  qed
qed

lemma clustered_outcome:
  assumes wf: "wf_input i" "never_cancelled i" "matrix_size (input_matrix i) = length (locations (input_problem i))"
    and s: "built_from make arrange improves s" "1 \<le> max_cluster_size (cs_config s)" "max_cluster_size (cs_config s) \<le> max_exact_cluster_size"
  shows "\<exists>out. clustered_solve_detailed s i = Some out \<and> ok_in (\<lambda>e. e = NoFeasibleRoute)
    (\<lambda>r. whole_route (length (locations (input_problem i))) (visit_order (clustered_solution r))) out"
proof -
  let ?p = "input_problem i" and ?m = "input_matrix i"
  let ?n = "length (locations ?p)" and ?limit = "min (max_cluster_size (cs_config s)) max_cluster_members_with_anchors"
  have checked: "clustered_validate s i = Inr ()"
    using wf(2,3) s(2,3) by (simp add: clustered_validate_def never_cancelled_def clustered_config_new_def Let_def)
  have b: "make_clusters (cs_cluster_strategy s) = make" "order_clusters (cs_order_strategy s) = arrange"
    "cs_objective s = default_objective"
    using s(1) by (auto simp: built_from_def)
  have p: "wf_problem ?p" "wf_matrix ?m" "u32_cells ?m" using wf(1) by (auto simp: wf_input_def)
  show ?thesis
  proof (cases "?n = 1")
    case True
    have whole: "whole_route ?n [0]" using True by (auto simp: whole_route_def)
    have "ok_in (\<lambda>e. e = NoFeasibleRoute) (\<lambda>_. True) (evaluate_solution default_objective (inner_input 0 i) \<lparr>visit_order = [0]\<rparr>)"
      using wf whole_route_valid [OF whole] by (intro evaluate_valid) (simp_all add: inner_input_never)
    then show ?thesis using whole True
      by (auto simp: clustered_solve_detailed_def checked b Let_def intro!: ok_in_bind)
  next
    case False
    then have n: "2 \<le> ?n" using wf_problem_length [OF p(1)] by linarith
    have "0 < ?limit" using s(2) by (simp add: max_cluster_members_with_anchors_def exact_max_locations_def)
    then obtain cs where cs: "make ?p ?m ?limit = Inr cs" "partitions ?p ?limit cs" using splits by blast
    have parts: "partitions ?p max_cluster_members_with_anchors cs" using cs(2) by (auto simp: partitions_def)
    have run: "clustered_solve_detailed s i = map_option (\<lambda>ordered. bind_result ordered (\<lambda>order.
        bind_result (validate_cluster_order order (length cs)) (\<lambda>_. join_clusters s i cs order))) (arrange cs ?p ?m)"
      using False validate_clusters_ok [OF cs(2)] by (simp add: clustered_solve_detailed_def checked b cs(1) Let_def)
    from arranges [OF p wf(3) cs(2)] show ?thesis
    proof (elim disjE exE conjE)
      fix ks assume ks: "arrange cs ?p ?m = Some (Inr ks)" "distinct ks" "set ks = {..<length cs}"
      then have "clustered_solve_detailed s i = Some (join_clusters s i cs ks)"
        by (simp add: run validate_cluster_order_ok)
      then show ?thesis using join_outcome [OF wf s(1) n parts ks(2,3)] by simp
    qed (simp add: run)
  qed
qed

end

interpretation default_parts: clustered_parts "make_clusters travel_time_cluster_strategy"
    "order_clusters greedy_cluster_order_strategy" "improve boundary_swap_local_improvement"
  by unfold_locales

interpretation mst_parts: clustered_parts "make_clusters travel_time_cluster_strategy"
    "order_clusters (mst_cluster_order_strategy average_symmetric_distance)" "improve boundary_swap_local_improvement"
  by unfold_locales

lemma with_config_built:
  "built_from (make_clusters travel_time_cluster_strategy) (order_clusters greedy_cluster_order_strategy)
     (improve boundary_swap_local_improvement) (with_config c)"
  "built_from (make_clusters travel_time_cluster_strategy)
     (order_clusters (mst_cluster_order_strategy average_symmetric_distance)) (improve boundary_swap_local_improvement)
     ((with_config c)\<lparr>cs_order_strategy := mst_cluster_order_strategy average_symmetric_distance\<rparr>)"
  by (simp_all add: built_from_def with_config_def)

lemma readme_clusters:
  "map_option (map_sum id (\<lambda>r. visit_order (clustered_solution r)))
     (clustered_solve_detailed default_clustered_solver (readme_input Fixed)) = Some (Inr [0, 2, 1, 3])"
  by code_simp

lemma readme_clustered:
  obtains r where "clustered_solve_detailed default_clustered_solver (readme_input Fixed) = Some (Inr r)"
    "clustered_solution r = readme_route"
proof -
  obtain out where out: "clustered_solve_detailed default_clustered_solver (readme_input Fixed) = Some out"
    "map_sum id (\<lambda>r. visit_order (clustered_solution r)) out = Inr [0, 2, 1, 3]"
    using readme_clusters by (auto simp: map_option_eq_Some)
  then obtain r where "out = Inr r" "visit_order (clustered_solution r) = [0, 2, 1, 3]" by (cases out) auto
  then show thesis using that out(1) by (simp add: readme_route_def)
qed

section \<open>Properties\<close>

text \<open>
  C34. Whatever clusters and orders of clusters the solver is given, and however the token
  changes during the run, a result of the clustered solver is a solution the evaluator accepts
  with exactly the metrics reported, and the swaps across the borders have not made it worse
  than the joined route was.
\<close>

theorem clustered_result_sound:
  assumes "wf_input i" and "cs_objective s = default_objective"
    and "cs_local_improvement s = boundary_swap_local_improvement"
    and "clustered_solve_detailed s i = Some (Inr r)"
  shows "evaluate_solution default_objective (uncancelled i) (clustered_solution r) = Inr (clustered_metrics r) \<and>
    default_compare (clustered_metrics r) (metrics_before_improvement r) \<noteq> Greater"
  using boundary_swap.clustered_sound [OF assms(1) _ assms(2,4)] assms(3) by simp

theorem clustered_result_sound_witness:
  "\<exists>mt. evaluate_solution default_objective (uncancelled (readme_input Fixed)) readme_route = Inr mt"
proof -
  obtain r where r: "clustered_solve_detailed default_clustered_solver (readme_input Fixed) = Some (Inr r)"
    "clustered_solution r = readme_route"
    by (rule readme_clustered)
  have "cs_objective default_clustered_solver = default_objective"
    "cs_local_improvement default_clustered_solver = boundary_swap_local_improvement"
    by (simp_all add: default_clustered_solver_def with_config_def)
  from clustered_result_sound [OF readme_wf(1) this r(1)] show ?thesis by (auto simp: r(2))
qed

text \<open>
  C35. For every cluster size the configuration allows, with either order of clusters, the
  clustered solver ends on a valid input; it returns a route through every location between the
  fixed endpoints, or reports that it found no feasible route, and nothing else: the inner
  problems it builds are never refused.
\<close>

theorem clustered_solver_outcome:
  assumes "wf_input i" and "never_cancelled i"
    and "matrix_size (input_matrix i) = length (locations (input_problem i))"
    and "clustered_config_new limit = Inr c"
    and "s = with_config c \<or>
      s = (with_config c)\<lparr>cs_order_strategy := mst_cluster_order_strategy average_symmetric_distance\<rparr>"
  shows "clustered_solve_detailed s i = Some (Inl NoFeasibleRoute) \<or>
    (\<exists>r. clustered_solve_detailed s i = Some (Inr r) \<and>
      valid_order (input_problem i) (visit_order (clustered_solution r)) \<and>
      set (visit_order (clustered_solution r)) = {..<length (locations (input_problem i))})"
proof -
  have c: "1 \<le> max_cluster_size (cs_config s)" "max_cluster_size (cs_config s) \<le> max_exact_cluster_size"
    using assms(4,5) by (auto simp: clustered_config_new_def with_config_def split: if_splits)
  have "\<exists>out. clustered_solve_detailed s i = Some out \<and> ok_in (\<lambda>e. e = NoFeasibleRoute)
      (\<lambda>r. whole_route (length (locations (input_problem i))) (visit_order (clustered_solution r))) out"
    using assms(5) default_parts.clustered_outcome [OF assms(1-3) _ c] mst_parts.clustered_outcome [OF assms(1-3) _ c]
      with_config_built by blast
  then obtain out where out: "clustered_solve_detailed s i = Some out" "ok_in (\<lambda>e. e = NoFeasibleRoute)
      (\<lambda>r. whole_route (length (locations (input_problem i))) (visit_order (clustered_solution r))) out" by blast
  then show ?thesis
    using whole_route_valid by (cases out) (auto simp: whole_route_def)
qed

theorem clustered_solver_outcome_witness:
  "\<exists>r. clustered_solve_detailed default_clustered_solver (readme_input Fixed) = Some (Inr r) \<and>
    set (visit_order (clustered_solution r)) = {..<4}"
proof -
  have "clustered_config_new 10 = Inr default_clustered_config"
    by (simp add: clustered_config_new_def default_clustered_config_def default_max_exact_cluster_size_def
        max_exact_cluster_size_def exact_max_locations_def)
  note out = clustered_solver_outcome [where i = "readme_input Fixed" and s = default_clustered_solver,
      OF readme_wf(1) readme_not_cancelled _ this]
  obtain r where "clustered_solve_detailed default_clustered_solver (readme_input Fixed) = Some (Inr r)"
    by (rule readme_clustered)
  with out show ?thesis by (simp add: default_clustered_solver_def)
qed

end
