(* ===== verification/Initial_Chain.thy ===== *)
theory Initial_Chain
  imports Christofides_Facts Clustered_Result
begin

text \<open>
  \<open>src/solver/initial/clustered.rs\<close>: the chain of generators that annealing starts from by
  default, the clustered solver first, then the double tree, the greedy route and a random order.
\<close>

definition clustered_route :: "clustered_solver \<Rightarrow> solver_input \<Rightarrow> (solver_error + solver_solution) option" where
  "clustered_route s i = clustered_solve s i"

text \<open>The first generator that succeeds; cancellation is final.\<close>

fun first_route :: "(solver_error + solver_solution) option list \<Rightarrow> (solver_error + solver_solution) option option" where
  "first_route [] = Some None"
| "first_route (attempt # attempts) =
     (case attempt of
        None \<Rightarrow> None
      | Some (Inr solution) \<Rightarrow> Some (Some (Inr solution))
      | Some (Inl Cancelled) \<Rightarrow> Some (Some (Inl Cancelled))
      | Some (Inl _) \<Rightarrow> first_route attempts)"

lemma first_route_step:
  "first_route (Some r # rest) =
    (if (\<exists>sol. r = Inr sol) \<or> r = Inl Cancelled then Some (Some r) else first_route rest)"
  by (cases r; cases "projl r") auto

definition default_initial_route ::
  "'g shuffle \<Rightarrow> solver_input \<Rightarrow> 'g \<Rightarrow> (solver_error + solver_solution) option \<times> 'g" where
  "default_initial_route shuffle i rng =
     (case validate_generator_input i of
        Inl e \<Rightarrow> (Some (Inl e), rng)
      | Inr _ \<Rightarrow>
          case first_route [clustered_route default_clustered_solver (inner_input 0 i),
              mst_route average_symmetric_distance (inner_input 1 i),
              Some (greedy_route (inner_input 2 i))] of
            None \<Rightarrow> (None, rng)
          | Some (Some r) \<Rightarrow> (Some r, rng)
          | Some None \<Rightarrow> map_prod Some id (random_route shuffle (inner_input 3 i) rng))"

lemma validate_generator_cases:
  "validate_generator_input i = Inr () \<or> validate_generator_input i = Inl Cancelled \<or>
    matrix_size (input_matrix i) \<noteq> length (locations (input_problem i)) \<and>
    validate_generator_input i = Inl (MatrixSizeMismatch (matrix_size (input_matrix i)) (length (locations (input_problem i))))"
  by (simp add: validate_generator_input_def Let_def)

section \<open>The answers of the generators\<close>

text \<open>An answer is acceptable when it is a valid route; the error of a run never cancelled is not cancellation.\<close>

definition acceptable_answer :: "solver_input \<Rightarrow> solver_error + solver_solution \<Rightarrow> bool" where
  "acceptable_answer i r \<longleftrightarrow> (case r of
     Inl e \<Rightarrow> never_cancelled i \<longrightarrow> e \<noteq> Cancelled
   | Inr sol \<Rightarrow> valid_order (input_problem i) (visit_order sol) \<and>
       (never_cancelled i \<longrightarrow> set (visit_order sol) = {..<length (locations (input_problem i))}))"

lemma greedy_answer:
  assumes "wf_input i" and "matrix_size (input_matrix i) = length (locations (input_problem i))"
  shows "acceptable_answer i (greedy_route i)" "greedy_route i = Inl e \<Longrightarrow> e = Cancelled"
proof -
  have c: "\<exists>sol. greedy_route i = Inr sol \<and> valid_order (input_problem i) (visit_order sol) \<and>
      set (visit_order sol) = {..<length (locations (input_problem i))}" if "\<not> is_cancelled i PollGenerate"
    using greedy_route_complete [of i] assms that by (auto simp: wf_input_def)
  have x: "greedy_route i = Inl Cancelled" if "is_cancelled i PollGenerate"
    using that by (simp add: greedy_route_def validate_generator_input_def Let_def)
  show "greedy_route i = Inl e \<Longrightarrow> e = Cancelled" using c x by (cases "is_cancelled i PollGenerate") auto
  show "acceptable_answer i (greedy_route i)"
  proof (cases "is_cancelled i PollGenerate")
    case True
    then have "\<not> never_cancelled i" by (auto simp: never_cancelled_def)
    then show ?thesis by (simp add: x [OF True] acceptable_answer_def)
  next
    case False
    from c [OF this] obtain sol where sol: "greedy_route i = Inr sol" "valid_order (input_problem i) (visit_order sol)"
      "set (visit_order sol) = {..<length (locations (input_problem i))}" by blast
    show ?thesis unfolding sol(1) acceptable_answer_def sum.case using sol(2,3) by blast
  qed
qed

lemma mst_answer:
  assumes "wf_input i" and "matrix_size (input_matrix i) = length (locations (input_problem i))"
  obtains r where "mst_route average_symmetric_distance i = Some r" "acceptable_answer i r"
proof -
  have calm: "validate_generator_input i = Inr ()" if "never_cancelled i"
    using that assms(2) by (simp add: validate_generator_input_def never_cancelled_def)
  from mst_route_outcome [OF assms(1) average_built_in] calm that show thesis
    by (cases "validate_generator_input i") (auto simp: Let_def acceptable_answer_def split: if_splits)
qed

lemma clustered_answer:
  assumes "wf_input i" and "matrix_size (input_matrix i) = length (locations (input_problem i))"
  obtains r where "clustered_route default_clustered_solver i = Some r" "acceptable_answer i r"
proof -
  let ?s = default_clustered_solver
  have c: "clustered_config_new 10 = Inr default_clustered_config"
    by (simp add: clustered_config_new_def default_clustered_config_def default_max_exact_cluster_size_def
        max_exact_cluster_size_def exact_max_locations_def)
  have "clustered_solve_detailed ?s i \<noteq> None"
    by (auto simp: clustered_solve_detailed_def default_clustered_solver_def with_config_def
        greedy_cluster_order_strategy_def Let_def split: sum.splits)
  then obtain out where out: "clustered_solve_detailed ?s i = Some out" by blast
  define r where "r = bind_result out (\<lambda>result. Inr (clustered_solution result))"
  have "acceptable_answer i r"
  proof (cases out)
    case (Inl e)
    have "e \<noteq> Cancelled" if n: "never_cancelled i"
    proof
      assume "e = Cancelled"
      then show False
        using default_parts.clustered_outcome [OF assms(1) n assms(2) with_config_built(1), of default_clustered_config]
          out Inl by (simp add: default_clustered_solver_def default_clustered_config_def
            default_max_exact_cluster_size_def max_exact_cluster_size_def exact_max_locations_def with_config_def)
    qed
    then show ?thesis by (simp add: r_def Inl acceptable_answer_def)
  next
    case (Inr res)
    have ev: "evaluate_solution default_objective (uncancelled i) (clustered_solution res) = Inr (clustered_metrics res)"
      using boundary_swap.clustered_sound [OF assms(1), of ?s res] out Inr
      by (simp add: default_clustered_solver_def with_config_def)
    have wf: "wf_input (uncancelled i)" using assms(1) by simp
    have "valid_order (input_problem i) (visit_order (clustered_solution res))"
      using evaluate_solution_Inr(1) [OF wf uncancelled_never ev] by simp
    moreover have "set (visit_order (clustered_solution res)) = {..<length (locations (input_problem i))}"
      if n: "never_cancelled i"
      using default_parts.clustered_outcome [OF assms(1) n assms(2) with_config_built(1), of default_clustered_config]
        out Inr by (simp add: default_clustered_solver_def default_clustered_config_def whole_route_def
            default_max_exact_cluster_size_def max_exact_cluster_size_def exact_max_locations_def with_config_def)
    ultimately show ?thesis by (simp add: r_def Inr acceptable_answer_def)
  qed
  moreover have "clustered_route ?s i = Some r" by (simp add: clustered_route_def clustered_solve_def out r_def)
  ultimately show thesis by (rule that [rotated])
qed

section \<open>Properties\<close>

text \<open>
  Annealing always has a route to start from: however the token changes and the shuffle
  behaves, the default chain of generators ends, and it ends with a valid route unless it was
  cancelled; without cancellation the route visits every location.
\<close>

lemma default_initial_route_total:
  assumes "wf_input i" and "matrix_size (input_matrix i) = length (locations (input_problem i))"
  shows "\<exists>r. fst (default_initial_route shuffle i rng) = Some r \<and>
    (case r of
       Inl e \<Rightarrow> e = Cancelled \<and> \<not> never_cancelled i
     | Inr sol \<Rightarrow> valid_order (input_problem i) (visit_order sol) \<and>
         (never_cancelled i \<longrightarrow> set (visit_order sol) = {..<length (locations (input_problem i))}))"
proof (cases "validate_generator_input i")
  case (Inl e)
  then have "e = Cancelled" "\<not> never_cancelled i"
    using validate_generator_cases [of i] assms(2)
    by (auto simp: validate_generator_input_def never_cancelled_def Let_def split: if_splits)
  then show ?thesis using Inl by (simp add: default_initial_route_def)
next
  case valid: (Inr u)
  have wf: "wf_input (inner_input k i)"
    and size: "matrix_size (input_matrix (inner_input k i)) = length (locations (input_problem (inner_input k i)))" for k
    using assms by simp_all
  obtain r0 where r0: "clustered_route default_clustered_solver (inner_input 0 i) = Some r0" "acceptable_answer (inner_input 0 i) r0"
    by (rule clustered_answer [OF wf size])
  obtain r1 where r1: "mst_route average_symmetric_distance (inner_input 1 i) = Some r1" "acceptable_answer (inner_input 1 i) r1"
    by (rule mst_answer [OF wf size])
  define r2 where "r2 = greedy_route (inner_input 2 i)"
  have r2: "acceptable_answer (inner_input 2 i) r2" "\<And>e. r2 = Inl e \<Longrightarrow> e = Cancelled"
    using greedy_answer [OF wf size] by (auto simp: r2_def)
  have run: "\<exists>r\<in>{r0, r1, r2}. first_route [Some r0, Some r1, Some r2] = Some (Some r) \<and> (\<forall>e. r = Inl e \<longrightarrow> e = Cancelled)"
    using r2(2) by (cases r2) (auto simp: first_route_step simp del: first_route.simps)
  then obtain r where r: "r \<in> {r0, r1, r2}" "first_route [Some r0, Some r1, Some r2] = Some (Some r)"
    "\<And>e. r = Inl e \<Longrightarrow> e = Cancelled" by blast
  have "\<exists>k. acceptable_answer (inner_input k i) r" using r(1) r0(2) r1(2) r2(1) by blast
  then have "case r of
       Inl e \<Rightarrow> e = Cancelled \<and> \<not> never_cancelled i
     | Inr sol \<Rightarrow> valid_order (input_problem i) (visit_order sol) \<and>
         (never_cancelled i \<longrightarrow> set (visit_order sol) = {..<length (locations (input_problem i))})"
    using r(3) inner_input_never [of i] by (auto simp: acceptable_answer_def split: sum.splits)
  moreover have "fst (default_initial_route shuffle i rng) = Some r"
    unfolding default_initial_route_def valid sum.case r0(1) r1(1) r2_def [symmetric] r(2) by simp
  ultimately show ?thesis by blast
qed

end
