(* ===== verification/Large_Solver.thy ===== *)
theory Large_Solver
  imports Annealing_Result Initial_Chain
begin

text \<open>
  The annealing solver with its strategies, as \<open>src/solver/heuristic/annealing/solver.rs\<close> builds
  it, and the choice between it and the clustered solver for large requests. With the default
  strategies the start comes from the chain of initial constructions.
\<close>

record 'g simulated_annealing_solver =
  sa_config :: simulated_annealing_config
  sa_initial_strategy :: "'g initial_route_strategy"
  sa_neighborhood_strategy :: "'g rng \<Rightarrow> 'g neighborhood_strategy"
  sa_objective :: objective_policy

definition default_annealing_solver :: "'g shuffle \<Rightarrow> 'g simulated_annealing_solver" where
  "default_annealing_solver shuffle =
     \<lparr>sa_config = default_annealing_config, sa_initial_strategy = default_initial_route shuffle,
      sa_neighborhood_strategy = mixed_neighbor_for_problem, sa_objective = default_objective\<rparr>"

definition annealing_with_config ::
  "'g shuffle \<Rightarrow> simulated_annealing_config \<Rightarrow> solver_error + 'g simulated_annealing_solver" where
  "annealing_with_config shuffle config =
     bind_result (validate_annealing_config config) (\<lambda>c. Inr (default_annealing_solver shuffle \<lparr>sa_config := c\<rparr>))"

definition new_annealing_solver ::
  "simulated_annealing_config \<Rightarrow> 'g initial_route_strategy \<Rightarrow> ('g rng \<Rightarrow> 'g neighborhood_strategy) \<Rightarrow> objective_policy \<Rightarrow>
    solver_error + 'g simulated_annealing_solver" where
  "new_annealing_solver config initial moves obj =
     bind_result (validate_annealing_config config) (\<lambda>c.
       Inr \<lparr>sa_config = c, sa_initial_strategy = initial, sa_neighborhood_strategy = moves, sa_objective = obj\<rparr>)"

definition run_annealing_solver ::
  "'g annealing_env \<Rightarrow> 'g shuffle \<Rightarrow> 'g simulated_annealing_solver \<Rightarrow> solver_input \<Rightarrow> (solver_error + solver_solution) option" where
  "run_annealing_solver env shuffle s i =
     annealing_solve env (sa_objective s) (sa_initial_strategy s) shuffle
       (sa_neighborhood_strategy s (env_rng env)) (sa_config s) i"

definition annealing_selected_start_time ::
  "'g simulated_annealing_solver \<Rightarrow> solver_input \<Rightarrow> solver_solution \<Rightarrow> solver_error + time_of_day" where
  "annealing_selected_start_time s i sol =
     bind_result (evaluate_solution (sa_objective s) i sol) (selected_start_time (input_problem i))"

datatype 'g large_route_solver =
    LargeClustered clustered_solver
  | LargeAnnealing "'g simulated_annealing_solver"

fun large_solve ::
  "'g annealing_env \<Rightarrow> 'g shuffle \<Rightarrow> 'g large_route_solver \<Rightarrow> solver_input \<Rightarrow> (solver_error + solver_solution) option" where
  "large_solve env shuffle (LargeClustered solver) i = clustered_solve solver i"
| "large_solve env shuffle (LargeAnnealing solver) i = run_annealing_solver env shuffle solver i"

fun large_selected_start_time ::
  "'g large_route_solver \<Rightarrow> solver_input \<Rightarrow> solver_solution \<Rightarrow> solver_error + time_of_day" where
  "large_selected_start_time (LargeClustered solver) i sol = clustered_selected_start_time solver i sol"
| "large_selected_start_time (LargeAnnealing solver) i sol = annealing_selected_start_time solver i sol"

section \<open>The default start\<close>



section \<open>Properties\<close>



end
