(* ===== verification/Resources.thy ===== *)
theory Resources
  imports Prelude "HOL-Library.Multiset"
begin

text \<open>
  \<open>src/solver/portfolio/resources.rs\<close>: the resource manager that solver runs claim processor
  slots, process slots and memory from. Each claim and each release holds the mutex of the usage,
  so the runs of several threads are steps of one system, in any order. An addition that
  overflows is a panic.
\<close>

record resource_limits =
  limit_cpu_slots :: usize
  max_concurrent_runs :: usize
  max_external_processes :: usize
  memory_limit_bytes :: "u64 option"

record resource_request =
  request_cpu_slots :: usize
  native_threads :: usize
  request_processes :: usize
  request_memory :: "u64 option"

record resource_usage =
  used_cpu_slots :: usize
  active_runs :: usize
  used_processes :: usize
  used_memory :: u64

datatype resource_error =
    InvalidLimits
  | InvalidRequest
  | Unavailable
  | WaitCancelled
  | DeadlineExceeded

definition no_usage :: resource_usage where
  "no_usage = \<lparr>used_cpu_slots = 0, active_runs = 0, used_processes = 0, used_memory = 0\<rparr>"

definition new_manager :: "resource_limits \<Rightarrow> resource_error + resource_usage" where
  "new_manager l = (if limit_cpu_slots l = 0 \<or> max_concurrent_runs l = 0 then Inl InvalidLimits else Inr no_usage)"

definition validate_request :: "resource_limits \<Rightarrow> resource_request \<Rightarrow> resource_error + unit" where
  "validate_request l r =
     (if request_cpu_slots r = 0 \<or> native_threads r = 0 \<or> native_threads r > request_cpu_slots r \<or>
         request_cpu_slots r > limit_cpu_slots l \<or> request_processes r > max_external_processes l \<or>
         (case (request_memory r, memory_limit_bytes l) of (Some requested, Some most) \<Rightarrow> requested > most | _ \<Rightarrow> False)
      then Inl InvalidRequest else Inr ())"

definition hint :: "resource_request \<Rightarrow> u64" where
  "hint r = (case request_memory r of Some m \<Rightarrow> m | None \<Rightarrow> 0)"

definition fits :: "resource_limits \<Rightarrow> resource_usage \<Rightarrow> resource_request \<Rightarrow> bool" where
  "fits l u r \<longleftrightarrow>
     active_runs u < max_concurrent_runs l \<and>
     saturating_add_u64 (used_cpu_slots u) (request_cpu_slots r) \<le> limit_cpu_slots l \<and>
     saturating_add_u64 (used_processes u) (request_processes r) \<le> max_external_processes l \<and>
     (case memory_limit_bytes l of Some most \<Rightarrow> saturating_add_u64 (used_memory u) (hint r) \<le> most | None \<Rightarrow> True)"

text \<open>\<open>None\<close>: one of the plain additions overflows.\<close>

definition reserve :: "resource_usage \<Rightarrow> resource_request \<Rightarrow> resource_usage option" where
  "reserve u r =
     (case (checked_add_u64 (active_runs u) 1, checked_add_u64 (used_cpu_slots u) (request_cpu_slots r),
         checked_add_u64 (used_processes u) (request_processes r)) of
        (Some runs, Some slots, Some processes) \<Rightarrow>
          Some \<lparr>used_cpu_slots = slots, active_runs = runs, used_processes = processes,
            used_memory = saturating_add_u64 (used_memory u) (hint r)\<rparr>
      | _ \<Rightarrow> None)"

definition release :: "resource_usage \<Rightarrow> resource_request \<Rightarrow> resource_usage" where
  "release u r =
     \<lparr>used_cpu_slots = used_cpu_slots u - request_cpu_slots r, active_runs = active_runs u - 1,
      used_processes = used_processes u - request_processes r, used_memory = used_memory u - hint r\<rparr>"

record resource_lease =
  lease_request :: resource_request
  acquired_at :: nat

definition reserved_slot_ms :: "resource_lease \<Rightarrow> nat \<Rightarrow> u64" where
  "reserved_slot_ms l now_ms =
     saturating_mul_u64 (min (now_ms - acquired_at l) (2 ^ 64 - 1)) (request_cpu_slots (lease_request l))"

section \<open>Claims\<close>

datatype claim =
    Granted resource_usage resource_lease
  | Refused resource_error
  | Asleep
  | Overflowed

definition grant :: "resource_usage \<Rightarrow> resource_request \<Rightarrow> nat \<Rightarrow> claim" where
  "grant u r now = (case reserve u r of
     Some u' \<Rightarrow> Granted u' \<lparr>lease_request = r, acquired_at = now\<rparr> | None \<Rightarrow> Overflowed)"

definition try_acquire :: "resource_limits \<Rightarrow> resource_usage \<Rightarrow> resource_request \<Rightarrow> nat \<Rightarrow> claim" where
  "try_acquire l u r now =
     (case validate_request l r of
        Inl e \<Rightarrow> Refused e
      | Inr _ \<Rightarrow> if \<not> fits l u r then Refused Unavailable else grant u r now)"

text \<open>One round of the loop that waits; \<open>Asleep\<close> is the wait for a release or for five milliseconds.\<close>

definition acquire_round ::
  "resource_limits \<Rightarrow> nat \<Rightarrow> resource_request \<Rightarrow> bool \<Rightarrow> nat \<Rightarrow> resource_usage \<Rightarrow> claim" where
  "acquire_round l deadline r cancelled now u =
     (if cancelled then Refused WaitCancelled
      else if fits l u r then grant u r now
      else if deadline - now = 0 then Refused DeadlineExceeded
      else Asleep)"

fun acquire_rounds ::
  "resource_limits \<Rightarrow> nat \<Rightarrow> resource_request \<Rightarrow> (bool \<times> nat \<times> resource_usage) list \<Rightarrow> claim" where
  "acquire_rounds l deadline r [] = Asleep"
| "acquire_rounds l deadline r ((cancelled, now, u) # rounds) =
     (case acquire_round l deadline r cancelled now u of
        Asleep \<Rightarrow> acquire_rounds l deadline r rounds
      | c \<Rightarrow> c)"

text \<open>A whole call, over what it sees each time it holds the mutex; \<open>Asleep\<close> if it still waits.\<close>

definition acquire_until ::
  "resource_limits \<Rightarrow> nat \<Rightarrow> resource_request \<Rightarrow> (bool \<times> nat \<times> resource_usage) list \<Rightarrow> claim" where
  "acquire_until l deadline r rounds =
     (case validate_request l r of Inl e \<Rightarrow> Refused e | Inr _ \<Rightarrow> acquire_rounds l deadline r rounds)"

section \<open>The claimants\<close>

datatype claimant =
    Waiting resource_request nat
  | Leased resource_lease
  | Over "resource_error option"
  | Panicked

record resource_system =
  system_usage :: resource_usage
  system_time :: nat
  claimants :: "claimant list"

fun settled_claim :: "resource_request \<Rightarrow> nat \<Rightarrow> resource_usage \<Rightarrow> claim \<Rightarrow> resource_usage \<times> claimant" where
  "settled_claim r deadline u (Granted u' lease) = (u', Leased lease)"
| "settled_claim r deadline u (Refused e) = (u, Over (Some e))"
| "settled_claim r deadline u Asleep = (u, Waiting r deadline)"
| "settled_claim r deadline u Overflowed = (u, Panicked)"

text \<open>
  The steps: a thread tries to claim or begins to wait, a waiting thread takes the mutex again
  (its token may have been set), a lease is dropped, time passes.
\<close>

inductive resource_step :: "resource_limits \<Rightarrow> resource_system \<Rightarrow> resource_system \<Rightarrow> bool" for l where
  try_claim: "settled_claim r 0 (system_usage s) (try_acquire l (system_usage s) r (system_time s)) = (u, c) \<Longrightarrow>
    resource_step l s (s\<lparr>system_usage := u, claimants := claimants s @ [c]\<rparr>)"
| begin_wait: "validate_request l r = Inr () \<Longrightarrow>
    resource_step l s (s\<lparr>claimants := claimants s @ [Waiting r deadline]\<rparr>)"
| wake_up: "k < length (claimants s) \<Longrightarrow> claimants s ! k = Waiting r deadline \<Longrightarrow>
    settled_claim r deadline (system_usage s)
      (acquire_round l deadline r cancelled (system_time s) (system_usage s)) = (u, c) \<Longrightarrow>
    resource_step l s (s\<lparr>system_usage := u, claimants := (claimants s)[k := c]\<rparr>)"
| drop_lease: "k < length (claimants s) \<Longrightarrow> claimants s ! k = Leased lease \<Longrightarrow>
    resource_step l s (s\<lparr>system_usage := release (system_usage s) (lease_request lease),
      claimants := (claimants s)[k := Over None]\<rparr>)"
| pass_time: "resource_step l s (s\<lparr>system_time := system_time s + d\<rparr>)"

section \<open>The accounts\<close>

fun leased :: "claimant \<Rightarrow> resource_request list" where
  "leased (Leased lease) = [lease_request lease]"
| "leased _ = []"

definition held :: "claimant list \<Rightarrow> resource_request list" where
  "held cs = concat (map leased cs)"

text \<open>
  What the usage says is what the leases hold, and it is within the limits. The memory hints add
  up only under a limit below the largest number: without one their sum may saturate.
\<close>

definition usage_accounted :: "resource_limits \<Rightarrow> resource_usage \<Rightarrow> resource_request list \<Rightarrow> bool" where
  "usage_accounted l u rs \<longleftrightarrow>
     active_runs u = length rs \<and> active_runs u \<le> max_concurrent_runs l \<and>
     used_cpu_slots u = sum_list (map request_cpu_slots rs) \<and> used_cpu_slots u \<le> limit_cpu_slots l \<and>
     used_processes u = sum_list (map request_processes rs) \<and> used_processes u \<le> max_external_processes l \<and>
     (\<forall>most. memory_limit_bytes l = Some most \<longrightarrow> used_memory u \<le> most \<and>
       (most < 2 ^ 64 - 1 \<longrightarrow> used_memory u = sum_list (map hint rs)))"

text \<open>The limits leave room below the largest \<open>usize\<close>, as every sensible configuration does.\<close>

definition sensible_limits :: "resource_limits \<Rightarrow> bool" where
  "sensible_limits l \<longleftrightarrow> limit_cpu_slots l < 2 ^ 64 - 1 \<and> max_external_processes l < 2 ^ 64 - 1 \<and>
     max_concurrent_runs l < 2 ^ 64"

lemma held_simps [simp]: "held [] = []" "held (c # cs) = leased c @ held cs" "held (cs @ ds) = held cs @ held ds"
  by (simp_all add: held_def)

lemma mset_held_update:
  assumes "k < length cs"
  shows "mset (held cs) + mset (leased c) = mset (held (cs[k := c])) + mset (leased (cs ! k))"
proof -
  have "held cs = held (take k cs) @ leased (cs ! k) @ held (drop (Suc k) cs)"
    using arg_cong [OF id_take_nth_drop [OF assms], of held] by simp
  moreover have "held (cs[k := c]) = held (take k cs) @ leased c @ held (drop (Suc k) cs)"
    using assms by (simp add: upd_conv_take_nth_drop)
  ultimately show ?thesis by simp
qed

lemma sum_list_perm: "mset xs = mset ys \<Longrightarrow> sum_list (map f xs) = (sum_list (map f ys) :: nat)"
  by (metis mset_map sum_mset_sum_list)

lemma accounted_perm: "usage_accounted l u rs \<Longrightarrow> mset rs = mset rs' \<Longrightarrow> usage_accounted l u rs'"
  using sum_list_perm [of rs rs'] by (auto simp: usage_accounted_def dest: mset_eq_length)

lemma saturating_small: "saturating_add_u64 a b \<le> c \<Longrightarrow> c < 2 ^ 64 - 1 \<Longrightarrow> saturating_add_u64 a b = a + b"
  by (auto simp: saturating_add_u64_def min_def split: if_splits)

lemma granted_accounted:
  assumes l: "sensible_limits l" and acc: "usage_accounted l u rs" and fit: "fits l u r"
  shows "\<exists>u'. grant u r now = Granted u' \<lparr>lease_request = r, acquired_at = now\<rparr> \<and> usage_accounted l u' (r # rs)"
proof -
  have s: "saturating_add_u64 (used_cpu_slots u) (request_cpu_slots r) = used_cpu_slots u + request_cpu_slots r"
    "saturating_add_u64 (used_processes u) (request_processes r) = used_processes u + request_processes r"
    using l fit by (auto simp: sensible_limits_def fits_def intro: saturating_small)
  have small: "active_runs u + 1 < 2 ^ 64" "used_cpu_slots u + request_cpu_slots r < 2 ^ 64"
    "used_processes u + request_processes r < 2 ^ 64"
    using l fit s by (auto simp: sensible_limits_def fits_def)
  then have "reserve u r = Some \<lparr>used_cpu_slots = used_cpu_slots u + request_cpu_slots r, active_runs = active_runs u + 1,
      used_processes = used_processes u + request_processes r,
      used_memory = saturating_add_u64 (used_memory u) (hint r)\<rparr>"
    by (simp add: reserve_def checked_add_u64_def)
  moreover have "saturating_add_u64 (used_memory u) (hint r) \<le> most \<and>
      (most < 2 ^ 64 - 1 \<longrightarrow> saturating_add_u64 (used_memory u) (hint r) = hint r + sum_list (map hint rs))"
    if "memory_limit_bytes l = Some most" for most
    using that acc fit saturating_small [of "used_memory u" "hint r" most] by (auto simp: usage_accounted_def fits_def)
  ultimately show ?thesis
    using acc fit s by (auto simp: grant_def usage_accounted_def fits_def)
qed

lemma released_accounted:
  assumes "usage_accounted l u (r # rs)"
  shows "usage_accounted l (release u r) rs"
  using assms by (auto simp: usage_accounted_def release_def)

definition system_ok :: "resource_limits \<Rightarrow> resource_system \<Rightarrow> bool" where
  "system_ok l s \<longleftrightarrow> usage_accounted l (system_usage s) (held (claimants s)) \<and> Panicked \<notin> set (claimants s)"

text \<open>A claim that is settled leaves the accounts in order.\<close>

lemma settled_ok:
  assumes l: "sensible_limits l" and acc: "usage_accounted l u rs"
    and c: "c = grant u r now \<and> fits l u r \<or> (\<exists>e. c = Refused e) \<or> c = Asleep"
    and out: "settled_claim r deadline u c = (u', d)"
  shows "usage_accounted l u' (leased d @ rs) \<and> d \<noteq> Panicked"
  using c granted_accounted [OF l acc, of r now] acc out by auto

lemma try_acquire_cases:
  "try_acquire l u r now = grant u r now \<and> fits l u r \<or> (\<exists>e. try_acquire l u r now = Refused e)"
  by (auto simp: try_acquire_def split: sum.splits)

lemma acquire_round_cases:
  "acquire_round l deadline r cancelled now u = grant u r now \<and> fits l u r \<or>
    (\<exists>e. acquire_round l deadline r cancelled now u = Refused e) \<or> acquire_round l deadline r cancelled now u = Asleep"
  by (auto simp: acquire_round_def)

lemma resource_step_ok:
  assumes l: "sensible_limits l" and ok: "system_ok l s" and step: "resource_step l s s'"
  shows "system_ok l s'"
  using step
proof cases
  case (try_claim r u c)
  from settled_ok [OF l _ _ try_claim(2), of "held (claimants s)"] ok try_acquire_cases
  have "usage_accounted l u (leased c @ held (claimants s)) \<and> c \<noteq> Panicked" by (simp add: system_ok_def) blast
  then show ?thesis
    using ok accounted_perm [of l u "leased c @ held (claimants s)" "held (claimants s) @ leased c"]
    by (auto simp: try_claim(1) system_ok_def)
next
  case (begin_wait r deadline)
  then show ?thesis using ok by (simp add: system_ok_def)
next
  case (wake_up k r deadline cancelled u c)
  from settled_ok [OF l _ _ wake_up(4), of "held (claimants s)"] ok acquire_round_cases
  have "usage_accounted l u (leased c @ held (claimants s)) \<and> c \<noteq> Panicked" by (simp add: system_ok_def) blast
  moreover have "mset (leased c @ held (claimants s)) = mset (held ((claimants s)[k := c]))"
    using mset_held_update [OF wake_up(2), of c] wake_up(3) by (simp add: add.commute)
  ultimately show ?thesis
    using ok accounted_perm set_update_subset_insert [of "claimants s" k c] by (fastforce simp: wake_up(1) system_ok_def)
next
  case (drop_lease k lease)
  have "mset (held (claimants s)) = mset (lease_request lease # held ((claimants s)[k := Over None]))"
    using mset_held_update [OF drop_lease(2), of "Over None"] drop_lease(3) by simp
  then have "usage_accounted l (system_usage s) (lease_request lease # held ((claimants s)[k := Over None]))"
    using ok accounted_perm by (auto simp: system_ok_def)
  then show ?thesis
    using ok released_accounted set_update_subset_insert [of "claimants s" k "Over None"]
    by (fastforce simp: drop_lease(1) system_ok_def)
next
  case (pass_time d)
  then show ?thesis using ok by (simp add: system_ok_def)
qed

section \<open>Properties\<close>

text \<open>
  C17. Resources are never overcommitted: from an idle manager whose limits for slots and processes
  are below the largest machine word, whatever the threads claim, wait for, are granted and drop, in any
  order, the recorded slots, runs and processes are exactly those of the leases that are held and
  within the limits, the memory stays within its limit, and no addition of the accounts overflows;
  when no lease is held, no slot, run or process is in use.
\<close>

theorem resources_never_overcommitted:
  assumes "sensible_limits l" and "new_manager l = Inr u0"
    and "(resource_step l)\<^sup>*\<^sup>* \<lparr>system_usage = u0, system_time = t, claimants = []\<rparr> s"
  shows "usage_accounted l (system_usage s) (held (claimants s)) \<and> Panicked \<notin> set (claimants s) \<and>
    (held (claimants s) = [] \<longrightarrow> active_runs (system_usage s) = 0 \<and> used_cpu_slots (system_usage s) = 0 \<and>
      used_processes (system_usage s) = 0)"
proof -
  have "system_ok l s"
    using assms(3)
  proof (induction rule: rtranclp_induct)
    case base
    then show ?case
      using assms(2) by (auto simp: system_ok_def new_manager_def no_usage_def usage_accounted_def split: if_splits)
  next
    case (step s s')
    then show ?case using resource_step_ok [OF assms(1)] by blast
  qed
  then show ?thesis by (auto simp: system_ok_def usage_accounted_def)
qed

definition sample_limits :: resource_limits where
  "sample_limits = \<lparr>limit_cpu_slots = 4, max_concurrent_runs = 4, max_external_processes = 1, memory_limit_bytes = None\<rparr>"

definition three_slots :: resource_request where
  "three_slots = \<lparr>request_cpu_slots = 3, native_threads = 3, request_processes = 0, request_memory = None\<rparr>"

theorem resources_never_overcommitted_witness:
  "\<exists>s :: resource_system. held (claimants s) = [three_slots] \<and> used_cpu_slots (system_usage s) = 3 \<and> used_cpu_slots (system_usage s) \<le> 4"
proof -
  let ?start = "\<lparr>system_usage = no_usage, system_time = 0, claimants = []\<rparr>"
  let ?lease = "\<lparr>lease_request = three_slots, acquired_at = 0\<rparr>"
  let ?u = "\<lparr>used_cpu_slots = 3, active_runs = 1, used_processes = 0, used_memory = 0\<rparr>"
  let ?s = "?start \<lparr>system_usage := ?u, claimants := claimants ?start @ [Leased ?lease]\<rparr>"
  have "fits sample_limits no_usage three_slots"
    by (simp add: fits_def saturating_add_u64_def hint_def three_slots_def sample_limits_def no_usage_def)
  moreover have "validate_request sample_limits three_slots = Inr ()"
    by (simp add: validate_request_def three_slots_def sample_limits_def)
  moreover have "reserve no_usage three_slots = Some ?u"
    by (simp add: reserve_def saturating_add_u64_def checked_add_u64_def hint_def three_slots_def no_usage_def)
  ultimately have "settled_claim three_slots 0 (system_usage ?start)
      (try_acquire sample_limits (system_usage ?start) three_slots (system_time ?start)) = (?u, Leased ?lease)"
    by (simp add: try_acquire_def grant_def)
  then have "resource_step sample_limits ?start ?s" by (rule resource_step.try_claim)
  then have "(resource_step sample_limits)\<^sup>*\<^sup>* ?start ?s" by (rule r_into_rtranclp)
  have "sensible_limits sample_limits" "new_manager sample_limits = Inr no_usage"
    by (simp_all add: sensible_limits_def sample_limits_def new_manager_def)
  from resources_never_overcommitted [OF this \<open>(resource_step sample_limits)\<^sup>*\<^sup>* ?start ?s\<close>]
  show ?thesis by (intro exI [of _ ?s]) (simp add: usage_accounted_def three_slots_def sample_limits_def)
qed

text \<open>
  Waiting for resources ends: a call that is woken once at or after its deadline returns, with
  a lease only if the request fitted within the limits when it was granted, and with the deadline
  error or the cancellation otherwise; an invalid request is refused before any wait.
\<close>

lemma acquire_until_ends:
  assumes "\<exists>(cancelled, now, u)\<in>set rounds. deadline \<le> now"
  shows "acquire_until l deadline r rounds \<noteq> Asleep \<and>
    (\<forall>u' lease. acquire_until l deadline r rounds = Granted u' lease \<longrightarrow>
      validate_request l r = Inr () \<and> lease_request lease = r \<and>
      (\<exists>(cancelled, now, u)\<in>set rounds. \<not> cancelled \<and> fits l u r \<and> reserve u r = Some u' \<and> acquired_at lease = now))"
proof -
  have "acquire_rounds l deadline r rounds \<noteq> Asleep"
    using assms
  proof (induction rounds)
    case (Cons round rounds)
    obtain cancelled now u where round: "round = (cancelled, now, u)" by (cases round)
    show ?case
    proof (cases "deadline \<le> now")
      case True
      then show ?thesis by (auto simp: round acquire_round_def grant_def split: claim.splits option.splits)
    next
      case False
      then have "acquire_rounds l deadline r rounds \<noteq> Asleep" using Cons round by auto
      then show ?thesis by (simp add: round split: claim.splits)
    qed
  qed simp
  moreover have "lease_request lease = r \<and>
      (\<exists>(cancelled, now, u)\<in>set rounds. \<not> cancelled \<and> fits l u r \<and> reserve u r = Some u' \<and> acquired_at lease = now)"
    if "acquire_rounds l deadline r rounds = Granted u' lease" for u' lease
    using that by (induction rounds) (auto simp: acquire_round_def grant_def split: claim.splits option.splits if_splits)
  ultimately show ?thesis by (simp add: acquire_until_def split: sum.splits)
qed

end
