(* ===== verification/Policy.thy ===== *)
theory Policy
  imports Neighbor Text
begin

text \<open>
  \<open>src/solver/portfolio/policy.rs\<close>: the policies that decide which restartable arm runs next. The
  mathematical functions whose precision the standard library leaves open, and the sign that the
  machine gives to a value that is not a number, are parameters. A drawing or a rotation that
  never ends is \<open>None\<close>.
\<close>

section \<open>Policies\<close>

datatype portfolio_policy =
    Current
  | ParallelAll
  | RoundRobin
  | WeightedFair
  | Racing
  | Ucb1
  | ThompsonSampling
  | InstanceAware

definition all_policies :: "portfolio_policy list" where
  "all_policies = [Current, ParallelAll, RoundRobin, WeightedFair, Racing, Ucb1, ThompsonSampling, InstanceAware]"

fun policy_str :: "portfolio_policy \<Rightarrow> string" where
  "policy_str Current = ''CURRENT''"
| "policy_str ParallelAll = ''PARALLEL_ALL''"
| "policy_str RoundRobin = ''ROUND_ROBIN''"
| "policy_str WeightedFair = ''WEIGHTED_FAIR''"
| "policy_str Racing = ''RACING''"
| "policy_str Ucb1 = ''UCB1''"
| "policy_str ThompsonSampling = ''THOMPSON_SAMPLING''"
| "policy_str InstanceAware = ''INSTANCE_AWARE''"

text \<open>The error carries the text that is no policy.\<close>

definition policy_from_str :: "string \<Rightarrow> string + portfolio_policy" where
  "policy_from_str v = ok_or v (find (\<lambda>p. eq_ignore_ascii_case (policy_str p) (trim v)) all_policies)"

record policy_descriptor =
  pd_id :: portfolio_policy
  pd_name :: string
  pd_version :: string
  pd_preemptive :: bool
  pd_description :: string

fun policy_description :: "portfolio_policy \<Rightarrow> string" where
  "policy_description Current = ''Legacy exact-first and chunked-SA behavior.''"
| "policy_description ParallelAll = ''Launch every applicable solver within resource caps.''"
| "policy_description RoundRobin = ''Rotate restartable arms; long-running solvers are non-preemptible.''"
| "policy_description WeightedFair = ''Allocate restartable run slot-time by configured weights.''"
| "policy_description Racing = ''Eliminate weak restartable arms after deterministic warm-up.''"
| "policy_description Ucb1 = ''Select restartable arms with duration-aligned UCB1 rewards.''"
| "policy_description ThompsonSampling = ''Sample Bernoulli improvement posteriors with a fixed seed.''"
| "policy_description InstanceAware = ''Choose a deterministic rule from input-only instance features.''"

definition policy_descriptors :: "policy_descriptor list" where
  "policy_descriptors = map (\<lambda>p.
     \<lparr>pd_id = p, pd_name = map (\<lambda>c. if c = CHR ''_'' then CHR '' '' else c) (policy_str p),
      pd_version = ''1'', pd_preemptive = False, pd_description = policy_description p\<rparr>) all_policies"

section \<open>Configuration\<close>

record math_env =
  fl_sqrt :: "float64 \<Rightarrow> float64"
  fl_ln :: "float64 \<Rightarrow> float64"
  fl_cos :: "float64 \<Rightarrow> float64"
  fl_powf :: "float64 \<Rightarrow> float64 \<Rightarrow> float64"
  fl_powi :: "float64 \<Rightarrow> int \<Rightarrow> float64"
  fl_nan_negative :: bool

record policy_config =
  pc_policy :: portfolio_policy
  policy_version :: string
  pc_seed :: u64
  min_quantum_ms :: u64
  racing_warmup_runs :: usize
  ucb_exploration :: float64
  min_exploration_ratio :: float64
  max_starvation_runs :: u64
  weights :: "(string \<times> float64) list"

definition default_policy_config :: "math_env \<Rightarrow> policy_config" where
  "default_policy_config env =
     \<lparr>pc_policy = Current, policy_version = ''1'', pc_seed = 42, min_quantum_ms = 250, racing_warmup_runs = 1,
      ucb_exploration = fl_sqrt env (literal 2), min_exploration_ratio = literal (1 / 10), max_starvation_runs = 8,
      weights = []\<rparr>"

definition valid_policy_config :: "policy_config \<Rightarrow> bool" where
  "valid_policy_config c \<longleftrightarrow>
     \<not> (min_quantum_ms c = 0 \<or> racing_warmup_runs c = 0 \<or>
        \<not> is_finite64 (ucb_exploration c) \<or> float_le (ucb_exploration c) float_zero \<or>
        \<not> is_finite64 (min_exploration_ratio c) \<or>
        \<not> (float_le float_zero (min_exploration_ratio c) \<and> float_le (min_exploration_ratio c) float_one) \<or>
        max_starvation_runs c = 0 \<or>
        list_ex (\<lambda>(_, w). \<not> is_finite64 w \<or> float_le w float_zero) (weights c))"

section \<open>Arms\<close>

record arm_state =
  arm_solver_id :: string
  run_count :: u64
  total_reserved_slot_ms :: u64
  total_observed_wall_ms :: u64
  improvement_count :: u64
  reward_sum :: float64
  reward_mean :: float64
  last_updated_ms :: u64
  arm_available :: bool

definition new_arm_state :: "string \<Rightarrow> arm_state" where
  "new_arm_state solver =
     \<lparr>arm_solver_id = solver, run_count = 0, total_reserved_slot_ms = 0, total_observed_wall_ms = 0,
      improvement_count = 0, reward_sum = float_zero, reward_mean = float_zero, last_updated_ms = 0, arm_available = True\<rparr>"

definition float_clamp :: "float64 \<Rightarrow> float64 \<Rightarrow> float64 \<Rightarrow> float64" where
  "float_clamp x low high = (if float_less x low then low else if float_less high x then high else x)"

definition arm_observe :: "float64 \<Rightarrow> u64 \<Rightarrow> u64 \<Rightarrow> u64 \<Rightarrow> arm_state \<Rightarrow> arm_state" where
  "arm_observe reward wall_ms reserved_slot_ms now_ms a =
     (let runs = run_count a + 1; total = float_add (reward_sum a) (float_clamp reward float_zero float_one) in
      a\<lparr>run_count := runs,
        total_observed_wall_ms := saturating_add_u64 (total_observed_wall_ms a) wall_ms,
        total_reserved_slot_ms := saturating_add_u64 (total_reserved_slot_ms a) reserved_slot_ms,
        reward_sum := total, reward_mean := float_div total (float_of_nat runs),
        improvement_count := improvement_count a + (if float_less float_zero reward then 1 else 0),
        last_updated_ms := now_ms\<rparr>)"

record arm_selection =
  selected_arm :: string
  selected_score :: "float64 option"
  selected_reason :: string

record arm_elimination =
  elim_arm :: string
  elim_samples :: u64
  elim_reason :: string
  elim_saved_ms :: u64

record selectable_arm =
  arm_id :: string
  arm_state :: arm_state
  eliminated :: bool
  last_pulled_at :: u64

record 'g arm_selector =
  sel_config :: policy_config
  arms :: "selectable_arm list"
  cursor :: usize
  total_completed :: u64
  racing_stage_target :: u64
  sel_rng :: 'g

datatype arm_selection_error =
    InvalidArms
  | InvalidPolicyConfiguration
  | NoAvailableArm
  | UnknownArm string
  | EliminatedArm string

definition new_selector ::
  "(u64 \<Rightarrow> 'g) \<Rightarrow> policy_config \<Rightarrow> string list \<Rightarrow> arm_selection_error + 'g arm_selector" where
  "new_selector seeded c ids =
     (if \<not> valid_policy_config c then Inl InvalidPolicyConfiguration
      else if ids = [] \<or> \<not> distinct ids \<or> list_ex (\<lambda>i. trim i = []) ids then Inl InvalidArms
      else Inr \<lparr>sel_config = c,
          arms = map (\<lambda>i. \<lparr>arm_id = i, arm_state = new_arm_state ''sa'', eliminated = False, last_pulled_at = 0\<rparr>) ids,
          cursor = 0, total_completed = 0, racing_stage_target = racing_warmup_runs c, sel_rng = seeded (pc_seed c)\<rparr>)"

definition active_indices :: "'g arm_selector \<Rightarrow> usize list" where
  "active_indices s = filter (\<lambda>k. \<not> eliminated (arms s ! k)) [0..<length (arms s)]"

abbreviation runs_of :: "'g arm_selector \<Rightarrow> usize \<Rightarrow> u64" where
  "runs_of s k \<equiv> run_count (arm_state (arms s ! k))"

section \<open>Scores\<close>

text \<open>\<open>f64::total_cmp\<close>.\<close>

definition total_key :: "bool \<Rightarrow> float64 \<Rightarrow> rat list" where
  "total_key nan_negative x = (case x of
     NaN64 \<Rightarrow> [if nan_negative then - 2 else 2]
   | Infinite64 s \<Rightarrow> [if s then - 1 else 1]
   | Finite64 s a \<Rightarrow> [0, signed s a, if s then 0 else 1])"

definition float_total_cmp :: "math_env \<Rightarrow> float64 \<Rightarrow> float64 \<Rightarrow> ordering" where
  "float_total_cmp env x y = lex_cmp (total_key (fl_nan_negative env) x) (total_key (fl_nan_negative env) y)"

text \<open>\<open>Iterator::max_by\<close> keeps the last of the greatest.\<close>

fun max_by :: "('a \<Rightarrow> 'a \<Rightarrow> ordering) \<Rightarrow> 'a list \<Rightarrow> 'a option" where
  "max_by c [] = None"
| "max_by c (x # xs) = Some (foldl (\<lambda>best y. if c best y = Greater then best else y) x xs)"

definition configured_weight :: "'g arm_selector \<Rightarrow> usize \<Rightarrow> float64" where
  "configured_weight s k =
     (let ws = map_of (weights (sel_config s)); name = arm_id (arms s ! k) in
      case ws name of Some w \<Rightarrow> w
      | None \<Rightarrow> (case ws (''sa:'' @ name) of Some w \<Rightarrow> w | None \<Rightarrow> float_one))"

definition weighted_virtual_time :: "'g arm_selector \<Rightarrow> usize \<Rightarrow> float64" where
  "weighted_virtual_time s k =
     float_div (float_of_nat (total_reserved_slot_ms (arm_state (arms s ! k)))) (configured_weight s k)"

definition ucb_score :: "math_env \<Rightarrow> 'g arm_selector \<Rightarrow> usize \<Rightarrow> float64 \<Rightarrow> float64" where
  "ucb_score env s k completed =
     (let a = arm_state (arms s ! k) in
      if run_count a = 0 then Infinite64 False
      else float_add (reward_mean a) (float_mul (ucb_exploration (sel_config s))
        (fl_sqrt env (float_div (fl_ln env completed) (float_of_nat (run_count a))))))"

section \<open>Samples\<close>

definition float_max :: "float64 \<Rightarrow> float64 \<Rightarrow> float64" where
  "float_max x y = (if x = NaN64 then y else if y = NaN64 then x else if float_less x y then y else x)"

definition min_positive :: float64 where
  "min_positive = Finite64 False (two_to (- 1022))"

definition tau :: float64 where
  "tau = literal (628318530717958647692528676655900577 / 10 ^ 35)"

text \<open>One attempt of the rejection loop: a sample, or the next attempt.\<close>

definition gamma_attempt :: "math_env \<Rightarrow> 'g rng \<Rightarrow> float64 \<Rightarrow> float64 \<Rightarrow> 'g \<Rightarrow> float64 option \<times> 'g" where
  "gamma_attempt env r d c g =
     (let (a, g1) = gen_unit r g; (b, g2) = gen_unit r g1;
          normal = float_mul
            (fl_sqrt env (float_mul (literal (- 2)) (fl_ln env (float_max a min_positive))))
            (fl_cos env (float_mul tau b));
          factor = float_add float_one (float_mul c normal)
      in if float_le factor float_zero then (None, g2)
      else let v = float_mul (float_mul factor factor) factor; (acceptance, g3) = gen_unit r g2 in
        if float_less acceptance (float_sub float_one (float_mul (literal (331 / 10000)) (fl_powi env normal 4))) \<or>
          float_less (fl_ln env acceptance)
            (float_add (float_mul (float_mul (literal (1 / 2)) normal) normal)
              (float_mul d (float_add (float_sub float_one v) (fl_ln env v))))
        then (Some (float_mul d v), g3) else (None, g3))"

definition gamma_loop :: "math_env \<Rightarrow> 'g rng \<Rightarrow> float64 \<Rightarrow> float64 \<Rightarrow> 'g \<Rightarrow> (float64 \<times> 'g) option" where
  "gamma_loop env r d c g =
     map_option (\<lambda>(v, g'). (the v, g'))
       (while_option (\<lambda>(v, _). v = None) (\<lambda>(_, g'). gamma_attempt env r d c g') (None, g))"

partial_function (option) sample_gamma :: "math_env \<Rightarrow> 'g rng \<Rightarrow> float64 \<Rightarrow> 'g \<Rightarrow> (float64 \<times> 'g) option" where
  "sample_gamma env r shape g =
     (if float_less shape float_one
      then let (a, g1) = gen_unit r g; u = float_max a min_positive in
        Option.bind (sample_gamma env r (float_add shape float_one) g1) (\<lambda>(v, g2).
          Some (float_mul v (fl_powf env u (float_div float_one shape)), g2))
      else let d = float_sub shape (float_div float_one (literal 3));
               c = float_div float_one (fl_sqrt env (float_mul (literal 9) d))
        in gamma_loop env r d c g)"

definition sample_beta :: "math_env \<Rightarrow> 'g rng \<Rightarrow> float64 \<Rightarrow> float64 \<Rightarrow> 'g \<Rightarrow> (float64 \<times> 'g) option" where
  "sample_beta env r alpha beta g =
     Option.bind (sample_gamma env r alpha g) (\<lambda>(left, g1).
     Option.bind (sample_gamma env r beta g1) (\<lambda>(right, g2).
       let both = float_add left right in
       Some (if float_le both float_zero \<and> float_le float_zero both then literal (1 / 2) else float_div left both, g2)))"

section \<open>Selection\<close>

definition selection :: "'g arm_selector \<Rightarrow> usize \<Rightarrow> float64 option \<Rightarrow> string \<Rightarrow> arm_selection" where
  "selection s k the_score reason =
     \<lparr>selected_arm = arm_id (arms s ! k), selected_score = the_score, selected_reason = reason\<rparr>"

definition unplayed_arm :: "'g arm_selector \<Rightarrow> usize option" where
  "unplayed_arm s = find (\<lambda>k. \<not> eliminated (arms s ! k) \<and> runs_of s k = 0) [0..<length (arms s)]"

definition starving_arm :: "'g arm_selector \<Rightarrow> usize option" where
  "starving_arm s =
     find (\<lambda>k. total_completed s - last_pulled_at (arms s ! k) \<ge> max_starvation_runs (sel_config s)) (active_indices s)"

text \<open>The arm of fewest runs, the first one of several.\<close>

definition least_run :: "'g arm_selector \<Rightarrow> usize option" where
  "least_run s =
     min_by (\<lambda>left right. then_ordering (cmp (runs_of s left) (runs_of s right)) (cmp left right)) (active_indices s)"

definition underplayed_arm :: "'g arm_selector \<Rightarrow> (usize \<times> float64) option" where
  "underplayed_arm s =
     (let least = float_div (min_exploration_ratio (sel_config s)) (float_of_nat (max (length (active_indices s)) 1)) in
      case least_run s of
        None \<Rightarrow> None
      | Some k \<Rightarrow>
          let share = float_div (float_of_nat (runs_of s k)) (float_of_nat (max (total_completed s) 1)) in
          if float_less share least then Some (k, share) else None)"

definition next_round_robin :: "'g arm_selector \<Rightarrow> (usize \<times> 'g arm_selector) option" where
  "next_round_robin s =
     (let n = length (arms s) in
      map_option (\<lambda>c. (c mod n, s\<lparr>cursor := (c + 1) mod 2 ^ 64\<rparr>))
        (while_option (\<lambda>c. eliminated (arms s ! (c mod n))) (\<lambda>c. (c + 1) mod 2 ^ 64) (cursor s)))"

fun thompson_scan ::
  "math_env \<Rightarrow> 'g rng \<Rightarrow> 'g arm_selector \<Rightarrow> usize list \<Rightarrow> (usize \<times> float64) option \<Rightarrow> 'g \<Rightarrow>
    ((usize \<times> float64) option \<times> 'g) option" where
  "thompson_scan env r s [] best g = Some (best, g)"
| "thompson_scan env r s (k # ks) best g =
     (let a = arm_state (arms s ! k);
          alpha = float_add float_one (float_of_nat (improvement_count a));
          beta = float_add float_one (float_of_nat (run_count a - improvement_count a)) in
      case sample_beta env r alpha beta g of
        None \<Rightarrow> None
      | Some (sampled, g') \<Rightarrow>
          let better = (case best of None \<Rightarrow> True | Some (_, current) \<Rightarrow> float_less current sampled) in
          thompson_scan env r s ks (if better then Some (k, sampled) else best) g')"

text \<open>The last part of \<open>select\<close>: what the configured policy prefers.\<close>

definition policy_select ::
  "math_env \<Rightarrow> 'g rng \<Rightarrow> 'g arm_selector \<Rightarrow> ((arm_selection_error + arm_selection) \<times> 'g arm_selector) option" where
  "policy_select env r s =
     (let total = float_of_nat (max (total_completed s) 1);
          scored = (\<lambda>k score_of reason. Some (Inr (selection s k (Some score_of) reason), s));
          none = Some (Inl NoAvailableArm, s)
      in if pc_policy (sel_config s) = WeightedFair \<or> pc_policy (sel_config s) = InstanceAware then
        (case min_by (\<lambda>left right. then_ordering
             (float_total_cmp env (weighted_virtual_time s left) (weighted_virtual_time s right)) (cmp left right))
             (active_indices s) of
           None \<Rightarrow> none
         | Some k \<Rightarrow> scored k (weighted_virtual_time s k) ''lowest weighted virtual slot-time'')
      else if pc_policy (sel_config s) = Racing then
        (case least_run s of
           None \<Rightarrow> none | Some k \<Rightarrow> scored k (reward_mean (arm_state (arms s ! k))) ''active racing arm'')
      else if pc_policy (sel_config s) = Ucb1 then
        (case max_by (\<lambda>left right. then_ordering
             (float_total_cmp env (ucb_score env s left total) (ucb_score env s right total)) (cmp right left))
             (active_indices s) of
           None \<Rightarrow> none | Some k \<Rightarrow> scored k (ucb_score env s k total) ''highest UCB1 score'')
      else if pc_policy (sel_config s) = ThompsonSampling then
        (case thompson_scan env r s (active_indices s) None (sel_rng s) of
           None \<Rightarrow> None
         | Some (best, g) \<Rightarrow>
             let s' = s\<lparr>sel_rng := g\<rparr> in
             (case best of
                None \<Rightarrow> Some (Inl NoAvailableArm, s')
              | Some (k, sampled) \<Rightarrow> Some (Inr (selection s' k (Some sampled) ''Beta posterior sample''), s')))
      else map_option (\<lambda>(k, s'). (Inr (selection s' k None ''round-robin rotation''), s')) (next_round_robin s))"

definition select ::
  "math_env \<Rightarrow> 'g rng \<Rightarrow> 'g arm_selector \<Rightarrow> ((arm_selection_error + arm_selection) \<times> 'g arm_selector) option" where
  "select env r s =
     (if list_all eliminated (arms s) then Some (Inl NoAvailableArm, s)
      else case unplayed_arm s of
        Some k \<Rightarrow> Some (Inr (selection s k None ''initial exploration''), s)
      | None \<Rightarrow>
      (case starving_arm s of
        Some k \<Rightarrow> Some (Inr (selection s k None ''maximum starvation interval''), s)
      | None \<Rightarrow>
      (case underplayed_arm s of
        Some (k, share) \<Rightarrow> Some (Inr (selection s k (Some share) ''minimum exploration share''), s)
      | None \<Rightarrow> policy_select env r s)))"

section \<open>Observation\<close>

definition eliminate_arm :: "usize \<Rightarrow> selectable_arm list \<Rightarrow> selectable_arm list" where
  "eliminate_arm k as = as[k := (as ! k)\<lparr>eliminated := True, arm_state := (arm_state (as ! k))\<lparr>arm_available := False\<rparr>\<rparr>]"

definition elimination_of :: "'g arm_selector \<Rightarrow> usize \<Rightarrow> arm_elimination" where
  "elimination_of s k =
     \<lparr>elim_arm = arm_id (arms s ! k), elim_samples = runs_of s k,
      elim_reason = ''lower mean validated-improvement reward after racing stage'',
      elim_saved_ms = saturating_mul_u64 (min_quantum_ms (sel_config s)) (racing_stage_target s)\<rparr>"

text \<open>A stage goes on until every arm in the race has had its runs; then the better half stays.\<close>

definition stage_goes_on :: "'g arm_selector \<Rightarrow> bool" where
  "stage_goes_on s \<longleftrightarrow> length (active_indices s) \<le> 1 \<or>
     list_ex (\<lambda>k. runs_of s k < racing_stage_target s) (active_indices s)"

definition racing_losers :: "math_env \<Rightarrow> 'g arm_selector \<Rightarrow> usize list" where
  "racing_losers env s =
     (let ranked = sort_by (\<lambda>left right. then_ordering
            (float_total_cmp env (reward_mean (arm_state (arms s ! right))) (reward_mean (arm_state (arms s ! left))))
            (cmp left right)) (active_indices s)
      in drop (div_ceil (length ranked) 2) ranked)"

definition advance_racing_stage :: "math_env \<Rightarrow> 'g arm_selector \<Rightarrow> arm_elimination list \<times> 'g arm_selector" where
  "advance_racing_stage env s =
     (if stage_goes_on s then ([], s)
      else (map (elimination_of s) (racing_losers env s),
        s\<lparr>arms := fold eliminate_arm (racing_losers env s) (arms s),
          racing_stage_target := max (saturating_mul_u64 (racing_stage_target s) 2) 1\<rparr>))"

definition observe ::
  "math_env \<Rightarrow> string \<Rightarrow> float64 \<Rightarrow> u64 \<Rightarrow> u64 \<Rightarrow> u64 \<Rightarrow> 'g arm_selector \<Rightarrow>
    (arm_selection_error + arm_elimination list) \<times> 'g arm_selector" where
  "observe env name reward wall_ms reserved_slot_ms now_ms s =
     (case find (\<lambda>k. arm_id (arms s ! k) = name) [0..<length (arms s)] of
        None \<Rightarrow> (Inl (UnknownArm name), s)
      | Some k \<Rightarrow>
          if eliminated (arms s ! k) then (Inl (EliminatedArm name), s)
          else
            let total = total_completed s + 1; a = arms s ! k;
                pulled = a\<lparr>arm_state := arm_observe reward wall_ms reserved_slot_ms now_ms (arm_state a), last_pulled_at := total\<rparr>;
                s' = s\<lparr>arms := (arms s)[k := pulled], total_completed := total\<rparr>
            in if pc_policy (sel_config s) = Racing
               then (case advance_racing_stage env s' of (gone, s'') \<Rightarrow> (Inr gone, s'')) else (Inr [], s'))"

end
