(* ===== verification/Policy_Facts.thy ===== *)
theory Policy_Facts
  imports Policy
begin

text \<open>
  The selector always has an arm to offer and offers only arms that are still in the race; with a
  starvation interval of at least the number of arms less one, none of them waits forever.
\<close>

section \<open>Helpers\<close>

lemma find_upto:
  "find P [0..<n] = Some k \<longleftrightarrow> k < n \<and> P k \<and> (\<forall>h<k. \<not> P h)"
proof -
  have "find P [0..<n] = Some k \<longleftrightarrow> k < n \<and> P ([0..<n] ! k) \<and> (\<forall>h<k. \<not> P ([0..<n] ! h))"
    if "k < n" for k using that by (auto simp: find_Some_iff)
  then show ?thesis by (cases "k < n") (auto simp: find_Some_iff)
qed

lemma find_upto_None: "find P [0..<n] = None \<longleftrightarrow> (\<forall>k<n. \<not> P k)"
  by (auto simp: find_None_iff)

lemma find_filter: "find P (filter Q xs) = find (\<lambda>x. Q x \<and> P x) xs"
  by (induction xs) auto

lemma max_by_mem: "max_by c xs = Some m \<Longrightarrow> m \<in> set xs"
proof -
  have "foldl (\<lambda>best y. if c best y = Greater then best else y) x xs \<in> insert x (set xs)" for x xs
    by (induction xs arbitrary: x) fastforce+
  then show "max_by c xs = Some m \<Longrightarrow> m \<in> set xs" by (cases xs) fastforce+
qed

lemma max_by_None: "max_by c xs = None \<longleftrightarrow> xs = []"
  by (cases xs) simp_all

section \<open>Well-formed selectors\<close>

definition selector_ok :: "'g arm_selector \<Rightarrow> bool" where
  "selector_ok s \<longleftrightarrow>
     distinct (map arm_id (arms s)) \<and> length (arms s) \<le> 2 ^ 64 \<and> cursor s < 2 ^ 64 \<and> racing_stage_target s \<ge> 1 \<and>
     (\<exists>k<length (arms s). \<not> eliminated (arms s ! k)) \<and>
     (\<forall>k<length (arms s).
        (eliminated (arms s ! k) \<longrightarrow> runs_of s k > 0) \<and>
        last_pulled_at (arms s ! k) \<le> total_completed s \<and>
        (runs_of s k > 0 \<longrightarrow> last_pulled_at (arms s ! k) > 0))"

lemma set_active: "set (active_indices s) = {k. k < length (arms s) \<and> \<not> eliminated (arms s ! k)}"
  by (auto simp: active_indices_def)

lemma distinct_active: "distinct (active_indices s)"
  by (simp add: active_indices_def)

lemma starving_arm_Some:
  "starving_arm s = Some k \<longleftrightarrow> k < length (arms s) \<and> \<not> eliminated (arms s ! k) \<and>
    total_completed s - last_pulled_at (arms s ! k) \<ge> max_starvation_runs (sel_config s) \<and>
    (\<forall>h<k. \<not> eliminated (arms s ! h) \<longrightarrow> \<not> total_completed s - last_pulled_at (arms s ! h) \<ge> max_starvation_runs (sel_config s))"
  by (auto simp: starving_arm_def active_indices_def find_filter find_upto)

lemma starving_arm_None:
  "starving_arm s = None \<longleftrightarrow> (\<forall>k<length (arms s). \<not> eliminated (arms s ! k) \<longrightarrow>
    \<not> total_completed s - last_pulled_at (arms s ! k) \<ge> max_starvation_runs (sel_config s))"
  by (auto simp: starving_arm_def active_indices_def find_filter find_upto_None)

lemma underplayed_active: "underplayed_arm s = Some (k, share) \<Longrightarrow> k \<in> set (active_indices s)"
  by (auto simp: underplayed_arm_def least_run_def Let_def split: option.splits if_splits dest!: min_by_mem)

lemma thompson_active:
  assumes "thompson_scan env r s ks best g = Some (Some (k, v), g')"
  shows "k \<in> set ks \<or> (\<exists>v. best = Some (k, v))"
  using assms
  by (induction ks arbitrary: best g) (fastforce simp: Let_def split: option.splits if_splits prod.splits)+

lemma thompson_offers:
  assumes "thompson_scan env r s ks best g = Some (None, g')"
  shows "ks = [] \<and> best = None"
  using assms
  by (induction ks arbitrary: best g) (fastforce simp: Let_def split: option.splits if_splits prod.splits)+

text \<open>The rotation ends at an arm that is still in the race.\<close>

lemma round_robin_ends:
  assumes "j < length (arms s)" and "\<not> eliminated (arms s ! j)" and "length (arms s) \<le> 2 ^ 64" and "cursor s < 2 ^ 64"
  obtains k c where "next_round_robin s = Some (k, s\<lparr>cursor := c\<rparr>)"
    "k < length (arms s)" "\<not> eliminated (arms s ! k)" "c < 2 ^ 64"
proof -
  let ?n = "length (arms s)"
  let ?f = "\<lambda>c. if c \<le> j then j - c else 2 ^ 64 - c + j"
  have j: "j < 2 ^ 64" using assms(1,3) by linarith
  have step: "(c + 1) mod 2 ^ 64 < 2 ^ 64 \<and> ?f ((c + 1) mod 2 ^ 64) < ?f c"
    if c: "c < 2 ^ 64" "eliminated (arms s ! (c mod ?n))" for c :: nat
  proof -
    have "c \<noteq> j" using c(2) assms(1,2) by auto
    then show ?thesis
      using c(1) j by (cases "c + 1 = 2 ^ 64") (auto simp: mod_Suc)
  qed
  obtain c where c: "while_option (\<lambda>c. eliminated (arms s ! (c mod ?n))) (\<lambda>c. (c + 1) mod 2 ^ 64) (cursor s) = Some c"
    "c < 2 ^ 64" "\<not> eliminated (arms s ! (c mod ?n))"
    by (rule while_option_ends [where I = "\<lambda>c. c < 2 ^ 64" and f = ?f and s = "cursor s" and
          b = "\<lambda>c. eliminated (arms s ! (c mod ?n))" and c = "\<lambda>c. (c + 1) mod 2 ^ 64"])
      (use assms(4) step in auto)
  have "c mod ?n < ?n" using assms(1) by (intro mod_less_divisor) linarith
  then show thesis using that [of "c mod ?n" "(c + 1) mod 2 ^ 64"] c by (simp add: next_round_robin_def Let_def)
qed

text \<open>What a selection keeps: everything but the cursor and the generator.\<close>

definition same_arms :: "'g arm_selector \<Rightarrow> 'g arm_selector \<Rightarrow> bool" where
  "same_arms s s' \<longleftrightarrow> arms s' = arms s \<and> sel_config s' = sel_config s \<and> total_completed s' = total_completed s \<and>
     racing_stage_target s' = racing_stage_target s \<and> cursor s' < 2 ^ 64"

lemma policy_select_active:
  assumes ok: "selector_ok s" and sel: "policy_select env r s = Some (res, s')"
  shows "\<exists>k\<in>set (active_indices s). (\<exists>sc reason. res = Inr (selection s k sc reason)) \<and> same_arms s s'"
proof -
  have ne: "active_indices s \<noteq> []" using ok by (auto simp: selector_ok_def active_indices_def filter_empty_conv)
  have self: "same_arms s s" "same_arms s (s\<lparr>sel_rng := g\<rparr>)" for g using ok by (simp_all add: same_arms_def selector_ok_def)
  have sel_s: "selection (s\<lparr>sel_rng := g\<rparr>) k sc reason = selection s k sc reason"
    "selection (s\<lparr>cursor := c\<rparr>) k sc reason = selection s k sc reason" for g c k sc reason
    by (simp_all add: selection_def)
  obtain j where j: "j < length (arms s)" "\<not> eliminated (arms s ! j)" using ok by (auto simp: selector_ok_def)
  obtain k c where rr: "next_round_robin s = Some (k, s\<lparr>cursor := c\<rparr>)" "k < length (arms s)" "\<not> eliminated (arms s ! k)" "c < 2 ^ 64"
    by (rule round_robin_ends [OF j]) (use ok in \<open>auto simp: selector_ok_def\<close>)
  have rr': "k \<in> set (active_indices s)" "same_arms s (s\<lparr>cursor := c\<rparr>)"
    using rr by (simp_all add: set_active same_arms_def)
  consider "pc_policy (sel_config s) = WeightedFair \<or> pc_policy (sel_config s) = InstanceAware"
    | "pc_policy (sel_config s) = Racing" | "pc_policy (sel_config s) = Ucb1" | "pc_policy (sel_config s) = ThompsonSampling"
    | "pc_policy (sel_config s) \<notin> {WeightedFair, InstanceAware, Racing, Ucb1, ThompsonSampling}" by blast
  then show ?thesis
  proof cases
    case 1
    then show ?thesis using sel self ne
      by (auto simp: policy_select_def Let_def split: option.splits dest!: min_by_mem intro!: bexI)
  next
    case 2
    then show ?thesis using sel self ne
      by (auto simp: policy_select_def Let_def least_run_def split: option.splits dest!: min_by_mem intro!: bexI)
  next
    case 3
    then show ?thesis using sel self ne
      by (auto simp: policy_select_def Let_def max_by_None split: option.splits dest!: max_by_mem intro!: bexI)
  next
    case 4
    then show ?thesis using sel self ne thompson_active [of env r s "active_indices s" None] thompson_offers [of env r s "active_indices s" None]
      by (fastforce simp: policy_select_def Let_def sel_s split: option.splits)
  next
    case 5
    then show ?thesis using sel rr(1) rr' by (auto simp: policy_select_def Let_def sel_s)
  qed
qed

text \<open>The order of the guards: unplayed arms first, then starving ones.\<close>

lemma select_active:
  assumes ok: "selector_ok s" and sel: "select env r s = Some (res, s')"
  shows "\<exists>k\<in>set (active_indices s). (\<exists>sc reason. res = Inr (selection s k sc reason)) \<and> same_arms s s' \<and>
    (case unplayed_arm s of Some h \<Rightarrow> k = h | None \<Rightarrow> (case starving_arm s of Some h \<Rightarrow> k = h | None \<Rightarrow> True))"
proof -
  have go: "\<not> list_all eliminated (arms s)" using ok by (auto simp: selector_ok_def list_all_length)
  have self: "same_arms s s" using ok by (simp add: same_arms_def selector_ok_def)
  show ?thesis
  proof (cases "unplayed_arm s")
    case (Some k)
    then have "k \<in> set (active_indices s)" by (simp add: unplayed_arm_def find_upto set_active)
    then show ?thesis using sel go Some self by (auto simp: select_def)
  next
    case unplayed: None
    show ?thesis
    proof (cases "starving_arm s")
      case (Some k)
      then have "k \<in> set (active_indices s)" by (simp add: starving_arm_Some set_active)
      then show ?thesis using sel go unplayed Some self by (auto simp: select_def)
    next
      case starving: None
      show ?thesis
      proof (cases "underplayed_arm s")
        case (Some ks)
        obtain k share where ks: "ks = (k, share)" by fastforce
        then show ?thesis using underplayed_active [of s k share] sel go unplayed starving Some self by (auto simp: select_def)
      next
        case None
        then show ?thesis
          using policy_select_active [OF ok, of env r] sel go unplayed starving by (auto simp: select_def)
      qed
    qed
  qed
qed

section \<open>Observation\<close>

lemma eliminate_arm_length [simp]: "length (eliminate_arm k as) = length as"
  by (simp add: eliminate_arm_def)

lemma eliminate_arms_length [simp]: "length (fold eliminate_arm ks as) = length as"
  by (induction ks arbitrary: as) simp_all

lemma eliminate_arm_nth:
  "k < length as \<Longrightarrow> eliminate_arm h as ! k = (if h = k
    then (as ! k)\<lparr>eliminated := True, arm_state := (arm_state (as ! k))\<lparr>arm_available := False\<rparr>\<rparr> else as ! k)"
  by (cases "h = k") (simp_all add: eliminate_arm_def)

lemma eliminate_arms_nth:
  assumes "k < length as"
  shows "arm_id (fold eliminate_arm ks as ! k) = arm_id (as ! k)"
    "last_pulled_at (fold eliminate_arm ks as ! k) = last_pulled_at (as ! k)"
    "run_count (arm_state (fold eliminate_arm ks as ! k)) = run_count (arm_state (as ! k))"
    "eliminated (fold eliminate_arm ks as ! k) \<longleftrightarrow> eliminated (as ! k) \<or> k \<in> set ks"
  using assms
  by (induction ks arbitrary: as) (auto simp: eliminate_arm_nth)

text \<open>At least one arm stays.\<close>

lemma racing_losers_facts:
  assumes "\<not> stage_goes_on s"
  shows "set (racing_losers env s) \<subseteq> set (active_indices s)"
    "\<exists>k\<in>set (active_indices s). k \<notin> set (racing_losers env s)"
proof -
  define ranked where "ranked = sort_by (\<lambda>left right. then_ordering
    (float_total_cmp env (reward_mean (arm_state (arms s ! right))) (reward_mean (arm_state (arms s ! left))))
    (cmp left right)) (active_indices s)"
  define m where "m = div_ceil (length ranked) 2"
  have out: "racing_losers env s = drop m ranked" by (simp add: racing_losers_def ranked_def m_def Let_def)
  have same: "set ranked = set (active_indices s)" by (simp add: ranked_def)
  show "set (racing_losers env s) \<subseteq> set (active_indices s)"
    unfolding out using set_drop_subset [of m ranked] same by simp
  have len: "1 < length ranked" using assms by (simp add: ranked_def stage_goes_on_def)
  then have m: "1 \<le> m" by (simp add: m_def div_ceil_def)
  have d: "distinct ranked" by (simp add: ranked_def distinct_active distinct_sort_by)
  have "ranked ! 0 \<notin> set (drop m ranked)"
  proof
    assume "ranked ! 0 \<in> set (drop m ranked)"
    then obtain h where "h < length (drop m ranked)" "drop m ranked ! h = ranked ! 0" by (auto simp: in_set_conv_nth)
    then show False using nth_eq_iff_index_eq [OF d, of "m + h" 0] m len by force
  qed
  moreover have "ranked ! 0 \<in> set ranked" using len by (intro nth_mem) linarith
  ultimately show "\<exists>k\<in>set (active_indices s). k \<notin> set (racing_losers env s)" unfolding out using same by blast
qed

lemma advance_racing_stage_facts:
  assumes "advance_racing_stage env s = (gone, s')" and active: "\<exists>k<length (arms s). \<not> eliminated (arms s ! k)"
    and target: "racing_stage_target s \<ge> 1"
  shows "length (arms s') = length (arms s) \<and> sel_config s' = sel_config s \<and> total_completed s' = total_completed s \<and>
    cursor s' = cursor s \<and> racing_stage_target s' \<ge> 1 \<and> (\<exists>k<length (arms s'). \<not> eliminated (arms s' ! k)) \<and>
    (\<forall>k<length (arms s). arm_id (arms s' ! k) = arm_id (arms s ! k) \<and>
      last_pulled_at (arms s' ! k) = last_pulled_at (arms s ! k) \<and> runs_of s' k = runs_of s k \<and>
      (eliminated (arms s ! k) \<longrightarrow> eliminated (arms s' ! k)) \<and>
      (eliminated (arms s' ! k) \<longrightarrow> eliminated (arms s ! k) \<or> runs_of s k > 0))"
proof (cases "stage_goes_on s")
  case True
  then show ?thesis using assms by (simp add: advance_racing_stage_def)
next
  case False
  then have s': "s' = s\<lparr>arms := fold eliminate_arm (racing_losers env s) (arms s),
      racing_stage_target := max (saturating_mul_u64 (racing_stage_target s) 2) 1\<rparr>"
    using assms(1) by (simp add: advance_racing_stage_def)
  have played: "runs_of s k > 0" if "k \<in> set (racing_losers env s)" for k
  proof -
    have "k \<in> set (active_indices s)" using racing_losers_facts(1) [OF False] that by blast
    then have "\<not> runs_of s k < racing_stage_target s" using False that by (auto simp: stage_goes_on_def list_ex_iff)
    then show ?thesis using target by linarith
  qed
  obtain k where k: "k \<in> set (active_indices s)" "k \<notin> set (racing_losers env s)" using racing_losers_facts(2) [OF False] by blast
  then have "\<exists>k<length (arms s'). \<not> eliminated (arms s' ! k)"
    using eliminate_arms_nth(4) [of k "arms s" "racing_losers env s"] by (intro exI [of _ k]) (simp add: s' set_active)
  then show ?thesis
    using eliminate_arms_nth [where as = "arms s" and ks = "racing_losers env s"] played by (auto simp: s')
qed

section \<open>Pulls\<close>

text \<open>One round of the scheduler: the arm that is selected runs and its reward is observed.\<close>

inductive pull :: "math_env \<Rightarrow> 'g rng \<Rightarrow> 'g arm_selector \<Rightarrow> 'g arm_selector \<Rightarrow> bool" for env r where
  "select env r s = Some (Inr sel, s1) \<Longrightarrow>
    observe env (selected_arm sel) reward wall_ms reserved_slot_ms now_ms s1 = (out, s') \<Longrightarrow> pull env r s s'"

text \<open>How a pull of the arm \<open>k\<close> changes what the guards read.\<close>

definition pulled :: "usize \<Rightarrow> 'g arm_selector \<Rightarrow> 'g arm_selector \<Rightarrow> bool" where
  "pulled k s s' \<longleftrightarrow>
     length (arms s') = length (arms s) \<and> sel_config s' = sel_config s \<and> total_completed s' = total_completed s + 1 \<and>
     cursor s' < 2 ^ 64 \<and> racing_stage_target s' \<ge> 1 \<and> (\<exists>k<length (arms s'). \<not> eliminated (arms s' ! k)) \<and>
     (\<forall>h<length (arms s). arm_id (arms s' ! h) = arm_id (arms s ! h) \<and>
       last_pulled_at (arms s' ! h) = (if h = k then total_completed s + 1 else last_pulled_at (arms s ! h)) \<and>
       runs_of s' h = runs_of s h + of_bool (h = k) \<and>
       (eliminated (arms s ! h) \<longrightarrow> eliminated (arms s' ! h)) \<and>
       (eliminated (arms s' ! h) \<longrightarrow> eliminated (arms s ! h) \<or> runs_of s' h > 0) \<and>
       (pc_policy (sel_config s) \<noteq> Racing \<longrightarrow> eliminated (arms s' ! h) = eliminated (arms s ! h)))"

lemma observe_pulled:
  assumes ok: "selector_ok s" and k: "k < length (arms s)" "\<not> eliminated (arms s ! k)"
    and obs: "observe env (arm_id (arms s ! k)) reward wall_ms reserved_slot_ms now_ms s = (out, s')"
  shows "pulled k s s' \<and> is_ok out"
proof -
  have "find (\<lambda>h. arm_id (arms s ! h) = arm_id (arms s ! k)) [0..<length (arms s)] = Some k"
  proof -
    have "h = k" if "h < length (arms s)" "arm_id (arms s ! h) = arm_id (arms s ! k)" for h
      using ok that k(1) nth_eq_iff_index_eq [of "map arm_id (arms s)" h k] by (simp add: selector_ok_def)
    then have "arm_id (arms s ! h) \<noteq> arm_id (arms s ! k)" if "h < k" for h
      using that less_trans [OF that k(1)] by (metis less_irrefl)
    then show ?thesis using k(1) by (simp add: find_upto)
  qed
  note found = this
  let ?a = "arms s ! k" and ?total = "total_completed s + 1"
  let ?pulled = "?a\<lparr>arm_state := arm_observe reward wall_ms reserved_slot_ms now_ms (arm_state ?a), last_pulled_at := ?total\<rparr>"
  let ?s = "s\<lparr>arms := (arms s)[k := ?pulled], total_completed := ?total\<rparr>"
  have one: "pulled k s ?s"
    using ok k by (auto simp: pulled_def selector_ok_def nth_list_update arm_observe_def Let_def)
  show ?thesis
  proof (cases "pc_policy (sel_config s) = Racing")
    case False
    then have "(out, s') = (Inr [], ?s)" using obs found k(2) by (simp add: observe_def Let_def)
    then show ?thesis using one by (simp add: is_ok_def)
  next
    case True
    then obtain gone where adv: "advance_racing_stage env ?s = (gone, s')" and out: "out = Inr gone"
      using obs found k(2) by (auto simp: observe_def Let_def split: prod.splits)
    have "\<exists>k<length (arms ?s). \<not> eliminated (arms ?s ! k)" "racing_stage_target ?s \<ge> 1"
      using one ok by (auto simp: pulled_def selector_ok_def)
    note f = advance_racing_stage_facts [OF adv this]
    show ?thesis using one f out True by (auto simp: pulled_def is_ok_def)
  qed
qed

lemma pull_pulled:
  assumes ok: "selector_ok s" and "pull env r s s'"
  obtains k where "k < length (arms s)" "\<not> eliminated (arms s ! k)" "pulled k s s'"
    "case unplayed_arm s of Some h \<Rightarrow> k = h | None \<Rightarrow> (case starving_arm s of Some h \<Rightarrow> k = h | None \<Rightarrow> True)"
  using assms(2)
proof cases
  case (1 sel s1 reward wall_ms reserved_slot_ms now_ms out)
  obtain k where k: "k \<in> set (active_indices s)" "\<exists>sc reason. sel = selection s k sc reason" "same_arms s s1"
    "case unplayed_arm s of Some h \<Rightarrow> k = h | None \<Rightarrow> (case starving_arm s of Some h \<Rightarrow> k = h | None \<Rightarrow> True)"
    using select_active [OF ok 1(1)] by auto
  have s1: "arms s1 = arms s" "total_completed s1 = total_completed s" "sel_config s1 = sel_config s"
    "racing_stage_target s1 = racing_stage_target s" "cursor s1 < 2 ^ 64"
    using k(3) by (simp_all add: same_arms_def)
  have ok1: "selector_ok s1" using ok s1 by (simp add: selector_ok_def)
  have name: "selected_arm sel = arm_id (arms s1 ! k)" using k(2) s1 by (auto simp: selection_def)
  have inside: "k < length (arms s1)" "\<not> eliminated (arms s1 ! k)" using k(1) s1(1) by (simp_all add: set_active)
  have "pulled k s1 s'" using observe_pulled [OF ok1 inside 1(2) [unfolded name]] by simp
  then have "pulled k s s'" unfolding pulled_def s1 .
  then show thesis using that k(4) inside s1(1) by simp
qed

lemma pulled_ok:
  assumes "selector_ok s" and "pulled k s s'"
  shows "selector_ok s'"
proof -
  have "map arm_id (arms s') = map arm_id (arms s)" using assms(2) by (auto simp: pulled_def intro: nth_equalityI)
  then show ?thesis using assms by (fastforce simp: selector_ok_def pulled_def)
qed

section \<open>No arm waits forever\<close>

definition waited :: "'g arm_selector \<Rightarrow> usize \<Rightarrow> nat" where
  "waited s k = total_completed s - last_pulled_at (arms s ! k)"

text \<open>
  An arm that has waited longer than the interval was passed over once per run beyond it, each
  time for another arm of a smaller index; while arms are unplayed, no run was repeated.
\<close>

definition fair :: "'g arm_selector \<Rightarrow> bool" where
  "fair s \<longleftrightarrow>
     (\<forall>j<length (arms s). \<not> eliminated (arms s ! j) \<longrightarrow>
        waited s j - max_starvation_runs (sel_config s) \<le>
          card {h. h < j \<and> waited s h < waited s j - max_starvation_runs (sel_config s)}) \<and>
     ((\<exists>k<length (arms s). runs_of s k = 0) \<longrightarrow> total_completed s \<le> card {k. k < length (arms s) \<and> runs_of s k > 0})"

lemma card_below: "card {h. h < (j :: nat) \<and> P h} \<le> j"
  using card_mono [of "{..<j}" "{h. h < j \<and> P h}"] by auto

lemma waited_pulled:
  assumes "selector_ok s" and "pulled k s s'" and "h < length (arms s)"
  shows "waited s' h = (if h = k then 0 else waited s h + 1)"
  using assms by (auto simp: waited_def pulled_def selector_ok_def)

lemma exploring:
  assumes ok: "selector_ok s" and fair: "fair s" and n: "length (arms s) \<le> max_starvation_runs (sel_config s) + 1"
    and un: "unplayed_arm s = Some k" and j: "j < length (arms s)" "j \<noteq> k"
  shows "waited s j < max_starvation_runs (sel_config s)"
proof -
  let ?n = "length (arms s)" and ?played = "{h. h < length (arms s) \<and> runs_of s h > 0}"
  have k: "k < ?n" "runs_of s k = 0" using un by (auto simp: unplayed_arm_def find_upto)
  have total: "total_completed s \<le> card ?played" using fair k by (auto simp: fair_def)
  show ?thesis
  proof (cases "runs_of s j = 0")
    case True
    have "?played \<subseteq> {..<?n} - {k, j}" using k(2) True by auto
    then have "card ?played \<le> card ({..<?n} - {k, j})" by (intro card_mono) simp_all
    also have "\<dots> = ?n - 2" using k(1) j by (subst card_Diff_subset) auto
    finally have "total_completed s \<le> ?n - 2" using total by linarith
    moreover have "2 \<le> ?n" using k(1) j by linarith
    ultimately show ?thesis using n by (simp add: waited_def)
  next
    case False
    have "?played \<subseteq> {..<?n} - {k}" using k(2) by auto
    then have "card ?played \<le> card ({..<?n} - {k})" by (intro card_mono) simp_all
    also have "\<dots> = ?n - 1" using k(1) by simp
    finally have "total_completed s \<le> ?n - 1" using total by linarith
    moreover have "0 < last_pulled_at (arms s ! j)" "last_pulled_at (arms s ! j) \<le> total_completed s"
      using ok j(1) False by (auto simp: selector_ok_def)
    ultimately show ?thesis using n by (simp add: waited_def)
  qed
qed

lemma pull_fair:
  assumes ok: "selector_ok s" and fair: "fair s" and n: "length (arms s) \<le> max_starvation_runs (sel_config s) + 1"
    and k: "k < length (arms s)" "\<not> eliminated (arms s ! k)" and p: "pulled k s s'"
    and choice: "case unplayed_arm s of Some h \<Rightarrow> k = h | None \<Rightarrow> (case starving_arm s of Some h \<Rightarrow> k = h | None \<Rightarrow> True)"
  shows "fair s'"
proof -
  let ?S = "max_starvation_runs (sel_config s)" and ?n = "length (arms s)"
  have same: "length (arms s') = ?n" "sel_config s' = sel_config s" "total_completed s' = total_completed s + 1"
    using p by (simp_all add: pulled_def)
  note w = waited_pulled [OF ok p]
  have waits: "waited s' j - ?S \<le> card {h. h < j \<and> waited s' h < waited s' j - ?S}"
    if j: "j < ?n" "\<not> eliminated (arms s' ! j)" for j
  proof (cases "j = k \<or> waited s j < ?S")
    case True
    then have "waited s' j - ?S = 0" using w [OF j(1)] by auto
    then show ?thesis by simp
  next
    case False
    then have long: "?S \<le> waited s j" "j \<noteq> k" by auto
    have active: "\<not> eliminated (arms s ! j)" using p j by (auto simp: pulled_def)
    have none: "unplayed_arm s = None"
    proof (rule ccontr)
      assume "unplayed_arm s \<noteq> None"
      then obtain h where "unplayed_arm s = Some h" by blast
      with choice have "unplayed_arm s = Some k" by simp
      from exploring [OF ok fair n this j(1) long(2)] long(1) show False by simp
    qed
    then obtain h where "starving_arm s = Some h" using active j(1) long(1) starving_arm_None [of s]
      by (cases "starving_arm s") (auto simp: waited_def)
    with choice none have starving: "starving_arm s = Some k" by simp
    then have first: "?S \<le> waited s k" "k \<le> j"
      using active long(1) by (auto simp: starving_arm_Some waited_def not_less [symmetric])
    then have less: "k < j" using long(2) by simp
    let ?d = "waited s j - ?S"
    have old: "?d \<le> card {h. h < j \<and> waited s h < ?d}" using fair j(1) active by (simp add: fair_def)
    also have "\<dots> \<le> j" by (rule card_below)
    finally have "?d \<le> ?S" using j(1) n by linarith
    then have new: "k \<notin> {h. h < j \<and> waited s h < ?d}" using first(1) by simp
    have d': "waited s' j - ?S = Suc ?d" using w [OF j(1)] long by simp
    have "insert k {h. h < j \<and> waited s h < ?d} \<subseteq> {h. h < j \<and> waited s' h < Suc ?d}"
      using w k(1) j(1) less by auto
    then have "card (insert k {h. h < j \<and> waited s h < ?d}) \<le> card {h. h < j \<and> waited s' h < Suc ?d}"
      by (intro card_mono) simp_all
    then show ?thesis using old new unfolding d' by simp
  qed
  have "total_completed s' \<le> card {h. h < ?n \<and> runs_of s' h > 0}" if un: "\<exists>h<?n. runs_of s' h = 0"
  proof -
    obtain h where h: "h < ?n" "runs_of s' h = 0" using un by blast
    have runs: "runs_of s' i = runs_of s i + of_bool (i = k)" if "i < ?n" for i using p that by (simp add: pulled_def)
    have zero: "runs_of s h = 0" using runs [OF h(1)] h(2) by simp
    then have total: "total_completed s \<le> card {h. h < ?n \<and> runs_of s h > 0}" using fair h(1) by (auto simp: fair_def)
    have "\<not> eliminated (arms s ! h)" using ok h(1) zero unfolding selector_ok_def by (metis less_irrefl)
    then obtain i where i: "unplayed_arm s = Some i"
      using zero h(1) by (cases "unplayed_arm s") (auto simp: unplayed_arm_def find_upto_None)
    then have "runs_of s i = 0" by (simp add: unplayed_arm_def find_upto)
    then have "runs_of s k = 0" using choice i by simp
    then have "{i. i < ?n \<and> runs_of s' i > 0} = insert k {i. i < ?n \<and> runs_of s i > 0}"
      "k \<notin> {i. i < ?n \<and> runs_of s i > 0}" using runs k(1) by auto
    then show ?thesis using total same(3) by simp
  qed
  then show ?thesis using waits same by (simp add: fair_def)
qed

lemma new_selector_ok:
  assumes "new_selector seeded c ids = Inr s" and "length ids \<le> 2 ^ 64"
  shows "selector_ok s \<and> fair s \<and> sel_config s = c \<and> map arm_id (arms s) = ids"
proof -
  have s: "s = \<lparr>arm_selector.sel_config = c,
      arms = map (\<lambda>i. \<lparr>arm_id = i, arm_state = new_arm_state ''sa'', eliminated = False, last_pulled_at = 0\<rparr>) ids,
      cursor = 0, total_completed = 0, racing_stage_target = racing_warmup_runs c, sel_rng = seeded (pc_seed c)\<rparr>"
    and ids: "ids \<noteq> []" "distinct ids" and c: "racing_warmup_runs c \<noteq> 0"
    using assms(1) by (auto simp: new_selector_def valid_policy_config_def split: if_splits)
  have "map arm_id (arms s) = ids" by (simp add: s comp_def)
  then show ?thesis
    using ids c assms(2)
    by (auto simp: s selector_ok_def fair_def waited_def new_arm_state_def)
qed

lemma pulls_keep:
  assumes "(pull env r)\<^sup>*\<^sup>* s0 s" and "selector_ok s0"
  shows "selector_ok s \<and> sel_config s = sel_config s0 \<and> map arm_id (arms s) = map arm_id (arms s0) \<and>
    (length (arms s0) \<le> max_starvation_runs (sel_config s0) + 1 \<longrightarrow> fair s0 \<longrightarrow> fair s)"
  using assms(1)
proof (induction rule: rtranclp_induct)
  case base
  then show ?case using assms(2) by simp
next
  case (step s s')
  obtain k where k: "k < length (arms s)" "\<not> eliminated (arms s ! k)" "pulled k s s'"
    "case unplayed_arm s of Some h \<Rightarrow> k = h | None \<Rightarrow> (case starving_arm s of Some h \<Rightarrow> k = h | None \<Rightarrow> True)"
    by (rule pull_pulled [OF _ step(2)]) (use step(3) in auto)
  have ids: "map arm_id (arms s') = map arm_id (arms s)" using k(3) by (auto simp: pulled_def intro: nth_equalityI)
  have len: "length (arms s) = length (arms s0)" using step(3) map_eq_imp_length_eq by blast
  have "sel_config s' = sel_config s" using k(3) by (simp add: pulled_def)
  then show ?case
    using step(3) ids len pulled_ok [OF _ k(3)] pull_fair [OF _ _ _ k] by simp
qed

text \<open>Only the sampler can fail to answer.\<close>

lemma select_answers:
  assumes ok: "selector_ok s" and "pc_policy (sel_config s) \<noteq> ThompsonSampling"
  shows "select env r s \<noteq> None"
proof -
  obtain j where j: "j < length (arms s)" "\<not> eliminated (arms s ! j)" using ok by (auto simp: selector_ok_def)
  obtain k c where "next_round_robin s = Some (k, s\<lparr>cursor := c\<rparr>)"
    by (rule round_robin_ends [OF j]) (use ok in \<open>auto simp: selector_ok_def\<close>)
  then have "policy_select env r s \<noteq> None"
    using assms(2) by (auto simp: policy_select_def Let_def split: option.splits)
  then show ?thesis by (auto simp: select_def split: option.splits)
qed

section \<open>Properties\<close>

text \<open>
  The selector always offers an arm that is still in the race, and only such arms; where it does
  not return, the sampler of the Thompson policy draws forever.
\<close>

lemma selector_always_offers:
  assumes "new_selector seeded c ids = Inr s0" and "length ids \<le> 2 ^ 64" and "(pull env r)\<^sup>*\<^sup>* s0 s"
  shows "(pc_policy c \<noteq> ThompsonSampling \<longrightarrow> select env r s \<noteq> None) \<and>
    (\<forall>res s'. select env r s = Some (res, s') \<longrightarrow>
      (\<exists>sel k. res = Inr sel \<and> selected_arm sel \<in> set ids \<and> k < length (arms s) \<and>
        selected_arm sel = arm_id (arms s ! k) \<and> \<not> eliminated (arms s ! k)))"
proof -
  have s: "selector_ok s" "sel_config s = c" "map arm_id (arms s) = ids"
    using pulls_keep [OF assms(3)] new_selector_ok [OF assms(1,2)] by simp_all
  have "\<exists>sel k. res = Inr sel \<and> selected_arm sel \<in> set ids \<and> k < length (arms s) \<and>
      selected_arm sel = arm_id (arms s ! k) \<and> \<not> eliminated (arms s ! k)"
    if sel: "select env r s = Some (res, s')" for res s'
  proof -
    obtain k sc reason where k: "k < length (arms s)" "\<not> eliminated (arms s ! k)" "res = Inr (selection s k sc reason)"
      using select_active [OF s(1) sel] by (auto simp: set_active)
    have "arm_id (arms s ! k) \<in> set ids" unfolding s(3) [symmetric] using k(1) by simp
    then show ?thesis using k by (auto simp: selection_def)
  qed
  then show ?thesis using select_answers [OF s(1)] s(2) by blast
qed

text \<open>
  C18. No arm starves: for a selector that was built for at most 2 to the 64 arms, with
  a starvation interval of at least the number of arms less one, every arm that is still in the
  race has waited at most that interval and one run for each arm before it, after any number of
  rounds, under every policy.
\<close>

theorem no_arm_starves:
  assumes "new_selector seeded c ids = Inr s0" and "length ids \<le> 2 ^ 64" and "(pull env r)\<^sup>*\<^sup>* s0 s"
    and "length ids \<le> max_starvation_runs c + 1" and "k < length (arms s)" and "\<not> eliminated (arms s ! k)"
  shows "total_completed s - last_pulled_at (arms s ! k) \<le> max_starvation_runs c + k"
proof -
  note new = new_selector_ok [OF assms(1,2)]
  have "length (arms s0) = length ids" using new by (metis length_map)
  then have "fair s" "sel_config s = c" using pulls_keep [OF assms(3)] new assms(4) by simp_all
  then have "waited s k - max_starvation_runs c \<le> card {h. h < k \<and> waited s h < waited s k - max_starvation_runs c}"
    using assms(5,6) by (simp add: fair_def)
  also have "\<dots> \<le> k" by (rule card_below)
  finally show ?thesis by (simp add: waited_def)
qed

text \<open>
  A text names a policy exactly if, trimmed and without regard to case, it is the text the policy
  is written as; in particular every policy is read from its own text.
\<close>

lemma policy_text_roundtrip:
  "policy_from_str (policy_str p) = Inr p \<and>
   (policy_from_str v = Inr p \<longleftrightarrow> eq_ignore_ascii_case (policy_str p) (trim v)) \<and>
   (policy_from_str v = Inl v \<longleftrightarrow> (\<forall>q. \<not> eq_ignore_ascii_case (policy_str q) (trim v)))"
proof -
  have all: "q \<in> set all_policies" for q by (cases q) (simp_all add: all_policies_def)
  have "distinct (map (\<lambda>q. ascii_lower (policy_str q)) all_policies)" by code_simp
  then have same: "q = q'" if "ascii_lower (policy_str q) = ascii_lower (policy_str q')" for q q'
    using that all inj_onD [of "\<lambda>q. ascii_lower (policy_str q)" "set all_policies" q q'] by (simp add: distinct_map)
  have found: "find (\<lambda>q. eq_ignore_ascii_case (policy_str q) w) all_policies = Some q \<longleftrightarrow> eq_ignore_ascii_case (policy_str q) w"
    for w q
  proof
    assume "find (\<lambda>q. eq_ignore_ascii_case (policy_str q) w) all_policies = Some q"
    then show "eq_ignore_ascii_case (policy_str q) w" by (auto simp: find_Some_iff)
  next
    assume q: "eq_ignore_ascii_case (policy_str q) w"
    then obtain q' where q': "find (\<lambda>q. eq_ignore_ascii_case (policy_str q) w) all_policies = Some q'"
      using all by (cases "find (\<lambda>q. eq_ignore_ascii_case (policy_str q) w) all_policies") (auto simp: find_None_iff)
    then have "eq_ignore_ascii_case (policy_str q') w" by (auto simp: find_Some_iff)
    then have "q' = q" using q same by (simp add: eq_ignore_ascii_case_def)
    with q' show "find (\<lambda>q. eq_ignore_ascii_case (policy_str q) w) all_policies = Some q" by simp
  qed
  have "list_all (\<lambda>q. trim (policy_str q) = policy_str q) all_policies" by code_simp
  then have "trim (policy_str p) = policy_str p" using all by (simp add: list_all_iff)
  then show ?thesis
    using found all same
    by (auto simp: policy_from_str_def ok_or_def eq_ignore_ascii_case_def find_None_iff split: option.splits)
qed

section \<open>The example\<close>

definition four_arms :: "string list" where
  "four_arms = [''greedy'', ''mst_double_tree'', ''christofides'', ''clustered'']"

definition sample_policy_config :: "u64 \<Rightarrow> policy_config" where
  "sample_policy_config starvation =
     \<lparr>pc_policy = RoundRobin, policy_version = ''1'', pc_seed = 42, min_quantum_ms = 250, racing_warmup_runs = 1,
      ucb_exploration = float_one, min_exploration_ratio = float_zero, max_starvation_runs = starvation, weights = []\<rparr>"

definition sample_selector :: "u64 \<Rightarrow> nat arm_selector" where
  "sample_selector starvation =
     \<lparr>sel_config = sample_policy_config starvation,
      arms = map (\<lambda>i. \<lparr>arm_id = i, arm_state = new_arm_state ''sa'', eliminated = False, last_pulled_at = 0\<rparr>) four_arms,
      cursor = 0, total_completed = 0, racing_stage_target = 1, sel_rng = 42\<rparr>"

lemma four_arms_named: "distinct four_arms" "\<not> list_ex (\<lambda>i. trim i = []) four_arms"
  by code_simp+

lemma sample_selector_new:
  assumes "starvation \<noteq> 0"
  shows "new_selector (\<lambda>seed. seed) (sample_policy_config starvation) four_arms = Inr (sample_selector starvation)"
proof -
  have "valid_policy_config (sample_policy_config starvation)"
    using assms by (simp add: valid_policy_config_def sample_policy_config_def float_one_def float_zero_def signed_def)
  then show ?thesis
    using four_arms_named by (simp add: new_selector_def sample_selector_def sample_policy_config_def four_arms_def)
qed

text \<open>One round without reward, while the guards choose.\<close>

definition guarded_round :: "nat arm_selector \<Rightarrow> nat arm_selector" where
  "guarded_round s =
     (case (case unplayed_arm s of Some k \<Rightarrow> Some k | None \<Rightarrow> starving_arm s) of
        None \<Rightarrow> s
      | Some k \<Rightarrow> s\<lparr>total_completed := total_completed s + 1,
          arms := (arms s)[k := (arms s ! k)\<lparr>
            arm_state := arm_observe float_zero 0 0 0 (arm_state (arms s ! k)), last_pulled_at := total_completed s + 1\<rparr>]\<rparr>)"

lemma guarded_round_pull:
  assumes ok: "selector_ok s" and "pc_policy (sel_config s) \<noteq> Racing" and "unplayed_arm s \<noteq> None \<or> starving_arm s \<noteq> None"
  shows "pull env r s (guarded_round s)"
proof -
  obtain k where choice: "(case unplayed_arm s of Some k \<Rightarrow> Some k | None \<Rightarrow> starving_arm s) = Some k"
    using assms(3) by (cases "unplayed_arm s") auto
  then have "unplayed_arm s = Some k \<or> starving_arm s = Some k" by (cases "unplayed_arm s") auto
  then have k: "k < length (arms s)" "\<not> eliminated (arms s ! k)"
    by (auto simp: unplayed_arm_def find_upto starving_arm_Some)
  have go: "\<not> list_all eliminated (arms s)" using k(1,2) by (auto simp: list_all_length)
  obtain reason where sel: "select env r s = Some (Inr (selection s k None reason), s)"
    using choice go by (cases "unplayed_arm s") (auto simp: select_def)
  have "find (\<lambda>h. arm_id (arms s ! h) = arm_id (arms s ! k)) [0..<length (arms s)] = Some k"
  proof -
    have "h = k" if "h < length (arms s)" "arm_id (arms s ! h) = arm_id (arms s ! k)" for h
      using ok that k(1) nth_eq_iff_index_eq [of "map arm_id (arms s)" h k] by (simp add: selector_ok_def)
    then have "arm_id (arms s ! h) \<noteq> arm_id (arms s ! k)" if "h < k" for h
      using that less_trans [OF that k(1)] by (metis less_irrefl)
    then show ?thesis using k(1) by (simp add: find_upto)
  qed
  then have "observe env (selected_arm (selection s k None reason)) float_zero 0 0 0 s = (Inr [], guarded_round s)"
    using k choice assms(2) by (simp add: observe_def selection_def guarded_round_def Let_def)
  with sel show ?thesis by (rule pull.intros)
qed

theorem no_arm_starves_witness:
  "total_completed (guarded_round (sample_selector 8)) - last_pulled_at (arms (guarded_round (sample_selector 8)) ! 3) \<le> 8 + 3"
proof -
  have ok: "selector_ok (sample_selector 8)" using new_selector_ok [OF sample_selector_new [of 8]] by (simp add: four_arms_def)
  have first: "unplayed_arm (sample_selector 8) \<noteq> None" "pc_policy (sel_config (sample_selector 8)) \<noteq> Racing" by code_simp+
  fix env :: math_env and r :: "nat rng"
  have "pull env r (sample_selector 8) (guarded_round (sample_selector 8))"
    by (rule guarded_round_pull [OF ok first(2)]) (use first in simp)
  then have p: "(pull env r)\<^sup>*\<^sup>* (sample_selector 8) (guarded_round (sample_selector 8))" by simp
  have "3 < length (arms (guarded_round (sample_selector 8)))" "\<not> eliminated (arms (guarded_round (sample_selector 8)) ! 3)"
    using pulls_keep [OF p ok] by (simp_all add: guarded_round_def sample_selector_def four_arms_def unplayed_arm_def
        new_arm_state_def upt_rec)
  from no_arm_starves [OF sample_selector_new [of 8] _ p _ this] show ?thesis
    by (simp add: four_arms_def sample_policy_config_def)
qed

section \<open>A starvation interval that is too short\<close>

text \<open>
  Four arms and an interval of two runs: after the exploration the guard always has a starving arm
  among the first three, and the last arm never runs again.
\<close>

definition takes_turns :: "'g arm_selector \<Rightarrow> bool" where
  "takes_turns s \<longleftrightarrow>
     (if total_completed s \<le> 3
      then \<forall>k<4. runs_of s k = of_bool (k < total_completed s) \<and>
        waited s k = (if k < total_completed s then total_completed s - 1 - k else total_completed s)
      else (\<forall>k<4. runs_of s k > 0) \<and> runs_of s 3 = 1 \<and>
        ((waited s 0, waited s 1, waited s 2, waited s 3) \<in> {(3, 2, 1, 0), (0, 3, 2, 1), (1, 0, 3, 2)} \<or>
         (waited s 0, waited s 1, waited s 2) \<in> {(2, 1, 0), (0, 2, 1), (1, 0, 2)} \<and> waited s 3 \<ge> 3))"

lemma All_less_4: "(\<forall>k<4. P k) \<longleftrightarrow> P 0 \<and> P 1 \<and> P 2 \<and> P (3 :: nat)"
  by (simp add: All_less_Suc numeral_eq_Suc conj_ac)

lemma takes_turns_step:
  assumes ok: "selector_ok s" and four: "length (arms s) = 4" and S: "max_starvation_runs (sel_config s) = 2"
    and active: "\<forall>k<4. \<not> eliminated (arms s ! k)" and turns: "takes_turns s" and p: "pulled k s s'" and k: "k < 4"
    and choice: "case unplayed_arm s of Some h \<Rightarrow> k = h | None \<Rightarrow> (case starving_arm s of Some h \<Rightarrow> k = h | None \<Rightarrow> True)"
  shows "takes_turns s'"
proof -
  have w: "waited s' h = (if h = k then 0 else waited s h + 1)" if "h < 4" for h
    using waited_pulled [OF ok p] four that by simp
  have runs: "runs_of s' h = runs_of s h + of_bool (h = k)" if "h < 4" for h using p four that by (simp add: pulled_def)
  have total: "total_completed s' = total_completed s + 1" using p by (simp add: pulled_def)
  show ?thesis
  proof (cases "total_completed s \<le> 3")
    case True
    then have "unplayed_arm s = Some (total_completed s)"
      using turns four active by (auto simp: unplayed_arm_def find_upto takes_turns_def)
    then have "k = total_completed s" using choice by simp
    then show ?thesis
      using turns True w runs total
      by (cases "total_completed s = 3") (auto simp: takes_turns_def All_less_4 split: if_splits)
  next
    case False
    then have played: "\<forall>h<4. runs_of s h > 0" and one: "runs_of s 3 = 1" using turns by (simp_all add: takes_turns_def)
    have none: "unplayed_arm s = None" using played four by (simp add: unplayed_arm_def find_upto_None)
    have first: "starving_arm s = Some h" if "h < 4" "2 \<le> waited s h" "\<forall>i<h. waited s i < 2" for h
      using that active four S by (auto simp: starving_arm_Some waited_def not_le)
    consider "waited s 0 \<ge> 2" | "waited s 0 < 2" "waited s 1 \<ge> 2" | "waited s 0 < 2" "waited s 1 < 2" "waited s 2 \<ge> 2"
      using turns False by (auto simp: takes_turns_def)
    then have "k = (if waited s 0 \<ge> 2 then 0 else if waited s 1 \<ge> 2 then 1 else 2)"
      using first [of 0] first [of 1] first [of 2] choice none
      by cases (auto simp: All_less_Suc numeral_2_eq_2)
    then show ?thesis
      using turns False w runs total played one
      by (auto simp: takes_turns_def All_less_4)
  qed
qed

text \<open>However many runs follow, the last of the four arms has run once.\<close>

lemma last_arm_starves:
  assumes new: "new_selector seeded c ids = Inr s0" and four: "length ids = 4" and c: "max_starvation_runs c = 2" "pc_policy c \<noteq> Racing"
    and pulls: "(pull env r)\<^sup>*\<^sup>* s0 s" and "total_completed s > 3"
  shows "runs_of s 3 = 1"
proof -
  have n: "length ids \<le> 2 ^ 64" using four by simp
  note start = new_selector_ok [OF new n]
  have s0: "arms s0 = map (\<lambda>i. \<lparr>arm_id = i, arm_state = new_arm_state ''sa'', eliminated = False, last_pulled_at = 0\<rparr>) ids"
    "total_completed s0 = 0"
    using new by (auto simp: new_selector_def split: if_splits)
  have "takes_turns s \<and> (\<forall>k<4. \<not> eliminated (arms s ! k))"
    using pulls
  proof (induction rule: rtranclp_induct)
    case base
    then show ?case using s0 four by (simp add: takes_turns_def waited_def new_arm_state_def)
  next
    case (step s s')
    have keep: "selector_ok s" "sel_config s = c" "length (arms s) = 4"
      using pulls_keep [OF step(1)] start four map_eq_imp_length_eq [of arm_id "arms s" arm_id "arms s0"]
      by (auto simp: s0)
    obtain k where k: "k < length (arms s)" "pulled k s s'"
      "case unplayed_arm s of Some h \<Rightarrow> k = h | None \<Rightarrow> (case starving_arm s of Some h \<Rightarrow> k = h | None \<Rightarrow> True)"
      by (rule pull_pulled [OF keep(1) step(2)]) blast
    have "takes_turns s'"
      by (rule takes_turns_step [OF keep(1,3) _ _ _ k(2) _ k(3)]) (use keep c step(3) k(1) in auto)
    then show ?case using step(3) k(2) keep c by (simp add: pulled_def)
  qed
  then show ?thesis using assms(6) by (simp add: takes_turns_def)
qed

end
