(* ===== verification/Spec2Isabelle.thy ===== *)
theory Spec2Isabelle
  imports Prelude Domain Matrix Solver_Core Route_Spec Evaluate Schedule Exact_Dp Exact_Search Exact_Solver
    Events Text Routing Candidates Orchestrator Api Service_Progress Exact_Service Result_Debug Initial Failure_Facts
    Remediation Error_Text Job_Runs Matrix_Outcomes Large_Solver Resources Policy_Facts
begin

text \<open>
  A model of troute, a service that plans the order in which to visit locations with opening hours,
  and what is proved of it. A request (\<open>src/api.rs\<close>) is validated into a problem, a matrix of travel
  times is taken from it or asked of a routing provider (\<open>src/routing\<close>, \<open>src/matrix\<close>), solvers search for
  an order (\<open>src/solver\<close>), the order becomes a schedule (\<open>src/schedule.rs\<close>) and a response
  (\<open>src/service\<close>). Requests run as jobs (\<open>src/jobs.rs\<close>) whose state is kept in files
  (\<open>src/storage.rs\<close>); a failed request is given suggestions (\<open>src/failure.rs\<close>).

  \<^bold>\<open>Conventions.\<close> A struct is a record, an enum a datatype, a \<open>Result\<close> a sum whose left side is the error,
  an \<open>Option\<close> an option. \<open>Prelude\<close> has the machine integers: unsigned ones are naturals with the
  bounds written out by the checked and saturating operations the code calls, the bit masks of the
  exact solver are words. A panic is a value of its own where the code could reach one. What a
  definition takes from the environment (provider, calendar, clock, random generator, floating
  point, threads) is an argument or a field of an environment record, about which nothing is
  assumed unless a theorem says so.

  \<^bold>\<open>Domain and routes.\<close>
  \<^item> \<open>Domain\<close> (\<open>src/domain.rs\<close>): times of day with parser and printer, windows, locations, problems.
  \<^item> \<open>Matrix\<close> (\<open>src/matrix.rs\<close>): dense and sparse matrices, their validation and lookup.
  \<^item> \<open>Solver_Core\<close> (\<open>src/solver/core\<close>): solver inputs, errors, metrics, the default objective. Reads of
    the cancellation token and of the deadline are an oracle of the input.
  \<^item> \<open>Evaluate\<close> (\<open>src/solver.rs\<close>, \<open>src/solver/exact/transition.rs\<close>): the common evaluator; \<open>Route_Spec\<close>
    says what a valid order and a workable walk are, without the code's arithmetic.
  \<^item> \<open>Schedule\<close> (\<open>src/schedule.rs\<close>): an order becomes timed stops, or an error that explains itself.

  The lemmas show that the evaluator accepts exactly the workable orders, picks the latest start
  when asked to, that schedules keep hours, stays and travel times, and that an accepted order
  is scheduled without error with the travel time of its metrics.

  \<^bold>\<open>The exact solver\<close> (\<open>src/solver/exact\<close>). \<open>Exact_Dp\<close> is the program: the earliest-time feasibility pass
  over subsets, the search with frontiers of Pareto-optimal states in an arena, the terminal
  selection and the trace back. \<open>Label_Dp\<close> is its specification, labels without masks or arena;
  \<open>Exact_Masks\<close> relates words to sets; \<open>Exact_Search\<close> and \<open>Exact_Feasible\<close> show that the program
  refines the labels; \<open>Exact_Solver\<close> concludes that it finds an optimal order whenever there is one.
  The location limit of the code keeps masks within 64 bits. Recursion is over the masks in
  order, so there is no fuel.

  \<^bold>\<open>Strategies and their selection\<close> (\<open>src/solver/core/candidate.rs\<close>, \<open>src/solver/orchestrator\<close>). \<open>Candidates\<close> has
  the way from what a strategy did (an answer, an error, a panic, a time-out) to a candidate, the
  accumulator with its incumbent, ranking and selection. \<open>Orchestrator\<close> shows that a selected route
  is valid whatever the strategies do, is the best of the candidates and the incumbent, and is
  optimal when the exact strategy ran.

  \<^bold>\<open>Initial routes\<close> (\<open>src/solver/initial\<close>). \<open>Loops\<close> has \<open>for\<close> loops that return early and the rule for
  \<open>while\<close> loops: a loop is \<open>while_option\<close>, and \<open>None\<close> means that it never ends, so that ending is
  always proved.
  \<^item> \<open>Initial\<close>: the checks of every generator and the greedy construction.
  \<^item> \<open>Mst\<close>: symmetric weights, Prim's tree, the doubled tree walk and its shortcut. \<open>Mst_Prim\<close> shows that
    the tree has least weight, \<open>Mst_Walk\<close> that the walk ends and passes each edge twice.
  \<^item> \<open>Matching\<close>: the configuration, the dynamic program over matched sets, and the strategy that hands
    larger instances to the crate \<open>integer_blossom\<close>, whose answer is a parameter that the code
    validates. \<open>Matching_Facts\<close> shows that the dynamic program is optimal.
  \<^item> \<open>Christofides\<close>: odd vertices, their distances, the Eulerian tour, the generator, and the random
    generator. \<open>Christofides_Tour\<close> has the parity argument of the tour, \<open>Christofides_Facts\<close> the generator
    as a whole: a least tree, a matching of exactly its odd vertices, a circuit of both.
  \<^item> \<open>Initial_Chain\<close>: the chain of generators that annealing starts from.

  \<^bold>\<open>The clustered solver\<close> (\<open>src/solver/heuristic/clustered\<close>). \<open>Clustered\<close> is the program: clusters, their
  order, the exact runs on the inner problems, the swaps across borders, the joined result. Its
  cluster, order and improvement strategies are arguments, with the strategies of the code as
  values. \<open>Clustered_Facts\<close> and \<open>Clustered_Result\<close> state the contracts of the three as locales and
  interpret them on those values; \<open>Clustered_Route\<close> has what an inner problem and its answer are.

  \<^bold>\<open>Annealing\<close> (\<open>src/solver/heuristic/annealing\<close>). \<open>Float64\<close> is IEEE double arithmetic with rounding to
  even, written on rationals and executable; \<open>Float64_Facts\<close> has what rounding keeps. \<open>Penalty\<close> is the
  penalized evaluation, \<open>Penalty_Facts\<close> its agreement with the common evaluator. \<open>Neighbor\<close> has the
  moves, \<open>Annealing\<close> the search and its result, \<open>Annealing_Facts\<close> and \<open>Annealing_Result\<close> its invariant, its
  end and its answers, over a locale for the neighborhood that the mixed strategy interprets;
  \<open>Large_Solver\<close> the solver with its default strategies. A run ends by its iteration limit, or
  because the temperature falls below a minimum that is not subnormal: below that a product with
  the cooling rate can round back to the temperature it came from.

  The generator of random numbers and the functions \<open>exp\<close>, \<open>ln\<close>, \<open>cos\<close>, \<open>sqrt\<close>, \<open>powf\<close> and \<open>powi\<close> are
  parameters, and so is the sign that a comparison with \<open>total_cmp\<close> sees on a NaN. A draw from a range
  repeats in the neighborhood until it differs, which may never happen: that is the hypothesis
  \<open>draws_end\<close> of the theorems that need it.

  \<^bold>\<open>Reads of the token inside a solver.\<close> A read is numbered by its place. \<open>inner_input k\<close> numbers the
  reads of an evaluation or an inner run that a solver makes at its place \<open>k\<close>; in annealing the initial
  strategy is place 0, the random fallback 1, the first and the final evaluation 2 and 3, and
  iteration \<open>n\<close> is place \<open>n + 4\<close>. No theorem assumes that two reads agree.

  \<^bold>\<open>Scheduling of runs\<close> (\<open>src/solver/portfolio\<close>). \<open>Resources\<close> (\<open>resources.rs\<close>): the manager of processor slots,
  process slots and memory, with claims, waits and releases as steps of threads that share its
  mutex; its invariant is that the recorded usage is what the leases hold. \<open>Policy\<close> (\<open>policy.rs\<close>): the
  policies, their configuration, the selector of restartable arms with its guards, samplers and
  racing; \<open>Policy_Facts\<close> shows that it always offers an arm of the race, that no arm starves if the
  starvation interval is long enough, and that one does if it is not.

  \<^bold>\<open>Requests, providers, the service.\<close>
  \<^item> \<open>Text\<close>: the string operations of the standard library that the code uses.
  \<^item> \<open>Events\<close> (\<open>src/events.rs\<close>): stages and percentages.
  \<^item> \<open>Routing\<close> (\<open>src/routing\<close>): contexts, errors, the provider registry, the selection policy.
  \<^item> \<open>Matrix_Builder\<close> (\<open>src/routing/matrix_builder.rs\<close>): worker threads, watchdog, caller and clock as one
    step relation; \<open>Matrix_Builds\<close> has its invariant, \<open>Matrix_Outcomes\<close> what a finished build returns,
    and that each worker step lowers the work that is left.
  \<^item> \<open>Api\<close> (\<open>src/api.rs\<close>): validation in the code's order, departures, responses.
  \<^item> \<open>Service\<close> (\<open>src/service.rs\<close>, \<open>src/service\<close>, \<open>src/result_debug.rs\<close>, \<open>src/euclidean.rs\<close>): the pipeline, in a
    state of the reports sent and the token reads made, with errors, panics and divergence as
    outcomes. \<open>Service_Progress\<close> has the reports and the token, \<open>Service_Correct\<close> the responses,
    \<open>Exact_Service\<close> the whole with the exact solver, \<open>Result_Debug\<close> the debug shuffle, whose loop ends
    exactly when the generator changes the order.
  \<^item> \<open>Failure\<close> (\<open>src/failure.rs\<close>) with \<open>Failure_Facts\<close>, \<open>Remediation\<close> (\<open>src/service/remediation.rs\<close>): details
    and suggestions of failures, the probes behind them, what a suggestion guarantees.

  \<^bold>\<open>Jobs and their store.\<close>
  \<^item> \<open>Storage\<close> (\<open>src/storage.rs\<close>): the disk, numbered file actions each of which can fail, and every
    operation of the store. A crash is a disk on which every later action fails.
  \<^item> \<open>Storage_Invariant\<close>: the invariant, how a job may change, weakest-precondition rules.
    \<open>Storage_Facts\<close>: every operation keeps it. \<open>Store_Steps\<close>: the step relation and the contract
    \<open>job_lifecycle\<close> that the runner relies on, with its interpretation.
  \<^item> \<open>Error_Text\<close>: the texts of errors.
  \<^item> \<open>Jobs\<close> (\<open>src/jobs.rs\<close>, \<open>src/job_pacing.rs\<close>, \<open>src/cancellation.rs\<close>, the cancel request of
    \<open>src/http/handlers/jobs.rs\<close>): the run of a job in a world where others act between any two of
    its accesses. \<open>Jobs_Store\<close> and \<open>Jobs_Facts\<close> show what the run and the others may do to the
    world, \<open>Job_Runs\<close> that completions are truthful, events valid and undisturbed runs complete.

  \<^bold>\<open>Assumptions of the modelling.\<close> A file that was written is read back as the value that was
  written: JSON text is not modelled. The debug assertions of the solvers, which a release build
  does not have, are left out. Run counters of annealing and of the arms are not bounded at 64
  bits. The conversion of a time of day into a local time is an expectation of the code; it is a
  possible panic of the pipeline, of the revalidation of a leg and of the probes after a failure,
  and is shown not to fire there.

  \<^bold>\<open>Not modelled.\<close> Serde attributes and JSON text; the HTTP server, configuration and logging, which
  wire the parts together; the clients of external services and native solvers
  (\<open>src/providers/tcache\<close>, \<open>src/solver/mip\<close>, \<open>src/solver/external\<close>), whose answers enter as data; the loop
  of the orchestrator over batches, clocks and threads (\<open>src/solver/orchestrator/runner.rs\<close>), whose results
  enter as the list of outcomes; the descriptors, the instance features and the telemetry of the
  portfolio; the timeline files; the benchmark binaries.
\<close>

end
